(* ===== verification/Prelude.thy ===== *)
theory Prelude
  imports Main "HOL-Library.List_Lexorder" "HOL-Library.Char_ord"
begin

text \<open>
  The vocabulary every component shares: results as sums, 64-bit integers, Go's string
  functions on byte strings, decimal conversion as in Go's \<open>strconv\<close>, and two contracts
  (\<open>op_machine\<close>, \<open>step_invariant\<close>) that lift a one-step invariant to whole runs.

  A Go string is a byte sequence, which is what \<^typ>\<open>string\<close> is. The white-space and
  case functions are those of Go on ASCII text: the two multi-byte white-space characters
  that \<open>strings.TrimSpace\<close> also drops, and case mapping outside ASCII, are not modelled.
\<close>

named_theorems go_str \<open>definitions of the string functions, for evaluating closed terms\<close>

section \<open>Results\<close>

text \<open>A Go function that returns \<open>(value, error)\<close> returns \<open>Inl error\<close> or \<open>Inr value\<close>.\<close>

fun bind_res :: "'e + 'a \<Rightarrow> ('a \<Rightarrow> 'e + 'b) \<Rightarrow> 'e + 'b" where
  "bind_res (Inl e) f = Inl e"
| "bind_res (Inr a) f = f a"

text \<open>A loop that stops at the first error.\<close>

fun fold_res :: "('s \<Rightarrow> 'a \<Rightarrow> 'e + 's) \<Rightarrow> 's \<Rightarrow> 'a list \<Rightarrow> 'e + 's" where
  "fold_res f s [] = Inr s"
| "fold_res f s (x # xs) = bind_res (f s x) (\<lambda>s'. fold_res f s' xs)"

lemma bind_res_Inl_iff: "bind_res r f = Inl e \<longleftrightarrow> r = Inl e \<or> (\<exists>a. r = Inr a \<and> f a = Inl e)"
  by (cases r) auto

lemma bind_res_Inr_iff: "bind_res r f = Inr b \<longleftrightarrow> (\<exists>a. r = Inr a \<and> f a = Inr b)"
  by (cases r) auto

lemma fold_res_invariant:
  assumes "fold_res f s xs = Inr t" and "I s"
    and "\<And>s x s'. x \<in> set xs \<Longrightarrow> I s \<Longrightarrow> f s x = Inr s' \<Longrightarrow> I s'"
  shows "I t"
  using assms by (induction xs arbitrary: s) (auto simp: bind_res_Inr_iff)

section \<open>64-bit signed integers\<close>

text \<open>Go's \<open>int\<close> is 64 bits wide here and wraps around.\<close>

definition max_int64 :: int where
  "max_int64 = 9223372036854775807"

definition min_int64 :: int where
  "min_int64 = -9223372036854775808"

definition wrap64 :: "int \<Rightarrow> int" where
  "wrap64 n = (n + 9223372036854775808) mod 18446744073709551616 - 9223372036854775808"

definition in_int64 :: "int \<Rightarrow> bool" where
  "in_int64 n \<longleftrightarrow> min_int64 \<le> n \<and> n \<le> max_int64"

lemma wrap64_id [simp]: "in_int64 n \<Longrightarrow> wrap64 n = n"
  by (simp add: wrap64_def in_int64_def min_int64_def max_int64_def)

lemma wrap64_range: "in_int64 (wrap64 n)"
proof -
  have "0 \<le> (n + 9223372036854775808) mod 18446744073709551616"
    and "(n + 9223372036854775808) mod 18446744073709551616 < 18446744073709551616"
    by simp_all
  then show ?thesis
    by (simp add: wrap64_def in_int64_def min_int64_def max_int64_def)
qed

lemma wrap64_add [simp]: "wrap64 (wrap64 a + b) = wrap64 (a + b)" "wrap64 (a + wrap64 b) = wrap64 (a + b)"
proof -
  have *: "wrap64 (wrap64 a + b) = wrap64 (a + b)" for a b
  proof -
    have "wrap64 a + b + 9223372036854775808 = (a + 9223372036854775808) mod 18446744073709551616 + b"
      by (simp add: wrap64_def)
    then have "wrap64 (wrap64 a + b)
        = ((a + 9223372036854775808) mod 18446744073709551616 + b) mod 18446744073709551616 - 9223372036854775808"
      by (simp only: wrap64_def [of "wrap64 a + b"])
    also have "((a + 9223372036854775808) mod 18446744073709551616 + b) mod 18446744073709551616
        = (a + 9223372036854775808 + b) mod 18446744073709551616" by (rule mod_add_left_eq)
    finally show ?thesis by (simp add: wrap64_def [of "a + b"] add_ac)
  qed
  show "wrap64 (wrap64 a + b) = wrap64 (a + b)" by (rule *)
  show "wrap64 (a + wrap64 b) = wrap64 (a + b)" using * [of b a] by (simp add: add.commute)
qed

section \<open>Strings\<close>
definition has_prefix :: "string \<Rightarrow> string \<Rightarrow> bool" where
  [go_str]: "has_prefix s p \<longleftrightarrow> take (length p) s = p"

definition has_suffix :: "string \<Rightarrow> string \<Rightarrow> bool" where
  [go_str]: "has_suffix s p \<longleftrightarrow> length p \<le> length s \<and> drop (length s - length p) s = p"

fun str_contains :: "string \<Rightarrow> string \<Rightarrow> bool" where
  "str_contains [] p \<longleftrightarrow> p = []"
| "str_contains (c # s) p \<longleftrightarrow> has_prefix (c # s) p \<or> str_contains s p"

definition trim_prefix :: "string \<Rightarrow> string \<Rightarrow> string" where
  [go_str]: "trim_prefix s p = (if has_prefix s p then drop (length p) s else s)"

definition is_space :: "char \<Rightarrow> bool" where
  [go_str]: "is_space c \<longleftrightarrow> c = CHR '' '' \<or> (9 \<le> (of_char c :: nat) \<and> (of_char c :: nat) \<le> 13)"

definition trim_space :: "string \<Rightarrow> string" where
  [go_str]: "trim_space s = rev (dropWhile is_space (rev (dropWhile is_space s)))"

definition lower_char :: "char \<Rightarrow> char" where
  [go_str]: "lower_char c =
    (if 65 \<le> (of_char c :: nat) \<and> (of_char c :: nat) \<le> 90 then char_of ((of_char c :: nat) + 32) else c)"

definition to_lower :: "string \<Rightarrow> string" where
  [go_str]: "to_lower s = map lower_char s"

text \<open>\<open>strings.Split(s, sep)\<close> for a one-byte separator: never empty.\<close>

fun split_char :: "char \<Rightarrow> string \<Rightarrow> string list" where
  "split_char d [] = [[]]"
| "split_char d (c # s) =
    (if c = d then [] # split_char d s
     else (case split_char d s of [] \<Rightarrow> [[c]] | w # ws \<Rightarrow> (c # w) # ws))"

fun join_str :: "string \<Rightarrow> string list \<Rightarrow> string" where
  "join_str sep [] = []"
| "join_str sep [w] = w"
| "join_str sep (w # ws) = w @ sep @ join_str sep ws"

lemma has_prefix_append [simp]: "has_prefix (p @ s) p"
  by (simp add: has_prefix_def)

lemma has_prefix_Nil [simp]: "has_prefix s []"
  by (simp add: has_prefix_def)

lemma has_prefix_iff: "has_prefix s p \<longleftrightarrow> (\<exists>r. s = p @ r)"
proof
  assume "has_prefix s p"
  then have "s = p @ drop (length p) s"
    by (metis append_take_drop_id has_prefix_def)
  then show "\<exists>r. s = p @ r" ..
qed auto

lemma str_contains_iff: "str_contains s q \<longleftrightarrow> (\<exists>a b. s = a @ q @ b)"
proof
  assume "str_contains s q"
  then show "\<exists>a b. s = a @ q @ b"
  proof (induction s)
    case (Cons c s)
    then consider r where "c # s = q @ r" | a b where "s = a @ q @ b" by (auto simp: has_prefix_iff)
    then show ?case
    proof cases
      case 1
      then show ?thesis by (metis append_Nil)
    next
      case 2
      then have "c # s = (c # a) @ q @ b" by simp
      then show ?thesis by blast
    qed
  qed simp
next
  assume "\<exists>a b. s = a @ q @ b"
  then obtain a b where "s = a @ q @ b" by blast
  moreover have "str_contains (q @ b) q" using has_prefix_append [of q b] by (cases "q @ b") auto
  then have "str_contains (a @ q @ b) q" by (induction a) auto
  ultimately show "str_contains s q" by simp
qed

lemma split_char_not_Nil [simp]: "split_char d s \<noteq> []"
  by (induction s) (auto split: list.splits)

lemma join_split [simp]: "join_str [d] (split_char d s) = s"
proof (induction s)
  case (Cons c s)
  then show ?case
    by (cases "split_char d s" rule: list.exhaust; cases "tl (split_char d s)")
       (auto split: list.splits)
qed simp

lemma split_char_no_sep: "w \<in> set (split_char d s) \<Longrightarrow> d \<notin> set w"
  by (induction s arbitrary: w) (auto split: list.splits if_splits)

section \<open>Decimal conversion\<close>

definition digit_char :: "nat \<Rightarrow> char" where
  "digit_char d = char_of (48 + d)"

fun nat_str :: "nat \<Rightarrow> string" where
  "nat_str n = (if n < 10 then [digit_char n] else nat_str (n div 10) @ [digit_char (n mod 10)])"

declare nat_str.simps [simp del]

text \<open>\<open>strconv.Itoa\<close>.\<close>

definition itoa :: "int \<Rightarrow> string" where
  "itoa i = (if i < 0 then CHR ''-'' # nat_str (nat (- i)) else nat_str (nat i))"

definition is_digit :: "char \<Rightarrow> bool" where
  [go_str]: "is_digit c \<longleftrightarrow> 48 \<le> (of_char c :: nat) \<and> (of_char c :: nat) \<le> 57"

fun parse_digits :: "nat \<Rightarrow> string \<Rightarrow> nat option" where
  "parse_digits acc [] = Some acc"
| "parse_digits acc (c # s) =
    (if is_digit c then parse_digits (10 * acc + (of_char c - 48)) s else None)"

definition parse_nat :: "string \<Rightarrow> nat option" where
  "parse_nat s = (if s = [] then None else parse_digits 0 s)"

text \<open>\<open>strconv.Atoi\<close>: an optional sign, at least one digit, and a 64-bit result.\<close>

definition range64 :: "int option \<Rightarrow> int option" where
  "range64 r = (case r of None \<Rightarrow> None | Some i \<Rightarrow> if in_int64 i then Some i else None)"

definition atoi :: "string \<Rightarrow> int option" where
  "atoi s = (case s of
      [] \<Rightarrow> None
    | c # r \<Rightarrow>
        if c = CHR ''-'' then range64 (map_option (\<lambda>n. - int n) (parse_nat r))
        else if c = CHR ''+'' then range64 (map_option int (parse_nat r))
        else range64 (map_option int (parse_nat s)))"

lemma parse_digits_append:
  "parse_digits a (s @ t) = (case parse_digits a s of None \<Rightarrow> None | Some b \<Rightarrow> parse_digits b t)"
  by (induction s arbitrary: a) auto

lemma of_char_digit [simp]: "d < 10 \<Longrightarrow> (of_char (digit_char d) :: nat) = 48 + d"
  by (simp add: digit_char_def)

lemma is_digit_digit_char [simp]: "d < 10 \<Longrightarrow> is_digit (digit_char d)"
  by (simp add: is_digit_def)

lemma nat_str_digits: "c \<in> set (nat_str n) \<Longrightarrow> is_digit c"
proof (induction n rule: nat_str.induct)
  case (1 n)
  then show ?case by (auto simp: nat_str.simps [of n] split: if_splits)
qed

lemma nat_str_not_Nil [simp]: "nat_str n \<noteq> []"
  by (subst nat_str.simps) simp

lemma parse_digits_nat_str: "parse_digits 0 (nat_str n) = Some n"
proof (induction n rule: nat_str.induct)
  case (1 n)
  show ?case
  proof (cases "n < 10")
    case True
    then show ?thesis by (subst nat_str.simps) simp
  next
    case False
    with "1" have "parse_digits 0 (nat_str (n div 10)) = Some (n div 10)" by simp
    with False show ?thesis
      by (subst nat_str.simps) (simp add: parse_digits_append)
  qed
qed

lemma parse_nat_nat_str [simp]: "parse_nat (nat_str n) = Some n"
  by (simp add: parse_nat_def parse_digits_nat_str)

lemma nat_str_head:
  assumes "nat_str n = c # r"
  shows "c \<noteq> CHR ''-'' \<and> c \<noteq> CHR ''+''"
proof -
  have "is_digit c" using nat_str_digits [of c n] assms by simp
  then show ?thesis by (auto simp: is_digit_def)
qed

lemma atoi_itoa [simp]:
  assumes "in_int64 i"
  shows "atoi (itoa i) = Some i"
proof (cases "i < 0")
  case True
  with assms show ?thesis by (simp add: itoa_def atoi_def range64_def)
next
  case False
  then obtain c r where cr: "nat_str (nat i) = c # r"
    by (cases "nat_str (nat i)") auto
  with nat_str_head [OF cr] False assms parse_nat_nat_str [of "nat i"] show ?thesis
    by (simp add: itoa_def atoi_def range64_def)
qed

lemma itoa_inj: "in_int64 i \<Longrightarrow> in_int64 j \<Longrightarrow> itoa i = itoa j \<Longrightarrow> i = j"
  by (metis atoi_itoa option.inject)

lemma atoi_range: "atoi s = Some i \<Longrightarrow> in_int64 i"
  by (auto simp: atoi_def range64_def split: list.splits if_splits option.splits)

section \<open>Runs of operations\<close>

text \<open>
  A component whose operations all keep \<open>inv\<close> keeps it over any sequence of calls,
  whatever their order and arguments.
\<close>

locale op_machine =
  fixes step :: "'op \<Rightarrow> 's \<Rightarrow> 's"
    and inv :: "'s \<Rightarrow> bool"
  assumes step_inv: "inv s \<Longrightarrow> inv (step a s)"
begin

lemma run_inv: "inv s \<Longrightarrow> inv (fold step as s)"
  by (induction as arbitrary: s) (simp_all add: step_inv)

lemma run_reaches_inv: "inv s \<Longrightarrow> t = fold step as s \<Longrightarrow> inv t"
  by (simp add: run_inv)

end

text \<open>The same for a nondeterministic component given by a step relation.\<close>

locale step_invariant =
  fixes step :: "'s \<Rightarrow> 's \<Rightarrow> bool"
    and inv :: "'s \<Rightarrow> bool"
  assumes step_keeps: "inv s \<Longrightarrow> step s t \<Longrightarrow> inv t"
begin

lemma reach_inv: "step\<^sup>*\<^sup>* s t \<Longrightarrow> inv s \<Longrightarrow> inv t"
  by (induction rule: rtranclp.induct) (auto intro: step_keeps)

end

end
