(* ===== verification/Registries.thy ===== *)
theory Registries
  imports Prelude
begin

text \<open>
  The three in-memory registries of the core: agent definitions
  (\<open>core/agent/memory_registry.go\<close>), tools (\<open>core/tool/memory_registry.go\<close>) and slash
  commands (\<open>core/command/registry.go\<close>). Each keeps a map from names to items and the
  registration order. \<open>name_registry\<close> is the contract the first two share; the command
  registry also stores aliases and has its own lemmas.

  A pointer receiver that the code checks against nil is an \<open>option\<close>.
\<close>

section \<open>The contract of a named registry\<close>

locale name_registry =
  fixes get :: "'r \<Rightarrow> string \<Rightarrow> 'v option"
    and names :: "'r \<Rightarrow> string list"
    and items :: "'r \<Rightarrow> 'v option list"
    and register :: "'r \<Rightarrow> 'v \<Rightarrow> 'e + 'r"
    and key :: "'v \<Rightarrow> string"
    and inv :: "'r \<Rightarrow> bool"
  assumes register_get: "inv r \<Longrightarrow> register r v = Inr r' \<Longrightarrow> get r' = (get r)(key v \<mapsto> v)"
    and register_names: "inv r \<Longrightarrow> register r v = Inr r' \<Longrightarrow> names r' = names r @ [key v]"
    and register_fresh: "inv r \<Longrightarrow> register r v = Inr r' \<Longrightarrow> get r (key v) = None"
    and register_accepts:
      "inv r \<Longrightarrow> get r (key v) = None \<Longrightarrow> key v \<noteq> [] \<Longrightarrow> \<exists>r'. register r v = Inr r'"
    and register_inv: "inv r \<Longrightarrow> register r v = Inr r' \<Longrightarrow> inv r'"
    and names_dom: "inv r \<Longrightarrow> set (names r) = dom (get r)"
    and items_names: "inv r \<Longrightarrow> items r = map (get r) (names r)"
begin

lemma registered_all:
  assumes "fold_res register r vs = Inr r'" and "inv r"
  shows "inv r'" and "names r' = names r @ map key vs"
    and "distinct (map key vs) \<and> set (map key vs) \<inter> dom (get r) = {}"
    and "get r' = (get r)(map key vs [\<mapsto>] vs)"
proof -
  have "inv r' \<and> names r' = names r @ map key vs
      \<and> distinct (map key vs) \<and> set (map key vs) \<inter> dom (get r) = {}
      \<and> get r' = (get r)(map key vs [\<mapsto>] vs)"
    using assms
  proof (induction vs arbitrary: r)
    case (Cons v vs)
    from Cons.prems(1) obtain r1 where r1: "register r v = Inr r1"
      and rest: "fold_res register r1 vs = Inr r'"
      by (auto simp: bind_res_Inr_iff)
    note one = register_get [OF Cons.prems(2) r1] register_names [OF Cons.prems(2) r1]
      register_fresh [OF Cons.prems(2) r1] register_inv [OF Cons.prems(2) r1]
    from Cons.IH [OF rest one(4)] one show ?case by (auto simp: fun_upd_def)
  qed simp
  then show "inv r'" and "names r' = names r @ map key vs"
    and "distinct (map key vs) \<and> set (map key vs) \<inter> dom (get r) = {}"
    and "get r' = (get r)(map key vs [\<mapsto>] vs)"
    by blast+
qed

lemma map_of_update:
  assumes "distinct (map key vs)" and "v \<in> set vs"
  shows "(m(map key vs [\<mapsto>] vs)) (key v) = Some v"
  using assms by (induction vs arbitrary: m) (auto simp: map_upds_apply_nontin rev_image_eqI)

lemma items_after_register_all:
  assumes "fold_res register r vs = Inr r'" and "inv r" and "names r = []"
  shows "items r' = map Some vs"
proof -
  note all = registered_all [OF assms(1,2)]
  have "items r' = map (\<lambda>v. get r' (key v)) vs"
    using items_names [OF all(1)] all(2) assms(3) by simp
  also have "\<dots> = map Some vs"
    using all(3,4) by (intro map_cong refl) (simp only: map_of_update)
  finally show ?thesis .
qed

lemma second_registration_rejected:
  assumes "inv r" and "register r v = Inr r'" and "key w = key v"
  shows "\<exists>e. register r' w = Inl e"
proof (cases "register r' w")
  case (Inr r2)
  from register_fresh [OF register_inv [OF assms(1,2)] Inr] assms(3)
    register_get [OF assms(1,2)] show ?thesis by simp
qed simp

end

section \<open>Agent definitions\<close>

text \<open>
  \<open>agent.Definition\<close>. The prompt provider, the inline MCP servers, the hooks and the
  free-form settings are the record's extension, since no registry operation reads them.
\<close>

record agent_def =
  AgentType :: string
  WhenToUse :: string
  AgentSource :: string
  AgentTools :: "string list option"
  DisallowedTools :: "string list"
  Skills :: "string list"
  AgentModel :: string
  Effort :: string
  PermissionMode :: string
  MaxTurns :: int
  Background :: bool
  Memory :: string
  Isolation :: string
  OmitClaudeMd :: bool
  Plugin :: string
  Filename :: string
  BaseDir :: string
  SystemPrompt :: string
  InitialPrompt :: string
  CriticalSystemReminder :: string
  Color :: string

definition IsBuiltIn :: "'x agent_def_scheme \<Rightarrow> bool" where
  "IsBuiltIn d \<longleftrightarrow> AgentSource d = ''built-in''"

definition IsPlugin :: "'x agent_def_scheme \<Rightarrow> bool" where
  "IsPlugin d \<longleftrightarrow> AgentSource d = ''plugin''"

definition IsCustom :: "'x agent_def_scheme \<Rightarrow> bool" where
  "IsCustom d \<longleftrightarrow> \<not> IsBuiltIn d \<and> \<not> IsPlugin d"

datatype registry_error = NilRegistry | NilItem | EmptyName | AlreadyRegistered string
  | NotFound string | EmptyAlias | OwnAlias string

record 'd agent_registry =
  ag_defs :: "string \<Rightarrow> 'd option"
  ag_order :: "string list"

definition new_agent_registry :: "'d agent_registry option" where
  "new_agent_registry = Some \<lparr>ag_defs = (\<lambda>_. None), ag_order = []\<rparr>"

definition agent_register ::
  "'x agent_def_scheme agent_registry option \<Rightarrow> 'x agent_def_scheme
    \<Rightarrow> registry_error + 'x agent_def_scheme agent_registry option" where
  "agent_register p d = (case p of
      None \<Rightarrow> Inl NilRegistry
    | Some r \<Rightarrow>
        if AgentType d = [] then Inl EmptyName
        else if ag_defs r (AgentType d) \<noteq> None then Inl (AlreadyRegistered (AgentType d))
        else Inr (Some (r\<lparr>ag_defs := (ag_defs r)(AgentType d \<mapsto> d),
                         ag_order := ag_order r @ [AgentType d]\<rparr>)))"

definition agent_get :: "'d agent_registry option \<Rightarrow> string \<Rightarrow> 'd option" where
  "agent_get p t = (case p of None \<Rightarrow> None | Some r \<Rightarrow> ag_defs r t)"

definition agent_list :: "'d agent_registry option \<Rightarrow> 'd option list" where
  "agent_list p = (case p of None \<Rightarrow> [] | Some r \<Rightarrow> map (ag_defs r) (ag_order r))"

definition agent_remove ::
  "'d agent_registry option \<Rightarrow> string \<Rightarrow> bool \<times> 'd agent_registry option" where
  "agent_remove p t = (case p of
      None \<Rightarrow> (False, None)
    | Some r \<Rightarrow>
        if ag_defs r t = None then (False, Some r)
        else (True, Some (r\<lparr>ag_defs := (ag_defs r)(t := None),
                            ag_order := filter (\<lambda>x. x \<noteq> t) (ag_order r)\<rparr>)))"

definition agent_names :: "'d agent_registry option \<Rightarrow> string list" where
  "agent_names p = (case p of None \<Rightarrow> [] | Some r \<Rightarrow> ag_order r)"

definition agent_registry_wf :: "'d agent_registry option \<Rightarrow> bool" where
  "agent_registry_wf p \<longleftrightarrow>
    (\<exists>r. p = Some r \<and> distinct (ag_order r) \<and> set (ag_order r) = dom (ag_defs r))"

lemmas agent_registry_defs =
  agent_register_def agent_get_def agent_list_def agent_remove_def agent_names_def
  agent_registry_wf_def new_agent_registry_def

lemma agent_registry_wf_new [simp]: "agent_registry_wf new_agent_registry"
  by (simp add: agent_registry_defs)

lemma agent_remove_wf: "agent_registry_wf p \<Longrightarrow> agent_registry_wf (snd (agent_remove p t))"
  by (auto simp: agent_registry_defs)

interpretation agents: name_registry agent_get agent_names agent_list agent_register
    AgentType agent_registry_wf
  by unfold_locales
    (auto simp: agent_registry_defs split: if_splits option.splits)

text \<open>Removing a registered definition undoes its registration.\<close>

lemma agent_remove_register:
  assumes "agent_registry_wf p" and "agent_register p d = Inr q"
  shows "agent_remove q (AgentType d) = (True, p)"
proof -
  from assms(1) obtain r where r: "p = Some r" "set (ag_order r) = dom (ag_defs r)"
    by (auto simp: agent_registry_wf_def)
  with assms(2) have fresh: "ag_defs r (AgentType d) = None"
    and q: "q = Some (r\<lparr>ag_defs := (ag_defs r)(AgentType d \<mapsto> d),
                         ag_order := ag_order r @ [AgentType d]\<rparr>)"
    by (auto simp: agent_register_def split: if_splits)
  from fresh r(2) have "AgentType d \<notin> set (ag_order r)" by auto
  then have "filter (\<lambda>x. x \<noteq> AgentType d) (ag_order r) = ag_order r"
    by (auto simp: filter_id_conv)
  moreover have "(ag_defs r)(AgentType d := None) = ag_defs r" using fresh by auto
  ultimately show ?thesis using q r(1) by (simp add: agent_remove_def)
qed

section \<open>Tools\<close>

text \<open>
  \<open>tool.MemoryRegistry\<close>, over any type of tools with a name. \<open>Register\<close> takes an
  interface value, so nil is a case of its own.
\<close>

record 't tool_registry =
  tr_tools :: "string \<Rightarrow> 't option"
  tr_order :: "string list"

definition new_tool_registry :: "'t tool_registry" where
  "new_tool_registry = \<lparr>tr_tools = (\<lambda>_. None), tr_order = []\<rparr>"

definition tool_register ::
  "('t \<Rightarrow> string) \<Rightarrow> 't tool_registry \<Rightarrow> 't option \<Rightarrow> registry_error + 't tool_registry" where
  "tool_register name r t = (case t of
      None \<Rightarrow> Inl NilItem
    | Some tool \<Rightarrow>
        if name tool = [] then Inl EmptyName
        else if tr_tools r (name tool) \<noteq> None then Inl (AlreadyRegistered (name tool))
        else Inr (r\<lparr>tr_tools := (tr_tools r)(name tool \<mapsto> tool),
                    tr_order := tr_order r @ [name tool]\<rparr>))"

definition tool_get :: "'t tool_registry \<Rightarrow> string \<Rightarrow> 't option" where
  "tool_get r n = tr_tools r n"

definition tool_list :: "'t tool_registry \<Rightarrow> 't option list" where
  "tool_list r = map (tr_tools r) (tr_order r)"

definition tool_registry_wf :: "'t tool_registry \<Rightarrow> bool" where
  "tool_registry_wf r \<longleftrightarrow> distinct (tr_order r) \<and> set (tr_order r) = dom (tr_tools r)"

lemmas tool_registry_defs =
  tool_register_def tool_get_def tool_list_def tool_registry_wf_def new_tool_registry_def

lemma tool_registry_wf_new [simp]: "tool_registry_wf new_tool_registry"
  by (simp add: tool_registry_defs)

interpretation tools: name_registry tool_get tr_order tool_list
    "\<lambda>r t. tool_register name r (Some t)" name tool_registry_wf for name
  by unfold_locales (auto simp: tool_registry_defs split: if_splits)

section \<open>Slash commands\<close>

text \<open>
  \<open>command.InMemoryRegistry\<close>: a command answers to its name and its aliases, each
  normalised by \<open>NormalizeName\<close>; the order lists names only.
\<close>

record command =
  CmdName :: string
  Aliases :: "string list"
  CmdDescription :: string
  CmdUsage :: string
  Hidden :: bool

record command_registry =
  commands :: "string \<Rightarrow> command option"
  cmd_order :: "string list"

definition NormalizeName :: "string \<Rightarrow> string" where
  "NormalizeName n = to_lower (trim_space (trim_prefix n ''/''))"

definition new_command_registry :: "command_registry option" where
  "new_command_registry = Some \<lparr>commands = (\<lambda>_. None), cmd_order = []\<rparr>"

text \<open>The loop of \<open>Register\<close> that collects the identifiers, in order, or fails.\<close>

fun check_identifiers ::
  "(string \<Rightarrow> command option) \<Rightarrow> string list \<Rightarrow> string list \<Rightarrow> registry_error + string list" where
  "check_identifiers m seen [] = Inr seen"
| "check_identifiers m seen (i # is) =
    (let n = NormalizeName i in
     if n = [] then Inl EmptyAlias
     else if n \<in> set seen then Inl (OwnAlias n)
     else if m n \<noteq> None then Inl (AlreadyRegistered n)
     else check_identifiers m (seen @ [n]) is)"

definition cmd_register ::
  "command_registry option \<Rightarrow> command option \<Rightarrow> registry_error + command_registry option" where
  "cmd_register p c = (case p of
      None \<Rightarrow> Inl NilRegistry
    | Some r \<Rightarrow> (case c of
        None \<Rightarrow> Inl NilItem
      | Some cmd \<Rightarrow>
          let name = NormalizeName (CmdName cmd) in
          if name = [] then Inl EmptyName
          else bind_res (check_identifiers (commands r) [] (name # Aliases cmd)) (\<lambda>seen.
            Inr (Some (r\<lparr>commands := (\<lambda>i. if i \<in> set seen then Some cmd else commands r i),
                         cmd_order := cmd_order r @ [name]\<rparr>)))))"

definition cmd_get :: "command_registry option \<Rightarrow> string \<Rightarrow> command option" where
  "cmd_get p n = (case p of None \<Rightarrow> None | Some r \<Rightarrow> commands r (NormalizeName n))"

text \<open>The loop of \<open>Unregister\<close> that drops the first order entry with the command's name.\<close>

fun drop_first_name :: "string \<Rightarrow> string list \<Rightarrow> string list" where
  "drop_first_name n [] = []"
| "drop_first_name n (x # xs) =
    (if NormalizeName x = NormalizeName n then xs else x # drop_first_name n xs)"

definition cmd_unregister ::
  "command_registry option \<Rightarrow> string \<Rightarrow> registry_error + command_registry option" where
  "cmd_unregister p name = (case p of
      None \<Rightarrow> Inl NilRegistry
    | Some r \<Rightarrow>
        let n = NormalizeName name in
        if n = [] then Inl EmptyName
        else (case commands r n of
          None \<Rightarrow> Inl (NotFound n)
        | Some cmd \<Rightarrow>
            Inr (Some (r\<lparr>commands := (\<lambda>i. if i \<in> NormalizeName ` set (CmdName cmd # Aliases cmd)
                                          then None else commands r i),
                         cmd_order := drop_first_name (CmdName cmd) (cmd_order r)\<rparr>))))"

definition cmd_list :: "command_registry option \<Rightarrow> command option list" where
  "cmd_list p = (case p of None \<Rightarrow> [] | Some r \<Rightarrow> map (commands r) (cmd_order r))"

text \<open>Every listed name of a well-formed registry is in normal form and resolves to a command.\<close>

definition cmd_registry_wf :: "command_registry option \<Rightarrow> bool" where
  "cmd_registry_wf p \<longleftrightarrow>
    (\<exists>r. p = Some r \<and> (\<forall>x \<in> set (cmd_order r). NormalizeName x = x \<and> commands r x \<noteq> None))"

lemma check_identifiers_Inr:
  "check_identifiers m seen is = Inr s \<Longrightarrow>
    s = seen @ map NormalizeName is \<and> (\<forall>i \<in> set is. m (NormalizeName i) = None)
    \<and> (\<forall>i \<in> set is. NormalizeName i \<noteq> [])"
  by (induction m seen "is" arbitrary: s rule: check_identifiers.induct)
     (auto simp: Let_def split: if_splits)

lemma cmd_register_Inr:
  assumes "cmd_register p (Some c) = Inr q"
  shows "\<exists>r. p = Some r \<and> NormalizeName (CmdName c) \<noteq> [] \<and>
    (\<forall>i \<in> NormalizeName ` set (NormalizeName (CmdName c) # Aliases c). i \<noteq> [] \<and> commands r i = None) \<and>
    q = Some (r\<lparr>commands :=
        (\<lambda>i. if i \<in> NormalizeName ` set (NormalizeName (CmdName c) # Aliases c)
             then Some c else commands r i),
      cmd_order := cmd_order r @ [NormalizeName (CmdName c)]\<rparr>)"
  using assms
  by (auto simp: cmd_register_def Let_def bind_res_Inr_iff split: option.splits if_splits
      dest!: check_identifiers_Inr)

lemma cmd_register_wf:
  assumes "cmd_registry_wf p" and "cmd_register p (Some c) = Inr q"
    and "NormalizeName (NormalizeName (CmdName c)) = NormalizeName (CmdName c)"
  shows "cmd_registry_wf q"
  using assms(1,3) cmd_register_Inr [OF assms(2)]
  by (auto simp: cmd_registry_wf_def)

lemma drop_first_name_last:
  "(\<And>x. x \<in> set xs \<Longrightarrow> NormalizeName x \<noteq> NormalizeName n) \<Longrightarrow> NormalizeName y = NormalizeName n
    \<Longrightarrow> drop_first_name n (xs @ [y]) = xs"
  by (induction xs) auto

text \<open>
  unregistering a command under its name or any of its aliases exactly undoes its
  registration: lookups and listing order are those from before.
\<close>

theorem cmd_unregister_register:
  assumes "cmd_registry_wf p"
    and "NormalizeName (NormalizeName (CmdName c)) = NormalizeName (CmdName c)"
    and "cmd_register p (Some c) = Inr q"
    and "n \<in> set (CmdName c # Aliases c)"
  shows "cmd_unregister q n = Inr p"
proof -
  define ids where "ids = NormalizeName ` set (CmdName c # Aliases c)"
  from cmd_register_Inr [OF assms(3)] assms(2) obtain r where r: "p = Some r"
    and free: "\<forall>i \<in> ids. i \<noteq> [] \<and> commands r i = None"
    and q: "q = Some (r\<lparr>commands := (\<lambda>i. if i \<in> ids then Some c else commands r i),
      cmd_order := cmd_order r @ [NormalizeName (CmdName c)]\<rparr>)"
    by (auto simp: ids_def)
  have n: "NormalizeName n \<in> ids" and name: "NormalizeName (CmdName c) \<in> ids"
    using assms(4) by (auto simp: ids_def)
  have others: "NormalizeName x \<noteq> NormalizeName (CmdName c)" if "x \<in> set (cmd_order r)" for x
    using that assms(1) free name r by (auto simp: cmd_registry_wf_def)
  have "drop_first_name (CmdName c) (cmd_order r @ [NormalizeName (CmdName c)]) = cmd_order r"
    using others assms(2) by (rule drop_first_name_last)
  moreover have "(\<lambda>i. if i \<in> ids then None else if i \<in> ids then Some c else commands r i)
      = commands r"
    using free by auto
  moreover have "NormalizeName n \<noteq> []" using n free by blast
  ultimately show ?thesis
    using n q r unfolding cmd_unregister_def
    by (simp add: Let_def cong: if_cong del: image_insert list.simps(15) flip: ids_def)
qed

definition sample_command :: command where
  "sample_command = \<lparr>CmdName = ''/Help'', Aliases = [''h''], CmdDescription = [], CmdUsage = [],
     Hidden = False\<rparr>"

theorem cmd_unregister_register_witness:
  "bind_res (cmd_register new_command_registry (Some sample_command)) (\<lambda>q. cmd_unregister q ''h'')
    = Inr new_command_registry"
proof -
  have wf: "cmd_registry_wf new_command_registry"
    by (simp add: cmd_registry_wf_def new_command_registry_def)
  have idem: "NormalizeName (NormalizeName (CmdName sample_command))
      = NormalizeName (CmdName sample_command)"
    by code_simp
  have "\<not> isl (cmd_register new_command_registry (Some sample_command))" by code_simp
  then obtain q where q: "cmd_register new_command_registry (Some sample_command) = Inr q"
    by (auto simp: isl_def) (metis sum.exhaust_sel)
  have "''h'' \<in> set (CmdName sample_command # Aliases sample_command)"
    by (simp add: sample_command_def)
  from cmd_unregister_register [OF wf idem q this] q show ?thesis by simp
qed

text \<open>
  A name that keeps a slash after one normalisation is accepted by \<open>Register\<close> and then
  listed as nil, because the order keeps the once-normalised name while the map holds the
  twice-normalised one; and \<open>Unregister\<close> leaves it resolvable.
\<close>

definition double_slash_command :: command where
  "double_slash_command = sample_command\<lparr>CmdName := ''//a'', Aliases := []\<rparr>"

theorem double_slash_listed_nil:
  "map_sum id cmd_list (cmd_register new_command_registry (Some double_slash_command)) = Inr [None]
   \<and> map_sum id (\<lambda>q. cmd_get q ''a'')
       (bind_res (cmd_register new_command_registry (Some double_slash_command))
         (\<lambda>q. cmd_unregister q ''a'')) = Inr (Some double_slash_command)"
  by (simp add: cmd_register_def new_command_registry_def sample_command_def cmd_list_def
      double_slash_command_def cmd_get_def cmd_unregister_def NormalizeName_def go_str Let_def)

text \<open>
  registering agent definitions one after another either fails, or every definition is
  found under its type afterwards, the listing is the registration order, and all types
  are distinct and were free before.
\<close>

theorem agent_register_all:
  assumes "fold_res agent_register new_agent_registry ds = Inr p"
  shows "agent_list p = map Some ds \<and> distinct (map AgentType ds)
    \<and> (\<forall>d \<in> set ds. agent_get p (AgentType d) = Some d)"
proof -
  note all = agents.registered_all [OF assms agent_registry_wf_new]
  have "agent_list p = map Some ds"
    by (rule agents.items_after_register_all [OF assms agent_registry_wf_new])
       (simp add: agent_names_def new_agent_registry_def)
  with all(3,4) show ?thesis by (auto intro: agents.map_of_update)
qed

definition sample_agent :: "string \<Rightarrow> agent_def" where
  "sample_agent t = \<lparr>AgentType = t, WhenToUse = [], AgentSource = ''built-in'', AgentTools = None,
     DisallowedTools = [], Skills = [], AgentModel = [], Effort = [], PermissionMode = [],
     MaxTurns = 0, Background = False, Memory = [], Isolation = [], OmitClaudeMd = False,
     Plugin = [], Filename = [], BaseDir = [], SystemPrompt = [], InitialPrompt = [],
     CriticalSystemReminder = [], Color = []\<rparr>"

theorem agent_register_all_witness:
  "map_sum id agent_list
    (fold_res agent_register new_agent_registry [sample_agent ''explore'', sample_agent ''verify''])
    = Inr [Some (sample_agent ''explore''), Some (sample_agent ''verify'')]"
proof -
  obtain p where p: "fold_res agent_register new_agent_registry
      [sample_agent ''explore'', sample_agent ''verify''] = Inr p"
    by (simp add: agent_register_def new_agent_registry_def sample_agent_def)
  from agent_register_all [OF p] p show ?thesis by simp
qed

end
