(* ===== verification/Floats.thy ===== *)
theory Floats
  imports Prelude
begin

text \<open>
  The double-precision steps of the program that start and end at an integer:
  \<open>float64(n)\<close> rounds to 53 significant bits (ties to even), a product with a constant is
  rounded the same way, and \<open>int64(f)\<close> drops the fraction. Values stay exact integers
  here, a constant like \<open>0.9\<close> being the integer significand of its nearest double.
\<close>

fun bit_count :: "nat \<Rightarrow> nat" where
  "bit_count n = (if n = 0 then 0 else Suc (bit_count (n div 2)))"

declare bit_count.simps [simp del]

definition round53 :: "nat \<Rightarrow> nat" where
  "round53 n =
    (let e = bit_count n - 53; q = n div 2 ^ e; r = n mod 2 ^ e in
     if e = 0 then n
     else if 2 * r > 2 ^ e \<or> (2 * r = 2 ^ e \<and> odd q) then (q + 1) * 2 ^ e
     else q * 2 ^ e)"

definition float_of_int :: "int \<Rightarrow> int" where
  "float_of_int n = (if n < 0 then - int (round53 (nat (- n))) else int (round53 (nat n)))"

text \<open>\<open>int64(f)\<close> of a double whose value does not fit is \<open>min_int64\<close> (amd64).\<close>

definition int64_of_float :: "int \<Rightarrow> int" where
  "int64_of_float n = (if in_int64 n then n else min_int64)"

lemma bit_count_le: "n < 2 ^ k \<Longrightarrow> bit_count n \<le> k"
proof (induction k arbitrary: n)
  case 0
  then show ?case by (simp add: bit_count.simps [of 0])
next
  case (Suc k)
  then have "n div 2 < 2 ^ k" by auto
  with Suc.IH show ?case by (subst bit_count.simps) simp
qed

lemma bit_count_bounds: "0 < n \<Longrightarrow> 2 ^ (bit_count n - 1) \<le> n \<and> n < 2 ^ bit_count n"
proof (induction n rule: bit_count.induct)
  case (1 n)
  show ?case
  proof (cases "n div 2 = 0")
    case True
    with "1.prems" have "n = 1" by simp
    moreover have "bit_count 1 = 1" by (subst bit_count.simps) (simp add: bit_count.simps [of 0])
    ultimately show ?thesis by simp
  next
    case False
    let ?b = "bit_count (n div 2)"
    have b: "bit_count n = Suc ?b" using "1.prems" by (subst bit_count.simps) simp
    have "?b \<noteq> 0" using False by (subst bit_count.simps) simp
    then obtain c where c: "?b = Suc c" by (cases ?b) auto
    have "2 ^ (?b - 1) \<le> n div 2 \<and> n div 2 < 2 ^ ?b"
      using "1.IH" "1.prems" False by simp
    then show ?thesis unfolding b c by auto
  qed
qed

lemma round53_exact [simp]: "n < 2 ^ 53 \<Longrightarrow> round53 n = n"
  using bit_count_le [of n 53] by (simp add: round53_def)

text \<open>The rounding error is at most half a unit in the last place: a part in \<open>2 ^ 53\<close>.\<close>

lemma round53_error:
  "round53 n * 2 ^ 53 \<le> n * (2 ^ 53 + 1) \<and> n * (2 ^ 53 - 1) \<le> round53 n * 2 ^ 53"
proof (cases "n < 2 ^ 53")
  case True
  then show ?thesis by (simp add: algebra_simps)
next
  case False
  define e where "e = bit_count n - 53"
  define E :: nat where "E = 2 ^ e"
  define q where "q = n div E"
  define r where "r = n mod E"
  have "0 < n" using False by (cases n) auto
  then have lo: "2 ^ (bit_count n - 1) \<le> n" and hi: "n < 2 ^ bit_count n"
    using bit_count_bounds by auto
  have "53 < bit_count n"
  proof (rule ccontr)
    assume "\<not> 53 < bit_count n"
    then have "(2::nat) ^ bit_count n \<le> 2 ^ 53" by (intro power_increasing) auto
    with hi False show False by simp
  qed
  then have be: "bit_count n - 1 = e + 52" and e0: "e \<noteq> 0" by (simp_all add: e_def)
  have n: "n = q * E + r" by (simp add: q_def r_def)
  have r: "r < E" by (simp add: r_def E_def)
  have big: "2 ^ 52 * E \<le> n" using lo unfolding be by (simp add: power_add E_def mult.commute)
  have cases: "round53 n = (q + 1) * E \<and> E \<le> 2 * r \<or> round53 n = q * E \<and> 2 * r \<le> E"
    using e0 by (auto simp: round53_def Let_def e_def [symmetric] E_def [symmetric] q_def r_def)
  then have near: "2 * round53 n \<le> 2 * n + E" "2 * n \<le> 2 * round53 n + E"
    using r by (auto simp: n algebra_simps)
  have num: "(2::nat) ^ 53 = 9007199254740992" "(2::nat) ^ 52 = 4503599627370496" by simp_all
  show ?thesis
    using near big unfolding num by (intro conjI) (simp_all add: algebra_simps)
qed

lemma float_of_int_upper: "0 \<le> n \<Longrightarrow> float_of_int n * 2 ^ 53 \<le> n * (2 ^ 53 + 1)"
proof -
  assume "0 \<le> n"
  moreover have "int (round53 (nat n) * 2 ^ 53) \<le> int (nat n * (2 ^ 53 + 1))"
    using round53_error [of "nat n"] by (simp only: of_nat_le_iff)
  ultimately show ?thesis by (simp add: float_of_int_def)
qed

end
