(* ===== verification/Provider_Errors.thy ===== *)
theory Provider_Errors
  imports Floats
begin

text \<open>
  Classification of provider failures (\<open>internal/core/model/provider_error.go\<close>,
  \<open>provider_health.go\<close>) and the engine's decisions on them
  (\<open>internal/runtime/engine/retry.go\<close>).

  A Go \<open>error\<close> is a value of \<open>go_error\<close>: its constructors are the concrete types the
  engine's \<open>errors.As\<close> calls distinguish. \<open>ApiErr\<close> stands for the two other implementers
  of \<open>model.RetryableError\<close> (\<open>anthropic.APIError\<close>, \<open>openai.APIError\<close>) and carries what
  their methods answer; \<open>NetErr\<close> is any \<open>net.Error\<close>; \<open>CanceledErr\<close> is
  \<open>context.Canceled\<close>; \<open>WrapErr\<close> is
  \<open>fmt.Errorf\<close> with a \<open>%w\<close> verb and holds the formatted text.
\<close>

section \<open>Kinds and errors\<close>

datatype provider_error_kind =
    RateLimit | ServerOverloaded | ServerError | Timeout | AuthError | QuotaExceeded
  | InvalidRequest | NetworkError | SSLCertError | UnknownKind | OtherKind string

fun kind_str :: "provider_error_kind \<Rightarrow> string" where
  "kind_str RateLimit = ''rate_limit''"
| "kind_str ServerOverloaded = ''server_overloaded''"
| "kind_str ServerError = ''server_error''"
| "kind_str Timeout = ''timeout''"
| "kind_str AuthError = ''auth_error''"
| "kind_str QuotaExceeded = ''quota_exceeded''"
| "kind_str InvalidRequest = ''invalid_request''"
| "kind_str NetworkError = ''network_error''"
| "kind_str SSLCertError = ''ssl_cert_error''"
| "kind_str UnknownKind = ''unknown''"
| "kind_str (OtherKind s) = s"

datatype health_status = Healthy | Degraded | Unhealthy | HealthUnknown | NotConfigured

datatype go_error =
    PlainErr string
  | WrapErr string go_error
  | ProviderErr provider_error_kind string int string int "go_error option"
  | BreakerOpenErr string
  | NetErr string
  | ApiErr string bool int
  | CanceledErr

definition NewProviderError :: "provider_error_kind \<Rightarrow> string \<Rightarrow> int \<Rightarrow> string \<Rightarrow> go_error" where
  "NewProviderError kind provider statusCode msg = ProviderErr kind provider statusCode msg 0 None"

definition provider_error_text :: "provider_error_kind \<Rightarrow> string \<Rightarrow> int \<Rightarrow> string \<Rightarrow> string" where
  "provider_error_text kind provider statusCode msg =
    (if statusCode > 0
     then ''provider '' @ provider @ '' error ('' @ kind_str kind @ ''): status='' @ itoa statusCode
          @ '' '' @ msg
     else ''provider '' @ provider @ '' error ('' @ kind_str kind @ ''): '' @ msg)"

fun error_text :: "go_error \<Rightarrow> string" where
  "error_text (PlainErr s) = s"
| "error_text (WrapErr s e) = s"
| "error_text (ProviderErr k p c m r raw) = provider_error_text k p c m"
| "error_text (BreakerOpenErr p) = ''circuit breaker open for provider '' @ p"
| "error_text (NetErr s) = s"
| "error_text (ApiErr s b r) = s"
| "error_text CanceledErr = ''context canceled''"

definition WrapProviderError :: "provider_error_kind \<Rightarrow> string \<Rightarrow> int \<Rightarrow> go_error option \<Rightarrow> go_error" where
  "WrapProviderError kind provider statusCode raw =
    ProviderErr kind provider statusCode (case raw of None \<Rightarrow> '''' | Some e \<Rightarrow> error_text e) 0 raw"

text \<open>\<open>errors.As\<close> walks the \<open>Unwrap\<close> chain and stops at the first value of the type.\<close>

fun error_chain :: "go_error \<Rightarrow> go_error list" where
  "error_chain (WrapErr s e) = WrapErr s e # error_chain e"
| "error_chain (ProviderErr k p c m r (Some e)) = ProviderErr k p c m r (Some e) # error_chain e"
| "error_chain e = [e]"

fun is_provider_error :: "go_error \<Rightarrow> bool" where
  "is_provider_error (ProviderErr k p c m r raw) = True"
| "is_provider_error e = False"

fun is_breaker_error :: "go_error \<Rightarrow> bool" where
  "is_breaker_error (BreakerOpenErr p) = True"
| "is_breaker_error e = False"

fun is_retryable_error :: "go_error \<Rightarrow> bool" where
  "is_retryable_error (ProviderErr k p c m r raw) = True"
| "is_retryable_error (ApiErr s b r) = True"
| "is_retryable_error e = False"

fun is_net_error :: "go_error \<Rightarrow> bool" where
  "is_net_error (NetErr s) = True"
| "is_net_error e = False"

definition errors_as :: "(go_error \<Rightarrow> bool) \<Rightarrow> go_error \<Rightarrow> go_error option" where
  "errors_as P e = find P (error_chain e)"

definition is_canceled :: "go_error \<Rightarrow> bool" where
  "is_canceled e \<longleftrightarrow> CanceledErr \<in> set (error_chain e)"

definition as_breaker :: "go_error \<Rightarrow> bool" where
  "as_breaker e \<longleftrightarrow> errors_as is_breaker_error e \<noteq> None"

fun provider_kind :: "go_error \<Rightarrow> provider_error_kind option" where
  "provider_kind (ProviderErr k p c m r raw) = Some k"
| "provider_kind e = None"

definition as_provider :: "go_error \<Rightarrow> provider_error_kind option" where
  "as_provider e = Option.bind (errors_as is_provider_error e) provider_kind"

lemma error_chain_not_Nil [simp]: "error_chain e \<noteq> []"
  by (induction e rule: error_chain.induct) auto

lemma as_provider_Some_iff:
  "as_provider e = Some k \<longleftrightarrow> (\<exists>p c m r raw. errors_as is_provider_error e = Some (ProviderErr k p c m r raw))"
proof -
  have "is_provider_error x \<Longrightarrow> (\<exists>k p c m r raw. x = ProviderErr k p c m r raw)" for x
    by (cases x) auto
  moreover have "errors_as is_provider_error e = Some x \<Longrightarrow> is_provider_error x" for x
    by (auto simp: errors_as_def find_Some_iff)
  ultimately show ?thesis
    by (cases "errors_as is_provider_error e") (fastforce simp: as_provider_def)+
qed

section \<open>Methods of a provider error\<close>

fun IsRetryable :: "provider_error_kind \<Rightarrow> bool" where
  "IsRetryable RateLimit = True"
| "IsRetryable ServerOverloaded = True"
| "IsRetryable ServerError = True"
| "IsRetryable Timeout = True"
| "IsRetryable NetworkError = True"
| "IsRetryable AuthError = True"
| "IsRetryable QuotaExceeded = False"
| "IsRetryable InvalidRequest = False"
| "IsRetryable SSLCertError = False"
| "IsRetryable UnknownKind = False"
| "IsRetryable (OtherKind s) = False"

fun ShouldTriggerCircuitBreaker :: "provider_error_kind \<Rightarrow> bool" where
  "ShouldTriggerCircuitBreaker RateLimit = True"
| "ShouldTriggerCircuitBreaker ServerOverloaded = True"
| "ShouldTriggerCircuitBreaker ServerError = True"
| "ShouldTriggerCircuitBreaker Timeout = True"
| "ShouldTriggerCircuitBreaker NetworkError = True"
| "ShouldTriggerCircuitBreaker AuthError = False"
| "ShouldTriggerCircuitBreaker QuotaExceeded = False"
| "ShouldTriggerCircuitBreaker InvalidRequest = False"
| "ShouldTriggerCircuitBreaker SSLCertError = False"
| "ShouldTriggerCircuitBreaker UnknownKind = False"
| "ShouldTriggerCircuitBreaker (OtherKind s) = False"

fun HealthImpact :: "provider_error_kind \<Rightarrow> health_status" where
  "HealthImpact RateLimit = Degraded"
| "HealthImpact ServerOverloaded = Degraded"
| "HealthImpact Timeout = Degraded"
| "HealthImpact NetworkError = Degraded"
| "HealthImpact ServerError = Unhealthy"
| "HealthImpact AuthError = Unhealthy"
| "HealthImpact QuotaExceeded = Unhealthy"
| "HealthImpact SSLCertError = Unhealthy"
| "HealthImpact InvalidRequest = Healthy"
| "HealthImpact UnknownKind = HealthUnknown"
| "HealthImpact (OtherKind s) = HealthUnknown"

definition ProviderErrorKindForRetryable :: "bool \<Rightarrow> int \<Rightarrow> provider_error_kind" where
  "ProviderErrorKindForRetryable isRetryable statusCode =
    (if \<not> isRetryable then UnknownKind
     else if statusCode = 429 then RateLimit
     else if statusCode = 529 then ServerOverloaded
     else if statusCode = 408 then Timeout
     else if statusCode \<in> {500, 502, 503, 504} then ServerError
     else if statusCode \<in> {401, 403} then AuthError
     else ServerError)"

fun retryable_answer :: "go_error \<Rightarrow> bool" where
  "retryable_answer (ProviderErr k p c m r raw) = IsRetryable k"
| "retryable_answer (ApiErr s b r) = b"
| "retryable_answer e = False"

fun RetryAfter :: "go_error \<Rightarrow> int" where
  "RetryAfter (ProviderErr k p c m r raw) = r"
| "RetryAfter (ApiErr s b r) = r"
| "RetryAfter e = 0"

section \<open>The engine's classification\<close>

text \<open>The regular expression \<open>\b(529|500|502|503|504|429|408)\b\<close>: a status code with no word
  character on either side.\<close>

definition is_word_char :: "char \<Rightarrow> bool" where
  "is_word_char c \<longleftrightarrow> (let n = (of_char c :: nat) in
     (48 \<le> n \<and> n \<le> 57) \<or> (65 \<le> n \<and> n \<le> 90) \<or> (97 \<le> n \<and> n \<le> 122) \<or> n = 95)"

definition status_codes :: "string list" where
  "status_codes = [''529'', ''500'', ''502'', ''503'', ''504'', ''429'', ''408'']"

definition status_here :: "string \<Rightarrow> bool" where
  "status_here s \<longleftrightarrow> take 3 s \<in> set status_codes \<and>
     (case drop 3 s of [] \<Rightarrow> True | d # _ \<Rightarrow> \<not> is_word_char d)"

fun status_from :: "bool \<Rightarrow> string \<Rightarrow> bool" where
  "status_from prev_word [] \<longleftrightarrow> False"
| "status_from prev_word (c # s) \<longleftrightarrow>
     (\<not> prev_word \<and> status_here (c # s)) \<or> status_from (is_word_char c) s"

definition httpStatusRe_match :: "string \<Rightarrow> bool" where
  "httpStatusRe_match s \<longleftrightarrow> status_from False s"

definition isNetworkError :: "go_error \<Rightarrow> bool" where
  "isNetworkError err \<longleftrightarrow>
     (let msg = error_text err in
      str_contains msg ''connection refused'' \<or> str_contains msg ''connection reset'' \<or>
      str_contains msg ''ECONNREFUSED'' \<or> str_contains msg ''ECONNRESET'' \<or>
      str_contains msg ''EPIPE'' \<or> errors_as is_net_error err \<noteq> None)"

definition isRetriableError :: "go_error \<Rightarrow> bool" where
  "isRetriableError err =
    (case errors_as is_retryable_error err of
       Some e \<Rightarrow> retryable_answer e
     | None \<Rightarrow>
         if as_breaker err then True
         else if isNetworkError err then True
         else if httpStatusRe_match (error_text err) then True
         else if str_contains (error_text err) ''overloaded'' \<or>
                 str_contains (error_text err) ''rate_limit'' \<or>
                 str_contains (error_text err) ''timeout'' then True
         else (let lower = to_lower (error_text err) in
               str_contains lower ''server_error'' \<or> str_contains lower ''temporary error'' \<or>
               str_contains lower ''over capacity''))"

definition isPromptTooLongError :: "go_error \<Rightarrow> bool" where
  "isPromptTooLongError err \<longleftrightarrow>
     (let msg = to_lower (error_text err) in
      str_contains msg ''prompt is too long'' \<or> str_contains msg ''context_length_exceeded'' \<or>
      str_contains msg ''model_context_window_exceeded'' \<or>
      str_contains msg ''context_window_exceeded'')"

definition extractErrorKind :: "go_error option \<Rightarrow> string" where
  "extractErrorKind err =
    (case err of None \<Rightarrow> ''''
     | Some e \<Rightarrow>
        (case as_provider e of Some k \<Rightarrow> kind_str k
         | None \<Rightarrow>
            if as_breaker e then ''circuit_breaker_open''
            else if isNetworkError e then ''network_error''
            else if httpStatusRe_match (error_text e) then ''http_status''
            else ''unknown''))"

definition isImmediateFallbackError :: "go_error \<Rightarrow> bool" where
  "isImmediateFallbackError e \<longleftrightarrow> as_breaker e \<or> as_provider e = Some QuotaExceeded"

definition shouldFallbackAfterAttempts :: "int \<Rightarrow> int \<Rightarrow> bool" where
  "shouldFallbackAfterAttempts FallbackAfterAttempts attempt \<longleftrightarrow>
     \<not> FallbackAfterAttempts \<le> 0 \<and> attempt \<ge> FallbackAfterAttempts"

text \<open>Whether \<open>tryFallback\<close> considers the error at all: the test of its first lines.\<close>

definition fallback_eligible :: "go_error \<Rightarrow> bool" where
  "fallback_eligible e \<longleftrightarrow>
     isRetriableError e \<or> as_breaker e \<or> as_provider e = Some QuotaExceeded"

section \<open>Back-off\<close>

text \<open>Durations are nanoseconds in an \<open>int64\<close>.\<close>

record retry_policy =
  MaxAttempts :: int
  InitialBackoff :: int
  MaxBackoff :: int

definition DefaultRetryPolicy :: retry_policy where
  "DefaultRetryPolicy = \<lparr>MaxAttempts = 3, InitialBackoff = 500000000, MaxBackoff = 30000000000\<rparr>"

text \<open>\<open>float64(base) * math.Pow(2, float64(attempt-1))\<close>, converted back: scaling by a power of
  two is exact, so only the conversion of \<open>base\<close> rounds.\<close>

definition scale2 :: "int \<Rightarrow> int \<Rightarrow> int" where
  "scale2 base k = (if k \<ge> 0 then base * 2 ^ nat k else base div 2 ^ nat (- k))"

text \<open>\<open>rand.Int63n(n)\<close> panics on \<open>n \<le> 0\<close> (here \<open>None\<close>) and otherwise returns a value below
  \<open>n\<close>; \<open>rnd\<close> is the generator.\<close>

definition backoffDuration :: "(int \<Rightarrow> int) \<Rightarrow> retry_policy \<Rightarrow> int \<Rightarrow> int option" where
  "backoffDuration rnd p attempt =
    (let base = (if InitialBackoff p \<le> 0 then 500000000 else InitialBackoff p);
         maxBackoff = (if MaxBackoff p \<le> 0 then 30000000000 else MaxBackoff p);
         exp0 = int64_of_float (scale2 (float_of_int base) (attempt - 1));
         exp = (if exp0 > maxBackoff then maxBackoff else exp0);
         n = (float_of_int exp) div 4
     in if n \<le> 0 then None else Some (wrap64 (exp + rnd n)))"

definition computeBackoff :: "(int \<Rightarrow> int) \<Rightarrow> go_error \<Rightarrow> int \<Rightarrow> retry_policy \<Rightarrow> int option" where
  "computeBackoff rnd err attempt policy =
    (case errors_as is_retryable_error err of
       Some e \<Rightarrow> if RetryAfter e > 0 then Some (RetryAfter e) else backoffDuration rnd policy attempt
     | None \<Rightarrow> backoffDuration rnd policy attempt)"

section \<open>Lemmas\<close>

lemma breaker_kinds_retryable:
  "ShouldTriggerCircuitBreaker k \<longleftrightarrow> IsRetryable k \<and> k \<noteq> AuthError"
  by (cases k) auto

lemma errors_as_Wrap [simp]:
  "errors_as P (WrapErr s e) = (if P (WrapErr s e) then Some (WrapErr s e) else errors_as P e)"
  by (simp add: errors_as_def)

lemma retryable_wrap [simp]: "errors_as is_retryable_error (WrapErr s e) = errors_as is_retryable_error e"
  by simp

lemma as_breaker_wrap [simp]: "as_breaker (WrapErr s e) = as_breaker e"
  by (simp add: as_breaker_def)

lemma as_provider_wrap [simp]: "as_provider (WrapErr s e) = as_provider e"
  by (simp add: as_provider_def)

lemma status_from_iff:
  "status_from pw s \<longleftrightarrow>
    (\<exists>u w v. s = u @ w @ v \<and> w \<in> set status_codes
      \<and> \<not> (if u = [] then pw else is_word_char (last u))
      \<and> (v = [] \<or> \<not> is_word_char (hd v)))"
  (is "_ \<longleftrightarrow> ?R pw s")
proof (induction s arbitrary: pw)
  case Nil
  then show ?case by (auto simp: status_codes_def)
next
  case (Cons c s)
  have here: "status_here (c # s) \<longleftrightarrow>
      (\<exists>w v. c # s = w @ v \<and> w \<in> set status_codes \<and> (v = [] \<or> \<not> is_word_char (hd v)))" (is "_ = ?H")
  proof
    assume "status_here (c # s)"
    then have "take 3 (c # s) \<in> set status_codes
        \<and> (drop 3 (c # s) = [] \<or> \<not> is_word_char (hd (drop 3 (c # s))))"
      unfolding status_here_def by (cases "drop 3 (c # s)") auto
    then show ?H by (metis append_take_drop_id)
  next
    assume ?H
    then obtain w v where w: "c # s = w @ v" "w \<in> set status_codes" "v = [] \<or> \<not> is_word_char (hd v)"
      by blast
    moreover have "length w = 3" using w(2) by (auto simp: status_codes_def)
    ultimately have "take 3 (c # s) = w" "drop 3 (c # s) = v" by simp_all
    with w show "status_here (c # s)" by (auto simp: status_here_def split: list.split)
  qed
  have "?R pw (c # s) \<longleftrightarrow> (\<not> pw \<and> ?H) \<or> ?R (is_word_char c) s" (is "_ \<longleftrightarrow> ?A \<or> ?B")
  proof
    assume "?R pw (c # s)"
    then obtain u w v where *: "c # s = u @ w @ v" "w \<in> set status_codes"
        "\<not> (if u = [] then pw else is_word_char (last u))" "v = [] \<or> \<not> is_word_char (hd v)"
      by blast
    show "?A \<or> ?B"
    proof (cases u)
      case Nil
      with * have ?A by simp blast
      then show ?thesis ..
    next
      case (Cons d u')
      with * have "s = u' @ w @ v"
        and "\<not> (if u' = [] then is_word_char c else is_word_char (last u'))"
        by auto
      with *(2,4) have ?B by blast
      then show ?thesis ..
    qed
  next
    assume "?A \<or> ?B"
    then show "?R pw (c # s)"
    proof
      assume ?A
      then show ?thesis by (metis append_Nil)
    next
      assume ?B
      then obtain u w v where *: "s = u @ w @ v" "w \<in> set status_codes"
        "\<not> (if u = [] then is_word_char c else is_word_char (last u))" "v = [] \<or> \<not> is_word_char (hd v)"
        by blast
      then have "c # s = (c # u) @ w @ v \<and> \<not> (if c # u = [] then pw else is_word_char (last (c # u)))"
        by (auto split: if_splits)
      with *(2,4) show ?thesis by blast
    qed
  qed
  with here Cons.IH show ?case by simp
qed

text \<open>No word character stands at the end of \<open>u\<close>, at the start of \<open>v\<close>.\<close>

definition boundary_after :: "string \<Rightarrow> bool" where
  "boundary_after u \<longleftrightarrow> u = [] \<or> \<not> is_word_char (last u)"

definition boundary_before :: "string \<Rightarrow> bool" where
  "boundary_before v \<longleftrightarrow> v = [] \<or> \<not> is_word_char (hd v)"

text \<open>
  The status-code test of the retry classifier (\<open>httpStatusRe\<close>) accepts a message exactly
  when one of the seven codes stands in it with no word character right before or after it, so
  a code inside a longer number does not make an error retriable.
\<close>

theorem httpStatusRe_correct:
  "httpStatusRe_match s \<longleftrightarrow>
    (\<exists>u w v. s = u @ w @ v
      \<and> w \<in> {''529'', ''500'', ''502'', ''503'', ''504'', ''429'', ''408''}
      \<and> boundary_after u \<and> boundary_before v)"
proof -
  have codes: "set status_codes = {''529'', ''500'', ''502'', ''503'', ''504'', ''429'', ''408''}"
    by (simp add: status_codes_def)
  have first: "\<not> (if u = [] then False else P) \<longleftrightarrow> u = [] \<or> \<not> P" for u :: string and P
    by simp
  show ?thesis
    unfolding httpStatusRe_match_def status_from_iff codes first boundary_after_def boundary_before_def
    by (rule refl)
qed

text \<open>
  For a policy whose delays are between 4 ns and 100 days, and an attempt number for which
  the exponential does not overflow, the back-off never panics, is at least the exponential
  delay or the cap (whichever is smaller), and exceeds it by less than a quarter plus one.
\<close>

theorem backoff_bounds:
  assumes "4 \<le> InitialBackoff p" and "InitialBackoff p < 2 ^ 53"
    and "4 \<le> MaxBackoff p" and "MaxBackoff p < 2 ^ 53"
    and "1 \<le> attempt" and "InitialBackoff p * 2 ^ nat (attempt - 1) \<le> max_int64"
    and "\<And>n. 0 < n \<Longrightarrow> 0 \<le> rnd n \<and> rnd n < n"
  shows "\<exists>d. backoffDuration rnd p attempt = Some d
    \<and> min (MaxBackoff p) (InitialBackoff p * 2 ^ nat (attempt - 1)) \<le> d
    \<and> 4 * d \<le> 5 * min (MaxBackoff p) (InitialBackoff p * 2 ^ nat (attempt - 1))"
proof -
  define raw where "raw = InitialBackoff p * 2 ^ nat (attempt - 1)"
  have fl: "float_of_int n = n" if "0 \<le> n" "n < 2 ^ 53" for n
    using that by (simp add: float_of_int_def)
  have "InitialBackoff p * 1 \<le> raw" unfolding raw_def
    using assms(1) by (intro mult_left_mono) auto
  then have raw: "4 \<le> raw" using assms(1) by simp
  have "in_int64 raw" using assms(6) raw by (simp add: raw_def in_int64_def min_int64_def)
  then have exp0: "int64_of_float (scale2 (float_of_int (InitialBackoff p)) (attempt - 1)) = raw"
    using assms(1,2,5) by (simp add: scale2_def fl raw_def int64_of_float_def)
  define e where "e = min (MaxBackoff p) raw"
  have e: "4 \<le> e" "e < 2 ^ 53" using raw assms(3,4) by (simp_all add: e_def)
  then have n: "float_of_int e div 4 = e div 4" "0 < e div 4" by (simp_all add: fl)
  have r: "0 \<le> rnd (e div 4)" "rnd (e div 4) < e div 4" using assms(7) n(2) by auto
  have four: "4 * (e div 4) \<le> e" by simp
  have "in_int64 (e + rnd (e div 4))"
    using r e four by (simp add: in_int64_def min_int64_def max_int64_def)
  then have w: "wrap64 (e + rnd (e div 4)) = e + rnd (e div 4)" by simp
  have pick: "(if MaxBackoff p < raw then MaxBackoff p else raw) = e" by (simp add: e_def)
  have "backoffDuration rnd p attempt = Some (e + rnd (e div 4))"
    using n(2) w assms(1,3) by (simp add: backoffDuration_def Let_def exp0 pick n(1) cong: if_cong)
  moreover have "e \<le> e + rnd (e div 4)" using r by simp
  moreover have "4 * (e + k) \<le> 5 * e" if "k < m" "4 * m \<le> e" for k m :: int
    using that by (simp add: algebra_simps)
  from this [OF r(2) four] have "4 * (e + rnd (e div 4)) \<le> 5 * e" .
  ultimately show ?thesis unfolding raw_def [symmetric] e_def by blast
qed

theorem backoff_bounds_witness:
  "\<exists>d. backoffDuration (\<lambda>n. n - 1) DefaultRetryPolicy 3 = Some d \<and> 2000000000 \<le> d \<and> 4 * d \<le> 10000000000"
  using backoff_bounds [of DefaultRetryPolicy 3 "\<lambda>n. n - 1"]
  by (simp add: DefaultRetryPolicy_def max_int64_def)

text \<open>
  Adding context to an error with \<open>fmt.Errorf("...%w", err)\<close> does not change how the
  engine treats a classified error: whether it is retried, whether it makes the engine fall
  back at once, and how long it waits.
\<close>

theorem wrapping_keeps_decision:
  assumes "errors_as is_retryable_error e \<noteq> None \<or> as_breaker e"
  shows "isRetriableError (WrapErr s e) = isRetriableError e
    \<and> isImmediateFallbackError (WrapErr s e) = isImmediateFallbackError e
    \<and> computeBackoff rnd (WrapErr s e) n p = computeBackoff rnd e n p"
  using assms
  by (auto simp: isRetriableError_def isImmediateFallbackError_def computeBackoff_def split: option.split)

theorem wrapping_keeps_decision_witness:
  "isRetriableError (WrapErr ''stream failed: bad key'' (NewProviderError AuthError ''anthropic'' 401 ''bad key''))
   \<and> \<not> isImmediateFallbackError (WrapErr ''stream failed: bad key'' (NewProviderError AuthError ''anthropic'' 401 ''bad key''))"
proof -
  let ?e = "NewProviderError AuthError ''anthropic'' 401 ''bad key''"
  have "errors_as is_retryable_error ?e \<noteq> None \<or> as_breaker ?e"
    by (simp add: NewProviderError_def errors_as_def)
  from wrapping_keeps_decision [OF this, of "''stream failed: bad key''" "\<lambda>n. 0" 1 DefaultRetryPolicy]
  show ?thesis
    by (simp add: NewProviderError_def isRetriableError_def isImmediateFallbackError_def errors_as_def
        as_breaker_def as_provider_def)
qed

end
