(* ===== verification/Circuit_Breaker.thy ===== *)
theory Circuit_Breaker
  imports Provider_Errors
begin

text \<open>
  The three-state circuit breaker of \<open>internal/core/model/circuit_breaker.go\<close>. Its mutex
  makes every method atomic, so a method is a function on the breaker; the ones that read the
  clock take the time as an argument. Times and durations are nanoseconds.
\<close>

section \<open>State and operations\<close>

datatype breaker_state = Closed | Open | HalfOpen

record breaker_settings =
  FailureThreshold :: int
  RecoveryTimeout :: int
  HalfOpenMaxRequests :: int
  HalfOpenSuccessThreshold :: int

record circuit_breaker =
  settings :: breaker_settings
  cb_state :: breaker_state
  failures :: int
  lastFailureTime :: "int option"
  halfOpenReqs :: int
  halfOpenSuccess :: int
  tripCount :: int

definition DefaultCircuitBreakerSettings :: breaker_settings where
  "DefaultCircuitBreakerSettings =
    \<lparr>FailureThreshold = 5, RecoveryTimeout = 30000000000,
     HalfOpenMaxRequests = 1, HalfOpenSuccessThreshold = 1\<rparr>"

definition positive_or :: "int \<Rightarrow> int \<Rightarrow> int" where
  "positive_or d v = (if v \<le> 0 then d else v)"

definition NewCircuitBreaker :: "breaker_settings \<Rightarrow> circuit_breaker" where
  "NewCircuitBreaker s =
    (let d = DefaultCircuitBreakerSettings in
     \<lparr>settings = \<lparr>FailureThreshold = positive_or (FailureThreshold d) (FailureThreshold s),
                  RecoveryTimeout = positive_or (RecoveryTimeout d) (RecoveryTimeout s),
                  HalfOpenMaxRequests = positive_or (HalfOpenMaxRequests d) (HalfOpenMaxRequests s),
                  HalfOpenSuccessThreshold =
                    positive_or (HalfOpenSuccessThreshold d) (HalfOpenSuccessThreshold s)\<rparr>,
      cb_state = Closed, failures = 0, lastFailureTime = None,
      halfOpenReqs = 0, halfOpenSuccess = 0, tripCount = 0\<rparr>)"

text \<open>\<open>time.Since\<close>: the difference, saturated to the range of a duration; since the zero time
  (no failure yet) more than a duration can hold has passed.\<close>

definition time_since :: "int \<Rightarrow> int option \<Rightarrow> int" where
  "time_since now t = (case t of None \<Rightarrow> max_int64
     | Some t0 \<Rightarrow> max min_int64 (min max_int64 (now - t0)))"

definition CanExecute :: "int \<Rightarrow> circuit_breaker \<Rightarrow> circuit_breaker \<times> bool" where
  "CanExecute now cb =
    (if cb_state cb = Open \<and> \<not> time_since now (lastFailureTime cb) \<ge> RecoveryTimeout (settings cb)
     then (cb, False)
     else
       let cb1 = (if cb_state cb = Open
                  then cb\<lparr>cb_state := HalfOpen, halfOpenReqs := 0, halfOpenSuccess := 0\<rparr>
                  else cb) in
       if cb_state cb1 = HalfOpen
       then (if halfOpenReqs cb1 < HalfOpenMaxRequests (settings cb1)
             then (cb1\<lparr>halfOpenReqs := wrap64 (halfOpenReqs cb1 + 1)\<rparr>, True)
             else (cb1, False))
       else (cb1, True))"

definition RecordSuccess :: "circuit_breaker \<Rightarrow> circuit_breaker" where
  "RecordSuccess cb =
    (case cb_state cb of
       Closed \<Rightarrow> cb\<lparr>failures := 0\<rparr>
     | HalfOpen \<Rightarrow>
         (let n = wrap64 (halfOpenSuccess cb + 1) in
          if n \<ge> HalfOpenSuccessThreshold (settings cb)
          then cb\<lparr>cb_state := Closed, failures := 0, halfOpenReqs := 0, halfOpenSuccess := 0\<rparr>
          else cb\<lparr>halfOpenSuccess := n\<rparr>)
     | Open \<Rightarrow> cb)"

definition RecordFailure :: "int \<Rightarrow> circuit_breaker \<Rightarrow> circuit_breaker" where
  "RecordFailure now cb0 =
    (let cb = cb0\<lparr>lastFailureTime := Some now\<rparr> in
     case cb_state cb of
       Closed \<Rightarrow>
         (let n = wrap64 (failures cb + 1) in
          if n \<ge> FailureThreshold (settings cb)
          then cb\<lparr>failures := n, cb_state := Open, tripCount := wrap64 (tripCount cb + 1)\<rparr>
          else cb\<lparr>failures := n\<rparr>)
     | HalfOpen \<Rightarrow>
         cb\<lparr>cb_state := Open, halfOpenReqs := 0, halfOpenSuccess := 0,
            tripCount := wrap64 (tripCount cb + 1)\<rparr>
     | Open \<Rightarrow> cb)"

text \<open>The calls a client can make, for runs.\<close>

datatype breaker_op = CanExecuteOp int | SuccessOp | FailureOp int

fun breaker_step :: "breaker_op \<Rightarrow> circuit_breaker \<Rightarrow> circuit_breaker" where
  "breaker_step (CanExecuteOp now) cb = fst (CanExecute now cb)"
| "breaker_step SuccessOp cb = RecordSuccess cb"
| "breaker_step (FailureOp now) cb = RecordFailure now cb"

section \<open>Invariant\<close>

definition settings_wf :: "breaker_settings \<Rightarrow> bool" where
  "settings_wf s \<longleftrightarrow>
     0 < FailureThreshold s \<and> FailureThreshold s \<le> max_int64
   \<and> 0 < RecoveryTimeout s \<and> RecoveryTimeout s \<le> max_int64
   \<and> 0 < HalfOpenMaxRequests s \<and> HalfOpenMaxRequests s \<le> max_int64
   \<and> 0 < HalfOpenSuccessThreshold s \<and> HalfOpenSuccessThreshold s \<le> max_int64"

definition breaker_wf :: "circuit_breaker \<Rightarrow> bool" where
  "breaker_wf cb \<longleftrightarrow> settings_wf (settings cb)
   \<and> 0 \<le> failures cb \<and> failures cb \<le> FailureThreshold (settings cb)
   \<and> 0 \<le> halfOpenReqs cb \<and> halfOpenReqs cb \<le> HalfOpenMaxRequests (settings cb)
   \<and> 0 \<le> halfOpenSuccess cb \<and> halfOpenSuccess cb < HalfOpenSuccessThreshold (settings cb)
   \<and> (case cb_state cb of
        Closed \<Rightarrow> failures cb < FailureThreshold (settings cb) \<and> halfOpenReqs cb = 0
      | Open \<Rightarrow> lastFailureTime cb \<noteq> None
      | HalfOpen \<Rightarrow> 0 < halfOpenReqs cb)"

lemma in_int64_nonneg: "0 \<le> n \<Longrightarrow> n \<le> max_int64 \<Longrightarrow> in_int64 n"
  by (simp add: in_int64_def min_int64_def)

lemma CanExecute_wf: "breaker_wf cb \<Longrightarrow> breaker_wf (fst (CanExecute now cb))"
  by (auto simp: breaker_wf_def settings_wf_def CanExecute_def Let_def in_int64_nonneg
      split: breaker_state.splits)

lemma RecordSuccess_wf: "breaker_wf cb \<Longrightarrow> breaker_wf (RecordSuccess cb)"
  by (auto simp: breaker_wf_def settings_wf_def RecordSuccess_def Let_def in_int64_nonneg
      split: breaker_state.splits)

lemma RecordFailure_wf: "breaker_wf cb \<Longrightarrow> breaker_wf (RecordFailure now cb)"
  by (auto simp: breaker_wf_def settings_wf_def RecordFailure_def Let_def in_int64_nonneg
      split: breaker_state.splits)

lemma NewCircuitBreaker_wf:
  assumes "FailureThreshold s \<le> max_int64" "RecoveryTimeout s \<le> max_int64"
    "HalfOpenMaxRequests s \<le> max_int64" "HalfOpenSuccessThreshold s \<le> max_int64"
  shows "breaker_wf (NewCircuitBreaker s)"
  using assms
  by (simp add: breaker_wf_def settings_wf_def NewCircuitBreaker_def Let_def positive_or_def
      DefaultCircuitBreakerSettings_def max_int64_def)

interpretation breaker: op_machine breaker_step breaker_wf
proof
  show "breaker_wf cb \<Longrightarrow> breaker_wf (breaker_step a cb)" for cb a
    by (cases a) (simp_all add: CanExecute_wf RecordSuccess_wf RecordFailure_wf)
qed

text \<open>
  Whatever the settings a breaker is created with and whatever calls are made on it, in
  any order and at any times, its counters stay in bounds: a closed breaker is below its failure
  threshold, a half-open one has admitted between one and \<open>HalfOpenMaxRequests\<close> trials, an open
  one knows when it last failed.
\<close>

theorem breaker_run_wf:
  assumes "FailureThreshold s \<le> max_int64" and "RecoveryTimeout s \<le> max_int64"
    and "HalfOpenMaxRequests s \<le> max_int64" and "HalfOpenSuccessThreshold s \<le> max_int64"
  shows "breaker_wf (fold breaker_step ops (NewCircuitBreaker s))"
  by (rule breaker.run_inv [OF NewCircuitBreaker_wf [OF assms]])

theorem breaker_run_wf_witness:
  "breaker_wf (fold breaker_step [FailureOp 10, CanExecuteOp 20, FailureOp 30, CanExecuteOp 40]
     (NewCircuitBreaker \<lparr>FailureThreshold = 2, RecoveryTimeout = 5, HalfOpenMaxRequests = 0,
        HalfOpenSuccessThreshold = 3\<rparr>))"
  by (rule breaker_run_wf) (simp_all add: max_int64_def)

section \<open>Tripping, rejecting, recovering\<close>

lemma settings_RecordFailure [simp]: "settings (RecordFailure now cb) = settings cb"
  by (simp add: RecordFailure_def Let_def split: breaker_state.splits)

lemma settings_RecordSuccess [simp]: "settings (RecordSuccess cb) = settings cb"
  by (simp add: RecordSuccess_def Let_def split: breaker_state.splits)

lemma settings_CanExecute [simp]: "settings (fst (CanExecute now cb)) = settings cb"
  by (simp add: CanExecute_def Let_def)

lemma RecordFailure_run_closed:
  assumes "breaker_wf cb" and "cb_state cb = Closed"
    and "failures cb + int (length ts) < FailureThreshold (settings cb)"
  shows "cb_state (fold RecordFailure ts cb) = Closed
    \<and> failures (fold RecordFailure ts cb) = failures cb + int (length ts)
    \<and> breaker_wf (fold RecordFailure ts cb)
    \<and> settings (fold RecordFailure ts cb) = settings cb"
  using assms
proof (induction ts arbitrary: cb)
  case (Cons t ts)
  have "in_int64 (failures cb + 1)"
    using Cons.prems by (intro in_int64_nonneg) (auto simp: breaker_wf_def settings_wf_def)
  then have "cb_state (RecordFailure t cb) = Closed \<and> failures (RecordFailure t cb) = failures cb + 1"
    using Cons.prems by (simp add: RecordFailure_def Let_def)
  with Cons.IH [of "RecordFailure t cb"] Cons.prems RecordFailure_wf [of cb t] show ?case
    by simp
qed simp

lemma RecordFailure_open: "cb_state cb = Open \<Longrightarrow> cb_state (RecordFailure t cb) = Open"
  by (simp add: RecordFailure_def Let_def)

lemma RecordFailure_run_open: "cb_state cb = Open \<Longrightarrow> cb_state (fold RecordFailure ts cb) = Open"
  by (induction ts arbitrary: cb) (simp_all add: RecordFailure_open)

text \<open>
  From a closed breaker with no failure counted, a run of consecutive failures opens the
  breaker exactly when it reaches the threshold: neither earlier nor later.
\<close>

theorem breaker_trips_at_threshold:
  assumes "breaker_wf cb" and "cb_state cb = Closed" and "failures cb = 0"
  shows "cb_state (fold RecordFailure ts cb) =
    (if int (length ts) < FailureThreshold (settings cb) then Closed else Open)"
proof (cases "int (length ts) < FailureThreshold (settings cb)")
  case True
  with RecordFailure_run_closed [of cb ts] assms show ?thesis by simp
next
  case False
  define n where "n = nat (FailureThreshold (settings cb)) - 1"
  have th: "FailureThreshold (settings cb) = int n + 1"
    using assms(1) by (auto simp: n_def breaker_wf_def settings_wf_def)
  with False have n: "n < length ts" by simp
  then have split: "ts = take n ts @ ts ! n # drop (Suc n) ts" by (simp add: id_take_nth_drop)
  define cb1 where "cb1 = fold RecordFailure (take n ts) cb"
  have cb1: "cb_state cb1 = Closed \<and> failures cb1 = int n \<and> breaker_wf cb1 \<and> settings cb1 = settings cb"
    using RecordFailure_run_closed [of cb "take n ts"] assms n th by (simp add: cb1_def)
  have "in_int64 (int n + 1)"
    using th assms(1) by (intro in_int64_nonneg) (auto simp: breaker_wf_def settings_wf_def)
  with cb1 th have "cb_state (RecordFailure (ts ! n) cb1) = Open"
    by (simp add: RecordFailure_def Let_def)
  then have "cb_state (fold RecordFailure ts cb) = Open"
    by (subst split) (simp add: RecordFailure_run_open flip: cb1_def)
  with False show ?thesis by simp
qed

theorem breaker_trips_at_threshold_witness:
  "cb_state (fold RecordFailure [1, 2, 3, 4] (NewCircuitBreaker DefaultCircuitBreakerSettings)) = Closed
   \<and> cb_state (fold RecordFailure [1, 2, 3, 4, 5] (NewCircuitBreaker DefaultCircuitBreakerSettings)) = Open"
proof -
  let ?cb = "NewCircuitBreaker DefaultCircuitBreakerSettings"
  have wf: "breaker_wf ?cb"
    by (rule NewCircuitBreaker_wf) (simp_all add: DefaultCircuitBreakerSettings_def max_int64_def)
  have cb: "cb_state ?cb = Closed" "failures ?cb = 0" "FailureThreshold (settings ?cb) = 5"
    by (simp_all add: NewCircuitBreaker_def DefaultCircuitBreakerSettings_def Let_def positive_or_def)
  show ?thesis
    using breaker_trips_at_threshold [OF wf cb(1,2), of "[1,2,3,4]"]
      breaker_trips_at_threshold [OF wf cb(1,2), of "[1,2,3,4,5]"]
    by (simp only: cb(3)) simp
qed

text \<open>The answers a run of \<open>CanExecute\<close> calls gets, one per time.\<close>

fun admissions :: "int list \<Rightarrow> circuit_breaker \<Rightarrow> bool list" where
  "admissions [] cb = []"
| "admissions (t # ts) cb = (let (cb', b) = CanExecute t cb in b # admissions ts cb')"

text \<open>
  An open breaker rejects every call, and does not change, until \<open>RecoveryTimeout\<close> has
  passed since the last recorded failure; the first call after that is let through as a trial.
\<close>

theorem breaker_open_rejects:
  assumes "breaker_wf cb" and "cb_state cb = Open" and "lastFailureTime cb = Some t0"
    and "\<forall>t\<in>set ts. t - t0 < RecoveryTimeout (settings cb)"
    and "RecoveryTimeout (settings cb) \<le> t1 - t0"
  shows "admissions (ts @ [t1]) cb = replicate (length ts) False @ [True]"
  using assms(4)
proof (induction ts)
  case Nil
  have "RecoveryTimeout (settings cb) \<le> max_int64" using assms(1) by (simp add: breaker_wf_def settings_wf_def)
  then have "RecoveryTimeout (settings cb) \<le> time_since t1 (lastFailureTime cb)"
    using assms(3,5) by (simp add: time_since_def)
  then show ?case
    using assms(1,2) by (simp add: CanExecute_def Let_def breaker_wf_def settings_wf_def)
next
  case (Cons t ts)
  have "0 < RecoveryTimeout (settings cb)" using assms(1) by (simp add: breaker_wf_def settings_wf_def)
  then have "time_since t (lastFailureTime cb) < RecoveryTimeout (settings cb)"
    using Cons.prems assms(3) by (auto simp: time_since_def min_int64_def)
  then have "CanExecute t cb = (cb, False)" using assms(2) by (simp add: CanExecute_def)
  with Cons show ?case by simp
qed

theorem breaker_open_rejects_witness:
  "admissions [101, 104, 105]
     \<lparr>settings = \<lparr>FailureThreshold = 2, RecoveryTimeout = 5, HalfOpenMaxRequests = 1,
        HalfOpenSuccessThreshold = 1\<rparr>, cb_state = Open, failures = 2, lastFailureTime = Some 100,
      halfOpenReqs = 0, halfOpenSuccess = 0, tripCount = 1\<rparr> = [False, False, True]"
  using breaker_open_rejects
    [of "\<lparr>settings = \<lparr>FailureThreshold = 2, RecoveryTimeout = 5, HalfOpenMaxRequests = 1,
        HalfOpenSuccessThreshold = 1\<rparr>, cb_state = Open, failures = 2, lastFailureTime = Some 100,
      halfOpenReqs = 0, halfOpenSuccess = 0, tripCount = 1\<rparr>" 100 "[101, 104]" 105]
  by (simp add: breaker_wf_def settings_wf_def max_int64_def)

text \<open>Half open: the free slots are what is left of the limit.\<close>

lemma admissions_half_open:
  assumes "breaker_wf cb" and "cb_state cb = HalfOpen"
  shows "int (length (filter id (admissions ts cb)))
    = min (int (length ts)) (HalfOpenMaxRequests (settings cb) - halfOpenReqs cb)"
  using assms
proof (induction ts arbitrary: cb)
  case Nil
  then show ?case by (simp add: breaker_wf_def)
next
  case (Cons t ts)
  show ?case
  proof (cases "halfOpenReqs cb < HalfOpenMaxRequests (settings cb)")
    case True
    then have w: "wrap64 (halfOpenReqs cb + 1) = halfOpenReqs cb + 1"
      using Cons.prems by (intro wrap64_id in_int64_nonneg) (auto simp: breaker_wf_def settings_wf_def)
    then have c: "CanExecute t cb = (cb\<lparr>halfOpenReqs := halfOpenReqs cb + 1\<rparr>, True)"
      using True Cons.prems by (simp add: CanExecute_def Let_def)
    then have wf: "breaker_wf (cb\<lparr>halfOpenReqs := halfOpenReqs cb + 1\<rparr>)"
      using CanExecute_wf [OF Cons.prems(1), of t] by simp
    from Cons.IH [OF wf] Cons.prems c True show ?thesis by simp
  next
    case False
    then have "CanExecute t cb = (cb, False)" using Cons.prems by (simp add: CanExecute_def Let_def)
    with Cons False show ?thesis by (simp add: breaker_wf_def)
  qed
qed

text \<open>
  Once an open breaker's timeout has passed, and until an outcome is recorded, any number of
  calls gets exactly \<open>HalfOpenMaxRequests\<close> trials through (or all the calls, when fewer).
\<close>

theorem breaker_trial_bound:
  assumes "breaker_wf cb" and "cb_state cb = Open"
    and "\<forall>t\<in>set ts. RecoveryTimeout (settings cb) \<le> time_since t (lastFailureTime cb)"
  shows "int (length (filter id (admissions ts cb)))
    = min (int (length ts)) (HalfOpenMaxRequests (settings cb))"
proof (cases ts)
  case Nil
  then show ?thesis using assms(1) by (simp add: breaker_wf_def settings_wf_def)
next
  case (Cons t ts')
  define cb1 where "cb1 = fst (CanExecute t cb)"
  have ct: "CanExecute t cb = (cb1, True)" and st: "cb_state cb1 = HalfOpen" and one: "halfOpenReqs cb1 = 1"
    using assms Cons
    by (auto simp: cb1_def CanExecute_def Let_def breaker_wf_def settings_wf_def in_int64_def
        min_int64_def max_int64_def)
  have "breaker_wf cb1" unfolding cb1_def by (rule CanExecute_wf) (rule assms(1))
  from admissions_half_open [OF this st, of ts'] have
    "int (length (filter id (admissions ts' cb1))) = min (int (length ts')) (HalfOpenMaxRequests (settings cb) - 1)"
    using one by (simp add: cb1_def)
  then show ?thesis using Cons ct by simp
qed

theorem breaker_trial_bound_witness:
  "int (length (filter id (admissions [10, 11, 12]
     \<lparr>settings = \<lparr>FailureThreshold = 2, RecoveryTimeout = 5, HalfOpenMaxRequests = 2,
        HalfOpenSuccessThreshold = 1\<rparr>, cb_state = Open, failures = 2, lastFailureTime = Some 0,
      halfOpenReqs = 0, halfOpenSuccess = 0, tripCount = 1\<rparr>))) = 2"
  using breaker_trial_bound
    [of "\<lparr>settings = \<lparr>FailureThreshold = 2, RecoveryTimeout = 5, HalfOpenMaxRequests = 2,
        HalfOpenSuccessThreshold = 1\<rparr>, cb_state = Open, failures = 2, lastFailureTime = Some 0,
      halfOpenReqs = 0, halfOpenSuccess = 0, tripCount = 1\<rparr>" "[10, 11, 12]"]
  by (simp add: breaker_wf_def settings_wf_def max_int64_def time_since_def min_int64_def)

lemma CanExecute_stuck:
  assumes "cb_state cb = HalfOpen" and "HalfOpenMaxRequests (settings cb) \<le> halfOpenReqs cb"
  shows "CanExecute t cb = (cb, False)"
  using assms by (simp add: CanExecute_def Let_def)

lemma admissions_stuck:
  assumes "cb_state cb = HalfOpen" and "HalfOpenMaxRequests (settings cb) \<le> halfOpenReqs cb"
  shows "admissions ts cb = replicate (length ts) False"
  using assms by (induction ts) (simp_all add: CanExecute_stuck)

end
