(* ===== verification/Conversation.thy ===== *)
theory Conversation
  imports Prelude
begin

text \<open>
  The data of a conversation: content parts and messages (\<open>internal/core/message\<close>), the
  history (\<open>internal/core/conversation/history.go\<close>), model requests, stream events and token
  usage (\<open>internal/core/model/provider.go\<close>, \<open>stream.go\<close>, \<open>usage.go\<close>).

  Token counts are plain integers: they stay far below the 64-bit bound.
\<close>

section \<open>Decoded JSON values\<close>

text \<open>
  A Go \<open>any\<close> decoded from JSON. A number is kept as the text \<open>encoding/json\<close> prints for it.
  An object is the list of its entries, with distinct keys, in map iteration order.
\<close>

datatype json =
    JNull
  | JBool bool
  | JNum string
  | JStr string
  | JArr "json list"
  | JObj "(string \<times> json) list"

definition hex_digit :: "nat \<Rightarrow> char" where
  "hex_digit d = (if d < 10 then char_of (48 + d) else char_of (87 + d))"

text \<open>\<open>encoding/json\<close> escapes quotes, backslashes, control characters and the HTML characters;
  bytes above 127 pass through.\<close>

definition json_escape_char :: "char \<Rightarrow> string" where
  "json_escape_char c =
    (let n = (of_char c :: nat) in
     if n = 34 then [CHR 0x5C, c]
     else if n = 92 then [CHR 0x5C, c]
     else if n = 10 then [CHR 0x5C, CHR ''n'']
     else if n = 13 then [CHR 0x5C, CHR ''r'']
     else if n = 9 then [CHR 0x5C, CHR ''t'']
     else if n = 8 then [CHR 0x5C, CHR ''b'']
     else if n = 12 then [CHR 0x5C, CHR ''f'']
     else if n < 32 \<or> n \<in> {38, 60, 62}
       then [CHR 0x5C, CHR ''u'', CHR ''0'', CHR ''0'', hex_digit (n div 16), hex_digit (n mod 16)]
     else [c])"

definition json_string :: "string \<Rightarrow> string" where
  "json_string s = CHR 0x22 # concat (map json_escape_char s) @ [CHR 0x22]"

definition json_member :: "string \<times> string \<Rightarrow> string" where
  "json_member kv = json_string (fst kv) @ '':'' @ snd kv"

text \<open>\<open>json.Marshal\<close>: no spaces, object keys in byte order.\<close>

fun json_marshal :: "json \<Rightarrow> string" where
  "json_marshal JNull = ''null''"
| "json_marshal (JBool b) = (if b then ''true'' else ''false'')"
| "json_marshal (JNum s) = s"
| "json_marshal (JStr s) = json_string s"
| "json_marshal (JArr xs) = ''['' @ join_str '','' (map json_marshal xs) @ '']''"
| "json_marshal (JObj kvs) =
    (let ms = map (\<lambda>kv. (fst kv, json_marshal (snd kv))) kvs in
     ''{'' @ join_str '','' (map json_member (sort_key fst ms)) @ ''}'')"

text \<open>A \<open>map[string]any\<close> may be nil, which marshals as \<open>null\<close>.\<close>

type_synonym tool_input = "(string \<times> json) list option"

definition marshal_input :: "tool_input \<Rightarrow> string" where
  "marshal_input inp = (case inp of None \<Rightarrow> ''null'' | Some kvs \<Rightarrow> json_marshal (JObj kvs))"

section \<open>Messages\<close>

datatype role = RoleSystem | RoleUser | RoleAssistant | RoleTool | OtherRole string

record content_part =
  p_Type :: string
  p_Text :: string
  p_Thinking :: string
  p_Signature :: string
  p_Data :: string
  p_IsMeta :: bool
  p_ToolUseID :: string
  p_ToolName :: string
  p_ToolInput :: tool_input
  p_IsError :: bool
  p_MediaType :: string
  p_Base64Data :: string

definition empty_part :: "string \<Rightarrow> content_part" where
  "empty_part t =
    \<lparr>p_Type = t, p_Text = '''', p_Thinking = '''', p_Signature = '''', p_Data = '''', p_IsMeta = False,
     p_ToolUseID = '''', p_ToolName = '''', p_ToolInput = None, p_IsError = False,
     p_MediaType = '''', p_Base64Data = ''''\<rparr>"

definition TextPart :: "string \<Rightarrow> content_part" where
  "TextPart text = (empty_part ''text'')\<lparr>p_Text := text\<rparr>"

definition MetaTextPart :: "string \<Rightarrow> content_part" where
  "MetaTextPart text = (empty_part ''text'')\<lparr>p_Text := text, p_IsMeta := True\<rparr>"

definition ToolUsePart :: "string \<Rightarrow> string \<Rightarrow> tool_input \<Rightarrow> content_part" where
  "ToolUsePart toolID name inp =
    (empty_part ''tool_use'')\<lparr>p_ToolUseID := toolID, p_ToolName := name, p_ToolInput := inp\<rparr>"

definition ToolResultPart :: "string \<Rightarrow> string \<Rightarrow> bool \<Rightarrow> content_part" where
  "ToolResultPart toolUseID content isError =
    (empty_part ''tool_result'')\<lparr>p_Text := content, p_ToolUseID := toolUseID, p_IsError := isError\<rparr>"

definition ThinkingPart :: "string \<Rightarrow> string \<Rightarrow> content_part" where
  "ThinkingPart thinking signature =
    (empty_part ''thinking'')\<lparr>p_Thinking := thinking, p_Signature := signature\<rparr>"

definition RedactedThinkingPart :: "string \<Rightarrow> content_part" where
  "RedactedThinkingPart data = (empty_part ''redacted_thinking'')\<lparr>p_Data := data\<rparr>"

definition ImagePart :: "string \<Rightarrow> string \<Rightarrow> content_part" where
  "ImagePart mediaType base64Data =
    (empty_part ''image'')\<lparr>p_MediaType := mediaType, p_Base64Data := base64Data\<rparr>"

definition DocumentPart :: "string \<Rightarrow> string \<Rightarrow> content_part" where
  "DocumentPart mediaType base64Data =
    (empty_part ''document'')\<lparr>p_MediaType := mediaType, p_Base64Data := base64Data\<rparr>"

lemmas part_defs = empty_part_def TextPart_def MetaTextPart_def ToolUsePart_def ToolResultPart_def
  ThinkingPart_def RedactedThinkingPart_def ImagePart_def DocumentPart_def

record message =
  m_Role :: role
  m_Content :: "content_part list"
  m_Timestamp :: string

text \<open>A message literal that names only role and content.\<close>

definition mk_message :: "role \<Rightarrow> content_part list \<Rightarrow> message" where
  "mk_message r content = \<lparr>m_Role = r, m_Content = content, m_Timestamp = ''''\<rparr>"

lemma mk_message_sel [simp]:
  "m_Role (mk_message r c) = r" "m_Content (mk_message r c) = c"
  by (simp_all add: mk_message_def)

section \<open>History, usage, requests, stream events\<close>

text \<open>\<open>History.Append\<close> pushes at the tail; \<open>Clone\<close> copies, so a history is a value.\<close>

type_synonym history = "message list"

definition history_append :: "history \<Rightarrow> message \<Rightarrow> history" where
  "history_append h msg = h @ [msg]"

record usage =
  InputTokens :: int
  OutputTokens :: int
  CacheCreationInputTokens :: int
  CacheReadInputTokens :: int

definition usage_zero :: usage where
  "usage_zero = \<lparr>InputTokens = 0, OutputTokens = 0, CacheCreationInputTokens = 0, CacheReadInputTokens = 0\<rparr>"

definition Usage_Add :: "usage \<Rightarrow> usage \<Rightarrow> usage" where
  "Usage_Add u v =
    \<lparr>InputTokens = wrap64 (InputTokens u + InputTokens v),
     OutputTokens = wrap64 (OutputTokens u + OutputTokens v),
     CacheCreationInputTokens = wrap64 (CacheCreationInputTokens u + CacheCreationInputTokens v),
     CacheReadInputTokens = wrap64 (CacheReadInputTokens u + CacheReadInputTokens v)\<rparr>"

definition Usage_IsZero :: "usage \<Rightarrow> bool" where
  "Usage_IsZero u \<longleftrightarrow> InputTokens u = 0 \<and> OutputTokens u = 0
     \<and> CacheCreationInputTokens u = 0 \<and> CacheReadInputTokens u = 0"

record tool_use =
  tu_ID :: string
  tu_Name :: string
  tu_Input :: tool_input

record task_budget_param =
  tb_Type :: string
  tb_Total :: int
  tb_Remaining :: "int option"

text \<open>The fields of \<open>model.Request\<close> the runtime itself sets.\<close>

record model_request =
  rq_Model :: string
  rq_System :: string
  rq_MaxOutputTokens :: int
  rq_Messages :: "message list"
  rq_Tools :: "string list"
  rq_TaskBudget :: "task_budget_param option"
  rq_EnablePromptCaching :: bool
  rq_PreviousResponseID :: "string option"

datatype event_type =
    EvTextDelta | EvThinking | EvToolUse | EvError | EvDone | EvServerToolUse | EvWebSearchResult
  | EvOther string

record stream_event =
  ev_Type :: event_type
  ev_Text :: string
  ev_Thinking :: string
  ev_Signature :: string
  ev_Error :: string
  ev_ToolUse :: "tool_use option"
  ev_StopReason :: string
  ev_Usage :: "usage option"
  ev_ResponseID :: string

text \<open>A model stream is the finite sequence of events received until the channel is closed.\<close>

type_synonym stream = "stream_event list"

definition mk_event :: "event_type \<Rightarrow> stream_event" where
  "mk_event t = \<lparr>ev_Type = t, ev_Text = '''', ev_Thinking = '''', ev_Signature = '''', ev_Error = '''',
     ev_ToolUse = None, ev_StopReason = '''', ev_Usage = None, ev_ResponseID = ''''\<rparr>"

lemma Usage_Add_assoc: "Usage_Add (Usage_Add u v) w = Usage_Add u (Usage_Add v w)"
  by (simp add: Usage_Add_def add.assoc)

end
