(* ===== verification/Provider_Clients.thy ===== *)
theory Provider_Clients
  imports Circuit_Breaker Conversation
begin

text \<open>
  Model clients: the breaker-guarded client (\<open>runtime/engine/circuit_breaker_client.go\<close>), the
  provider pool (\<open>provider_pool.go\<close>) and the fallback of \<open>retry.go\<close>.

  The providers themselves are outside: \<open>rawStream i req w\<close> is the answer of provider \<open>i\<close> and
  the next state of the world, \<open>clock w\<close> reads the time (and may let it pass). Breakers are
  shared objects, so they live in a store indexed by their number.
\<close>

section \<open>Clients\<close>

definition demo_request :: model_request where
  "demo_request =
    \<lparr>rq_Model = ''m'', rq_System = '''', rq_MaxOutputTokens = 0, rq_Messages = [], rq_Tools = [],
     rq_TaskBudget = None, rq_EnablePromptCaching = False, rq_PreviousResponseID = None\<rparr>"

datatype client =
    RawClient nat
  | BreakerClient string nat client

record 'w net =
  breakers :: "nat \<Rightarrow> circuit_breaker"
  env :: 'w

type_synonym 'w provider = "nat \<Rightarrow> model_request \<Rightarrow> 'w \<Rightarrow> (go_error + stream) \<times> 'w"
type_synonym 'w clock = "'w \<Rightarrow> int \<times> 'w"

definition now_of :: "'w clock \<Rightarrow> 'w net \<Rightarrow> int \<times> 'w net" where
  "now_of clock st = (let (t, w) = clock (env st) in (t, st\<lparr>env := w\<rparr>))"

definition breaker_CanExecute :: "'w clock \<Rightarrow> nat \<Rightarrow> 'w net \<Rightarrow> bool \<times> 'w net" where
  "breaker_CanExecute clock b st =
    (let (t, st1) = now_of clock st; (cb, ok) = CanExecute t (breakers st1 b)
     in (ok, st1\<lparr>breakers := (breakers st1)(b := cb)\<rparr>))"

definition breaker_RecordSuccess :: "nat \<Rightarrow> 'w net \<Rightarrow> 'w net" where
  "breaker_RecordSuccess b st = st\<lparr>breakers := (breakers st)(b := RecordSuccess (breakers st b))\<rparr>"

definition breaker_RecordFailure :: "'w clock \<Rightarrow> nat \<Rightarrow> 'w net \<Rightarrow> 'w net" where
  "breaker_RecordFailure clock b st =
    (let (t, st1) = now_of clock st
     in st1\<lparr>breakers := (breakers st1)(b := RecordFailure t (breakers st1 b))\<rparr>)"

text \<open>Whether a failed call counts against the breaker.\<close>

definition counts_as_failure :: "go_error \<Rightarrow> bool" where
  "counts_as_failure err =
    (case as_provider err of
       Some k \<Rightarrow> ShouldTriggerCircuitBreaker k
     | None \<Rightarrow> isRetriableError err \<and>
         (let msg = to_lower (error_text err) in
          \<not> str_contains msg ''auth'' \<and> \<not> str_contains msg ''unauthorized''
          \<and> \<not> str_contains msg ''forbidden''))"

fun client_Stream :: "'w provider \<Rightarrow> 'w clock \<Rightarrow> client \<Rightarrow> model_request \<Rightarrow> 'w net
    \<Rightarrow> (go_error + stream) \<times> 'w net" where
  "client_Stream rawStream clock (RawClient i) req st =
    (let (r, w) = rawStream i req (env st) in (r, st\<lparr>env := w\<rparr>))"
| "client_Stream rawStream clock (BreakerClient name b inner) req st =
    (let (ok, st1) = breaker_CanExecute clock b st in
     if \<not> ok then (Inl (BreakerOpenErr name), st1)
     else let (r, st2) = client_Stream rawStream clock inner req st1 in
       case r of
         Inl err \<Rightarrow> (Inl err, if counts_as_failure err then breaker_RecordFailure clock b st2 else st2)
       | Inr s \<Rightarrow> (Inr s, breaker_RecordSuccess b st2))"

section \<open>The provider pool\<close>

datatype load_balance_strategy = PrimaryWithFailover | RoundRobin

record provider_pool =
  pool_clients :: "(string \<times> client) list"
  pool_strategy :: load_balance_strategy
  pool_counter :: nat

text \<open>Nil clients are skipped; the others are named by \<open>names\<close> or by their index.\<close>

fun pool_entries :: "nat \<Rightarrow> client option list \<Rightarrow> string list \<Rightarrow> (string \<times> client) list" where
  "pool_entries i [] names = []"
| "pool_entries i (None # cs) names = pool_entries (Suc i) cs names"
| "pool_entries i (Some c # cs) names =
    ((if i < length names \<and> names ! i \<noteq> '''' then names ! i else ''provider-'' @ itoa (int i)), c)
      # pool_entries (Suc i) cs names"

definition NewProviderPool :: "client option list \<Rightarrow> string list \<Rightarrow> load_balance_strategy \<Rightarrow> provider_pool" where
  "NewProviderPool clients names strategy =
    \<lparr>pool_clients = pool_entries 0 clients names, pool_strategy = strategy, pool_counter = 0\<rparr>"

text \<open>\<open>stream c req st\<close> is the \<open>Stream\<close> method of the clients of the pool.\<close>

fun failover_loop :: "(client \<Rightarrow> model_request \<Rightarrow> 's \<Rightarrow> (go_error + stream) \<times> 's)
    \<Rightarrow> model_request \<Rightarrow> (string \<times> client) list \<Rightarrow> go_error option \<Rightarrow> 's
    \<Rightarrow> (go_error + stream) \<times> 's" where
  "failover_loop stream req [] lastErr st =
    (case lastErr of None \<Rightarrow> (Inl (PlainErr ''provider pool: all providers circuit-broken''), st)
     | Some e \<Rightarrow> (Inl e, st))"
| "failover_loop stream req (pc # pcs) lastErr st =
    (let (r, st1) = stream (snd pc) req st in
     case r of Inr s \<Rightarrow> (Inr s, st1)
     | Inl e \<Rightarrow> failover_loop stream req pcs (Some e) st1)"

text \<open>The counter is a 64-bit unsigned integer and \<open>Add\<close> returns its new value.\<close>

definition pool_Stream :: "(client \<Rightarrow> model_request \<Rightarrow> 's \<Rightarrow> (go_error + stream) \<times> 's)
    \<Rightarrow> model_request \<Rightarrow> provider_pool \<Rightarrow> 's \<Rightarrow> (go_error + stream) \<times> provider_pool \<times> 's" where
  "pool_Stream stream req p st =
    (let clients = pool_clients p in
     if clients = [] then (Inl (PlainErr ''provider pool: no providers configured''), p, st)
     else if length clients = 1
       then (let (r, st1) = stream (snd (clients ! 0)) req st in (r, p, st1))
     else case pool_strategy p of
       RoundRobin \<Rightarrow>
         (let n = (pool_counter p + 1) mod 2 ^ 64;
              (r, st1) = stream (snd (clients ! (n mod length clients))) req st
          in (r, p\<lparr>pool_counter := n\<rparr>, st1))
     | PrimaryWithFailover \<Rightarrow>
         (let (r, st1) = failover_loop stream req clients None st in (r, p, st1)))"

definition SetActiveProvider :: "string \<Rightarrow> provider_pool \<Rightarrow> provider_pool option" where
  "SetActiveProvider name p =
    (case find (\<lambda>i. fst (pool_clients p ! i) = name) [0..<length (pool_clients p)] of
       None \<Rightarrow> None
     | Some i \<Rightarrow> Some (p\<lparr>pool_clients := pool_clients p ! i
              # (take i (pool_clients p) @ drop (Suc i) (pool_clients p)), pool_counter := 0\<rparr>))"

section \<open>The contract of a client\<close>

text \<open>
  What the pool relies on: a call keeps the invariant of the shared state. Everything proved
  here about the pool holds for any clients with that property.
\<close>

locale model_client =
  fixes stream :: "client \<Rightarrow> model_request \<Rightarrow> 's \<Rightarrow> (go_error + stream) \<times> 's"
    and inv :: "'s \<Rightarrow> bool"
  assumes stream_inv: "inv st \<Longrightarrow> inv (snd (stream c req st))"
begin

lemma failover_inv: "inv st \<Longrightarrow> inv (snd (failover_loop stream req pcs e st))"
proof (induction pcs arbitrary: e st)
  case Nil
  then show ?case by (cases e) auto
next
  case (Cons pc pcs)
  then show ?case
    using stream_inv [OF Cons.prems, of "snd pc" req] by (auto split: prod.splits sum.splits)
qed

lemma pool_inv: "inv st \<Longrightarrow> inv (snd (snd (pool_Stream stream req p st)))"
  using failover_inv [of st req "pool_clients p" None] stream_inv [of st]
  by (auto simp: pool_Stream_def Let_def split: prod.splits load_balance_strategy.splits)
     (metis snd_conv)+

text \<open>Failover calls the clients in order and stops at the first that answers.\<close>

lemma failover_success:
  assumes "failover_loop stream req pcs e st = (Inr s, st')"
  shows "\<exists>before pc after st1. pcs = before @ pc # after \<and> stream (snd pc) req st1 = (Inr s, st')
    \<and> (inv st \<longrightarrow> inv st1)"
  using assms
proof (induction pcs arbitrary: e st)
  case Nil
  then show ?case by (auto split: option.splits)
next
  case (Cons pc pcs)
  obtain r st1 where r: "stream (snd pc) req st = (r, st1)" by (cases "stream (snd pc) req st")
  show ?case
  proof (cases r)
    case (Inl e1)
    then have "failover_loop stream req pcs (Some e1) st1 = (Inr s, st')" using Cons.prems r by simp
    from Cons.IH [OF this] obtain before pc' after st2 where
      *: "pcs = before @ pc' # after" "stream (snd pc') req st2 = (Inr s, st')" "inv st1 \<longrightarrow> inv st2"
      by blast
    have "inv st \<longrightarrow> inv st1" using stream_inv [of st "snd pc" req] r by auto
    with * show ?thesis by (intro exI [of _ "pc # before"]) auto
  next
    case (Inr s1)
    then show ?thesis using Cons.prems r by (intro exI [of _ "[]"]) auto
  qed
qed

end

text \<open>A client whose breakers are well formed keeps them so.\<close>

definition net_wf :: "'w net \<Rightarrow> bool" where
  "net_wf st \<longleftrightarrow> (\<forall>b. breaker_wf (breakers st b))"

lemma breaker_CanExecute_wf: "net_wf st \<Longrightarrow> net_wf (snd (breaker_CanExecute clock b st))"
  using CanExecute_wf
  by (auto simp: net_wf_def breaker_CanExecute_def now_of_def Let_def split: prod.splits) (metis fst_conv)

lemma breaker_RecordSuccess_wf: "net_wf st \<Longrightarrow> net_wf (breaker_RecordSuccess b st)"
  by (auto simp: net_wf_def breaker_RecordSuccess_def RecordSuccess_wf)

lemma breaker_RecordFailure_wf: "net_wf st \<Longrightarrow> net_wf (breaker_RecordFailure clock b st)"
  by (auto simp: net_wf_def breaker_RecordFailure_def now_of_def Let_def RecordFailure_wf split: prod.splits)

lemma client_Stream_wf: "net_wf st \<Longrightarrow> net_wf (snd (client_Stream raw clock c req st))"
proof (induction c arbitrary: st)
  case (RawClient i)
  then show ?case by (simp add: net_wf_def split: prod.splits)
next
  case (BreakerClient name b inner)
  obtain ok st1 where o: "breaker_CanExecute clock b st = (ok, st1)"
    by (cases "breaker_CanExecute clock b st")
  have "net_wf st1" using breaker_CanExecute_wf [OF BreakerClient.prems, of clock b] o by simp
  from BreakerClient.IH [OF this] o \<open>net_wf st1\<close> show ?case
    by (auto simp: Let_def breaker_RecordSuccess_wf breaker_RecordFailure_wf split: prod.splits sum.splits)
qed

interpretation clients: model_client "client_Stream raw clock" net_wf
  by unfold_locales (rule client_Stream_wf)

text \<open>
  Requests sent through the pool, in any number and under either strategy, leave every circuit
  breaker behind its clients well formed, whatever the providers answer and however time passes.
\<close>

theorem pool_keeps_breakers:
  assumes "net_wf st"
  shows "net_wf (snd (snd (pool_Stream (client_Stream raw clock) req p st)))"
  by (rule clients.pool_inv [OF assms])

definition fresh_net :: "'w \<Rightarrow> 'w net" where
  "fresh_net w = \<lparr>breakers = (\<lambda>_. NewCircuitBreaker DefaultCircuitBreakerSettings), env = w\<rparr>"

lemma fresh_net_wf: "net_wf (fresh_net w)"
  by (simp add: net_wf_def fresh_net_def NewCircuitBreaker_wf DefaultCircuitBreakerSettings_def max_int64_def)

theorem pool_keeps_breakers_witness:
  "net_wf (snd (snd (pool_Stream (client_Stream (\<lambda>i req w. (Inl (PlainErr ''overloaded''), w)) (\<lambda>w. (w, w + 1)))
      demo_request
      (NewProviderPool [Some (BreakerClient ''a'' 0 (RawClient 0)), None,
         Some (BreakerClient ''b'' 1 (RawClient 1))] [''first''] PrimaryWithFailover) (fresh_net 0))))"
  by (rule pool_keeps_breakers [OF fresh_net_wf])

section \<open>Rejections and failover\<close>

lemma breaker_CanExecute_eq:
  assumes "clock (env st) = (t, w1)" and "CanExecute t (breakers st b) = (cb, ok)"
  shows "breaker_CanExecute clock b st = (ok, st\<lparr>env := w1, breakers := (breakers st)(b := cb)\<rparr>)"
  using assms by (simp add: breaker_CanExecute_def now_of_def Let_def)

text \<open>
  While its breaker is open and the recovery time has not passed, a guarded client answers
  with the breaker error without calling the provider behind it: nothing happens to the world but
  the reading of the clock, and the breakers stay as they are.
\<close>

theorem open_breaker_shields:
  assumes "cb_state (breakers st b) = Open" and "clock (env st) = (t, w1)"
    and "time_since t (lastFailureTime (breakers st b)) < RecoveryTimeout (settings (breakers st b))"
  shows "client_Stream raw clock (BreakerClient name b inner) req st = (Inl (BreakerOpenErr name), st\<lparr>env := w1\<rparr>)"
proof -
  have "CanExecute t (breakers st b) = (breakers st b, False)"
    using assms(1,3) by (simp add: CanExecute_def)
  from breaker_CanExecute_eq [of clock st, OF assms(2) this] show ?thesis by simp
qed

definition tripped_net :: "int net" where
  "tripped_net = (fresh_net 7)\<lparr>breakers := (\<lambda>_. (NewCircuitBreaker DefaultCircuitBreakerSettings)
     \<lparr>cb_state := Open, failures := 5, lastFailureTime := Some 5, tripCount := 1\<rparr>)\<rparr>"

lemma tripped_net_sel:
  "cb_state (breakers tripped_net b) = Open" "lastFailureTime (breakers tripped_net b) = Some 5"
  "settings (breakers tripped_net b) = DefaultCircuitBreakerSettings" "env tripped_net = 7"
  by (simp_all add: tripped_net_def fresh_net_def NewCircuitBreaker_def Let_def
      DefaultCircuitBreakerSettings_def positive_or_def)

theorem open_breaker_shields_witness:
  "fst (client_Stream (\<lambda>i req w. (Inr [], w)) (\<lambda>w. (w, w + 1)) (BreakerClient ''anthropic'' 0 (RawClient 0))
      demo_request tripped_net) = Inl (BreakerOpenErr ''anthropic'')"
  using open_breaker_shields [of tripped_net 0 "\<lambda>w. (w, w + 1)" 7 8 "\<lambda>i req w. (Inr [], w)" "''anthropic''" "RawClient 0" demo_request]
  by (simp add: tripped_net_sel time_since_def DefaultCircuitBreakerSettings_def max_int64_def min_int64_def)

text \<open>The answers of a list of clients called one after the other.\<close>

fun call_all :: "(client \<Rightarrow> model_request \<Rightarrow> 's \<Rightarrow> (go_error + stream) \<times> 's)
    \<Rightarrow> model_request \<Rightarrow> (string \<times> client) list \<Rightarrow> 's \<Rightarrow> (go_error + stream) list \<times> 's" where
  "call_all stream req [] st = ([], st)"
| "call_all stream req (pc # pcs) st =
    (let (r, st1) = stream (snd pc) req st; (rs, st2) = call_all stream req pcs st1 in (r # rs, st2))"

lemma failover_skips:
  "call_all stream req before st = (map Inl es, st1) \<Longrightarrow>
    failover_loop stream req (before @ rest) e st
      = failover_loop stream req rest (if es = [] then e else Some (last es)) st1"
proof (induction before arbitrary: st es e)
  case (Cons pc pcs)
  obtain r st2 where r: "stream (snd pc) req st = (r, st2)" by (cases "stream (snd pc) req st")
  obtain rs st3 where rs: "call_all stream req pcs st2 = (rs, st3)" by (cases "call_all stream req pcs st2")
  obtain x es' where es: "es = x # es'" "r = Inl x" "rs = map Inl es'" "st3 = st1"
    using Cons.prems r rs by (cases es) auto
  from Cons.IH [of st2 es' "Some x"] rs es show ?case using r by simp
qed simp

text \<open>
  With failover, the providers are asked in order and the first answer is the pool's: when the
  first ones fail and the next one answers, its stream is returned, and when all fail the last
  error is.
\<close>

theorem pool_failover_order:
  assumes "pool_strategy p = PrimaryWithFailover" and "pool_clients p = before @ after"
    and "length (pool_clients p) \<ge> 2" and "call_all stream req before st = (map Inl es, st1)"
    and "case after of [] \<Rightarrow> True | pc # _ \<Rightarrow> \<exists>s. fst (stream (snd pc) req st1) = Inr s"
  shows "pool_Stream stream req p st =
    (case after of
       [] \<Rightarrow> (Inl (last es), p, st1)
     | pc # _ \<Rightarrow> (fst (stream (snd pc) req st1), p, snd (stream (snd pc) req st1)))"
proof -
  have "length es = length before"
  proof -
    have "length (fst (call_all stream req pcs s0)) = length pcs" for pcs s0
      by (induction pcs arbitrary: s0) (simp_all add: Let_def case_prod_beta)
    from this [of before st] assms(4) show ?thesis by simp
  qed
  then have "after = [] \<Longrightarrow> es \<noteq> []" using assms(2,3) by auto
  moreover have "pool_Stream stream req p st =
      (let (r, st1) = failover_loop stream req (pool_clients p) None st in (r, p, st1))"
    using assms(1,3) by (auto simp: pool_Stream_def Let_def)
  ultimately show ?thesis
    unfolding assms(2) failover_skips [OF assms(4)] using assms(5)
    by (auto simp: Let_def split: list.splits prod.splits sum.splits)
qed

theorem pool_failover_order_witness:
  "fst (pool_Stream (\<lambda>c req n. if n < (1::nat) then (Inl (PlainErr ''down''), n + 1) else (Inr [], n + 1)) demo_request
      (NewProviderPool [Some (RawClient 0), Some (RawClient 1)] [] PrimaryWithFailover) 0) = Inr []"
  (is "fst (pool_Stream ?s demo_request ?p 0) = _")
proof -
  obtain a b where ab: "pool_clients ?p = [(a, RawClient 0)] @ [(b, RawClient 1)]"
    by (simp add: NewProviderPool_def)
  have "pool_Stream ?s demo_request ?p 0 = (Inr [], ?p, 2)"
    using pool_failover_order [of ?p "[(a, RawClient 0)]" "[(b, RawClient 1)]" ?s demo_request 0 "[PlainErr ''down'']" 1] ab
    by (simp add: NewProviderPool_def)
  then show ?thesis by simp
qed

text \<open>
  Making a provider active moves it to the front and keeps all the others, in their order. It
  also resets the round-robin counter, meaning the first request to go to the new primary; but the
  counter is incremented before it is used, so with two or more providers the first request after
  it goes to the second client.
\<close>

theorem SetActiveProvider_correct:
  assumes "SetActiveProvider name p = Some p'"
  shows "\<exists>before pc after. pool_clients p = before @ pc # after \<and> fst pc = name
    \<and> pool_clients p' = pc # before @ after
    \<and> (pool_strategy p = RoundRobin \<and> length (pool_clients p) \<ge> 2
       \<longrightarrow> fst (pool_Stream stream req p' st) = fst (stream (snd (hd (before @ after))) req st))"
proof -
  obtain i where i: "find (\<lambda>i. fst (pool_clients p ! i) = name) [0..<length (pool_clients p)] = Some i"
      "p' = p\<lparr>pool_clients := pool_clients p ! i # (take i (pool_clients p) @ drop (Suc i) (pool_clients p)),
              pool_counter := 0\<rparr>"
    using assms by (auto simp: SetActiveProvider_def split: option.splits)
  then have il: "i < length (pool_clients p)" "fst (pool_clients p ! i) = name"
    by (auto simp: find_Some_iff)
  let ?rest = "take i (pool_clients p) @ drop (Suc i) (pool_clients p)"
  have "fst (pool_Stream stream req p' st) = fst (stream (snd (hd ?rest)) req st)"
    if rr: "pool_strategy p = RoundRobin" "length (pool_clients p) \<ge> 2"
  proof -
    have len: "length (pool_clients p') = length (pool_clients p)" using il i(2) by simp
    have "?rest \<noteq> []" using il rr by auto
    then have nth: "pool_clients p' ! 1 = hd ?rest" using i(2) by (simp add: hd_conv_nth)
    have "1 mod length (pool_clients p') = 1" using len rr by simp
    moreover have "pool_clients p' \<noteq> []" "length (pool_clients p') \<noteq> 1"
      using len rr by auto
    moreover have "pool_strategy p' = RoundRobin" "pool_counter p' = 0" using rr i(2) by simp_all
    ultimately show ?thesis
      by (simp add: pool_Stream_def Let_def nth [unfolded One_nat_def] split: prod.splits)
  qed
  then show ?thesis
    using il i(2) id_take_nth_drop [OF il(1)]
    by (intro exI [of _ "take i (pool_clients p)"] exI [of _ "pool_clients p ! i"]
        exI [of _ "drop (Suc i) (pool_clients p)"]) auto
qed

theorem SetActiveProvider_correct_witness:
  "\<exists>p'. SetActiveProvider ''b'' (NewProviderPool [Some (RawClient 0), Some (RawClient 1)] [''a'', ''b''] RoundRobin) = Some p'
    \<and> fst (pool_Stream (\<lambda>c req st. (Inl (PlainErr (if c = RawClient 0 then ''first'' else ''second'')), st)) demo_request p' 0)
      = Inl (PlainErr ''first'')"
proof -
  let ?p = "NewProviderPool [Some (RawClient 0), Some (RawClient 1)] [''a'', ''b''] RoundRobin"
  obtain p' where p': "SetActiveProvider ''b'' ?p = Some p'"
    by (simp add: SetActiveProvider_def NewProviderPool_def)
  have cl: "pool_clients ?p = [(''a'', RawClient 0), (''b'', RawClient 1)]" "pool_strategy ?p = RoundRobin"
    by (simp_all add: NewProviderPool_def)
  from SetActiveProvider_correct [OF p', of "\<lambda>c req st. (Inl (PlainErr (if c = RawClient 0 then ''first'' else ''second'')), st)" demo_request 0]
  have "fst (pool_Stream (\<lambda>c req st. (Inl (PlainErr (if c = RawClient 0 then ''first'' else ''second'')), st)) demo_request p' 0)
      = Inl (PlainErr ''first'')"
    unfolding cl by (auto simp: append_eq_Cons_conv Cons_eq_append_conv)
  with p' show ?thesis by blast
qed

section \<open>Fallback\<close>

datatype engine_client = DirectClient client | PoolClient

record 'w engine_net =
  en_net :: "'w net"
  en_pool :: provider_pool

record fallback_config =
  fc_Client :: engine_client
  fc_FallbackModel :: string
  fc_FallbackClients :: "client option list"

record fallback_result =
  fb_model :: string
  fb_stream :: stream

definition engine_Stream :: "'w provider \<Rightarrow> 'w clock \<Rightarrow> engine_client \<Rightarrow> model_request \<Rightarrow> 'w engine_net
    \<Rightarrow> (go_error + stream) \<times> 'w engine_net" where
  "engine_Stream raw clock ec req st =
    (case ec of
       DirectClient c \<Rightarrow> (let (r, n) = client_Stream raw clock c req (en_net st) in (r, st\<lparr>en_net := n\<rparr>))
     | PoolClient \<Rightarrow>
        (let (r, p, n) = pool_Stream (client_Stream raw clock) req (en_pool st) (en_net st)
         in (r, st\<lparr>en_net := n, en_pool := p\<rparr>)))"

definition primary_breaker_open :: "engine_client \<Rightarrow> 'w engine_net \<Rightarrow> bool" where
  "primary_breaker_open ec st =
    (case ec of
       DirectClient (BreakerClient name b inner) \<Rightarrow> cb_state (breakers (en_net st) b) = Open
     | _ \<Rightarrow> False)"

fun fallback_loop :: "'w provider \<Rightarrow> 'w clock \<Rightarrow> model_request \<Rightarrow> nat \<Rightarrow> client option list
    \<Rightarrow> 'w net \<Rightarrow> fallback_result option \<times> 'w net" where
  "fallback_loop raw clock req i [] st = (None, st)"
| "fallback_loop raw clock req i (None # cs) st = fallback_loop raw clock req (Suc i) cs st"
| "fallback_loop raw clock req i (Some c # cs) st =
    (let (ok, st1) = (case c of
           BreakerClient name b inner \<Rightarrow> breaker_CanExecute clock b st
         | RawClient _ \<Rightarrow> (True, st))
     in if \<not> ok then fallback_loop raw clock req (Suc i) cs st1
        else let (r, st2) = client_Stream raw clock c req st1 in
          case r of
            Inr s \<Rightarrow> (Some \<lparr>fb_model = ''fallback-client-'' @ itoa (int i), fb_stream = s\<rparr>, st2)
          | Inl e \<Rightarrow> fallback_loop raw clock req (Suc i) cs st2)"

definition tryFallback :: "'w provider \<Rightarrow> 'w clock \<Rightarrow> fallback_config \<Rightarrow> model_request \<Rightarrow> go_error
    \<Rightarrow> 'w engine_net \<Rightarrow> fallback_result option \<times> 'w engine_net" where
  "tryFallback raw clock cfg req primaryErr st =
    (if \<not> fallback_eligible primaryErr then (None, st)
     else
       let (inProvider, st1) =
             (if fc_FallbackModel cfg \<noteq> '''' \<and> \<not> primary_breaker_open (fc_Client cfg) st
              then (let (r, st1) = engine_Stream raw clock (fc_Client cfg)
                              (req\<lparr>rq_Model := fc_FallbackModel cfg\<rparr>) st
                    in (case r of Inr s \<Rightarrow> Some \<lparr>fb_model = fc_FallbackModel cfg, fb_stream = s\<rparr>
                        | Inl e \<Rightarrow> None, st1))
              else (None, st))
       in case inProvider of
            Some fb \<Rightarrow> (Some fb, st1)
          | None \<Rightarrow> (let (r, n) = fallback_loop raw clock req 0 (fc_FallbackClients cfg) (en_net st1)
                     in (r, st1\<lparr>en_net := n\<rparr>)))"

lemma engine_Stream_wf:
  assumes "net_wf (en_net st)"
  shows "net_wf (en_net (snd (engine_Stream raw clock ec req st)))"
  using client_Stream_wf [OF assms] clients.pool_inv [OF assms]
  by (auto simp: engine_Stream_def split: engine_client.splits prod.splits) (metis snd_conv)+

lemma fallback_loop_wf: "net_wf st \<Longrightarrow> net_wf (snd (fallback_loop raw clock req i cs st))"
proof (induction cs arbitrary: i st)
  case (Cons mc cs)
  show ?case
  proof (cases mc)
  case None
  with Cons show ?thesis by simp
  next
  case (Some c)
  obtain ok st1 where o: "(case c of BreakerClient name b inner \<Rightarrow> breaker_CanExecute clock b st
      | RawClient _ \<Rightarrow> (True, st)) = (ok, st1)"
    by fastforce
  have w1: "net_wf st1"
    using o Cons.prems breaker_CanExecute_wf [OF Cons.prems, of clock]
    by (cases c) (auto, metis snd_conv)
  obtain r st2 where r: "client_Stream raw clock c req st1 = (r, st2)"
    by (cases "client_Stream raw clock c req st1")
  have "net_wf st2" using client_Stream_wf [OF w1, of raw clock c req] r by simp
  then show ?thesis
    using o r w1 Some Cons.IH [of st1] Cons.IH [of st2] by (auto split: sum.splits)
  qed
qed simp

text \<open>
  A fallback client whose breaker is open can never come back through \<open>tryFallback\<close>: when the
  recovery time has passed, the eligibility test itself takes the single half-open trial, so the
  call that follows is rejected; no provider is called, and from then on every use of the client
  is rejected, at any time.
\<close>

theorem fallback_client_never_recovers:
  assumes "fallback_eligible err"
    and "breaker_wf (breakers (en_net st) b)" and "cb_state (breakers (en_net st) b) = Open"
    and "HalfOpenMaxRequests (settings (breakers (en_net st) b)) = 1"
    and "RecoveryTimeout (settings (breakers (en_net st) b))
         \<le> time_since (fst (clock (env (en_net st)))) (lastFailureTime (breakers (en_net st) b))"
    and "cfg = \<lparr>fc_Client = ec, fc_FallbackModel = '''', fc_FallbackClients = [Some (BreakerClient name b inner)]\<rparr>"
  shows "fst (tryFallback raw clock cfg req err st) = None
    \<and> env (en_net (snd (tryFallback raw clock cfg req err st)))
        = snd (clock (snd (clock (env (en_net st)))))
    \<and> admissions ts (breakers (en_net (snd (tryFallback raw clock cfg req err st))) b)
        = replicate (length ts) False"
proof -
  obtain t w1 where c1: "clock (env (en_net st)) = (t, w1)" by (cases "clock (env (en_net st))")
  obtain t2 w2 where c2: "clock w1 = (t2, w2)" by (cases "clock w1")
  define cb where "cb = breakers (en_net st) b"
  define cb1 where "cb1 = cb\<lparr>cb_state := HalfOpen, halfOpenReqs := 1, halfOpenSuccess := 0\<rparr>"
  have x1: "CanExecute t cb = (cb1, True)"
    using assms(3-5) c1 by (simp add: CanExecute_def cb_def cb1_def Let_def in_int64_def min_int64_def max_int64_def)
  have stuck: "cb_state cb1 = HalfOpen" "HalfOpenMaxRequests (settings cb1) \<le> halfOpenReqs cb1"
    using assms(4) by (simp_all add: cb1_def cb_def)
  have x2: "CanExecute t2 cb1 = (cb1, False)" by (rule CanExecute_stuck [OF stuck])
  define st1 where "st1 = (en_net st)\<lparr>env := w1, breakers := (breakers (en_net st))(b := cb1)\<rparr>"
  have y1: "breaker_CanExecute clock b (en_net st) = (True, st1)"
    using breaker_CanExecute_eq [of clock "en_net st", OF c1 x1 [unfolded cb_def]] by (simp add: st1_def)
  define st2 where "st2 = st1\<lparr>env := w2, breakers := (breakers st1)(b := cb1)\<rparr>"
  have y2: "breaker_CanExecute clock b st1 = (False, st2)"
    unfolding st2_def by (rule breaker_CanExecute_eq) (simp add: st1_def c2, simp add: st1_def, rule x2)
  have "fallback_loop raw clock req 0 [Some (BreakerClient name b inner)] (en_net st) = (None, st2)"
    by (simp add: y1 y2)
  then have "tryFallback raw clock cfg req err st = (None, st\<lparr>en_net := st2\<rparr>)"
    using assms(1) by (simp add: tryFallback_def assms(6))
  moreover have "breakers st2 b = cb1" "env st2 = w2" by (simp_all add: st2_def)
  ultimately show ?thesis by (simp add: c1 c2 admissions_stuck [OF stuck])
qed

theorem fallback_client_never_recovers_witness:
  "fst (tryFallback (\<lambda>i req w. (Inr [], w)) (\<lambda>w. (w + 30000000000, w + 1))
      \<lparr>fc_Client = DirectClient (RawClient 0), fc_FallbackModel = '''',
       fc_FallbackClients = [Some (BreakerClient ''backup'' 0 (RawClient 1))]\<rparr> demo_request (BreakerOpenErr ''primary'')
      \<lparr>en_net = tripped_net, en_pool = NewProviderPool [] [] RoundRobin\<rparr>) = None"
proof -
  have "breaker_wf (breakers tripped_net 0)"
    by (simp add: tripped_net_def fresh_net_def NewCircuitBreaker_def Let_def breaker_wf_def settings_wf_def
        DefaultCircuitBreakerSettings_def positive_or_def max_int64_def)
  moreover have "fallback_eligible (BreakerOpenErr ''primary'')"
    by (simp add: fallback_eligible_def as_breaker_def errors_as_def)
  ultimately show ?thesis
    by (intro fallback_client_never_recovers [THEN conjunct1])
       (simp_all add: tripped_net_sel time_since_def DefaultCircuitBreakerSettings_def max_int64_def min_int64_def)
qed

end
