(* ===== verification/Summary_Format.thy ===== *)
theory Summary_Format
  imports Prelude
begin

text \<open>
  The text processing of a compaction summary (\<open>internal/core/compact/prompt.go\<close>:
  \<open>FormatCompactSummary\<close>, \<open>GetCompactUserSummaryMessage\<close>). Its three regular expressions are
  written out as the searches they perform; \<open>expand_template\<close> is what
  \<open>Regexp.ReplaceAllString\<close> does to a replacement text, which is a template and not a literal.
\<close>

section \<open>Searching\<close>

text \<open>The text before and after the first occurrence of \<open>p\<close>.\<close>

fun cut_at :: "string \<Rightarrow> string \<Rightarrow> (string \<times> string) option" where
  "cut_at p [] = (if p = [] then Some ([], []) else None)"
| "cut_at p (c # s) =
    (if has_prefix (c # s) p then Some ([], drop (length p) (c # s))
     else map_option (\<lambda>(b, a). (c # b, a)) (cut_at p s))"

lemma cut_at_Some: "cut_at p s = Some (b, a) \<Longrightarrow> s = b @ p @ a"
proof (induction s arbitrary: b)
  case (Cons c s)
  then show ?case
    by (auto simp: has_prefix_def split: if_splits) (metis append_take_drop_id)
qed (auto split: if_splits)

lemma cut_at_shorter: "cut_at p s = Some (b, a) \<Longrightarrow> length b + length p + length a = length s"
  by (drule cut_at_Some) simp

text \<open>
  \<open>(?s)OPEN(.*?)CLOSE\<close> replaced throughout: the leftmost match ends at the first closing tag
  after its opening tag, and the search goes on behind it.
\<close>

function replace_blocks :: "string \<Rightarrow> string \<Rightarrow> (string \<Rightarrow> string) \<Rightarrow> string \<Rightarrow> string" where
  "replace_blocks op cl f s =
    (case cut_at op s of None \<Rightarrow> s
     | Some (before, r) \<Rightarrow>
        (case cut_at cl r of None \<Rightarrow> s
         | Some (inner, rest) \<Rightarrow>
            before @ f inner @ (if length rest < length s then replace_blocks op cl f rest else rest)))"
  by pat_completeness auto
termination by (relation "measure (\<lambda>(_, _, _, s). length s)") auto

declare replace_blocks.simps [simp del]

text \<open>\<open>FindStringSubmatch\<close>: the inside of the first block.\<close>

definition find_block :: "string \<Rightarrow> string \<Rightarrow> string \<Rightarrow> string option" where
  "find_block op cl s =
    (case cut_at op s of None \<Rightarrow> None
     | Some (_, r) \<Rightarrow> map_option fst (cut_at cl r))"

section \<open>Replacement templates\<close>

definition is_name_char :: "char \<Rightarrow> bool" where
  "is_name_char c \<longleftrightarrow> (let n = (of_char c :: nat) in
     (48 \<le> n \<and> n \<le> 57) \<or> (65 \<le> n \<and> n \<le> 90) \<or> (97 \<le> n \<and> n \<le> 122) \<or> n = 95)"

text \<open>A variable name is a group number when it is decimal without a leading zero.\<close>

definition group_number :: "string \<Rightarrow> nat option" where
  "group_number name =
    (if length name > 1 \<and> hd name = CHR ''0'' then None else parse_nat name)"

text \<open>\<open>$name\<close> (longest name) and \<open>${name}\<close>; the result is the name and the rest.\<close>

definition extract_var :: "string \<Rightarrow> (string \<times> string) option" where
  "extract_var s =
    (case s of [] \<Rightarrow> None
     | c # r \<Rightarrow>
        (if c = CHR ''{''
         then (let name = takeWhile is_name_char r; rest = dropWhile is_name_char r in
               if name \<noteq> [] \<and> rest \<noteq> [] \<and> hd rest = CHR ''}'' then Some (name, tl rest) else None)
         else (let name = takeWhile is_name_char s; rest = dropWhile is_name_char s in
               if name \<noteq> [] then Some (name, rest) else None)))"

lemma extract_var_shorter: "extract_var s = Some (name, rest) \<Longrightarrow> length rest < length s"
proof -
  assume a: "extract_var s = Some (name, rest)"
  have d: "length (dropWhile P t) \<le> length t" for P and t :: string
    by (simp add: length_dropWhile_le)
  from a obtain c r where s: "s = c # r" by (cases s) (auto simp: extract_var_def)
  show ?thesis
  proof (cases "c = CHR ''{''")
    case True
    with a s d [of is_name_char r] show ?thesis
      by (auto simp: extract_var_def Let_def split: if_splits)
  next
    case False
    with a s have "takeWhile is_name_char (c # r) \<noteq> []" "rest = dropWhile is_name_char (c # r)"
      by (auto simp: extract_var_def Let_def split: if_splits)
    with s d [of is_name_char r] show ?thesis by (auto split: if_splits)
  qed
qed

function expand_template :: "string list \<Rightarrow> string \<Rightarrow> string" where
  "expand_template groups [] = []"
| "expand_template groups (c # s) =
    (if c \<noteq> CHR ''$'' then c # expand_template groups s
     else if s \<noteq> [] \<and> hd s = CHR ''$'' then CHR ''$'' # expand_template groups (tl s)
     else (case extract_var s of
        None \<Rightarrow> CHR ''$'' # expand_template groups s
      | Some (name, rest) \<Rightarrow>
         (case group_number name of
            Some n \<Rightarrow> if n < length groups then groups ! n else []
          | None \<Rightarrow> []) @ expand_template groups rest))"
  by pat_completeness auto
termination
  by (relation "measure (\<lambda>(_, s). length s)") (auto dest: extract_var_shorter)

lemma expand_template_literal: "CHR ''$'' \<notin> set s \<Longrightarrow> expand_template groups s = s"
  by (induction s) auto

section \<open>The summary\<close>

text \<open>Runs of two or more newlines become two.\<close>

fun squeeze_newlines :: "string \<Rightarrow> string" where
  "squeeze_newlines [] = []"
| "squeeze_newlines (c # s) =
    (if c = CHR 0x0A \<and> s \<noteq> [] \<and> hd s = CHR 0x0A \<and> tl s \<noteq> [] \<and> hd (tl s) = CHR 0x0A
     then squeeze_newlines s
     else c # squeeze_newlines s)"

definition FormatCompactSummary :: "string \<Rightarrow> string" where
  "FormatCompactSummary summary =
    (let formatted = replace_blocks ''<analysis>'' ''</analysis>'' (\<lambda>_. []) summary;
         formatted = (case find_block ''<summary>'' ''</summary>'' formatted of
             None \<Rightarrow> formatted
           | Some m \<Rightarrow>
              (let content = trim_space m in
               replace_blocks ''<summary>'' ''</summary>''
                 (\<lambda>inner. expand_template [''<summary>'' @ inner @ ''</summary>'', inner]
                    (''Summary:'' @ [CHR 0x0A] @ content)) formatted))
     in trim_space (squeeze_newlines formatted))"

definition two_newlines :: string where
  "two_newlines = [CHR 0x0A, CHR 0x0A]"

definition GetCompactUserSummaryMessage :: "string \<Rightarrow> bool \<Rightarrow> string \<Rightarrow> string \<Rightarrow> string" where
  "GetCompactUserSummaryMessage summary suppressFollowUp transcriptPath direction =
    (let formattedSummary = FormatCompactSummary summary;
         base0 = ''This session is being continued from a previous conversation that ran out of context. The summary below covers the ''
           @ (if direction = ''from'' then ''recent'' else ''earlier'')
           @ '' portion of the conversation.'' @ two_newlines @ formattedSummary;
         base1 = (if transcriptPath \<noteq> ''''
           then base0 @ two_newlines @ ''If you need specific details from before compaction (like exact code snippets, error messages, or content you generated), read the full transcript at: '' @ transcriptPath
           else base0);
         base2 = (if direction = ''up_to'' then base1 @ two_newlines @ ''Recent messages are preserved verbatim.''
                  else if direction = ''from'' then base1 @ two_newlines @ ''Earlier messages are preserved verbatim.''
                  else base1)
     in if suppressFollowUp
        then base2 @ [CHR 0x0A] @ ''Continue the conversation from where it left off without asking the user any further questions. Resume directly ''
          @ [CHR 0xE2, CHR 0x80, CHR 0x94]
          @ '' do not acknowledge the summary, do not recap what was happening, do not preface with '' @ [CHR 0x22] @ ''I'' @ [CHR 0x27] @ ''ll continue'' @ [CHR 0x22] @ '' or similar. Pick up the last task as if the break never happened.''
        else base2)"

lemma replace_blocks_none:
  "find_block op cl s = None \<Longrightarrow> replace_blocks op cl f s = s"
  by (subst replace_blocks.simps) (auto simp: find_block_def split: option.splits prod.splits)

lemma replace_blocks_one:
  assumes "cut_at op s = Some (before, r)" and "cut_at cl r = Some (inner, rest)"
    and "op \<noteq> []" and "find_block op cl rest = None"
  shows "replace_blocks op cl f s = before @ f inner @ rest"
proof -
  have "length rest < length s"
    using cut_at_shorter [OF assms(1)] cut_at_shorter [OF assms(2)] assms(3) by (cases op) auto
  with assms replace_blocks_none [OF assms(4)] show ?thesis
    by (subst replace_blocks.simps) simp
qed

text \<open>
  The summary text itself is used as a replacement template, so a dollar sign in it is taken
  for a group reference: a summary that mentions \<open>$5\<close> and \<open>$HOME\<close> loses both, although nothing
  in the response was malformed.
\<close>

theorem FormatCompactSummary_eats_dollars:
  "FormatCompactSummary ''<summary>It costs $5 in $HOME today</summary>''
     = ''Summary:'' @ [CHR 0x0A] @ ''It costs  in  today''"
  by code_simp

text \<open>
  A response with one summary block whose text holds no dollar sign and no second block is
  turned into the block's trimmed text under a \<open>Summary:\<close> line, with what the model wrote before
  and after the block kept around it, runs of newlines squeezed.
\<close>

theorem FormatCompactSummary_plain:
  assumes "find_block ''<analysis>'' ''</analysis>'' s = None"
    and "cut_at ''<summary>'' s = Some (before, r)" and "cut_at ''</summary>'' r = Some (inner, rest)"
    and "find_block ''<summary>'' ''</summary>'' rest = None"
    and "CHR ''$'' \<notin> set inner"
  shows "FormatCompactSummary s =
    trim_space (squeeze_newlines (before @ (''Summary:'' @ [CHR 0x0A] @ trim_space inner) @ rest))"
proof -
  have sub: "set (trim_space inner) \<subseteq> set inner"
    unfolding trim_space_def set_rev by (auto dest!: set_dropWhileD)
  let ?t = "''Summary:'' @ [CHR 0x0A] @ trim_space inner"
  have "CHR ''$'' \<notin> set ?t" using sub assms(5) by auto
  then have t: "expand_template gs ?t = ?t" for gs by (rule expand_template_literal)
  have fb: "find_block ''<summary>'' ''</summary>'' s = Some inner"
    using assms(2,3) by (simp add: find_block_def)
  have "replace_blocks ''<summary>'' ''</summary>''
      (\<lambda>inner'. expand_template [''<summary>'' @ inner' @ ''</summary>'', inner'] ?t) s
      = before @ ?t @ rest"
    by (subst replace_blocks_one [OF assms(2,3) _ assms(4)]) (simp_all only: t, simp)
  with fb show ?thesis
    by (simp add: FormatCompactSummary_def replace_blocks_none [OF assms(1)] Let_def)
qed

theorem FormatCompactSummary_plain_witness:
  "FormatCompactSummary ''<summary> done </summary>'' = ''Summary:'' @ [CHR 0x0A] @ ''done''"
proof -
  have "FormatCompactSummary ''<summary> done </summary>'' =
      trim_space (squeeze_newlines ([] @ (''Summary:'' @ [CHR 0x0A] @ trim_space '' done '') @ []))"
    by (rule FormatCompactSummary_plain [where r = "'' done </summary>''"]) (code_simp)+
  also have "\<dots> = ''Summary:'' @ [CHR 0x0A] @ ''done''" by code_simp
  finally show ?thesis .
qed

end
