(* ===== verification/Compaction.thy ===== *)
theory Compaction
  imports Conversation Provider_Errors Summary_Format
begin

text \<open>
  Conversation compaction (\<open>internal/core/compact\<close>: \<open>estimate.go\<close>, \<open>boundary.go\<close>,
  \<open>grouping.go\<close>, \<open>context.go\<close>, \<open>attachments.go\<close>, \<open>compact.go\<close>).

  The model client is a parameter \<open>call\<close>: it maps a request and a state \<open>'w\<close> of the outside
  world to a stream or an error, and the next state. The prompt text is an argument, and the
  environment variables are a function from names to values (empty when unset).
\<close>

section \<open>Token estimate\<close>

definition roughEstimate :: "string \<Rightarrow> int" where
  "roughEstimate text = (if text = [] then 0 else (int (length text) + 4 - 1) div 4)"

definition estimateBlockTokens :: "content_part \<Rightarrow> int" where
  "estimateBlockTokens block =
    (if p_Type block = ''text'' then roughEstimate (p_Text block)
     else if p_Type block = ''tool_use''
       then roughEstimate (p_ToolName block @ marshal_input (p_ToolInput block))
     else if p_Type block = ''tool_result'' then roughEstimate (p_Text block)
     else if p_Text block \<noteq> '''' then roughEstimate (p_Text block)
     else 0)"

definition estimateMessageTokens :: "message \<Rightarrow> int" where
  "estimateMessageTokens msg = foldl (\<lambda>total b. total + estimateBlockTokens b) 0 (m_Content msg)"

definition EstimateTokens :: "message list \<Rightarrow> int" where
  "EstimateTokens msgs = foldl (\<lambda>total m. total + estimateMessageTokens m) 0 msgs"

lemma foldl_sum: "foldl (\<lambda>t x. t + (f x :: int)) a xs = a + sum_list (map f xs)"
  by (induction xs arbitrary: a) auto

lemma EstimateTokens_append: "EstimateTokens (xs @ ys) = EstimateTokens xs + EstimateTokens ys"
  by (simp add: EstimateTokens_def foldl_sum)

lemma EstimateTokens_Cons: "EstimateTokens (x # ys) = estimateMessageTokens x + EstimateTokens ys"
  by (simp add: EstimateTokens_def foldl_sum)

lemma roughEstimate_nonneg: "0 \<le> roughEstimate s"
  by (simp add: roughEstimate_def div_int_pos_iff)

lemma EstimateTokens_nonneg: "0 \<le> EstimateTokens ms"
proof -
  have b: "0 \<le> estimateBlockTokens b" for b
    by (simp add: estimateBlockTokens_def roughEstimate_nonneg)
  have "0 \<le> estimateMessageTokens m" for m
    by (auto simp: estimateMessageTokens_def foldl_sum intro!: sum_list_nonneg b)
  then show ?thesis by (auto simp: EstimateTokens_def foldl_sum intro!: sum_list_nonneg)
qed

section \<open>Boundaries\<close>

datatype boundary_trigger = TriggerAuto | TriggerManual

fun trigger_str :: "boundary_trigger \<Rightarrow> string" where
  "trigger_str TriggerAuto = ''auto''"
| "trigger_str TriggerManual = ''manual''"

definition IsCompactBoundary :: "message \<Rightarrow> bool" where
  "IsCompactBoundary msg \<longleftrightarrow>
     \<not> (m_Role msg \<noteq> RoleUser \<and> m_Role msg \<noteq> RoleSystem) \<and>
     list_ex (\<lambda>part. p_Type part = ''text'' \<and> p_Text part = ''[compact_boundary]'') (m_Content msg)"

definition CreateBoundaryMessage :: "boundary_trigger \<Rightarrow> int \<Rightarrow> int \<Rightarrow> message" where
  "CreateBoundaryMessage trigger preTokens messagesSummarized =
    mk_message RoleUser [TextPart ''[compact_boundary]'', TextPart (trigger_str trigger)]"

definition CreateSummaryMessage :: "string \<Rightarrow> string \<Rightarrow> message" where
  "CreateSummaryMessage summary transcriptPath =
    (let text = ''This session is being continued from a previous conversation that ran out of context. The summary below covers the earlier portion of the conversation.''
          @ two_newlines @ summary;
         text = (if transcriptPath \<noteq> ''''
           then text @ two_newlines @ ''If you need specific details from before compaction (like exact code snippets, error messages, or content you generated), read the full transcript at: '' @ transcriptPath
           else text)
     in mk_message RoleUser [TextPart text])"

function last_index_from :: "(message \<Rightarrow> bool) \<Rightarrow> message list \<Rightarrow> int \<Rightarrow> int" where
  "last_index_from P msgs i =
    (if i < 0 then -1
     else if P (msgs ! nat i) then i else last_index_from P msgs (i - 1))"
  by pat_completeness auto
termination by (relation "measure (\<lambda>(_, _, i). nat (i + 1))") auto

declare last_index_from.simps [simp del]

definition FindLastCompactBoundary :: "message list \<Rightarrow> int" where
  "FindLastCompactBoundary msgs = last_index_from IsCompactBoundary msgs (int (length msgs) - 1)"

definition GetMessagesAfterCompactBoundary :: "message list \<Rightarrow> message list" where
  "GetMessagesAfterCompactBoundary msgs =
    (let idx = FindLastCompactBoundary msgs in if idx = -1 then msgs else drop (nat idx) msgs)"

definition BuildPostCompactMessages :: "message \<Rightarrow> message list \<Rightarrow> message list" where
  "BuildPostCompactMessages boundary msgs = boundary # msgs"

lemma last_index_from_spec:
  assumes "i < int (length msgs)"
  shows "(last_index_from P msgs i = -1 \<and> (\<forall>j. int j \<le> i \<longrightarrow> \<not> P (msgs ! j))) \<or>
    (\<exists>k. last_index_from P msgs i = int k \<and> int k \<le> i \<and> P (msgs ! k)
       \<and> (\<forall>j. k < j \<and> int j \<le> i \<longrightarrow> \<not> P (msgs ! j)))"
  using assms
proof (induction P msgs i rule: last_index_from.induct)
  case (1 P msgs i)
  show ?case
  proof (cases "i < 0")
    case True
    then show ?thesis by (subst (1 2) last_index_from.simps) auto
  next
    case False
    show ?thesis
    proof (cases "P (msgs ! nat i)")
      case True
      with False show ?thesis
        by (subst (1 2) last_index_from.simps) (auto intro!: exI [of _ "nat i"])
    next
      case no: False
      have split: "int j \<le> i \<longleftrightarrow> j = nat i \<or> int j \<le> i - 1" for j using False by auto
      have rec: "last_index_from P msgs i = last_index_from P msgs (i - 1)"
        using False no by (subst last_index_from.simps) simp
      from "1.IH" [OF False no] "1.prems" show ?thesis
        unfolding rec split using no by (auto 0 3)
    qed
  qed
qed

text \<open>The messages from the last boundary on, described without indices.\<close>

lemma after_boundary_cases:
  shows "(\<not> list_ex IsCompactBoundary msgs \<and> GetMessagesAfterCompactBoundary msgs = msgs) \<or>
    (\<exists>pre b post. msgs = pre @ b # post \<and> IsCompactBoundary b \<and> \<not> list_ex IsCompactBoundary post
       \<and> GetMessagesAfterCompactBoundary msgs = b # post)"
proof -
  let ?i = "int (length msgs) - 1"
  have "?i < int (length msgs)" by simp
  from last_index_from_spec [OF this, of IsCompactBoundary]
  show ?thesis
  proof (elim disjE exE conjE)
    assume a: "last_index_from IsCompactBoundary msgs ?i = -1"
      and n: "\<forall>j. int j \<le> ?i \<longrightarrow> \<not> IsCompactBoundary (msgs ! j)"
    have "\<not> list_ex IsCompactBoundary msgs"
      using n by (auto simp: list_ex_iff in_set_conv_nth)
    with a show ?thesis
      by (simp add: GetMessagesAfterCompactBoundary_def FindLastCompactBoundary_def)
  next
    fix k
    assume a: "last_index_from IsCompactBoundary msgs ?i = int k" "int k \<le> ?i"
      and b: "IsCompactBoundary (msgs ! k)"
      and n: "\<forall>j. k < j \<and> int j \<le> ?i \<longrightarrow> \<not> IsCompactBoundary (msgs ! j)"
    have k: "k < length msgs" using a(2) by simp
    have "\<not> list_ex IsCompactBoundary (drop (Suc k) msgs)"
    proof
      assume "list_ex IsCompactBoundary (drop (Suc k) msgs)"
      then obtain j where "Suc k + j < length msgs" "IsCompactBoundary (msgs ! (Suc k + j))"
        by (auto simp: list_ex_iff in_set_conv_nth less_diff_conv add.commute)
      then show False using n by auto
    qed
    moreover have "GetMessagesAfterCompactBoundary msgs = msgs ! k # drop (Suc k) msgs"
      using a k by (simp add: GetMessagesAfterCompactBoundary_def FindLastCompactBoundary_def Cons_nth_drop_Suc)
    ultimately show ?thesis using b id_take_nth_drop [OF k] by blast
  qed
qed

lemma after_boundary_rev:
  "GetMessagesAfterCompactBoundary msgs =
    (if list_ex IsCompactBoundary msgs
     then rev (takeWhile (\<lambda>m. \<not> IsCompactBoundary m) (rev msgs)
            @ [hd (dropWhile (\<lambda>m. \<not> IsCompactBoundary m) (rev msgs))])
     else msgs)"
  using after_boundary_cases [of msgs]
  by (auto simp: list_ex_iff takeWhile_append takeWhile_eq_all_conv dropWhile_append)

text \<open>
  Reading a history back from its last compaction boundary gives the boundary and what
  follows it: when a compaction's messages are appended to any history, and no later boundary is
  added, exactly those messages are read back and nothing older.
\<close>

theorem after_boundary_correct:
  "GetMessagesAfterCompactBoundary (msgs @ CreateBoundaryMessage t p n # post) =
    (if list_ex IsCompactBoundary post then GetMessagesAfterCompactBoundary post
     else CreateBoundaryMessage t p n # post)"
proof -
  have b: "IsCompactBoundary (CreateBoundaryMessage t p n)"
    by (simp add: IsCompactBoundary_def CreateBoundaryMessage_def part_defs)
  show ?thesis
    using b by (auto simp: after_boundary_rev takeWhile_append dropWhile_append list_ex_iff)
qed

section \<open>Grouping by API round\<close>

type_synonym message_with_id = "message \<times> string"

fun group_rounds :: "message_with_id list list \<Rightarrow> message_with_id list \<Rightarrow> string
    \<Rightarrow> message_with_id list \<Rightarrow> message_with_id list list" where
  "group_rounds groups current lastId [] = (if current \<noteq> [] then groups @ [current] else groups)"
| "group_rounds groups current lastId (msg # rest) =
    (let asst = (m_Role (fst msg) = RoleAssistant);
         newRound = (asst \<and> snd msg \<noteq> lastId \<and> current \<noteq> []);
         lastId' = (if asst then snd msg else lastId)
     in if newRound then group_rounds (groups @ [current]) [msg] lastId' rest
        else group_rounds groups (current @ [msg]) lastId' rest)"

definition GroupMessagesByApiRound :: "message_with_id list \<Rightarrow> message_with_id list list" where
  "GroupMessagesByApiRound msgs = group_rounds [] [] '''' msgs"

fun group_roles :: "message list list \<Rightarrow> message list \<Rightarrow> message list \<Rightarrow> message list list" where
  "group_roles groups current [] = (if current \<noteq> [] then groups @ [current] else groups)"
| "group_roles groups current (msg # rest) =
    (if m_Role msg = RoleAssistant \<and> current \<noteq> []
     then group_roles (groups @ [current]) [msg] rest
     else group_roles groups (current @ [msg]) rest)"

definition groupMessagesByRoleBoundary :: "message list \<Rightarrow> message list list" where
  "groupMessagesByRoleBoundary msgs = group_roles [] [] msgs"

lemma group_rounds_concat: "concat (group_rounds gs cur i ms) = concat gs @ cur @ ms"
  by (induction ms arbitrary: gs cur i) (auto simp: Let_def)

text \<open>The last assistant identifier after reading \<open>ms\<close>, entered with \<open>i\<close>.\<close>

fun last_assistant :: "string \<Rightarrow> message_with_id list \<Rightarrow> string" where
  "last_assistant i [] = i"
| "last_assistant i (m # ms) =
    last_assistant (if m_Role (fst m) = RoleAssistant then snd m else i) ms"

fun one_round :: "string \<Rightarrow> message_with_id list \<Rightarrow> bool" where
  "one_round i [] \<longleftrightarrow> True"
| "one_round i (m # ms) \<longleftrightarrow> (m_Role (fst m) = RoleAssistant \<longrightarrow> snd m = i) \<and> one_round i ms"

text \<open>\<open>round_group i g\<close>: after its first message, the group \<open>g\<close> (entered with last identifier
  \<open>i\<close>) changes the assistant identifier nowhere.\<close>

fun round_group :: "string \<Rightarrow> message_with_id list \<Rightarrow> bool" where
  "round_group i [] \<longleftrightarrow> False"
| "round_group i (m # ms) \<longleftrightarrow> one_round (if m_Role (fst m) = RoleAssistant then snd m else i) ms"

fun rounds_ok :: "string \<Rightarrow> message_with_id list list \<Rightarrow> bool" where
  "rounds_ok i [] \<longleftrightarrow> True"
| "rounds_ok i (g # gs) \<longleftrightarrow>
    round_group i g
    \<and> (gs \<noteq> [] \<longrightarrow> hd gs \<noteq> [] \<and> m_Role (fst (hd (hd gs))) = RoleAssistant
        \<and> snd (hd (hd gs)) \<noteq> last_assistant i g)
    \<and> rounds_ok (last_assistant i g) gs"

lemma last_assistant_append: "last_assistant i (xs @ ys) = last_assistant (last_assistant i xs) ys"
  by (induction xs arbitrary: i) auto

lemma one_round_append: "one_round i (xs @ ys) \<longleftrightarrow> one_round i xs \<and> one_round i ys"
  by (induction xs) auto

lemma one_round_last: "one_round i xs \<Longrightarrow> last_assistant i xs = i"
  by (induction xs) auto

lemma round_group_snoc:
  "round_group i (g @ [m]) \<longleftrightarrow>
    (if g = [] then True
     else round_group i g \<and> (m_Role (fst m) = RoleAssistant \<longrightarrow> snd m = last_assistant i g))"
  by (cases g) (auto simp: one_round_append one_round_last)

lemma rounds_ok_snoc:
  "rounds_ok i (gs @ [g]) \<longleftrightarrow> rounds_ok i gs \<and> round_group (last_assistant i (concat gs)) g
    \<and> (gs \<noteq> [] \<longrightarrow> g \<noteq> [] \<and> m_Role (fst (hd g)) = RoleAssistant
        \<and> snd (hd g) \<noteq> last_assistant i (concat gs))"
  by (induction gs arbitrary: i) (auto simp: last_assistant_append hd_append)

lemma group_rounds_ok:
  assumes "cur = [] \<longrightarrow> gs = []" and "cur \<noteq> [] \<longrightarrow> rounds_ok '''' (gs @ [cur])"
    and "lastId = last_assistant '''' (concat gs @ cur)"
  shows "rounds_ok '''' (group_rounds gs cur lastId ms)"
  using assms
proof (induction ms arbitrary: gs cur lastId)
  case Nil
  then show ?case by auto
next
  case (Cons msg rest)
  define asst where "asst \<longleftrightarrow> m_Role (fst msg) = RoleAssistant"
  define i' where "i' = (if asst then snd msg else lastId)"
  have la: "i' = last_assistant '''' ((concat gs @ cur) @ [msg])"
    by (simp add: i'_def asst_def last_assistant_append Cons.prems(3))
  show ?case
  proof (cases "asst \<and> snd msg \<noteq> lastId \<and> cur \<noteq> []")
    case True
    then have "rounds_ok '''' ((gs @ [cur]) @ [[msg]])"
      using Cons.prems by (subst rounds_ok_snoc) (auto simp: asst_def)
    then have "rounds_ok '''' (group_rounds (gs @ [cur]) [msg] i' rest)"
      using la by (intro Cons.IH) auto
    with True show ?thesis by (simp add: Let_def asst_def i'_def)
  next
    case False
    then have "rounds_ok '''' (gs @ [cur @ [msg]])"
      using Cons.prems
      by (cases "cur = []")
         (auto simp: rounds_ok_snoc round_group_snoc hd_append last_assistant_append asst_def)
    then have "rounds_ok '''' (group_rounds gs (cur @ [msg]) i' rest)"
      using la by (intro Cons.IH) auto
    with False show ?thesis by (auto simp: Let_def asst_def i'_def)
  qed
qed

text \<open>
  Grouping by API round loses and reorders nothing, makes no empty group, and cuts exactly
  where a new assistant response begins: each later group starts with an assistant message whose
  identifier differs from the response before it, and inside a group no later assistant message
  changes the identifier.
\<close>

theorem GroupMessagesByApiRound_correct:
  "concat (GroupMessagesByApiRound ms) = ms \<and> rounds_ok '''' (GroupMessagesByApiRound ms)"
  using group_rounds_ok [of "[]" "[]" "''''" ms]
  by (simp add: GroupMessagesByApiRound_def group_rounds_concat)

lemma group_roles_concat: "concat (group_roles gs cur ms) = concat gs @ cur @ ms"
  by (induction gs cur ms rule: group_roles.induct) auto

lemma group_roles_nonempty: "[] \<notin> set gs \<Longrightarrow> [] \<notin> set (group_roles gs cur ms)"
  by (induction gs cur ms rule: group_roles.induct) auto

section \<open>Context window and trigger\<close>

record tracking_state =
  ts_Compacted :: bool
  ts_TurnCounter :: int
  ts_TurnID :: string
  ts_ConsecutiveFailures :: int

definition isEnvTruthy :: "(string \<Rightarrow> string) \<Rightarrow> string \<Rightarrow> bool" where
  "isEnvTruthy env key \<longleftrightarrow> (let v = to_lower (env key) in v = ''1'' \<or> v = ''true'' \<or> v = ''yes'')"

definition modelContextWindows :: "(string \<times> int) list" where
  "modelContextWindows =
    [(''claude-opus-4'', 200000), (''claude-sonnet-4'', 200000), (''claude-haiku-4'', 200000)]"

definition GetContextWindowForModel :: "(string \<Rightarrow> string) \<Rightarrow> string \<Rightarrow> int" where
  "GetContextWindowForModel env model =
    (let envWindow = env ''CLAUDE_CODE_AUTO_COMPACT_WINDOW'';
         lookup = (case find (\<lambda>entry. str_contains (to_lower model) (fst entry)) modelContextWindows of
             Some entry \<Rightarrow> snd entry | None \<Rightarrow> 200000)
     in if envWindow \<noteq> ''''
        then (case atoi envWindow of Some parsed \<Rightarrow> if parsed > 0 then parsed else lookup | None \<Rightarrow> lookup)
        else lookup)"

definition maxOutputTokensForModel :: "string \<Rightarrow> int" where
  "maxOutputTokensForModel model = 20000"

definition GetEffectiveContextWindowSize :: "(string \<Rightarrow> string) \<Rightarrow> string \<Rightarrow> int" where
  "GetEffectiveContextWindowSize env model =
    GetContextWindowForModel env model - min 20000 (maxOutputTokensForModel model)"

definition GetAutoCompactThreshold :: "(string \<Rightarrow> string) \<Rightarrow> string \<Rightarrow> int" where
  "GetAutoCompactThreshold env model = GetEffectiveContextWindowSize env model - 13000"

definition IsAutoCompactEnabled :: "(string \<Rightarrow> string) \<Rightarrow> bool" where
  "IsAutoCompactEnabled env \<longleftrightarrow>
    \<not> isEnvTruthy env ''DISABLE_COMPACT'' \<and> \<not> isEnvTruthy env ''DISABLE_AUTO_COMPACT''"

definition ShouldAutoCompact :: "(string \<Rightarrow> string) \<Rightarrow> message list \<Rightarrow> string \<Rightarrow> bool" where
  "ShouldAutoCompact env msgs model \<longleftrightarrow>
    IsAutoCompactEnabled env \<and> EstimateTokens msgs \<ge> GetAutoCompactThreshold env model"

definition ShouldAutoCompactWithTracking ::
    "(string \<Rightarrow> string) \<Rightarrow> message list \<Rightarrow> string \<Rightarrow> tracking_state option \<Rightarrow> bool" where
  "ShouldAutoCompactWithTracking env msgs model tracking \<longleftrightarrow>
    (case tracking of Some t \<Rightarrow> \<not> ts_ConsecutiveFailures t \<ge> 3 | None \<Rightarrow> True)
    \<and> ShouldAutoCompact env msgs model"

section \<open>Attachments\<close>

record attachment =
  at_Type :: string
  at_Name :: string
  at_Content :: string

record file_read_state =
  fr_Content :: string
  fr_Timestamp :: int

record skill_info =
  sk_Name :: string
  sk_Path :: string
  sk_Content :: string
  sk_InvokedAt :: int

text \<open>The cut counts runes; a rune is a byte of the ASCII text modelled here.\<close>

definition truncateString :: "string \<Rightarrow> int \<Rightarrow> string" where
  "truncateString s maxTokens =
    (let maxRunes = maxTokens * 4 in
     if int (length s) \<le> maxRunes then s else take (nat maxRunes) s)"

text \<open>One pass over the entries: those that no longer fit are skipped, not the end of the pass.\<close>

fun pick_files :: "int \<Rightarrow> int \<Rightarrow> (string \<times> file_read_state) list \<Rightarrow> attachment list" where
  "pick_files tokenBudget usedTokens [] = []"
| "pick_files tokenBudget usedTokens (e # es) =
    (let tokens0 = roughEstimate (fr_Content (snd e));
         content = (if tokens0 > 5000 then truncateString (fr_Content (snd e)) 5000 else fr_Content (snd e));
         tokens = (if tokens0 > 5000 then 5000 else tokens0)
     in if usedTokens + tokens > tokenBudget then pick_files tokenBudget usedTokens es
        else \<lparr>at_Type = ''file'', at_Name = fst e, at_Content = content\<rparr>
               # pick_files tokenBudget (usedTokens + tokens) es)"

text \<open>The entries come in map iteration order, any order; the sort is by falling timestamp. For
  the at most twelve entries \<open>sort.Slice\<close> sorts by insertion it is the stable sort used here.\<close>

definition CreatePostCompactFileAttachments ::
    "(string \<times> file_read_state) list \<Rightarrow> int \<Rightarrow> int \<Rightarrow> attachment list" where
  "CreatePostCompactFileAttachments readFileState maxFiles tokenBudget =
    (let entries = sort_key (\<lambda>e. - fr_Timestamp (snd e)) readFileState;
         entries = (if int (length entries) > maxFiles then take (nat maxFiles) entries else entries)
     in pick_files tokenBudget 0 entries)"

definition CreatePlanAttachment :: "string \<Rightarrow> string \<Rightarrow> attachment option" where
  "CreatePlanAttachment planContent planFilePath =
    (if planContent = '''' then None
     else Some \<lparr>at_Type = ''plan'', at_Name = planFilePath, at_Content = planContent\<rparr>)"

fun trim_skills :: "int \<Rightarrow> int \<Rightarrow> int \<Rightarrow> skill_info list \<Rightarrow> skill_info list" where
  "trim_skills maxTokens budget usedTokens [] = []"
| "trim_skills maxTokens budget usedTokens (s # ss) =
    (let tokens0 = roughEstimate (sk_Content s);
         content = (if tokens0 > maxTokens then truncateString (sk_Content s) maxTokens else sk_Content s);
         tokens = (if tokens0 > maxTokens then maxTokens else tokens0)
     in if usedTokens + tokens > budget then trim_skills maxTokens budget usedTokens ss
        else s\<lparr>sk_Content := content\<rparr> # trim_skills maxTokens budget (usedTokens + tokens) ss)"

definition skill_section :: "skill_info \<Rightarrow> string" where
  "skill_section s = ''--- '' @ sk_Name s @ '' ('' @ sk_Path s @ '') ---'' @ [CHR 0x0A] @ sk_Content s"

definition CreateSkillAttachment :: "skill_info list \<Rightarrow> int \<Rightarrow> int \<Rightarrow> attachment option" where
  "CreateSkillAttachment skills maxTokensPerSkill totalTokenBudget =
    (if skills = [] then None
     else let trimmed = trim_skills maxTokensPerSkill totalTokenBudget 0
                          (sort_key (\<lambda>s. - sk_InvokedAt s) skills)
          in if trimmed = [] then None
             else Some \<lparr>at_Type = ''skill'', at_Name = ''invoked_skills'',
                        at_Content = join_str two_newlines (map skill_section trimmed)\<rparr>)"

definition buildPostCompactAttachments ::
    "(string \<times> file_read_state) list \<Rightarrow> string \<Rightarrow> string \<Rightarrow> skill_info list \<Rightarrow> attachment list" where
  "buildPostCompactAttachments readFileState planContent planFilePath invokedSkills =
    (if readFileState \<noteq> [] then CreatePostCompactFileAttachments readFileState 5 50000 else [])
    @ (case CreatePlanAttachment planContent planFilePath of Some a \<Rightarrow> [a] | None \<Rightarrow> [])
    @ (if invokedSkills \<noteq> []
       then (case CreateSkillAttachment invokedSkills 5000 25000 of Some a \<Rightarrow> [a] | None \<Rightarrow> [])
       else [])"

lemma roughEstimate_truncated:
  "roughEstimate (if roughEstimate s > 5000 then truncateString s 5000 else s)
    = (if roughEstimate s > 5000 then 5000 else roughEstimate s)"
  by (auto simp: roughEstimate_def truncateString_def Let_def)

lemma pick_files_budget:
  "usedTokens \<le> tokenBudget \<Longrightarrow>
    usedTokens + sum_list (map (\<lambda>a. roughEstimate (at_Content a)) (pick_files tokenBudget usedTokens es))
      \<le> tokenBudget"
proof (induction es arbitrary: usedTokens)
  case (Cons e es)
  let ?t = "if roughEstimate (fr_Content (snd e)) > 5000 then 5000 else roughEstimate (fr_Content (snd e))"
  show ?case
  proof (cases "usedTokens + ?t > tokenBudget")
    case True
    with Cons show ?thesis by (simp add: Let_def)
  next
    case False
    with Cons.IH [of "usedTokens + ?t"] show ?thesis
      by (simp only: pick_files.simps Let_def if_False list.map sum_list.Cons attachment.simps
          roughEstimate_truncated) simp
  qed
qed simp

lemma pick_files_length: "length (pick_files b u es) \<le> length es"
  by (induction es arbitrary: u) (auto simp: Let_def le_SucI)

text \<open>
  However many files were read and however large, the files restored after a compaction are
  at most five and together estimated at no more than the 50,000-token budget.
\<close>

theorem file_attachments_bounded:
  "length (CreatePostCompactFileAttachments fs 5 50000) \<le> 5
   \<and> sum_list (map (\<lambda>a. roughEstimate (at_Content a)) (CreatePostCompactFileAttachments fs 5 50000)) \<le> 50000"
proof
  let ?es = "sort_key (\<lambda>e. - fr_Timestamp (snd e)) fs"
  have "length (if int (length ?es) > 5 then take (nat 5) ?es else ?es) \<le> 5" by auto
  from order.trans [OF pick_files_length this]
  show "length (CreatePostCompactFileAttachments fs 5 50000) \<le> 5"
    unfolding CreatePostCompactFileAttachments_def Let_def .
  show "sum_list (map (\<lambda>a. roughEstimate (at_Content a)) (CreatePostCompactFileAttachments fs 5 50000)) \<le> 50000"
    using pick_files_budget [of 0 50000] unfolding CreatePostCompactFileAttachments_def Let_def by simp
qed

section \<open>Stripping and splitting\<close>

definition strip_block :: "content_part \<Rightarrow> content_part" where
  "strip_block b = (if p_Type b = ''image'' then TextPart ''[image]''
     else if p_Type b = ''document'' then TextPart ''[document]'' else b)"

definition is_media :: "content_part \<Rightarrow> bool" where
  "is_media b \<longleftrightarrow> p_Type b = ''image'' \<or> p_Type b = ''document''"

definition strip_message :: "message \<Rightarrow> message" where
  "strip_message msg =
    (if m_Role msg \<noteq> RoleUser then msg
     else if list_ex is_media (m_Content msg)
       then mk_message (m_Role msg) (map strip_block (m_Content msg))
     else msg)"

definition stripImagesFromMessages :: "message list \<Rightarrow> message list" where
  "stripImagesFromMessages msgs = map strip_message msgs"

definition containsToolResult :: "message \<Rightarrow> bool" where
  "containsToolResult msg \<longleftrightarrow> list_ex (\<lambda>part. p_Type part = ''tool_result'') (m_Content msg)"

definition containsToolUse :: "message \<Rightarrow> bool" where
  "containsToolUse msg \<longleftrightarrow> list_ex (\<lambda>part. p_Type part = ''tool_use'') (m_Content msg)"

definition preservedTailCount :: "message list \<Rightarrow> nat" where
  "preservedTailCount msgs =
    (if msgs = [] then 0
     else if m_Role (last msgs) \<noteq> RoleUser then 0
     else if \<not> containsToolResult (last msgs) \<or> length msgs < 2 then 1
     else let prev = msgs ! (length msgs - 2) in
          if m_Role prev = RoleAssistant \<and> containsToolUse prev then 2 else 1)"

definition splitMessagesForCompaction :: "message list \<Rightarrow> message list \<times> message list" where
  "splitMessagesForCompaction msgs =
    (let candidate = GetMessagesAfterCompactBoundary msgs in
     if candidate = [] then ([], [])
     else let preserveCount = preservedTailCount candidate in
          if preserveCount = 0 then (candidate, [])
          else if preserveCount \<ge> length candidate then ([], candidate)
          else (take (length candidate - preserveCount) candidate,
                drop (length candidate - preserveCount) candidate))"

lemma split_concat:
  "splitMessagesForCompaction msgs = (s, p) \<Longrightarrow> s @ p = GetMessagesAfterCompactBoundary msgs"
  by (auto simp: splitMessagesForCompaction_def Let_def split: if_splits)

lemma preservedTailCount_le: "preservedTailCount msgs \<le> 2"
  by (simp add: preservedTailCount_def Let_def)

text \<open>
  What is summarized and what is preserved are together exactly the messages after the last
  boundary, in order; at most two messages are preserved, a final user message always is, and the
  cut never falls between an assistant's tool call and the user message that answers it.
\<close>

theorem split_keeps_pairs:
  assumes "splitMessagesForCompaction msgs = (s, p)"
  shows "s @ p = GetMessagesAfterCompactBoundary msgs
    \<and> length p \<le> 2
    \<and> (s @ p \<noteq> [] \<and> m_Role (last (s @ p)) = RoleUser \<longrightarrow> p \<noteq> [])
    \<and> (s \<noteq> [] \<and> p \<noteq> [] \<and> m_Role (hd p) = RoleUser \<and> containsToolResult (hd p)
        \<longrightarrow> \<not> (m_Role (last s) = RoleAssistant \<and> containsToolUse (last s)))"
proof -
  define c where "c = GetMessagesAfterCompactBoundary msgs"
  define k where "k = preservedTailCount c"
  have sp: "s @ p = c" using split_concat [OF assms] by (simp add: c_def)
  have len: "length p = min k (length c)"
    using assms by (auto simp: splitMessagesForCompaction_def c_def k_def Let_def min_def
        preservedTailCount_def split: if_splits)
  have k2: "k \<le> 2" unfolding k_def by (rule preservedTailCount_le)
  have user: "p \<noteq> []" if "c \<noteq> []" "m_Role (last c) = RoleUser"
  proof -
    have "0 < k" using that by (simp add: k_def preservedTailCount_def Let_def)
    with len that show ?thesis by (cases p) (auto simp: min_def split: if_splits)
  qed
  have pair: "\<not> (m_Role (last s) = RoleAssistant \<and> containsToolUse (last s))"
    if s: "s \<noteq> []" and p: "p \<noteq> []" "m_Role (hd p) = RoleUser" "containsToolResult (hd p)"
  proof (cases "length p = 1")
    case True
    then obtain m where m: "p = [m]" by (cases p) auto
    have "s = butlast s @ [last s]" using s by simp
    then have ceq: "c = butlast s @ [last s, m]" using sp m by (metis append.assoc append_Cons append_Nil)
    have c: "length c = Suc (length s)" "last c = m" "c ! (length c - 2) = last s"
      using s by (simp_all add: ceq nth_append)
    have c2: "length c \<ge> 2" using c(1) s by (cases s) auto
    have "k = 1" using True len c2 by (simp add: min_def split: if_splits)
    have prem: "c \<noteq> []" "m_Role (last c) = RoleUser" "containsToolResult (last c)" "\<not> length c < 2"
      using c2 p m by (auto simp: c(2))
    show ?thesis
    proof
      assume "m_Role (last s) = RoleAssistant \<and> containsToolUse (last s)"
      then have "preservedTailCount c = 2"
        unfolding preservedTailCount_def Let_def c(3) using prem by simp
      with \<open>k = 1\<close> show False by (simp add: k_def)
    qed
  next
    case False
    moreover have "length p \<le> 2" using len k2 by simp
    moreover have "length p \<noteq> 0" using p(1) by simp
    ultimately have "length p = 2" by linarith
    then obtain m n where mn: "p = [m, n]" by (auto simp: length_Suc_conv numeral_2_eq_2)
    then have "k = 2" using len k2 by (auto simp: min_def split: if_splits)
    then have "m_Role (c ! (length c - 2)) = RoleAssistant"
      by (auto simp: k_def preservedTailCount_def Let_def split: if_splits)
    moreover have "c ! (length c - 2) = m" unfolding sp [symmetric] mn by (simp add: nth_append)
    ultimately have "m_Role m = RoleAssistant" by simp
    with p mn show ?thesis by simp
  qed
  from sp len k2 user pair show ?thesis by (auto simp: c_def)
qed

theorem split_keeps_pairs_witness:
  "splitMessagesForCompaction
      [mk_message RoleUser [TextPart ''go''],
       mk_message RoleAssistant [ToolUsePart ''t1'' ''Read'' None],
       mk_message RoleUser [ToolResultPart ''t1'' ''ok'' False]]
    = ([mk_message RoleUser [TextPart ''go'']],
       [mk_message RoleAssistant [ToolUsePart ''t1'' ''Read'' None],
        mk_message RoleUser [ToolResultPart ''t1'' ''ok'' False]])
   \<and> GetMessagesAfterCompactBoundary
      [mk_message RoleUser [TextPart ''go''],
       mk_message RoleAssistant [ToolUsePart ''t1'' ''Read'' None],
       mk_message RoleUser [ToolResultPart ''t1'' ''ok'' False]]
    = [mk_message RoleUser [TextPart ''go''],
       mk_message RoleAssistant [ToolUsePart ''t1'' ''Read'' None],
       mk_message RoleUser [ToolResultPart ''t1'' ''ok'' False]]"
  (is "?split = (?s, ?p) \<and> _")
proof -
  have sp: "?split = (?s, ?p)" by code_simp
  from split_keeps_pairs [OF this] sp show ?thesis by simp
qed

section \<open>Prompt-too-long retries\<close>

definition ptlRetryMarker :: string where
  "ptlRetryMarker = ''[earlier conversation truncated for compaction retry]''"

definition promptTooLongErrorMessage :: string where
  "promptTooLongErrorMessage = ''Prompt is too long''"

definition ErrorMessagePromptTooLong :: string where
  "ErrorMessagePromptTooLong = ''Conversation too long. Press esc twice to go up a few messages and try again.''"

definition is_ptl_marker :: "message \<Rightarrow> bool" where
  "is_ptl_marker m \<longleftrightarrow> m_Role m = RoleUser \<and> length (m_Content m) = 1
     \<and> p_Type (hd (m_Content m)) = ''text'' \<and> p_Text (hd (m_Content m)) = ptlRetryMarker"

definition ptl_input :: "message list \<Rightarrow> message list" where
  "ptl_input msgs = (if msgs \<noteq> [] \<and> is_ptl_marker (hd msgs) then tl msgs else msgs)"

text \<open>How many groups cover the gap: at least one, all of them when they do not suffice.\<close>

fun drop_for_gap :: "int \<Rightarrow> int \<Rightarrow> message list list \<Rightarrow> nat" where
  "drop_for_gap gap acc [] = 0"
| "drop_for_gap gap acc (g # gs) =
    (let acc' = acc + EstimateTokens g in
     if acc' \<ge> gap then 1 else Suc (drop_for_gap gap acc' gs))"

text \<open>\<open>int(math.Max(1, float64(n) * 0.2))\<close>: the double nearest to 0.2 is
  \<open>7205759403792794 / 2 ^ 55\<close>.\<close>

definition twenty_percent :: "nat \<Rightarrow> nat" where
  "twenty_percent n = max 1 (round53 (round53 n * 7205759403792794) div 2 ^ 55)"

definition TruncateHeadForPTLRetry :: "message list \<Rightarrow> int \<Rightarrow> message list" where
  "TruncateHeadForPTLRetry msgs tokenGap =
    (if msgs = [] then []
     else let groups = groupMessagesByRoleBoundary (ptl_input msgs) in
       if length groups < 2 then []
       else let dropCount0 = (if tokenGap > 0 then drop_for_gap tokenGap 0 groups
                              else twenty_percent (length groups));
                dropCount = min dropCount0 (length groups - 1)
            in if dropCount < 1 then []
               else let sliced = concat (drop dropCount groups) in
                 if sliced \<noteq> [] \<and> m_Role (hd sliced) = RoleAssistant
                 then mk_message RoleUser [TextPart ptlRetryMarker] # sliced
                 else sliced)"

lemma TruncateHead_cases:
  assumes "TruncateHeadForPTLRetry msgs gap = r" and "r \<noteq> []"
  obtains dropped kept where "dropped \<noteq> []" "kept \<noteq> []" "ptl_input msgs = dropped @ kept"
    and "r = (if m_Role (hd kept) = RoleAssistant
              then mk_message RoleUser [TextPart ptlRetryMarker] # kept else kept)"
proof -
  define groups where "groups = groupMessagesByRoleBoundary (ptl_input msgs)"
  have cc: "concat groups = ptl_input msgs"
    by (simp add: groups_def groupMessagesByRoleBoundary_def group_roles_concat)
  have ne: "[] \<notin> set groups"
    by (simp add: groups_def groupMessagesByRoleBoundary_def group_roles_nonempty)
  define d where "d = min (if gap > 0 then drop_for_gap gap 0 groups
    else twenty_percent (length groups)) (length groups - 1)"
  have g2: "length groups \<ge> 2" and d1: "d \<ge> 1"
    and r: "r = (if concat (drop d groups) \<noteq> [] \<and> m_Role (hd (concat (drop d groups))) = RoleAssistant
         then mk_message RoleUser [TextPart ptlRetryMarker] # concat (drop d groups)
         else concat (drop d groups))"
    using assms unfolding TruncateHeadForPTLRetry_def Let_def groups_def [symmetric] d_def [symmetric]
    by (auto split: if_splits)
  have dl: "d < length groups" using g2 by (simp add: d_def)
  have "drop d groups \<noteq> []" using dl by simp
  then obtain g gs where g: "drop d groups = g # gs" by (cases "drop d groups") auto
  then have "g \<noteq> []" using ne by (metis in_set_dropD list.set_intros(1))
  then have kept: "concat (drop d groups) \<noteq> []" using g by simp
  have "take d groups \<noteq> []" using d1 dl by (cases groups) auto
  then obtain h hs where h: "take d groups = h # hs" by (cases "take d groups") auto
  then have "h \<noteq> []" using ne by (metis in_set_takeD list.set_intros(1))
  then have dropped: "concat (take d groups) \<noteq> []" using h by simp
  have "ptl_input msgs = concat (take d groups) @ concat (drop d groups)"
    by (simp only: concat_append [symmetric] append_take_drop_id cc)
  then show ?thesis
    by (rule that [OF dropped kept]) (use kept r in simp)
qed

lemma TruncateHead_nonempty:
  assumes "length (groupMessagesByRoleBoundary (ptl_input msgs)) \<ge> 2"
  shows "TruncateHeadForPTLRetry msgs gap \<noteq> []"
proof -
  define groups where "groups = groupMessagesByRoleBoundary (ptl_input msgs)"
  have ne: "[] \<notin> set groups"
    by (simp add: groups_def groupMessagesByRoleBoundary_def group_roles_nonempty)
  have g2: "length groups \<ge> 2" using assms by (simp add: groups_def)
  have m: "msgs \<noteq> []"
    using assms by (auto simp: ptl_input_def groupMessagesByRoleBoundary_def)
  have "1 \<le> drop_for_gap gap 0 groups" using g2 by (cases groups) (auto simp: Let_def)
  then have d1: "1 \<le> min (if gap > 0 then drop_for_gap gap 0 groups else twenty_percent (length groups))
      (length groups - 1)" (is "1 \<le> ?d")
    using g2 by (simp add: twenty_percent_def)
  have "?d \<le> length groups - 1" by (rule min.cobounded2)
  then have "?d < length groups" using g2 by linarith
  then have "drop ?d groups \<noteq> []" by (simp only: drop_eq_Nil not_le)
  then obtain g gs where g: "drop ?d groups = g # gs" by (cases "drop ?d groups") auto
  then have "g \<noteq> []" using ne by (metis in_set_dropD list.set_intros(1))
  then show ?thesis
    using m g2 d1 g unfolding TruncateHeadForPTLRetry_def Let_def groups_def [symmetric] by auto
qed

text \<open>
  Cutting the head for a retry always makes progress and never starts with the assistant: when
  it gives a result, at least one message of the (marker-free) input is dropped and at least one
  kept, the kept ones are its tail in order, and a marker is put in front exactly when they would
  start with an assistant message.
\<close>

theorem TruncateHead_progress:
  assumes "TruncateHeadForPTLRetry msgs gap \<noteq> []"
  shows "\<exists>dropped kept. dropped \<noteq> [] \<and> kept \<noteq> [] \<and> ptl_input msgs = dropped @ kept
    \<and> TruncateHeadForPTLRetry msgs gap =
        (if m_Role (hd kept) = RoleAssistant then mk_message RoleUser [TextPart ptlRetryMarker] # kept
         else kept)
    \<and> m_Role (hd (TruncateHeadForPTLRetry msgs gap)) \<noteq> RoleAssistant
    \<and> ptl_input (mk_message RoleUser [TextPart ptlRetryMarker] # kept) = kept"
proof -
  obtain dropped kept where *: "dropped \<noteq> []" "kept \<noteq> []" "ptl_input msgs = dropped @ kept"
    and r: "TruncateHeadForPTLRetry msgs gap = (if m_Role (hd kept) = RoleAssistant
              then mk_message RoleUser [TextPart ptlRetryMarker] # kept else kept)"
    by (rule TruncateHead_cases [OF refl assms])
  have "ptl_input (mk_message RoleUser [TextPart ptlRetryMarker] # kept) = kept"
    by (simp add: ptl_input_def is_ptl_marker_def part_defs)
  with * show ?thesis unfolding r by (intro exI conjI) (auto split: if_splits)
qed

theorem TruncateHead_progress_witness:
  "\<exists>dropped kept. dropped \<noteq> [] \<and> kept \<noteq> [] \<and>
    [mk_message RoleUser [TextPart ''a''], mk_message RoleAssistant [TextPart ''b'']] = dropped @ kept"
proof -
  let ?ms = "[mk_message RoleUser [TextPart ''a''], mk_message RoleAssistant [TextPart ''b'']]"
  have "TruncateHeadForPTLRetry ?ms 0 \<noteq> []"
    by (rule TruncateHead_nonempty)
       (simp add: groupMessagesByRoleBoundary_def ptl_input_def is_ptl_marker_def part_defs ptlRetryMarker_def)
  from TruncateHead_progress [OF this] show ?thesis
    by (auto simp: ptl_input_def is_ptl_marker_def part_defs ptlRetryMarker_def)
qed

section \<open>The summary call\<close>

type_synonym 'w client_call = "model_request \<Rightarrow> 'w \<Rightarrow> (go_error + stream) \<times> 'w"

fun consume_summary :: "stream \<Rightarrow> string \<Rightarrow> usage \<Rightarrow> go_error + (string \<times> usage)" where
  "consume_summary [] summary u =
    (if summary = '''' then Inl (PlainErr ''summary response did not contain valid text content'')
     else Inr (summary, u))"
| "consume_summary (e # es) summary u =
    (if ev_Type e = EvTextDelta then consume_summary es (summary @ ev_Text e) u
     else if ev_Type e = EvError then Inl (PlainErr (''summary stream error: '' @ ev_Error e))
     else if ev_Type e = EvDone
       then consume_summary es summary (case ev_Usage e of Some v \<Rightarrow> v | None \<Rightarrow> u)
     else consume_summary es summary u)"

definition summary_model_request :: "string \<Rightarrow> message list \<Rightarrow> model_request" where
  "summary_model_request modelID msgs =
    \<lparr>rq_Model = modelID,
     rq_System = ''You are a helpful AI assistant tasked with summarizing conversations.'',
     rq_MaxOutputTokens = 20000, rq_Messages = msgs, rq_Tools = [], rq_TaskBudget = None,
     rq_EnablePromptCaching = False, rq_PreviousResponseID = None\<rparr>"

definition streamCompactSummary ::
    "'w client_call \<Rightarrow> string \<Rightarrow> message list \<Rightarrow> 'w \<Rightarrow> (go_error + (string \<times> usage)) \<times> 'w" where
  "streamCompactSummary call modelID msgs w =
    (let (r, w1) = call (summary_model_request modelID msgs) w in
     (case r of
        Inl e \<Rightarrow> Inl (WrapErr (''failed to open summary stream: '' @ error_text e) e)
      | Inr s \<Rightarrow> consume_summary s '''' usage_zero, w1))"

text \<open>An error that says the prompt is too long is handled like a summary that says so.\<close>

definition ptl_as_summary :: "go_error + (string \<times> usage) \<Rightarrow> go_error + (string \<times> usage)" where
  "ptl_as_summary r = (case r of
      Inl e \<Rightarrow> if str_contains (error_text e) promptTooLongErrorMessage
               then Inr (promptTooLongErrorMessage, usage_zero) else Inl e
    | Inr su \<Rightarrow> Inr su)"

text \<open>The retry loop, shared in form by the full and the partial compaction; \<open>label\<close> is the text
  of the error wrapper, the only difference between the two.\<close>

function ptl_loop :: "'w client_call \<Rightarrow> string \<Rightarrow> string \<Rightarrow> message \<Rightarrow> message list \<Rightarrow> nat \<Rightarrow> 'w
    \<Rightarrow> (go_error + (string \<times> usage)) \<times> 'w" where
  "ptl_loop call lbl modelID summaryRequest apiMessages ptlAttempts w =
    (let (r, w1) = streamCompactSummary call modelID (apiMessages @ [summaryRequest]) w in
     case ptl_as_summary r of
       Inl e \<Rightarrow> (Inl (WrapErr (lbl @ '': '' @ error_text e) e), w1)
     | Inr (summary, u) \<Rightarrow>
        if \<not> has_prefix summary promptTooLongErrorMessage then (Inr (summary, u), w1)
        else
          let truncated = TruncateHeadForPTLRetry apiMessages 0 in
          if ptlAttempts + 1 > 3 \<or> truncated = []
          then (Inl (PlainErr ErrorMessagePromptTooLong), w1)
          else ptl_loop call lbl modelID summaryRequest truncated (ptlAttempts + 1) w1)"
  by pat_completeness auto
termination by (relation "measure (\<lambda>(_, _, _, _, _, n, _). 4 - n)") auto

declare ptl_loop.simps [simp del]

section \<open>Compaction\<close>

record compaction_result =
  cr_Boundary :: message
  cr_SummaryMessages :: "message list"
  cr_Summary :: string
  cr_PreTokenCount :: int
  cr_PostTokenCount :: int
  cr_Attachments :: "attachment list"
  cr_Usage :: usage

record compact_request =
  cq_Messages :: "message list"
  cq_Model :: string
  cq_Prompt :: string
  cq_TranscriptPath :: string
  cq_ReadFileState :: "(string \<times> file_read_state) list"
  cq_PlanContent :: string
  cq_PlanFilePath :: string
  cq_InvokedSkills :: "skill_info list"

text \<open>\<open>cq_Prompt\<close> is the text \<open>GetCompactPrompt\<close> builds from its constants and the custom
  instructions.\<close>

definition CompactConversation ::
    "'w client_call \<Rightarrow> compact_request \<Rightarrow> 'w \<Rightarrow> (go_error + compaction_result) \<times> 'w" where
  "CompactConversation call req w =
    (if cq_Messages req = [] then (Inl (PlainErr ''not enough messages to compact''), w)
     else
       let preTokenCount = EstimateTokens (cq_Messages req);
           stripped = stripImagesFromMessages (cq_Messages req);
           summaryRequest = mk_message RoleUser [TextPart (cq_Prompt req)];
           (messagesToSummarize, preservedTail) = splitMessagesForCompaction stripped;
           (r, w1) = ptl_loop call ''compact summary generation failed'' (cq_Model req)
                       summaryRequest messagesToSummarize 0 w
       in case r of
            Inl e \<Rightarrow> (Inl e, w1)
          | Inr (summary, u) \<Rightarrow>
              let formattedSummary = FormatCompactSummary summary;
                  boundary = CreateBoundaryMessage TriggerAuto preTokenCount (int (length (cq_Messages req)));
                  summaryMsg = CreateSummaryMessage formattedSummary (cq_TranscriptPath req);
                  summaryMessages = summaryMsg # preservedTail;
                  postMessages = BuildPostCompactMessages boundary summaryMessages
              in (Inr \<lparr>cr_Boundary = boundary, cr_SummaryMessages = summaryMessages,
                       cr_Summary = formattedSummary, cr_PreTokenCount = preTokenCount,
                       cr_PostTokenCount = EstimateTokens postMessages,
                       cr_Attachments = buildPostCompactAttachments (cq_ReadFileState req)
                         (cq_PlanContent req) (cq_PlanFilePath req) (cq_InvokedSkills req),
                       cr_Usage = u\<rparr>, w1))"

text \<open>The result is \<open>None\<close> when no compaction is due (the code's \<open>nil, nil\<close>). The tracking state
  is shared with the caller, so it is returned updated.\<close>

definition AutoCompactIfNeeded ::
    "(string \<Rightarrow> string) \<Rightarrow> 'w client_call \<Rightarrow> string \<Rightarrow> message list \<Rightarrow> string \<Rightarrow> string
     \<Rightarrow> tracking_state option \<Rightarrow> 'w
     \<Rightarrow> (go_error + compaction_result option) \<times> tracking_state option \<times> 'w" where
  "AutoCompactIfNeeded env call prompt msgs modelID transcriptPath tracking w =
    (if isEnvTruthy env ''DISABLE_COMPACT'' then (Inr None, tracking, w)
     else if (case tracking of Some t \<Rightarrow> ts_ConsecutiveFailures t \<ge> 3 | None \<Rightarrow> False)
       then (Inr None, tracking, w)
     else if \<not> ShouldAutoCompactWithTracking env msgs modelID tracking then (Inr None, tracking, w)
     else
       let (r, w1) = CompactConversation call
             \<lparr>cq_Messages = msgs, cq_Model = modelID, cq_Prompt = prompt,
              cq_TranscriptPath = transcriptPath, cq_ReadFileState = [], cq_PlanContent = '''',
              cq_PlanFilePath = '''', cq_InvokedSkills = []\<rparr> w
       in case r of
            Inl e \<Rightarrow> (Inl e, map_option (\<lambda>t. t\<lparr>ts_ConsecutiveFailures := ts_ConsecutiveFailures t + 1\<rparr>) tracking, w1)
          | Inr res \<Rightarrow> (Inr (Some res),
               map_option (\<lambda>t. t\<lparr>ts_ConsecutiveFailures := 0, ts_Compacted := True\<rparr>) tracking, w1))"

text \<open>Partial compaction. \<open>pq_Prompt\<close> is the text of \<open>GetPartialCompactPrompt\<close>, already holding
  the custom instructions and the user's feedback.\<close>

record partial_compact_request =
  pq_AllMessages :: "message list"
  pq_PivotIndex :: int
  pq_Direction :: string
  pq_Model :: string
  pq_Prompt :: string
  pq_TranscriptPath :: string
  pq_ReadFileState :: "(string \<times> file_read_state) list"
  pq_PlanContent :: string
  pq_PlanFilePath :: string
  pq_InvokedSkills :: "skill_info list"

definition filterProgressMessages :: "message list \<Rightarrow> message list" where
  "filterProgressMessages msgs = filter (\<lambda>_. True) msgs"

definition isCompactSummaryMessage :: "message \<Rightarrow> bool" where
  "isCompactSummaryMessage msg \<longleftrightarrow> m_Role msg = RoleUser \<and>
     list_ex (\<lambda>part. p_Type part = ''text'' \<and>
        has_prefix (p_Text part) ''This session is being continued from a previous conversation'')
       (m_Content msg)"

definition stripCompactBoundariesAndSummaries :: "message list \<Rightarrow> message list" where
  "stripCompactBoundariesAndSummaries msgs =
    filter (\<lambda>m. \<not> IsCompactBoundary m \<and> \<not> isCompactSummaryMessage m) msgs"

text \<open>The part after the retry loop, which puts the result together.\<close>

definition partial_result ::
    "partial_compact_request \<Rightarrow> message list \<Rightarrow> message list \<Rightarrow> string \<Rightarrow> usage \<Rightarrow> compaction_result" where
  "partial_result req messagesToSummarize messagesToKeep summary u =
    (let preCompactTokenCount = EstimateTokens (pq_AllMessages req);
         boundary = CreateBoundaryMessage TriggerManual preCompactTokenCount (int (length messagesToSummarize));
         summaryMsg = mk_message RoleUser
           [TextPart (GetCompactUserSummaryMessage summary False (pq_TranscriptPath req) (pq_Direction req))];
         summaryMessages = (if pq_Direction req = ''from'' then summaryMsg # messagesToKeep else [summaryMsg]);
         postMessages = (if pq_Direction req = ''up_to''
           then BuildPostCompactMessages boundary summaryMessages
           else BuildPostCompactMessages boundary summaryMessages @ messagesToKeep)
     in \<lparr>cr_Boundary = boundary, cr_SummaryMessages = summaryMessages,
         cr_Summary = FormatCompactSummary summary,
         cr_PreTokenCount = preCompactTokenCount, cr_PostTokenCount = EstimateTokens postMessages,
         cr_Attachments = buildPostCompactAttachments (pq_ReadFileState req)
           (pq_PlanContent req) (pq_PlanFilePath req) (pq_InvokedSkills req),
         cr_Usage = u\<rparr>)"

definition PartialCompactConversation ::
    "'w client_call \<Rightarrow> partial_compact_request \<Rightarrow> 'w \<Rightarrow> (go_error + compaction_result) \<times> 'w" where
  "PartialCompactConversation call req w =
    (if pq_AllMessages req = [] then (Inl (PlainErr ''not enough messages to compact''), w)
     else if pq_PivotIndex req < 0 \<or> pq_PivotIndex req > int (length (pq_AllMessages req))
       then (Inl (PlainErr (''pivot index '' @ itoa (pq_PivotIndex req) @ '' out of range [0, ''
              @ itoa (int (length (pq_AllMessages req))) @ '']'')), w)
     else
       let p = nat (pq_PivotIndex req);
           upTo = (pq_Direction req = ''up_to'');
           messagesToSummarize = (if upTo then take p (pq_AllMessages req) else drop p (pq_AllMessages req));
           messagesToKeep = (if upTo
             then filterProgressMessages (stripCompactBoundariesAndSummaries (drop p (pq_AllMessages req)))
             else filterProgressMessages (take p (pq_AllMessages req)))
       in if messagesToSummarize = []
          then (Inl (PlainErr (if upTo then ''nothing to summarize before the selected message''
                               else ''nothing to summarize after the selected message'')), w)
          else
            let summaryRequest = mk_message RoleUser [TextPart (pq_Prompt req)];
                apiMessages = (if upTo then stripImagesFromMessages messagesToSummarize
                               else stripImagesFromMessages (pq_AllMessages req));
                (r, w1) = ptl_loop call ''partial compact summary generation failed'' (pq_Model req)
                            summaryRequest apiMessages 0 w
            in (bind_res r (\<lambda>(summary, u).
                  if summary = ''''
                  then Inl (PlainErr ''failed to generate conversation summary - response did not contain valid text content'')
                  else Inr (partial_result req messagesToSummarize messagesToKeep summary u)), w1))"

section \<open>Lemmas on compaction\<close>

text \<open>Counting calls: the client is instrumented with a counter next to its world.\<close>

definition counted :: "'w client_call \<Rightarrow> (nat \<times> 'w) client_call" where
  "counted call rq nw = (let (r, w1) = call rq (snd nw) in (r, (Suc (fst nw), w1)))"

lemma streamCompactSummary_counted:
  "fst (snd (streamCompactSummary (counted call) m ms nw)) = Suc (fst nw)"
  by (simp add: streamCompactSummary_def counted_def split: prod.splits)

lemma ptl_loop_calls:
  "k \<le> 3 \<Longrightarrow> fst (snd (ptl_loop (counted call) lbl m sr ms k nw)) \<le> fst nw + (4 - k)"
proof (induction "counted call" lbl m sr ms k nw rule: ptl_loop.induct)
  case (1 lbl m sr ms k nw)
  obtain r nw1 where s: "streamCompactSummary (counted call) m (ms @ [sr]) nw = (r, nw1)"
    by (cases "streamCompactSummary (counted call) m (ms @ [sr]) nw")
  have n1: "fst nw1 = Suc (fst nw)" using streamCompactSummary_counted [of call m "ms @ [sr]" nw] s by simp
  show ?case
  proof (cases "ptl_as_summary r")
    case (Inl e)
    with s n1 "1.prems" show ?thesis by (subst ptl_loop.simps) (simp add: Let_def)
  next
    case (Inr su)
    obtain summary u where su: "su = (summary, u)" by (cases su)
    show ?thesis
    proof (cases "\<not> has_prefix summary promptTooLongErrorMessage
        \<or> k + 1 > 3 \<or> TruncateHeadForPTLRetry ms 0 = []")
      case True
      with s n1 Inr su "1.prems" show ?thesis by (subst ptl_loop.simps) (auto simp: Let_def)
    next
      case False
      have "fst (snd (ptl_loop (counted call) lbl m sr (TruncateHeadForPTLRetry ms 0) (k + 1) nw1))
          \<le> fst nw1 + (4 - (k + 1))"
        by (rule "1.hyps" [OF s [symmetric] refl Inr su [symmetric] _ refl]) (use False su in auto)
      also have "fst nw1 + (4 - (k + 1)) = fst nw + (4 - k)" using n1 False by linarith
      finally show ?thesis using s Inr su False by (subst ptl_loop.simps) (simp add: Let_def)
    qed
  qed
qed

lemma CompactConversation_calls:
  "fst (snd (CompactConversation (counted call) req nw)) \<le> fst nw + 4"
proof (cases "cq_Messages req = []")
  case True
  then show ?thesis by (simp add: CompactConversation_def)
next
  case False
  obtain a b where ab: "splitMessagesForCompaction (stripImagesFromMessages (cq_Messages req)) = (a, b)"
    by (cases "splitMessagesForCompaction (stripImagesFromMessages (cq_Messages req))")
  obtain r nw1 where p: "ptl_loop (counted call) ''compact summary generation failed'' (cq_Model req)
      (mk_message RoleUser [TextPart (cq_Prompt req)]) a 0 nw = (r, nw1)"
    by (cases "ptl_loop (counted call) ''compact summary generation failed'' (cq_Model req)
      (mk_message RoleUser [TextPart (cq_Prompt req)]) a 0 nw")
  have "fst nw1 \<le> fst nw + 4"
    using ptl_loop_calls [of 0 call "''compact summary generation failed''" "cq_Model req"
        "mk_message RoleUser [TextPart (cq_Prompt req)]" a nw] p by simp
  moreover have "snd (CompactConversation (counted call) req nw) = nw1"
    using False ab p by (simp add: CompactConversation_def Let_def split: sum.split prod.split)
  ultimately show ?thesis by simp
qed

text \<open>
  A compaction always returns, after at most four calls of the model: the first one and the
  three retries, whatever the model answers and however long the history is.
\<close>

theorem CompactConversation_call_bound:
  "fst (snd (CompactConversation (counted call) req (0, w))) \<le> 4"
  using CompactConversation_calls [of call req "(0, w)"] by simp

subsection \<open>The preserved tail\<close>

lemma strip_role [simp]: "m_Role (strip_message m) = m_Role m"
  by (simp add: strip_message_def)

lemma strip_block_tool:
  "p_Type (strip_block b) = ''tool_result'' \<longleftrightarrow> p_Type b = ''tool_result''"
  "p_Type (strip_block b) = ''tool_use'' \<longleftrightarrow> p_Type b = ''tool_use''"
  by (simp_all add: strip_block_def part_defs)

lemma strip_block_not_marker:
  "p_Type (strip_block b) = ''text'' \<and> p_Text (strip_block b) = ''[compact_boundary]''
    \<longleftrightarrow> p_Type b = ''text'' \<and> p_Text b = ''[compact_boundary]''"
  by (simp add: strip_block_def part_defs)

lemma strip_boundary [simp]: "IsCompactBoundary (strip_message m) = IsCompactBoundary m"
  by (auto simp: IsCompactBoundary_def strip_message_def list_ex_iff strip_block_not_marker)

lemma strip_tool_result [simp]: "containsToolResult (strip_message m) = containsToolResult m"
  by (auto simp: containsToolResult_def strip_message_def list_ex_iff strip_block_tool)

lemma strip_tool_use [simp]: "containsToolUse (strip_message m) = containsToolUse m"
  by (auto simp: containsToolUse_def strip_message_def list_ex_iff strip_block_tool)

lemma after_boundary_strip:
  "GetMessagesAfterCompactBoundary (map strip_message ms) = map strip_message (GetMessagesAfterCompactBoundary ms)"
proof -
  have dw: "hd (dropWhile (\<lambda>m. \<not> IsCompactBoundary m) (map strip_message xs))
      = strip_message (hd (dropWhile (\<lambda>m. \<not> IsCompactBoundary m) xs))"
    if "list_ex IsCompactBoundary xs" for xs
    using that by (induction xs) auto
  have tw: "takeWhile (\<lambda>m. \<not> IsCompactBoundary m) (map strip_message xs)
      = map strip_message (takeWhile (\<lambda>m. \<not> IsCompactBoundary m) xs)" for xs
    by (induction xs) auto
  have ex: "list_ex IsCompactBoundary (map strip_message xs) = list_ex IsCompactBoundary xs" for xs
    by (induction xs) auto
  show ?thesis
  proof (cases "list_ex IsCompactBoundary ms")
    case False
    then show ?thesis by (simp add: after_boundary_rev ex)
  next
    case True
    then have "list_ex IsCompactBoundary (rev ms)" by (simp add: list_ex_iff)
    with True show ?thesis by (simp add: after_boundary_rev ex rev_map tw dw)
  qed
qed

lemma preservedTailCount_strip: "preservedTailCount (map strip_message ms) = preservedTailCount ms"
  by (simp add: preservedTailCount_def Let_def last_map)

lemma split_strip:
  "splitMessagesForCompaction (map strip_message ms)
    = map_prod (map strip_message) (map strip_message) (splitMessagesForCompaction ms)"
  by (simp add: splitMessagesForCompaction_def Let_def after_boundary_strip preservedTailCount_strip
      take_map drop_map)

lemma CompactConversation_success:
  assumes "CompactConversation call req w = (Inr res, w')"
  shows "cr_Boundary res = CreateBoundaryMessage TriggerAuto (EstimateTokens (cq_Messages req))
      (int (length (cq_Messages req)))
    \<and> cr_SummaryMessages res = CreateSummaryMessage (cr_Summary res) (cq_TranscriptPath req)
        # map strip_message (snd (splitMessagesForCompaction (cq_Messages req)))
    \<and> cr_PostTokenCount res = EstimateTokens (cr_Boundary res # cr_SummaryMessages res)"
  using assms
  by (cases "splitMessagesForCompaction (cq_Messages req)")
     (auto simp: CompactConversation_def Let_def stripImagesFromMessages_def split_strip
      BuildPostCompactMessages_def split: prod.splits sum.splits if_splits)

text \<open>
  A successful compaction yields the boundary, one summary message, and the preserved tail of
  the active turn; the tail is the original one except that every image and document block of its
  user messages is replaced by a text marker, so an image the user has just sent is lost.
\<close>

theorem CompactConversation_result:
  assumes "CompactConversation call req w = (Inr res, w')"
  shows "IsCompactBoundary (cr_Boundary res)
    \<and> cr_SummaryMessages res = CreateSummaryMessage (cr_Summary res) (cq_TranscriptPath req)
        # stripImagesFromMessages (snd (splitMessagesForCompaction (cq_Messages req)))
    \<and> cr_PostTokenCount res = EstimateTokens (cr_Boundary res # cr_SummaryMessages res)"
  using CompactConversation_success [OF assms]
  by (simp add: stripImagesFromMessages_def IsCompactBoundary_def CreateBoundaryMessage_def part_defs)

text \<open>A client that answers every request with one text and a usage-free end.\<close>

definition text_client :: "string \<Rightarrow> nat client_call" where
  "text_client s rq n = (Inr [(mk_event EvTextDelta)\<lparr>ev_Text := s\<rparr>, mk_event EvDone], n + 1)"

definition image_turn :: compact_request where
  "image_turn = \<lparr>cq_Messages = [mk_message RoleUser [TextPart ''go''], mk_message RoleAssistant [TextPart ''done''],
      mk_message RoleUser [TextPart ''see'', ImagePart ''image/png'' ''AAAA'']],
    cq_Model = ''m'', cq_Prompt = ''sum up'', cq_TranscriptPath = '''', cq_ReadFileState = [],
    cq_PlanContent = '''', cq_PlanFilePath = '''', cq_InvokedSkills = []\<rparr>"

lemma ptl_loop_plain_answer:
  assumes "streamCompactSummary call m (ms @ [sr]) w = (Inr (summary, u), w1)"
    and "\<not> has_prefix summary promptTooLongErrorMessage"
  shows "ptl_loop call lbl m sr ms k w = (Inr (summary, u), w1)"
  using assms by (subst ptl_loop.simps) (simp add: Let_def ptl_as_summary_def)

lemma text_client_summary:
  "s \<noteq> [] \<Longrightarrow> streamCompactSummary (text_client s) m ms n = (Inr (s, usage_zero), n + 1)"
  by (simp add: streamCompactSummary_def text_client_def mk_event_def)

lemma text_client_compacts:
  assumes "s \<noteq> []" and "\<not> has_prefix s promptTooLongErrorMessage" and "cq_Messages req \<noteq> []"
  shows "\<exists>res. CompactConversation (text_client s) req n = (Inr res, n + 1)"
  using assms ptl_loop_plain_answer [OF text_client_summary]
  by (simp add: CompactConversation_def Let_def split: prod.splits)

theorem CompactConversation_result_witness:
  "\<exists>res. CompactConversation (text_client ''ok'') image_turn 0 = (Inr res, 1)
    \<and> tl (cr_SummaryMessages res) = [mk_message RoleUser [TextPart ''see'', TextPart ''[image]'']]"
proof -
  have "\<not> has_prefix ''ok'' promptTooLongErrorMessage"
    by (simp add: has_prefix_def promptTooLongErrorMessage_def)
  then obtain res where res: "CompactConversation (text_client ''ok'') image_turn 0 = (Inr res, 1)"
    using text_client_compacts [of "''ok''" image_turn 0] by (auto simp: image_turn_def)
  have "stripImagesFromMessages (snd (splitMessagesForCompaction (cq_Messages image_turn)))
      = [mk_message RoleUser [TextPart ''see'', TextPart ''[image]'']]"
    by code_simp
  with CompactConversation_result [OF res] res show ?thesis by simp
qed

subsection \<open>Repeated automatic compaction\<close>

text \<open>
  One automatic attempt either compacts, or does nothing at all, or fails with at most four calls
  and counts one more failure; after three failures it does nothing.
\<close>

lemma AutoCompact_step:
  assumes "AutoCompactIfNeeded env (counted call) prompt ms m path (Some t) nw = (r, t', nw1)"
  shows "(\<exists>res. r = Inr (Some res))
    \<or> (r = Inr None \<and> t' = Some t \<and> nw1 = nw)
    \<or> (ts_ConsecutiveFailures t < 3
        \<and> (\<exists>t1. t' = Some t1 \<and> ts_ConsecutiveFailures t1 = ts_ConsecutiveFailures t + 1)
        \<and> fst nw1 \<le> fst nw + 4)"
proof -
  let ?req = "\<lparr>cq_Messages = ms, cq_Model = m, cq_Prompt = prompt, cq_TranscriptPath = path,
     cq_ReadFileState = [], cq_PlanContent = '''', cq_PlanFilePath = '''', cq_InvokedSkills = []\<rparr>"
  obtain r0 nw0 where c: "CompactConversation (counted call) ?req nw = (r0, nw0)"
    by (cases "CompactConversation (counted call) ?req nw")
  have "fst nw0 \<le> fst nw + 4" using CompactConversation_calls [of call ?req nw] c by simp
  with assms c show ?thesis
    by (auto simp: AutoCompactIfNeeded_def Let_def split: if_splits sum.splits)
qed

subsection \<open>Partial compaction\<close>

lemma PartialCompact_keeps: "filterProgressMessages ms = ms"
  by (simp add: filterProgressMessages_def)

text \<open>
  A partial compaction that summarizes from the pivot on returns the summary followed by every
  earlier message unchanged; its reported size counts those earlier messages twice, because they
  are appended to the post-compaction messages a second time.
\<close>

theorem PartialCompact_from_counts_twice:
  assumes "PartialCompactConversation call req w = (Inr res, w')" and "pq_Direction req = ''from''"
  shows "tl (cr_SummaryMessages res) = take (nat (pq_PivotIndex req)) (pq_AllMessages req)
    \<and> cr_PostTokenCount res = EstimateTokens (cr_Boundary res # cr_SummaryMessages res)
        + EstimateTokens (take (nat (pq_PivotIndex req)) (pq_AllMessages req))"
proof -
  obtain ms summary u where "res = partial_result req ms (take (nat (pq_PivotIndex req)) (pq_AllMessages req)) summary u"
    using assms(1) unfolding PartialCompactConversation_def Let_def assms(2)
    by (simp add: PartialCompact_keeps split: if_splits prod.splits) (auto simp: bind_res_Inr_iff PartialCompact_keeps split: if_splits)
  then show ?thesis
    using assms(2)
    by (simp add: partial_result_def Let_def BuildPostCompactMessages_def EstimateTokens_append EstimateTokens_Cons)
qed

definition partial_turn :: partial_compact_request where
  "partial_turn = \<lparr>pq_AllMessages = [mk_message RoleUser [TextPart ''go''], mk_message RoleAssistant [TextPart ''done'']],
    pq_PivotIndex = 1, pq_Direction = ''from'', pq_Model = ''m'', pq_Prompt = ''sum up'', pq_TranscriptPath = '''',
    pq_ReadFileState = [], pq_PlanContent = '''', pq_PlanFilePath = '''', pq_InvokedSkills = []\<rparr>"

theorem PartialCompact_from_counts_twice_witness:
  "\<exists>res. fst (PartialCompactConversation (text_client ''ok'') partial_turn 0) = Inr res
    \<and> tl (cr_SummaryMessages res) = [mk_message RoleUser [TextPart ''go'']]"
proof -
  have "\<not> has_prefix ''ok'' promptTooLongErrorMessage"
    by (simp add: has_prefix_def promptTooLongErrorMessage_def)
  note loop = ptl_loop_plain_answer [OF text_client_summary this]
  obtain res where res: "PartialCompactConversation (text_client ''ok'') partial_turn 0 = (Inr res, 1)"
    by (simp add: PartialCompactConversation_def partial_turn_def Let_def loop)
  from PartialCompact_from_counts_twice [OF this] res show ?thesis
    by (simp add: partial_turn_def)
qed

end
