(* ===== verification/Go_Text.thy ===== *)
theory Go_Text
  imports Prelude
begin

text \<open>
  Text of the standard library the file tools rest on: a Go string is its bytes, here a list of
  characters below 256; \<open>[]rune(s)\<close>, \<open>string(runes)\<close> and \<open>utf8.Valid\<close> are decoding and encoding of
  UTF-8; \<open>strings.Count\<close>, \<open>Replace\<close> and \<open>ReplaceAll\<close> take matches from left to right without overlaps.
\<close>

section \<open>UTF-8\<close>

definition byte :: "char \<Rightarrow> nat" where
  "byte c = of_char c"

definition cont_byte :: "char \<Rightarrow> bool" where
  "cont_byte c \<longleftrightarrow> 128 \<le> byte c \<and> byte c < 192"

definition low6 :: "char \<Rightarrow> nat" where
  "low6 c = byte c - 128"

text \<open>The rune at the front and its width, \<open>None\<close> for bytes that encode none.\<close>

definition rune2 :: "char \<Rightarrow> string \<Rightarrow> (nat \<times> string) option" where
  "rune2 a s = (case s of
     b # r \<Rightarrow> if cont_byte b then Some ((byte a - 192) * 64 + low6 b, r) else None
   | _ \<Rightarrow> None)"

definition rune3 :: "char \<Rightarrow> string \<Rightarrow> (nat \<times> string) option" where
  "rune3 a s = (case s of
     b # c # r \<Rightarrow>
       if cont_byte b \<and> cont_byte c \<and> (byte a = 224 \<longrightarrow> 160 \<le> byte b) \<and> (byte a = 237 \<longrightarrow> byte b < 160)
       then Some ((byte a - 224) * 4096 + low6 b * 64 + low6 c, r) else None
   | _ \<Rightarrow> None)"

definition rune4 :: "char \<Rightarrow> string \<Rightarrow> (nat \<times> string) option" where
  "rune4 a s = (case s of
     b # c # d # r \<Rightarrow>
       if cont_byte b \<and> cont_byte c \<and> cont_byte d \<and> (byte a = 240 \<longrightarrow> 144 \<le> byte b) \<and> (byte a = 244 \<longrightarrow> byte b < 144)
       then Some ((byte a - 240) * 262144 + low6 b * 4096 + low6 c * 64 + low6 d, r) else None
   | _ \<Rightarrow> None)"

definition decode_rune :: "char \<Rightarrow> string \<Rightarrow> (nat \<times> string) option" where
  "decode_rune a s =
    (if byte a < 128 then Some (byte a, s)
     else if 194 \<le> byte a \<and> byte a < 224 then rune2 a s
     else if 224 \<le> byte a \<and> byte a < 240 then rune3 a s
     else if 240 \<le> byte a \<and> byte a < 245 then rune4 a s
     else None)"

lemma decode_rune_shorter: "decode_rune a s = Some (r, t) \<Longrightarrow> length t \<le> length s"
  by (auto simp: decode_rune_def rune2_def rune3_def rune4_def split: if_splits list.splits)

text \<open>The runes of a string, \<open>None\<close> for each byte that is replaced by U+FFFD.\<close>

function decode_runes :: "string \<Rightarrow> nat option list" where
  "decode_runes [] = []"
| "decode_runes (a # s) = (case decode_rune a s of
     Some (r, t) \<Rightarrow> Some r # decode_runes t
   | None \<Rightarrow> None # decode_runes s)"
  by pat_completeness auto

termination
  by (relation "measure length") (auto dest: decode_rune_shorter)

definition runes :: "string \<Rightarrow> nat list" where
  "runes s = map (\<lambda>r. case r of Some n \<Rightarrow> n | None \<Rightarrow> 65533) (decode_runes s)"

definition utf8_valid :: "string \<Rightarrow> bool" where
  "utf8_valid s \<longleftrightarrow> None \<notin> set (decode_runes s)"

definition encode_rune :: "nat \<Rightarrow> string" where
  "encode_rune n =
    (if n < 128 then [char_of n]
     else if n < 2048 then [char_of (192 + n div 64), char_of (128 + n mod 64)]
     else if n < 65536 then [char_of (224 + n div 4096), char_of (128 + n div 64 mod 64), char_of (128 + n mod 64)]
     else [char_of (240 + n div 262144), char_of (128 + n div 4096 mod 64), char_of (128 + n div 64 mod 64), char_of (128 + n mod 64)])"

definition encode_runes :: "nat list \<Rightarrow> string" where
  "encode_runes ns = concat (map encode_rune ns)"

text \<open>The numbers that are runes with an encoding.\<close>

definition is_rune :: "nat \<Rightarrow> bool" where
  "is_rune n \<longleftrightarrow> n < 55296 \<or> (57344 \<le> n \<and> n < 1114112)"

lemma byte_less [simp]: "byte c < 256"
  by (simp add: byte_def)

lemma char_of_byte [simp]: "char_of (byte c) = c"
  by (simp add: byte_def)

lemma byte_char_of [simp]: "n < 256 \<Longrightarrow> byte (char_of n) = n"
  by (simp add: byte_def of_char_of)

lemma cont_low6: "cont_byte c \<Longrightarrow> low6 c < 64 \<and> char_of (128 + low6 c) = c"
  by (auto simp: cont_byte_def low6_def)

lemma six: "y < 64 \<Longrightarrow> (x * 64 + y) div 64 = x" "y < 64 \<Longrightarrow> (x * 64 + y) mod 64 = (y :: nat)"
  by auto

lemma decode_encode_front:
  assumes "decode_rune a s = Some (n, t)"
  shows "is_rune n \<and> encode_rune n @ t = a # s"
proof -
  have cb: "char_of (128 + low6 c) = c" "low6 c < 64" "byte c = 128 + low6 c" if "cont_byte c" for c
    using that by (auto simp: cont_byte_def low6_def)
  consider (1) "byte a < 128" | (2) "194 \<le> byte a" "byte a < 224" | (3) "224 \<le> byte a" "byte a < 240"
    | (4) "240 \<le> byte a" "byte a < 245"
    using assms by (auto simp: decode_rune_def split: if_splits)
  then show ?thesis
  proof cases
    case 1
    then show ?thesis using assms by (auto simp: decode_rune_def is_rune_def encode_rune_def)
  next
    case 2
    then obtain b where b: "s = b # t" "cont_byte b" "n = (byte a - 192) * 64 + low6 b"
      using assms by (auto simp: decode_rune_def rune2_def split: list.splits if_splits)
    define h where "h = byte a - 192"
    have "n div 64 = h" "n mod 64 = low6 b" "128 \<le> n" "n < 2048" "192 + h = byte a"
      using b 2 cb(2) [OF b(2)] by (auto simp: h_def)
    then show ?thesis using b(1) cb(1) [OF b(2)] by (auto simp: is_rune_def encode_rune_def)
  next
    case 3
    then obtain b c where b: "s = b # c # t" "cont_byte b" "cont_byte c" "byte a = 224 \<longrightarrow> 160 \<le> byte b" "byte a = 237 \<longrightarrow> byte b < 160"
      "n = (byte a - 224) * 4096 + low6 b * 64 + low6 c"
      using assms by (auto simp: decode_rune_def rune3_def split: list.splits if_splits)
    define h where "h = byte a - 224"
    note l = cb(2) [OF b(2)] cb(2) [OF b(3)] cb(3) [OF b(2)]
    have h: "byte a = 224 + h" "h < 16" using 3 by (auto simp: h_def)
    have n: "n = h * 4096 + low6 b * 64 + low6 c" using b(6) by (simp add: h_def)
    have q: "n div 64 = h * 64 + low6 b" "n mod 64 = low6 c"
      using six [of "low6 c" "h * 64 + low6 b"] n l(2) by (simp_all add: algebra_simps)
    have "n div 4096 = n div 64 div 64" using div_mult2_eq [of n 64 64] by simp
    then have d: "n div 4096 = h" "n div 64 mod 64 = low6 b" "n mod 64 = low6 c"
      using six [OF l(1), of h] q by simp_all
    have lo: "\<not> n < 2048" using n l(3) h b(4) by (cases "h = 0") auto
    then have lo1: "\<not> n < 128" by simp
    have hi: "n < 65536" using n l(1,2) h(2) by linarith
    have a: "char_of (224 + h) = a" using char_of_byte [of a] unfolding h(1) .
    have r: "is_rune n"
    proof -
      consider "h \<le> 12" | "h = 13" "low6 b < 32" | "14 \<le> h" using b(5) l(3) h by linarith
      then show ?thesis
      proof cases
        case 1
        then have "n < 55296" using n l(1,2) by linarith
        then show ?thesis by (simp add: is_rune_def)
      next
        case 2
        then have "n < 55296" using n l(1,2) by linarith
        then show ?thesis by (simp add: is_rune_def)
      next
        case 3
        then have "57344 \<le> n" "n < 1114112" using n l(1,2) h(2) by linarith+
        then show ?thesis by (simp add: is_rune_def)
      qed
    qed
    show ?thesis by (simp only: encode_rune_def lo lo1 hi d a r b(1) cb(1) [OF b(2)] cb(1) [OF b(3)] if_True if_False append_Cons append_Nil simp_thms)
  next
    case 4
    then obtain b c d where b: "s = b # c # d # t" "cont_byte b" "cont_byte c" "cont_byte d"
      "byte a = 240 \<longrightarrow> 144 \<le> byte b" "byte a = 244 \<longrightarrow> byte b < 144"
      "n = (byte a - 240) * 262144 + low6 b * 4096 + low6 c * 64 + low6 d"
      using assms by (auto simp: decode_rune_def rune4_def split: list.splits if_splits)
    define h where "h = byte a - 240"
    note l = cb(2) [OF b(2)] cb(2) [OF b(3)] cb(2) [OF b(4)] cb(3) [OF b(2)]
    have h: "byte a = 240 + h" "h < 5" using 4 by (auto simp: h_def)
    have n: "n = h * 262144 + low6 b * 4096 + low6 c * 64 + low6 d" using b(7) by (simp add: h_def)
    have q: "n div 64 = (h * 64 + low6 b) * 64 + low6 c" "n mod 64 = low6 d"
      using six [of "low6 d" "(h * 64 + low6 b) * 64 + low6 c"] n l(3) by (simp_all add: algebra_simps)
    have p: "n div 4096 = n div 64 div 64" "n div 262144 = n div 64 div 64 div 64"
      using div_mult2_eq [of n 64 64] div_mult2_eq [of n 4096 64] by simp_all
    have d: "n div 262144 = h" "n div 4096 mod 64 = low6 b" "n div 64 mod 64 = low6 c" "n mod 64 = low6 d"
      unfolding p q six [OF l(2)] six [OF l(1)] by simp_all
    have lo: "\<not> n < 65536" using n l(4) h b(5) by (cases "h = 0") auto
    then have lo1: "\<not> n < 128" "\<not> n < 2048" "57344 \<le> n" by simp_all
    have a: "char_of (240 + h) = a" using char_of_byte [of a] unfolding h(1) .
    have hi: "n < 1114112"
    proof (cases "h = 4")
      case True
      then have "low6 b < 16" using b(6) l(4) h by simp
      then show ?thesis using n l(2,3) True by linarith
    next
      case False
      then have "h \<le> 3" using h by simp
      then show ?thesis using n l(1,2,3) by linarith
    qed
    show ?thesis by (simp only: encode_rune_def is_rune_def lo lo1 hi d a b(1) cb(1) [OF b(2)] cb(1) [OF b(3)] cb(1) [OF b(4)]
        if_True if_False append_Cons append_Nil simp_thms)
  qed
qed

lemma encode_runes_simps [simp]: "encode_runes [] = []" "encode_runes (n # ns) = encode_rune n @ encode_runes ns"
  "encode_runes (ms @ ns) = encode_runes ms @ encode_runes ns"
  by (simp_all add: encode_runes_def)

lemma valid_runes: "utf8_valid s \<Longrightarrow> list_all is_rune (runes s) \<and> encode_runes (runes s) = s"
proof (induction s rule: decode_runes.induct)
  case (2 a s)
  show ?case
  proof (cases "decode_rune a s")
    case (Some nt)
    obtain n t where nt: "nt = (n, t)" by (cases nt)
    have "utf8_valid t" using "2.prems" Some nt by (simp add: utf8_valid_def)
    then have "list_all is_rune (runes t) \<and> encode_runes (runes t) = t" using "2.IH" Some nt by blast
    then show ?thesis using decode_encode_front Some nt by (simp add: runes_def)
  qed (use 2 in \<open>simp add: utf8_valid_def\<close>)
qed (simp add: runes_def)

text \<open>Text of one-byte characters is its own decoding.\<close>

lemma runes_ascii: "\<forall>c\<in>set s. byte c < 128 \<Longrightarrow> runes s = map byte s"
  by (induction s) (simp_all add: runes_def decode_rune_def)

lemma ascii_runes: "\<forall>n\<in>set (runes s). n < 128 \<Longrightarrow> map char_of (runes s) = s"
proof (induction s rule: decode_runes.induct)
  case (2 a s)
  show ?case
  proof (cases "decode_rune a s")
    case None
    then show ?thesis using "2.prems" by (simp add: runes_def)
  next
    case (Some nt)
    obtain n t where nt: "nt = (n, t)" by (cases nt)
    have r: "runes (a # s) = n # runes t" using Some nt by (simp add: runes_def)
    then have "n < 128" "map char_of (runes t) = t" using "2.IH" (2) [OF Some nt [symmetric]] "2.prems" by auto
    then show ?thesis using decode_encode_front [of a s n t] Some nt r by (simp add: encode_rune_def)
  qed
qed (simp add: runes_def)

section \<open>Encoding back and forth\<close>

lemma cont_byte_char_of [simp]: "(n :: nat) < 256 \<Longrightarrow> cont_byte (char_of n) \<longleftrightarrow> 128 \<le> n \<and> n < 192"
  by (simp add: cont_byte_def)

lemma low6_char_of [simp]: "n < 64 \<Longrightarrow> low6 (char_of (128 + n)) = n"
  by (simp add: low6_def)

lemma split3: "n div 4096 * 4096 + n div 64 mod 64 * 64 + n mod 64 = (n :: nat)"
proof -
  have a: "n div 4096 = n div 64 div 64" using div_mult2_eq [of n 64 64] by simp
  show ?thesis unfolding a using div_mult_mod_eq [of n 64] div_mult_mod_eq [of "n div 64" 64] by linarith
qed

lemma split4: "n div 262144 * 262144 + n div 4096 mod 64 * 4096 + n div 64 mod 64 * 64 + n mod 64 = (n :: nat)"
proof -
  have a: "n div 262144 = n div 4096 div 64" using div_mult2_eq [of n 4096 64] by simp
  show ?thesis unfolding a using split3 [of n] div_mult_mod_eq [of "n div 4096" 64] by linarith
qed

lemma decode_encode:
  assumes "is_rune n"
  shows "\<exists>a s. encode_rune n = a # s \<and> decode_rune a (s @ t) = Some (n, t)"
proof -
  have m: "n mod 64 < 64" "n div 64 mod 64 < 64" "n div 4096 mod 64 < 64" by simp_all
  consider (1) "n < 128" | (2) "128 \<le> n" "n < 2048" | (3) "2048 \<le> n" "n < 65536" | (4) "65536 \<le> n" "n < 1114112"
    using assms by (auto simp: is_rune_def) linarith+
  then show ?thesis
  proof cases
    case 1
    then show ?thesis by (simp add: encode_rune_def decode_rune_def)
  next
    case 2
    define h where "h = n div 64"
    have h: "2 \<le> h" "h < 32" "h * 64 + n mod 64 = n" using 2 by (auto simp: h_def)
    then show ?thesis using 2 m
      by (simp add: encode_rune_def decode_rune_def rune2_def flip: h_def)
  next
    case 3
    define h where "h = n div 4096"
    define g where "g = n div 64 mod 64"
    have h: "h < 16" "h * 4096 + g * 64 + n mod 64 = n" "g < 64"
      using 3 split3 [of n] by (auto simp: h_def g_def)
    have b: "h = 0 \<longrightarrow> 32 \<le> g" "h = 13 \<longrightarrow> g < 32"
    proof -
      show "h = 0 \<longrightarrow> 32 \<le> g"
      proof
        assume "h = 0"
        then show "32 \<le> g" using h(2) 3(1) m(1) by linarith
      qed
      show "h = 13 \<longrightarrow> g < 32"
      proof
        assume "h = 13"
        then have "n < 57344" using h m(1) by linarith
        then have "n < 55296" using assms by (auto simp: is_rune_def)
        with \<open>h = 13\<close> h show "g < 32" by linarith
      qed
    qed
    show ?thesis using 3 m h b
      by (auto simp: encode_rune_def decode_rune_def rune3_def simp flip: h_def g_def)
  next
    case 4
    define h where "h = n div 262144"
    define g where "g = n div 4096 mod 64"
    define f where "f = n div 64 mod 64"
    have h: "h < 5" "h * 262144 + g * 4096 + f * 64 + n mod 64 = n" "g < 64" "f < 64"
      using 4 split4 [of n] by (auto simp: h_def g_def f_def)
    have b: "h = 0 \<longrightarrow> 16 \<le> g" "h = 4 \<longrightarrow> g < 16" using h 4 m(1) by (intro impI; linarith)+
    show ?thesis using 4 m h b
      by (auto simp: encode_rune_def decode_rune_def rune4_def simp flip: h_def g_def f_def)
  qed
qed

lemma decode_runes_encode: "list_all is_rune ns \<Longrightarrow> decode_runes (encode_runes ns) = map Some ns"
proof (induction ns)
  case (Cons n ns)
  then obtain a s where "encode_rune n = a # s" "decode_rune a (s @ encode_runes ns) = Some (n, encode_runes ns)"
    using decode_encode [of n "encode_runes ns"] by auto
  then show ?case using Cons by simp
qed simp

lemma runes_encode: "list_all is_rune ns \<Longrightarrow> runes (encode_runes ns) = ns \<and> utf8_valid (encode_runes ns)"
  by (auto simp: runes_def utf8_valid_def decode_runes_encode comp_def)

lemma valid_cases:
  assumes "utf8_valid s"
  obtains ns where "s = encode_runes ns" "list_all is_rune ns" "runes s = ns"
  using valid_runes [OF assms] by metis

section \<open>Replacement\<close>

text \<open>The string that is replaced is not empty.\<close>

function str_count :: "string \<Rightarrow> string \<Rightarrow> nat" where
  "str_count old [] = 0"
| "str_count old (c # s) =
    (if old \<noteq> [] \<and> has_prefix (c # s) old then Suc (str_count old (drop (length old) (c # s))) else str_count old s)"
  by pat_completeness auto

termination
  by (relation "measure (length \<circ> snd)") (auto simp: le_imp_less_Suc)

function str_replace_all :: "string \<Rightarrow> string \<Rightarrow> string \<Rightarrow> string" where
  "str_replace_all old new [] = []"
| "str_replace_all old new (c # s) =
    (if old \<noteq> [] \<and> has_prefix (c # s) old then new @ str_replace_all old new (drop (length old) (c # s))
     else c # str_replace_all old new s)"
  by pat_completeness auto

termination
  by (relation "measure (length \<circ> snd \<circ> snd)") (auto simp: le_imp_less_Suc)

fun str_replace_first :: "string \<Rightarrow> string \<Rightarrow> string \<Rightarrow> string" where
  "str_replace_first old new [] = []"
| "str_replace_first old new (c # s) =
    (if old \<noteq> [] \<and> has_prefix (c # s) old then new @ drop (length old) (c # s) else c # str_replace_first old new s)"

end
