(* ===== verification/Task_Store.thy ===== *)
theory Task_Store
  imports Conversation Go_Text
begin

text \<open>
  The task list (\<open>internal/core/task/task.go\<close>, \<open>store.go\<close>): one JSON file per task in a
  directory, and a high-water mark file for identifiers. Every operation of \<open>FileStore\<close> runs
  under the store's lock, so it is a function on the state.

  A directory is the list of its \<open>.json\<close> files by stem, in the order \<open>os.ReadDir\<close> gives
  (file names in byte order). A file holds a task or bytes that do not parse. Reading and
  writing succeed; an empty metadata map is not written (\<open>omitempty\<close>) and reads back as nil.
\<close>

section \<open>Directories\<close>

type_synonym 'f dir = "(string \<times> 'f) list"

definition file_before :: "string \<Rightarrow> string \<Rightarrow> bool" where
  "file_before a b \<longleftrightarrow> a @ ''.json'' < b @ ''.json''"

fun dir_write :: "string \<Rightarrow> 'f \<Rightarrow> 'f dir \<Rightarrow> 'f dir" where
  "dir_write k f [] = [(k, f)]"
| "dir_write k f (e # d) =
    (if fst e = k then (k, f) # d
     else if file_before k (fst e) then (k, f) # e # d
     else e # dir_write k f d)"

definition dir_read :: "'f dir \<Rightarrow> string \<Rightarrow> 'f option" where
  "dir_read d k = map_of d k"

definition dir_remove :: "string \<Rightarrow> 'f dir \<Rightarrow> 'f dir" where
  "dir_remove k d = filter (\<lambda>e. fst e \<noteq> k) d"

text \<open>What the operations rely on: a write is read back, and touches no other file.\<close>

locale keyed_store =
  fixes lookup :: "'d \<Rightarrow> 'k \<Rightarrow> 'f option"
    and store :: "'k \<Rightarrow> 'f \<Rightarrow> 'd \<Rightarrow> 'd"
    and drop_key :: "'k \<Rightarrow> 'd \<Rightarrow> 'd"
  assumes lookup_store: "lookup (store k f d) k' = (if k' = k then Some f else lookup d k')"
    and lookup_drop: "lookup (drop_key k d) k' = (if k' = k then None else lookup d k')"
begin

lemma lookup_stores_other:
  "k \<notin> key ` set xs \<Longrightarrow> lookup (fold (\<lambda>x. store (key x) (val x)) xs d) k = lookup d k"
  by (induction xs arbitrary: d) (auto simp: lookup_store)

lemma lookup_stores:
  "distinct (map key xs) \<Longrightarrow> x \<in> set xs \<Longrightarrow>
    lookup (fold (\<lambda>x. store (key x) (val x)) xs d) (key x) = Some (val x)"
proof (induction xs arbitrary: d)
  case (Cons y ys)
  show ?case
  proof (cases "x = y")
    case True
    with Cons.prems have "key x \<notin> key ` set ys" by auto
    with True show ?thesis by (simp add: lookup_stores_other lookup_store)
  next
    case False
    with Cons show ?thesis by simp
  qed
qed simp

end

lemma map_of_dir_write: "map_of (dir_write k f d) k' = (if k' = k then Some f else map_of d k')"
  by (induction d) auto

interpretation dirs: keyed_store dir_read dir_write dir_remove
proof
  show "dir_read (dir_write k f d) k' = (if k' = k then Some f else dir_read d k')"
    for k f d k'
    by (simp add: dir_read_def map_of_dir_write)
  show "dir_read (dir_remove k d) k' = (if k' = k then None else dir_read d k')" for k d k'
    by (induction d) (auto simp: dir_read_def dir_remove_def)
qed

lemma dir_write_keys: "fst ` set (dir_write k f d) = insert k (fst ` set d)"
  by (induction d) auto

definition dir_ok :: "'f dir \<Rightarrow> bool" where
  "dir_ok d \<longleftrightarrow> sorted_wrt (\<lambda>a b. file_before (fst a) (fst b)) d"

lemma file_before_total: "a \<noteq> b \<Longrightarrow> \<not> file_before a b \<Longrightarrow> file_before b a"
  unfolding file_before_def by (metis append_same_eq linorder_neqE)

lemma file_before_trans: "file_before a b \<Longrightarrow> file_before b c \<Longrightarrow> file_before a c"
  unfolding file_before_def by (rule less_trans)

lemma dir_write_ok: "dir_ok d \<Longrightarrow> dir_ok (dir_write k f d)"
proof (induction d)
  case (Cons e d)
  have keys: "fst x = k \<or> fst x \<in> fst ` set d" if "x \<in> set (dir_write k f d)" for x
    using dir_write_keys [of k f d] that by (metis imageI insert_iff)
  show ?case
  proof (cases "fst e = k \<or> file_before k (fst e)")
    case True
    with Cons.prems show ?thesis by (auto simp: dir_ok_def intro: file_before_trans)
  next
    case False
    then have "file_before (fst e) k" using file_before_total by blast
    then have "file_before (fst e) (fst x)" if "x \<in> set (dir_write k f d)" for x
      using keys [OF that] Cons.prems by (auto simp: dir_ok_def)
    with False Cons show ?thesis by (simp add: dir_ok_def)
  qed
qed (simp add: dir_ok_def)

lemma dir_remove_ok: "dir_ok d \<Longrightarrow> dir_ok (dir_remove k d)"
  by (simp add: dir_ok_def dir_remove_def sorted_wrt_filter)

lemma dir_ok_distinct: "dir_ok d \<Longrightarrow> distinct (map fst d)"
  by (induction d) (auto simp: dir_ok_def file_before_def)

lemma dir_read_iff: "dir_ok d \<Longrightarrow> dir_read d k = Some f \<longleftrightarrow> (k, f) \<in> set d"
  by (simp add: dir_read_def dir_ok_distinct)

lemma dir_read_None: "dir_read d k = None \<longleftrightarrow> k \<notin> fst ` set d"
  by (simp add: dir_read_def map_of_eq_None_iff)

section \<open>Tasks and their files\<close>

datatype status = Pending | InProgress | Completed | OtherStatus string

definition IsValidStatus :: "status \<Rightarrow> bool" where
  "IsValidStatus s \<longleftrightarrow> s = Pending \<or> s = InProgress \<or> s = Completed"

record task =
  t_ID :: string
  t_Subject :: string
  t_Description :: string
  t_ActiveForm :: string
  t_Owner :: string
  t_Status :: status
  t_Blocks :: "string list"
  t_BlockedBy :: "string list"
  t_Metadata :: "(string \<times> json) list option"

definition IsInternal :: "task \<Rightarrow> bool" where
  "IsInternal t = (case t_Metadata t of None \<Rightarrow> False
     | Some m \<Rightarrow> map_of m ''_internal'' = Some (JBool True))"

record task_summary =
  s_ID :: string
  s_Subject :: string
  s_Status :: status
  s_Owner :: string
  s_BlockedBy :: "string list"

definition ToSummary :: "task \<Rightarrow> task_summary" where
  "ToSummary t = \<lparr>s_ID = t_ID t, s_Subject = t_Subject t, s_Status = t_Status t,
     s_Owner = t_Owner t, s_BlockedBy = t_BlockedBy t\<rparr>"

datatype task_file = TaskFile task | CorruptFile

datatype store_error = ParseError string

record task_store =
  task_dir :: "task_file dir"
  mark_file :: "string option"

text \<open>\<open>sanitizeRe\<close> matches one character of any width, and a byte that is part of none.\<close>

definition path_char_ok :: "nat \<Rightarrow> bool" where
  "path_char_ok n \<longleftrightarrow> (97 \<le> n \<and> n \<le> 122) \<or> (65 \<le> n \<and> n \<le> 90) \<or> (48 \<le> n \<and> n \<le> 57) \<or> n = 95 \<or> n = 45"

definition SanitizePathComponent :: "string \<Rightarrow> string" where
  "SanitizePathComponent s = map (\<lambda>n. if path_char_ok n then char_of n else CHR ''-'') (runes s)"

definition readHighwatermark :: "task_store \<Rightarrow> int" where
  "readHighwatermark st =
    (case mark_file st of None \<Rightarrow> 0
     | Some data \<Rightarrow> (case atoi (trim_space data) of None \<Rightarrow> 0 | Some v \<Rightarrow> v))"

definition writeHighwatermark :: "int \<Rightarrow> task_store \<Rightarrow> task_store" where
  "writeHighwatermark v st = st\<lparr>mark_file := Some (itoa v)\<rparr>"

definition higher_id :: "string \<times> task_file \<Rightarrow> int \<Rightarrow> int" where
  "higher_id e highest = (case atoi (fst e) of Some i \<Rightarrow> if i > highest then i else highest
     | None \<Rightarrow> highest)"

definition findHighestTaskID :: "task_store \<Rightarrow> int" where
  "findHighestTaskID st = fold higher_id (task_dir st) 0"

definition nextID :: "task_store \<Rightarrow> string" where
  "nextID st = itoa (wrap64 (max (findHighestTaskID st) (readHighwatermark st) + 1))"

definition readTaskFile :: "string \<Rightarrow> task_store \<Rightarrow> store_error + task option" where
  "readTaskFile tid st =
    (case dir_read (task_dir st) (SanitizePathComponent tid) of
       None \<Rightarrow> Inr None
     | Some CorruptFile \<Rightarrow> Inl (ParseError (SanitizePathComponent tid))
     | Some (TaskFile t) \<Rightarrow> Inr (Some t))"

definition stored :: "task \<Rightarrow> task" where
  "stored t = (if t_Metadata t = Some [] then t\<lparr>t_Metadata := None\<rparr> else t)"

definition writeTaskFile :: "task \<Rightarrow> task_store \<Rightarrow> task_store" where
  "writeTaskFile t st =
    st\<lparr>task_dir := dir_write (SanitizePathComponent (t_ID t)) (TaskFile (stored t)) (task_dir st)\<rparr>"

section \<open>Operations\<close>

record new_task =
  n_Subject :: string
  n_Description :: string
  n_ActiveForm :: string
  n_Owner :: string
  n_Metadata :: "(string \<times> json) list option"

record task_updates =
  u_Subject :: "string option"
  u_Description :: "string option"
  u_ActiveForm :: "string option"
  u_Owner :: "string option"
  u_Status :: "status option"
  u_Blocks :: "string list option"
  u_BlockedBy :: "string list option"
  u_Metadata :: "(string \<times> json) list option"

definition task_of_new :: "string \<Rightarrow> new_task \<Rightarrow> task" where
  "task_of_new tid data =
    \<lparr>t_ID = tid, t_Subject = n_Subject data, t_Description = n_Description data,
     t_ActiveForm = n_ActiveForm data, t_Owner = n_Owner data, t_Status = Pending,
     t_Blocks = [], t_BlockedBy = [], t_Metadata = n_Metadata data\<rparr>"

definition Create :: "new_task \<Rightarrow> task_store \<Rightarrow> string \<times> task_store" where
  "Create data st = (let tid = nextID st in (tid, writeTaskFile (task_of_new tid data) st))"

definition Get :: "string \<Rightarrow> task_store \<Rightarrow> store_error + task option" where
  "Get tid st = readTaskFile tid st"

definition listLocked :: "task_store \<Rightarrow> task list" where
  "listLocked st = List.map_filter (\<lambda>e. case readTaskFile (fst e) st of Inr (Some t) \<Rightarrow> Some t | _ \<Rightarrow> None)
     (task_dir st)"

definition List_tasks :: "task_store \<Rightarrow> task list" where
  "List_tasks st = listLocked st"

definition or_else :: "'a option \<Rightarrow> 'a \<Rightarrow> 'a" where
  "or_else u x = (case u of Some v \<Rightarrow> v | None \<Rightarrow> x)"

fun merge_metadata :: "(string \<times> json) list \<Rightarrow> (string \<times> json) list \<Rightarrow> (string \<times> json) list" where
  "merge_metadata m [] = m"
| "merge_metadata m (kv # u) =
    merge_metadata (if snd kv = JNull then filter (\<lambda>e. fst e \<noteq> fst kv) m
      else filter (\<lambda>e. fst e \<noteq> fst kv) m @ [kv]) u"

definition applyUpdates :: "task_updates \<Rightarrow> task \<Rightarrow> task" where
  "applyUpdates u t =
    \<lparr>t_ID = t_ID t,
     t_Subject = or_else (u_Subject u) (t_Subject t),
     t_Description = or_else (u_Description u) (t_Description t),
     t_ActiveForm = or_else (u_ActiveForm u) (t_ActiveForm t),
     t_Owner = or_else (u_Owner u) (t_Owner t),
     t_Status = or_else (u_Status u) (t_Status t),
     t_Blocks = or_else (u_Blocks u) (t_Blocks t),
     t_BlockedBy = or_else (u_BlockedBy u) (t_BlockedBy t),
     t_Metadata = (case u_Metadata u of None \<Rightarrow> t_Metadata t
        | Some um \<Rightarrow> Some (merge_metadata (or_else (t_Metadata t) []) um))\<rparr>"

definition Update :: "string \<Rightarrow> task_updates \<Rightarrow> task_store \<Rightarrow> (store_error + task option) \<times> task_store" where
  "Update tid updates st =
    (case readTaskFile tid st of
       Inl e \<Rightarrow> (Inl e, st)
     | Inr None \<Rightarrow> (Inr None, st)
     | Inr (Some t) \<Rightarrow>
        (let t1 = applyUpdates updates t in (Inr (Some t1), writeTaskFile t1 st)))"

text \<open>Read every target, stopping at the first that is missing or does not parse.\<close>

fun read_targets :: "string list \<Rightarrow> task_store \<Rightarrow> store_error + task list option" where
  "read_targets [] st = Inr (Some [])"
| "read_targets (i # is) st =
    bind_res (readTaskFile i st) (\<lambda>r. case r of None \<Rightarrow> Inr None
      | Some t \<Rightarrow> bind_res (read_targets is st) (\<lambda>r. Inr (map_option (\<lambda>ts. t # ts) r)))"

definition add_blocked_by :: "string \<Rightarrow> task \<Rightarrow> task_store \<Rightarrow> task_store" where
  "add_blocked_by tid target st =
    (if tid \<in> set (t_BlockedBy target) then st
     else writeTaskFile (target\<lparr>t_BlockedBy := t_BlockedBy target @ [tid]\<rparr>) st)"

definition add_blocks :: "string \<Rightarrow> task \<Rightarrow> task_store \<Rightarrow> task_store" where
  "add_blocks tid target st =
    (if tid \<in> set (t_Blocks target) then st
     else writeTaskFile (target\<lparr>t_Blocks := t_Blocks target @ [tid]\<rparr>) st)"

text \<open>The targets are read before anything is written, so the writes use these copies.\<close>

definition UpdateWithDependencies ::
    "string \<Rightarrow> task_updates \<Rightarrow> string list \<Rightarrow> string list \<Rightarrow> task_store
     \<Rightarrow> (store_error + task option) \<times> task_store" where
  "UpdateWithDependencies taskID updates addBlocks addBlockedBy st =
    (case bind_res (readTaskFile taskID st) (\<lambda>r. case r of None \<Rightarrow> Inr None
       | Some current \<Rightarrow> bind_res (read_targets addBlocks st) (\<lambda>r. case r of None \<Rightarrow> Inr None
         | Some blockTargets \<Rightarrow> bind_res (read_targets addBlockedBy st) (\<lambda>r. case r of None \<Rightarrow> Inr None
           | Some blockerTargets \<Rightarrow> Inr (Some (current, blockTargets, blockerTargets))))) of
       Inl e \<Rightarrow> (Inl e, st)
     | Inr None \<Rightarrow> (Inr None, st)
     | Inr (Some (current, blockTargets, blockerTargets)) \<Rightarrow>
        (let t1 = applyUpdates updates current;
             st1 = writeTaskFile t1 st;
             st2 = fold (add_blocked_by taskID) blockTargets st1;
             st3 = fold (add_blocks taskID) blockerTargets st2
         in (Inr (Some t1), st3)))"

definition removeString :: "string list \<Rightarrow> string \<Rightarrow> string list" where
  "removeString xs s = filter (\<lambda>v. v \<noteq> s) xs"

definition drop_references :: "string \<Rightarrow> task \<Rightarrow> task_store \<Rightarrow> task_store" where
  "drop_references tid t st =
    (let newBlocks = removeString (t_Blocks t) tid; newBlockedBy = removeString (t_BlockedBy t) tid in
     if length newBlocks \<noteq> length (t_Blocks t) \<or> length newBlockedBy \<noteq> length (t_BlockedBy t)
     then writeTaskFile (t\<lparr>t_Blocks := newBlocks, t_BlockedBy := newBlockedBy\<rparr>) st
     else st)"

definition Delete :: "string \<Rightarrow> task_store \<Rightarrow> bool \<times> task_store" where
  "Delete tid st =
    (let st1 = (case atoi tid of
           Some n \<Rightarrow> if n > readHighwatermark st then writeHighwatermark n st else st
         | None \<Rightarrow> st);
         stem = SanitizePathComponent tid
     in if dir_read (task_dir st1) stem = None then (False, st1)
        else let st2 = st1\<lparr>task_dir := dir_remove stem (task_dir st1)\<rparr>
             in (True, fold (drop_references tid) (listLocked st2) st2))"

definition BlockTask :: "string \<Rightarrow> string \<Rightarrow> task_store \<Rightarrow> bool \<times> task_store" where
  "BlockTask fromID toID st =
    (case (readTaskFile fromID st, readTaskFile toID st) of
       (Inr (Some from), Inr (Some to)) \<Rightarrow>
        (let st1 = add_blocks toID from st; st2 = add_blocked_by fromID to st1 in (True, st2))
     | _ \<Rightarrow> (False, st))"

datatype claim_reason = TaskNotFound | AlreadyClaimed | AlreadyResolved | Blocked | AgentBusy

datatype claim_result =
    ClaimFailed claim_reason "task option" "string list"
  | ClaimOk task

definition unresolved_ids :: "task list \<Rightarrow> string list" where
  "unresolved_ids ts = map t_ID (filter (\<lambda>t. t_Status t \<noteq> Completed) ts)"

definition ClaimTask ::
    "string \<Rightarrow> string \<Rightarrow> bool \<Rightarrow> task_store \<Rightarrow> (store_error + claim_result) \<times> task_store" where
  "ClaimTask tid claimantAgentID checkAgentBusy st =
    (case readTaskFile tid st of
       Inl e \<Rightarrow> (Inl e, st)
     | Inr None \<Rightarrow> (Inr (ClaimFailed TaskNotFound None []), st)
     | Inr (Some task) \<Rightarrow>
        if t_Owner task \<noteq> '''' \<and> t_Owner task \<noteq> claimantAgentID
        then (Inr (ClaimFailed AlreadyClaimed (Some task) []), st)
        else if t_Status task = Completed
        then (Inr (ClaimFailed AlreadyResolved (Some task) []), st)
        else
          let allTasks = listLocked st;
              blockedByTasks = filter (\<lambda>b. b \<in> set (unresolved_ids allTasks)) (t_BlockedBy task);
              busyWithTasks = map t_ID (filter (\<lambda>t. t_Status t \<noteq> Completed
                  \<and> t_Owner t = claimantAgentID \<and> t_ID t \<noteq> tid) allTasks)
          in if blockedByTasks \<noteq> [] then (Inr (ClaimFailed Blocked (Some task) blockedByTasks), st)
             else if checkAgentBusy \<and> busyWithTasks \<noteq> []
             then (Inr (ClaimFailed AgentBusy (Some task) busyWithTasks), st)
             else let t1 = task\<lparr>t_Owner := claimantAgentID\<rparr> in (Inr (ClaimOk t1), writeTaskFile t1 st))"

definition ResetTaskList :: "task_store \<Rightarrow> task_store" where
  "ResetTaskList st =
    (let currentHighest = findHighestTaskID st;
         st1 = (if currentHighest > 0 \<and> currentHighest > readHighwatermark st
                then writeHighwatermark currentHighest st else st)
     in st1\<lparr>task_dir := []\<rparr>)"

definition is_open_of :: "string \<Rightarrow> task \<Rightarrow> bool" where
  "is_open_of teammateID t \<longleftrightarrow> t_Status t \<noteq> Completed \<and> t_Owner t = teammateID"

definition UnassignTeammateTasks :: "string \<Rightarrow> task_store \<Rightarrow> (string \<times> string) list \<times> task_store" where
  "UnassignTeammateTasks teammateID st =
    (let ts = filter (is_open_of teammateID) (listLocked st)
     in (map (\<lambda>t. (t_ID t, t_Subject t)) ts,
         fold (\<lambda>t. writeTaskFile (t\<lparr>t_Owner := '''', t_Status := Pending\<rparr>)) ts st))"

section \<open>Invariant\<close>

definition task_at :: "task_store \<Rightarrow> string \<Rightarrow> task option" where
  "task_at st k = (case dir_read (task_dir st) k of Some (TaskFile t) \<Rightarrow> Some t | _ \<Rightarrow> None)"

text \<open>Files are in order, named by path components, and a task is in the file of its identifier.\<close>

definition store_wf :: "task_store \<Rightarrow> bool" where
  "store_wf st \<longleftrightarrow> dir_ok (task_dir st)
    \<and> (\<forall>e\<in>set (task_dir st). SanitizePathComponent (fst e) = fst e
        \<and> (case snd e of TaskFile t \<Rightarrow> t_ID t = fst e | CorruptFile \<Rightarrow> True))"

definition empty_store :: task_store where
  "empty_store = \<lparr>task_dir = [], mark_file = None\<rparr>"

lemma empty_store_wf: "store_wf empty_store"
  by (simp add: store_wf_def empty_store_def dir_ok_def)

lemma path_char_small: "path_char_ok n \<Longrightarrow> n < 128"
  by (auto simp: path_char_ok_def)

lemma sanitize_chars: "c \<in> set (SanitizePathComponent s) \<Longrightarrow> path_char_ok (byte c)"
proof -
  assume "c \<in> set (SanitizePathComponent s)"
  then obtain n where n: "c = (if path_char_ok n then char_of n else CHR ''-'')"
    unfolding SanitizePathComponent_def set_map by (elim imageE) blast
  show "path_char_ok (byte c)"
  proof (cases "path_char_ok n")
    case True
    then show ?thesis using n path_char_small [OF True] by simp
  qed (simp add: n path_char_ok_def byte_def)
qed

lemma sanitize_ok: "\<forall>c\<in>set s. path_char_ok (byte c) \<Longrightarrow> SanitizePathComponent s = s"
  using runes_ascii [of s] path_char_small by (auto simp: SanitizePathComponent_def intro!: map_idI)

lemma sanitize_no_dash:
  assumes "CHR ''-'' \<notin> set (SanitizePathComponent s)"
  shows "SanitizePathComponent s = s"
proof -
  have ok: "\<forall>n\<in>set (runes s). path_char_ok n" using assms by (auto simp: SanitizePathComponent_def)
  then have "SanitizePathComponent s = map char_of (runes s)" by (simp add: SanitizePathComponent_def)
  also have "\<dots> = s" by (rule ascii_runes) (use ok path_char_small in blast)
  finally show ?thesis .
qed

lemma sanitize_idem [simp]: "SanitizePathComponent (SanitizePathComponent s) = SanitizePathComponent s"
  by (rule sanitize_ok) (simp add: sanitize_chars)

lemma sanitize_itoa: "SanitizePathComponent (itoa i) = itoa i"
proof -
  have "path_char_ok (byte c)" if "c \<in> set (nat_str n)" for c n
    using nat_str_digits [OF that] by (auto simp: is_digit_def path_char_ok_def byte_def Let_def)
  moreover have "path_char_ok (byte (CHR ''-''))" by (simp add: path_char_ok_def byte_def)
  ultimately show ?thesis by (intro sanitize_ok) (auto simp: itoa_def)
qed

lemma task_at_Some_iff: "task_at st k = Some t \<longleftrightarrow> dir_read (task_dir st) k = Some (TaskFile t)"
  by (auto simp: task_at_def split: option.splits task_file.splits)

lemma wf_task_at:
  assumes "store_wf st" and "task_at st k = Some t"
  shows "t_ID t = k \<and> SanitizePathComponent k = k"
proof -
  have "(k, TaskFile t) \<in> set (task_dir st)"
    using assms by (auto simp: task_at_def store_wf_def dir_read_iff split: option.splits task_file.splits)
  with assms(1) show ?thesis by (force simp: store_wf_def)
qed

lemma read_Some_iff: "readTaskFile tid st = Inr (Some t) \<longleftrightarrow> task_at st (SanitizePathComponent tid) = Some t"
  by (auto simp: readTaskFile_def task_at_def split: option.splits task_file.splits)

lemma read_None_iff:
  "readTaskFile tid st = Inr None \<longleftrightarrow> dir_read (task_dir st) (SanitizePathComponent tid) = None"
  by (auto simp: readTaskFile_def split: option.splits task_file.splits)

lemma wf_read:
  assumes "store_wf st" and "readTaskFile tid st = Inr (Some t)"
  shows "t_ID t = SanitizePathComponent tid \<and> SanitizePathComponent (t_ID t) = t_ID t
    \<and> task_at st (t_ID t) = Some t"
  using assms wf_task_at [OF assms(1)] by (auto simp: read_Some_iff)

lemma stored_sel [simp]:
  "t_ID (stored t) = t_ID t" "t_Owner (stored t) = t_Owner t" "t_Status (stored t) = t_Status t"
  "t_Blocks (stored t) = t_Blocks t" "t_BlockedBy (stored t) = t_BlockedBy t"
  "t_Subject (stored t) = t_Subject t"
  by (simp_all add: stored_def)

lemma write_wf:
  "store_wf st \<Longrightarrow> SanitizePathComponent (t_ID t) = t_ID t \<Longrightarrow> store_wf (writeTaskFile t st)"
proof -
  assume wf: "store_wf st" and s: "SanitizePathComponent (t_ID t) = t_ID t"
  have "e = (k, f) \<or> e \<in> set d" if "e \<in> set (dir_write k f d)" for e k and f :: task_file and d
    using that by (induction d) (auto split: if_splits)
  with wf s show ?thesis
    by (fastforce simp: store_wf_def writeTaskFile_def dir_write_ok)
qed

lemma task_at_write:
  "SanitizePathComponent (t_ID t) = t_ID t \<Longrightarrow>
    task_at (writeTaskFile t st) k = (if k = t_ID t then Some (stored t) else task_at st k)"
  by (simp add: task_at_def writeTaskFile_def dirs.lookup_store)

lemma mark_write [simp]: "mark_file (writeTaskFile t st) = mark_file st"
  by (simp add: writeTaskFile_def)

lemma write_keys:
  "fst ` set (task_dir (writeTaskFile t st)) = insert (SanitizePathComponent (t_ID t)) (fst ` set (task_dir st))"
  by (simp add: writeTaskFile_def dir_write_keys)

lemma wf_mark [simp]: "store_wf (writeHighwatermark v st) = store_wf st"
  by (simp add: store_wf_def writeHighwatermark_def)

lemma task_at_mark [simp]: "task_at (writeHighwatermark v st) k = task_at st k"
  by (simp add: task_at_def writeHighwatermark_def)

lemma applyUpdates_id [simp]: "t_ID (applyUpdates u t) = t_ID t"
  by (simp add: applyUpdates_def)

text \<open>The list of tasks.\<close>

lemma listLocked_wf:
  assumes "store_wf st"
  shows "listLocked st = List.map_filter (\<lambda>e. case snd e of TaskFile t \<Rightarrow> Some t | CorruptFile \<Rightarrow> None) (task_dir st)"
proof -
  have "(case readTaskFile (fst e) st of Inr (Some t) \<Rightarrow> Some t | _ \<Rightarrow> None)
      = (case snd e of TaskFile t \<Rightarrow> Some t | CorruptFile \<Rightarrow> None)" if "e \<in> set (task_dir st)" for e
  proof -
    have "dir_read (task_dir st) (fst e) = Some (snd e)" "SanitizePathComponent (fst e) = fst e"
      using assms that by (auto simp: store_wf_def dir_read_iff)
    then show ?thesis by (auto simp: readTaskFile_def split: task_file.splits)
  qed
  then show ?thesis
    unfolding listLocked_def map_filter_def by (auto intro!: map_cong filter_cong)
qed

lemma set_listLocked:
  assumes "store_wf st"
  shows "t \<in> set (listLocked st) \<longleftrightarrow> task_at st (t_ID t) = Some t"
proof -
  have ok: "dir_ok (task_dir st)" using assms by (simp add: store_wf_def)
  have "t \<in> set (listLocked st) \<longleftrightarrow> (\<exists>k. (k, TaskFile t) \<in> set (task_dir st))"
    unfolding listLocked_wf [OF assms] map_filter_def
    by (force split: task_file.splits)
  also have "\<dots> \<longleftrightarrow> (\<exists>k. task_at st k = Some t)"
    by (simp add: task_at_Some_iff dir_read_iff [OF ok])
  also have "\<dots> \<longleftrightarrow> task_at st (t_ID t) = Some t"
    using wf_task_at [OF assms] by blast
  finally show ?thesis .
qed

lemma listLocked_id:
  "store_wf st \<Longrightarrow> t \<in> set (listLocked st) \<Longrightarrow> SanitizePathComponent (t_ID t) = t_ID t"
  using set_listLocked wf_task_at by blast

lemma listed_iff: "store_wf st \<Longrightarrow> t \<in> set (listLocked st) \<and> t_ID t = k \<longleftrightarrow> task_at st k = Some t"
  using set_listLocked wf_task_at by blast

lemma distinct_listLocked:
  assumes "store_wf st"
  shows "distinct (map t_ID (listLocked st))"
proof -
  have "map t_ID (List.map_filter (\<lambda>e. case snd e of TaskFile t \<Rightarrow> Some t | CorruptFile \<Rightarrow> None) d)
      = map fst (filter (\<lambda>e. snd e \<noteq> CorruptFile) d)"
    if "\<forall>e\<in>set d. case snd e of TaskFile t \<Rightarrow> t_ID t = fst e | CorruptFile \<Rightarrow> True" for d
    using that by (induction d) (auto simp: List.map_filter_simps split: task_file.splits)
  moreover have "distinct (map fst (filter (\<lambda>e. snd e \<noteq> CorruptFile) (task_dir st)))"
    using assms by (intro distinct_map_filter dir_ok_distinct) (simp add: store_wf_def)
  ultimately show ?thesis
    using assms by (simp add: listLocked_wf store_wf_def)
qed

text \<open>Rewriting a list of tasks, each through \<open>g\<close>, which keeps the identifier.\<close>

lemma fold_wf:
  assumes "\<And>t st. store_wf st \<Longrightarrow> t \<in> set ts \<Longrightarrow> store_wf (f t st)" and "store_wf st"
  shows "store_wf (fold f ts st)"
  using assms by (induction ts arbitrary: st) auto

lemma fold_write_wf:
  assumes "store_wf st" and "\<And>t. t \<in> set ts \<Longrightarrow> SanitizePathComponent (t_ID t) = t_ID t"
    and "\<And>t. t_ID (g t) = t_ID t"
  shows "store_wf (fold (\<lambda>t. writeTaskFile (g t)) ts st)"
  by (rule fold_wf) (auto simp: assms intro!: write_wf)

lemma fold_write_at:
  assumes "\<And>t. t \<in> set ts \<Longrightarrow> SanitizePathComponent (t_ID t) = t_ID t" and "\<And>t. t_ID (g t) = t_ID t"
    and "distinct (map t_ID ts)"
  shows "task_at (fold (\<lambda>t. writeTaskFile (g t)) ts st) k =
    (case find (\<lambda>t. t_ID t = k) ts of Some t \<Rightarrow> Some (stored (g t)) | None \<Rightarrow> task_at st k)"
  using assms(1,3)
proof (induction ts arbitrary: st)
  case (Cons t ts)
  have none: "find (\<lambda>u. t_ID u = t_ID t) ts = None"
    using Cons.prems(2) by (auto simp: find_None_iff image_iff)
  show ?case
  proof (cases "k = t_ID t")
    case True
    with Cons none show ?thesis by (simp add: task_at_write assms(2))
  next
    case False
    with Cons show ?thesis by (simp add: task_at_write assms(2) split: option.split)
  qed
qed simp

lemma mark_fold [simp]: "mark_file (fold (\<lambda>t. writeTaskFile (g t)) ts st) = mark_file st"
  by (induction ts arbitrary: st) auto

lemma fold_cond:
  "fold (\<lambda>t st. if P t then f t st else st) ts st = fold f (filter P ts) st"
  by (induction ts arbitrary: st) auto

definition without_refs :: "string \<Rightarrow> task \<Rightarrow> task" where
  "without_refs tid t = t\<lparr>t_Blocks := removeString (t_Blocks t) tid, t_BlockedBy := removeString (t_BlockedBy t) tid\<rparr>"

definition mentions :: "string \<Rightarrow> task \<Rightarrow> bool" where
  "mentions tid t \<longleftrightarrow> tid \<in> set (t_Blocks t) \<or> tid \<in> set (t_BlockedBy t)"

lemma removeString_length: "length (removeString xs s) = length xs \<longleftrightarrow> s \<notin> set xs"
proof
  assume "length (removeString xs s) = length xs"
  then show "s \<notin> set xs"
    using length_filter_less [of s xs "\<lambda>v. v \<noteq> s"] by (auto simp: removeString_def)
next
  assume "s \<notin> set xs"
  then have "removeString xs s = xs" by (induction xs) (auto simp: removeString_def)
  then show "length (removeString xs s) = length xs" by simp
qed

lemma drop_references_eq:
  "drop_references tid = (\<lambda>t st. if mentions tid t then writeTaskFile (without_refs tid t) st else st)"
  by (intro ext) (simp add: drop_references_def Let_def removeString_length mentions_def without_refs_def)

lemma without_refs_sel [simp]:
  "t_ID (without_refs tid t) = t_ID t" "t_Owner (without_refs tid t) = t_Owner t"
  "t_Status (without_refs tid t) = t_Status t"
  by (simp_all add: without_refs_def)

subsection \<open>Operations keep it\<close>

datatype task_op =
    CreateOp new_task
  | UpdateOp string task_updates
  | UpdateDepsOp string task_updates "string list" "string list"
  | DeleteOp string
  | BlockOp string string
  | ClaimOp string string bool
  | ResetOp
  | UnassignOp string

fun task_step :: "task_op \<Rightarrow> task_store \<Rightarrow> task_store" where
  "task_step (CreateOp d) st = snd (Create d st)"
| "task_step (UpdateOp i u) st = snd (Update i u st)"
| "task_step (UpdateDepsOp i u bs bys) st = snd (UpdateWithDependencies i u bs bys st)"
| "task_step (DeleteOp i) st = snd (Delete i st)"
| "task_step (BlockOp a b) st = snd (BlockTask a b st)"
| "task_step (ClaimOp i a c) st = snd (ClaimTask i a c st)"
| "task_step ResetOp st = ResetTaskList st"
| "task_step (UnassignOp a) st = snd (UnassignTeammateTasks a st)"

lemma read_targets_ids:
  "read_targets is st = Inr (Some ts) \<Longrightarrow> store_wf st \<Longrightarrow> t \<in> set ts
    \<Longrightarrow> SanitizePathComponent (t_ID t) = t_ID t \<and> task_at st (t_ID t) = Some t"
proof (induction "is" arbitrary: ts)
  case (Cons i "is")
  then show ?case
    using wf_read [OF Cons.prems(2), of i]
    by (auto simp: bind_res_Inr_iff split: option.splits)
qed simp

lemma add_blocked_by_wf:
  "store_wf st \<Longrightarrow> SanitizePathComponent (t_ID t) = t_ID t \<Longrightarrow> store_wf (add_blocked_by i t st)"
  by (simp add: add_blocked_by_def write_wf)

lemma add_blocks_wf:
  "store_wf st \<Longrightarrow> SanitizePathComponent (t_ID t) = t_ID t \<Longrightarrow> store_wf (add_blocks i t st)"
  by (simp add: add_blocks_def write_wf)

lemma Delete_wf: "store_wf st \<Longrightarrow> store_wf (snd (Delete tid st))"
proof -
  assume wf: "store_wf st"
  define st1 where "st1 = (case atoi tid of
       Some n \<Rightarrow> if n > readHighwatermark st then writeHighwatermark n st else st | None \<Rightarrow> st)"
  have wf1: "store_wf st1" using wf by (auto simp: st1_def split: option.splits)
  define st2 where "st2 = st1\<lparr>task_dir := dir_remove (SanitizePathComponent tid) (task_dir st1)\<rparr>"
  have wf2: "store_wf st2"
    using wf1 by (auto simp: st2_def store_wf_def dir_remove_ok) (auto simp: dir_remove_def)
  have "store_wf (fold (drop_references tid) (listLocked st2) st2)"
    unfolding drop_references_eq
    by (rule fold_wf [OF _ wf2]) (simp add: write_wf listLocked_id [OF wf2])
  then show ?thesis
    using wf1 by (auto simp: Delete_def Let_def st1_def [symmetric] st2_def [symmetric])
qed

lemma task_step_wf: "store_wf st \<Longrightarrow> store_wf (task_step op st)"
proof (induction op)
  case (CreateOp d)
  then show ?case
    by (simp add: Create_def Let_def task_of_new_def nextID_def sanitize_itoa write_wf)
next
  case (UpdateOp i u)
  then show ?case
    using wf_read [OF UpdateOp.prems, of i]
    by (auto simp: Update_def Let_def intro!: write_wf split: sum.splits option.splits)
next
  case (UpdateDepsOp i u bs bys)
  note wf = UpdateDepsOp.prems
  show ?case
  proof (cases "bind_res (readTaskFile i st) (\<lambda>r. case r of None \<Rightarrow> Inr None
       | Some current \<Rightarrow> bind_res (read_targets bs st) (\<lambda>r. case r of None \<Rightarrow> Inr None
         | Some blockTargets \<Rightarrow> bind_res (read_targets bys st) (\<lambda>r. case r of None \<Rightarrow> Inr None
           | Some blockerTargets \<Rightarrow> Inr (Some (current, blockTargets, blockerTargets)))))")
    case (Inl e)
    with wf show ?thesis by (simp add: UpdateWithDependencies_def)
  next
    case (Inr r)
    show ?thesis
    proof (cases r)
      case None
      with Inr wf show ?thesis by (simp add: UpdateWithDependencies_def)
    next
      case (Some x)
      obtain c ts us where x: "x = (c, ts, us)" by (cases x) auto
      have c: "readTaskFile i st = Inr (Some c)" and ts: "read_targets bs st = Inr (Some ts)"
        and us: "read_targets bys st = Inr (Some us)"
        using Inr Some x by (auto simp: bind_res_Inr_iff split: option.splits)
      have "store_wf (writeTaskFile (applyUpdates u c) st)"
        using wf wf_read [OF wf c] by (simp add: write_wf)
      then have "store_wf (fold (add_blocked_by i) ts (writeTaskFile (applyUpdates u c) st))"
        by (rule fold_wf [rotated]) (simp add: add_blocked_by_wf read_targets_ids [OF ts wf])
      then have "store_wf (fold (add_blocks i) us (fold (add_blocked_by i) ts (writeTaskFile (applyUpdates u c) st)))"
        by (rule fold_wf [rotated]) (simp add: add_blocks_wf read_targets_ids [OF us wf])
      with Inr Some x show ?thesis by (simp add: UpdateWithDependencies_def Let_def)
    qed
  qed
next
  case (DeleteOp i)
  then show ?case by (simp add: Delete_wf)
next
  case (BlockOp a b)
  then show ?case
    using wf_read [OF BlockOp.prems, of a] wf_read [OF BlockOp.prems, of b]
    by (auto simp: BlockTask_def Let_def intro!: add_blocked_by_wf add_blocks_wf split: sum.splits option.splits)
next
  case (ClaimOp i a c)
  then show ?case
    using wf_read [OF ClaimOp.prems, of i]
    by (auto simp: ClaimTask_def Let_def intro!: write_wf split: sum.splits option.splits)
next
  case ResetOp
  then show ?case by (auto simp: ResetTaskList_def Let_def store_wf_def dir_ok_def)
next
  case (UnassignOp a)
  then show ?case
    by (auto simp: UnassignTeammateTasks_def Let_def listLocked_id [OF UnassignOp.prems] intro!: fold_write_wf)
qed

interpretation tasks: op_machine task_step store_wf
  by unfold_locales (rule task_step_wf)

text \<open>
  C1: Over any sequence of operations on a task list that starts empty, each task stays in the
  file its identifier names and file names stay plain path components, so every listed task can
  be read, updated and deleted under the identifier it shows.
\<close>

theorem task_store_invariant: "store_wf (fold task_step ops empty_store)"
  by (rule tasks.run_inv [OF empty_store_wf])

section \<open>Identifiers\<close>

definition keys_of :: "task_store \<Rightarrow> string set" where
  "keys_of st = fst ` set (task_dir st)"

definition id_floor :: "task_store \<Rightarrow> int" where
  "id_floor st = max (findHighestTaskID st) (readHighwatermark st)"

lemma empty_store_sel [simp]:
  "task_dir empty_store = []" "mark_file empty_store = None" "readHighwatermark empty_store = 0"
  "findHighestTaskID empty_store = 0"
  by (simp_all add: empty_store_def readHighwatermark_def findHighestTaskID_def)

lemma fold_higher_id:
  "i \<le> fold higher_id d h \<longleftrightarrow> i \<le> h \<or> (\<exists>e\<in>set d. \<exists>n. atoi (fst e) = Some n \<and> i \<le> n)"
  by (induction d arbitrary: h) (auto simp: higher_id_def split: option.split)

lemma le_findHighest:
  "i \<le> findHighestTaskID st \<longleftrightarrow> i \<le> 0 \<or> (\<exists>k\<in>keys_of st. \<exists>n. atoi k = Some n \<and> i \<le> n)"
  by (simp add: findHighestTaskID_def fold_higher_id keys_of_def)

lemma findHighest_mono: "keys_of st \<subseteq> keys_of st' \<Longrightarrow> findHighestTaskID st \<le> findHighestTaskID st'"
  using le_findHighest [of "findHighestTaskID st" st] le_findHighest [of "findHighestTaskID st" st'] by blast

lemma findHighest_range: "0 \<le> findHighestTaskID st \<and> findHighestTaskID st \<le> max_int64"
proof -
  have "findHighestTaskID st \<le> max_int64"
    using le_findHighest [of "findHighestTaskID st" st] atoi_range
    by (force simp: in_int64_def max_int64_def)
  then show ?thesis using le_findHighest [of 0 st] by simp
qed

lemma floor_nonneg: "0 \<le> id_floor st"
  using findHighest_range [of st] by (auto simp: id_floor_def intro: max.coboundedI1)

lemma mark_range: "readHighwatermark st \<le> max_int64"
  using atoi_range by (force simp: readHighwatermark_def in_int64_def max_int64_def split: option.split)

lemma trim_itoa: "trim_space (itoa i) = itoa i"
proof -
  have d: "dropWhile is_space s = s" if "\<forall>c\<in>set s. \<not> is_space c" for s
    using that by (cases s) auto
  have "\<not> is_space c" if "c \<in> set (itoa i)" for c
    using that nat_str_digits by (fastforce simp: itoa_def is_digit_def is_space_def split: if_splits)
  then show ?thesis by (simp add: trim_space_def d)
qed

lemma read_write_mark: "in_int64 v \<Longrightarrow> readHighwatermark (writeHighwatermark v st) = v"
  by (simp add: readHighwatermark_def writeHighwatermark_def trim_itoa)

lemma mark_same [simp]:
  "readHighwatermark (writeTaskFile t st) = readHighwatermark st"
  "readHighwatermark (st\<lparr>task_dir := d\<rparr>) = readHighwatermark st"
  by (simp_all add: readHighwatermark_def)

lemma keys_mark [simp]: "keys_of (writeHighwatermark v st) = keys_of st"
  by (simp add: keys_of_def writeHighwatermark_def)

lemma keys_write [simp]: "keys_of (writeTaskFile t st) = insert (SanitizePathComponent (t_ID t)) (keys_of st)"
  by (simp add: keys_of_def write_keys)

lemma task_at_keys: "task_at st k = Some t \<Longrightarrow> k \<in> keys_of st"
  using dir_read_None [of "task_dir st" k] by (auto simp: task_at_Some_iff keys_of_def)

lemma floor_ge:
  assumes "keys_of st \<subseteq> keys_of st'" and "readHighwatermark st \<le> readHighwatermark st'"
  shows "id_floor st \<le> id_floor st'"
  using findHighest_mono [OF assms(1)] assms(2) by (auto simp: id_floor_def)

text \<open>Operations that write existing tasks only leave the files and the mark as they are.\<close>

definition same_ids :: "task_store \<Rightarrow> task_store \<Rightarrow> bool" where
  "same_ids st st' \<longleftrightarrow> keys_of st' = keys_of st \<and> readHighwatermark st' = readHighwatermark st"

lemma same_ids_write:
  "same_ids st st' \<Longrightarrow> SanitizePathComponent (t_ID t) \<in> keys_of st \<Longrightarrow> same_ids st (writeTaskFile t st')"
  by (auto simp: same_ids_def)

lemma same_ids_refl [simp]: "same_ids st st"
  by (simp add: same_ids_def)

lemma same_ids_floor: "same_ids st st' \<Longrightarrow> id_floor st' = id_floor st"
  using floor_ge [of st st'] floor_ge [of st' st] by (simp add: same_ids_def)

lemma same_ids_fold:
  assumes "\<And>t st1. t \<in> set ts \<Longrightarrow> same_ids st st1 \<Longrightarrow> same_ids st (f t st1)" and "same_ids st st0"
  shows "same_ids st (fold f ts st0)"
  using assms by (induction ts arbitrary: st0) auto

lemma wf_read_key:
  "store_wf st \<Longrightarrow> readTaskFile tid st = Inr (Some t) \<Longrightarrow> SanitizePathComponent (t_ID t) \<in> keys_of st"
  using wf_read [of st tid t] task_at_keys by metis

lemma targets_key:
  "store_wf st \<Longrightarrow> read_targets is st = Inr (Some ts) \<Longrightarrow> t \<in> set ts \<Longrightarrow> SanitizePathComponent (t_ID t) \<in> keys_of st"
  using read_targets_ids [of "is" st ts t] task_at_keys by metis

lemma list_key:
  "store_wf st \<Longrightarrow> t \<in> set (listLocked st) \<Longrightarrow> SanitizePathComponent (t_ID t) \<in> keys_of st"
  using listLocked_id set_listLocked task_at_keys by metis

lemma same_ids_add:
  "same_ids st st1 \<Longrightarrow> SanitizePathComponent (t_ID t) \<in> keys_of st \<Longrightarrow> same_ids st (add_blocks i t st1)"
  "same_ids st st1 \<Longrightarrow> SanitizePathComponent (t_ID t) \<in> keys_of st \<Longrightarrow> same_ids st (add_blocked_by i t st1)"
  by (simp_all add: add_blocks_def add_blocked_by_def same_ids_write)

lemma res_option_cases: "(\<exists>e. r = Inl e) \<or> r = Inr None \<or> (\<exists>x. r = Inr (Some x))"
  by (metis option.exhaust sum.exhaust)

lemma UpdateWithDependencies_cases:
  obtains (none) "snd (UpdateWithDependencies i u bs bys st) = st"
    "\<nexists>t. fst (UpdateWithDependencies i u bs bys st) = Inr (Some t)"
  | (wrote) c ts us where "readTaskFile i st = Inr (Some c)" "read_targets bs st = Inr (Some ts)"
    "read_targets bys st = Inr (Some us)"
    "UpdateWithDependencies i u bs bys st = (Inr (Some (applyUpdates u c)),
       fold (add_blocks i) us (fold (add_blocked_by i) ts (writeTaskFile (applyUpdates u c) st)))"
proof -
  let ?r = "bind_res (readTaskFile i st) (\<lambda>r. case r of None \<Rightarrow> Inr None
       | Some current \<Rightarrow> bind_res (read_targets bs st) (\<lambda>r. case r of None \<Rightarrow> Inr None
         | Some blockTargets \<Rightarrow> bind_res (read_targets bys st) (\<lambda>r. case r of None \<Rightarrow> Inr None
           | Some blockerTargets \<Rightarrow> Inr (Some (current, blockTargets, blockerTargets)))))"
  consider e where "?r = Inl e" | "?r = Inr None" | x where "?r = Inr (Some x)"
    using res_option_cases [of ?r] by blast
  then show ?thesis
  proof cases
    case (3 x)
    obtain c ts us where x: "x = (c, ts, us)" by (cases x) auto
    have "readTaskFile i st = Inr (Some c)" "read_targets bs st = Inr (Some ts)"
      "read_targets bys st = Inr (Some us)"
      using 3 x by (auto simp: bind_res_Inr_iff split: option.splits)
    moreover have "UpdateWithDependencies i u bs bys st = (Inr (Some (applyUpdates u c)),
       fold (add_blocks i) us (fold (add_blocked_by i) ts (writeTaskFile (applyUpdates u c) st)))"
      unfolding UpdateWithDependencies_def 3 x by (simp add: Let_def)
    ultimately show ?thesis by (rule that(2))
  qed (rule that(1); simp add: UpdateWithDependencies_def)+
qed

lemma positive_id_stem:
  assumes "atoi (SanitizePathComponent tid) = Some n" and "0 < n"
  shows "tid = SanitizePathComponent tid"
proof -
  let ?k = "SanitizePathComponent tid"
  have digits: "parse_digits a s = Some m \<Longrightarrow> \<forall>c\<in>set s. is_digit c" for a s m
    by (induction s arbitrary: a) (auto split: if_splits)
  have plus: "CHR ''+'' \<notin> set ?k"
    using sanitize_chars [of "CHR ''+''" tid] by (auto simp: path_char_ok_def byte_def)
  have "CHR ''-'' \<notin> set ?k"
  proof (cases ?k)
    case (Cons c r)
    have "c \<noteq> CHR ''-''" using assms Cons by (auto simp: atoi_def range64_def split: option.splits if_splits)
    moreover have "c \<noteq> CHR ''+''" using plus Cons by auto
    ultimately have "parse_digits 0 ?k \<noteq> None"
      using assms Cons by (auto simp: atoi_def parse_nat_def range64_def split: option.splits if_splits)
    then obtain m where "parse_digits 0 ?k = Some m" by blast
    from digits [OF this] show ?thesis by (auto simp: is_digit_def)
  qed simp
  then show ?thesis using sanitize_no_dash by metis
qed

lemma Delete_floor: "store_wf st \<Longrightarrow> id_floor st \<le> id_floor (snd (Delete tid st))"
proof -
  assume wf: "store_wf st"
  define st1 where "st1 = (case atoi tid of
       Some n \<Rightarrow> if n > readHighwatermark st then writeHighwatermark n st else st | None \<Rightarrow> st)"
  have wf1: "store_wf st1" using wf by (auto simp: st1_def split: option.splits)
  have k1: "keys_of st1 = keys_of st" by (auto simp: st1_def split: option.split)
  have m1: "readHighwatermark st \<le> readHighwatermark st1"
    and n1: "atoi tid = Some n \<Longrightarrow> n \<le> readHighwatermark st1" for n
    by (auto simp: st1_def read_write_mark [OF atoi_range] split: option.split)
  define st2 where "st2 = st1\<lparr>task_dir := dir_remove (SanitizePathComponent tid) (task_dir st1)\<rparr>"
  have wf2: "store_wf st2"
    using wf1 by (auto simp: st2_def store_wf_def dir_remove_ok) (auto simp: dir_remove_def)
  have k2: "keys_of st2 = keys_of st1 - {SanitizePathComponent tid}"
    by (auto simp: keys_of_def st2_def dir_remove_def)
  have "findHighestTaskID st1 \<le> max (findHighestTaskID st2) (readHighwatermark st1)"
  proof (rule ccontr)
    assume "\<not> ?thesis"
    then have big: "findHighestTaskID st2 < findHighestTaskID st1" "readHighwatermark st1 < findHighestTaskID st1"
      by auto
    have pos: "0 < findHighestTaskID st1" using big(1) findHighest_range [of st2] by linarith
    then obtain k n where kn: "k \<in> keys_of st1" "atoi k = Some n" "findHighestTaskID st1 \<le> n"
      using le_findHighest [of "findHighestTaskID st1" st1] by auto
    show False
    proof (cases "k = SanitizePathComponent tid")
      case True
      then have "tid = k" using positive_id_stem [of tid n] kn pos by simp
      with n1 kn(2,3) big(2) show False by force
    next
      case False
      then have "findHighestTaskID st1 \<le> findHighestTaskID st2"
        using le_findHighest [of "findHighestTaskID st1" st2] kn k2 by auto
      with big(1) show False by simp
    qed
  qed
  then have f2: "id_floor st1 \<le> id_floor st2" by (simp add: id_floor_def st2_def)
  have "same_ids st2 (fold (drop_references tid) (listLocked st2) st2)"
    unfolding drop_references_eq
    by (rule same_ids_fold) (simp_all add: same_ids_write list_key [OF wf2])
  then have "id_floor (fold (drop_references tid) (listLocked st2) st2) = id_floor st2"
    by (rule same_ids_floor)
  moreover have "id_floor st \<le> id_floor st1" using k1 m1 by (intro floor_ge) auto
  ultimately have "id_floor st \<le> id_floor st1"
      "id_floor st \<le> id_floor (fold (drop_references tid) (listLocked st2) st2)"
    using f2 by auto
  then show ?thesis by (simp add: Delete_def Let_def st1_def [symmetric] st2_def [symmetric])
qed

lemma step_floor: "store_wf st \<Longrightarrow> id_floor st \<le> id_floor (task_step op st)"
proof (induction op)
  case (CreateOp d)
  show ?case by (rule floor_ge) (auto simp: Create_def Let_def)
next
  case (UpdateOp i u)
  have "same_ids st (snd (Update i u st))"
    using wf_read_key [OF UpdateOp.prems, of i]
    by (auto simp: Update_def Let_def intro!: same_ids_write split: sum.split option.split)
  then show ?case by (simp add: same_ids_floor)
next
  case (UpdateDepsOp i u bs bys)
  show ?case
  proof (cases rule: UpdateWithDependencies_cases [of i u bs bys st])
    case (wrote c ts us)
    have "same_ids st (writeTaskFile (applyUpdates u c) st)"
      using wf_read_key [OF UpdateDepsOp.prems wrote(1)] by (simp add: same_ids_write)
    then have "same_ids st (fold (add_blocked_by i) ts (writeTaskFile (applyUpdates u c) st))"
      by (rule same_ids_fold [rotated]) (simp add: same_ids_add targets_key [OF UpdateDepsOp.prems wrote(2)])
    then have "same_ids st (fold (add_blocks i) us (fold (add_blocked_by i) ts (writeTaskFile (applyUpdates u c) st)))"
      by (rule same_ids_fold [rotated]) (simp add: same_ids_add targets_key [OF UpdateDepsOp.prems wrote(3)])
    with wrote(4) show ?thesis by (simp add: same_ids_floor)
  qed simp
next
  case (DeleteOp i)
  then show ?case by (simp add: Delete_floor)
next
  case (BlockOp a b)
  have "same_ids st (snd (BlockTask a b st))"
    using wf_read_key [OF BlockOp.prems, of a] wf_read_key [OF BlockOp.prems, of b]
    by (auto simp: BlockTask_def Let_def intro!: same_ids_add split: sum.split option.split)
  then show ?case by (simp add: same_ids_floor)
next
  case (ClaimOp i a c)
  have "same_ids st (snd (ClaimTask i a c st))"
    using wf_read_key [OF ClaimOp.prems, of i]
    by (auto simp: ClaimTask_def Let_def intro!: same_ids_write split: sum.split option.split)
  then show ?case by (simp add: same_ids_floor)
next
  case ResetOp
  define st1 where "st1 = (if findHighestTaskID st > 0 \<and> findHighestTaskID st > readHighwatermark st
                then writeHighwatermark (findHighestTaskID st) st else st)"
  have "in_int64 (findHighestTaskID st)"
    using findHighest_range [of st] by (simp add: in_int64_def min_int64_def)
  then have "id_floor st \<le> max 0 (readHighwatermark st1)"
    using findHighest_range [of st] by (auto simp: id_floor_def st1_def read_write_mark)
  also have "\<dots> \<le> id_floor (st1\<lparr>task_dir := []\<rparr>)"
    using findHighest_range [of "st1\<lparr>task_dir := []\<rparr>"] by (auto simp: id_floor_def)
  finally show ?case by (simp add: ResetTaskList_def Let_def st1_def)
next
  case (UnassignOp a)
  have "same_ids st (snd (UnassignTeammateTasks a st))"
    unfolding UnassignTeammateTasks_def Let_def snd_conv
    by (rule same_ids_fold) (auto intro!: same_ids_write simp: list_key [OF UnassignOp.prems])
  then show ?case by (simp add: same_ids_floor)
qed

text \<open>
  C13: An identifier is never given out twice: whatever happened to the tasks of an earlier state
  (deletion and reset included), a task created later has an identifier none of them had, as long
  as the 64-bit identifiers are not exhausted.
\<close>

theorem ids_never_reused:
  assumes "id_floor (fold task_step later (fold task_step earlier empty_store)) < max_int64"
  shows "fst (Create d (fold task_step later (fold task_step earlier empty_store)))
    \<notin> keys_of (fold task_step earlier empty_store)"
proof
  let ?s = "fold task_step earlier empty_store" and ?t = "fold task_step later (fold task_step earlier empty_store)"
  have wf: "store_wf ?s" by (rule tasks.run_inv [OF empty_store_wf])
  have mono: "store_wf s \<Longrightarrow> id_floor s \<le> id_floor (fold task_step ops s)" for ops s
  proof (induction ops arbitrary: s)
    case (Cons op ops)
    then show ?case using Cons.IH [OF task_step_wf] step_floor order_trans by fastforce
  qed simp
  have "0 \<le> id_floor ?t" by (rule floor_nonneg)
  with assms have r: "in_int64 (id_floor ?t + 1)"
    by (simp add: in_int64_def min_int64_def)
  have new: "fst (Create d ?t) = itoa (id_floor ?t + 1)"
    using r by (simp add: Create_def Let_def nextID_def id_floor_def)
  assume "fst (Create d ?t) \<in> keys_of ?s"
  then have "id_floor ?t + 1 \<le> findHighestTaskID ?s"
    unfolding new le_findHighest using atoi_itoa [OF r] by blast
  also have "\<dots> \<le> id_floor ?s" by (simp add: id_floor_def)
  also have "\<dots> \<le> id_floor ?t" by (rule mono [OF wf])
  finally show False by simp
qed

definition sample_new :: "string \<Rightarrow> new_task" where
  "sample_new s = \<lparr>n_Subject = s, n_Description = '''', n_ActiveForm = '''', n_Owner = '''', n_Metadata = None\<rparr>"

lemma nextID_empty: "nextID empty_store = itoa 1"
  by (simp add: nextID_def in_int64_def min_int64_def max_int64_def)

lemma floor_after_first:
  "id_floor (fold task_step [DeleteOp (itoa 1)] (fold task_step [CreateOp (sample_new ''a'')] empty_store)) = 1"
proof -
  have i1: "in_int64 1" by (simp add: in_int64_def min_int64_def max_int64_def)
  have dir: "task_dir (snd (Create (sample_new ''a'') empty_store)) = [(itoa 1, TaskFile (task_of_new (itoa 1) (sample_new ''a'')))]"
    by (simp add: Create_def Let_def nextID_empty writeTaskFile_def task_of_new_def sanitize_itoa
        stored_def sample_new_def)
  have mark: "readHighwatermark (snd (Create (sample_new ''a'') empty_store)) = 0"
    by (simp add: Create_def Let_def)
  let ?s = "writeHighwatermark 1 (snd (Create (sample_new ''a'') empty_store))"
  have "Delete (itoa 1) (snd (Create (sample_new ''a'') empty_store)) = (True, ?s\<lparr>task_dir := []\<rparr>)"
    using dir mark i1
    by (simp add: Delete_def Let_def sanitize_itoa writeHighwatermark_def dir_read_def dir_remove_def
        listLocked_def map_filter_def)
  then show ?thesis
    by (simp add: id_floor_def findHighestTaskID_def read_write_mark [OF i1])
qed

theorem ids_never_reused_witness:
  "fst (Create (sample_new ''b'') (fold task_step [DeleteOp (itoa 1)]
      (fold task_step [CreateOp (sample_new ''a'')] empty_store)))
    \<notin> keys_of (fold task_step [CreateOp (sample_new ''a'')] empty_store)"
  by (rule ids_never_reused) (simp add: floor_after_first [simplified] max_int64_def)

text \<open>
  A created task can be read back at once under the identifier returned, with the caller's
  fields, pending and without dependencies; the identifier is fresh and no other task changes.
\<close>

theorem Create_fresh_readable:
  assumes "store_wf st" and "id_floor st < max_int64" and "Create d st = (i, st')"
  shows "i \<notin> keys_of st \<and> Get i st' = Inr (Some (stored (task_of_new i d)))
    \<and> (\<forall>k. k \<noteq> i \<longrightarrow> task_at st' k = task_at st k)"
proof -
  have "0 \<le> id_floor st" by (rule floor_nonneg)
  with assms(2) have r: "in_int64 (id_floor st + 1)"
    by (simp add: in_int64_def min_int64_def)
  have i: "i = itoa (id_floor st + 1)" "st' = writeTaskFile (task_of_new i d) st"
    using assms(3) r by (auto simp: Create_def Let_def nextID_def id_floor_def)
  have s: "SanitizePathComponent i = i" by (simp add: i(1) sanitize_itoa)
  have fresh: "i \<notin> keys_of st"
  proof
    assume "i \<in> keys_of st"
    then have "id_floor st + 1 \<le> findHighestTaskID st"
      unfolding i(1) le_findHighest using atoi_itoa [OF r] by blast
    then show False by (simp add: id_floor_def)
  qed
  have id': "t_ID (task_of_new i d) = i" by (simp add: task_of_new_def)
  show ?thesis
    unfolding i(2) using fresh s
    by (simp add: Get_def read_Some_iff task_at_write id')
qed

theorem Create_fresh_readable_witness:
  "Get (itoa 1) (snd (Create (sample_new ''a'') empty_store))
     = Inr (Some (task_of_new (itoa 1) (sample_new ''a'')))"
proof -
  have "Create (sample_new ''a'') empty_store = (itoa 1, snd (Create (sample_new ''a'') empty_store))"
    by (simp add: Create_def Let_def nextID_empty)
  from Create_fresh_readable [OF empty_store_wf _ this] show ?thesis
    by (simp add: id_floor_def max_int64_def stored_def task_of_new_def sample_new_def)
qed

text \<open>
  Deleting an identifier that names no task still raises the high-water mark; with the largest
  64-bit number the next identifier wraps around to the smallest, is given out again to every
  later task, and each new task overwrites the one before it.
\<close>

theorem Delete_exhausts_identifiers:
  assumes "n_Metadata d1 = None" and "n_Metadata d2 = None"
  shows "let st1 = snd (Delete (itoa max_int64) empty_store);
             (i, st2) = Create d1 st1; (j, st3) = Create d2 st2
         in fst (Delete (itoa max_int64) empty_store) = False
            \<and> i = itoa min_int64 \<and> j = i
            \<and> List_tasks st2 = [task_of_new i d1] \<and> List_tasks st3 = [task_of_new i d2]"
proof -
  have r: "in_int64 max_int64" "in_int64 min_int64"
    by (simp_all add: in_int64_def min_int64_def max_int64_def)
  define st1 where "st1 = writeHighwatermark max_int64 empty_store"
  have pos: "0 < max_int64" and neg: "\<not> 0 < min_int64" by (simp_all add: max_int64_def min_int64_def)
  have d: "Delete (itoa max_int64) empty_store = (False, st1)"
    using pos by (simp add: Delete_def Let_def atoi_itoa [OF r(1)] st1_def dir_read_def writeHighwatermark_def)
  have w: "wrap64 (max_int64 + 1) = min_int64" by (simp add: wrap64_def max_int64_def min_int64_def)
  have m: "readHighwatermark (writeTaskFile t st1) = max_int64" "readHighwatermark st1 = max_int64" for t
    by (simp_all add: st1_def read_write_mark [OF r(1)])
  have f1: "findHighestTaskID st1 = 0" by (simp add: st1_def findHighestTaskID_def writeHighwatermark_def)
  define st2 where "st2 = writeTaskFile (task_of_new (itoa min_int64) d1) st1"
  have dir2: "task_dir st2 = [(itoa min_int64, TaskFile (task_of_new (itoa min_int64) d1))]"
    using assms(1)
    by (simp add: st2_def writeTaskFile_def task_of_new_def sanitize_itoa st1_def writeHighwatermark_def
        stored_def)
  have f2: "findHighestTaskID st2 = 0"
    by (simp add: findHighestTaskID_def dir2 higher_id_def atoi_itoa [OF r(2)] neg)
  define st3 where "st3 = writeTaskFile (task_of_new (itoa min_int64) d2) st2"
  have dir3: "task_dir st3 = [(itoa min_int64, TaskFile (task_of_new (itoa min_int64) d2))]"
    using assms(2) dir2
    by (simp add: st3_def writeTaskFile_def task_of_new_def sanitize_itoa stored_def)
  have mx: "max 0 max_int64 = max_int64" by (simp add: max_int64_def)
  have c1: "Create d1 st1 = (itoa min_int64, st2)"
    by (simp add: Create_def Let_def nextID_def f1 m mx w st2_def)
  have m2: "readHighwatermark st2 = max_int64" by (simp add: st2_def m)
  have c2: "Create d2 st2 = (itoa min_int64, st3)"
    by (simp add: Create_def Let_def nextID_def f2 m2 mx w st3_def)
  have l: "List_tasks st = [t]" if "task_dir st = [(itoa min_int64, TaskFile t)]" for st t
    using that by (simp add: List_tasks_def listLocked_def map_filter_def readTaskFile_def sanitize_itoa dir_read_def)
  show ?thesis
    unfolding d by (simp add: c1 c2 l [OF dir2] l [OF dir3])
qed

theorem Delete_exhausts_identifiers_witness:
  "fst (Create (sample_new ''b'') (snd (Create (sample_new ''a'') (snd (Delete (itoa max_int64) empty_store)))))
    = fst (Create (sample_new ''a'') (snd (Delete (itoa max_int64) empty_store)))"
  using Delete_exhausts_identifiers [of "sample_new ''a''" "sample_new ''b''"]
  by (simp add: sample_new_def Let_def split: prod.splits)

section \<open>Deleting, claiming, blocking, unassigning\<close>

lemma stored_idem [simp]: "stored (stored t) = stored t"
  by (simp add: stored_def)

lemma mentions_stored: "mentions s (stored t) = mentions s t"
  by (simp add: mentions_def)

lemma removeString_notin: "s \<notin> set (removeString xs s)"
  by (simp add: removeString_def)

text \<open>
  A successful deletion removes the task and every reference to it: no remaining task lists it
  as blocking or blocked, and the other tasks keep their identifier, owner and status.
\<close>

theorem Delete_removes_references:
  assumes "store_wf st" and "Delete tid st = (True, st')"
  shows "task_at st' (SanitizePathComponent tid) = None
    \<and> (\<forall>k t. task_at st' k = Some t \<longrightarrow> \<not> mentions tid t)
    \<and> (\<forall>k t. k \<noteq> SanitizePathComponent tid \<and> task_at st k = Some t \<longrightarrow>
        (\<exists>t'. task_at st' k = Some t' \<and> t_ID t' = t_ID t \<and> t_Owner t' = t_Owner t
          \<and> t_Status t' = t_Status t
          \<and> t_Blocks t' = removeString (t_Blocks t) tid
          \<and> t_BlockedBy t' = removeString (t_BlockedBy t) tid))"
proof -
  define st1 where "st1 = (case atoi tid of
       Some n \<Rightarrow> if n > readHighwatermark st then writeHighwatermark n st else st | None \<Rightarrow> st)"
  have wf1: "store_wf st1" using assms(1) by (auto simp: st1_def split: option.splits)
  have at1: "task_at st1 k = task_at st k" for k by (auto simp: st1_def split: option.split)
  define st2 where "st2 = st1\<lparr>task_dir := dir_remove (SanitizePathComponent tid) (task_dir st1)\<rparr>"
  have wf2: "store_wf st2"
    using wf1 by (auto simp: st2_def store_wf_def dir_remove_ok) (auto simp: dir_remove_def)
  have at2: "task_at st2 k = (if k = SanitizePathComponent tid then None else task_at st k)" for k
    unfolding at1 [symmetric] by (simp add: st2_def task_at_def dirs.lookup_drop)
  define ts where "ts = filter (mentions tid) (listLocked st2)"
  have st': "st' = fold (\<lambda>t. writeTaskFile (without_refs tid t)) ts st2"
    using assms(2) unfolding Delete_def Let_def st1_def [symmetric] st2_def [symmetric]
    by (auto simp: drop_references_eq fold_cond ts_def split: if_splits)
  have "distinct (map t_ID ts)"
    unfolding ts_def by (rule distinct_map_filter [OF distinct_listLocked [OF wf2]])
  then have at': "task_at st' k = (case find (\<lambda>t. t_ID t = k) ts of
      Some t \<Rightarrow> Some (stored (without_refs tid t)) | None \<Rightarrow> task_at st2 k)" for k
    unfolding st' by (intro fold_write_at) (auto simp: ts_def listLocked_id [OF wf2])
  have found: "find (\<lambda>t. t_ID t = k) ts = (case task_at st2 k of
      Some t \<Rightarrow> if mentions tid t then Some t else None | None \<Rightarrow> None)" for k
  proof (cases "find (\<lambda>t. t_ID t = k) ts")
    case None
    then have "\<not> mentions tid t" if "task_at st2 k = Some t" for t
      using that wf_task_at [OF wf2 that] set_listLocked [OF wf2, of t] by (auto simp: find_None_iff ts_def)
    with None show ?thesis by (auto split: option.splits)
  next
    case (Some t)
    then have "t \<in> set ts" "t_ID t = k" by (auto simp: find_Some_iff)
    then have "task_at st2 k = Some t" "mentions tid t"
      using set_listLocked [OF wf2, of t] by (auto simp: ts_def)
    with Some show ?thesis by simp
  qed
  have a: "task_at st' k = map_option (\<lambda>t. if mentions tid t then stored (without_refs tid t) else t) (task_at st2 k)" for k
    by (simp add: at' found split: option.split)
  have m: "\<not> mentions tid (without_refs tid t)" for t
    by (simp add: mentions_def without_refs_def removeString_notin)
  have id': "removeString xs tid = xs" if "tid \<notin> set xs" for xs
    using that by (induction xs) (auto simp: removeString_def)
  show ?thesis
  proof (intro conjI allI impI)
    show "task_at st' (SanitizePathComponent tid) = None" by (simp add: a at2)
  next
    fix k t
    assume "task_at st' k = Some t"
    then obtain u where "t = (if mentions tid u then stored (without_refs tid u) else u)"
      unfolding a by auto
    then show "\<not> mentions tid t"
      using m [of u] by (cases "mentions tid u") (simp_all add: mentions_stored)
  next
    fix k t
    assume "k \<noteq> SanitizePathComponent tid \<and> task_at st k = Some t"
    then show "\<exists>t'. task_at st' k = Some t' \<and> t_ID t' = t_ID t \<and> t_Owner t' = t_Owner t
          \<and> t_Status t' = t_Status t \<and> t_Blocks t' = removeString (t_Blocks t) tid
          \<and> t_BlockedBy t' = removeString (t_BlockedBy t) tid"
      unfolding a at2 by (auto simp: mentions_def id' without_refs_def)
  qed
qed

text \<open>A list of three tasks: 1 blocks 2, and 3 is free.\<close>

definition demo_task :: "string \<Rightarrow> string \<Rightarrow> status \<Rightarrow> string list \<Rightarrow> string list \<Rightarrow> task" where
  "demo_task i owner st blocks blockedBy =
    \<lparr>t_ID = i, t_Subject = ''s'', t_Description = '''', t_ActiveForm = '''', t_Owner = owner,
     t_Status = st, t_Blocks = blocks, t_BlockedBy = blockedBy, t_Metadata = None\<rparr>"

definition demo_store :: task_store where
  "demo_store = \<lparr>task_dir = [(''1'', TaskFile (demo_task ''1'' ''ann'' InProgress [''2''] [])),
      (''2'', TaskFile (demo_task ''2'' '''' Pending [] [''1''])),
      (''3'', TaskFile (demo_task ''3'' '''' Pending [] []))], mark_file = Some ''3''\<rparr>"

lemma sanitize_digit: "SanitizePathComponent ''1'' = ''1''" "SanitizePathComponent ''2'' = ''2''"
    "SanitizePathComponent ''3'' = ''3''"
  by (simp_all add: sanitize_ok path_char_ok_def byte_def)

lemma demo_store_wf: "store_wf demo_store"
proof -
  have "dir_ok (task_dir demo_store)"
    unfolding dir_ok_def demo_store_def by (simp add: file_before_def)
  then show ?thesis by (simp add: store_wf_def) (simp add: demo_store_def demo_task_def sanitize_digit)
qed

theorem Delete_removes_references_witness:
  "\<exists>st'. Delete ''1'' demo_store = (True, st') \<and> (\<forall>k t. task_at st' k = Some t \<longrightarrow> \<not> mentions ''1'' t)"
proof -
  have "fst (Delete ''1'' demo_store)"
  proof -
    have "dir_read (task_dir (case atoi ''1'' of Some n \<Rightarrow> if n > readHighwatermark demo_store
        then writeHighwatermark n demo_store else demo_store | None \<Rightarrow> demo_store)) ''1'' \<noteq> None"
      by (auto simp: dir_read_def demo_store_def writeHighwatermark_def split: option.split)
    then show ?thesis by (auto simp: Delete_def Let_def sanitize_digit)
  qed
  then obtain st' where d: "Delete ''1'' demo_store = (True, st')" by (cases "Delete ''1'' demo_store") auto
  from Delete_removes_references [OF demo_store_wf d] d show ?thesis by blast
qed

lemma unresolved_iff:
  assumes "store_wf st"
  shows "i \<in> set (unresolved_ids (listLocked st)) \<longleftrightarrow> (\<exists>t. task_at st i = Some t \<and> t_Status t \<noteq> Completed)"
proof -
  have "i \<in> set (unresolved_ids (listLocked st))
      \<longleftrightarrow> (\<exists>t. (t \<in> set (listLocked st) \<and> t_ID t = i) \<and> t_Status t \<noteq> Completed)"
    by (auto simp: unresolved_ids_def)
  then show ?thesis by (simp only: listed_iff [OF assms])
qed

text \<open>
  C31: A claim succeeds only on a task that is unowned or already the claimant's, not completed,
  and not waiting for an unresolved task (and, when asked, only for an agent with no other open
  task). It changes nothing but the owner of that task, and from then on any other agent's claim
  is refused and changes nothing.
\<close>

theorem ClaimTask_exclusive:
  assumes "store_wf st" and "ClaimTask tid a chk st = (Inr (ClaimOk t), st')" and "a \<noteq> ''''"
  shows "(\<exists>t0. task_at st (SanitizePathComponent tid) = Some t0
      \<and> (t_Owner t0 = '''' \<or> t_Owner t0 = a) \<and> t_Status t0 \<noteq> Completed
      \<and> (\<forall>b\<in>set (t_BlockedBy t0). \<forall>u. task_at st b = Some u \<longrightarrow> t_Status u = Completed)
      \<and> (chk \<longrightarrow> (\<forall>k u. task_at st k = Some u \<and> t_Owner u = a \<and> k \<noteq> tid \<longrightarrow> t_Status u = Completed))
      \<and> t = t0\<lparr>t_Owner := a\<rparr>)
    \<and> task_at st' (SanitizePathComponent tid) = Some (stored t)
    \<and> (\<forall>k. k \<noteq> SanitizePathComponent tid \<longrightarrow> task_at st' k = task_at st k)
    \<and> (\<forall>b chk'. b \<noteq> a \<longrightarrow>
        ClaimTask tid b chk' st' = (Inr (ClaimFailed AlreadyClaimed (Some (stored t)) []), st'))"
proof -
  obtain t0 where t0: "readTaskFile tid st = Inr (Some t0)"
    using assms(2) by (auto simp: ClaimTask_def split: sum.splits option.splits)
  note wf0 = wf_read [OF assms(1) t0]
  have own: "t_Owner t0 = '''' \<or> t_Owner t0 = a" and open': "t_Status t0 \<noteq> Completed"
    and free: "filter (\<lambda>b. b \<in> set (unresolved_ids (listLocked st))) (t_BlockedBy t0) = []"
    and idle: "chk \<longrightarrow> map t_ID (filter (\<lambda>t. t_Status t \<noteq> Completed \<and> t_Owner t = a \<and> t_ID t \<noteq> tid) (listLocked st)) = []"
    and t: "t = t0\<lparr>t_Owner := a\<rparr>" and st': "st' = writeTaskFile (t0\<lparr>t_Owner := a\<rparr>) st"
    using assms(2) unfolding ClaimTask_def t0 by (auto simp: Let_def split: if_splits)
  have blockers: "\<forall>b\<in>set (t_BlockedBy t0). \<forall>u. task_at st b = Some u \<longrightarrow> t_Status u = Completed"
    using free unresolved_iff [OF assms(1)] by (auto simp: filter_empty_conv)
  have busy: "chk \<longrightarrow> (\<forall>k u. task_at st k = Some u \<and> t_Owner u = a \<and> k \<noteq> tid \<longrightarrow> t_Status u = Completed)"
  proof (intro impI allI)
    fix k u
    assume chk and u: "task_at st k = Some u \<and> t_Owner u = a \<and> k \<noteq> tid"
    then have "u \<in> set (listLocked st)" "t_ID u = k"
      using wf_task_at [OF assms(1)] set_listLocked [OF assms(1), of u] by auto
    with idle \<open>chk\<close> u show "t_Status u = Completed" by (auto simp: filter_empty_conv)
  qed
  have at': "task_at st' k = (if k = SanitizePathComponent tid then Some (stored t) else task_at st k)" for k
    unfolding st' t using wf0 by (simp add: task_at_write)
  have again: "ClaimTask tid b chk' st' = (Inr (ClaimFailed AlreadyClaimed (Some (stored t)) []), st')"
    if "b \<noteq> a" for b chk'
  proof -
    have r: "readTaskFile tid st' = Inr (Some (stored t))" by (simp add: read_Some_iff at')
    have "t_Owner (stored t) = a" by (simp add: t)
    with that assms(3) show ?thesis unfolding ClaimTask_def r by simp
  qed
  from t0 own open' blockers busy t at' again show ?thesis by (auto simp: read_Some_iff)
qed

theorem ClaimTask_exclusive_witness:
  "\<exists>t st'. ClaimTask ''3'' ''bob'' True demo_store = (Inr (ClaimOk t), st')
    \<and> ClaimTask ''3'' ''eve'' False st' = (Inr (ClaimFailed AlreadyClaimed (Some (stored t)) []), st')"
proof -
  have "listLocked demo_store = map (\<lambda>e. case snd e of TaskFile t \<Rightarrow> t) (task_dir demo_store)"
    unfolding listLocked_wf [OF demo_store_wf] by (simp add: demo_store_def List.map_filter_simps)
  then have l: "listLocked demo_store = [demo_task ''1'' ''ann'' InProgress [''2''] [],
      demo_task ''2'' '''' Pending [] [''1''], demo_task ''3'' '''' Pending [] []]"
    by (simp add: demo_store_def)
  have r: "readTaskFile ''3'' demo_store = Inr (Some (demo_task ''3'' '''' Pending [] []))"
    by (simp add: readTaskFile_def sanitize_digit dir_read_def demo_store_def)
  obtain t st' where c: "ClaimTask ''3'' ''bob'' True demo_store = (Inr (ClaimOk t), st')"
    unfolding ClaimTask_def r by (simp add: l demo_task_def Let_def)
  have bob: "''bob'' \<noteq> ''''" by simp
  have "\<forall>b chk'. b \<noteq> ''bob'' \<longrightarrow>
      ClaimTask ''3'' b chk' st' = (Inr (ClaimFailed AlreadyClaimed (Some (stored t)) []), st')"
    using ClaimTask_exclusive [OF demo_store_wf c bob] by (elim conjE)
  then have "ClaimTask ''3'' ''eve'' False st' = (Inr (ClaimFailed AlreadyClaimed (Some (stored t)) []), st')"
    by simp
  with c show ?thesis by blast
qed

text \<open>
  Blocking one task by another records the dependency on both sides, each once, and changes no
  other task; but a task made to block itself ends up with only the second half, because the
  second write starts from the copy read before the first.
\<close>

theorem BlockTask_two_sided:
  assumes "store_wf st" and "BlockTask a b st = (True, st')"
    and "a = SanitizePathComponent a" and "b = SanitizePathComponent b"
  shows "\<exists>f t. task_at st a = Some f \<and> task_at st b = Some t
    \<and> (a \<noteq> b \<longrightarrow> (\<exists>f' t'. task_at st' a = Some f' \<and> task_at st' b = Some t'
         \<and> b \<in> set (t_Blocks f') \<and> a \<in> set (t_BlockedBy t')
         \<and> t_BlockedBy f' = t_BlockedBy f \<and> t_Blocks t' = t_Blocks t))
    \<and> (\<forall>k. k \<noteq> a \<and> k \<noteq> b \<longrightarrow> task_at st' k = task_at st k)
    \<and> (a = b \<and> a \<notin> set (t_Blocks f) \<and> a \<notin> set (t_BlockedBy f)
        \<longrightarrow> (\<exists>f'. task_at st' a = Some f' \<and> a \<in> set (t_BlockedBy f') \<and> a \<notin> set (t_Blocks f')))"
proof -
  obtain f t where r: "readTaskFile a st = Inr (Some f)" "readTaskFile b st = Inr (Some t)"
    and st': "st' = add_blocked_by a t (add_blocks b f st)"
    using assms(2) by (auto simp: BlockTask_def Let_def split: sum.splits option.splits)
  have f: "t_ID f = a" "task_at st a = Some f" and t: "t_ID t = b" "task_at st b = Some t"
    using wf_read [OF assms(1) r(1)] wf_read [OF assms(1) r(2)] assms(3,4) by auto
  have san: "SanitizePathComponent a = a" "SanitizePathComponent b = b" using assms(3,4) by auto
  have at1: "task_at (add_blocks b f st) k = (if k = a \<and> b \<notin> set (t_Blocks f)
      then Some (stored (f\<lparr>t_Blocks := t_Blocks f @ [b]\<rparr>)) else task_at st k)" for k
    by (simp add: add_blocks_def task_at_write f(1) san)
  have at2: "task_at st' k = (if k = b \<and> a \<notin> set (t_BlockedBy t)
      then Some (stored (t\<lparr>t_BlockedBy := t_BlockedBy t @ [a]\<rparr>)) else task_at (add_blocks b f st) k)" for k
    unfolding st' by (simp add: add_blocked_by_def task_at_write t(1) san)
  have same: "a = b \<Longrightarrow> t = f" using f t by simp
  show ?thesis
    by (rule exI [of _ f], rule exI [of _ t], cases "a = b") (auto simp: at1 at2 f t same)
qed

theorem BlockTask_two_sided_witness:
  "\<exists>st' f'. BlockTask ''3'' ''3'' demo_store = (True, st') \<and> task_at st' ''3'' = Some f'
    \<and> ''3'' \<in> set (t_BlockedBy f') \<and> ''3'' \<notin> set (t_Blocks f')"
proof -
  have r: "readTaskFile ''3'' demo_store = Inr (Some (demo_task ''3'' '''' Pending [] []))"
    by (simp add: readTaskFile_def sanitize_digit dir_read_def demo_store_def)
  obtain st' where b: "BlockTask ''3'' ''3'' demo_store = (True, st')"
    by (simp add: BlockTask_def r Let_def)
  have at: "task_at demo_store ''3'' = Some (demo_task ''3'' '''' Pending [] [])"
    using r by (simp add: read_Some_iff sanitize_digit)
  from BlockTask_two_sided [OF demo_store_wf b] b at show ?thesis
    by (auto simp: sanitize_digit demo_task_def)
qed

text \<open>
  Unassigning a teammate returns every open task it owned to the pool, pending and unowned, and
  reports exactly those; afterwards it owns no open task, and no other task has changed.
\<close>

theorem Unassign_releases:
  assumes "store_wf st" and "UnassignTeammateTasks a st = (us, st')" and "a \<noteq> ''''"
  shows "task_at st' k = map_option (\<lambda>t. if is_open_of a t then stored (t\<lparr>t_Owner := '''', t_Status := Pending\<rparr>) else t)
      (task_at st k)
    \<and> (\<forall>t. task_at st' k = Some t \<longrightarrow> \<not> is_open_of a t)
    \<and> (\<forall>s. (k, s) \<in> set us \<longleftrightarrow> (\<exists>t. task_at st k = Some t \<and> is_open_of a t \<and> t_Subject t = s))"
proof -
  define ts where "ts = filter (is_open_of a) (listLocked st)"
  have us: "us = map (\<lambda>t. (t_ID t, t_Subject t)) ts"
    and st': "st' = fold (\<lambda>t. writeTaskFile (t\<lparr>t_Owner := '''', t_Status := Pending\<rparr>)) ts st"
    using assms(2) by (auto simp: UnassignTeammateTasks_def Let_def ts_def)
  have "distinct (map t_ID ts)"
    unfolding ts_def by (rule distinct_map_filter [OF distinct_listLocked [OF assms(1)]])
  then have at': "task_at st' k = (case find (\<lambda>t. t_ID t = k) ts of
      Some t \<Rightarrow> Some (stored (t\<lparr>t_Owner := '''', t_Status := Pending\<rparr>)) | None \<Rightarrow> task_at st k)"
    unfolding st' by (intro fold_write_at) (auto simp: ts_def listLocked_id [OF assms(1)])
  have mem: "t \<in> set ts \<and> t_ID t = k \<longleftrightarrow> task_at st k = Some t \<and> is_open_of a t" for t
    using listed_iff [OF assms(1), of t k] by (auto simp: ts_def)
  have "find (\<lambda>t. t_ID t = k) ts = (case task_at st k of Some t \<Rightarrow> if is_open_of a t then Some t else None | None \<Rightarrow> None)"
  proof (cases "find (\<lambda>t. t_ID t = k) ts")
    case None
    then have "\<not> (t \<in> set ts \<and> t_ID t = k)" for t by (auto simp: find_None_iff)
    with None mem show ?thesis by (auto split: option.split)
  next
    case (Some t)
    then have "t \<in> set ts \<and> t_ID t = k" by (auto simp: find_Some_iff)
    then have "task_at st k = Some t \<and> is_open_of a t" using mem by blast
    with Some show ?thesis by simp
  qed
  then have 1: "task_at st' k = map_option (\<lambda>t. if is_open_of a t then stored (t\<lparr>t_Owner := '''', t_Status := Pending\<rparr>) else t)
      (task_at st k)"
    by (simp add: at' split: option.split)
  moreover have "\<forall>t. task_at st' k = Some t \<longrightarrow> \<not> is_open_of a t"
  proof (intro allI impI)
    fix t
    assume "task_at st' k = Some t"
    then obtain u where "t = (if is_open_of a u then stored (u\<lparr>t_Owner := '''', t_Status := Pending\<rparr>) else u)"
      unfolding 1 by auto
    with assms(3) show "\<not> is_open_of a t"
      by (cases "is_open_of a u") (simp_all add: is_open_of_def)
  qed
  moreover have "\<forall>s. (k, s) \<in> set us \<longleftrightarrow> (\<exists>t. task_at st k = Some t \<and> is_open_of a t \<and> t_Subject t = s)"
  proof
    fix s
    have "(k, s) \<in> set us \<longleftrightarrow> (\<exists>t. (t \<in> set ts \<and> t_ID t = k) \<and> t_Subject t = s)"
      by (auto simp: us)
    then show "(k, s) \<in> set us \<longleftrightarrow> (\<exists>t. task_at st k = Some t \<and> is_open_of a t \<and> t_Subject t = s)"
      by (simp only: mem conj_assoc)
  qed
  ultimately show ?thesis by blast
qed

theorem Unassign_releases_witness:
  "\<exists>us st'. UnassignTeammateTasks ''ann'' demo_store = (us, st')
    \<and> (''1'', ''s'') \<in> set us \<and> (\<forall>t. task_at st' ''1'' = Some t \<longrightarrow> \<not> is_open_of ''ann'' t)"
proof -
  obtain us st' where u: "UnassignTeammateTasks ''ann'' demo_store = (us, st')"
    by (cases "UnassignTeammateTasks ''ann'' demo_store")
  have "task_at demo_store ''1'' = Some (demo_task ''1'' ''ann'' InProgress [''2''] [])"
    by (simp add: task_at_def dir_read_def demo_store_def)
  with Unassign_releases [OF demo_store_wf u, of "''1''"] u show ?thesis
    by (auto simp: is_open_of_def demo_task_def)
qed

end
