(* ===== verification/Tool_Cycle.thy ===== *)
theory Tool_Cycle
  imports Conversation Provider_Errors
begin

text \<open>
  One cycle of tool execution (\<open>runtime/engine/tool_cycle.go\<close>, \<open>sibling_cascade.go\<close>, and
  \<open>executeToolUses\<close>, \<open>executeToolBatch\<close>, \<open>renderToolResult\<close> of \<open>engine.go\<close>): the partition of
  the model's tool calls into batches, the sibling cascade, and the message of tool results.

  Running one tool is a parameter. The tools of a parallel batch finish in any order, so their
  results come with an order of completion.
\<close>

section \<open>Tool results\<close>

type_synonym blob = "string \<times> string"

datatype meta_value =
    MetaString string
  | MetaImage blob
  | MetaImages "blob list"
  | MetaDocument blob
  | MetaOther

record tool_result =
  r_Output :: string
  r_Error :: string
  r_Meta :: "(string \<times> meta_value) list"

definition error_result :: "string \<Rightarrow> tool_result" where
  "error_result msg = \<lparr>r_Output = '''', r_Error = msg, r_Meta = []\<rparr>"

definition toolAdditionalContext :: "tool_result \<Rightarrow> string" where
  "toolAdditionalContext r = (case map_of (r_Meta r) ''additional_context'' of
     Some (MetaString s) \<Rightarrow> s | _ \<Rightarrow> '''')"

definition attachAdditionalContext :: "tool_result \<Rightarrow> string \<Rightarrow> tool_result" where
  "attachAdditionalContext r ctx =
    (if trim_space ctx = '''' then r
     else r\<lparr>r_Meta := (''additional_context'', MetaString ctx)
              # filter (\<lambda>e. fst e \<noteq> ''additional_context'') (r_Meta r)\<rparr>)"

definition toolResultImage :: "tool_result \<Rightarrow> blob option" where
  "toolResultImage r = (case map_of (r_Meta r) ''image'' of Some (MetaImage b) \<Rightarrow> Some b | _ \<Rightarrow> None)"

definition toolResultImages :: "tool_result \<Rightarrow> blob list" where
  "toolResultImages r = (case map_of (r_Meta r) ''images'' of Some (MetaImages bs) \<Rightarrow> bs | _ \<Rightarrow> [])"

definition toolResultDocument :: "tool_result \<Rightarrow> blob option" where
  "toolResultDocument r = (case map_of (r_Meta r) ''document'' of Some (MetaDocument b) \<Rightarrow> Some b | _ \<Rightarrow> None)"

definition renderToolFailure :: "tool_result \<Rightarrow> go_error option \<Rightarrow> string" where
  "renderToolFailure r invokeErr =
    (if trim_space (r_Error r) \<noteq> '''' then r_Error r
     else case invokeErr of Some e \<Rightarrow> error_text e | None \<Rightarrow> '''')"

definition renderToolResult :: "tool_result \<Rightarrow> go_error option \<Rightarrow> string \<times> bool" where
  "renderToolResult r invokeErr =
    (if invokeErr \<noteq> None then (renderToolFailure r invokeErr, True)
     else if trim_space (r_Error r) \<noteq> '''' then (r_Error r, True)
     else (r_Output r, False))"

definition isToolInterrupt :: "tool_result \<Rightarrow> go_error option \<Rightarrow> bool" where
  "isToolInterrupt r invokeErr \<longleftrightarrow>
    (case invokeErr of Some e \<Rightarrow> is_canceled e | None \<Rightarrow> False)
    \<or> str_contains (renderToolFailure r invokeErr) ''AbortError''"

definition isFileWriteTool :: "string \<Rightarrow> bool" where
  "isFileWriteTool name \<longleftrightarrow> name = ''Write'' \<or> name = ''Edit'' \<or> name = ''NotebookEdit''"

section \<open>Batches\<close>

record tool_batch =
  b_safe :: bool
  b_toolUses :: "tool_use list"

record outcome =
  o_toolUse :: tool_use
  o_result :: tool_result
  o_err :: "go_error option"

text \<open>\<open>safeName\<close> is the executor's \<open>IsConcurrencySafe\<close>; without an executor nothing is safe.\<close>

fun partition_from :: "(string \<Rightarrow> bool) \<Rightarrow> tool_batch list \<Rightarrow> tool_use list \<Rightarrow> tool_batch list" where
  "partition_from safeName batches [] = batches"
| "partition_from safeName batches (t # ts) =
    (let safe = safeName (tu_Name t) in
     if safe \<and> batches \<noteq> [] \<and> b_safe (last batches)
     then partition_from safeName
       (butlast batches @ [(last batches)\<lparr>b_toolUses := b_toolUses (last batches) @ [t]\<rparr>]) ts
     else partition_from safeName (batches @ [\<lparr>b_safe = safe, b_toolUses = [t]\<rparr>]) ts)"

definition partitionToolUses :: "(string \<Rightarrow> bool) \<Rightarrow> tool_use list \<Rightarrow> tool_batch list" where
  "partitionToolUses safeName toolUses = partition_from safeName [] toolUses"

section \<open>The sibling cascade\<close>

record cascade =
  hasErrored :: bool
  erroredToolDesc :: string

definition NewSiblingCascade :: cascade where
  "NewSiblingCascade = \<lparr>hasErrored = False, erroredToolDesc = ''''\<rparr>"

definition FormatCascadeErrorMessage :: "string \<Rightarrow> string" where
  "FormatCascadeErrorMessage desc =
    (if desc = '''' then ''Cancelled: parallel tool call errored''
     else ''Cancelled: parallel tool call '' @ desc @ '' errored'')"

text \<open>The string inputs in map iteration order, cut at 40 bytes.\<close>

fun string_values :: "(string \<times> json) list \<Rightarrow> string list" where
  "string_values [] = []"
| "string_values (kv # kvs) = (case snd kv of JStr s \<Rightarrow> s # string_values kvs | _ \<Rightarrow> string_values kvs)"

definition FormatToolDescription :: "string \<Rightarrow> tool_input \<Rightarrow> string" where
  "FormatToolDescription toolName inp =
    (let inputStr = join_str '' '' (string_values (case inp of Some kvs \<Rightarrow> kvs | None \<Rightarrow> []));
         inputStr = (if length inputStr > 40 then take 40 inputStr @ ''...'' else inputStr)
     in toolName @ ''('' @ inputStr @ '')'')"

definition isToolErrorResult :: "tool_result \<Rightarrow> go_error option \<Rightarrow> bool" where
  "isToolErrorResult r invokeErr \<longleftrightarrow> invokeErr \<noteq> None \<or> trim_space (r_Error r) \<noteq> ''''"

definition TriggerBashError :: "string \<Rightarrow> cascade \<Rightarrow> cascade" where
  "TriggerBashError desc sc = sc\<lparr>hasErrored := True, erroredToolDesc := desc\<rparr>"

definition TriggerOnBashError ::
    "string \<Rightarrow> tool_input \<Rightarrow> tool_result \<Rightarrow> go_error option \<Rightarrow> cascade \<Rightarrow> cascade" where
  "TriggerOnBashError toolName inp r invokeErr sc =
    (if toolName \<noteq> ''Bash'' then sc
     else if \<not> isToolErrorResult r invokeErr then sc
     else TriggerBashError (FormatToolDescription toolName inp) sc)"

section \<open>Execution\<close>

text \<open>A batch run one by one: \<open>run\<close> executes one tool in the state of the world.\<close>

fun run_serial :: "(tool_use \<Rightarrow> 'w \<Rightarrow> (tool_result \<times> go_error option) \<times> 'w) \<Rightarrow> tool_use list \<Rightarrow> 'w
    \<Rightarrow> outcome list \<times> 'w" where
  "run_serial run [] w = ([], w)"
| "run_serial run (t # ts) w =
    (let ((r, e), w1) = run t w; (os, w2) = run_serial run ts w1
     in (\<lparr>o_toolUse = t, o_result = r, o_err = e\<rparr> # os, w2))"

text \<open>A parallel batch, given what each tool returns and the order in which they finish: the
  cascade is triggered in that order, and cancelled tools get the synthetic error at the end.\<close>

definition parallel_outcomes :: "outcome list \<Rightarrow> nat list \<Rightarrow> outcome list" where
  "parallel_outcomes raws order =
    (let sc = fold (\<lambda>i. TriggerOnBashError (tu_Name (o_toolUse (raws ! i))) (tu_Input (o_toolUse (raws ! i)))
                (o_result (raws ! i)) (o_err (raws ! i))) order NewSiblingCascade
     in if hasErrored sc
        then map (\<lambda>oc. if (case o_err oc of Some e \<Rightarrow> is_canceled e | None \<Rightarrow> False)
               then oc\<lparr>o_result := error_result (FormatCascadeErrorMessage (erroredToolDesc sc)), o_err := None\<rparr>
               else oc) raws
        else raws)"

text \<open>\<open>par\<close> runs a parallel batch: it returns the raw results and the order of completion.\<close>

definition executeToolBatch ::
    "(tool_use \<Rightarrow> 'w \<Rightarrow> (tool_result \<times> go_error option) \<times> 'w)
     \<Rightarrow> (tool_use list \<Rightarrow> 'w \<Rightarrow> (tool_result \<times> go_error option) list \<times> nat list \<times> 'w)
     \<Rightarrow> tool_batch \<Rightarrow> 'w \<Rightarrow> outcome list \<times> 'w" where
  "executeToolBatch run par b w =
    (if b_toolUses b = [] then ([], w)
     else if \<not> b_safe b \<or> length (b_toolUses b) = 1 then run_serial run (b_toolUses b) w
     else let (rs, order, w1) = par (b_toolUses b) w;
              raws = map (\<lambda>(t, r, e). \<lparr>o_toolUse = t, o_result = r, o_err = e\<rparr>) (zip (b_toolUses b) rs)
          in (parallel_outcomes raws order, w1))"

definition outcome_parts :: "outcome \<Rightarrow> content_part list" where
  "outcome_parts oc =
    (let ctx = toolAdditionalContext (o_result oc);
         (content, isError) = renderToolResult (o_result oc) (o_err oc)
     in (if ctx \<noteq> '''' then [MetaTextPart ctx] else [])
        @ [ToolResultPart (tu_ID (o_toolUse oc)) content isError]
        @ (if isError then []
           else (case toolResultImage (o_result oc) of Some b \<Rightarrow> [ImagePart (fst b) (snd b)] | None \<Rightarrow> [])
                @ map (\<lambda>b. ImagePart (fst b) (snd b)) (toolResultImages (o_result oc))
                @ (case toolResultDocument (o_result oc) of Some b \<Rightarrow> [DocumentPart (fst b) (snd b)] | None \<Rightarrow> [])))"

record tool_finished =
  f_ID :: string
  f_Name :: string
  f_Output :: string
  f_AdditionalContext :: string
  f_IsError :: bool

definition outcome_event :: "outcome \<Rightarrow> tool_finished" where
  "outcome_event oc =
    (let (content, isError) = renderToolResult (o_result oc) (o_err oc)
     in \<lparr>f_ID = tu_ID (o_toolUse oc), f_Name = tu_Name (o_toolUse oc), f_Output = content,
         f_AdditionalContext = toolAdditionalContext (o_result oc), f_IsError = isError\<rparr>)"

text \<open>The \<open>ToolCallFinished\<close> events come with the message.\<close>

fun run_batches where
  "run_batches run par [] w = ([], w)"
| "run_batches run par (b # bs) w =
    (let (os, w1) = executeToolBatch run par b w; (os', w2) = run_batches run par bs w1 in (os @ os', w2))"

definition executeToolUses ::
    "(string \<Rightarrow> bool) \<Rightarrow> (tool_use \<Rightarrow> 'w \<Rightarrow> (tool_result \<times> go_error option) \<times> 'w)
     \<Rightarrow> (tool_use list \<Rightarrow> 'w \<Rightarrow> (tool_result \<times> go_error option) list \<times> nat list \<times> 'w)
     \<Rightarrow> tool_use list \<Rightarrow> 'w \<Rightarrow> (message \<times> tool_finished list) \<times> 'w" where
  "executeToolUses safeName run par toolUses w =
    (let (os, w1) = run_batches run par (partitionToolUses safeName toolUses) w
     in ((mk_message RoleUser (concat (map outcome_parts os)), map outcome_event os), w1))"

section \<open>Lemmas\<close>

definition batch_ok :: "(string \<Rightarrow> bool) \<Rightarrow> tool_batch \<Rightarrow> bool" where
  "batch_ok safeName b \<longleftrightarrow> b_toolUses b \<noteq> [] \<and> (\<forall>t\<in>set (b_toolUses b). safeName (tu_Name t) = b_safe b)
     \<and> (\<not> b_safe b \<longrightarrow> length (b_toolUses b) = 1)"

definition alternating :: "tool_batch list \<Rightarrow> bool" where
  "alternating bs \<longleftrightarrow> (\<forall>i. Suc i < length bs \<longrightarrow> \<not> (b_safe (bs ! i) \<and> b_safe (bs ! Suc i)))"

lemma alternating_snoc:
  "alternating (bs @ [b]) \<longleftrightarrow> alternating bs \<and> (bs \<noteq> [] \<longrightarrow> \<not> (b_safe (last bs) \<and> b_safe b))"
proof (cases bs rule: rev_cases)
  case (snoc cs c)
  have "alternating (cs @ [c, b]) \<longleftrightarrow> alternating (cs @ [c]) \<and> \<not> (b_safe c \<and> b_safe b)"
  proof
    assume a: "alternating (cs @ [c, b])"
    have "alternating (cs @ [c])"
      unfolding alternating_def
    proof (intro allI impI)
      fix i
      assume "Suc i < length (cs @ [c])"
      then have "(cs @ [c]) ! i = (cs @ [c, b]) ! i" "(cs @ [c]) ! Suc i = (cs @ [c, b]) ! Suc i"
          "Suc i < length (cs @ [c, b])"
        by (auto simp: nth_append less_Suc_eq)
      with a show "\<not> (b_safe ((cs @ [c]) ! i) \<and> b_safe ((cs @ [c]) ! Suc i))"
        unfolding alternating_def by metis
    qed
    moreover have "\<not> (b_safe ((cs @ [c, b]) ! length cs) \<and> b_safe ((cs @ [c, b]) ! Suc (length cs)))"
      using a unfolding alternating_def by (metis length_append length_Cons lessI list.size(3) add_Suc_right Nat.add_0_right less_add_Suc1 Suc_less_eq)
    ultimately show "alternating (cs @ [c]) \<and> \<not> (b_safe c \<and> b_safe b)" by (simp add: nth_append)
  next
    assume a: "alternating (cs @ [c]) \<and> \<not> (b_safe c \<and> b_safe b)"
    show "alternating (cs @ [c, b])"
      unfolding alternating_def
    proof (intro allI impI)
      fix i
      assume i: "Suc i < length (cs @ [c, b])"
      show "\<not> (b_safe ((cs @ [c, b]) ! i) \<and> b_safe ((cs @ [c, b]) ! Suc i))"
      proof (cases "i = length cs")
        case True
        with a show ?thesis by (simp add: nth_append)
      next
        case False
        with i have l: "Suc i < length (cs @ [c])" by simp
        then have "(cs @ [c]) ! i = (cs @ [c, b]) ! i" "(cs @ [c]) ! Suc i = (cs @ [c, b]) ! Suc i"
          by (auto simp: nth_append less_Suc_eq)
        with a l show ?thesis unfolding alternating_def by metis
      qed
    qed
  qed
  with snoc show ?thesis by simp
qed (simp add: alternating_def)

lemma partition_from_ok:
  assumes "\<forall>b\<in>set bs. batch_ok safeName b" and "alternating bs"
  shows "concat (map b_toolUses (partition_from safeName bs ts)) = concat (map b_toolUses bs) @ ts
    \<and> (\<forall>b\<in>set (partition_from safeName bs ts). batch_ok safeName b)
    \<and> alternating (partition_from safeName bs ts)"
  using assms
proof (induction ts arbitrary: bs)
  case (Cons t ts)
  show ?case
  proof (cases "safeName (tu_Name t) \<and> bs \<noteq> [] \<and> b_safe (last bs)")
    case True
    then obtain cs c where bs: "bs = cs @ [c]" by (cases bs rule: rev_cases) auto
    let ?bs = "cs @ [c\<lparr>b_toolUses := b_toolUses c @ [t]\<rparr>]"
    have "\<forall>b\<in>set ?bs. batch_ok safeName b" and "alternating ?bs"
      using Cons.prems True bs by (auto simp: batch_ok_def alternating_snoc)
    from Cons.IH [OF this] True bs show ?thesis by (simp add: Let_def)
  next
    case False
    let ?bs = "bs @ [\<lparr>b_safe = safeName (tu_Name t), b_toolUses = [t]\<rparr>]"
    have "\<forall>b\<in>set ?bs. batch_ok safeName b" and "alternating ?bs"
      using Cons.prems False by (auto simp: batch_ok_def alternating_snoc)
    from Cons.IH [OF this] False show ?thesis by (auto simp: Let_def)
  qed
qed simp

text \<open>
  Partitioning keeps every tool call in order; a batch is either one exclusive call or a
  maximal run of calls that may run in parallel, and never mixes the two.
\<close>

theorem partitionToolUses_correct:
  "concat (map b_toolUses (partitionToolUses safeName ts)) = ts
   \<and> list_all (batch_ok safeName) (partitionToolUses safeName ts)
   \<and> alternating (partitionToolUses safeName ts)"
  using partition_from_ok [of "[]" safeName ts]
  by (simp add: partitionToolUses_def alternating_def list_all_iff)

definition is_result :: "content_part \<Rightarrow> bool" where
  "is_result p \<longleftrightarrow> p_Type p = ''tool_result''"

lemma outcome_parts_result:
  "map p_ToolUseID (filter is_result (outcome_parts oc)) = [tu_ID (o_toolUse oc)]"
proof -
  have "filter is_result (map (\<lambda>b. ImagePart (fst b) (snd b)) bs) = []" for bs
    by (simp add: filter_empty_conv is_result_def part_defs)
  then show ?thesis
    by (auto simp: outcome_parts_def Let_def is_result_def part_defs split: prod.splits option.splits)
qed

lemma outcome_parts_results:
  "map p_ToolUseID (filter is_result (concat (map outcome_parts os))) = map (\<lambda>oc. tu_ID (o_toolUse oc)) os"
  by (induction os) (simp_all add: outcome_parts_result)

lemma run_serial_uses: "map o_toolUse (fst (run_serial run ts w)) = ts"
  by (induction ts arbitrary: w) (auto simp: Let_def split: prod.splits, metis fst_conv)

lemma parallel_uses: "map o_toolUse (parallel_outcomes raws order) = map o_toolUse raws"
  by (simp add: parallel_outcomes_def Let_def)

lemma executeToolBatch_uses:
  assumes "\<And>ts w. length (fst (par ts w)) = length ts"
  shows "map o_toolUse (fst (executeToolBatch run par b w)) = b_toolUses b"
proof -
  have z: "map o_toolUse (map (\<lambda>(t, r, e). \<lparr>o_toolUse = t, o_result = r, o_err = e\<rparr>) (zip ts rs)) = ts"
    if "length rs = length ts" for ts and rs :: "(tool_result \<times> go_error option) list"
    using that by (induction ts rs rule: list_induct2') auto
  show ?thesis
    using assms [of "b_toolUses b" w]
    by (auto simp: executeToolBatch_def run_serial_uses parallel_uses z Let_def
        simp del: list.map_comp map_map split: prod.splits)
qed

lemma run_batches_uses:
  assumes "\<And>ts w. length (fst (par ts w)) = length ts"
  shows "map o_toolUse (fst (run_batches run par bs w)) = concat (map b_toolUses bs)"
  using executeToolBatch_uses [of par, OF assms]
  by (induction bs arbitrary: w) (auto simp: Let_def split: prod.splits, metis fst_conv)

text \<open>
  However the tools of a turn run, fail, or cancel each other, the message that goes back to
  the model is a user message with exactly one tool result per tool call, in the order of the
  calls and under their identifiers; and the finished events name the same calls in that order.
\<close>

theorem executeToolUses_answers_every_call:
  assumes "\<And>ts w. length (fst (par ts w)) = length ts"
    and "executeToolUses safeName run par ts w = ((msg, evs), w')"
  shows "m_Role msg = RoleUser
    \<and> map p_ToolUseID (filter is_result (m_Content msg)) = map tu_ID ts
    \<and> map f_ID evs = map tu_ID ts"
proof -
  obtain os w1 where r: "run_batches run par (partitionToolUses safeName ts) w = (os, w1)"
    by (cases "run_batches run par (partitionToolUses safeName ts) w")
  have "map o_toolUse os = ts"
    using run_batches_uses [of par run "partitionToolUses safeName ts" w, OF assms(1)] r
      partitionToolUses_correct [of safeName ts] by simp
  then have "map (\<lambda>oc. tu_ID (o_toolUse oc)) os = map tu_ID ts"
    by (simp add: o_def flip: \<open>map o_toolUse os = ts\<close>)
  moreover have "map f_ID (map outcome_event os) = map (\<lambda>oc. tu_ID (o_toolUse oc)) os"
    by (auto simp: outcome_event_def Let_def split: prod.split)
  ultimately show ?thesis
    using assms(2) r by (auto simp: executeToolUses_def outcome_parts_results)
qed

definition demo_use :: "string \<Rightarrow> string \<Rightarrow> tool_use" where
  "demo_use i name = \<lparr>tu_ID = i, tu_Name = name, tu_Input = Some [(''command'', JStr ''mkdir /x'')]\<rparr>"

definition demo_par :: "tool_use list \<Rightarrow> nat \<Rightarrow> (tool_result \<times> go_error option) list \<times> nat list \<times> nat" where
  "demo_par ts w = (map (\<lambda>t. (error_result ''boom'', Some CanceledErr)) ts, [0..<length ts], w + 1)"

theorem executeToolUses_answers_every_call_witness:
  "map p_ToolUseID (filter is_result (m_Content (fst (fst (executeToolUses (\<lambda>n. n = ''Read'')
      (\<lambda>t w. ((error_result '''', None), w + 1)) demo_par
      [demo_use ''a'' ''Read'', demo_use ''b'' ''Read'', demo_use ''c'' ''Bash''] 0))))) = [''a'', ''b'', ''c'']"
  (is "map p_ToolUseID (filter is_result (m_Content (fst (fst ?r)))) = _")
proof -
  obtain msg evs w' where r: "?r = ((msg, evs), w')" by (cases ?r) auto
  have "length (fst (demo_par ts w)) = length ts" for ts w by (simp add: demo_par_def)
  from executeToolUses_answers_every_call [OF this r] r show ?thesis by (simp add: demo_use_def)
qed

text \<open>
  A shell call that is itself cancelled triggers the cascade and is then reported as cancelled
  by the cascade, that is, by itself: with a single cancelled \<open>Bash\<close> call in a parallel batch,
  every cancelled call, the triggering one included, gets the synthetic message that blames it.
\<close>

theorem cancelled_bash_blames_itself:
  assumes "i < length raws" and "tu_Name (o_toolUse (raws ! i)) = ''Bash''" and "o_err (raws ! i) = Some CanceledErr"
    and "order = before @ i # after"
    and "\<forall>j\<in>set after. tu_Name (o_toolUse (raws ! j)) \<noteq> ''Bash''"
  shows "o_result (parallel_outcomes raws order ! i)
    = error_result (FormatCascadeErrorMessage (FormatToolDescription ''Bash'' (tu_Input (o_toolUse (raws ! i)))))
    \<and> o_err (parallel_outcomes raws order ! i) = None"
proof -
  let ?step = "\<lambda>i. TriggerOnBashError (tu_Name (o_toolUse (raws ! i))) (tu_Input (o_toolUse (raws ! i)))
                (o_result (raws ! i)) (o_err (raws ! i))"
  have rest: "fold ?step js sc = sc" if "\<forall>j\<in>set js. tu_Name (o_toolUse (raws ! j)) \<noteq> ''Bash''" for js sc
    using that by (induction js arbitrary: sc) (simp_all add: TriggerOnBashError_def)
  define sc where "sc = fold ?step order NewSiblingCascade"
  have "sc = TriggerBashError (FormatToolDescription ''Bash'' (tu_Input (o_toolUse (raws ! i))))
      (fold ?step before NewSiblingCascade)"
    using assms(2,3) rest [OF assms(5)]
    by (simp add: sc_def assms(4)) (simp add: TriggerOnBashError_def isToolErrorResult_def)
  then have "hasErrored sc" "erroredToolDesc sc = FormatToolDescription ''Bash'' (tu_Input (o_toolUse (raws ! i)))"
    by (simp_all add: TriggerBashError_def)
  with assms(1,3) show ?thesis
    unfolding parallel_outcomes_def Let_def sc_def [symmetric] by (simp add: is_canceled_def)
qed

theorem cancelled_bash_blames_itself_witness:
  "o_result (parallel_outcomes
      [\<lparr>o_toolUse = demo_use ''a'' ''Bash'', o_result = error_result '''', o_err = Some CanceledErr\<rparr>] [0] ! 0)
    = error_result ''Cancelled: parallel tool call Bash(mkdir /x) errored''"
  using cancelled_bash_blames_itself
    [of 0 "[\<lparr>o_toolUse = demo_use ''a'' ''Bash'', o_result = error_result '''', o_err = Some CanceledErr\<rparr>]" "[0]" "[]" "[]"]
  by (simp add: demo_use_def FormatToolDescription_def FormatCascadeErrorMessage_def)

end
