(* ===== verification/Streaming_Tools.thy ===== *)
theory Streaming_Tools
  imports Tool_Cycle "HOL-Library.Multiset"
begin

text \<open>
  \<open>StreamingToolExecutor\<close> (\<open>runtime/engine/streaming_tool.go\<close>): tools start while the
  model is still streaming, several goroutines share the executor under its mutex.

  The executor is a record; each region of the code that runs under the mutex is one function on
  it, and \<open>xstep\<close> interleaves them: the caller's \<open>AddTool\<close>, \<open>CollectResults\<close> and
  \<open>Discard\<close>, the completion of a running \<open>runTool\<close> goroutine, and the later call of
  \<open>processQueue\<close> at the end of a \<open>runTool\<close>. What a tool returns is arbitrary. The goroutines
  are the index list \<open>x_threads\<close>, the pending calls of \<open>processQueue\<close> the counter
  \<open>x_notify\<close>; closing a closed channel sets \<open>x_panic\<close>.
\<close>

section \<open>The executor\<close>

datatype streamingToolStatus = Queued | Executing | Completed | Yielded

record tracked_tool =
  st_id :: string
  st_toolUse :: tool_use
  st_status :: streamingToolStatus
  st_isConcurrencySafe :: bool
  st_result :: tool_result
  st_invokeErr :: "go_error option"
  st_events :: "tool_finished list"
  st_done :: bool

record executor =
  x_isConcurrencySafe :: "string \<Rightarrow> bool"
  x_tools :: "tracked_tool list"
  x_discarded :: bool
  x_maxConcurrent :: int
  x_cascade :: cascade
  x_threads :: "nat list"
  x_notify :: nat
  x_panic :: bool

definition NewStreamingToolExecutor :: "(string \<Rightarrow> bool) \<Rightarrow> int \<Rightarrow> executor" where
  "NewStreamingToolExecutor safeName maxConcurrent =
    \<lparr>x_isConcurrencySafe = safeName, x_tools = [], x_discarded = False, x_maxConcurrent = maxConcurrent,
     x_cascade = NewSiblingCascade, x_threads = [], x_notify = 0, x_panic = False\<rparr>"

definition renderToolResultEvents :: "tool_use \<Rightarrow> tool_result \<Rightarrow> go_error option \<Rightarrow> tool_finished list" where
  "renderToolResultEvents u r invokeErr = [outcome_event \<lparr>o_toolUse = u, o_result = r, o_err = invokeErr\<rparr>]"

definition set_tool :: "nat \<Rightarrow> tracked_tool \<Rightarrow> executor \<Rightarrow> executor" where
  "set_tool i t x = x\<lparr>x_tools := (x_tools x)[i := t]\<rparr>"

text \<open>\<open>close(e.tools[i].done)\<close>\<close>

definition close_done :: "nat \<Rightarrow> executor \<Rightarrow> executor" where
  "close_done i x =
    (if st_done (x_tools x ! i) then x\<lparr>x_panic := True\<rparr>
     else set_tool i ((x_tools x ! i)\<lparr>st_done := True\<rparr>) x)"

definition executing :: "executor \<Rightarrow> tracked_tool list" where
  "executing x = filter (\<lambda>t. st_status t = Executing) (x_tools x)"

definition canExecuteTool :: "executor \<Rightarrow> bool \<Rightarrow> bool" where
  "canExecuteTool x safe \<longleftrightarrow>
    (if executing x = [] then True
     else if x_maxConcurrent x > 0 \<and> int (length (executing x)) \<ge> x_maxConcurrent x then False
     else safe \<and> list_all st_isConcurrencySafe (executing x))"

text \<open>A queued tool after the cascade was triggered.\<close>

definition cancel_queued :: "nat \<Rightarrow> executor \<Rightarrow> executor" where
  "cancel_queued i x =
    (let t = x_tools x ! i;
         r = error_result (FormatCascadeErrorMessage (erroredToolDesc (x_cascade x)))
     in close_done i (set_tool i (t\<lparr>st_result := r, st_events := renderToolResultEvents (st_toolUse t) r None,
          st_status := Completed\<rparr>) x))"

definition start_tool :: "nat \<Rightarrow> executor \<Rightarrow> executor" where
  "start_tool i x = set_tool i ((x_tools x ! i)\<lparr>st_status := Executing\<rparr>) (x\<lparr>x_threads := x_threads x @ [i]\<rparr>)"

fun process_loop :: "nat list \<Rightarrow> executor \<Rightarrow> executor" where
  "process_loop [] x = x"
| "process_loop (i # is) x =
    (let t = x_tools x ! i in
     if st_status t \<noteq> Queued then process_loop is x
     else if hasErrored (x_cascade x) then process_loop is (cancel_queued i x)
     else if canExecuteTool x (st_isConcurrencySafe t) then process_loop is (start_tool i x)
     else if \<not> st_isConcurrencySafe t then x
     else process_loop is x)"

definition processQueue :: "executor \<Rightarrow> executor" where
  "processQueue x = process_loop [0..<length (x_tools x)] x"

definition AddTool :: "tool_use \<Rightarrow> executor \<Rightarrow> executor" where
  "AddTool u x =
    (if x_discarded x then x
     else processQueue (x\<lparr>x_tools := x_tools x @
       [\<lparr>st_id = tu_ID u, st_toolUse = u, st_status = Queued, st_isConcurrencySafe = x_isConcurrencySafe x (tu_Name u),
         st_result = \<lparr>r_Output = '''', r_Error = '''', r_Meta = []\<rparr>, st_invokeErr = None, st_events = [],
         st_done = False\<rparr>]\<rparr>))"

definition Discard :: "executor \<Rightarrow> executor" where
  "Discard x = x\<lparr>x_discarded := True\<rparr>"

fun collect_loop :: "tracked_tool list \<Rightarrow> tool_finished list \<times> tracked_tool list" where
  "collect_loop [] = ([], [])"
| "collect_loop (t # ts) =
    (let (evs, t') = (if st_status t = Completed then (st_events t, t\<lparr>st_events := [], st_status := Yielded\<rparr>)
                      else ([], t))
     in if st_status t' = Executing \<and> \<not> st_isConcurrencySafe t' then (evs, t' # ts)
        else let (evs', ts') = collect_loop ts in (evs @ evs', t' # ts'))"

definition CollectResults :: "executor \<Rightarrow> tool_finished list \<times> executor" where
  "CollectResults x =
    (if x_discarded x then ([], x)
     else let (evs, ts) = collect_loop (x_tools x) in (evs, x\<lparr>x_tools := ts\<rparr>))"

text \<open>\<open>AwaitAll\<close>: \<open>None\<close> while it still waits; \<open>tookCtx\<close> when a select took the context's branch.\<close>

definition AwaitAll :: "bool \<Rightarrow> executor \<Rightarrow> (tool_finished list \<times> executor) option" where
  "AwaitAll tookCtx x =
    (if x_discarded x then Some ([], x)
     else if tookCtx then Some ([], x)
     else if list_all st_done (x_tools x) then Some (CollectResults x)
     else None)"

definition ToolUseCount :: "executor \<Rightarrow> nat" where
  "ToolUseCount x = length (x_tools x)"

text \<open>\<open>runTool\<close> after the tool has returned: the region under the mutex and the closing of the
  channel. The call of \<open>processQueue\<close> that follows is left pending.\<close>

definition cascade_result :: "cascade \<Rightarrow> tool_result \<Rightarrow> go_error option \<Rightarrow> tool_result \<times> go_error option" where
  "cascade_result sc r invokeErr =
    (if hasErrored sc \<and> (case invokeErr of Some e \<Rightarrow> is_canceled e | None \<Rightarrow> False)
     then (error_result (FormatCascadeErrorMessage (erroredToolDesc sc)), None)
     else (r, invokeErr))"

definition runTool_finish :: "nat \<Rightarrow> tool_result \<Rightarrow> go_error option \<Rightarrow> executor \<Rightarrow> executor" where
  "runTool_finish i r invokeErr x0 =
    (let x = x0\<lparr>x_threads := remove1 i (x_threads x0)\<rparr>;
         t = x_tools x ! i
     in if x_discarded x then close_done i x
        else
          let sc = TriggerOnBashError (tu_Name (st_toolUse t)) (tu_Input (st_toolUse t)) r invokeErr (x_cascade x);
              (r', e') = cascade_result sc r invokeErr
          in close_done i (set_tool i (t\<lparr>st_result := r', st_invokeErr := e',
               st_events := renderToolResultEvents (st_toolUse t) r' e', st_status := Completed\<rparr>)
               (x\<lparr>x_cascade := sc, x_notify := x_notify x + 1\<rparr>)))"

definition runTool_notify :: "executor \<Rightarrow> executor" where
  "runTool_notify x = processQueue (x\<lparr>x_notify := x_notify x - 1\<rparr>)"

definition outcome_of :: "tracked_tool \<Rightarrow> outcome" where
  "outcome_of t = \<lparr>o_toolUse = st_toolUse t, o_result = st_result t, o_err = st_invokeErr t\<rparr>"

definition BuildToolResultMessage :: "executor \<Rightarrow> message" where
  "BuildToolResultMessage x = mk_message RoleUser
    (concat (map (\<lambda>t. if st_status t \<noteq> Completed \<and> st_status t \<noteq> Yielded then [] else outcome_parts (outcome_of t))
      (x_tools x)))"

section \<open>Interleavings\<close>

text \<open>The state is the executor with the events its callers have forwarded so far.\<close>

inductive xstep :: "executor \<times> tool_finished list \<Rightarrow> executor \<times> tool_finished list \<Rightarrow> bool" where
  add: "xstep (x, out) (AddTool u x, out)"
| finish: "i \<in> set (x_threads x) \<Longrightarrow> xstep (x, out) (runTool_finish i r e x, out)"
| notify: "0 < x_notify x \<Longrightarrow> xstep (x, out) (runTool_notify x, out)"
| collect: "CollectResults x = (evs, x') \<Longrightarrow> xstep (x, out) (x', out @ evs)"
| discard: "xstep (x, out) (Discard x, out)"

inductive_cases xstepE: "xstep (x, out) s"

text \<open>The steps the executor takes by itself, once its callers only wait.\<close>

inductive internal :: "executor \<Rightarrow> executor \<Rightarrow> bool" where
  int_finish: "i \<in> set (x_threads x) \<Longrightarrow> internal x (runTool_finish i r e x)"
| int_notify: "0 < x_notify x \<Longrightarrow> internal x (runTool_notify x)"

inductive_simps internal_iff: "internal x y"

section \<open>What the mutex protects\<close>

abbreviation stat :: "executor \<Rightarrow> nat \<Rightarrow> streamingToolStatus" where
  "stat x i \<equiv> st_status (x_tools x ! i)"

abbreviation safe_at :: "executor \<Rightarrow> nat \<Rightarrow> bool" where
  "safe_at x i \<equiv> st_isConcurrencySafe (x_tools x ! i)"

definition finished :: "streamingToolStatus \<Rightarrow> bool" where
  "finished s \<longleftrightarrow> s = Completed \<or> s = Yielded"

text \<open>An exclusive tool is a barrier: while it waits nothing behind it starts, and while it runs
  everything before it has finished and everything behind it waits.\<close>

definition barrier :: "executor \<Rightarrow> bool" where
  "barrier x \<longleftrightarrow> (\<forall>i<length (x_tools x). \<not> safe_at x i \<longrightarrow>
     (stat x i = Queued \<longrightarrow> (\<forall>j<length (x_tools x). i < j \<longrightarrow> stat x j = Queued))
     \<and> (stat x i = Executing \<longrightarrow> (\<forall>j<i. finished (stat x j))
          \<and> (\<forall>j<length (x_tools x). i < j \<longrightarrow> stat x j = Queued) \<and> \<not> hasErrored (x_cascade x)))"

definition capacity :: "executor \<Rightarrow> bool" where
  "capacity x \<longleftrightarrow> (0 < x_maxConcurrent x \<longrightarrow> int (length (executing x)) \<le> x_maxConcurrent x)"

definition progress :: "executor \<Rightarrow> bool" where
  "progress x \<longleftrightarrow> ((\<exists>i<length (x_tools x). stat x i = Queued)
     \<longrightarrow> (\<exists>i<length (x_tools x). stat x i = Executing) \<or> 0 < x_notify x)"

definition threads_ok :: "executor \<Rightarrow> bool" where
  "threads_ok x \<longleftrightarrow> distinct (x_threads x) \<and> \<not> x_panic x
     \<and> (\<forall>i\<in>set (x_threads x). i < length (x_tools x) \<and> stat x i = Executing \<and> \<not> st_done (x_tools x ! i))
     \<and> (\<forall>i<length (x_tools x).
          (\<not> x_discarded x \<and> stat x i = Executing \<longrightarrow> i \<in> set (x_threads x))
        \<and> (stat x i = Queued \<longrightarrow> \<not> st_done (x_tools x ! i))
        \<and> (finished (stat x i) \<longrightarrow> st_done (x_tools x ! i)))"

text \<open>A finished tool's event waits in the executor until it is forwarded, once.\<close>

definition result_ok :: "tracked_tool \<Rightarrow> bool" where
  "result_ok t \<longleftrightarrow> st_id t = tu_ID (st_toolUse t)
     \<and> st_events t = (if st_status t = Completed then [outcome_event (outcome_of t)] else [])
     \<and> (st_status t = Queued \<longrightarrow> st_invokeErr t = None)"

definition yielded_events :: "tracked_tool list \<Rightarrow> tool_finished list" where
  "yielded_events ts = map (outcome_event \<circ> outcome_of) (filter (\<lambda>t. st_status t = Yielded) ts)"

definition exec_inv :: "executor \<Rightarrow> bool" where
  "exec_inv x \<longleftrightarrow> barrier x \<and> capacity x \<and> progress x \<and> threads_ok x \<and> list_all result_ok (x_tools x)"

definition sent_inv :: "executor \<times> tool_finished list \<Rightarrow> bool" where
  "sent_inv s \<longleftrightarrow> exec_inv (fst s) \<and> mset (snd s) = mset (yielded_events (x_tools (fst s)))"

section \<open>Lemmas on one step\<close>

lemma set_tool_simps [simp]:
  "x_tools (set_tool i t x) = (x_tools x)[i := t]"
  "x_threads (set_tool i t x) = x_threads x"
  "x_notify (set_tool i t x) = x_notify x"
  "x_panic (set_tool i t x) = x_panic x"
  "x_discarded (set_tool i t x) = x_discarded x"
  "x_cascade (set_tool i t x) = x_cascade x"
  "x_maxConcurrent (set_tool i t x) = x_maxConcurrent x"
  "x_isConcurrencySafe (set_tool i t x) = x_isConcurrencySafe x"
  by (simp_all add: set_tool_def)

lemma set_tool_twice [simp]: "set_tool i t (set_tool i u x) = set_tool i t x"
  by (simp add: set_tool_def)

lemma executing_Nil: "executing x = [] \<longleftrightarrow> (\<forall>j<length (x_tools x). stat x j \<noteq> Executing)"
  by (auto simp: executing_def filter_empty_conv all_set_conv_all_nth)

lemma executing_safe:
  "list_all st_isConcurrencySafe (executing x) \<longleftrightarrow> (\<forall>j<length (x_tools x). stat x j = Executing \<longrightarrow> safe_at x j)"
  by (auto simp: executing_def list_all_iff in_set_conv_nth)

lemma canExecuteTool_cases:
  assumes "canExecuteTool x s"
  shows "executing x = [] \<or> s \<and> (\<forall>j<length (x_tools x). stat x j = Executing \<longrightarrow> safe_at x j)"
  using assms by (auto simp: canExecuteTool_def executing_safe split: if_splits)

lemma filter_update_length:
  assumes "i < length xs"
  shows "length (filter P (xs[i := y])) + (if P (xs ! i) then 1 else 0)
    = length (filter P xs) + (if P y then 1 else 0)"
proof -
  have "length (filter P xs) = length (filter P (take i xs @ xs ! i # drop (Suc i) xs))"
    using id_take_nth_drop [OF assms] by simp
  moreover have "length (filter P (xs[i := y])) = length (filter P (take i xs @ y # drop (Suc i) xs))"
    using upd_conv_take_nth_drop [OF assms] by simp
  ultimately show ?thesis by simp
qed

lemma capacity_start:
  assumes "i < length (x_tools x)" and "stat x i = Queued" and "canExecuteTool x s" and "capacity x"
  shows "capacity (start_tool i x)"
proof -
  have "length (executing (start_tool i x)) = Suc (length (executing x))"
    using filter_update_length [OF assms(1), of "\<lambda>t. st_status t = Executing" "(x_tools x ! i)\<lparr>st_status := Executing\<rparr>"]
      assms(2) by (simp add: executing_def start_tool_def)
  then show ?thesis
    using assms(3,4) by (auto simp: capacity_def canExecuteTool_def start_tool_def split: if_splits)
qed

text \<open>Leaving the state \<open>Executing\<close>, or never entering it, cannot exceed the capacity.\<close>

lemma capacity_set:
  assumes "i < length (x_tools x)" and "st_status t \<noteq> Executing" and "capacity x"
    and "x_tools y = (x_tools x)[i := t]" and "x_maxConcurrent y = x_maxConcurrent x"
  shows "capacity y"
  using filter_update_length [OF assms(1), of "\<lambda>t. st_status t = Executing" t] assms(2-5)
  by (auto simp: capacity_def executing_def split: if_splits)

lemma cancel_queued_eq:
  assumes "threads_ok x" and "i < length (x_tools x)" and "stat x i = Queued"
  shows "cancel_queued i x = set_tool i ((x_tools x ! i)
     \<lparr>st_result := error_result (FormatCascadeErrorMessage (erroredToolDesc (x_cascade x))),
      st_events := renderToolResultEvents (st_toolUse (x_tools x ! i))
        (error_result (FormatCascadeErrorMessage (erroredToolDesc (x_cascade x)))) None,
      st_status := Completed, st_done := True\<rparr>) x"
proof -
  have "\<not> st_done (x_tools x ! i)" using assms unfolding threads_ok_def by blast
  with assms(2) show ?thesis by (simp add: cancel_queued_def close_done_def Let_def)
qed

text \<open>The barrier as a property of statuses, so that an update of one tool is an update of a function.\<close>

definition barrier_on :: "nat \<Rightarrow> (nat \<Rightarrow> bool) \<Rightarrow> bool \<Rightarrow> (nat \<Rightarrow> streamingToolStatus) \<Rightarrow> bool" where
  "barrier_on n safe err s \<longleftrightarrow> (\<forall>i<n. \<not> safe i \<longrightarrow>
     (s i = Queued \<longrightarrow> (\<forall>j<n. i < j \<longrightarrow> s j = Queued))
     \<and> (s i = Executing \<longrightarrow> (\<forall>j<i. finished (s j)) \<and> (\<forall>j<n. i < j \<longrightarrow> s j = Queued) \<and> \<not> err))"

lemma barrier_iff:
  "barrier x \<longleftrightarrow> barrier_on (length (x_tools x)) (safe_at x) (hasErrored (x_cascade x)) (stat x)"
  by (simp add: barrier_def barrier_on_def)

lemma barrier_set:
  assumes "i < length (x_tools x)" and "x_tools y = (x_tools x)[i := t]"
    and "st_isConcurrencySafe t = safe_at x i"
  shows "barrier y \<longleftrightarrow>
    barrier_on (length (x_tools x)) (safe_at x) (hasErrored (x_cascade y)) ((stat x)(i := st_status t))"
proof -
  have "safe_at y = safe_at x" "stat y = (stat x)(i := st_status t)"
    using assms by (auto simp: fun_eq_iff nth_list_update)
  with assms(2) show ?thesis by (simp add: barrier_iff)
qed

lemma finished_simps [simp]:
  "finished Completed" "finished Yielded" "\<not> finished Queued" "\<not> finished Executing"
  by (simp_all add: finished_def)

lemma barrier_on_cancel:
  assumes "barrier_on n safe True s" and "\<forall>j<i. s j \<noteq> Queued" and "s i = Queued"
  shows "barrier_on n safe True (s(i := Completed))"
  using assms unfolding barrier_on_def by (auto simp: not_less_iff_gr_or_eq)

lemma barrier_onI:
  assumes "\<And>j k. j < n \<Longrightarrow> \<not> safe j \<Longrightarrow> s j = Queued \<or> s j = Executing \<Longrightarrow> j < k \<Longrightarrow> k < n \<Longrightarrow> s k = Queued"
    and "\<And>j k. j < n \<Longrightarrow> \<not> safe j \<Longrightarrow> s j = Executing \<Longrightarrow> k < j \<Longrightarrow> finished (s k)"
    and "\<And>j. j < n \<Longrightarrow> \<not> safe j \<Longrightarrow> s j = Executing \<Longrightarrow> \<not> err"
  shows "barrier_on n safe err s"
  using assms unfolding barrier_on_def by blast

lemma barrier_onD:
  assumes "barrier_on n safe err s" and "j < n" and "\<not> safe j"
  shows "s j = Queued \<or> s j = Executing \<Longrightarrow> j < k \<Longrightarrow> k < n \<Longrightarrow> s k = Queued"
    and "s j = Executing \<Longrightarrow> k < j \<Longrightarrow> finished (s k)"
    and "s j = Executing \<Longrightarrow> \<not> err"
  using assms unfolding barrier_on_def by blast+

text \<open>While an exclusive tool runs, no other tool does.\<close>

lemma barrier_alone:
  assumes "barrier_on n safe err s" and "j < n" and "\<not> safe j" and "s j = Executing"
    and "i < n" and "s i = Executing"
  shows "i = j"
proof (cases i j rule: linorder_cases)
  case less
  from barrier_onD(2) [OF assms(1-4) less] assms(6) show ?thesis by simp
next
  case greater
  from barrier_onD(1) [OF assms(1-3) _ greater assms(5)] assms(4,6) show ?thesis by simp
qed

lemma barrier_on_finish:
  assumes b: "barrier_on n safe old s" and i: "s i = Executing" "i < n"
  shows "barrier_on n safe err (s(i := Completed))"
proof (rule barrier_onI)
  have no: "\<not> (j < n \<and> \<not> safe j \<and> (s(i := Completed)) j = Executing)" for j
    using barrier_alone [OF b _ _ _ i(2,1), of j] by (cases "j = i") (simp_all, metis)
  show "(s(i := Completed)) k = Queued"
    if "j < n" "\<not> safe j" "(s(i := Completed)) j = Queued \<or> (s(i := Completed)) j = Executing" "j < k" "k < n" for j k
    using that no [of j] barrier_onD(1) [OF b that(1,2), of k] barrier_onD(1) [OF b that(1,2), of i] i
    by (auto split: if_splits)
  show "finished ((s(i := Completed)) k)" if "j < n" "\<not> safe j" "(s(i := Completed)) j = Executing" for j k
    using that no [of j] by blast
  show "\<not> err" if "j < n" "\<not> safe j" "(s(i := Completed)) j = Executing" for j
    using that no [of j] by blast
qed

lemma barrier_on_start:
  assumes b: "barrier_on n safe False s"
    and q: "\<And>j. j < i \<Longrightarrow> s j = Queued \<Longrightarrow> safe j \<and> (\<exists>k<n. s k = Executing)"
    and i: "s i = Queued" "i < n"
    and can: "(\<forall>j<n. s j \<noteq> Executing) \<or> safe i \<and> (\<forall>j<n. s j = Executing \<longrightarrow> safe j)"
  shows "barrier_on n safe False (s(i := Executing))"
proof (rule barrier_onI)
  let ?s = "s(i := Executing)"
  have only: "j = i" if "j < n" "\<not> safe j" "?s j = Executing" for j
    using that can by (auto split: if_splits)
  show "?s k = Queued" if j: "j < n" "\<not> safe j" "?s j = Queued \<or> ?s j = Executing" "j < k" "k < n" for j k
  proof (cases "j = i")
    case True
    with barrier_onD(1) [OF b j(1,2) _ j(4,5)] i j(4) show ?thesis by simp
  next
    case False
    with only [OF j(1,2)] have "?s j \<noteq> Executing" by blast
    with j(3) False have "s j = Queued" by simp
    have "\<not> j < i"
    proof
      assume "j < i"
      from q [OF this \<open>s j = Queued\<close>] j(2) show False by simp
    qed
    with False have "k \<noteq> i" using j(4) by simp
    with barrier_onD(1) [OF b j(1,2) _ j(4,5)] \<open>s j = Queued\<close> show ?thesis by simp
  qed
  show "finished (?s k)" if j: "j < n" "\<not> safe j" "?s j = Executing" "k < j" for j k
  proof -
    have ji: "j = i" using only [OF j(1-3)] .
    with can j(2) have none: "\<forall>l<n. s l \<noteq> Executing" by blast
    have "k < n" "k < i" "k \<noteq> i" using ji j(1,4) by simp_all
    then have "s k \<noteq> Executing" "s k \<noteq> Queued" using none q by blast+
    with \<open>k \<noteq> i\<close> show ?thesis
      by (cases "s k") simp_all
  qed
qed simp

section \<open>One pass over the queue\<close>

definition queue_inv :: "executor \<Rightarrow> bool" where
  "queue_inv x \<longleftrightarrow> barrier x \<and> capacity x \<and> threads_ok x \<and> list_all result_ok (x_tools x)"

text \<open>What holds of the tools the loop has passed over.\<close>

definition passed :: "nat \<Rightarrow> executor \<Rightarrow> bool" where
  "passed k x \<longleftrightarrow> (\<forall>j<k. stat x j = Queued \<longrightarrow>
     safe_at x j \<and> \<not> hasErrored (x_cascade x) \<and> (\<exists>i<length (x_tools x). stat x i = Executing))"

definition waits_for_running :: "executor \<Rightarrow> bool" where
  "waits_for_running x \<longleftrightarrow> ((\<exists>i<length (x_tools x). stat x i = Queued)
     \<longrightarrow> (\<exists>i<length (x_tools x). stat x i = Executing))"

lemma list_all_update: "list_all P xs \<Longrightarrow> P y \<Longrightarrow> list_all P (xs[i := y])"
  using set_update_subset_insert [of xs i y] by (auto simp: list_all_iff)

lemma list_all_nth: "list_all P xs \<Longrightarrow> i < length xs \<Longrightarrow> P (xs ! i)"
  by (simp add: list_all_length)

lemma filter_update_same:
  assumes "\<not> P (xs ! i)" and "\<not> P y"
  shows "filter P (xs[i := y]) = filter P xs"
proof (cases "i < length xs")
  case True
  have "filter P xs = filter P (take i xs @ xs ! i # drop (Suc i) xs)"
    using id_take_nth_drop [OF True] by simp
  moreover have "filter P (xs[i := y]) = filter P (take i xs @ y # drop (Suc i) xs)"
    using upd_conv_take_nth_drop [OF True] by simp
  ultimately show ?thesis using assms by simp
qed (simp add: list_update_beyond)

lemma threads_okD:
  assumes "threads_ok x"
  shows "distinct (x_threads x)" and "\<not> x_panic x"
    and "i \<in> set (x_threads x) \<Longrightarrow> i < length (x_tools x)"
    and "i \<in> set (x_threads x) \<Longrightarrow> stat x i = Executing"
    and "i \<in> set (x_threads x) \<Longrightarrow> \<not> st_done (x_tools x ! i)"
    and "i < length (x_tools x) \<Longrightarrow> \<not> x_discarded x \<Longrightarrow> stat x i = Executing \<Longrightarrow> i \<in> set (x_threads x)"
    and "i < length (x_tools x) \<Longrightarrow> stat x i = Queued \<Longrightarrow> \<not> st_done (x_tools x ! i)"
    and "i < length (x_tools x) \<Longrightarrow> finished (stat x i) \<Longrightarrow> st_done (x_tools x ! i)"
  using assms unfolding threads_ok_def by blast+

lemma threads_okI:
  assumes "distinct (x_threads x)" and "\<not> x_panic x"
    and "\<And>i. i \<in> set (x_threads x) \<Longrightarrow> i < length (x_tools x) \<and> stat x i = Executing \<and> \<not> st_done (x_tools x ! i)"
    and "\<And>i. i < length (x_tools x) \<Longrightarrow> \<not> x_discarded x \<Longrightarrow> stat x i = Executing \<Longrightarrow> i \<in> set (x_threads x)"
    and "\<And>i. i < length (x_tools x) \<Longrightarrow> stat x i = Queued \<Longrightarrow> \<not> st_done (x_tools x ! i)"
    and "\<And>i. i < length (x_tools x) \<Longrightarrow> finished (stat x i) \<Longrightarrow> st_done (x_tools x ! i)"
  shows "threads_ok x"
  using assms unfolding threads_ok_def by blast

lemma threads_ok_set:
  assumes ok: "threads_ok x" and i: "i < length (x_tools x)" "i \<notin> set (x_threads y)"
    and y: "x_tools y = (x_tools x)[i := t]" "\<not> x_panic y" "x_discarded y = x_discarded x"
    and ths: "set (x_threads y) = set (x_threads x) - {i}" "distinct (x_threads y)"
    and t: "st_status t \<noteq> Queued" "finished (st_status t) \<Longrightarrow> st_done t"
      "\<not> x_discarded x \<Longrightarrow> st_status t \<noteq> Executing"
  shows "threads_ok y"
proof (rule threads_okI)
  fix j
  show "j < length (x_tools y) \<and> stat y j = Executing \<and> \<not> st_done (x_tools y ! j)" if "j \<in> set (x_threads y)"
    using that ths(1) i y threads_okD(3,4,5) [OF ok, of j] by (cases "j = i") simp_all
  show "j \<in> set (x_threads y)" if "j < length (x_tools y)" "\<not> x_discarded y" "stat y j = Executing"
    using that ths(1) i y t threads_okD(6) [OF ok, of j] by (cases "j = i") simp_all
  show "\<not> st_done (x_tools y ! j)" if "j < length (x_tools y)" "stat y j = Queued"
    using that i y t threads_okD(7) [OF ok, of j] by (cases "j = i") simp_all
  show "st_done (x_tools y ! j)" if "j < length (x_tools y)" "finished (stat y j)"
    using that i y t threads_okD(8) [OF ok, of j] by (cases "j = i") simp_all
qed (use y ths in simp_all)

lemma threads_ok_start:
  assumes ok: "threads_ok x" and i: "i < length (x_tools x)" "stat x i = Queued"
  shows "threads_ok (start_tool i x)"
proof (rule threads_okI)
  let ?y = "start_tool i x"
  have no: "i \<notin> set (x_threads x)" using threads_okD(4) [OF ok, of i] i by auto
  have d: "\<not> st_done (x_tools x ! i)" using threads_okD(7) [OF ok] i by blast
  have y: "x_tools ?y = (x_tools x)[i := (x_tools x ! i)\<lparr>st_status := Executing\<rparr>]"
      "x_threads ?y = x_threads x @ [i]" "x_discarded ?y = x_discarded x" "x_panic ?y = x_panic x"
    by (simp_all add: start_tool_def)
  show "distinct (x_threads ?y)" "\<not> x_panic ?y"
    using no y threads_okD(1,2) [OF ok] by simp_all
  fix j
  show "j < length (x_tools ?y) \<and> stat ?y j = Executing \<and> \<not> st_done (x_tools ?y ! j)" if "j \<in> set (x_threads ?y)"
    using that i d y threads_okD(3,4,5) [OF ok, of j] by (cases "j = i") simp_all
  show "j \<in> set (x_threads ?y)" if "j < length (x_tools ?y)" "\<not> x_discarded ?y" "stat ?y j = Executing"
    using that i y threads_okD(6) [OF ok, of j] by (cases "j = i") simp_all
  show "\<not> st_done (x_tools ?y ! j)" if "j < length (x_tools ?y)" "stat ?y j = Queued"
    using that i y threads_okD(7) [OF ok, of j] by (cases "j = i") simp_all
  show "st_done (x_tools ?y ! j)" if "j < length (x_tools ?y)" "finished (stat ?y j)"
    using that i y threads_okD(8) [OF ok, of j] by (cases "j = i") simp_all
qed

lemma barrier_setI:
  assumes "i < length (x_tools x)" and "x_tools y = (x_tools x)[i := x_tools y ! i]"
    and "safe_at y i = safe_at x i" and "stat y i = s"
    and "barrier_on (length (x_tools x)) (safe_at x) (hasErrored (x_cascade y)) ((stat x)(i := s))"
  shows "barrier y"
  using barrier_set [OF assms(1-3)] assms(4,5) by simp

lemma queue_inv_start:
  assumes inv: "queue_inv x" and p: "passed i x" and i: "i < length (x_tools x)" "stat x i = Queued"
    and e: "\<not> hasErrored (x_cascade x)" and can: "canExecuteTool x (safe_at x i)"
  shows "queue_inv (start_tool i x)"
proof -
  let ?y = "start_tool i x"
  have "barrier_on (length (x_tools x)) (safe_at x) False ((stat x)(i := Executing))"
  proof (rule barrier_on_start)
    show "barrier_on (length (x_tools x)) (safe_at x) False (stat x)"
      using inv e by (simp add: queue_inv_def barrier_iff)
    show "(\<forall>j<length (x_tools x). stat x j \<noteq> Executing)
        \<or> safe_at x i \<and> (\<forall>j<length (x_tools x). stat x j = Executing \<longrightarrow> safe_at x j)"
      using canExecuteTool_cases [OF can] by (simp add: executing_Nil)
    show "safe_at x j \<and> (\<exists>k<length (x_tools x). stat x k = Executing)" if "j < i" "stat x j = Queued" for j
      using p that unfolding passed_def by blast
  qed (use i in simp_all)
  then have "barrier ?y"
    using e i by (intro barrier_setI [OF i(1), of ?y]) (simp_all add: start_tool_def)
  moreover have "list_all result_ok (x_tools ?y)"
    using inv i list_all_nth [of result_ok "x_tools x" i]
    by (simp add: start_tool_def queue_inv_def result_ok_def list_all_update)
  ultimately show ?thesis
    using inv capacity_start [OF i can] threads_ok_start [OF _ i] by (simp add: queue_inv_def)
qed

lemma queue_inv_cancel:
  assumes inv: "queue_inv x" and p: "passed i x" and i: "i < length (x_tools x)" "stat x i = Queued"
    and e: "hasErrored (x_cascade x)"
  shows "queue_inv (cancel_queued i x)"
proof -
  have ok: "threads_ok x" using inv by (simp add: queue_inv_def)
  note c = cancel_queued_eq [OF ok i]
  have "barrier_on (length (x_tools x)) (safe_at x) True ((stat x)(i := Completed))"
    by (rule barrier_on_cancel) (use inv p i e in \<open>auto simp: queue_inv_def barrier_iff passed_def\<close>)
  then have "barrier (cancel_queued i x)"
    using e i by (intro barrier_setI [OF i(1), of "cancel_queued i x"]) (simp_all add: c)
  moreover have "list_all result_ok (x_tools (cancel_queued i x))"
    using inv i list_all_nth [of result_ok "x_tools x" i]
    unfolding c by (simp add: queue_inv_def result_ok_def list_all_update renderToolResultEvents_def outcome_of_def)
  moreover have "threads_ok (cancel_queued i x)"
  proof (rule threads_ok_set [OF ok i(1)])
    have no: "i \<notin> set (x_threads x)" using threads_okD(4) [OF ok, of i] i by auto
    then show "i \<notin> set (x_threads (cancel_queued i x))" by (simp add: c)
    show "set (x_threads (cancel_queued i x)) = set (x_threads x) - {i}" using no by (simp add: c)
    show "x_tools (cancel_queued i x) = (x_tools x)[i := x_tools (cancel_queued i x) ! i]" using i by (simp add: c)
  qed (use threads_okD(1,2) [OF ok] i in \<open>simp_all add: c\<close>)
  moreover have "capacity (cancel_queued i x)"
    by (rule capacity_set [OF i(1)]) (use inv in \<open>auto simp: c queue_inv_def\<close>)
  ultimately show ?thesis by (simp add: queue_inv_def)
qed

lemma cancel_queued_other:
  assumes "threads_ok x" and "i < length (x_tools x)" and "stat x i = Queued"
  shows "length (x_tools (cancel_queued i x)) = length (x_tools x)"
    and "j \<noteq> i \<Longrightarrow> x_tools (cancel_queued i x) ! j = x_tools x ! j"
    and "stat (cancel_queued i x) i = Completed"
    and "x_cascade (cancel_queued i x) = x_cascade x"
    and "x_notify (cancel_queued i x) = x_notify x"
    and "x_discarded (cancel_queued i x) = x_discarded x"
    and "yielded_events (x_tools (cancel_queued i x)) = yielded_events (x_tools x)"
  using assms(2,3) by (simp_all add: cancel_queued_eq [OF assms] yielded_events_def filter_update_same)

lemma start_tool_other:
  assumes "i < length (x_tools x)" and "stat x i = Queued"
  shows "length (x_tools (start_tool i x)) = length (x_tools x)"
    and "j \<noteq> i \<Longrightarrow> x_tools (start_tool i x) ! j = x_tools x ! j"
    and "stat (start_tool i x) i = Executing"
    and "x_cascade (start_tool i x) = x_cascade x"
    and "x_notify (start_tool i x) = x_notify x"
    and "x_discarded (start_tool i x) = x_discarded x"
    and "yielded_events (x_tools (start_tool i x)) = yielded_events (x_tools x)"
  using assms by (simp_all add: start_tool_def yielded_events_def filter_update_same)

lemma passed_skip: "passed k x \<Longrightarrow> stat x k \<noteq> Queued \<Longrightarrow> passed (Suc k) x"
  by (auto simp: passed_def less_Suc_eq)

lemma passed_cancel:
  assumes ok: "threads_ok x" and i: "i < length (x_tools x)" "stat x i = Queued"
    and p: "passed i x" and e: "hasErrored (x_cascade x)"
  shows "passed (Suc i) (cancel_queued i x)"
proof -
  note o = cancel_queued_other [OF ok i]
  have "stat (cancel_queued i x) j \<noteq> Queued" if "j < Suc i" for j
    using that p e o(2,3) by (cases "j = i") (auto simp: passed_def)
  then show ?thesis by (simp add: passed_def)
qed

lemma passed_start:
  assumes i: "i < length (x_tools x)" "stat x i = Queued" and p: "passed i x" and e: "\<not> hasErrored (x_cascade x)"
  shows "passed (Suc i) (start_tool i x)"
  unfolding passed_def
proof (intro allI impI conjI)
  note o = start_tool_other [OF i]
  fix j
  assume j: "j < Suc i" "stat (start_tool i x) j = Queued"
  then have "j < i" "stat x j = Queued" using o(2,3) by (cases "j = i"; simp)+
  then show "safe_at (start_tool i x) j" using p o(2) by (simp add: passed_def)
  show "\<not> hasErrored (x_cascade (start_tool i x))" using e o(4) by simp
  show "\<exists>k<length (x_tools (start_tool i x)). stat (start_tool i x) k = Executing"
    using i(1) o(1,3) by auto
qed

lemma canExecuteTool_False: "\<not> canExecuteTool x s \<Longrightarrow> \<exists>k<length (x_tools x). stat x k = Executing"
  using executing_Nil [of x] by (auto simp: canExecuteTool_def split: if_splits)

lemma passed_blocked:
  assumes "passed i x" and "\<not> canExecuteTool x (safe_at x i)" and "safe_at x i" and "\<not> hasErrored (x_cascade x)"
  shows "passed (Suc i) x"
  using assms canExecuteTool_False [OF assms(2)] by (auto simp: passed_def less_Suc_eq)

lemma passed_all: "passed k x \<Longrightarrow> length (x_tools x) \<le> k \<Longrightarrow> waits_for_running x"
  unfolding passed_def waits_for_running_def by (meson less_le_trans)

text \<open>What is left to run: a queued tool has to be started, to finish and to be followed by a pass
  over the queue; a running one to finish and to be followed.\<close>

definition load :: "executor \<Rightarrow> nat" where
  "load x = 3 * length (filter (\<lambda>t. st_status t = Queued) (x_tools x)) + 2 * length (x_threads x) + x_notify x"

lemma filter_update_less:
  assumes "i < length xs" and "P (xs ! i)" and "\<not> P y"
  shows "length (filter P (xs[i := y])) < length (filter P xs)"
  using filter_update_length [OF assms(1), of P y] assms(2,3) by simp

lemma load_start:
  assumes "i < length (x_tools x)" and "stat x i = Queued"
  shows "load (start_tool i x) < load x"
  using filter_update_length [OF assms(1), of "\<lambda>t. st_status t = Queued" "(x_tools x ! i)\<lparr>st_status := Executing\<rparr>"] assms(2)
  by (simp add: load_def start_tool_def)

lemma load_cancel:
  assumes "threads_ok x" and "i < length (x_tools x)" and "stat x i = Queued"
  shows "load (cancel_queued i x) < load x"
  using assms(2,3) by (simp add: load_def cancel_queued_eq [OF assms] filter_update_less)

lemma process_loop_inv:
  assumes "queue_inv x" and "passed k x"
  shows "queue_inv (process_loop [k..<length (x_tools x)] x)
    \<and> waits_for_running (process_loop [k..<length (x_tools x)] x)
    \<and> yielded_events (x_tools (process_loop [k..<length (x_tools x)] x)) = yielded_events (x_tools x)
    \<and> length (x_tools (process_loop [k..<length (x_tools x)] x)) = length (x_tools x)
    \<and> x_notify (process_loop [k..<length (x_tools x)] x) = x_notify x
    \<and> x_discarded (process_loop [k..<length (x_tools x)] x) = x_discarded x
    \<and> load (process_loop [k..<length (x_tools x)] x) \<le> load x"
  using assms
proof (induction "length (x_tools x) - k" arbitrary: k x)
  case 0
  then show ?case by (simp add: passed_all)
next
  case (Suc d)
  have k: "k < length (x_tools x)" and d: "d = length (x_tools x) - Suc k" using Suc.hyps(2) by simp_all
  have ok: "threads_ok x" using Suc.prems by (simp add: queue_inv_def)
  note loop = upt_conv_Cons [OF k]
  consider (skip) "stat x k \<noteq> Queued" | (cancel) "stat x k = Queued" "hasErrored (x_cascade x)"
    | (start) "stat x k = Queued" "\<not> hasErrored (x_cascade x)" "canExecuteTool x (safe_at x k)"
    | (stop) "stat x k = Queued" "\<not> hasErrored (x_cascade x)" "\<not> canExecuteTool x (safe_at x k)" "\<not> safe_at x k"
    | (blocked) "stat x k = Queued" "\<not> hasErrored (x_cascade x)" "\<not> canExecuteTool x (safe_at x k)" "safe_at x k"
    by blast
  then show ?case
  proof cases
    case skip
    with Suc.hyps(1) [OF d Suc.prems(1) passed_skip [OF Suc.prems(2)]] show ?thesis by (simp add: loop)
  next
    case cancel
    note o = cancel_queued_other [OF ok k cancel(1)]
    have "d = length (x_tools (cancel_queued k x)) - Suc k" using d o(1) by simp
    from Suc.hyps(1) [OF this queue_inv_cancel [OF Suc.prems k cancel] passed_cancel [OF ok k cancel(1) Suc.prems(2) cancel(2)]]
    show ?thesis using cancel o(1,5-7) load_cancel [OF ok k cancel(1)] by (simp add: loop)
  next
    case start
    note o = start_tool_other [OF k start(1)]
    have "d = length (x_tools (start_tool k x)) - Suc k" using d o(1) by simp
    from Suc.hyps(1) [OF this queue_inv_start [OF Suc.prems k start] passed_start [OF k start(1) Suc.prems(2) start(2)]]
    show ?thesis using start o(1,5-7) load_start [OF k start(1)] by (simp add: loop)
  next
    case stop
    with canExecuteTool_False [OF stop(3)] Suc.prems show ?thesis by (simp add: loop waits_for_running_def)
  next
    case blocked
    with Suc.hyps(1) [OF d Suc.prems(1) passed_blocked [OF Suc.prems(2) blocked(3,4,2)]] show ?thesis
      by (simp add: loop)
  qed
qed

lemmas processQueue_inv = process_loop_inv [where k = 0, folded processQueue_def]

section \<open>Every step keeps the invariant\<close>

lemma queue_inv_cong:
  assumes "x_tools y = x_tools x" and "x_cascade y = x_cascade x" and "x_threads y = x_threads x"
    and "x_panic y = x_panic x" and "x_maxConcurrent y = x_maxConcurrent x"
    and "x_discarded x \<Longrightarrow> x_discarded y"
  shows "queue_inv x \<Longrightarrow> queue_inv y"
proof -
  assume inv: "queue_inv x"
  then have ok: "threads_ok x" by (simp add: queue_inv_def)
  have "threads_ok y"
  proof (rule threads_okI)
    show "j \<in> set (x_threads y)" if "j < length (x_tools y)" "\<not> x_discarded y" "stat y j = Executing" for j
      using that threads_okD(6) [OF ok, of j] assms(6) unfolding assms(1,3) by blast
  qed (use threads_okD [OF ok] assms(1,3,4) in simp_all)
  moreover have "barrier y = barrier x" "capacity y = capacity x"
    unfolding barrier_def capacity_def executing_def assms(1,2,5) by (rule refl)+
  ultimately show "queue_inv y" using inv assms(1) by (simp only: queue_inv_def)
qed

lemma exec_inv_queue: "exec_inv x \<longleftrightarrow> queue_inv x \<and> progress x"
  by (auto simp: exec_inv_def queue_inv_def)

lemma progress_waits: "waits_for_running x \<Longrightarrow> progress x"
  unfolding waits_for_running_def progress_def by blast

lemma queue_inv_snoc:
  assumes inv: "queue_inv x" and t: "st_status t = Queued" "\<not> st_done t" "result_ok t"
  shows "queue_inv (x\<lparr>x_tools := x_tools x @ [t]\<rparr>)"
proof -
  let ?y = "x\<lparr>x_tools := x_tools x @ [t]\<rparr>"
  have ok: "threads_ok x" using inv by (simp add: queue_inv_def)
  have old: "x_tools ?y ! j = x_tools x ! j" if "j < length (x_tools x)" for j
    using that by (simp add: nth_append)
  have new: "x_tools ?y ! length (x_tools x) = t" by simp
  have b: "barrier_on (length (x_tools x)) (safe_at x) (hasErrored (x_cascade x)) (stat x)"
    using inv by (simp add: queue_inv_def barrier_iff)
  have "barrier ?y"
    unfolding barrier_iff
  proof (rule barrier_onI)
    fix j k
    assume j: "j < length (x_tools ?y)" "\<not> safe_at ?y j"
    show "stat ?y k = Queued" if "stat ?y j = Queued \<or> stat ?y j = Executing" "j < k" "k < length (x_tools ?y)"
    proof (cases "k = length (x_tools x)")
      case True
      with new t show ?thesis by simp
    next
      case False
      with that j have "k < length (x_tools x)" "j < length (x_tools x)" by simp_all
      with barrier_onD(1) [OF b, of j k] that j old show ?thesis by (simp add: nth_append)
    qed
    have jx: "j < length (x_tools x)" if "stat ?y j = Executing"
      using that j(1) t(1) by (cases "j = length (x_tools x)") simp_all
    show "finished (stat ?y k)" if "stat ?y j = Executing" "k < j"
    proof -
      have jl: "j < length (x_tools x)" using jx that(1) by blast
      with j(2) that(1) have "\<not> safe_at x j" "stat x j = Executing" using old [OF jl] by simp_all
      from barrier_onD(2) [OF b jl this that(2)] old [of k] jl that(2) show ?thesis by simp
    qed
    show "\<not> hasErrored (x_cascade ?y)" if "stat ?y j = Executing"
    proof -
      have jl: "j < length (x_tools x)" using jx that by blast
      with j(2) that have "\<not> safe_at x j" "stat x j = Executing" using old [OF jl] by simp_all
      from barrier_onD(3) [OF b jl this] show ?thesis by simp
    qed
  qed
  moreover have "capacity ?y"
    using inv t by (simp add: queue_inv_def capacity_def executing_def)
  moreover have "threads_ok ?y"
  proof (rule threads_okI)
    fix j
    show "j < length (x_tools ?y) \<and> stat ?y j = Executing \<and> \<not> st_done (x_tools ?y ! j)" if "j \<in> set (x_threads ?y)"
      using that threads_okD(3,4,5) [OF ok, of j] by (simp add: nth_append)
    show "j \<in> set (x_threads ?y)" if "j < length (x_tools ?y)" "\<not> x_discarded ?y" "stat ?y j = Executing"
      using that t threads_okD(6) [OF ok, of j] by (cases "j = length (x_tools x)") (simp_all add: nth_append)
    show "\<not> st_done (x_tools ?y ! j)" if "j < length (x_tools ?y)" "stat ?y j = Queued"
      using that t threads_okD(7) [OF ok, of j] by (cases "j = length (x_tools x)") (simp_all add: nth_append)
    show "st_done (x_tools ?y ! j)" if "j < length (x_tools ?y)" "finished (stat ?y j)"
      using that t threads_okD(8) [OF ok, of j] by (cases "j = length (x_tools x)") (simp_all add: nth_append)
  qed (use threads_okD(1,2) [OF ok] in simp_all)
  ultimately show ?thesis using inv t by (simp add: queue_inv_def)
qed

lemma AddTool_inv:
  assumes "exec_inv x"
  shows "exec_inv (AddTool u x) \<and> yielded_events (x_tools (AddTool u x)) = yielded_events (x_tools x)"
proof (cases "x_discarded x")
  case False
  define t where "t = \<lparr>st_id = tu_ID u, st_toolUse = u, st_status = Queued,
    st_isConcurrencySafe = x_isConcurrencySafe x (tu_Name u),
    st_result = \<lparr>r_Output = '''', r_Error = '''', r_Meta = []\<rparr>, st_invokeErr = None, st_events = [], st_done = False\<rparr>"
  let ?y = "x\<lparr>x_tools := x_tools x @ [t]\<rparr>"
  have eq: "AddTool u x = processQueue ?y" using False by (simp add: AddTool_def t_def)
  have "queue_inv ?y"
    using assms by (intro queue_inv_snoc) (simp_all add: exec_inv_queue t_def result_ok_def)
  from processQueue_inv [OF this] show ?thesis
    unfolding eq by (simp add: passed_def exec_inv_queue progress_waits) (simp add: yielded_events_def t_def)
qed (use assms in \<open>simp add: AddTool_def\<close>)

lemma runTool_notify_inv:
  assumes "exec_inv x"
  shows "exec_inv (runTool_notify x) \<and> yielded_events (x_tools (runTool_notify x)) = yielded_events (x_tools x)"
proof -
  have "queue_inv (x\<lparr>x_notify := x_notify x - 1\<rparr>)"
    by (rule queue_inv_cong [of _ x]) (use assms in \<open>simp_all add: exec_inv_queue\<close>)
  from processQueue_inv [OF this] show ?thesis
    by (simp add: passed_def runTool_notify_def exec_inv_queue progress_waits)
qed

lemma Discard_inv:
  assumes "exec_inv x"
  shows "exec_inv (Discard x)"
  using assms queue_inv_cong [of "Discard x" x] by (simp add: exec_inv_queue Discard_def progress_def)

text \<open>What a finished tool becomes: a real result, or the synthetic error of the cascade.\<close>

definition finish_cascade :: "nat \<Rightarrow> tool_result \<Rightarrow> go_error option \<Rightarrow> executor \<Rightarrow> cascade" where
  "finish_cascade i r e x = TriggerOnBashError (tu_Name (st_toolUse (x_tools x ! i)))
     (tu_Input (st_toolUse (x_tools x ! i))) r e (x_cascade x)"

lemma runTool_finish_eq:
  assumes ok: "threads_ok x" and i: "i \<in> set (x_threads x)" and nd: "\<not> x_discarded x"
  obtains r' e' where "runTool_finish i r e x = set_tool i ((x_tools x ! i)\<lparr>st_result := r', st_invokeErr := e',
      st_events := renderToolResultEvents (st_toolUse (x_tools x ! i)) r' e', st_status := Completed, st_done := True\<rparr>)
      (x\<lparr>x_threads := remove1 i (x_threads x), x_cascade := finish_cascade i r e x, x_notify := x_notify x + 1\<rparr>)"
proof -
  have l: "i < length (x_tools x)" and d: "\<not> st_done (x_tools x ! i)"
    using threads_okD(3,5) [OF ok i] by simp_all
  let ?sc = "finish_cascade i r e x"
  obtain r' e' where re: "cascade_result ?sc r e = (r', e')"
    by (cases "cascade_result ?sc r e")
  show ?thesis
  proof (rule that [of r' e'])
    show "runTool_finish i r e x = set_tool i ((x_tools x ! i)\<lparr>st_result := r', st_invokeErr := e',
      st_events := renderToolResultEvents (st_toolUse (x_tools x ! i)) r' e', st_status := Completed, st_done := True\<rparr>)
      (x\<lparr>x_threads := remove1 i (x_threads x), x_cascade := finish_cascade i r e x, x_notify := x_notify x + 1\<rparr>)"
      using nd l d re [unfolded finish_cascade_def]
      unfolding runTool_finish_def Let_def finish_cascade_def
      by (simp add: close_done_def)
  qed
qed

lemma runTool_finish_inv:
  assumes inv: "exec_inv x" and i: "i \<in> set (x_threads x)"
  shows "exec_inv (runTool_finish i r e x)
    \<and> yielded_events (x_tools (runTool_finish i r e x)) = yielded_events (x_tools x)"
proof -
  have ok: "threads_ok x" using inv by (simp add: exec_inv_def)
  have l: "i < length (x_tools x)" and d: "\<not> st_done (x_tools x ! i)" and ex: "stat x i = Executing"
    using threads_okD(3,4,5) [OF ok i] by simp_all
  have ths: "set (remove1 i (x_threads x)) = set (x_threads x) - {i}" "distinct (remove1 i (x_threads x))"
    using threads_okD(1) [OF ok] by simp_all
  have res: "result_ok (x_tools x ! i)"
    using inv l list_all_nth by (auto simp: exec_inv_def)
  show ?thesis
  proof (cases "x_discarded x")
    case True
    let ?t = "(x_tools x ! i)\<lparr>st_done := True\<rparr>"
    have y: "runTool_finish i r e x = set_tool i ?t (x\<lparr>x_threads := remove1 i (x_threads x)\<rparr>)" (is "_ = ?y")
      using True d by (simp add: runTool_finish_def close_done_def Let_def)
    have st: "stat ?y j = stat x j" for j using l by (cases "j = i") simp_all
    have "barrier ?y"
    proof (rule barrier_setI [OF l, of ?y "Executing"])
      have "(stat x)(i := Executing) = stat x" using ex by (simp add: fun_eq_iff)
      then show "barrier_on (length (x_tools x)) (safe_at x) (hasErrored (x_cascade ?y)) ((stat x)(i := Executing))"
        using inv by (simp add: exec_inv_def barrier_iff)
    qed (use l ex in simp_all)
    moreover have "capacity ?y"
      using inv filter_update_length [OF l, of "\<lambda>t. st_status t = Executing" ?t] ex
      by (simp add: exec_inv_def capacity_def executing_def)
    moreover have "threads_ok ?y"
      by (rule threads_ok_set [OF ok l, where t = ?t]) (use ths threads_okD(2) [OF ok] True ex in simp_all)
    moreover have "progress ?y"
      using inv unfolding exec_inv_def progress_def st by simp
    moreover have "list_all result_ok (x_tools ?y)"
      using inv res ex by (simp add: exec_inv_def result_ok_def list_all_update)
    moreover have "yielded_events (x_tools ?y) = yielded_events (x_tools x)"
      using ex by (simp add: yielded_events_def filter_update_same)
    ultimately show ?thesis unfolding y exec_inv_def by blast
  next
    case False
    from runTool_finish_eq [OF ok i False, of r e] obtain r' e' where
      y: "runTool_finish i r e x = set_tool i ((x_tools x ! i)\<lparr>st_result := r', st_invokeErr := e',
        st_events := renderToolResultEvents (st_toolUse (x_tools x ! i)) r' e', st_status := Completed, st_done := True\<rparr>)
        (x\<lparr>x_threads := remove1 i (x_threads x), x_cascade := finish_cascade i r e x, x_notify := x_notify x + 1\<rparr>)"
      (is "_ = set_tool i ?t ?x") .
    let ?y = "set_tool i ?t ?x"
    have "barrier ?y"
    proof (rule barrier_setI [OF l, of ?y "Completed"])
      show "barrier_on (length (x_tools x)) (safe_at x) (hasErrored (x_cascade ?y)) ((stat x)(i := Completed))"
        by (rule barrier_on_finish [where old = "hasErrored (x_cascade x)"])
          (use inv ex l in \<open>simp_all add: exec_inv_def barrier_iff\<close>)
    qed (use l in simp_all)
    moreover have "capacity ?y"
      by (rule capacity_set [OF l]) (use inv in \<open>auto simp: exec_inv_def\<close>)
    moreover have "threads_ok ?y"
      by (rule threads_ok_set [OF ok l, where t = ?t]) (use ths threads_okD(2) [OF ok] in simp_all)
    moreover have "progress ?y" by (simp add: progress_def)
    moreover have "list_all result_ok (x_tools ?y)"
      using inv res
      by (simp add: exec_inv_def result_ok_def list_all_update renderToolResultEvents_def outcome_of_def)
    moreover have "yielded_events (x_tools ?y) = yielded_events (x_tools x)"
      using ex by (simp add: yielded_events_def filter_update_same)
    ultimately show ?thesis unfolding y exec_inv_def by blast
  qed
qed

lemma collect_loop_eq:
  assumes "collect_loop ts = (evs, ts')" and "list_all result_ok ts"
  shows "list_all2 (\<lambda>t t'. t' = t \<or> st_status t = Completed \<and> t' = t\<lparr>st_events := [], st_status := Yielded\<rparr>) ts ts'
    \<and> list_all result_ok ts'
    \<and> mset (yielded_events ts') = mset (yielded_events ts) + mset evs"
  using assms
proof (induction ts arbitrary: evs ts')
  case Nil
  then show ?case by simp
next
  case (Cons t ts)
  let ?P = "\<lambda>t t'. t' = t \<or> st_status t = Completed \<and> t' = t\<lparr>st_events := [], st_status := Yielded\<rparr>"
  have refl: "list_all2 ?P ts ts" by (rule list.rel_refl) simp
  show ?case
  proof (cases "st_status t = Executing \<and> \<not> st_isConcurrencySafe t")
    case True
    with Cons.prems refl show ?thesis by auto
  next
    case False
    obtain evs1 ts1 where r: "collect_loop ts = (evs1, ts1)" by (cases "collect_loop ts")
    have ok: "list_all result_ok ts" using Cons.prems(2) by simp
    note IH = Cons.IH [OF r ok]
    show ?thesis
    proof (cases "st_status t = Completed")
      case True
      have e: "evs = st_events t @ evs1" "ts' = t\<lparr>st_events := [], st_status := Yielded\<rparr> # ts1"
        using Cons.prems(1) r True by simp_all
      have "st_events t = [outcome_event (outcome_of t)]" and "st_id t = tu_ID (st_toolUse t)"
        using Cons.prems(2) True by (simp_all add: result_ok_def)
      then show ?thesis
        using IH True by (simp add: e result_ok_def yielded_events_def outcome_of_def)
    next
      case nc: False
      have e: "evs = evs1" "ts' = t # ts1" using Cons.prems(1) r False nc by auto
      show ?thesis using IH Cons.prems(2) by (simp add: e yielded_events_def)
    qed
  qed
qed

lemma barrier_on_cong:
  assumes "\<And>j. j < n \<Longrightarrow> (s' j = Queued) = (s j = Queued)"
    and "\<And>j. j < n \<Longrightarrow> (s' j = Executing) = (s j = Executing)"
    and "\<And>j. j < n \<Longrightarrow> finished (s' j) = finished (s j)"
  shows "barrier_on n safe err s \<Longrightarrow> barrier_on n safe err s'"
  using assms unfolding barrier_on_def by (meson less_trans)

lemma barrier_on_safe_cong:
  assumes "barrier_on n safe err s" and "\<And>j. j < n \<Longrightarrow> safe' j = safe j"
  shows "barrier_on n safe' err s"
  using assms unfolding barrier_on_def by blast

lemma CollectResults_inv:
  assumes inv: "exec_inv x" and c: "CollectResults x = (evs, y)"
  shows "exec_inv y \<and> mset (yielded_events (x_tools y)) = mset (yielded_events (x_tools x)) + mset evs"
proof (cases "x_discarded x")
  case False
  obtain ts' where r: "collect_loop (x_tools x) = (evs, ts')" and y: "y = x\<lparr>x_tools := ts'\<rparr>"
    using c False by (auto simp: CollectResults_def split: prod.splits)
  have "list_all result_ok (x_tools x)" using inv by (simp add: exec_inv_def)
  note q = collect_loop_eq [OF r this]
  have len: "length ts' = length (x_tools x)" using q list_all2_lengthD by fastforce
  have nth: "ts' ! j = x_tools x ! j
      \<or> stat x j = Completed \<and> ts' ! j = (x_tools x ! j)\<lparr>st_events := [], st_status := Yielded\<rparr>"
    if "j < length (x_tools x)" for j
    using q that by (auto simp: list_all2_conv_all_nth)
  have st: "(stat y j = Queued) = (stat x j = Queued)" "(stat y j = Executing) = (stat x j = Executing)"
      "finished (stat y j) = finished (stat x j)" "safe_at y j = safe_at x j"
      "st_done (x_tools y ! j) = st_done (x_tools x ! j)" if "j < length (x_tools x)" for j
    using nth [OF that] y by auto
  have ok: "threads_ok x" using inv by (simp add: exec_inv_def)
  have "barrier_on (length (x_tools x)) (safe_at x) (hasErrored (x_cascade x)) (stat x)"
    using inv by (simp add: exec_inv_def barrier_iff)
  then have b: "barrier_on (length (x_tools x)) (safe_at x) (hasErrored (x_cascade x)) (stat y)"
    by (rule barrier_on_cong [rotated 3]) (simp_all add: st)
  have "barrier y"
    using barrier_on_safe_cong [OF b st(4)] y len by (simp add: barrier_iff)
  moreover have "length (executing y) = length (executing x)"
    using q unfolding executing_def y by (auto simp: length_filter_conv_card list_all2_conv_all_nth intro!: arg_cong [where f = card])
  then have "capacity y" using inv y by (simp add: exec_inv_def capacity_def)
  moreover have "progress y"
    using inv st(1,2) len y by (auto simp: exec_inv_def progress_def)
  moreover have "threads_ok y"
    by (rule threads_okI) (use threads_okD [OF ok] st len y in simp_all)
  ultimately show ?thesis using q y by (simp add: exec_inv_def)
qed (use inv c in \<open>simp add: CollectResults_def\<close>)

section \<open>Properties\<close>

lemma sent_inv_initial: "sent_inv (NewStreamingToolExecutor safeName m, [])"
  by (simp add: sent_inv_def exec_inv_def NewStreamingToolExecutor_def barrier_def capacity_def progress_def
      threads_ok_def executing_def yielded_events_def)

lemma sent_inv_step: "sent_inv s \<Longrightarrow> xstep s t \<Longrightarrow> sent_inv t"
proof (erule xstep.cases)
  show "sent_inv t" if "sent_inv s" "s = (x, out)" "t = (AddTool u x, out)" for x out u
    using that AddTool_inv [of x u] by (simp add: sent_inv_def)
  show "sent_inv t" if "sent_inv s" "s = (x, out)" "t = (runTool_finish i r e x, out)" "i \<in> set (x_threads x)"
    for x out i r e
    using that runTool_finish_inv [of x i r e] by (simp add: sent_inv_def)
  show "sent_inv t" if "sent_inv s" "s = (x, out)" "t = (runTool_notify x, out)" for x out
    using that runTool_notify_inv [of x] by (simp add: sent_inv_def)
  show "sent_inv t" if "sent_inv s" "s = (x, out)" "t = (x', out @ evs)" "CollectResults x = (evs, x')" for x out evs x'
    using that CollectResults_inv [of x evs x'] by (simp add: sent_inv_def)
  show "sent_inv t" if "sent_inv s" "s = (x, out)" "t = (Discard x, out)" for x out
    using that Discard_inv [of x] by (simp add: sent_inv_def Discard_def)
qed

interpretation streaming: step_invariant xstep sent_inv
  by unfold_locales (rule sent_inv_step)

definition reachable :: "(string \<Rightarrow> bool) \<Rightarrow> int \<Rightarrow> executor \<times> tool_finished list \<Rightarrow> bool" where
  "reachable safeName m s \<longleftrightarrow> xstep\<^sup>*\<^sup>* (NewStreamingToolExecutor safeName m, []) s"

lemma reachable_inv: "reachable safeName m (x, out) \<Longrightarrow> exec_inv x \<and> mset out = mset (yielded_events (x_tools x))"
  using streaming.reach_inv [OF _ sent_inv_initial] by (fastforce simp: reachable_def sent_inv_def)

lemma reachable_start: "reachable safeName m (NewStreamingToolExecutor safeName m, [])"
  by (simp add: reachable_def)

lemma reachable_step: "reachable safeName m s \<Longrightarrow> xstep s t \<Longrightarrow> reachable safeName m t"
  unfolding reachable_def by (rule rtranclp.rtrancl_into_rtrancl)

text \<open>
  C29: Whatever the order in which tools arrive and finish, an exclusive tool is a barrier: while
  it runs it runs alone, every earlier call has finished and no later call has started; while it
  waits, no later call overtakes it. The number of running tools never exceeds the limit.
\<close>

theorem exclusive_tool_is_barrier:
  assumes "reachable safeName m (x, out)" and "i < length (x_tools x)" and "\<not> safe_at x i"
  shows "(stat x i = Executing \<longrightarrow> (\<forall>j<i. finished (stat x j))
          \<and> (\<forall>j<length (x_tools x). i < j \<longrightarrow> stat x j = Queued))
    \<and> (stat x i = Queued \<longrightarrow> (\<forall>j<length (x_tools x). i < j \<longrightarrow> stat x j = Queued))
    \<and> (0 < x_maxConcurrent x \<longrightarrow> int (length (executing x)) \<le> x_maxConcurrent x)"
  using reachable_inv [OF assms(1)] assms(2,3) unfolding exec_inv_def capacity_def barrier_def by blast

text \<open>Two calls: an exclusive one, then one that could run in parallel.\<close>

definition demo_safe :: "string \<Rightarrow> bool" where
  "demo_safe n \<longleftrightarrow> n = ''Read''"

definition demo_x :: executor where
  "demo_x = AddTool (demo_use ''b'' ''Read'') (AddTool (demo_use ''a'' ''Write'') (NewStreamingToolExecutor demo_safe 10))"

lemma demo_x_reachable: "reachable demo_safe 10 (demo_x, [])"
  unfolding demo_x_def by (intro reachable_step [OF _ add] reachable_start)

lemmas demo_x_eval = demo_x_def AddTool_def NewStreamingToolExecutor_def demo_safe_def demo_use_def processQueue_def
  start_tool_def set_tool_def canExecuteTool_def executing_def NewSiblingCascade_def

theorem exclusive_tool_is_barrier_witness:
  "stat demo_x 0 = Executing \<and> stat demo_x 1 = Queued"
proof -
  have len: "length (x_tools demo_x) = 2" and s: "\<not> safe_at demo_x 0" and e: "stat demo_x 0 = Executing"
    by (simp_all add: demo_x_eval)
  from exclusive_tool_is_barrier [OF demo_x_reachable _ s] len e show ?thesis by auto
qed

text \<open>
  The \<open>done\<close> channel of a tool is never closed twice, in no interleaving of adding, finishing,
  collecting and discarding; it is closed exactly for the tools that have finished, or, on a
  discarded executor, for the tools whose goroutine has returned.
\<close>

theorem done_closed_once:
  assumes "reachable safeName m (x, out)"
  shows "\<not> x_panic x
    \<and> (\<forall>i<length (x_tools x). \<not> x_discarded x \<longrightarrow> st_done (x_tools x ! i) = finished (stat x i))"
proof -
  have ok: "threads_ok x" using reachable_inv [OF assms] by (simp add: exec_inv_def)
  have "st_done (x_tools x ! i) = finished (stat x i)" if i: "i < length (x_tools x)" and nd: "\<not> x_discarded x" for i
    using threads_okD(5-8) [OF ok, of i] i nd by (cases "stat x i") auto
  with threads_okD(2) [OF ok] show ?thesis by blast
qed

theorem done_closed_once_witness:
  "\<not> x_panic (runTool_finish 0 (error_result '''') None demo_x)
   \<and> st_done (x_tools (runTool_finish 0 (error_result '''') None demo_x) ! 0)"
proof -
  let ?y = "runTool_finish 0 (error_result '''') None demo_x"
  have "reachable demo_safe 10 (?y, [])"
    by (rule reachable_step [OF demo_x_reachable], rule finish) (simp add: demo_x_eval)
  moreover have "0 < length (x_tools ?y) \<and> \<not> x_discarded ?y \<and> finished (stat ?y 0)"
    by (simp add: demo_x_eval runTool_finish_def close_done_def TriggerOnBashError_def cascade_result_def)
  ultimately show ?thesis using done_closed_once [of demo_safe 10 ?y "[]"] by blast
qed

lemma collect_loop_all:
  assumes "\<forall>t\<in>set ts. finished (st_status t)" and "list_all result_ok ts"
  shows "\<forall>t\<in>set (snd (collect_loop ts)). st_status t = Yielded"
    and "map st_id (snd (collect_loop ts)) = map st_id ts"
proof -
  have "(\<forall>t\<in>set (snd (collect_loop ts)). st_status t = Yielded) \<and> map st_id (snd (collect_loop ts)) = map st_id ts"
    using assms
  proof (induction ts)
    case (Cons t ts)
    obtain evs ts' where r: "collect_loop ts = (evs, ts')" by (cases "collect_loop ts")
    have "st_status t = Completed \<or> st_status t = Yielded" using Cons.prems(1) by (simp add: finished_def)
    with Cons r show ?case by auto
  qed simp
  then show "\<forall>t\<in>set (snd (collect_loop ts)). st_status t = Yielded"
    and "map st_id (snd (collect_loop ts)) = map st_id ts" by simp_all
qed

lemma all_done_finished:
  assumes ok: "threads_ok x" and nd: "\<not> x_discarded x" and d: "list_all st_done (x_tools x)"
  shows "\<forall>t\<in>set (x_tools x). finished (st_status t)"
proof
  fix t
  assume "t \<in> set (x_tools x)"
  then obtain i where i: "i < length (x_tools x)" "x_tools x ! i = t" by (auto simp: in_set_conv_nth)
  then have "st_done (x_tools x ! i)" using d by (auto simp: list_all_length)
  then show "finished (st_status t)"
    using threads_okD(5-7) [OF ok, of i] i nd by (cases "st_status t") auto
qed

lemma message_results:
  assumes "\<forall>t\<in>set ts. finished (st_status t)" and "list_all result_ok ts"
  shows "map p_ToolUseID (filter is_result (concat (map (\<lambda>t. if st_status t \<noteq> Completed \<and> st_status t \<noteq> Yielded then []
    else outcome_parts (outcome_of t)) ts))) = map st_id ts"
  using assms
  by (induction ts) (auto simp: finished_def outcome_parts_result outcome_of_def result_ok_def)

text \<open>
  C28: When \<open>AwaitAll\<close> returns normally, every tool call of the stream has been answered: the
  message for the model holds one result per call in the order of the calls, and over the whole
  run the callers have received the finished event of each call exactly once.
\<close>

theorem AwaitAll_answers_every_call:
  assumes "reachable safeName m (x, out)" and "\<not> x_discarded x" and "AwaitAll False x = Some (evs, y)"
  shows "mset (out @ evs) = mset (map (outcome_event \<circ> outcome_of) (x_tools y))
    \<and> map p_ToolUseID (filter is_result (m_Content (BuildToolResultMessage y))) = map st_id (x_tools x)
    \<and> (\<forall>t\<in>set (x_tools y). st_status t = Yielded)"
proof -
  have inv: "exec_inv x" and out: "mset out = mset (yielded_events (x_tools x))"
    using reachable_inv [OF assms(1)] by simp_all
  have c: "CollectResults x = (evs, y)" and d: "list_all st_done (x_tools x)"
    using assms(2,3) by (auto simp: AwaitAll_def split: if_splits)
  have fin: "\<forall>t\<in>set (x_tools x). finished (st_status t)"
    by (rule all_done_finished) (use inv assms(2) d in \<open>simp_all add: exec_inv_def\<close>)
  have ok: "list_all result_ok (x_tools x)" using inv by (simp add: exec_inv_def)
  have y: "x_tools y = snd (collect_loop (x_tools x))"
    using c assms(2) by (auto simp: CollectResults_def split: prod.splits)
  note all = collect_loop_all [OF fin ok]
  have Y: "\<forall>t\<in>set (x_tools y). st_status t = Yielded" using all(1) y by simp
  then have "yielded_events (x_tools y) = map (outcome_event \<circ> outcome_of) (x_tools y)"
    by (simp add: yielded_events_def)
  moreover have "exec_inv y" and "mset (yielded_events (x_tools y)) = mset (yielded_events (x_tools x)) + mset evs"
    using CollectResults_inv [OF inv c] by simp_all
  moreover have "\<forall>t\<in>set (x_tools y). finished (st_status t)" using Y by simp
  ultimately show ?thesis
    using message_results [of "x_tools y"] Y out all(2) y
    by (simp add: exec_inv_def BuildToolResultMessage_def)
qed

text \<open>Both calls of \<open>demo_x\<close> have run.\<close>

definition demo_done :: executor where
  "demo_done = runTool_finish 1 \<lparr>r_Output = ''text'', r_Error = '''', r_Meta = []\<rparr> None
     (runTool_notify (runTool_finish 0 (error_result ''boom'') None demo_x))"

lemmas finish_eval = runTool_finish_def close_done_def TriggerOnBashError_def cascade_result_def runTool_notify_def

lemma demo_done_reachable: "reachable demo_safe 10 (demo_done, [])"
  unfolding demo_done_def
  by (intro reachable_step [OF _ finish] reachable_step [OF _ notify] demo_x_reachable)
    (simp_all add: demo_x_eval finish_eval)

theorem AwaitAll_answers_every_call_witness:
  "map p_ToolUseID (filter is_result (m_Content (BuildToolResultMessage (snd (the (AwaitAll False demo_done))))))
    = [''a'', ''b'']"
proof -
  have nd: "\<not> x_discarded demo_done" and d: "list_all st_done (x_tools demo_done)"
    and ids: "map st_id (x_tools demo_done) = [''a'', ''b'']"
    by (simp_all add: demo_done_def demo_x_eval finish_eval)
  obtain evs y where "AwaitAll False demo_done = Some (evs, y)"
    using nd d by (cases "CollectResults demo_done") (simp add: AwaitAll_def)
  from AwaitAll_answers_every_call [OF demo_done_reachable nd this] this ids show ?thesis by simp
qed

lemma load_finish:
  assumes ok: "threads_ok x" and i: "i \<in> set (x_threads x)"
  shows "load (runTool_finish i r e x) < load x \<and> x_discarded (runTool_finish i r e x) = x_discarded x"
proof -
  have l: "i < length (x_tools x)" and d: "\<not> st_done (x_tools x ! i)" and ex: "stat x i = Executing"
    using threads_okD(3,4,5) [OF ok i] by simp_all
  have ths: "length (x_threads x) = Suc (length (remove1 i (x_threads x)))"
    using i by (simp add: length_remove1) (metis Suc_pred length_pos_if_in_set)
  show ?thesis
  proof (cases "x_discarded x")
    case True
    then show ?thesis
      using d ths ex by (simp add: runTool_finish_def close_done_def load_def Let_def filter_update_same)
  next
    case False
    show ?thesis
      by (rule runTool_finish_eq [OF ok i False, of r e]) (use ths ex in \<open>simp add: load_def filter_update_same\<close>)
  qed
qed

lemma load_notify:
  assumes "exec_inv x" and "0 < x_notify x"
  shows "load (runTool_notify x) < load x \<and> x_discarded (runTool_notify x) = x_discarded x"
proof -
  have "queue_inv (x\<lparr>x_notify := x_notify x - 1\<rparr>)"
    by (rule queue_inv_cong [of _ x]) (use assms in \<open>simp_all add: exec_inv_queue\<close>)
  from processQueue_inv [OF this]
  have "load (runTool_notify x) \<le> load (x\<lparr>x_notify := x_notify x - 1\<rparr>) \<and> x_discarded (runTool_notify x) = x_discarded x"
    by (simp add: passed_def runTool_notify_def)
  moreover have "load (x\<lparr>x_notify := x_notify x - 1\<rparr>) < load x" using assms(2) by (simp add: load_def)
  ultimately show ?thesis by simp
qed

lemma internal_step:
  assumes "exec_inv x" and "internal x y"
  shows "exec_inv y \<and> load y < load x \<and> x_discarded y = x_discarded x"
  using assms(2,1)
proof cases
  case (int_finish i r e)
  have "threads_ok x" using assms(1) by (simp add: exec_inv_def)
  from load_finish [OF this int_finish(2)] runTool_finish_inv [OF assms(1) int_finish(2)] int_finish(1)
  show ?thesis by simp
next
  case int_notify
  with load_notify [OF assms(1)] runTool_notify_inv [OF assms(1)] show ?thesis by simp
qed

lemma internal_steps:
  "(internal ^^ n) x y \<Longrightarrow> exec_inv x \<Longrightarrow> exec_inv y \<and> n + load y \<le> load x \<and> x_discarded y = x_discarded x"
proof (induction n arbitrary: y)
  case (Suc n)
  then obtain z where "(internal ^^ n) x z" "internal z y" by auto
  with Suc.IH [of z] Suc.prems(2) internal_step [of z y] show ?case by auto
qed simp

lemma stuck_done:
  assumes inv: "exec_inv x" and nd: "\<not> x_discarded x" and stuck: "\<nexists>y. internal x y"
  shows "list_all st_done (x_tools x)"
proof -
  have "i \<notin> set (x_threads x)" for i
  proof
    assume "i \<in> set (x_threads x)"
    then have "internal x (runTool_finish i (error_result []) None x)" by (rule int_finish)
    with stuck show False by blast
  qed
  then have "x_threads x = []" by (cases "x_threads x") auto
  have n: "x_notify x = 0" using int_notify stuck by blast
  have ok: "threads_ok x" using inv by (simp add: exec_inv_def)
  have ne: "stat x i \<noteq> Executing" if "i < length (x_tools x)" for i
    using threads_okD(6) [OF ok that nd] \<open>x_threads x = []\<close> by auto
  then have nq: "stat x i \<noteq> Queued" if "i < length (x_tools x)" for i
    using inv n that by (auto simp: exec_inv_def progress_def)
  have "st_done (x_tools x ! i)" if "i < length (x_tools x)" for i
    using threads_okD(8) [OF ok that] ne [OF that] nq [OF that] by (cases "stat x i") simp_all
  then show ?thesis by (simp add: list_all_length)
qed

text \<open>
  C30: No tool is left waiting: once the callers only wait, the executor takes at most \<open>load\<close> more
  steps, and when it can take none and was not discarded, every tool has finished, so that
  \<open>AwaitAll\<close> returns.
\<close>

theorem streaming_drains:
  assumes "reachable safeName m (x, out)" and "(internal ^^ n) x y"
  shows "n + load y \<le> load x
    \<and> (\<not> x_discarded x \<and> (\<nexists>z. internal y z) \<longrightarrow> AwaitAll False y \<noteq> None)"
proof -
  have "exec_inv x" using reachable_inv [OF assms(1)] by blast
  from internal_steps [OF assms(2) this] stuck_done [of y] show ?thesis
    by (auto simp: AwaitAll_def)
qed

theorem streaming_drains_witness:
  "AwaitAll False (runTool_notify demo_done) \<noteq> None \<and> 4 + load (runTool_notify demo_done) \<le> load demo_x"
proof -
  let ?a = "runTool_finish 0 (error_result ''boom'') None demo_x"
  have s: "internal demo_x ?a" "internal ?a (runTool_notify ?a)" "internal (runTool_notify ?a) demo_done"
      "internal demo_done (runTool_notify demo_done)"
    unfolding demo_done_def by (rule int_finish int_notify; simp add: demo_x_eval finish_eval)+
  have "(internal ^^ 4) demo_x (runTool_notify demo_done)"
  proof -
    have "(internal ^^ Suc (Suc (Suc (Suc 0)))) demo_x (runTool_notify demo_done)"
      by (rule relpowp_Suc_I [where P = internal, OF _ s(4)], rule relpowp_Suc_I [where P = internal, OF _ s(3)],
        rule relpowp_Suc_I [where P = internal, OF _ s(2)], rule relpowp_Suc_I [where P = internal, OF _ s(1)])
        simp
    then show ?thesis by (simp add: numeral_eq_Suc)
  qed
  note d = streaming_drains [OF demo_x_reachable this]
  have "\<not> x_discarded demo_x" by (simp add: demo_x_eval)
  moreover have "x_threads (runTool_notify demo_done) = [] \<and> x_notify (runTool_notify demo_done) = 0"
    by (simp add: demo_done_def demo_x_eval finish_eval)
  then have "\<nexists>z. internal (runTool_notify demo_done) z" unfolding internal_iff by simp
  ultimately show ?thesis using d by simp
qed

text \<open>
  \<open>Discard\<close> does not stop the queue: a call that was still queued when the executor was
  discarded is started afterwards, by the pass over the queue of a tool that had just finished.
\<close>

theorem queued_tool_starts_after_discard:
  "\<exists>x y. reachable demo_safe 10 (x, []) \<and> x_discarded x \<and> stat x 1 = Queued
     \<and> xstep (x, []) (y, []) \<and> stat y 1 = Executing"
proof -
  let ?x = "Discard (runTool_finish 0 (error_result '''') None demo_x)"
  have "reachable demo_safe 10 (?x, [])"
    by (intro reachable_step [OF _ discard] reachable_step [OF _ finish] demo_x_reachable) (simp add: demo_x_eval)
  moreover have "xstep (?x, []) (runTool_notify ?x, [])"
    by (rule notify) (simp add: demo_x_eval finish_eval Discard_def)
  moreover have "x_discarded ?x \<and> stat ?x 1 = Queued \<and> stat (runTool_notify ?x) 1 = Executing"
    by (simp add: demo_x_eval finish_eval Discard_def)
  ultimately show ?thesis by blast
qed

text \<open>
  Results are forwarded in the order of the calls within one \<open>CollectResults\<close>, but not across
  calls of it: the result of a later parallel call is forwarded while an earlier one still runs.
\<close>

theorem CollectResults_overtakes:
  "\<exists>x evs y. reachable demo_safe 10 (x, []) \<and> map st_id (x_tools x) = [''a'', ''b'']
     \<and> stat x 0 = Executing \<and> CollectResults x = (evs, y) \<and> map f_ID evs = [''b'']"
proof -
  let ?x0 = "AddTool (demo_use ''b'' ''Read'') (AddTool (demo_use ''a'' ''Read'') (NewStreamingToolExecutor demo_safe 10))"
  let ?x = "runTool_finish 1 (error_result '''') None ?x0"
  have "reachable demo_safe 10 (?x, [])"
    by (intro reachable_step [OF _ finish] reachable_step [OF _ add] reachable_start) (simp add: demo_x_eval)
  moreover have "map st_id (x_tools ?x) = [''a'', ''b''] \<and> stat ?x 0 = Executing
      \<and> map f_ID (fst (CollectResults ?x)) = [''b'']"
    by (simp add: demo_x_eval finish_eval CollectResults_def renderToolResultEvents_def outcome_event_def
        renderToolResult_def error_result_def trim_space_def)
  ultimately show ?thesis by (metis prod.collapse)
qed

end
