(* ===== verification/Paths.thy ===== *)
theory Paths
  imports Prelude "HOL-Library.Sublist"
begin

text \<open>
  The path functions of Go's standard library on Unix paths that the permission layer and the
  file tools use: \<open>path.Clean\<close> and \<open>filepath.Clean\<close>, \<open>Join\<close>, \<open>filepath.Rel\<close>, \<open>path.Match\<close>, and
  \<open>strconv.Quote\<close> for messages. They are lexical and work on bytes.
\<close>

section \<open>Clean, Join, Rel\<close>

definition is_abs :: "string \<Rightarrow> bool" where
  "is_abs s \<longleftrightarrow> has_prefix s ''/''"

text \<open>One path element against the (reversed) elements kept so far.\<close>

definition clean_step :: "bool \<Rightarrow> string \<Rightarrow> string list \<Rightarrow> string list" where
  "clean_step rooted seg acc =
    (if seg = '''' \<or> seg = ''.'' then acc
     else if seg = ''..'' then
       (if acc \<noteq> [] \<and> hd acc \<noteq> ''..'' then tl acc else if rooted then acc else seg # acc)
     else seg # acc)"

definition clean_segs :: "bool \<Rightarrow> string list \<Rightarrow> string list" where
  "clean_segs rooted segs = rev (fold (clean_step rooted) segs [])"

definition path_segs :: "string \<Rightarrow> string list" where
  "path_segs s = clean_segs (is_abs s) (split_char CHR ''/'' s)"

definition render_path :: "bool \<Rightarrow> string list \<Rightarrow> string" where
  "render_path rooted segs =
    (if rooted then CHR ''/'' # join_str ''/'' segs
     else if segs = [] then ''.'' else join_str ''/'' segs)"

definition path_Clean :: "string \<Rightarrow> string" where
  "path_Clean s = render_path (is_abs s) (path_segs s)"

definition path_Join :: "string \<Rightarrow> string \<Rightarrow> string" where
  "path_Join a b =
    (if a = '''' \<and> b = '''' then ''''
     else if a = '''' then path_Clean b
     else if b = '''' then path_Clean a
     else path_Clean (a @ ''/'' @ b))"

definition path_Dir :: "string \<Rightarrow> string" where
  "path_Dir p = path_Clean (rev (dropWhile (\<lambda>c. c \<noteq> CHR ''/'') (rev p)))"

fun strip_common :: "'a list \<Rightarrow> 'a list \<Rightarrow> 'a list \<times> 'a list" where
  "strip_common (x # xs) (y # ys) = (if x = y then strip_common xs ys else (x # xs, y # ys))"
| "strip_common xs ys = (xs, ys)"

text \<open>\<open>filepath.Rel\<close>; the relative path \<open>.\<close> counts as one element of the target.\<close>

definition path_Rel :: "string \<Rightarrow> string \<Rightarrow> string option" where
  "path_Rel base targ =
    (if path_Clean base = path_Clean targ then Some ''.''
     else if is_abs base \<noteq> is_abs targ then None
     else let t0 = (if path_Clean targ = ''.'' then [''.''] else path_segs targ);
              (b, t) = strip_common (path_segs base) t0
          in if b \<noteq> [] \<and> hd b = ''..'' then None
             else Some (join_str ''/'' (replicate (length b) ''..'' @ t)))"

section \<open>Match\<close>

text \<open>One, possibly escaped, character of a bracket expression: \<open>None\<close> when malformed.\<close>

fun class_char :: "string \<Rightarrow> (char \<times> string) option" where
  "class_char [] = None"
| "class_char (c # p) =
    (if c = CHR ''-'' \<or> c = CHR '']'' then None
     else if c = CHR 0x5C then (case p of d # e # q \<Rightarrow> Some (d, e # q) | _ \<Rightarrow> None)
     else if p = [] then None else Some (c, p))"

lemma class_char_shorter: "class_char p = Some (c, q) \<Longrightarrow> length q < length p"
  by (cases p) (auto split: if_splits list.splits)

text \<open>One range \<open>lo-hi\<close>, a single character being \<open>lo-lo\<close>.\<close>

definition class_range :: "string \<Rightarrow> (nat \<times> nat \<times> string) option" where
  "class_range p =
    (case class_char p of
       None \<Rightarrow> None
     | Some (lo, q) \<Rightarrow>
        (case q of
           [] \<Rightarrow> None
         | d # q1 \<Rightarrow>
            if d = CHR ''-''
            then (case class_char q1 of None \<Rightarrow> None | Some (hi, q2) \<Rightarrow> Some (of_char lo, of_char hi, q2))
            else Some (of_char lo, of_char lo, q)))"

lemma class_range_shorter:
  assumes "class_range p = Some (lo, hi, q)"
  shows "length q < length p"
proof -
  obtain c q0 where q0: "class_char p = Some (c, q0)"
    using assms by (auto simp: class_range_def split: option.splits)
  then obtain d q1 where q1: "q0 = d # q1"
    using assms by (auto simp: class_range_def split: list.splits)
  show ?thesis
    using assms q0 q1 class_char_shorter [OF q0] class_char_shorter [of q1]
    by (fastforce simp: class_range_def split: if_splits option.splits)
qed

text \<open>The ranges of a bracket expression up to the closing bracket: whether \<open>r\<close> is in one of them,
  and the rest of the pattern. \<open>n\<close> ranges have been read.\<close>

function class_ranges :: "nat \<Rightarrow> nat \<Rightarrow> bool \<Rightarrow> string \<Rightarrow> (bool \<times> string) option" where
  "class_ranges r n m p =
    (if p \<noteq> [] \<and> hd p = CHR '']'' \<and> n > 0 then Some (m, tl p)
     else case class_range p of
       None \<Rightarrow> None
     | Some (lo, hi, q) \<Rightarrow> class_ranges r (n + 1) (m \<or> lo \<le> r \<and> r \<le> hi) q)"
  by pat_completeness auto

termination
  by (relation "measure (\<lambda>(_, _, _, p). length p)") (auto dest: class_range_shorter)

declare class_ranges.simps [simp del]

definition class_match :: "char \<Rightarrow> string \<Rightarrow> (bool \<times> string) option" where
  "class_match r p =
    (let negated = (p \<noteq> [] \<and> hd p = CHR ''^'');
         q = (if negated then tl p else p)
     in map_option (\<lambda>(m, rest). (m \<noteq> negated, rest)) (class_ranges (of_char r) 0 False q))"

lemma class_ranges_shorter: "class_ranges r n m p = Some (b, q) \<Longrightarrow> length q < length p"
proof (induction r n m p rule: class_ranges.induct)
  case (1 r n m p)
  show ?case
  proof (cases "p \<noteq> [] \<and> hd p = CHR '']'' \<and> n > 0")
    case True
    with "1.prems" show ?thesis by (subst (asm) class_ranges.simps) (cases p, auto)
  next
    case False
    then obtain lo hi q0 where q0: "class_range p = Some (lo, hi, q0)"
      using "1.prems" by (subst (asm) class_ranges.simps) (auto split: option.splits if_splits)
    from False q0 have "class_ranges r n m p = class_ranges r (n + 1) (m \<or> lo \<le> r \<and> r \<le> hi) q0"
      by (subst class_ranges.simps) auto
    with "1.IH" [OF False q0] "1.prems" class_range_shorter [OF q0] show ?thesis by fastforce
  qed
qed

lemma class_match_shorter:
  assumes "class_match r p = Some (b, q)"
  shows "length q < length p"
proof -
  define p' where "p' = (if p \<noteq> [] \<and> hd p = CHR ''^'' then tl p else p)"
  from assms obtain m where "class_ranges (of_char r) 0 False p' = Some (m, q)"
    by (auto simp: class_match_def Let_def p'_def)
  moreover have "length p' \<le> length p" by (simp add: p'_def)
  ultimately show ?thesis using class_ranges_shorter [of "of_char r" 0 False p'] by fastforce
qed

text \<open>\<open>path.Match\<close>: \<open>True\<close> for a match, \<open>False\<close> for no match and for a malformed pattern, which the
  callers treat alike.\<close>

function path_Match :: "string \<Rightarrow> string \<Rightarrow> bool" where
  "path_Match [] s = (s = [])"
| "path_Match (c # p) s =
    (if c = CHR ''*''
     then path_Match p s \<or> (case s of [] \<Rightarrow> False | d # t \<Rightarrow> if d = CHR ''/'' then False else path_Match (c # p) t)
     else case s of
       [] \<Rightarrow> False
     | d # t \<Rightarrow>
        if c = CHR ''?'' then (if d = CHR ''/'' then False else path_Match p t)
        else if c = CHR ''['' then
          (case class_match d p of None \<Rightarrow> False | Some (m, rest) \<Rightarrow> if m then path_Match rest t else False)
        else if c = CHR 0x5C then (case p of [] \<Rightarrow> False | e # q \<Rightarrow> if e = d then path_Match q t else False)
        else if c = d then path_Match p t else False)"
  by pat_completeness auto

termination
  by (relation "measure (\<lambda>(p, s). length p + length s)") (auto dest: class_match_shorter)

section \<open>Quote\<close>

definition quote_char :: "char \<Rightarrow> string" where
  "quote_char c =
    (let n = (of_char c :: nat);
         hex = (\<lambda>d. if d < 10 then char_of (48 + d) else char_of (87 + d))
     in if c = CHR 0x22 then [CHR 0x5C, c]
        else if c = CHR 0x5C then [CHR 0x5C, c]
        else if n = 7 then [CHR 0x5C, CHR ''a'']
        else if n = 8 then [CHR 0x5C, CHR ''b'']
        else if n = 9 then [CHR 0x5C, CHR ''t'']
        else if n = 10 then [CHR 0x5C, CHR ''n'']
        else if n = 11 then [CHR 0x5C, CHR ''v'']
        else if n = 12 then [CHR 0x5C, CHR ''f'']
        else if n = 13 then [CHR 0x5C, CHR ''r'']
        else if n < 32 \<or> n = 127 then [CHR 0x5C, CHR ''x'', hex (n div 16), hex (n mod 16)]
        else [c])"

text \<open>\<open>strconv.Quote\<close>, the verb \<open>%q\<close>, on ASCII text.\<close>

definition go_quote :: "string \<Rightarrow> string" where
  "go_quote s = [CHR 0x22] @ concat (map quote_char s) @ [CHR 0x22]"

section \<open>Cleaned paths\<close>

definition plain_seg :: "string \<Rightarrow> bool" where
  "plain_seg w \<longleftrightarrow> w \<noteq> [] \<and> CHR ''/'' \<notin> set w \<and> w \<noteq> ''.'' \<and> w \<noteq> ''..''"

text \<open>The elements of a cleaned path: parents first, and none at all below the root.\<close>

definition cleaned :: "bool \<Rightarrow> string list \<Rightarrow> bool" where
  "cleaned rooted segs \<longleftrightarrow>
    (\<exists>n ws. segs = replicate n ''..'' @ ws \<and> list_all plain_seg ws \<and> (rooted \<longrightarrow> n = 0))"

lemma cleaned_rooted: "cleaned True segs \<longleftrightarrow> list_all plain_seg segs"
  by (auto simp: cleaned_def)

lemma cleanedI: "segs = replicate n ''..'' @ ws \<Longrightarrow> list_all plain_seg ws \<Longrightarrow> (rooted \<Longrightarrow> n = 0) \<Longrightarrow> cleaned rooted segs"
  unfolding cleaned_def by blast

lemma clean_step_cleaned:
  assumes "CHR ''/'' \<notin> set seg" and "cleaned rooted (rev acc)"
  shows "cleaned rooted (rev (clean_step rooted seg acc))"
proof -
  obtain n ws where acc: "rev acc = replicate n ''..'' @ ws" and ws: "list_all plain_seg ws" and r: "rooted \<longrightarrow> n = 0"
    using assms(2) unfolding cleaned_def by blast
  consider (skip) "seg = '''' \<or> seg = ''.''" | (up) "seg = ''..''" | (add) "plain_seg seg"
    using assms(1) by (auto simp: plain_seg_def)
  then show ?thesis
  proof cases
    case skip
    with assms(2) show ?thesis by (auto simp: clean_step_def)
  next
    case add
    then have "clean_step rooted seg acc = seg # acc" by (auto simp: clean_step_def plain_seg_def)
    then show ?thesis using acc ws add r by (intro cleanedI [of _ n "ws @ [seg]"]) auto
  next
    case up
    show ?thesis
    proof (cases ws rule: rev_cases)
      case Nil
      then have a: "acc = replicate n ''..''" using acc by (metis append_Nil2 rev_replicate rev_rev_ident)
      have st: "clean_step rooted seg acc = (if rooted then acc else seg # acc)"
        using up a by (cases n) (auto simp: clean_step_def)
      show ?thesis
      proof (cases rooted)
        case True
        with st assms(2) show ?thesis by simp
      next
        case False
        with st a up have "rev (clean_step rooted seg acc) = replicate (Suc n) ''..'' @ []"
          by (simp add: replicate_append_same)
        then show ?thesis by (rule cleanedI) (simp_all add: False)
      qed
    next
      case (snoc us u)
      then have "acc = u # rev us @ replicate n ''..''"
        using arg_cong [OF acc, of rev] by simp
      moreover have "u \<noteq> ''..''" using ws snoc by (auto simp: plain_seg_def)
      ultimately show ?thesis
        using up ws snoc r by (intro cleanedI [of _ n us]) (auto simp: clean_step_def)
    qed
  qed
qed

lemma fold_clean_cleaned:
  "list_all (\<lambda>w. CHR ''/'' \<notin> set w) segs \<Longrightarrow> cleaned rooted (rev acc)
   \<Longrightarrow> cleaned rooted (rev (fold (clean_step rooted) segs acc))"
  by (induction segs arbitrary: acc) (simp_all add: clean_step_cleaned)

lemma path_segs_cleaned: "cleaned (is_abs s) (path_segs s)"
  unfolding path_segs_def clean_segs_def
  by (rule fold_clean_cleaned) (auto simp: list_all_iff dest: split_char_no_sep intro: cleanedI [of _ 0 "[]"])

lemma fold_clean_plain:
  "list_all plain_seg ws \<Longrightarrow> fold (clean_step rooted) ws acc = rev ws @ acc"
  by (induction ws arbitrary: acc) (auto simp: clean_step_def plain_seg_def)

lemma fold_clean_parents:
  "set acc \<subseteq> {''..''} \<Longrightarrow> fold (clean_step False) (replicate n ''..'') acc = replicate n ''..'' @ acc"
proof (induction n arbitrary: acc)
  case (Suc n)
  then have "clean_step False ''..'' acc = ''..'' # acc"
    by (cases acc) (auto simp: clean_step_def)
  with Suc show ?case by (simp add: replicate_app_Cons_same)
qed simp

lemma clean_segs_id: "cleaned rooted segs \<Longrightarrow> clean_segs rooted segs = segs"
proof -
  assume "cleaned rooted segs"
  then obtain n ws where s: "segs = replicate n ''..'' @ ws" "list_all plain_seg ws" "rooted \<longrightarrow> n = 0"
    unfolding cleaned_def by blast
  show ?thesis
  proof (cases rooted)
    case True
    with s show ?thesis by (simp add: clean_segs_def fold_clean_plain)
  next
    case False
    with s show ?thesis
      by (simp add: clean_segs_def fold_clean_plain fold_clean_parents del: fold_replicate)
  qed
qed

lemma split_char_append: "d \<notin> set w \<Longrightarrow> split_char d (w @ d # s) = w # split_char d s"
  by (induction w) auto

lemma split_no_sep: "d \<notin> set w \<Longrightarrow> split_char d w = [w]"
  by (induction w) auto

lemma split_join:
  "ws \<noteq> [] \<Longrightarrow> list_all (\<lambda>w. d \<notin> set w) ws \<Longrightarrow> split_char d (join_str [d] ws) = ws"
proof (induction ws rule: induct_list012)
  case (3 w v ws)
  then have "split_char d (w @ d # join_str [d] (v # ws)) = w # split_char d (join_str [d] (v # ws))"
    using 3 by (intro split_char_append) simp
  with 3 show ?case by simp
qed (simp_all add: split_no_sep)

lemma cleaned_no_sep: "cleaned rooted segs \<Longrightarrow> list_all (\<lambda>w. CHR ''/'' \<notin> set w) segs"
proof -
  assume "cleaned rooted segs"
  then obtain n ws where "segs = replicate n ''..'' @ ws" "list_all plain_seg ws" unfolding cleaned_def by blast
  moreover have "list_all (\<lambda>w. CHR ''/'' \<notin> set w) (replicate n ''..'')" by (induction n) simp_all
  moreover have "list_all plain_seg ws \<Longrightarrow> list_all (\<lambda>w. CHR ''/'' \<notin> set w) ws"
    by (induction ws) (simp_all add: plain_seg_def)
  ultimately show ?thesis by simp
qed

lemma cleaned_not_empty: "cleaned rooted segs \<Longrightarrow> w \<in> set segs \<Longrightarrow> w \<noteq> []"
proof -
  assume "cleaned rooted segs" and w: "w \<in> set segs"
  then obtain n ws where "segs = replicate n ''..'' @ ws" "list_all plain_seg ws" unfolding cleaned_def by blast
  with w show ?thesis by (auto simp: plain_seg_def list_all_iff)
qed

lemma join_head: "join_str sep (w # ws) = w @ (if ws = [] then '''' else sep @ join_str sep ws)"
  by (cases ws) simp_all

lemma is_abs_render: "cleaned rooted segs \<Longrightarrow> is_abs (render_path rooted segs) = rooted"
proof (cases segs)
  case (Cons w ws)
  assume c: "cleaned rooted segs"
  then obtain d v where "w = d # v" "d \<noteq> CHR ''/''"
    using cleaned_no_sep [OF c] cleaned_not_empty [OF c] Cons by (cases w) auto
  then show ?thesis by (simp add: render_path_def is_abs_def has_prefix_def Cons join_head)
qed (simp add: render_path_def is_abs_def has_prefix_def)

lemma path_segs_render:
  assumes "cleaned rooted segs"
  shows "path_segs (render_path rooted segs) = segs"
proof -
  have c: "clean_segs rooted segs = segs" by (rule clean_segs_id [OF assms])
  have "clean_segs rooted (split_char CHR ''/'' (render_path rooted segs)) = segs"
  proof (cases "segs = []")
    case True
    then show ?thesis by (simp add: render_path_def clean_segs_def clean_step_def)
  next
    case False
    then have s: "split_char CHR ''/'' (join_str ''/'' segs) = segs"
      by (rule split_join) (rule cleaned_no_sep [OF assms])
    have "split_char CHR ''/'' (render_path rooted segs) = (if rooted then [[]] else []) @ segs"
      using s False by (simp add: render_path_def)
    then show ?thesis using c by (cases rooted) (simp_all add: clean_segs_def clean_step_def)
  qed
  then show ?thesis by (simp add: path_segs_def is_abs_render [OF assms])
qed

lemma is_abs_Clean [simp]: "is_abs (path_Clean s) = is_abs s"
  by (simp add: path_Clean_def is_abs_render path_segs_cleaned)

lemma path_segs_Clean [simp]: "path_segs (path_Clean s) = path_segs s"
  by (simp add: path_Clean_def path_segs_render path_segs_cleaned)

lemma path_Clean_idem: "path_Clean (path_Clean s) = path_Clean s"
proof -
  have "path_Clean (path_Clean s) = render_path (is_abs s) (path_segs s)"
    by (subst path_Clean_def) simp
  then show ?thesis by (simp only: path_Clean_def [symmetric])
qed

lemma path_Clean_eq_iff: "path_Clean s = path_Clean t \<longleftrightarrow> is_abs s = is_abs t \<and> path_segs s = path_segs t"
proof
  assume "path_Clean s = path_Clean t"
  then have "is_abs (path_Clean s) = is_abs (path_Clean t)" "path_segs (path_Clean s) = path_segs (path_Clean t)"
    by (simp_all only:)
  then show "is_abs s = is_abs t \<and> path_segs s = path_segs t" by simp
qed (simp add: path_Clean_def)

section \<open>Relative paths between absolute ones\<close>

lemma strip_common_decomp:
  "strip_common xs ys = (b, t) \<Longrightarrow> \<exists>c. xs = c @ b \<and> ys = c @ t"
proof (induction xs ys rule: strip_common.induct)
  case (1 x xs y ys)
  show ?case
  proof (cases "x = y")
    case True
    with 1 obtain c where "xs = c @ b \<and> ys = c @ t" by auto
    with True have "x # xs = (x # c) @ b \<and> y # ys = (x # c) @ t" by simp
    then show ?thesis by blast
  next
    case False
    with "1.prems" show ?thesis by simp
  qed
qed auto

lemma strip_common_prefix: "fst (strip_common xs ys) = [] \<longleftrightarrow> prefix xs ys"
  by (induction xs ys rule: strip_common.induct) auto

lemma abs_segs_plain: "is_abs s \<Longrightarrow> list_all plain_seg (path_segs s)"
  using path_segs_cleaned [of s] by (simp add: cleaned_rooted)

lemma abs_Clean_not_dot: "is_abs s \<Longrightarrow> path_Clean s \<noteq> ''.''"
  by (simp add: path_Clean_def render_path_def)

lemma path_Rel_abs:
  assumes "is_abs base" and "is_abs targ"
  shows "path_Rel base targ = Some (if path_segs base = path_segs targ then ''.''
    else let (b, t) = strip_common (path_segs base) (path_segs targ)
         in join_str ''/'' (replicate (length b) ''..'' @ t))"
proof -
  obtain b t where bt: "strip_common (path_segs base) (path_segs targ) = (b, t)" by fastforce
  from strip_common_decomp [OF this] have "list_all plain_seg b"
    using abs_segs_plain [OF assms(1)] by auto
  then have "\<not> (b \<noteq> [] \<and> hd b = ''..'')" by (cases b) (auto simp: plain_seg_def)
  with assms bt show ?thesis
    by (cases "b = []"; cases "path_segs base = path_segs targ")
      (simp_all add: path_Rel_def path_Clean_eq_iff abs_Clean_not_dot)
qed

end
