(* ===== verification/Permission.thy ===== *)
theory Permission
  imports Paths
begin

text \<open>
  The filesystem permission layer (\<open>core/permission\<close>): requests, rules, one-shot grants carried by
  the context, and \<open>FilesystemPolicy\<close> with its path normalisation and rule matching. The process's
  working directory and home directory are the record \<open>path_env\<close>. A nil context or policy is \<open>None\<close>.
\<close>

section \<open>Requests, rules, grants\<close>

type_synonym 'a checked = "string + 'a"

definition DecisionDeny :: string where "DecisionDeny = ''deny''"
definition DecisionAsk :: string where "DecisionAsk = ''ask''"
definition DecisionAllow :: string where "DecisionAllow = ''allow''"
definition AccessRead :: string where "AccessRead = ''read''"
definition AccessWrite :: string where "AccessWrite = ''write''"

definition Decision_Valid :: "string \<Rightarrow> bool" where
  "Decision_Valid d \<longleftrightarrow> d = DecisionDeny \<or> d = DecisionAsk \<or> d = DecisionAllow"

definition Access_Valid :: "string \<Rightarrow> bool" where
  "Access_Valid a \<longleftrightarrow> a = AccessRead \<or> a = AccessWrite"

definition RuleSource_Valid :: "string \<Rightarrow> bool" where
  "RuleSource_Valid s \<longleftrightarrow> s \<in> set [''userSettings'', ''projectSettings'', ''localSettings'', ''flagSettings'',
     ''policySettings'', ''cliArg'', ''command'', ''session'']"

record rule =
  rl_Source :: string
  rl_Decision :: string
  rl_BaseDir :: string
  rl_Pattern :: string

record rule_set =
  rs_Read :: "rule list"
  rs_Write :: "rule list"

record fs_request =
  fr_ToolName :: string
  fr_Path :: string
  fr_WorkingDir :: string
  fr_Access :: string

record bash_request =
  br_ToolName :: string
  br_Command :: string
  br_WorkingDir :: string

record evaluation =
  ev_Decision :: string
  ev_Rule :: "rule option"
  ev_Message :: string

definition Rule_Validate :: "rule \<Rightarrow> string option" where
  "Rule_Validate r =
    (if \<not> RuleSource_Valid (rl_Source r) then Some (''permission: unsupported rule source '' @ go_quote (rl_Source r))
     else if \<not> Decision_Valid (rl_Decision r)
     then Some (''permission: unsupported rule decision '' @ go_quote (rl_Decision r))
     else if rl_Pattern r = '''' then Some ''permission: rule pattern is required''
     else None)"

fun first_error :: "rule list \<Rightarrow> string option" where
  "first_error [] = None"
| "first_error (r # rs) = (case Rule_Validate r of Some e \<Rightarrow> Some e | None \<Rightarrow> first_error rs)"

definition RuleSet_Validate :: "rule_set \<Rightarrow> string option" where
  "RuleSet_Validate s = (case first_error (rs_Read s) of Some e \<Rightarrow> Some e | None \<Rightarrow> first_error (rs_Write s))"

definition FilesystemRequest_Validate :: "fs_request \<Rightarrow> string option" where
  "FilesystemRequest_Validate r =
    (if fr_ToolName r = '''' then Some ''permission: tool name is required''
     else if fr_Path r = '''' then Some ''permission: path is required''
     else if \<not> Access_Valid (fr_Access r)
     then Some (''permission: unsupported filesystem access '' @ go_quote (fr_Access r))
     else None)"

definition BashRequest_Validate :: "bash_request \<Rightarrow> string option" where
  "BashRequest_Validate r =
    (if br_ToolName r = '''' then Some ''permission: tool name is required''
     else if br_Command r = '''' then Some ''permission: command is required''
     else None)"

text \<open>The grants in the values of a context.\<close>

record perm_ctx =
  fs_grants :: "fs_request list"
  bash_grants :: "bash_request list"
  web_grants :: "(string \<times> string \<times> string) list"

definition background :: perm_ctx where
  "background = \<lparr>fs_grants = [], bash_grants = [], web_grants = []\<rparr>"

definition ctx_or_background :: "perm_ctx option \<Rightarrow> perm_ctx" where
  "ctx_or_background ctx = (case ctx of None \<Rightarrow> background | Some c \<Rightarrow> c)"

definition WithFilesystemGrant :: "perm_ctx option \<Rightarrow> fs_request \<Rightarrow> perm_ctx" where
  "WithFilesystemGrant ctx req = (let c = ctx_or_background ctx in c\<lparr>fs_grants := fs_grants c @ [req]\<rparr>)"

definition hasFilesystemGrant :: "perm_ctx option \<Rightarrow> fs_request \<Rightarrow> bool" where
  "hasFilesystemGrant ctx req \<longleftrightarrow>
    (case ctx of None \<Rightarrow> False | Some c \<Rightarrow> list_ex (\<lambda>g. fr_ToolName g = fr_ToolName req \<and> fr_Path g = fr_Path req
       \<and> fr_WorkingDir g = fr_WorkingDir req \<and> fr_Access g = fr_Access req) (fs_grants c))"

definition WithBashGrant :: "perm_ctx option \<Rightarrow> bash_request \<Rightarrow> perm_ctx" where
  "WithBashGrant ctx req = (let c = ctx_or_background ctx in c\<lparr>bash_grants := bash_grants c @ [req]\<rparr>)"

definition HasBashGrant :: "perm_ctx option \<Rightarrow> bash_request \<Rightarrow> bool" where
  "HasBashGrant ctx req \<longleftrightarrow>
    (case ctx of None \<Rightarrow> False | Some c \<Rightarrow> list_ex (\<lambda>g. br_ToolName g = br_ToolName req
       \<and> br_Command g = br_Command req \<and> br_WorkingDir g = br_WorkingDir req) (bash_grants c))"

definition WithWebFetchGrant :: "perm_ctx option \<Rightarrow> string \<Rightarrow> string \<Rightarrow> string \<Rightarrow> perm_ctx" where
  "WithWebFetchGrant ctx toolName rawURL workingDir =
    (let c = ctx_or_background ctx in c\<lparr>web_grants := web_grants c @ [(toolName, rawURL, workingDir)]\<rparr>)"

definition HasWebFetchGrant :: "perm_ctx option \<Rightarrow> string \<Rightarrow> string \<Rightarrow> string \<Rightarrow> bool" where
  "HasWebFetchGrant ctx toolName rawURL workingDir \<longleftrightarrow>
    (case ctx of None \<Rightarrow> False | Some c \<Rightarrow> list_ex (\<lambda>g. g = (toolName, rawURL, workingDir)) (web_grants c))"

section \<open>Paths\<close>

record path_env =
  env_Getwd :: "string checked"
  env_UserHomeDir :: "string checked"

definition expandPermissionPath :: "path_env \<Rightarrow> string \<Rightarrow> string \<Rightarrow> string checked" where
  "expandPermissionPath env path baseDir =
    bind_res (if baseDir = '''' then env_Getwd env else Inr baseDir) (\<lambda>actualBaseDir.
      if CHR 0x00 \<in> set path \<or> CHR 0x00 \<in> set actualBaseDir then Inl ''path contains null bytes''
      else
        let trimmedPath = trim_space path in
        if trimmedPath = '''' then Inr (path_Clean actualBaseDir)
        else if trimmedPath = ''~'' then bind_res (env_UserHomeDir env) (\<lambda>h. Inr (path_Clean h))
        else if has_prefix trimmedPath ''~/'' \<or> has_prefix trimmedPath [CHR ''~'', CHR 0x5C]
        then bind_res (env_UserHomeDir env) (\<lambda>h. Inr (path_Clean (path_Join h (drop 2 trimmedPath))))
        else if is_abs trimmedPath then Inr (path_Clean trimmedPath)
        else Inr (path_Clean (path_Join actualBaseDir trimmedPath)))"

definition normalizeFilesystemRequestPath :: "path_env \<Rightarrow> string \<Rightarrow> string \<Rightarrow> (string \<times> string) checked" where
  "normalizeFilesystemRequestPath env path workingDir =
    bind_res (expandPermissionPath env workingDir '''') (\<lambda>normalizedWorkingDir.
    bind_res (expandPermissionPath env path normalizedWorkingDir) (\<lambda>normalizedPath.
      Inr (normalizedPath, normalizedWorkingDir)))"

definition pathWithinRoot :: "string \<Rightarrow> string \<Rightarrow> bool" where
  "pathWithinRoot root target =
    (case path_Rel root target of
       None \<Rightarrow> False
     | Some relativePath \<Rightarrow>
        if relativePath = ''.'' then True
        else if relativePath = ''..'' then False
        else \<not> has_prefix relativePath ''../'')"

section \<open>Rule matching\<close>

definition splitPermissionSegments :: "string \<Rightarrow> string list" where
  "splitPermissionSegments v = (if v = '''' then [] else split_char CHR ''/'' v)"

function matchPatternSegments :: "string list \<Rightarrow> string list \<Rightarrow> bool" where
  "matchPatternSegments pathSegments [] = (pathSegments = [])"
| "matchPatternSegments pathSegments (q # qs) =
    (if q = ''**''
     then (if matchPatternSegments pathSegments qs then True
           else case pathSegments of [] \<Rightarrow> False | p # ps \<Rightarrow> matchPatternSegments ps (q # qs))
     else case pathSegments of
       [] \<Rightarrow> False
     | p # ps \<Rightarrow> if path_Match q p then matchPatternSegments ps qs else False)"
  by pat_completeness auto

termination by (relation "measure (\<lambda>(ps, qs). length ps + length qs)") auto

definition normal_rel :: "string \<Rightarrow> string" where
  "normal_rel v = (let r = trim_prefix (path_Clean v) ''./'' in if r = ''.'' then '''' else r)"

definition matchPermissionPattern :: "string \<Rightarrow> string \<Rightarrow> bool" where
  "matchPermissionPattern relativePath patternValue =
    (if patternValue = '''' then False
     else matchPatternSegments (splitPermissionSegments (normal_rel relativePath))
       (splitPermissionSegments (normal_rel patternValue)))"

definition rule_root :: "path_env \<Rightarrow> string \<Rightarrow> rule \<Rightarrow> string checked" where
  "rule_root env normalizedWorkingDir r =
    (if trim_space (rl_BaseDir r) \<noteq> '''' then expandPermissionPath env (rl_BaseDir r) normalizedWorkingDir
     else Inr normalizedWorkingDir)"

definition matchRule :: "path_env \<Rightarrow> string \<Rightarrow> string \<Rightarrow> rule \<Rightarrow> bool checked" where
  "matchRule env normalizedPath normalizedWorkingDir r =
    bind_res (rule_root env normalizedWorkingDir r) (\<lambda>ruleRoot.
      if \<not> pathWithinRoot ruleRoot normalizedPath then Inr False
      else case path_Rel ruleRoot normalizedPath of
        None \<Rightarrow> Inl ''Rel: can't make the path relative''
      | Some relativePath \<Rightarrow> Inr (matchPermissionPattern relativePath (trim_space (rl_Pattern r))))"

definition matchGlobRule :: "path_env \<Rightarrow> string \<Rightarrow> string \<Rightarrow> string \<Rightarrow> rule \<Rightarrow> bool checked" where
  "matchGlobRule env normalizedPath normalizedWorkingDir pattern r =
    bind_res (rule_root env normalizedWorkingDir r) (\<lambda>ruleRoot.
      if \<not> pathWithinRoot ruleRoot normalizedPath then Inr False
      else case path_Rel ruleRoot normalizedPath of
        None \<Rightarrow> Inl ''Rel: can't make the path relative''
      | Some relativeRoot \<Rightarrow>
          let normalizedPattern = trim_space pattern in
          if normalizedPattern = '''' then Inr False
          else let candidatePattern =
                 (if relativeRoot \<noteq> ''.'' \<and> relativeRoot \<noteq> '''' then path_Join relativeRoot normalizedPattern
                  else normalizedPattern)
               in Inr (matchPermissionPattern candidatePattern (trim_space (rl_Pattern r))))"

text \<open>The first rule with the given decision that matches; a rule whose match fails is skipped.\<close>

definition first_match :: "(rule \<Rightarrow> bool checked) \<Rightarrow> rule list \<Rightarrow> string \<Rightarrow> rule option" where
  "first_match m rules decision = List.find (\<lambda>r. rl_Decision r = decision \<and> m r = Inr True) rules"

definition matchingRuleForInput :: "path_env \<Rightarrow> string \<Rightarrow> string \<Rightarrow> rule list \<Rightarrow> string \<Rightarrow> rule option" where
  "matchingRuleForInput env normalizedPath normalizedWorkingDir rules decision =
    first_match (matchRule env normalizedPath normalizedWorkingDir) rules decision"

definition matchingGlobRuleForInput ::
    "path_env \<Rightarrow> string \<Rightarrow> string \<Rightarrow> string \<Rightarrow> rule list \<Rightarrow> string \<Rightarrow> rule option" where
  "matchingGlobRuleForInput env normalizedPath normalizedWorkingDir pattern rules decision =
    first_match (matchGlobRule env normalizedPath normalizedWorkingDir pattern) rules decision"

section \<open>The policy\<close>

record fs_policy =
  pol_Rules :: rule_set
  pol_AdditionalReadRoots :: "string list"

definition NewFilesystemPolicy :: "rule_set \<Rightarrow> fs_policy checked" where
  "NewFilesystemPolicy rules =
    (case RuleSet_Validate rules of
       Some e \<Rightarrow> Inl e
     | None \<Rightarrow> Inr \<lparr>pol_Rules = rules, pol_AdditionalReadRoots = []\<rparr>)"

definition AddReadRoot :: "string \<Rightarrow> fs_policy option \<Rightarrow> fs_policy option" where
  "AddReadRoot root p =
    (case p of
       None \<Rightarrow> None
     | Some pol \<Rightarrow>
        let normalized = path_Clean (trim_space root) in
        if normalized = '''' then Some pol
        else if normalized \<in> set (pol_AdditionalReadRoots pol) then Some pol
        else Some (pol\<lparr>pol_AdditionalReadRoots := pol_AdditionalReadRoots pol @ [normalized]\<rparr>))"

definition pathAllowedForRead :: "fs_policy \<Rightarrow> string \<Rightarrow> string \<Rightarrow> bool" where
  "pathAllowedForRead pol workingDir target \<longleftrightarrow>
    pathWithinRoot workingDir target \<or> list_ex (\<lambda>root. pathWithinRoot root target) (pol_AdditionalReadRoots pol)"

definition ask_read :: "string \<Rightarrow> string" where
  "ask_read p = ''Claude requested permissions to read from '' @ p @ '', but you haven't granted it yet.''"

definition ask_write :: "string \<Rightarrow> string" where
  "ask_write p = ''Claude requested permissions to write to '' @ p @ '', but you haven't granted it yet.''"

abbreviation allow :: "rule option \<Rightarrow> evaluation" where
  "allow r \<equiv> \<lparr>ev_Decision = DecisionAllow, ev_Rule = r, ev_Message = ''''\<rparr>"

abbreviation deny :: "rule option \<Rightarrow> string \<Rightarrow> evaluation" where
  "deny r msg \<equiv> \<lparr>ev_Decision = DecisionDeny, ev_Rule = r, ev_Message = msg\<rparr>"

abbreviation ask :: "rule option \<Rightarrow> string \<Rightarrow> evaluation" where
  "ask r msg \<equiv> \<lparr>ev_Decision = DecisionAsk, ev_Rule = r, ev_Message = msg\<rparr>"

text \<open>The decision on a read, given the first matching rule of each decision.\<close>

definition decide_read :: "(string \<Rightarrow> rule option) \<Rightarrow> bool \<Rightarrow> fs_request \<Rightarrow> evaluation" where
  "decide_read hit allowed req =
    (case hit DecisionDeny of
       Some r \<Rightarrow> deny (Some r) (''Permission to read '' @ fr_Path req @ '' has been denied.'')
     | None \<Rightarrow>
    (case hit DecisionAsk of
       Some r \<Rightarrow> ask (Some r) (ask_read (fr_Path req))
     | None \<Rightarrow>
        if allowed then allow None
        else case hit DecisionAllow of
          Some r \<Rightarrow> allow (Some r)
        | None \<Rightarrow> ask None (ask_read (fr_Path req))))"

definition evaluateRead :: "path_env \<Rightarrow> fs_policy \<Rightarrow> fs_request \<Rightarrow> string \<Rightarrow> string \<Rightarrow> evaluation" where
  "evaluateRead env pol req normalizedPath normalizedWorkingDir =
    decide_read (matchingRuleForInput env normalizedPath normalizedWorkingDir (rs_Read (pol_Rules pol)))
      (pathAllowedForRead pol normalizedWorkingDir normalizedPath) req"

definition evaluateWrite :: "path_env \<Rightarrow> fs_policy \<Rightarrow> fs_request \<Rightarrow> string \<Rightarrow> string \<Rightarrow> evaluation" where
  "evaluateWrite env pol req normalizedPath normalizedWorkingDir =
    (let hit = matchingRuleForInput env normalizedPath normalizedWorkingDir (rs_Write (pol_Rules pol)) in
     case hit DecisionDeny of
       Some r \<Rightarrow> deny (Some r) (''Permission to write '' @ fr_Path req @ '' has been denied.'')
     | None \<Rightarrow>
    (case hit DecisionAsk of
       Some r \<Rightarrow> ask (Some r) (ask_write (fr_Path req))
     | None \<Rightarrow>
    (case hit DecisionAllow of
       Some r \<Rightarrow> allow (Some r)
     | None \<Rightarrow> ask None (ask_write (fr_Path req)))))"

definition EvaluateFilesystem :: "path_env \<Rightarrow> fs_policy \<Rightarrow> perm_ctx option \<Rightarrow> fs_request \<Rightarrow> evaluation" where
  "EvaluateFilesystem env pol ctx req =
    (case FilesystemRequest_Validate req of
       Some e \<Rightarrow> deny None (''permission: invalid filesystem request: '' @ e)
     | None \<Rightarrow>
        if hasFilesystemGrant ctx req then allow None
        else case normalizeFilesystemRequestPath env (fr_Path req) (fr_WorkingDir req) of
          Inl e \<Rightarrow> deny None (''permission: normalize filesystem path: '' @ e)
        | Inr (normalizedPath, normalizedWorkingDir) \<Rightarrow>
            if fr_Access req = AccessRead then evaluateRead env pol req normalizedPath normalizedWorkingDir
            else if fr_Access req = AccessWrite then evaluateWrite env pol req normalizedPath normalizedWorkingDir
            else deny None (''permission: unsupported filesystem access '' @ go_quote (fr_Access req)))"

definition CheckReadPermissionForTool ::
    "path_env \<Rightarrow> fs_policy \<Rightarrow> perm_ctx option \<Rightarrow> string \<Rightarrow> string \<Rightarrow> string \<Rightarrow> evaluation" where
  "CheckReadPermissionForTool env pol ctx toolName path workingDir = EvaluateFilesystem env pol ctx
    \<lparr>fr_ToolName = toolName, fr_Path = path, fr_WorkingDir = workingDir, fr_Access = AccessRead\<rparr>"

definition CheckWritePermissionForTool ::
    "path_env \<Rightarrow> fs_policy \<Rightarrow> perm_ctx option \<Rightarrow> string \<Rightarrow> string \<Rightarrow> string \<Rightarrow> evaluation" where
  "CheckWritePermissionForTool env pol ctx toolName path workingDir = EvaluateFilesystem env pol ctx
    \<lparr>fr_ToolName = toolName, fr_Path = path, fr_WorkingDir = workingDir, fr_Access = AccessWrite\<rparr>"

definition CheckReadPermissionForGlob ::
    "path_env \<Rightarrow> fs_policy \<Rightarrow> perm_ctx option \<Rightarrow> string \<Rightarrow> string \<Rightarrow> string \<Rightarrow> string \<Rightarrow> evaluation" where
  "CheckReadPermissionForGlob env pol ctx toolName searchRoot workingDir pattern =
    (let req = \<lparr>fr_ToolName = toolName, fr_Path = searchRoot, fr_WorkingDir = workingDir, fr_Access = AccessRead\<rparr>
     in case FilesystemRequest_Validate req of
       Some e \<Rightarrow> deny None (''permission: invalid filesystem request: '' @ e)
     | None \<Rightarrow>
        if hasFilesystemGrant ctx req then allow None
        else case normalizeFilesystemRequestPath env (fr_Path req) (fr_WorkingDir req) of
          Inl e \<Rightarrow> deny None (''permission: normalize filesystem path: '' @ e)
        | Inr (normalizedPath, normalizedWorkingDir) \<Rightarrow>
            decide_read
              (matchingGlobRuleForInput env normalizedPath normalizedWorkingDir pattern (rs_Read (pol_Rules pol)))
              (pathAllowedForRead pol normalizedWorkingDir normalizedPath) req)"

record permission_error =
  pe_ToolName :: string
  pe_Path :: string
  pe_Access :: string
  pe_Decision :: string
  pe_Rule :: "rule option"
  pe_Message :: string

definition ToError :: "evaluation \<Rightarrow> fs_request \<Rightarrow> permission_error option" where
  "ToError e req =
    (if ev_Decision e = DecisionAllow then None
     else Some \<lparr>pe_ToolName = fr_ToolName req, pe_Path = fr_Path req, pe_Access = fr_Access req,
       pe_Decision = ev_Decision e, pe_Rule = ev_Rule e, pe_Message = ev_Message e\<rparr>)"

section \<open>Containment\<close>

lemma join_first_seg:
  assumes "list_all plain_seg (w # ws)"
  shows "\<not> has_prefix (join_str ''/'' (w # ws)) ''../''" and "join_str ''/'' (w # ws) \<noteq> ''..''"
    and "join_str ''/'' (w # ws) \<noteq> ''.''"
proof -
  have s: "split_char CHR ''/'' (join_str ''/'' (w # ws)) = w # ws"
    using assms by (intro split_join) (auto simp: plain_seg_def list_all_iff)
  have w: "w \<noteq> ''..''" "w \<noteq> ''.''" using assms by (simp_all add: plain_seg_def)
  show "\<not> has_prefix (join_str ''/'' (w # ws)) ''../''"
  proof
    assume "has_prefix (join_str ''/'' (w # ws)) ''../''"
    then obtain v where "join_str ''/'' (w # ws) = ''..'' @ CHR ''/'' # v" by (auto simp: has_prefix_iff)
    then have "split_char CHR ''/'' (join_str ''/'' (w # ws)) = ''..'' # split_char CHR ''/'' v" by simp
    with s w show False by simp
  qed
  show "join_str ''/'' (w # ws) \<noteq> ''..''" "join_str ''/'' (w # ws) \<noteq> ''.''"
    using s w by auto
qed

lemma parents_prefix:
  "join_str ''/'' (''..'' # ws) = ''..'' \<or> has_prefix (join_str ''/'' (''..'' # ws)) ''../''"
  by (cases ws) (auto simp: has_prefix_def)

text \<open>Containment of absolute paths is containment of their elements.\<close>

lemma pathWithinRoot_abs:
  assumes "is_abs root" and "is_abs target"
  shows "pathWithinRoot root target \<longleftrightarrow> prefix (path_segs root) (path_segs target)"
proof (cases "path_segs root = path_segs target")
  case True
  then show ?thesis using path_Rel_abs [OF assms] by (simp add: pathWithinRoot_def)
next
  case False
  obtain b t where bt: "strip_common (path_segs root) (path_segs target) = (b, t)" by fastforce
  from strip_common_decomp [OF bt] obtain c where c: "path_segs root = c @ b" "path_segs target = c @ t" by blast
  have rel: "path_Rel root target = Some (join_str ''/'' (replicate (length b) ''..'' @ t))"
    using path_Rel_abs [OF assms] False bt by simp
  have pre: "prefix (path_segs root) (path_segs target) \<longleftrightarrow> b = []"
    using strip_common_prefix [of "path_segs root" "path_segs target"] bt by simp
  show ?thesis
  proof (cases b)
    case Nil
    with c False obtain w ws where t: "t = w # ws" by (cases t) auto
    have "list_all plain_seg t" using abs_segs_plain [OF assms(2)] c by simp
    with join_first_seg [of w ws] t rel pre Nil show ?thesis by (simp add: pathWithinRoot_def)
  next
    case (Cons x xs)
    with parents_prefix [of "replicate (length xs) ''..'' @ t"] rel pre show ?thesis
      by (auto simp: pathWithinRoot_def has_prefix_def)
  qed
qed

lemma pathWithinRoot_rel_root: "is_abs target \<Longrightarrow> \<not> is_abs root \<Longrightarrow> \<not> pathWithinRoot root target"
  by (auto simp: pathWithinRoot_def path_Rel_def path_Clean_eq_iff)

definition abs_env :: "path_env \<Rightarrow> bool" where
  "abs_env env \<longleftrightarrow> (\<forall>d. env_Getwd env = Inr d \<longrightarrow> is_abs d) \<and> (\<forall>d. env_UserHomeDir env = Inr d \<longrightarrow> is_abs d)"

lemma is_abs_append: "is_abs a \<Longrightarrow> is_abs (a @ b)"
  by (auto simp: is_abs_def has_prefix_iff)

lemma is_abs_Join: "is_abs a \<Longrightarrow> is_abs (path_Join a b)"
  by (auto simp: path_Join_def is_abs_append) (simp add: is_abs_def has_prefix_def)

lemma expandPermissionPath_abs:
  assumes "abs_env env" and "baseDir = '''' \<or> is_abs baseDir" and "expandPermissionPath env path baseDir = Inr p"
  shows "is_abs p"
  using assms
  by (auto simp: expandPermissionPath_def abs_env_def bind_res_Inr_iff Let_def is_abs_Join split: if_splits)

lemma normalize_abs:
  assumes "abs_env env" and "normalizeFilesystemRequestPath env path wd = Inr (p, d)"
  shows "is_abs p \<and> is_abs d"
proof -
  from assms(2) have d: "expandPermissionPath env wd '''' = Inr d" and p: "expandPermissionPath env path d = Inr p"
    by (auto simp: normalizeFilesystemRequestPath_def bind_res_Inr_iff)
  from expandPermissionPath_abs [OF assms(1) _ d] have "is_abs d" by simp
  with expandPermissionPath_abs [OF assms(1) _ p] show ?thesis by simp
qed

section \<open>Rules\<close>

lemma first_match_None: "first_match m rules dec = None \<longleftrightarrow> \<not> (\<exists>r\<in>set rules. rl_Decision r = dec \<and> m r = Inr True)"
  by (auto simp: first_match_def find_None_iff)

lemma first_match_Some: "first_match m rules dec = Some r \<Longrightarrow> r \<in> set rules \<and> rl_Decision r = dec \<and> m r = Inr True"
  by (auto simp: first_match_def find_Some_iff)

lemma decisions_distinct [simp]:
  "DecisionDeny \<noteq> DecisionAsk" "DecisionDeny \<noteq> DecisionAllow" "DecisionAsk \<noteq> DecisionAllow"
  "DecisionAsk \<noteq> DecisionDeny" "DecisionAllow \<noteq> DecisionDeny" "DecisionAllow \<noteq> DecisionAsk"
  "AccessRead \<noteq> AccessWrite" "AccessWrite \<noteq> AccessRead"
  by (simp_all add: DecisionDeny_def DecisionAsk_def DecisionAllow_def AccessRead_def AccessWrite_def)

text \<open>Whether some rule with a decision matches.\<close>

definition hit :: "(rule \<Rightarrow> bool checked) \<Rightarrow> rule set \<Rightarrow> string \<Rightarrow> bool" where
  "hit m rules dec \<longleftrightarrow> (\<exists>r\<in>rules. rl_Decision r = dec \<and> m r = Inr True)"

lemma first_match_hit: "(first_match m rules dec = None) = (\<not> hit m (set rules) dec)"
  by (simp add: first_match_None hit_def)

lemma decide_read_decision:
  "ev_Decision (decide_read (first_match m rules) allowed req) =
    (if hit m (set rules) DecisionDeny then DecisionDeny
     else if hit m (set rules) DecisionAsk then DecisionAsk
     else if allowed \<or> hit m (set rules) DecisionAllow then DecisionAllow
     else DecisionAsk)"
  by (auto simp: decide_read_def first_match_hit [symmetric] split: option.split)

lemma evaluateRead_decision:
  "ev_Decision (evaluateRead env pol req p d) =
    (if hit (matchRule env p d) (set (rs_Read (pol_Rules pol))) DecisionDeny then DecisionDeny
     else if hit (matchRule env p d) (set (rs_Read (pol_Rules pol))) DecisionAsk then DecisionAsk
     else if pathAllowedForRead pol d p \<or> hit (matchRule env p d) (set (rs_Read (pol_Rules pol))) DecisionAllow
     then DecisionAllow else DecisionAsk)"
  unfolding evaluateRead_def matchingRuleForInput_def by (rule decide_read_decision)

lemma evaluateWrite_decision:
  "ev_Decision (evaluateWrite env pol req p d) =
    (if hit (matchRule env p d) (set (rs_Write (pol_Rules pol))) DecisionDeny then DecisionDeny
     else if hit (matchRule env p d) (set (rs_Write (pol_Rules pol))) DecisionAsk then DecisionAsk
     else if hit (matchRule env p d) (set (rs_Write (pol_Rules pol))) DecisionAllow
     then DecisionAllow else DecisionAsk)"
  by (auto simp: evaluateWrite_def matchingRuleForInput_def Let_def first_match_hit [symmetric] split: option.split)

text \<open>
  The order of the permission rules does not matter: two policies with the same rules, in any
  order and with any repetition, and the same extra roots decide every request alike, and so do
  the checks of the glob tool.
\<close>

theorem rule_order_irrelevant:
  assumes "set (rs_Read (pol_Rules p)) = set (rs_Read (pol_Rules q))"
    and "set (rs_Write (pol_Rules p)) = set (rs_Write (pol_Rules q))"
    and "set (pol_AdditionalReadRoots p) = set (pol_AdditionalReadRoots q)"
  shows "ev_Decision (EvaluateFilesystem env p ctx req) = ev_Decision (EvaluateFilesystem env q ctx req)
    \<and> ev_Decision (CheckReadPermissionForGlob env p ctx tool root wd pat)
      = ev_Decision (CheckReadPermissionForGlob env q ctx tool root wd pat)"
proof -
  have allowed: "pathAllowedForRead p d t = pathAllowedForRead q d t" for d t
    using assms(3) by (simp add: pathAllowedForRead_def list_ex_iff)
  have "ev_Decision (EvaluateFilesystem env p ctx req) = ev_Decision (EvaluateFilesystem env q ctx req)"
    unfolding EvaluateFilesystem_def
    by (auto simp: evaluateRead_decision evaluateWrite_decision assms allowed split: option.split sum.split)
  moreover have "ev_Decision (CheckReadPermissionForGlob env p ctx tool root wd pat)
      = ev_Decision (CheckReadPermissionForGlob env q ctx tool root wd pat)"
    unfolding CheckReadPermissionForGlob_def Let_def matchingGlobRuleForInput_def
    by (auto simp: decide_read_decision assms(1) allowed split: option.split sum.split)
  ultimately show ?thesis ..
qed

text \<open>
  C10: A read that is allowed without asking, and not because of a grant or an allow rule, is a read
  inside the working directory or an added root: whatever parents, home prefixes and repeated
  slashes the requested path holds, the elements of the normalised path extend those of such a
  directory.
\<close>

theorem unprompted_read_is_confined:
  assumes "abs_env env" and "fr_Access req = AccessRead" and "\<not> hasFilesystemGrant ctx req"
    and "ev_Decision (EvaluateFilesystem env pol ctx req) = DecisionAllow"
    and "ev_Rule (EvaluateFilesystem env pol ctx req) = None"
  shows "\<exists>p d. normalizeFilesystemRequestPath env (fr_Path req) (fr_WorkingDir req) = Inr (p, d)
    \<and> (prefix (path_segs d) (path_segs p)
       \<or> (\<exists>root\<in>set (pol_AdditionalReadRoots pol). is_abs root \<and> prefix (path_segs root) (path_segs p)))"
proof -
  obtain p d where n: "normalizeFilesystemRequestPath env (fr_Path req) (fr_WorkingDir req) = Inr (p, d)"
    and e: "EvaluateFilesystem env pol ctx req = evaluateRead env pol req p d"
    using assms(2-4) by (auto simp: EvaluateFilesystem_def split: option.splits sum.splits)
  have abs: "is_abs p" "is_abs d" using normalize_abs [OF assms(1) n] by simp_all
  have "pathAllowedForRead pol d p"
    using assms(4,5) unfolding e
    by (auto simp: evaluateRead_def decide_read_def split: option.splits if_splits)
  then have "prefix (path_segs d) (path_segs p)
      \<or> (\<exists>root\<in>set (pol_AdditionalReadRoots pol). is_abs root \<and> prefix (path_segs root) (path_segs p))"
    using abs pathWithinRoot_abs [OF _ abs(1)] pathWithinRoot_rel_root [OF abs(1)]
    by (auto simp: pathAllowedForRead_def list_ex_iff)
  with n show ?thesis by blast
qed

definition demo_env :: path_env where
  "demo_env = \<lparr>env_Getwd = Inr ''/w'', env_UserHomeDir = Inr ''/home/u''\<rparr>"

definition demo_policy :: "rule list \<Rightarrow> rule list \<Rightarrow> fs_policy" where
  "demo_policy rd wr = \<lparr>pol_Rules = \<lparr>rs_Read = rd, rs_Write = wr\<rparr>, pol_AdditionalReadRoots = []\<rparr>"

definition read_of :: "string \<Rightarrow> fs_request" where
  "read_of p = \<lparr>fr_ToolName = ''Read'', fr_Path = p, fr_WorkingDir = ''/w'', fr_Access = AccessRead\<rparr>"

lemmas path_eval = is_abs_def has_prefix_def path_Clean_def path_segs_def clean_segs_def clean_step_def render_path_def
  path_Join_def path_Rel_def trim_space_def is_space_def trim_prefix_def
  expandPermissionPath_def normalizeFilesystemRequestPath_def demo_env_def

lemmas eval_request = EvaluateFilesystem_def FilesystemRequest_Validate_def Access_Valid_def read_of_def
  hasFilesystemGrant_def demo_policy_def

lemma demo_env_abs: "abs_env demo_env"
  by (simp add: abs_env_def demo_env_def is_abs_def has_prefix_def)

lemma demo_read_inside:
  "normalizeFilesystemRequestPath demo_env ''a/../b'' ''/w'' = Inr (''/w/b'', ''/w'')"
  by (simp add: path_eval)

theorem unprompted_read_is_confined_witness:
  "EvaluateFilesystem demo_env (demo_policy [] []) None (read_of ''a/../b'') = allow None
   \<and> prefix (path_segs ''/w'') (path_segs ''/w/b'')"
proof -
  let ?req = "read_of ''a/../b''"
  have e: "EvaluateFilesystem demo_env (demo_policy [] []) None ?req = allow None"
    using demo_read_inside
    by (simp add: eval_request evaluateRead_def decide_read_def matchingRuleForInput_def first_match_def
        pathAllowedForRead_def path_eval pathWithinRoot_def)
  have "\<exists>p d. normalizeFilesystemRequestPath demo_env (fr_Path ?req) (fr_WorkingDir ?req) = Inr (p, d)
    \<and> (prefix (path_segs d) (path_segs p)
       \<or> (\<exists>root\<in>set (pol_AdditionalReadRoots (demo_policy [] [])). is_abs root \<and> prefix (path_segs root) (path_segs p)))"
  proof (rule unprompted_read_is_confined [OF demo_env_abs])
    show "fr_Access ?req = AccessRead" by (simp add: read_of_def)
    show "\<not> hasFilesystemGrant None ?req" by (simp add: hasFilesystemGrant_def)
  qed (simp_all add: e)
  then show ?thesis
    using e demo_read_inside by (simp add: read_of_def demo_policy_def path_segs_def clean_segs_def clean_step_def is_abs_def has_prefix_def)
qed

theorem rule_order_irrelevant_witness:
  "let a = \<lparr>rl_Source = ''userSettings'', rl_Decision = DecisionAllow, rl_BaseDir = '''', rl_Pattern = ''x''\<rparr>;
       b = \<lparr>rl_Source = ''userSettings'', rl_Decision = DecisionDeny, rl_BaseDir = '''', rl_Pattern = ''x''\<rparr>
   in ev_Decision (EvaluateFilesystem demo_env (demo_policy [a, b] []) None (read_of ''x''))
    = ev_Decision (EvaluateFilesystem demo_env (demo_policy [b, a, b] []) None (read_of ''x''))"
  unfolding Let_def by (rule rule_order_irrelevant [THEN conjunct1]) (auto simp: demo_policy_def)

text \<open>
  C11: Writing is never allowed by default: a write is allowed only by a grant, or by an allow rule
  that matches while no deny and no ask rule does.
\<close>

theorem write_needs_a_rule:
  assumes "fr_Access req = AccessWrite" and "\<not> hasFilesystemGrant ctx req"
    and "ev_Decision (EvaluateFilesystem env pol ctx req) = DecisionAllow"
  shows "\<exists>p d. normalizeFilesystemRequestPath env (fr_Path req) (fr_WorkingDir req) = Inr (p, d)
    \<and> hit (matchRule env p d) (set (rs_Write (pol_Rules pol))) DecisionAllow
    \<and> \<not> hit (matchRule env p d) (set (rs_Write (pol_Rules pol))) DecisionAsk
    \<and> \<not> hit (matchRule env p d) (set (rs_Write (pol_Rules pol))) DecisionDeny"
  using assms
  by (auto simp: EvaluateFilesystem_def evaluateWrite_decision split: option.splits sum.splits if_splits)

section \<open>Patterns\<close>

lemma match_after_star:
  "matchPatternSegments ps (''**'' # b) \<longleftrightarrow> (\<exists>v w. ps = v @ w \<and> matchPatternSegments w b)"
proof (induction ps)
  case (Cons p ps)
  have "(\<exists>v w. p # ps = v @ w \<and> matchPatternSegments w b)
      \<longleftrightarrow> matchPatternSegments (p # ps) b \<or> (\<exists>v w. ps = v @ w \<and> matchPatternSegments w b)"
    by (auto simp: Cons_eq_append_conv)
  with Cons show ?case by simp
qed simp

text \<open>
  A \<open>**\<close> in a pattern stands for any number of path elements: a path matches a pattern with
  \<open>**\<close> exactly when it splits into a part that matches what is before, any elements, and a part
  that matches what is after.
\<close>

theorem double_star_splits:
  "matchPatternSegments ps (a @ ''**'' # b)
    \<longleftrightarrow> (\<exists>u v w. ps = u @ v @ w \<and> matchPatternSegments u a \<and> matchPatternSegments w b)"
proof (induction a arbitrary: ps)
  case Nil
  show ?case using match_after_star [of ps b] by auto
next
  case (Cons q a)
  show ?case
  proof (cases "q = ''**''")
    case True
    have "matchPatternSegments ps ((q # a) @ ''**'' # b)
        \<longleftrightarrow> (\<exists>x y. ps = x @ y \<and> (\<exists>u v w. y = u @ v @ w \<and> matchPatternSegments u a \<and> matchPatternSegments w b))"
      using match_after_star [of ps "a @ ''**'' # b"] True by (simp only: Cons.IH append_Cons)
    also have "\<dots> \<longleftrightarrow> (\<exists>u v w. ps = u @ v @ w \<and> (\<exists>x y. u = x @ y \<and> matchPatternSegments y a) \<and> matchPatternSegments w b)"
      by (metis append.assoc)
    finally show ?thesis using match_after_star [of _ a] True by simp
  next
    case False
    show ?thesis
    proof (cases ps)
      case Nil
      with False show ?thesis by simp
    next
      case ps: (Cons p ps')
      have "(\<exists>u v w. p # ps' = u @ v @ w \<and> matchPatternSegments u (q # a) \<and> matchPatternSegments w b)
          \<longleftrightarrow> path_Match q p \<and> (\<exists>u v w. ps' = u @ v @ w \<and> matchPatternSegments u a \<and> matchPatternSegments w b)"
      proof
        assume "\<exists>u v w. p # ps' = u @ v @ w \<and> matchPatternSegments u (q # a) \<and> matchPatternSegments w b"
        then obtain u v w where u: "p # ps' = u @ v @ w" "matchPatternSegments u (q # a)" "matchPatternSegments w b" by blast
        with False obtain u' where "u = p # u'" "path_Match q p" "matchPatternSegments u' a"
          by (cases u) (auto split: if_splits)
        with u show "path_Match q p \<and> (\<exists>u v w. ps' = u @ v @ w \<and> matchPatternSegments u a \<and> matchPatternSegments w b)"
          by auto
      next
        assume "path_Match q p \<and> (\<exists>u v w. ps' = u @ v @ w \<and> matchPatternSegments u a \<and> matchPatternSegments w b)"
        then obtain u v w where "path_Match q p" "ps' = u @ v @ w" "matchPatternSegments u a" "matchPatternSegments w b" by blast
        with False have "p # ps' = (p # u) @ v @ w \<and> matchPatternSegments (p # u) (q # a) \<and> matchPatternSegments w b" by simp
        then show "\<exists>u v w. p # ps' = u @ v @ w \<and> matchPatternSegments u (q # a) \<and> matchPatternSegments w b" by blast
      qed
      with False ps Cons.IH [of ps'] show ?thesis by simp
    qed
  qed
qed

definition literal_seg :: "string \<Rightarrow> bool" where
  "literal_seg w \<longleftrightarrow> plain_seg w \<and> list_all (\<lambda>c. c \<noteq> CHR ''*'' \<and> c \<noteq> CHR ''?'' \<and> c \<noteq> CHR ''['' \<and> c \<noteq> CHR 0x5C) w"

lemma path_Match_literal:
  "list_all (\<lambda>c. c \<noteq> CHR ''*'' \<and> c \<noteq> CHR ''?'' \<and> c \<noteq> CHR ''['' \<and> c \<noteq> CHR 0x5C) w \<Longrightarrow> path_Match w s \<longleftrightarrow> w = s"
  by (induction w arbitrary: s) (auto split: list.split)

lemma match_literal_prefix:
  "list_all literal_seg ws \<Longrightarrow> matchPatternSegments ps (ws @ [''**'']) \<longleftrightarrow> prefix ws ps"
proof (induction ws arbitrary: ps)
  case Nil
  show ?case unfolding append_Nil match_after_star by simp
next
  case (Cons w ws)
  then have "w \<noteq> ''**''" by (auto simp: literal_seg_def)
  with Cons show ?case
    by (cases ps) (auto simp: literal_seg_def path_Match_literal)
qed

lemma normal_rel_segs:
  assumes "list_all plain_seg ws"
  shows "splitPermissionSegments (normal_rel (render_path False ws)) = ws"
proof -
  have c: "cleaned False ws" using assms by (intro cleanedI [of _ 0 ws]) simp_all
  have "path_Clean (render_path False ws) = render_path False ws"
    by (simp add: path_Clean_def [of "render_path False ws"] is_abs_render [OF c] path_segs_render [OF c])
  moreover have "splitPermissionSegments (let r = trim_prefix (render_path False ws) ''./'' in if r = ''.'' then '''' else r) = ws"
  proof (cases ws)
    case Nil
    then show ?thesis by (simp add: render_path_def trim_prefix_def has_prefix_def splitPermissionSegments_def)
  next
    case (Cons w v)
    have s: "split_char CHR ''/'' (join_str ''/'' ws) = ws"
      using assms Cons by (intro split_join) (auto simp: plain_seg_def list_all_iff)
    have "\<not> has_prefix (join_str ''/'' ws) ''./''"
    proof
      assume "has_prefix (join_str ''/'' ws) ''./''"
      then obtain u where "join_str ''/'' ws = ''.'' @ CHR ''/'' # u" by (auto simp: has_prefix_iff)
      then have "split_char CHR ''/'' (join_str ''/'' ws) = ''.'' # split_char CHR ''/'' u" by simp
      with s Cons assms show False by (simp add: plain_seg_def)
    qed
    moreover have "join_str ''/'' ws \<noteq> ''.''" "join_str ''/'' ws \<noteq> ''''"
      using s Cons assms by (auto simp: plain_seg_def)
    ultimately show ?thesis
      using s Cons by (simp add: render_path_def trim_prefix_def splitPermissionSegments_def Let_def)
  qed
  ultimately show ?thesis by (simp only: normal_rel_def)
qed

lemma matchPermissionPattern_render:
  assumes "list_all plain_seg ps" and "list_all plain_seg qs" and "qs \<noteq> []"
  shows "matchPermissionPattern (render_path False ps) (render_path False qs) = matchPatternSegments ps qs"
proof -
  have "render_path False qs \<noteq> ''''"
    using assms(2,3) by (cases qs) (auto simp: render_path_def join_head plain_seg_def)
  then show ?thesis
    by (simp add: matchPermissionPattern_def normal_rel_segs [OF assms(1)] normal_rel_segs [OF assms(2)])
qed

lemma path_Rel_inside:
  assumes "is_abs root" and "is_abs target" and "path_segs target = path_segs root @ rest"
  shows "path_Rel root target = Some (render_path False rest)"
proof -
  have "strip_common (xs :: string list) (xs @ ys) = ([], ys)" for xs ys
    by (induction xs) (cases ys, simp_all)
  with path_Rel_abs [OF assms(1,2)] assms(3) show ?thesis
    by (auto simp: render_path_def)
qed

text \<open>
  A rule whose pattern is a directory followed by \<open>/**\<close> and that has no base directory of its
  own matches exactly that directory and everything below it, however the path was written.
\<close>

theorem directory_rule_covers_subtree:
  assumes "is_abs p" and "is_abs d" and "list_all literal_seg ws" and "ws \<noteq> []"
    and "rl_BaseDir r = ''''" and "trim_space (rl_Pattern r) = join_str ''/'' (ws @ [''**''])"
  shows "matchRule env p d r = Inr (prefix (path_segs d @ ws) (path_segs p))"
proof -
  have root: "rule_root env d r = Inr d" using assms(5) by (simp add: rule_root_def trim_space_def)
  show ?thesis
  proof (cases "prefix (path_segs d) (path_segs p)")
    case True
    then obtain rest where rest: "path_segs p = path_segs d @ rest" by (auto simp: prefix_def)
    have "list_all plain_seg rest" using abs_segs_plain [OF assms(1)] rest by simp
    moreover have "list_all plain_seg (ws @ [''**''])"
      using assms(3) by (auto simp: literal_seg_def list_all_iff plain_seg_def)
    ultimately have "matchPermissionPattern (render_path False rest) (trim_space (rl_Pattern r)) = prefix ws rest"
      using matchPermissionPattern_render [of rest "ws @ [''**'']"] match_literal_prefix [OF assms(3)] assms(6)
      by (simp add: render_path_def)
    with True rest show ?thesis
      by (simp add: matchRule_def root pathWithinRoot_abs [OF assms(2,1)] path_Rel_inside [OF assms(2,1) rest])
  next
    case False
    then have "\<not> prefix (path_segs d @ ws) (path_segs p)" by (auto simp: prefix_def)
    with False show ?thesis by (simp add: matchRule_def root pathWithinRoot_abs [OF assms(2,1)])
  qed
qed

definition deny_rule :: "string \<Rightarrow> rule" where
  "deny_rule pat = \<lparr>rl_Source = ''userSettings'', rl_Decision = DecisionDeny, rl_BaseDir = '''', rl_Pattern = pat\<rparr>"

lemma demo_segs: "path_segs ''/w'' = [''w'']" "path_segs ''/w/secret/a/key'' = [''w'', ''secret'', ''a'', ''key'']"
    "path_segs ''/w/secret/key'' = [''w'', ''secret'', ''key'']"
  by (simp_all add: path_segs_def clean_segs_def clean_step_def is_abs_def has_prefix_def)

theorem directory_rule_covers_subtree_witness:
  "matchRule demo_env ''/w/secret/a/key'' ''/w'' (deny_rule ''secret/**'') = Inr True"
proof -
  have "matchRule demo_env ''/w/secret/a/key'' ''/w'' (deny_rule ''secret/**'')
      = Inr (prefix (path_segs ''/w'' @ [''secret'']) (path_segs ''/w/secret/a/key''))"
    by (rule directory_rule_covers_subtree)
      (simp_all add: is_abs_def has_prefix_def literal_seg_def plain_seg_def deny_rule_def trim_space_def is_space_def)
  then show ?thesis by (simp add: demo_segs)
qed

theorem write_needs_a_rule_witness:
  "hit (matchRule demo_env ''/w/b'' ''/w'') {(deny_rule ''**'')\<lparr>rl_Decision := DecisionAllow\<rparr>} DecisionAllow"
proof -
  let ?r = "(deny_rule ''**'')\<lparr>rl_Decision := DecisionAllow\<rparr>"
  let ?req = "(read_of ''a/../b'')\<lparr>fr_Access := AccessWrite\<rparr>"
  have m: "matchRule demo_env ''/w/b'' ''/w'' ?r = Inr True"
    by (simp add: matchRule_def rule_root_def deny_rule_def pathWithinRoot_def path_eval matchPermissionPattern_def
        normal_rel_def splitPermissionSegments_def)
  have "ev_Decision (EvaluateFilesystem demo_env (demo_policy [] [?r]) None ?req) = DecisionAllow"
    using demo_read_inside m
    by (simp add: eval_request evaluateWrite_decision hit_def deny_rule_def)
  from write_needs_a_rule [OF _ _ this] demo_read_inside show ?thesis
    by (simp add: read_of_def hasFilesystemGrant_def demo_policy_def)
qed

lemma malformed_never_matches: "\<not> path_Match ''[secret'' s"
proof (cases s)
  case (Cons c t)
  have "class_match c ''secret'' = None"
    by (simp add: class_match_def class_ranges.simps [of _ _ _ "_ # _"] class_range_def)
  with Cons show ?thesis by simp
qed simp

lemma malformed_rule_misses: "matchRule env p d (deny_rule ''[secret'') \<noteq> Inr True"
proof -
  have "normal_rel ''[secret'' = ''[secret''"
    by (simp add: normal_rel_def path_eval)
  moreover have "\<not> matchPatternSegments ps [''[secret'']" for ps
    by (cases ps) (simp_all add: malformed_never_matches del: path_Match.simps)
  ultimately have "\<not> matchPermissionPattern rel ''[secret''" for rel
    by (simp add: matchPermissionPattern_def splitPermissionSegments_def del: path_Match.simps matchPatternSegments.simps)
  then show ?thesis
    by (auto simp: matchRule_def bind_res_Inr_iff deny_rule_def trim_space_def is_space_def split: if_splits option.splits)
qed

text \<open>
  A deny rule with a malformed pattern passes validation and then never denies anything: every
  request is decided as if the rule were not there.
\<close>

theorem malformed_deny_rule_is_void:
  "NewFilesystemPolicy \<lparr>rs_Read = [deny_rule ''[secret''], rs_Write = [deny_rule ''[secret'']\<rparr>
      = Inr (demo_policy [deny_rule ''[secret''] [deny_rule ''[secret''])
    \<and> ev_Decision (EvaluateFilesystem env (demo_policy [deny_rule ''[secret''] [deny_rule ''[secret'']) ctx req)
      = ev_Decision (EvaluateFilesystem env (demo_policy [] []) ctx req)"
proof -
  have "NewFilesystemPolicy \<lparr>rs_Read = [deny_rule ''[secret''], rs_Write = [deny_rule ''[secret'']\<rparr>
      = Inr (demo_policy [deny_rule ''[secret''] [deny_rule ''[secret''])"
    by (simp add: NewFilesystemPolicy_def RuleSet_Validate_def Rule_Validate_def deny_rule_def demo_policy_def
        RuleSource_Valid_def Decision_Valid_def)
  moreover have "\<not> hit (matchRule env p d) {deny_rule ''[secret''} dec" for p d dec
    using malformed_rule_misses by (simp add: hit_def)
  ultimately show ?thesis
    by (auto simp: EvaluateFilesystem_def evaluateRead_decision evaluateWrite_decision demo_policy_def hit_def
        pathAllowedForRead_def split: option.split sum.split)
qed

text \<open>
  The glob check compares a rule with the text of the pattern, not with the files it finds: with
  \<open>secret/**\<close> denied, reading \<open>secret/key\<close> is denied, and the glob pattern \<open>s*/key\<close>, which
  matches that very file, is allowed without asking.
\<close>

theorem glob_pattern_evades_deny_rule:
  "ev_Decision (EvaluateFilesystem demo_env (demo_policy [deny_rule ''secret/**''] []) None (read_of ''secret/key'')) = DecisionDeny
   \<and> ev_Decision (CheckReadPermissionForGlob demo_env (demo_policy [deny_rule ''secret/**''] []) None
        ''Glob'' ''/w'' ''/w'' ''s*/key'') = DecisionAllow
   \<and> matchPermissionPattern ''secret/key'' ''s*/key''"
proof (intro conjI)
  have n: "normalizeFilesystemRequestPath demo_env ''secret/key'' ''/w'' = Inr (''/w/secret/key'', ''/w'')"
      "normalizeFilesystemRequestPath demo_env ''/w'' ''/w'' = Inr (''/w'', ''/w'')"
    by (simp_all add: path_eval)
  have "matchRule demo_env ''/w/secret/key'' ''/w'' (deny_rule ''secret/**'')
      = Inr (prefix (path_segs ''/w'' @ [''secret'']) (path_segs ''/w/secret/key''))"
    by (rule directory_rule_covers_subtree)
      (simp_all add: is_abs_def has_prefix_def literal_seg_def plain_seg_def deny_rule_def trim_space_def is_space_def)
  then have "hit (matchRule demo_env ''/w/secret/key'' ''/w'') {deny_rule ''secret/**''} DecisionDeny"
    by (simp add: demo_segs hit_def) (simp add: deny_rule_def)
  then show "ev_Decision (EvaluateFilesystem demo_env (demo_policy [deny_rule ''secret/**''] []) None (read_of ''secret/key'')) = DecisionDeny"
    using n by (simp add: eval_request evaluateRead_decision)
  have "matchGlobRule demo_env ''/w'' ''/w'' ''s*/key'' (deny_rule ''secret/**'') = Inr False"
    by (simp add: matchGlobRule_def rule_root_def deny_rule_def pathWithinRoot_def path_eval matchPermissionPattern_def
        normal_rel_def splitPermissionSegments_def)
  then have "\<not> hit (matchGlobRule demo_env ''/w'' ''/w'' ''s*/key'') {deny_rule ''secret/**''} dec" for dec
    by (simp add: hit_def)
  then show "ev_Decision (CheckReadPermissionForGlob demo_env (demo_policy [deny_rule ''secret/**''] []) None
      ''Glob'' ''/w'' ''/w'' ''s*/key'') = DecisionAllow"
    using n by (simp add: CheckReadPermissionForGlob_def eval_request matchingGlobRuleForInput_def [abs_def] decide_read_decision
        pathAllowedForRead_def pathWithinRoot_def path_Rel_def)
  show "matchPermissionPattern ''secret/key'' ''s*/key''"
    by (simp add: matchPermissionPattern_def normal_rel_def splitPermissionSegments_def path_eval)
qed

text \<open>
  A grant opens exactly the request it was given for: with it that request is allowed, and every
  other request is decided as before, also by the checks of other tools on the same path.
\<close>

theorem grant_opens_one_request:
  assumes "FilesystemRequest_Validate req = None"
  shows "EvaluateFilesystem env pol (Some (WithFilesystemGrant ctx req)) req = allow None
    \<and> (req' \<noteq> req \<longrightarrow> EvaluateFilesystem env pol (Some (WithFilesystemGrant ctx req)) req' = EvaluateFilesystem env pol ctx req')"
proof -
  have g: "hasFilesystemGrant (Some (WithFilesystemGrant ctx req)) r \<longleftrightarrow> r = req \<or> hasFilesystemGrant ctx r" for r
    by (cases ctx) (auto simp: hasFilesystemGrant_def WithFilesystemGrant_def ctx_or_background_def background_def Let_def)
  show ?thesis using assms by (auto simp: EvaluateFilesystem_def g)
qed

theorem grant_opens_one_request_witness:
  "EvaluateFilesystem demo_env (demo_policy [] []) (Some (WithFilesystemGrant None (read_of ''/etc/x''))) (read_of ''/etc/x'') = allow None"
  using grant_opens_one_request [of "read_of ''/etc/x''" demo_env "demo_policy [] []" None]
  by (simp add: read_of_def FilesystemRequest_Validate_def Access_Valid_def)

text \<open>
  Adding the empty read root is not ignored: it is cleaned to \<open>.\<close> first, so the test for an
  empty root never holds and \<open>.\<close> is recorded.
\<close>

theorem empty_read_root_is_added:
  "AddReadRoot ''  '' (Some (demo_policy rd wr)) = Some ((demo_policy rd wr)\<lparr>pol_AdditionalReadRoots := [''.'']\<rparr>)"
  by (simp add: AddReadRoot_def demo_policy_def path_eval)

end
