(* ===== verification/Cron_Compute.thy ===== *)
theory Cron_Compute
  imports Paths "HOL-Library.While_Combinator"
begin

text \<open>
  Cron expressions (\<open>runtime/cron/compute.go\<close>): the parser of the five fields and the search for the
  next matching minute.

  A loop that never ends is the value \<open>None\<close> of \<open>while_option\<close>. Times are civil minutes (year, month,
  day, hour, minute) in a zone without transitions, in the proleptic Gregorian calendar of Go's
  \<open>time\<close> package; the conversion from and to milliseconds is a parameter.
\<close>

section \<open>Parsing\<close>

record cron_fields =
  cf_Minute :: "int list"
  cf_Hour :: "int list"
  cf_DayOfMonth :: "int list"
  cf_Month :: "int list"
  cf_DayOfWeek :: "int list"

type_synonym field_range = "int \<times> int"

definition fieldRanges :: "field_range list" where
  "fieldRanges = [(0, 59), (0, 23), (1, 31), (1, 12), (0, 6)]"

text \<open>\<open>strings.Fields\<close> and \<open>strings.Index\<close> for one character.\<close>

fun fields_from :: "string \<Rightarrow> string \<Rightarrow> string list" where
  "fields_from cur [] = (if cur = [] then [] else [cur])"
| "fields_from cur (c # s) =
    (if is_space c then (if cur = [] then fields_from [] s else cur # fields_from [] s)
     else fields_from (cur @ [c]) s)"

definition str_fields :: "string \<Rightarrow> string list" where
  "str_fields s = fields_from [] s"

fun str_index :: "char \<Rightarrow> string \<Rightarrow> nat option" where
  "str_index d [] = None"
| "str_index d (c # s) = (if c = d then Some 0 else map_option Suc (str_index d s))"

definition parseStarStep :: "string \<Rightarrow> int option" where
  "parseStarStep part =
    (if part = ''*'' then Some 1
     else if has_prefix part ''*/'' then atoi (drop 2 part)
     else None)"

definition parseRange :: "string \<Rightarrow> (int \<times> int \<times> int) option" where
  "parseRange part =
    (case str_index CHR ''/'' part of
       Some idx \<Rightarrow>
        let rangePart = take idx part in
        (case str_index CHR ''-'' rangePart of
           None \<Rightarrow> None
         | Some dashIdx \<Rightarrow>
            (case (atoi (take dashIdx rangePart), atoi (drop (dashIdx + 1) rangePart), atoi (drop (idx + 1) part)) of
               (Some l, Some h, Some s) \<Rightarrow> Some (l, h, s)
             | _ \<Rightarrow> None))
     | None \<Rightarrow>
        (case str_index CHR ''-'' part of
           None \<Rightarrow> None
         | Some dashIdx \<Rightarrow>
            (case (atoi (take dashIdx part), atoi (drop (dashIdx + 1) part)) of
               (Some l, Some h) \<Rightarrow> Some (l, h, 1)
             | _ \<Rightarrow> None)))"

text \<open>\<open>for i := lo; i <= hi; i += step\<close>, adding \<open>f i\<close> to the set; the addition wraps around.\<close>

definition step_loop :: "(int \<Rightarrow> int) \<Rightarrow> int \<Rightarrow> int \<Rightarrow> int \<Rightarrow> int list \<Rightarrow> int list option" where
  "step_loop f lo hi step out =
    map_option snd (while_option (\<lambda>(i, out). i \<le> hi) (\<lambda>(i, out). (wrap64 (i + step), List.insert (f i) out)) (lo, out))"

definition expand_part :: "field_range \<Rightarrow> string \<Rightarrow> int list \<Rightarrow> (string + int list) option" where
  "expand_part r part out =
    (let isDOW = (fst r = 0 \<and> snd r = 6) in
     case parseStarStep part of
       Some step \<Rightarrow>
        if step < 1 then Some (Inl (''invalid step '' @ itoa step))
        else map_option Inr (step_loop (\<lambda>i. i) (fst r) (snd r) step out)
     | None \<Rightarrow>
    (case parseRange part of
       Some (lo, hi, step) \<Rightarrow>
        let effMax = (if isDOW then 7 else hi) in
        if lo > hi \<or> step < 1 \<or> lo < fst r \<or> hi > effMax then Some (Inl (''invalid range '' @ go_quote part))
        else map_option Inr (step_loop (\<lambda>i. if isDOW \<and> i = 7 then 0 else i) lo hi step out)
     | None \<Rightarrow>
    (case atoi part of
       None \<Rightarrow> Some (Inl (''invalid field value '' @ go_quote part))
     | Some n0 \<Rightarrow>
        let n = (if isDOW \<and> n0 = 7 then 0 else n0) in
        if n < fst r \<or> n > snd r
        then Some (Inl (''value '' @ itoa n @ '' out of range ['' @ itoa (fst r) @ '', '' @ itoa (snd r) @ '']''))
        else Some (Inr (List.insert n out)))))"

fun expand_parts :: "field_range \<Rightarrow> string list \<Rightarrow> int list \<Rightarrow> (string + int list) option" where
  "expand_parts r [] out = Some (Inr out)"
| "expand_parts r (part # parts) out =
    (case expand_part r (trim_space part) out of
       None \<Rightarrow> None
     | Some (Inl e) \<Rightarrow> Some (Inl e)
     | Some (Inr out') \<Rightarrow> expand_parts r parts out')"

definition expandField :: "string \<Rightarrow> field_range \<Rightarrow> (string + int list) option" where
  "expandField field r =
    (case expand_parts r (split_char CHR '','' field) [] of
       None \<Rightarrow> None
     | Some (Inl e) \<Rightarrow> Some (Inl e)
     | Some (Inr out) \<Rightarrow>
        if out = [] then Some (Inl (''no valid values in field '' @ go_quote field)) else Some (Inr (sort out)))"

fun expand_fields :: "int \<Rightarrow> (string \<times> field_range) list \<Rightarrow> (string + int list list) option" where
  "expand_fields i [] = Some (Inr [])"
| "expand_fields i ((part, r) # rest) =
    (case expandField part r of
       None \<Rightarrow> None
     | Some (Inl e) \<Rightarrow> Some (Inl (''field '' @ itoa i @ '' ('' @ go_quote part @ ''): '' @ e))
     | Some (Inr vs) \<Rightarrow>
        (case expand_fields (i + 1) rest of
           None \<Rightarrow> None
         | Some (Inl e) \<Rightarrow> Some (Inl e)
         | Some (Inr vss) \<Rightarrow> Some (Inr (vs # vss))))"

definition ParseCronExpression :: "string \<Rightarrow> (string + cron_fields) option" where
  "ParseCronExpression expr =
    (let parts = str_fields expr in
     if length parts \<noteq> 5 then Some (Inl (''expected 5 fields, got '' @ nat_str (length parts)))
     else case expand_fields 1 (zip parts fieldRanges) of
       None \<Rightarrow> None
     | Some (Inl e) \<Rightarrow> Some (Inl e)
     | Some (Inr vss) \<Rightarrow>
         Some (Inr \<lparr>cf_Minute = vss ! 0, cf_Hour = vss ! 1, cf_DayOfMonth = vss ! 2, cf_Month = vss ! 3,
           cf_DayOfWeek = vss ! 4\<rparr>))"

section \<open>Civil time\<close>

record civil =
  c_Year :: int
  c_Month :: int
  c_Day :: int
  c_Hour :: int
  c_Minute :: int

definition leap :: "int \<Rightarrow> bool" where
  "leap y \<longleftrightarrow> 4 dvd y \<and> (\<not> 100 dvd y \<or> 400 dvd y)"

definition days_in :: "int \<Rightarrow> int \<Rightarrow> int" where
  "days_in y m = (if m = 2 then (if leap y then 29 else 28) else if m = 4 \<or> m = 6 \<or> m = 9 \<or> m = 11 then 30 else 31)"

text \<open>Days since the epoch, by the calendar that starts its years in March.\<close>

definition day_number :: "int \<Rightarrow> int \<Rightarrow> int \<Rightarrow> int" where
  "day_number y m d =
    (let y' = (if m \<le> 2 then y - 1 else y); m' = (if m \<le> 2 then m + 9 else m - 3)
     in 365 * y' + y' div 4 - y' div 100 + y' div 400 + (153 * m' + 2) div 5 + d - 719469)"

definition weekday :: "civil \<Rightarrow> int" where
  "weekday t = (day_number (c_Year t) (c_Month t) (c_Day t) + 4) mod 7"

text \<open>\<open>time.Date\<close> with arguments at most one past their range, and \<open>t.Add(time.Minute)\<close>.\<close>

definition Date_month :: "int \<Rightarrow> int \<Rightarrow> civil" where
  "Date_month y m =
    (if m > 12 then \<lparr>c_Year = y + 1, c_Month = 1, c_Day = 1, c_Hour = 0, c_Minute = 0\<rparr>
     else \<lparr>c_Year = y, c_Month = m, c_Day = 1, c_Hour = 0, c_Minute = 0\<rparr>)"

definition Date_day :: "int \<Rightarrow> int \<Rightarrow> int \<Rightarrow> civil" where
  "Date_day y m d =
    (if d > days_in y m then Date_month y (m + 1)
     else \<lparr>c_Year = y, c_Month = m, c_Day = d, c_Hour = 0, c_Minute = 0\<rparr>)"

definition Date_hour :: "int \<Rightarrow> int \<Rightarrow> int \<Rightarrow> int \<Rightarrow> civil" where
  "Date_hour y m d h =
    (if h > 23 then Date_day y m (d + 1)
     else \<lparr>c_Year = y, c_Month = m, c_Day = d, c_Hour = h, c_Minute = 0\<rparr>)"

definition add_minute :: "civil \<Rightarrow> civil" where
  "add_minute t =
    (if c_Minute t + 1 > 59 then Date_hour (c_Year t) (c_Month t) (c_Day t) (c_Hour t + 1)
     else t\<lparr>c_Minute := c_Minute t + 1\<rparr>)"

section \<open>The next run\<close>

definition day_matches :: "cron_fields \<Rightarrow> civil \<Rightarrow> bool" where
  "day_matches f t =
    (let domWild = (length (cf_DayOfMonth f) = 31); dowWild = (length (cf_DayOfWeek f) = 7);
         dom = c_Day t \<in> set (cf_DayOfMonth f); dow = weekday t \<in> set (cf_DayOfWeek f)
     in if domWild \<and> dowWild then True
        else if domWild then dow
        else if dowWild then dom
        else dom \<or> dow)"

text \<open>One iteration: the time found, or the time to try next.\<close>

definition cron_step :: "cron_fields \<Rightarrow> civil \<Rightarrow> civil + civil" where
  "cron_step f t =
    (if c_Month t \<notin> set (cf_Month f) then Inl (Date_month (c_Year t) (c_Month t + 1))
     else if \<not> day_matches f t then Inl (Date_day (c_Year t) (c_Month t) (c_Day t + 1))
     else if c_Hour t \<notin> set (cf_Hour f) then Inl (Date_hour (c_Year t) (c_Month t) (c_Day t) (c_Hour t + 1))
     else if c_Minute t \<notin> set (cf_Minute f) then Inl (add_minute t)
     else Inr t)"

fun cron_loop :: "nat \<Rightarrow> cron_fields \<Rightarrow> civil \<Rightarrow> civil option" where
  "cron_loop 0 f t = None"
| "cron_loop (Suc n) f t = (case cron_step f t of Inl t' \<Rightarrow> cron_loop n f t' | Inr r \<Rightarrow> Some r)"

text \<open>\<open>from\<close> is given by its minute.\<close>

definition ComputeNextCronRun :: "cron_fields \<Rightarrow> civil \<Rightarrow> civil option" where
  "ComputeNextCronRun f from = cron_loop (366 * 24 * 60) f (add_minute from)"

text \<open>\<open>to_civil\<close> is \<open>time.UnixMilli\<close> in the local zone, \<open>to_ms\<close> its inverse on whole minutes.\<close>

definition NextCronRunMs :: "(int \<Rightarrow> civil) \<Rightarrow> (civil \<Rightarrow> int) \<Rightarrow> string \<Rightarrow> int \<Rightarrow> int option" where
  "NextCronRunMs to_civil to_ms cron fromMs =
    (case ParseCronExpression cron of
       None \<Rightarrow> None
     | Some (Inl e) \<Rightarrow> Some 0
     | Some (Inr f) \<Rightarrow>
        (case ComputeNextCronRun f (to_civil fromMs) of None \<Rightarrow> Some 0 | Some t \<Rightarrow> Some (to_ms t)))"

section \<open>The search is exact\<close>

definition civil_ok :: "civil \<Rightarrow> bool" where
  "civil_ok t \<longleftrightarrow> 1 \<le> c_Month t \<and> c_Month t \<le> 12 \<and> 1 \<le> c_Day t \<and> c_Day t \<le> days_in (c_Year t) (c_Month t)
     \<and> 0 \<le> c_Hour t \<and> c_Hour t \<le> 23 \<and> 0 \<le> c_Minute t \<and> c_Minute t \<le> 59"

text \<open>Civil minutes in the order of time.\<close>

definition before :: "civil \<Rightarrow> civil \<Rightarrow> bool" where
  "before s t \<longleftrightarrow>
    c_Year s < c_Year t \<or> c_Year s = c_Year t \<and> (c_Month s < c_Month t \<or> c_Month s = c_Month t \<and>
    (c_Day s < c_Day t \<or> c_Day s = c_Day t \<and> (c_Hour s < c_Hour t \<or> c_Hour s = c_Hour t \<and> c_Minute s < c_Minute t)))"

definition cron_matches :: "cron_fields \<Rightarrow> civil \<Rightarrow> bool" where
  "cron_matches f t \<longleftrightarrow> c_Month t \<in> set (cf_Month f) \<and> day_matches f t \<and> c_Hour t \<in> set (cf_Hour f)
     \<and> c_Minute t \<in> set (cf_Minute f)"

lemma days_in_bounds: "28 \<le> days_in y m" "days_in y m \<le> 31"
  by (simp_all add: days_in_def)

lemma before_trans: "before s t \<Longrightarrow> before t u \<Longrightarrow> before s u"
  unfolding before_def by auto

lemma before_irrefl: "\<not> before t t"
  by (simp add: before_def)

lemma before_total: "before s t \<or> s = t \<or> before t s"
proof -
  have "s = t" if "c_Year s = c_Year t" "c_Month s = c_Month t" "c_Day s = c_Day t" "c_Hour s = c_Hour t" "c_Minute s = c_Minute t"
    using that by (cases s, cases t) simp
  then show ?thesis unfolding before_def by linarith
qed

lemma Date_month_ok: "1 \<le> m \<Longrightarrow> m \<le> 13 \<Longrightarrow> civil_ok (Date_month y m)"
  using days_in_bounds [of y m] days_in_bounds [of "y + 1" 1] by (auto simp: Date_month_def civil_ok_def)

lemma Date_day_ok: "1 \<le> m \<Longrightarrow> m \<le> 12 \<Longrightarrow> 1 \<le> d \<Longrightarrow> d \<le> days_in y m + 1 \<Longrightarrow> civil_ok (Date_day y m d)"
  using Date_month_ok [of "m + 1" y] by (auto simp: Date_day_def) (auto simp: civil_ok_def)

lemma Date_hour_ok:
  "1 \<le> m \<Longrightarrow> m \<le> 12 \<Longrightarrow> 1 \<le> d \<Longrightarrow> d \<le> days_in y m \<Longrightarrow> 0 \<le> h \<Longrightarrow> h \<le> 24 \<Longrightarrow> civil_ok (Date_hour y m d h)"
  using Date_day_ok [of m "d + 1" y] by (auto simp: Date_hour_def) (auto simp: civil_ok_def)

lemma add_minute_ok: "civil_ok t \<Longrightarrow> civil_ok (add_minute t)"
  using Date_hour_ok [of "c_Month t" "c_Day t" "c_Year t" "c_Hour t + 1"]
  by (auto simp: add_minute_def civil_ok_def)

lemma before_starts:
  assumes "civil_ok u"
  shows "before u \<lparr>c_Year = y, c_Month = m, c_Day = 1, c_Hour = 0, c_Minute = 0\<rparr>
      \<longleftrightarrow> c_Year u < y \<or> c_Year u = y \<and> c_Month u < m"
    and "before u \<lparr>c_Year = y, c_Month = m, c_Day = d, c_Hour = 0, c_Minute = 0\<rparr>
      \<longleftrightarrow> c_Year u < y \<or> c_Year u = y \<and> (c_Month u < m \<or> c_Month u = m \<and> c_Day u < d)"
    and "before u \<lparr>c_Year = y, c_Month = m, c_Day = d, c_Hour = h, c_Minute = 0\<rparr>
      \<longleftrightarrow> c_Year u < y \<or> c_Year u = y \<and> (c_Month u < m \<or> c_Month u = m \<and>
          (c_Day u < d \<or> c_Day u = d \<and> c_Hour u < h))"
proof -
  have "\<not> c_Day u < 1" "\<not> c_Hour u < 0" "\<not> c_Minute u < 0" using assms by (simp_all add: civil_ok_def)
  then show "before u \<lparr>c_Year = y, c_Month = m, c_Day = 1, c_Hour = 0, c_Minute = 0\<rparr>
      \<longleftrightarrow> c_Year u < y \<or> c_Year u = y \<and> c_Month u < m"
    "before u \<lparr>c_Year = y, c_Month = m, c_Day = d, c_Hour = 0, c_Minute = 0\<rparr>
      \<longleftrightarrow> c_Year u < y \<or> c_Year u = y \<and> (c_Month u < m \<or> c_Month u = m \<and> c_Day u < d)"
    "before u \<lparr>c_Year = y, c_Month = m, c_Day = d, c_Hour = h, c_Minute = 0\<rparr>
      \<longleftrightarrow> c_Year u < y \<or> c_Year u = y \<and> (c_Month u < m \<or> c_Month u = m \<and>
          (c_Day u < d \<or> c_Day u = d \<and> c_Hour u < h))"
    unfolding before_def by simp_all
qed

lemma before_Date_month:
  assumes "civil_ok u" and "1 \<le> m" and "m \<le> 12"
  shows "before u (Date_month y (m + 1)) \<longleftrightarrow> c_Year u < y \<or> c_Year u = y \<and> c_Month u \<le> m"
proof (cases "m = 12")
  case True
  have "\<not> c_Month u < 1" "c_Month u \<le> 12" using assms(1) by (simp_all add: civil_ok_def)
  with True show ?thesis using before_starts(1) [OF assms(1), of "y + 1" 1] by (auto simp: Date_month_def)
next
  case False
  with assms(3) have "Date_month y (m + 1) = \<lparr>c_Year = y, c_Month = m + 1, c_Day = 1, c_Hour = 0, c_Minute = 0\<rparr>"
    by (simp add: Date_month_def)
  with before_starts(1) [OF assms(1), of y "m + 1"] show ?thesis by (simp add: zless_add1_eq order_le_less)
qed

lemma before_Date_day:
  assumes "civil_ok u" and "1 \<le> m" and "m \<le> 12" and "d \<le> days_in y m"
  shows "before u (Date_day y m (d + 1)) \<longleftrightarrow>
    c_Year u < y \<or> c_Year u = y \<and> (c_Month u < m \<or> c_Month u = m \<and> c_Day u \<le> d)"
proof (cases "d = days_in y m")
  case True
  have "c_Year u = y \<Longrightarrow> c_Month u = m \<Longrightarrow> c_Day u \<le> d" using assms(1) True by (auto simp: civil_ok_def)
  moreover have "Date_day y m (d + 1) = Date_month y (m + 1)" using True by (simp add: Date_day_def)
  ultimately show ?thesis
    using before_Date_month [OF assms(1-3), of y] order_le_less [of "c_Month u" m] by (simp only:) blast
next
  case False
  with assms(4) have "Date_day y m (d + 1) = \<lparr>c_Year = y, c_Month = m, c_Day = d + 1, c_Hour = 0, c_Minute = 0\<rparr>"
    by (simp add: Date_day_def)
  with before_starts(2) [OF assms(1), of y m "d + 1"] show ?thesis by (simp add: zless_add1_eq order_le_less)
qed

lemma before_Date_hour:
  assumes "civil_ok u" and "1 \<le> m" and "m \<le> 12" and "d \<le> days_in y m" and "h \<le> 23"
  shows "before u (Date_hour y m d (h + 1)) \<longleftrightarrow>
    c_Year u < y \<or> c_Year u = y \<and> (c_Month u < m \<or> c_Month u = m \<and>
      (c_Day u < d \<or> c_Day u = d \<and> c_Hour u \<le> h))"
proof (cases "h = 23")
  case True
  have "c_Hour u \<le> h" using assms(1) True by (auto simp: civil_ok_def)
  moreover have "Date_hour y m d (h + 1) = Date_day y m (d + 1)" using True by (simp add: Date_hour_def)
  ultimately show ?thesis
    using before_Date_day [OF assms(1-4)] order_le_less [of "c_Day u" d] by (simp only:) blast
next
  case False
  with assms(5) have "Date_hour y m d (h + 1) = \<lparr>c_Year = y, c_Month = m, c_Day = d, c_Hour = h + 1, c_Minute = 0\<rparr>"
    by (simp add: Date_hour_def)
  with before_starts(3) [OF assms(1), of y m d "h + 1"] show ?thesis by (simp add: zless_add1_eq order_le_less)
qed

text \<open>The next minute is the least one that follows.\<close>

lemma before_add_minute:
  assumes "civil_ok u" and "civil_ok t"
  shows "before u (add_minute t) \<longleftrightarrow> \<not> before t u"
proof (cases "c_Minute t = 59")
  case True
  then have "add_minute t = Date_hour (c_Year t) (c_Month t) (c_Day t) (c_Hour t + 1)" by (simp add: add_minute_def)
  then have e: "before u (add_minute t) \<longleftrightarrow>
    c_Year u < c_Year t \<or> c_Year u = c_Year t \<and> (c_Month u < c_Month t \<or> c_Month u = c_Month t \<and>
      (c_Day u < c_Day t \<or> c_Day u = c_Day t \<and> c_Hour u \<le> c_Hour t))"
    using before_Date_hour [OF assms(1), of "c_Month t" "c_Day t" "c_Year t" "c_Hour t"] assms(2)
    by (simp add: civil_ok_def)
  have mu: "\<not> c_Minute t < c_Minute u" using True assms(1) by (simp add: civil_ok_def)
  show ?thesis
    unfolding e unfolding before_def using mu
    by (cases "c_Year u" "c_Year t" rule: linorder_cases; cases "c_Month u" "c_Month t" rule: linorder_cases;
        cases "c_Day u" "c_Day t" rule: linorder_cases; simp add: not_less)
next
  case False
  with assms(2) have "add_minute t = t\<lparr>c_Minute := c_Minute t + 1\<rparr>" by (simp add: add_minute_def civil_ok_def)
  then show ?thesis
    unfolding before_def
    by (cases "c_Year u" "c_Year t" rule: linorder_cases; cases "c_Month u" "c_Month t" rule: linorder_cases;
        cases "c_Day u" "c_Day t" rule: linorder_cases; cases "c_Hour u" "c_Hour t" rule: linorder_cases; auto)
qed

lemma cron_step_Inl:
  assumes "civil_ok t" and "cron_step f t = Inl t'"
  shows "civil_ok t' \<and> \<not> before t' (add_minute t)
    \<and> (\<forall>u. civil_ok u \<and> \<not> before u t \<and> before u t' \<longrightarrow> \<not> cron_matches f u)"
proof -
  let ?y = "c_Year t" and ?m = "c_Month t" and ?d = "c_Day t" and ?h = "c_Hour t"
  have m: "1 \<le> ?m" "?m \<le> 12" and d: "1 \<le> ?d" "?d \<le> days_in ?y ?m" and h: "0 \<le> ?h" "?h \<le> 23"
    using assms(1) by (simp_all add: civil_ok_def)
  have after: "\<not> before t' (add_minute t)" if "civil_ok t'" "before t t'"
    using before_add_minute [OF that(1) assms(1)] that(2) by simp
  consider (month) "?m \<notin> set (cf_Month f)" "t' = Date_month ?y (?m + 1)"
    | (day) "\<not> day_matches f t" "t' = Date_day ?y ?m (?d + 1)"
    | (hour) "?h \<notin> set (cf_Hour f)" "t' = Date_hour ?y ?m ?d (?h + 1)"
    | (minute) "c_Minute t \<notin> set (cf_Minute f)" "t' = add_minute t"
    using assms(2) by (auto simp: cron_step_def split: if_splits)
  then show ?thesis
  proof cases
    case month
    have "civil_ok t'" using m by (simp add: month(2) Date_month_ok)
    moreover have "before t t'" using before_Date_month [OF assms(1) m] month(2) by simp
    moreover have "\<not> cron_matches f u" if "civil_ok u" "\<not> before u t" "before u t'" for u
    proof -
      have "c_Month u = ?m"
        using that before_Date_month [OF that(1) m] month(2) by (auto simp: before_def)
      with month(1) show ?thesis by (simp add: cron_matches_def)
    qed
    ultimately show ?thesis using after by blast
  next
    case day
    have "civil_ok t'" using m d by (simp add: day(2) Date_day_ok)
    moreover have "before t t'" using before_Date_day [OF assms(1) m d(2)] day(2) by simp
    moreover have "\<not> cron_matches f u" if "civil_ok u" "\<not> before u t" "before u t'" for u
    proof -
      have "c_Year u = ?y" "c_Month u = ?m" "c_Day u = ?d"
        using that before_Date_day [OF that(1) m d(2)] day(2) by (auto simp: before_def)
      with day(1) show ?thesis by (simp add: cron_matches_def day_matches_def weekday_def)
    qed
    ultimately show ?thesis using after by blast
  next
    case hour
    have "civil_ok t'" using m d h by (simp add: hour(2) Date_hour_ok)
    moreover have "before t t'" using before_Date_hour [OF assms(1) m d(2) h(2)] hour(2) by simp
    moreover have "\<not> cron_matches f u" if "civil_ok u" "\<not> before u t" "before u t'" for u
    proof -
      have "c_Hour u = ?h"
        using that before_Date_hour [OF that(1) m d(2) h(2)] hour(2) by (auto simp: before_def)
      with hour(1) show ?thesis by (simp add: cron_matches_def)
    qed
    ultimately show ?thesis using after by blast
  next
    case minute
    have "civil_ok t'" using assms(1) by (simp add: minute(2) add_minute_ok)
    moreover have "before t t'" using before_add_minute [OF assms(1) assms(1)] minute(2) before_irrefl by simp
    moreover have "\<not> cron_matches f u" if "civil_ok u" "\<not> before u t" "before u t'" for u
    proof -
      have "u = t" using that before_add_minute [OF that(1) assms(1)] minute(2) before_total [of u t] by blast
      with minute(1) show ?thesis by (simp add: cron_matches_def)
    qed
    ultimately show ?thesis using after by blast
  qed
qed

lemma cron_step_Inr: "cron_step f t = Inr r \<longleftrightarrow> r = t \<and> cron_matches f t"
  by (auto simp: cron_step_def cron_matches_def)

lemma cron_loop_correct:
  assumes "civil_ok t" and "\<forall>u. civil_ok u \<and> before from u \<and> before u t \<longrightarrow> \<not> cron_matches f u"
    and "before from t" and "cron_loop n f t = Some r"
  shows "civil_ok r \<and> before from r \<and> cron_matches f r
    \<and> (\<forall>u. civil_ok u \<and> before from u \<and> before u r \<longrightarrow> \<not> cron_matches f u)"
  using assms
proof (induction n arbitrary: t)
  case (Suc n)
  show ?case
  proof (cases "cron_step f t")
    case (Inl t')
    note s = cron_step_Inl [OF Suc.prems(1) Inl]
    have lt: "before t t'" using s before_add_minute [of t' t] Suc.prems(1) by blast
    have "\<forall>u. civil_ok u \<and> before from u \<and> before u t' \<longrightarrow> \<not> cron_matches f u"
      using s Suc.prems(2) by blast
    moreover have "before from t'" using Suc.prems(3) lt before_trans by blast
    ultimately show ?thesis using Suc.IH [of t'] s Suc.prems(4) Inl by simp
  next
    case (Inr r')
    with Suc.prems show ?thesis by (auto simp: cron_step_Inr)
  qed
qed simp

text \<open>
  C32: The next run that is found is exact: it is a minute that matches the expression, it comes
  after the given time, and no minute in between matches.
\<close>

theorem ComputeNextCronRun_exact:
  assumes "civil_ok from" and "ComputeNextCronRun f from = Some t"
  shows "civil_ok t \<and> before from t \<and> cron_matches f t
    \<and> (\<forall>u. civil_ok u \<and> before from u \<and> before u t \<longrightarrow> \<not> cron_matches f u)"
proof (rule cron_loop_correct)
  show "civil_ok (add_minute from)" using assms(1) by (rule add_minute_ok)
  show "\<forall>u. civil_ok u \<and> before from u \<and> before u (add_minute from) \<longrightarrow> \<not> cron_matches f u"
    using before_add_minute [OF _ assms(1)] by blast
  show "before from (add_minute from)"
    using before_add_minute [OF assms(1) assms(1)] before_irrefl by blast
  show "cron_loop (366 * 24 * 60) f (add_minute from) = Some t"
    using assms(2) by (simp only: ComputeNextCronRun_def)
qed

lemma cron_loop_numeral:
  "cron_loop (numeral k) f t = (case cron_step f t of Inl t' \<Rightarrow> cron_loop (pred_numeral k) f t' | Inr r \<Rightarrow> Some r)"
  by (simp add: numeral_eq_Suc)

definition every_day :: "int list \<Rightarrow> int list \<Rightarrow> cron_fields" where
  "every_day minutes hours = \<lparr>cf_Minute = minutes, cf_Hour = hours, cf_DayOfMonth = [1..31], cf_Month = [1..12],
     cf_DayOfWeek = [0..6]\<rparr>"

theorem ComputeNextCronRun_exact_witness:
  "cron_matches (every_day [0] [9]) \<lparr>c_Year = 2024, c_Month = 2, c_Day = 29, c_Hour = 9, c_Minute = 0\<rparr>"
proof -
  have "ComputeNextCronRun (every_day [0] [9]) \<lparr>c_Year = 2024, c_Month = 2, c_Day = 28, c_Hour = 22, c_Minute = 59\<rparr>
      = Some \<lparr>c_Year = 2024, c_Month = 2, c_Day = 29, c_Hour = 9, c_Minute = 0\<rparr>"
    by (simp add: ComputeNextCronRun_def cron_loop_numeral cron_step_def every_day_def day_matches_def
        add_minute_def Date_hour_def Date_day_def days_in_def leap_def)
  from ComputeNextCronRun_exact [OF _ this] show ?thesis
    by (simp add: civil_ok_def days_in_def)
qed

lemma cron_loop_None:
  assumes "civil_ok from" and "civil_ok t" and "\<forall>u. civil_ok u \<and> before from u \<and> before u t \<longrightarrow> \<not> cron_matches f u"
    and "\<not> before t ((add_minute ^^ Suc i) from)" and "cron_loop n f t = None" and "k < i + n"
  shows "\<not> cron_matches f ((add_minute ^^ Suc k) from)"
  using assms(2-6)
proof (induction n arbitrary: t i)
  case 0
  have ok: "civil_ok ((add_minute ^^ j) from)" for j by (induction j) (simp_all add: assms(1) add_minute_ok)
  have step: "before ((add_minute ^^ j) from) ((add_minute ^^ Suc j) from)" for j
    using before_add_minute [OF ok ok] before_irrefl by simp
  have mono: "before ((add_minute ^^ a) from) ((add_minute ^^ (a + Suc b)) from)" for a b
  proof (induction b)
    case (Suc b)
    then show ?case using step [of "a + Suc b"] before_trans by fastforce
  qed (use step [of a] in simp)
  have "before from ((add_minute ^^ Suc k) from)" using mono [of 0 k] by simp
  moreover have "before ((add_minute ^^ Suc k) from) ((add_minute ^^ Suc i) from)"
    using mono [of "Suc k" "i - Suc k"] 0(5) by simp
  then have "before ((add_minute ^^ Suc k) from) t"
    using 0(3) before_total [of t "(add_minute ^^ Suc i) from"] before_trans by blast
  ultimately show ?case using 0(2) ok by blast
next
  case (Suc n)
  have ok: "civil_ok ((add_minute ^^ j) from)" for j by (induction j) (simp_all add: assms(1) add_minute_ok)
  show ?case
  proof (cases "cron_step f t")
    case (Inl t')
    note s = cron_step_Inl [OF Suc.prems(1) Inl]
    have lt: "before t t'" using s before_add_minute [of t' t] Suc.prems(1) by blast
    have le: "\<not> before t' ((add_minute ^^ Suc (Suc i)) from)"
    proof
      assume a: "before t' ((add_minute ^^ Suc (Suc i)) from)"
      then have "\<not> before ((add_minute ^^ Suc i) from) t'"
        using before_add_minute [of t' "(add_minute ^^ Suc i) from"] s ok [of "Suc i"] by simp
      moreover have "before ((add_minute ^^ Suc i) from) t'"
        using Suc.prems(3) lt before_total [of t "(add_minute ^^ Suc i) from"] before_trans by blast
      ultimately show False by blast
    qed
    have "\<forall>u. civil_ok u \<and> before from u \<and> before u t' \<longrightarrow> \<not> cron_matches f u"
      using s Suc.prems(2) by blast
    with Suc.IH [of t' "Suc i"] s le Suc.prems(4,5) Inl show ?thesis by simp
  next
    case (Inr r)
    with Suc.prems show ?thesis by simp
  qed
qed

text \<open>
  When nothing is found there is nothing to find: no minute of the 366 days after the given
  time matches the expression.
\<close>

theorem ComputeNextCronRun_none:
  assumes "civil_ok from" and "ComputeNextCronRun f from = None" and "k < 366 * 24 * 60"
  shows "\<not> cron_matches f ((add_minute ^^ Suc k) from)"
proof (rule cron_loop_None [OF assms(1), where i = 0])
  show "civil_ok (add_minute from)" using assms(1) by (rule add_minute_ok)
  show "\<forall>u. civil_ok u \<and> before from u \<and> before u (add_minute from) \<longrightarrow> \<not> cron_matches f u"
    using before_add_minute [OF _ assms(1)] by blast
  show "\<not> before (add_minute from) ((add_minute ^^ Suc 0) from)" by (simp add: before_irrefl)
  show "cron_loop (366 * 24 * 60) f (add_minute from) = None"
    using assms(2) by (simp only: ComputeNextCronRun_def)
  show "k < 0 + 366 * 24 * 60" using assms(3) by simp
qed

lemma cron_loop_no_month: "cf_Month f = [] \<Longrightarrow> cron_loop n f t = None"
  by (induction n arbitrary: t) (simp_all add: cron_step_def)

theorem ComputeNextCronRun_none_witness:
  "\<not> cron_matches ((every_day [0] [9])\<lparr>cf_Month := []\<rparr>)
     ((add_minute ^^ Suc 1) \<lparr>c_Year = 2024, c_Month = 2, c_Day = 28, c_Hour = 22, c_Minute = 59\<rparr>)"
  by (rule ComputeNextCronRun_none)
     (simp_all add: civil_ok_def days_in_def ComputeNextCronRun_def cron_loop_no_month)

text \<open>
  The search is not bounded by 366 days but by that many minutes' worth of iterations, and an
  iteration may skip a month: for the 29th of February it finds a date three years ahead.
\<close>

theorem search_goes_beyond_a_year:
  "ComputeNextCronRun \<lparr>cf_Minute = [0], cf_Hour = [0], cf_DayOfMonth = [29], cf_Month = [2], cf_DayOfWeek = [0..6]\<rparr>
     \<lparr>c_Year = 2021, c_Month = 3, c_Day = 1, c_Hour = 0, c_Minute = 0\<rparr>
   = Some \<lparr>c_Year = 2024, c_Month = 2, c_Day = 29, c_Hour = 0, c_Minute = 0\<rparr>"
  by (simp add: ComputeNextCronRun_def cron_loop_numeral cron_step_def day_matches_def
      add_minute_def Date_month_def Date_day_def days_in_def leap_def)

section \<open>Weekdays\<close>

text \<open>The day number advances by one from each day to the next, and it is 0 on 1 January 1970.\<close>

lemma div_step: "0 < n \<Longrightarrow> (y::int) div n = (y - 1) div n + (if n dvd y then 1 else 0)"
proof (cases "n dvd y")
  case True
  assume "0 < n"
  from True obtain k where "y = n * k" by blast
  moreover have "(n * k - 1) div n = k - 1"
    by (rule int_div_pos_eq [of _ _ _ "n - 1"]) (use \<open>0 < n\<close> in \<open>simp_all add: algebra_simps\<close>)
  ultimately show ?thesis using \<open>0 < n\<close> by simp
next
  case False
  assume n: "0 < n"
  have "y mod n \<noteq> 0" using False by (simp add: dvd_eq_mod_eq_0)
  moreover have "0 \<le> y mod n" "y mod n < n" using n by simp_all
  ultimately have "0 \<le> y mod n - 1" "y mod n - 1 < n" by linarith+
  then have "(y - 1) div n = y div n"
    by (intro int_div_pos_eq [of _ _ _ "y mod n - 1"]) (simp_all add: algebra_simps)
  with False show ?thesis by simp
qed

lemma day_number_next:
  assumes "1 \<le> m" and "m \<le> 12" and "1 \<le> d" and "d \<le> days_in y m"
  shows "(let t = Date_day y m (d + 1) in day_number (c_Year t) (c_Month t) (c_Day t)) = day_number y m d + 1"
proof (cases "d = days_in y m")
  case False
  with assms(4) show ?thesis by (simp add: Date_day_def day_number_def Let_def)
next
  case True
  show ?thesis
  proof (cases "m = 2")
    case m: True
    define p where "p = (y - 1) div 4"
    define q where "q = (y - 1) div 100"
    define r where "r = (y - 1) div 400"
    have y: "y div 4 = p + (if 4 dvd y then 1 else 0)" "y div 100 = q + (if 100 dvd y then 1 else 0)"
        "y div 400 = r + (if 400 dvd y then 1 else 0)"
      unfolding p_def q_def r_def by (rule div_step; simp)+
    have l: "400 dvd y \<longrightarrow> 100 dvd y" "100 dvd y \<longrightarrow> 4 dvd y"
      using dvd_trans [of 100 400 y] dvd_trans [of 4 100 y] by simp_all
    have eq: "365 * y + y div 4 - y div 100 + y div 400 = 365 * (y - 1) + p - q + r + (if leap y then 366 else 365)"
      by (cases "4 dvd y"; cases "100 dvd y"; cases "400 dvd y") (use l in \<open>simp_all add: y leap_def\<close>)
    have "day_number y 3 1 = 365 * y + y div 4 - y div 100 + y div 400 - 719468"
      by (simp add: day_number_def Let_def)
    moreover have "day_number y 2 d = 365 * (y - 1) + p - q + r + 337 + d - 719469"
      by (simp add: day_number_def Let_def p_def q_def r_def)
    moreover have "(let t = Date_day y m (d + 1) in day_number (c_Year t) (c_Month t) (c_Day t)) = day_number y 3 1"
      using m True by (simp add: Date_day_def Date_month_def)
    ultimately show ?thesis using eq m True by (simp add: days_in_def split: if_splits)
  next
    case False
    have "m = 1 \<or> m = 3 \<or> m = 4 \<or> m = 5 \<or> m = 6 \<or> m = 7 \<or> m = 8 \<or> m = 9 \<or> m = 10 \<or> m = 11 \<or> m = 12"
      using assms(1,2) False by presburger
    with True show ?thesis
      by (elim disjE) (simp_all add: Date_day_def Date_month_def day_number_def Let_def days_in_def)
  qed
qed

lemma epoch_weekday: "day_number 1970 1 1 = 0"
  by (simp add: day_number_def)

section \<open>The parser\<close>

lemma step_loop_unfold:
  "step_loop f i hi step out =
    (if i \<le> hi then step_loop f (wrap64 (i + step)) hi step (List.insert (f i) out) else Some out)"
  by (subst step_loop_def, subst while_option_unfold) (simp add: step_loop_def)

lemma step_loop_correct:
  assumes "1 \<le> step" and "hi + step \<le> max_int64" and "min_int64 \<le> i" and "distinct out"
  shows "\<exists>out'. step_loop f i hi step out = Some out' \<and> distinct out'
    \<and> set out' = f ` {j \<in> {i..hi}. (j - i) mod step = 0} \<union> set out"
  using assms(3,4)
proof (induction "nat (hi + 1 - i)" arbitrary: i out rule: less_induct)
  case less
  show ?case
  proof (cases "i \<le> hi")
    case True
    then have w: "wrap64 (i + step) = i + step"
      using assms less.prems by (intro wrap64_id) (simp add: in_int64_def)
    obtain out' where o: "step_loop f (i + step) hi step (List.insert (f i) out) = Some out'" "distinct out'"
        "set out' = f ` {j \<in> {i + step..hi}. (j - (i + step)) mod step = 0} \<union> set (List.insert (f i) out)"
      using less.hyps [of "i + step" "List.insert (f i) out"] True assms less.prems by auto
    have mods: "(j - (i + step)) mod step = (j - i) mod step" for j
      by (metis diff_diff_eq minus_mod_self2)
    have "{j \<in> {i..hi}. (j - i) mod step = 0} = insert i {j \<in> {i + step..hi}. (j - (i + step)) mod step = 0}"
    proof -
      have "j = i \<or> i + step \<le> j" if "i \<le> j" "(j - i) mod step = 0" for j
      proof (rule ccontr)
        assume "\<not> (j = i \<or> i + step \<le> j)"
        then have "0 < j - i" "j - i < step" using that by simp_all
        then have "(j - i) mod step = j - i" by simp
        with that \<open>0 < j - i\<close> show False by simp
      qed
      then show ?thesis using True assms(1) unfolding mods by fastforce
    qed
    then have "set out' = f ` {j \<in> {i..hi}. (j - i) mod step = 0} \<union> set out"
      using o(3) by auto
    with o True w show ?thesis by (subst step_loop_unfold) simp
  next
    case False
    with less.prems show ?thesis by (subst step_loop_unfold) auto
  qed
qed

lemma split_char_free: "d \<notin> set s \<Longrightarrow> split_char d s = [s]"
  by (induction s) auto

lemma trim_space_free: "\<forall>c \<in> set s. \<not> is_space c \<Longrightarrow> trim_space s = s"
proof -
  assume a: "\<forall>c \<in> set s. \<not> is_space c"
  have "dropWhile is_space t = t" if "\<forall>c \<in> set t. \<not> is_space c" for t
    using that by (cases t) auto
  from this [OF a] this [of "rev s"] a show ?thesis by (simp add: trim_space_def)
qed

lemma itoa_nat: "0 \<le> i \<Longrightarrow> itoa i = nat_str (nat i)"
  by (simp add: itoa_def)

lemma digit_facts: "is_digit c \<Longrightarrow> \<not> is_space c \<and> c \<noteq> CHR '','' \<and> c \<noteq> CHR ''/'' \<and> c \<noteq> CHR ''-'' \<and> c \<noteq> CHR ''*''"
  by (auto simp: is_digit_def is_space_def)

lemma itoa_chars: "0 \<le> i \<Longrightarrow> c \<in> set (itoa i) \<Longrightarrow> \<not> is_space c \<and> c \<noteq> CHR '','' \<and> c \<noteq> CHR ''/'' \<and> c \<noteq> CHR ''-'' \<and> c \<noteq> CHR ''*''"
  using nat_str_digits digit_facts by (simp add: itoa_nat)

lemma str_index_None: "d \<notin> set s \<Longrightarrow> str_index d s = None"
  by (induction s) auto

lemma str_index_append: "d \<notin> set s \<Longrightarrow> str_index d (s @ d # t) = Some (length s)"
  by (induction s) auto

lemma expandField_single:
  assumes "CHR '','' \<notin> set s" and "\<forall>c \<in> set s. \<not> is_space c"
  shows "expandField s r = (case expand_part r s [] of
       None \<Rightarrow> None
     | Some (Inl e) \<Rightarrow> Some (Inl e)
     | Some (Inr out) \<Rightarrow>
        if out = [] then Some (Inl (''no valid values in field '' @ go_quote s)) else Some (Inr (sort out)))"
  using assms
  by (simp add: expandField_def split_char_free trim_space_free split: option.splits sum.splits)

lemma sort_upto_filter:
  assumes "distinct out" and "set out = {j \<in> {a..b::int}. P j}"
  shows "sort out = filter P [a..b]"
proof (rule sorted_distinct_set_unique)
  show "sorted (filter P [a..b])" "distinct (filter P [a..b])" by (simp_all add: sorted_wrt_filter)
qed (use assms in auto)

text \<open>
  A field \<open>*/step\<close> stands for every \<open>step\<close>-th value of the field's range, the first included,
  as long as the step is not so large that the addition wraps around.
\<close>

theorem star_step_field:
  assumes "r \<in> set fieldRanges" and "1 \<le> step" and "step \<le> max_int64 - 59"
  shows "expandField (''*/'' @ itoa step) r = Some (Inr (filter (\<lambda>i. (i - fst r) mod step = 0) [fst r..snd r]))"
proof -
  have i64: "in_int64 step" using assms by (simp add: in_int64_def min_int64_def max_int64_def)
  have r: "0 \<le> fst r" "fst r \<le> snd r" "snd r \<le> 59" using assms(1) by (auto simp: fieldRanges_def)
  have star: "parseStarStep (''*/'' @ itoa step) = Some step"
    using i64 by (simp add: parseStarStep_def has_prefix_def)
  obtain out where o: "step_loop (\<lambda>i. i) (fst r) (snd r) step [] = Some out" "distinct out"
      "set out = {j \<in> {fst r..snd r}. (j - fst r) mod step = 0}"
    using step_loop_correct [of step "snd r" "fst r" "[]" "\<lambda>i. i"] assms r
    by (auto simp: min_int64_def)
  have "fst r \<in> set out" using o(3) r by simp
  then have "out \<noteq> []" by auto
  moreover have "CHR '','' \<notin> set (''*/'' @ itoa step)" "\<forall>c \<in> set (''*/'' @ itoa step). \<not> is_space c"
    using itoa_chars [of step] assms(2) by (auto simp: is_space_def)
  ultimately show ?thesis
    using star o(1) sort_upto_filter [OF o(2,3)] assms(2) by (simp add: expandField_single expand_part_def)
qed

lemma itoa_samples: "itoa 20 = ''20''" "itoa 0 = ''0''" "itoa 99 = ''99''"
  by (simp_all add: itoa_def nat_str.simps digit_char_def char_of_def bit_0)

theorem star_step_field_witness:
  "expandField ''*/20'' (0, 59) = Some (Inr [0, 20, 40])"
  using star_step_field [of "(0, 59)" 20]
  by (simp add: fieldRanges_def max_int64_def itoa_samples upto.simps)

lemma expand_part_range:
  assumes "0 \<le> lo" and "0 \<le> hi" and "in_int64 lo" and "in_int64 hi"
  shows "parseStarStep (itoa lo @ ''-'' @ itoa hi) = None"
    and "parseRange (itoa lo @ ''-'' @ itoa hi) = Some (lo, hi, 1)"
    and "CHR '','' \<notin> set (itoa lo @ ''-'' @ itoa hi)"
    and "\<forall>c \<in> set (itoa lo @ ''-'' @ itoa hi). \<not> is_space c"
proof -
  note ci = itoa_chars [OF assms(1)] itoa_chars [OF assms(2)]
  obtain c w where "itoa lo = c # w" using assms(1) by (cases "itoa lo") (simp_all add: itoa_nat)
  then show "parseStarStep (itoa lo @ ''-'' @ itoa hi) = None"
    using itoa_chars [OF assms(1), of c] by (auto simp: parseStarStep_def has_prefix_def)
  have "str_index CHR ''/'' (itoa lo @ ''-'' @ itoa hi) = None"
    using ci by (intro str_index_None) auto
  moreover have "str_index CHR ''-'' (itoa lo @ ''-'' @ itoa hi) = Some (length (itoa lo))"
    using ci str_index_append [of "CHR ''-''" "itoa lo" "itoa hi"] by auto
  ultimately show "parseRange (itoa lo @ ''-'' @ itoa hi) = Some (lo, hi, 1)"
    using assms by (simp add: parseRange_def)
qed (use itoa_chars [OF assms(1)] itoa_chars [OF assms(2)] in \<open>auto simp: is_space_def\<close>)

text \<open>
  In every field but the day of the week the upper end of a range is not checked: any range
  that begins inside the field is accepted and expanded in full.
\<close>

theorem range_field_unbounded:
  assumes "r \<in> set (take 4 fieldRanges)" and "fst r \<le> lo" and "lo \<le> hi" and "hi < max_int64"
  shows "expandField (itoa lo @ ''-'' @ itoa hi) r = Some (Inr [lo..hi])"
proof -
  have r: "0 \<le> fst r" "\<not> (fst r = 0 \<and> snd r = 6)" using assms(1) by (auto simp: fieldRanges_def)
  then have b: "0 \<le> lo" "0 \<le> hi" "in_int64 lo" "in_int64 hi"
    using assms by (simp_all add: in_int64_def min_int64_def)
  obtain out where o: "step_loop (\<lambda>i. i) lo hi 1 [] = Some out" "distinct out"
      "set out = {j \<in> {lo..hi}. (j - lo) mod 1 = 0}"
    using step_loop_correct [of 1 hi lo "[]" "\<lambda>i. i"] assms(4) b(3) by (auto simp: in_int64_def)
  have "lo \<in> set out" using o(3) assms(3) by simp
  then have "out \<noteq> []" by auto
  moreover have "sort out = [lo..hi]" using sort_upto_filter [OF o(2,3)] by simp
  moreover have "step_loop (\<lambda>i. if (fst r = 0 \<and> snd r = 6) \<and> i = 7 then 0 else i) lo hi 1 [] = Some out"
    using o(1) r(2) by auto
  ultimately have "expandField (itoa lo @ ''-'' @ itoa hi) r
      = (case map_option Inr (step_loop (\<lambda>i. if (fst r = 0 \<and> snd r = 6) \<and> i = 7 then 0 else i) lo hi 1 []) of
           None \<Rightarrow> None
         | Some (Inl e) \<Rightarrow> Some (Inl e)
         | Some (Inr out) \<Rightarrow>
            if out = [] then Some (Inl (''no valid values in field '' @ go_quote (itoa lo @ ''-'' @ itoa hi)))
            else Some (Inr (sort out)))"
    using expandField_single [OF expand_part_range(3,4) [OF b], of r] expand_part_range(1,2) [OF b] r(2) assms(2,3)
    by (auto simp: expand_part_def Let_def)
  with o(1) \<open>out \<noteq> []\<close> \<open>sort out = [lo..hi]\<close> r(2) show ?thesis by auto
qed

theorem range_field_unbounded_witness:
  "expandField ''0-99'' (0, 59) = Some (Inr [0..99])"
  using range_field_unbounded [of "(0, 59)" 0 99] by (simp add: fieldRanges_def max_int64_def itoa_samples)

lemma step_loop_forever:
  assumes "1 \<le> step" and "in_int64 i"
  shows "step_loop f i max_int64 step out = None"
proof -
  have stays: "in_int64 (fst (((\<lambda>(i, out). (wrap64 (i + step), List.insert (f i) out)) ^^ k) (i, out)))" for k
    by (induction k) (use assms(2) in \<open>auto simp: wrap64_range split: prod.splits\<close>)
  have "case ((\<lambda>(i, out). (wrap64 (i + step), List.insert (f i) out)) ^^ k) (i, out) of (i, out) \<Rightarrow> i \<le> max_int64" for k
    using stays [of k] by (auto simp: in_int64_def split: prod.splits)
  then show ?thesis unfolding step_loop_def while_option_def by simp
qed

text \<open>
  The range up to the largest integer is never finished: the loop variable wraps around and
  the parser does not return.
\<close>

theorem range_never_ends: "expandField (''0-'' @ itoa max_int64) (0, 59) = None"
proof -
  have m: "in_int64 0" "in_int64 max_int64" "0 \<le> max_int64"
    by (simp_all add: max_int64_def in_int64_def min_int64_def)
  have e: "itoa 0 @ ''-'' @ itoa max_int64 = ''0-'' @ itoa max_int64" by (simp add: itoa_samples)
  note p = expand_part_range [OF order_refl m(3) m(1,2), unfolded e]
  have "expand_part (0, 59) (''0-'' @ itoa max_int64) [] = None"
    using step_loop_forever [of 1 0 "\<lambda>i. i" "[]", OF _ m(1)] m(3) p(1,2) by (simp add: expand_part_def)
  with expandField_single [OF p(3,4), of "(0, 59)"] show ?thesis by simp
qed

end
