(* ===== verification/Cron_Scheduler.thy ===== *)
theory Cron_Scheduler
  imports Cron_Compute Floats
begin

text \<open>
  Scheduled tasks (\<open>runtime/cron/jitter.go\<close>, \<open>scheduler.go\<close>, \<open>lock.go\<close> and
  \<open>platform/store/cron_persistence.go\<close>): the deterministic jitter, the task file, one tick of the
  scheduler with the goroutines it starts, and the lock file that elects the process that ticks.

  Times are milliseconds since the epoch. \<open>next_run\<close> is \<open>NextCronRunMs\<close> in the local time zone
  (0: no run) and \<open>minute_of\<close> the minute of an instant there; both are parameters. A file write
  succeeds, and is modelled in its two steps: truncate, then fill.
\<close>

section \<open>Jitter\<close>

text \<open>\<open>RecurringFrac\<close> is the double \<open>jc_sig / 2 ^ jc_exp\<close>.\<close>

record CronJitterConfig =
  jc_sig :: int
  jc_exp :: nat
  jc_RecurringCapMs :: int
  jc_OneShotMaxMs :: int
  jc_OneShotFloorMs :: int
  jc_OneShotMinuteMod :: int
  jc_RecurringMaxAgeMs :: int

text \<open>The double nearest to \<open>0.1\<close> is \<open>3602879701896397 / 2 ^ 55\<close>.\<close>

definition DefaultCronJitterConfig :: CronJitterConfig where
  "DefaultCronJitterConfig = \<lparr>jc_sig = 3602879701896397, jc_exp = 55, jc_RecurringCapMs = 15 * 60 * 1000,
     jc_OneShotMaxMs = 90 * 1000, jc_OneShotFloorMs = 0, jc_OneShotMinuteMod = 30,
     jc_RecurringMaxAgeMs = 7 * 24 * 60 * 60 * 1000\<rparr>"

definition hexVal :: "char \<Rightarrow> int" where
  "hexVal c =
    (let n = (of_char c :: int) in
     if 48 \<le> n \<and> n \<le> 57 then n - 48
     else if 97 \<le> n \<and> n \<le> 102 then n - 97 + 10
     else if 65 \<le> n \<and> n \<le> 70 then n - 65 + 10
     else 0)"

text \<open>The fraction is \<open>jitterFrac id / 2 ^ 32\<close>, exactly.\<close>

definition jitterFrac :: "string \<Rightarrow> int" where
  "jitterFrac taskID = (if length taskID < 8 then 0 else fold (\<lambda>c v. v * 16 + hexVal c) (take 8 taskID) 0)"

text \<open>\<open>int64(p / 2^k)\<close> drops the fraction.\<close>

definition trunc_div :: "int \<Rightarrow> int \<Rightarrow> int" where
  "trunc_div p d = (if p < 0 then - ((- p) div d) else p div d)"

definition jitter_of :: "CronJitterConfig \<Rightarrow> string \<Rightarrow> int \<Rightarrow> int" where
  "jitter_of cfg taskID gap =
    (let p = float_of_int (float_of_int (jitterFrac taskID * jc_sig cfg) * float_of_int gap);
         d = 2 ^ (32 + jc_exp cfg); c = float_of_int (jc_RecurringCapMs cfg)
     in if p \<le> c * d then int64_of_float (trunc_div p d) else int64_of_float c)"

definition JitteredNextCronRunMs :: "(string \<Rightarrow> int \<Rightarrow> int) \<Rightarrow> string \<Rightarrow> int \<Rightarrow> string \<Rightarrow> CronJitterConfig \<Rightarrow> int" where
  "JitteredNextCronRunMs next_run cron fromMs taskID cfg =
    (let t1 = next_run cron fromMs in
     if t1 = 0 then 0
     else let t2 = next_run cron t1 in
     if t2 = 0 then t1
     else wrap64 (t1 + jitter_of cfg taskID (wrap64 (t2 - t1))))"

definition go_rem :: "int \<Rightarrow> int \<Rightarrow> int" where
  "go_rem a b = a - b * (sgn a * sgn b * (\<bar>a\<bar> div \<bar>b\<bar>))"

definition lead_of :: "CronJitterConfig \<Rightarrow> string \<Rightarrow> int" where
  "lead_of cfg taskID =
    wrap64 (jc_OneShotFloorMs cfg + int64_of_float (trunc_div
      (float_of_int (jitterFrac taskID * float_of_int (wrap64 (jc_OneShotMaxMs cfg - jc_OneShotFloorMs cfg)))) (2 ^ 32)))"

text \<open>A modulus of 0 panics.\<close>

definition OneShotJitteredNextCronRunMs ::
  "(string \<Rightarrow> int \<Rightarrow> int) \<Rightarrow> (int \<Rightarrow> int) \<Rightarrow> string \<Rightarrow> int \<Rightarrow> string \<Rightarrow> CronJitterConfig \<Rightarrow> string + int" where
  "OneShotJitteredNextCronRunMs next_run minute_of cron fromMs taskID cfg =
    (let t1 = next_run cron fromMs in
     if t1 = 0 then Inr 0
     else if jc_OneShotMinuteMod cfg = 0 then Inl ''integer divide by zero''
     else if go_rem (minute_of t1) (jc_OneShotMinuteMod cfg) \<noteq> 0 then Inr t1
     else let lead = lead_of cfg taskID in
     if wrap64 (t1 - lead) < fromMs then Inr fromMs
     else Inr (wrap64 (t1 - lead)))"

section \<open>Tasks and the task file\<close>

record CronTask =
  ct_ID :: string
  ct_Cron :: string
  ct_Prompt :: string
  ct_CreatedAt :: int
  ct_LastFiredAt :: "int option"
  ct_Recurring :: bool
  ct_Durable :: bool

text \<open>Go's zero time.\<close>

definition zero_time :: int where
  "zero_time = -62135596800000"

definition anchor_of :: "CronTask \<Rightarrow> int" where
  "anchor_of t = (case ct_LastFiredAt t of None \<Rightarrow> ct_CreatedAt t | Some f \<Rightarrow> f)"

definition FindMissedTasks :: "(string \<Rightarrow> int \<Rightarrow> int) \<Rightarrow> CronTask list \<Rightarrow> int \<Rightarrow> CronTask list" where
  "FindMissedTasks next_run tasks nowMs =
    filter (\<lambda>t. next_run (ct_Cron t) (anchor_of t) \<noteq> 0 \<and> next_run (ct_Cron t) (anchor_of t) < nowMs) tasks"

definition IsRecurringTaskAged :: "CronTask \<Rightarrow> int \<Rightarrow> int \<Rightarrow> bool" where
  "IsRecurringTaskAged t nowMs maxAgeMs \<longleftrightarrow>
    maxAgeMs \<noteq> 0 \<and> ct_Recurring t \<and> wrap64 (nowMs - ct_CreatedAt t) \<ge> maxAgeMs"

text \<open>The file's content: missing, unreadable, not the expected JSON (an empty file too), or a list that may be null.\<close>

datatype cron_file = NoFile | Unreadable | Malformed | TaskFile "CronTask list option"

definition ReadCronTasks :: "cron_file \<Rightarrow> unit + CronTask list" where
  "ReadCronTasks f =
    (case f of
       NoFile \<Rightarrow> Inr []
     | Unreadable \<Rightarrow> Inl ()
     | Malformed \<Rightarrow> Inr []
     | TaskFile None \<Rightarrow> Inr []
     | TaskFile (Some ts) \<Rightarrow>
         Inr (filter (\<lambda>t. \<not> (ct_ID t = '''' \<or> ct_Cron t = '''' \<or> ct_Prompt t = '''' \<or> ct_CreatedAt t = zero_time)) ts))"

definition WriteCronTasks :: "CronTask list \<Rightarrow> cron_file" where
  "WriteCronTasks tasks = TaskFile (Some tasks)"

text \<open>What each operation writes back, if anything, from the tasks it has read.\<close>

datatype file_op = AddOp CronTask | RemoveOp "string list" | MarkOp "string list" int

fun new_content :: "file_op \<Rightarrow> CronTask list \<Rightarrow> CronTask list option" where
  "new_content (AddOp t) tasks = Some (tasks @ [t])"
| "new_content (RemoveOp ids) tasks =
    (let filtered = filter (\<lambda>t. ct_ID t \<notin> set ids) tasks in
     if length filtered = length tasks then None else Some filtered)"
| "new_content (MarkOp ids firedAt) tasks =
    (if \<exists>t \<in> set tasks. ct_ID t \<in> set ids
     then Some (map (\<lambda>t. if ct_ID t \<in> set ids then t\<lparr>ct_LastFiredAt := Some firedAt\<rparr> else t) tasks)
     else None)"

definition empty_op :: "file_op \<Rightarrow> bool" where
  "empty_op op = (case op of AddOp t \<Rightarrow> False | RemoveOp ids \<Rightarrow> ids = [] | MarkOp ids at \<Rightarrow> ids = [])"

text \<open>\<open>AddCronTask\<close>, \<open>RemoveCronTasks\<close> and \<open>MarkCronTasksFired\<close> when nothing runs in between.\<close>

definition run_op :: "file_op \<Rightarrow> cron_file \<Rightarrow> cron_file" where
  "run_op op f =
    (if empty_op op then f
     else case ReadCronTasks f of
       Inl e \<Rightarrow> f
     | Inr tasks \<Rightarrow> (case new_content op tasks of None \<Rightarrow> f | Some new \<Rightarrow> WriteCronTasks new))"

definition HasCronTasksSync :: "cron_file \<Rightarrow> bool" where
  "HasCronTasksSync f = (case ReadCronTasks f of Inl e \<Rightarrow> False | Inr tasks \<Rightarrow> tasks \<noteq> [])"

section \<open>The jitter stays in its window\<close>

lemma hexVal_range: "0 \<le> hexVal c \<and> hexVal c < 16"
  by (simp add: hexVal_def Let_def)

lemma jitter_fold_range:
  "0 \<le> v \<Longrightarrow> v < 16 ^ k \<Longrightarrow> 0 \<le> fold (\<lambda>c v. v * 16 + hexVal c) s v \<and> fold (\<lambda>c v. v * 16 + hexVal c) s v < 16 ^ (k + length s)"
proof (induction s arbitrary: v k)
  case (Cons c s)
  have "v * 16 + hexVal c < 16 ^ Suc k" using Cons.prems hexVal_range [of c] by simp
  with Cons.IH [of "v * 16 + hexVal c" "Suc k"] Cons.prems hexVal_range [of c] show ?case by simp
qed simp

lemma jitterFrac_range: "0 \<le> jitterFrac taskID" "jitterFrac taskID < 2 ^ 32"
  using jitter_fold_range [of 0 0 "take 8 taskID"] by (auto simp: jitterFrac_def min_def split: if_splits)

lemma float_of_int_nonneg: "0 \<le> n \<Longrightarrow> 0 \<le> float_of_int n"
  by (simp add: float_of_int_def)

lemma default_product_small:
  assumes "0 \<le> v" and "v < 2 ^ 32" and "0 < gap"
  shows "float_of_int (float_of_int (v * 3602879701896397) * float_of_int gap) < gap * 2 ^ 87"
proof -
  define K :: int where "K = 2 ^ 53"
  define a where "a = float_of_int (v * 3602879701896397)"
  define g where "g = float_of_int gap"
  define p where "p = float_of_int (a * g)"
  have nn: "0 \<le> a" "0 \<le> g" using assms by (simp_all add: a_def g_def float_of_int_nonneg)
  have a: "a * K \<le> v * 3602879701896397 * (K + 1)"
    using float_of_int_upper [of "v * 3602879701896397"] assms(1) by (simp add: a_def K_def)
  have g: "g * K \<le> gap * (K + 1)" using float_of_int_upper [of gap] assms(3) by (simp add: g_def K_def)
  have p: "p * K \<le> a * g * (K + 1)" using float_of_int_upper [of "a * g"] nn by (simp add: p_def K_def)
  have K: "0 < K" by (simp add: K_def)
  have "p * K * (K * K) \<le> a * g * (K + 1) * (K * K)"
    using p K by (intro mult_right_mono) auto
  also have "\<dots> = (a * K) * (g * K) * (K + 1)" by (simp add: algebra_simps)
  also have "\<dots> \<le> (v * 3602879701896397 * (K + 1)) * (gap * (K + 1)) * (K + 1)"
  proof (rule mult_right_mono)
    show "(a * K) * (g * K) \<le> (v * 3602879701896397 * (K + 1)) * (gap * (K + 1))"
      by (rule mult_mono [OF a g]) (use nn K assms in simp_all)
  qed (use K in simp)
  also have "\<dots> = v * (gap * (3602879701896397 * ((K + 1) * (K + 1) * (K + 1))))" by (simp add: algebra_simps)
  also have "\<dots> < 2 ^ 32 * (gap * (3602879701896397 * ((K + 1) * (K + 1) * (K + 1))))"
    using assms K by (intro mult_strict_right_mono mult_pos_pos) auto
  also have "\<dots> \<le> (gap * 2 ^ 87) * (K * (K * K))"
  proof -
    have "2 ^ 32 * (3602879701896397 * ((K + 1) * (K + 1) * (K + 1))) \<le> 2 ^ 87 * (K * (K * K))" by (simp add: K_def)
    from mult_left_mono [OF this, of gap] assms(3) show ?thesis by (simp add: algebra_simps)
  qed
  finally have "p * (K * (K * K)) < (gap * 2 ^ 87) * (K * (K * K))" by (simp add: algebra_simps)
  with K show ?thesis by (simp add: p_def a_def g_def mult_less_cancel_right)
qed

lemma jitter_default:
  assumes "0 < gap"
  shows "0 \<le> jitter_of DefaultCronJitterConfig taskID gap \<and> jitter_of DefaultCronJitterConfig taskID gap < gap
    \<and> jitter_of DefaultCronJitterConfig taskID gap \<le> 900000"
proof -
  define p where "p = float_of_int (float_of_int (jitterFrac taskID * 3602879701896397) * float_of_int gap)"
  have c: "float_of_int 900000 = 900000" by (simp add: float_of_int_def)
  have p0: "0 \<le> p" unfolding p_def using jitterFrac_range [of taskID] assms by (intro float_of_int_nonneg mult_nonneg_nonneg) auto
  have pg: "p < gap * 2 ^ 87"
    unfolding p_def using default_product_small jitterFrac_range [of taskID] assms by blast
  have j: "jitter_of DefaultCronJitterConfig taskID gap
      = (if p \<le> 900000 * 2 ^ 87 then int64_of_float (p div 2 ^ 87) else int64_of_float 900000)"
    using p0 by (simp add: jitter_of_def DefaultCronJitterConfig_def Let_def c p_def trunc_div_def)
  have q: "0 \<le> p div 2 ^ 87" "p div 2 ^ 87 < gap"
    using p0 pg by (simp_all add: div_less_iff_less_mult pos_imp_zdiv_nonneg_iff)
  show ?thesis
  proof (cases "p \<le> 900000 * 2 ^ 87")
    case True
    then have "p div 2 ^ 87 \<le> 900000" using zdiv_mono1 [OF True, of "2 ^ 87"] by simp
    with q True j show ?thesis by (simp add: int64_of_float_def in_int64_def min_int64_def max_int64_def)
  next
    case False
    then have "900000 * 2 ^ 87 < gap * 2 ^ 87" using pg by simp
    then have "900000 < gap" by simp
    with False j show ?thesis by (simp add: int64_of_float_def in_int64_def min_int64_def max_int64_def)
  qed
qed

text \<open>
  With the default settings a recurring task is delayed by at most fifteen minutes past its
  exact time, never starts early, and never reaches its following exact time.
\<close>

theorem jitter_window:
  assumes "next_run cron from = t1" and "t1 \<noteq> 0" and "next_run cron t1 = t2" and "t2 = 0 \<or> t1 < t2"
    and "0 \<le> t1" and "t2 < 2 ^ 62"
  shows "t1 \<le> JitteredNextCronRunMs next_run cron from taskID DefaultCronJitterConfig
    \<and> JitteredNextCronRunMs next_run cron from taskID DefaultCronJitterConfig \<le> t1 + 900000
    \<and> (t2 = 0 \<or> JitteredNextCronRunMs next_run cron from taskID DefaultCronJitterConfig < t2)"
proof (cases "t2 = 0")
  case True
  with assms show ?thesis by (simp add: JitteredNextCronRunMs_def)
next
  case False
  then have "0 < t2 - t1" and g: "in_int64 (t2 - t1)"
    using assms by (simp_all add: in_int64_def min_int64_def max_int64_def)
  with jitter_default [of "t2 - t1" taskID]
  have j: "0 \<le> jitter_of DefaultCronJitterConfig taskID (t2 - t1)" "jitter_of DefaultCronJitterConfig taskID (t2 - t1) < t2 - t1"
      "jitter_of DefaultCronJitterConfig taskID (t2 - t1) \<le> 900000" by auto
  then have "in_int64 (t1 + jitter_of DefaultCronJitterConfig taskID (t2 - t1))"
    using assms by (simp add: in_int64_def min_int64_def max_int64_def)
  with j False g assms(1-3) show ?thesis by (simp add: JitteredNextCronRunMs_def)
qed

text \<open>An hourly run, without a calendar: the next multiple of an hour.\<close>

definition hourly :: "string \<Rightarrow> int \<Rightarrow> int" where
  "hourly cron from = (from div 3600000 + 1) * 3600000"

theorem jitter_window_witness:
  "JitteredNextCronRunMs hourly ''0 * * * *'' 5 ''ffffffff'' DefaultCronJitterConfig \<le> 4500000"
  using jitter_window [of hourly "''0 * * * *''" 5 3600000 7200000 "''ffffffff''"] by (simp add: hourly_def)

text \<open>
  A one-shot task that lands on a hot minute starts early, by at most the configured maximum
  and never before the time it was created; on any other minute it starts exactly on time.
\<close>

theorem one_shot_lead:
  assumes "next_run cron from = t1" and "t1 \<noteq> 0" and "from \<le> t1" and "0 \<le> from" and "t1 < 2 ^ 62"
    and "0 \<le> jc_OneShotFloorMs cfg" and "jc_OneShotFloorMs cfg \<le> jc_OneShotMaxMs cfg" and "jc_OneShotMaxMs cfg < 2 ^ 52"
    and "OneShotJitteredNextCronRunMs next_run minute_of cron from taskID cfg = Inr t"
  shows "from \<le> t \<and> t \<le> t1 \<and> t1 \<le> t + jc_OneShotMaxMs cfg
    \<and> (go_rem (minute_of t1) (jc_OneShotMinuteMod cfg) \<noteq> 0 \<longrightarrow> t = t1)"
proof (cases "go_rem (minute_of t1) (jc_OneShotMinuteMod cfg) = 0")
  case False
  with assms show ?thesis by (auto simp: OneShotJitteredNextCronRunMs_def split: if_splits)
next
  case True
  define m where "m = jc_OneShotMaxMs cfg - jc_OneShotFloorMs cfg"
  define v where "v = jitterFrac taskID"
  define l where "l = float_of_int (v * m) div 2 ^ 32"
  have v: "0 \<le> v" "v < 2 ^ 32" using jitterFrac_range by (simp_all add: v_def)
  have m: "0 \<le> m" "m < 2 ^ 52" using assms by (simp_all add: m_def)
  have fm: "float_of_int m = m" using m by (simp add: float_of_int_def)
  have wm: "wrap64 m = m" using m by (simp add: in_int64_def min_int64_def max_int64_def)
  have vm: "0 \<le> v * m" using v m by simp
  have "float_of_int (v * m) < (m + 1) * 2 ^ 32"
  proof -
    have "float_of_int (v * m) * 2 ^ 53 \<le> v * m * (2 ^ 53 + 1)" using float_of_int_upper vm by blast
    also have "\<dots> \<le> 2 ^ 32 * m * (2 ^ 53 + 1)" using v m by (intro mult_right_mono) auto
    also have "\<dots> < (m + 1) * 2 ^ 32 * 2 ^ 53" using m by (simp add: algebra_simps)
    finally show ?thesis by (simp add: mult_less_cancel_right)
  qed
  then have l: "0 \<le> l" "l \<le> m"
    using float_of_int_nonneg [OF vm] by (simp_all add: l_def pos_imp_zdiv_nonneg_iff div_less_iff_less_mult flip: zle_add1_eq_le)
  have "trunc_div (float_of_int (v * m)) (2 ^ 32) = l"
    using float_of_int_nonneg [OF vm] by (simp add: trunc_div_def l_def)
  then have "lead_of cfg taskID = wrap64 (jc_OneShotFloorMs cfg + int64_of_float l)"
    by (simp add: lead_of_def v_def [symmetric] m_def [symmetric] wm fm)
  also have "\<dots> = jc_OneShotFloorMs cfg + l"
    using l m assms(6,8) by (simp add: int64_of_float_def in_int64_def min_int64_def max_int64_def m_def)
  finally have lead: "lead_of cfg taskID = jc_OneShotFloorMs cfg + l" .
  then have "wrap64 (t1 - lead_of cfg taskID) = t1 - lead_of cfg taskID"
    using l m assms by (simp add: in_int64_def min_int64_def max_int64_def m_def)
  with True lead l m assms show ?thesis
    by (auto simp: OneShotJitteredNextCronRunMs_def Let_def m_def split: if_splits)
qed

theorem one_shot_lead_witness:
  "\<exists>t. OneShotJitteredNextCronRunMs hourly (\<lambda>_. 0) ''0 * * * *'' 10 ''ffffffff'' DefaultCronJitterConfig = Inr t
     \<and> 10 \<le> t \<and> t \<le> 3600000 \<and> 3600000 \<le> t + 90000"
proof -
  have f: "jitterFrac ''ffffffff'' = 4294967295" by (simp add: jitterFrac_def hexVal_def)
  have e: "OneShotJitteredNextCronRunMs hourly (\<lambda>_. 0) ''0 * * * *'' 10 ''ffffffff'' DefaultCronJitterConfig = Inr 3510001"
    by (simp add: OneShotJitteredNextCronRunMs_def hourly_def DefaultCronJitterConfig_def lead_of_def f go_rem_def
        float_of_int_def trunc_div_def int64_of_float_def in_int64_def min_int64_def max_int64_def wrap64_def)
  from one_shot_lead [OF refl _ _ _ _ _ _ _ e] e show ?thesis
    by (simp add: hourly_def DefaultCronJitterConfig_def)
qed

section \<open>One tick of the scheduler\<close>

record cron_env =
  e_next_run :: "string \<Rightarrow> int \<Rightarrow> int"
  e_minute_of :: "int \<Rightarrow> int"
  e_cfg :: CronJitterConfig

text \<open>\<open>s_ticking\<close> and \<open>s_probing\<close>: the tickers and their loops are running.\<close>

record Scheduler =
  s_stopped :: bool
  s_isOwner :: bool
  s_tasks :: "CronTask list"
  s_nextFireAt :: "string \<rightharpoonup> int"
  s_missedAsked :: "string set"
  s_inFlight :: "string set"
  s_ticking :: bool
  s_probing :: bool

definition NewScheduler :: Scheduler where
  "NewScheduler = \<lparr>s_stopped = False, s_isOwner = False, s_tasks = [], s_nextFireAt = Map.empty, s_missedAsked = {},
     s_inFlight = {}, s_ticking = False, s_probing = False\<rparr>"

definition or_never :: "int \<Rightarrow> int" where
  "or_never n = (if n = 0 then -1 else n)"

definition recurring_run :: "cron_env \<Rightarrow> CronTask \<Rightarrow> int \<Rightarrow> int" where
  "recurring_run E t from = JitteredNextCronRunMs (e_next_run E) (ct_Cron t) from (ct_ID t) (e_cfg E)"

text \<open>The fire time of a task: the one on record, or computed from the task's anchor.\<close>

definition fire_time :: "cron_env \<Rightarrow> Scheduler \<Rightarrow> CronTask \<Rightarrow> string + int" where
  "fire_time E s t =
    (let recorded = (case s_nextFireAt s (ct_ID t) of None \<Rightarrow> 0 | Some n \<Rightarrow> n) in
     if recorded \<noteq> 0 then Inr recorded
     else bind_res
       (if ct_Recurring t then Inr (recurring_run E t (anchor_of t))
        else OneShotJitteredNextCronRunMs (e_next_run E) (e_minute_of E) (ct_Cron t) (anchor_of t) (ct_ID t) (e_cfg E))
       (\<lambda>n. Inr (or_never n)))"

text \<open>\<open>a_fired\<close>: the calls of \<open>OnFireTask\<close>; \<open>a_gone\<close>: the tasks whose removal is started.\<close>

record tick_acc =
  a_sched :: Scheduler
  a_fired :: "CronTask list"
  a_recur :: "string list"
  a_gone :: "string list"

definition check_one :: "cron_env \<Rightarrow> int \<Rightarrow> tick_acc \<Rightarrow> CronTask \<Rightarrow> string + tick_acc" where
  "check_one E now acc t =
    (let s = a_sched acc; i = ct_ID t in
     if i \<in> s_inFlight s then Inr acc
     else bind_res (fire_time E s t) (\<lambda>next.
       let s1 = s\<lparr>s_nextFireAt := (s_nextFireAt s)(i \<mapsto> next)\<rparr> in
       if next = -1 \<or> now < next then Inr (acc\<lparr>a_sched := s1\<rparr>)
       else if ct_Recurring t \<and> \<not> IsRecurringTaskAged t now (jc_RecurringMaxAgeMs (e_cfg E)) then
         Inr (acc\<lparr>a_sched := s1\<lparr>s_nextFireAt := (s_nextFireAt s1)(i \<mapsto> or_never (recurring_run E t now))\<rparr>,
           a_fired := a_fired acc @ [t], a_recur := a_recur acc @ [i]\<rparr>)
       else
         Inr (acc\<lparr>a_sched := s1\<lparr>s_inFlight := insert i (s_inFlight s1), s_nextFireAt := (s_nextFireAt s1)(i := None)\<rparr>,
           a_fired := a_fired acc @ [t], a_gone := a_gone acc @ [i]\<rparr>)))"

text \<open>
  The goroutines that \<open>check\<close> leaves behind work on the file in steps: read it, truncate it, fill
  it, and, for a removal, take the task off the in-flight set.
\<close>

datatype phase = Reading | Truncating "CronTask list" | Filling "CronTask list" | Clearing | Ended

record job =
  j_op :: file_op
  j_clears :: "string option"
  j_phase :: phase

definition new_job :: "file_op \<Rightarrow> string option \<Rightarrow> job" where
  "new_job op c = \<lparr>j_op = op, j_clears = c, j_phase = Reading\<rparr>"

record world =
  w_file :: cron_file
  w_sched :: Scheduler
  w_jobs :: "job list"
  w_fired :: "(CronTask \<times> int) list"
  w_missed :: "CronTask list"

text \<open>\<open>check\<close> after the file was read; the scheduler's mutex is held throughout.\<close>

definition check_body :: "cron_env \<Rightarrow> int \<Rightarrow> CronTask list \<Rightarrow> world \<Rightarrow> string + world" where
  "check_body E now tasks w =
    bind_res (fold_res (check_one E now)
        \<lparr>a_sched = (w_sched w)\<lparr>s_tasks := tasks\<rparr>, a_fired = [], a_recur = [], a_gone = []\<rparr> tasks) (\<lambda>acc.
      let s = a_sched acc in
      Inr (w\<lparr>w_sched := s\<lparr>s_nextFireAt := s_nextFireAt s |` (ct_ID ` set tasks)\<rparr>,
        w_fired := w_fired w @ map (\<lambda>t. (t, now)) (a_fired acc),
        w_jobs := w_jobs w @ map (\<lambda>i. new_job (RemoveOp [i]) (Some i)) (a_gone acc)
          @ (if a_recur acc = [] then [] else [new_job (MarkOp (a_recur acc) now) None])\<rparr>))"

text \<open>One step of a goroutine on the file and the scheduler.\<close>

definition job_step :: "job \<Rightarrow> cron_file \<Rightarrow> Scheduler \<Rightarrow> job \<times> cron_file \<times> Scheduler" where
  "job_step j f s =
    (case j_phase j of
       Reading \<Rightarrow>
        (if empty_op (j_op j) then (j\<lparr>j_phase := Clearing\<rparr>, f, s)
         else case ReadCronTasks f of
           Inl e \<Rightarrow> (j\<lparr>j_phase := Clearing\<rparr>, f, s)
         | Inr tasks \<Rightarrow>
            (case new_content (j_op j) tasks of
               None \<Rightarrow> (j\<lparr>j_phase := Clearing\<rparr>, f, s)
             | Some new \<Rightarrow> (j\<lparr>j_phase := Truncating new\<rparr>, f, s)))
     | Truncating new \<Rightarrow> (j\<lparr>j_phase := Filling new\<rparr>, Malformed, s)
     | Filling new \<Rightarrow> (j\<lparr>j_phase := Clearing\<rparr>, WriteCronTasks new, s)
     | Clearing \<Rightarrow>
        (j\<lparr>j_phase := Ended\<rparr>, f,
         case j_clears j of None \<Rightarrow> s | Some i \<Rightarrow> s\<lparr>s_inFlight := s_inFlight s - {i}\<rparr>)
     | Ended \<Rightarrow> (j, f, s))"

definition step_job :: "nat \<Rightarrow> world \<Rightarrow> world" where
  "step_job i w =
    (let (j, f, s) = job_step (w_jobs w ! i) (w_file w) (w_sched w)
     in w\<lparr>w_jobs := (w_jobs w)[i := j], w_file := f, w_sched := s\<rparr>)"

section \<open>Loading\<close>

text \<open>Whether this missed task is reported now; \<open>OnMissed\<close> is called once for all of them.\<close>

definition report_missed :: "Scheduler \<times> CronTask list \<Rightarrow> CronTask \<Rightarrow> Scheduler \<times> CronTask list" where
  "report_missed acc m =
    (let (s, out) = acc in
     if ct_Recurring m \<or> ct_ID m \<in> s_missedAsked s then (s, out)
     else (s\<lparr>s_missedAsked := insert (ct_ID m) (s_missedAsked s), s_nextFireAt := (s_nextFireAt s)(ct_ID m \<mapsto> -1)\<rparr>,
           out @ [m\<lparr>ct_Durable := False\<rparr>]))"

definition loadTasks :: "cron_env \<Rightarrow> bool \<Rightarrow> int \<Rightarrow> world \<Rightarrow> world" where
  "loadTasks E initial now w =
    (case ReadCronTasks (w_file w) of
       Inl e \<Rightarrow> w
     | Inr tasks \<Rightarrow>
        let s0 = (w_sched w)\<lparr>s_tasks := tasks\<rparr> in
        if \<not> initial then w\<lparr>w_sched := s0\<rparr>
        else
          let (s, missed) = foldl report_missed (s0, []) (FindMissedTasks (e_next_run E) tasks now) in
          if missed = [] then w\<lparr>w_sched := s\<rparr>
          else w\<lparr>w_sched := s, w_missed := w_missed w @ missed,
             w_file := run_op (RemoveOp (map ct_ID missed)) (w_file w)\<rparr>)"

text \<open>\<open>GetNextFireTime\<close>: \<open>ts\<close> are the recorded times, in the order the map is iterated.\<close>

definition GetNextFireTime :: "int list \<Rightarrow> int option" where
  "GetNextFireTime ts =
    (let m = fold (\<lambda>t m. if t \<le> 0 then m else if m = -1 \<or> t < m then t else m) ts (-1)
     in if m = -1 then None else Some m)"

section \<open>Ticks that do not overlap\<close>

definition finish_job :: "job \<Rightarrow> cron_file \<times> Scheduler \<Rightarrow> cron_file \<times> Scheduler" where
  "finish_job j fs = snd (((\<lambda>(j, f, s). job_step j f s) ^^ 4) (j, fs))"

definition settle :: "world \<Rightarrow> world" where
  "settle w =
    (let (f, s) = fold finish_job (w_jobs w) (w_file w, w_sched w) in w\<lparr>w_file := f, w_sched := s, w_jobs := []\<rparr>)"

definition check :: "cron_env \<Rightarrow> int \<Rightarrow> world \<Rightarrow> string + world" where
  "check E now w = (case ReadCronTasks (w_file w) of Inl e \<Rightarrow> Inr w | Inr tasks \<Rightarrow> check_body E now tasks w)"

definition tasks_of :: "cron_file \<Rightarrow> CronTask list" where
  "tasks_of f = (case ReadCronTasks f of Inl e \<Rightarrow> [] | Inr ts \<Rightarrow> ts)"

definition clear_flight :: "string option \<Rightarrow> Scheduler \<Rightarrow> Scheduler" where
  "clear_flight c s = (case c of None \<Rightarrow> s | Some i \<Rightarrow> s\<lparr>s_inFlight := s_inFlight s - {i}\<rparr>)"

text \<open>A goroutine that nothing interrupts performs its operation as a whole.\<close>

lemma finish_job_alone:
  "j_phase j = Reading \<Longrightarrow> finish_job j (f, s) = (run_op (j_op j) f, clear_flight (j_clears j) s)"
  by (auto simp: finish_job_def job_step_def run_op_def clear_flight_def numeral_eq_Suc split: sum.splits option.splits)

definition valid_task :: "CronTask \<Rightarrow> bool" where
  "valid_task t \<longleftrightarrow> ct_ID t \<noteq> '''' \<and> ct_Cron t \<noteq> '''' \<and> ct_Prompt t \<noteq> '''' \<and> ct_CreatedAt t \<noteq> zero_time"

lemma tasks_of_simps [simp]:
  "tasks_of NoFile = []" "tasks_of Unreadable = []" "tasks_of Malformed = []" "tasks_of (TaskFile None) = []"
  "tasks_of (TaskFile (Some ts)) = filter valid_task ts"
  by (auto simp: tasks_of_def ReadCronTasks_def valid_task_def intro!: filter_cong)

lemma ReadCronTasks_valid: "ReadCronTasks f = Inr ts \<Longrightarrow> filter valid_task ts = ts"
  by (auto simp: ReadCronTasks_def valid_task_def split: cron_file.splits option.splits)

lemma valid_task_fired [simp]: "valid_task (t\<lparr>ct_LastFiredAt := a\<rparr>) = valid_task t"
  by (simp add: valid_task_def)

lemma tasks_of_remove: "tasks_of (run_op (RemoveOp ids) f) = filter (\<lambda>t. ct_ID t \<notin> set ids) (tasks_of f)"
proof (cases "ReadCronTasks f")
  case (Inl e)
  then show ?thesis by (simp add: run_op_def tasks_of_def)
next
  case (Inr ts)
  then have t: "tasks_of f = ts" by (simp add: tasks_of_def)
  show ?thesis
  proof (cases "length (filter (\<lambda>t. ct_ID t \<notin> set ids) ts) = length ts")
    case True
    then have "\<forall>t \<in> set ts. ct_ID t \<notin> set ids" by (simp add: length_filter_conv_card) (metis (mono_tags, lifting) True filter_id_conv length_filter_less nat_neq_iff)
    then show ?thesis using Inr t True by (simp add: run_op_def empty_op_def filter_id_conv)
  next
    case False
    then have "ids \<noteq> []" by auto
    moreover have "filter (\<lambda>t. valid_task t \<and> ct_ID t \<notin> set ids) ts = filter (\<lambda>t. ct_ID t \<notin> set ids) ts"
      using arg_cong [OF ReadCronTasks_valid [OF Inr], of "filter (\<lambda>t. ct_ID t \<notin> set ids)"] by (simp add: conj_commute)
    ultimately show ?thesis using Inr t False by (simp add: run_op_def empty_op_def WriteCronTasks_def conj_commute)
  qed
qed

lemma tasks_of_mark:
  "map ct_ID (tasks_of (run_op (MarkOp ids at) f)) = map ct_ID (tasks_of f)"
proof (cases "ReadCronTasks f")
  case (Inl e)
  then show ?thesis by (simp add: run_op_def tasks_of_def)
next
  case (Inr ts)
  then have t: "tasks_of f = ts" by (simp add: tasks_of_def)
  have v: "\<forall>t \<in> set ts. valid_task t" using ReadCronTasks_valid [OF Inr] by (simp add: filter_id_conv)
  have "filter valid_task (map (\<lambda>t. if ct_ID t \<in> set ids then t\<lparr>ct_LastFiredAt := Some at\<rparr> else t) ts)
      = map (\<lambda>t. if ct_ID t \<in> set ids then t\<lparr>ct_LastFiredAt := Some at\<rparr> else t) ts"
    using v by (intro filter_True) auto
  then show ?thesis using Inr t by (auto simp: run_op_def empty_op_def WriteCronTasks_def)
qed

lemma tasks_of_add: "set (map ct_ID (tasks_of (run_op (AddOp t) f))) \<subseteq> insert (ct_ID t) (set (map ct_ID (tasks_of f)))
    \<and> (distinct (map ct_ID (tasks_of f)) \<and> ct_ID t \<notin> set (map ct_ID (tasks_of f)) \<longrightarrow> distinct (map ct_ID (tasks_of (run_op (AddOp t) f))))"
proof (cases "ReadCronTasks f")
  case (Inl e)
  then show ?thesis by (auto simp: run_op_def tasks_of_def empty_op_def)
next
  case (Inr ts)
  then show ?thesis using ReadCronTasks_valid [OF Inr] by (auto simp: run_op_def tasks_of_def [of f] empty_op_def WriteCronTasks_def)
qed

lemma subseq_set: "subseq xs ys \<Longrightarrow> set xs \<subseteq> set ys"
  by (induction rule: list_emb.induct) auto

lemma subseq_distinct: "subseq xs ys \<Longrightarrow> distinct ys \<Longrightarrow> distinct xs"
  by (induction rule: list_emb.induct) (auto dest: subseq_set)

lemma check_one_cases:
  assumes "check_one E now acc t = Inr acc'"
  shows "(a_fired acc' = a_fired acc \<and> a_gone acc' = a_gone acc) \<or>
    (a_fired acc' = a_fired acc @ [t] \<and> a_gone acc' = a_gone acc \<and> ct_Recurring t) \<or>
    (a_fired acc' = a_fired acc @ [t] \<and> a_gone acc' = a_gone acc @ [ct_ID t])"
  using assms by (auto simp: check_one_def Let_def bind_res_Inr_iff split: if_splits)

lemma check_fold:
  "fold_res (check_one E now) acc ts = Inr acc' \<Longrightarrow>
    \<exists>F G. a_fired acc' = a_fired acc @ F \<and> a_gone acc' = a_gone acc @ G \<and> subseq F ts
      \<and> (\<forall>t \<in> set F. ct_Recurring t \<or> ct_ID t \<in> set G)"
proof (induction ts arbitrary: acc)
  case (Cons t ts)
  then obtain acc1 where one: "check_one E now acc t = Inr acc1" and rest: "fold_res (check_one E now) acc1 ts = Inr acc'"
    by (auto simp: bind_res_Inr_iff)
  from Cons.IH [OF rest] obtain F G where fg: "a_fired acc' = a_fired acc1 @ F" "a_gone acc' = a_gone acc1 @ G" "subseq F ts"
      "\<forall>t \<in> set F. ct_Recurring t \<or> ct_ID t \<in> set G" by blast
  from check_one_cases [OF one] show ?case
  proof (elim disjE conjE)
    assume "a_fired acc1 = a_fired acc" "a_gone acc1 = a_gone acc"
    with fg show ?thesis by (intro exI [of _ F] exI [of _ G]) (auto intro: list_emb_Cons)
  next
    assume "a_fired acc1 = a_fired acc @ [t]" "a_gone acc1 = a_gone acc" "ct_Recurring t"
    with fg show ?thesis by (intro exI [of _ "t # F"] exI [of _ G]) simp
  next
    assume "a_fired acc1 = a_fired acc @ [t]" "a_gone acc1 = a_gone acc @ [ct_ID t]"
    with fg show ?thesis by (intro exI [of _ "t # F"] exI [of _ "ct_ID t # G"]) auto
  qed
qed simp

lemma finish_removals:
  "tasks_of (fst (fold finish_job (map (\<lambda>i. new_job (RemoveOp [i]) (Some i)) G) (f, s)))
    = filter (\<lambda>t. ct_ID t \<notin> set G) (tasks_of f)"
proof (induction G arbitrary: f s)
  case (Cons i G)
  have "finish_job (new_job (RemoveOp [i]) (Some i)) (f, s) = (run_op (RemoveOp [i]) f, clear_flight (Some i) s)"
    by (simp add: finish_job_alone new_job_def)
  then show ?case by (simp add: Cons.IH tasks_of_remove conj_commute)
qed simp

lemma tick_effect:
  assumes "check E now w = Inr w'" and "w_jobs w = []"
  shows "\<exists>F G. w_fired w' = w_fired w @ map (\<lambda>t. (t, now)) F \<and> subseq F (tasks_of (w_file w))
    \<and> (\<forall>t \<in> set F. ct_Recurring t \<or> ct_ID t \<in> set G)
    \<and> map ct_ID (tasks_of (w_file (settle w'))) = filter (\<lambda>i. i \<notin> set G) (map ct_ID (tasks_of (w_file w)))"
proof (cases "ReadCronTasks (w_file w)")
  case (Inl e)
  with assms have "w' = w" by (simp add: check_def)
  with assms(2) show ?thesis by (intro exI [of _ "[]"]) (simp add: settle_def)
next
  case (Inr tasks)
  then have ts: "tasks_of (w_file w) = tasks" by (simp add: tasks_of_def)
  obtain acc where acc: "fold_res (check_one E now)
        \<lparr>a_sched = (w_sched w)\<lparr>s_tasks := tasks\<rparr>, a_fired = [], a_recur = [], a_gone = []\<rparr> tasks = Inr acc"
      and w': "w_fired w' = w_fired w @ map (\<lambda>t. (t, now)) (a_fired acc)" "w_file w' = w_file w"
        "w_jobs w' = map (\<lambda>i. new_job (RemoveOp [i]) (Some i)) (a_gone acc)
          @ (if a_recur acc = [] then [] else [new_job (MarkOp (a_recur acc) now) None])"
    using assms Inr by (auto simp: check_def check_body_def bind_res_Inr_iff Let_def)
  from check_fold [OF acc] have fg: "subseq (a_fired acc) tasks" "\<forall>t \<in> set (a_fired acc). ct_Recurring t \<or> ct_ID t \<in> set (a_gone acc)"
    by auto
  obtain f s where fs: "fold finish_job (map (\<lambda>i. new_job (RemoveOp [i]) (Some i)) (a_gone acc)) (w_file w, w_sched w') = (f, s)"
    by fastforce
  have f: "map ct_ID (tasks_of f) = filter (\<lambda>i. i \<notin> set (a_gone acc)) (map ct_ID tasks)"
    using finish_removals [of "a_gone acc" "w_file w" "w_sched w'"] fs by (simp add: ts filter_map comp_def)
  have "map ct_ID (tasks_of (w_file (settle w'))) = map ct_ID (tasks_of f)"
    using w'(2,3) fs by (simp add: settle_def finish_job_alone new_job_def tasks_of_mark split: prod.split)
  with w'(1) fg f ts show ?thesis by metis
qed

text \<open>
  Ticks and additions, one after the other; an added task has an identifier that neither a task on
  file nor one that was fired has (\<open>uuid\<close>).
\<close>

inductive quiet_step :: "cron_env \<Rightarrow> world \<Rightarrow> world \<Rightarrow> bool" for E where
  tick: "check E now w = Inr w' \<Longrightarrow> quiet_step E w (settle w')"
| add: "ct_ID t \<notin> ct_ID ` set (tasks_of (w_file w)) \<union> (ct_ID \<circ> fst) ` set (w_fired w) \<Longrightarrow>
    quiet_step E w (w\<lparr>w_file := run_op (AddOp t) (w_file w)\<rparr>)"

definition one_shots :: "world \<Rightarrow> string list" where
  "one_shots w = map ct_ID (filter (\<lambda>t. \<not> ct_Recurring t) (map fst (w_fired w)))"

definition once_inv :: "world \<Rightarrow> bool" where
  "once_inv w \<longleftrightarrow> w_jobs w = [] \<and> distinct (map ct_ID (tasks_of (w_file w))) \<and> distinct (one_shots w)
    \<and> set (one_shots w) \<inter> ct_ID ` set (tasks_of (w_file w)) = {}"

lemma once_inv_tick:
  assumes "once_inv w" and "check E now w = Inr w'"
  shows "once_inv (settle w')"
proof -
  from tick_effect [OF assms(2)] assms(1) obtain F G where
    F: "w_fired w' = w_fired w @ map (\<lambda>t. (t, now)) F" "subseq F (tasks_of (w_file w))"
      "\<forall>t \<in> set F. ct_Recurring t \<or> ct_ID t \<in> set G"
      and ids: "map ct_ID (tasks_of (w_file (settle w'))) = filter (\<lambda>i. i \<notin> set G) (map ct_ID (tasks_of (w_file w)))"
    by (auto simp: once_inv_def)
  have st: "w_fired (settle w') = w_fired w'" "w_jobs (settle w') = []" by (simp_all add: settle_def split: prod.split)
  have log: "one_shots (settle w') = one_shots w @ map ct_ID (filter (\<lambda>t. \<not> ct_Recurring t) F)"
    by (simp add: one_shots_def st F(1) comp_def)
  have sub: "subseq (map ct_ID (filter (\<lambda>t. \<not> ct_Recurring t) F)) (map ct_ID (tasks_of (w_file w)))"
    using subseq_filter_left [of "\<lambda>t. \<not> ct_Recurring t" F] F(2) subseq_order.trans subseq_map by blast
  have idset: "ct_ID ` set (tasks_of (w_file (settle w'))) = {i \<in> ct_ID ` set (tasks_of (w_file w)). i \<notin> set G}"
    using arg_cong [OF ids, of set] by (simp only: set_map set_filter)
  have "set (map ct_ID (filter (\<lambda>t. \<not> ct_Recurring t) F)) \<subseteq> set G" using F(3) by auto
  then have "set (one_shots (settle w')) \<inter> ct_ID ` set (tasks_of (w_file (settle w'))) = {}"
    using assms(1) unfolding log idset once_inv_def by auto
  moreover have "distinct (one_shots (settle w'))"
    using assms(1) subseq_distinct [OF sub] subseq_set [OF sub] unfolding log once_inv_def by fastforce
  moreover have "distinct (map ct_ID (tasks_of (w_file (settle w'))))"
    using assms(1) unfolding ids once_inv_def by simp
  ultimately show ?thesis by (simp add: once_inv_def st)
qed

lemma disjoint_insert_mono: "x \<notin> A \<Longrightarrow> C \<subseteq> insert x B \<Longrightarrow> A \<inter> B = {} \<Longrightarrow> A \<inter> C = {}"
  by blast

lemma once_inv_add:
  assumes "once_inv w" and "ct_ID t \<notin> ct_ID ` set (tasks_of (w_file w)) \<union> (ct_ID \<circ> fst) ` set (w_fired w)"
  shows "once_inv (w\<lparr>w_file := run_op (AddOp t) (w_file w)\<rparr>)"
proof -
  have o: "one_shots (w\<lparr>w_file := run_op (AddOp t) (w_file w)\<rparr>) = one_shots w" by (simp add: one_shots_def)
  have "ct_ID t \<notin> set (one_shots w)" using assms(2) by (auto simp: one_shots_def)
  moreover have "ct_ID ` set (tasks_of (run_op (AddOp t) (w_file w))) \<subseteq> insert (ct_ID t) (ct_ID ` set (tasks_of (w_file w)))"
    using tasks_of_add [of t "w_file w"] by simp
  moreover have "set (one_shots w) \<inter> ct_ID ` set (tasks_of (w_file w)) = {}"
    using assms(1) unfolding once_inv_def by (elim conjE) assumption
  ultimately have "set (one_shots w) \<inter> ct_ID ` set (tasks_of (run_op (AddOp t) (w_file w))) = {}"
    by (rule disjoint_insert_mono)
  moreover have "distinct (map ct_ID (tasks_of (run_op (AddOp t) (w_file w))))"
    by (rule mp [OF conjunct2 [OF tasks_of_add]]) (use assms in \<open>simp add: once_inv_def\<close>)
  ultimately show ?thesis using assms(1) unfolding once_inv_def o by simp
qed

interpretation quiet_ticks: step_invariant "quiet_step E" once_inv for E
  by unfold_locales (auto elim!: quiet_step.cases intro: once_inv_tick once_inv_add)

text \<open>
  C24: As long as every tick finds the file work of the previous one done, a one-shot task fires at
  most once, however ticks and additions alternate.
\<close>

theorem one_shot_fires_once:
  assumes "(quiet_step E)\<^sup>*\<^sup>* w w'" and "w_jobs w = []" and "w_fired w = []" and "distinct (map ct_ID (tasks_of (w_file w)))"
  shows "distinct (map ct_ID (filter (\<lambda>t. \<not> ct_Recurring t) (map fst (w_fired w'))))"
proof -
  have "once_inv w" using assms(2-4) by (simp add: once_inv_def one_shots_def)
  with quiet_ticks.reach_inv [OF assms(1)] have "once_inv w'" by blast
  then show ?thesis by (simp add: once_inv_def one_shots_def)
qed

definition cron_demo_env :: cron_env where
  "cron_demo_env = \<lparr>e_next_run = hourly, e_minute_of = (\<lambda>_. 0), e_cfg = DefaultCronJitterConfig\<rparr>"

definition cron_demo_task :: "string \<Rightarrow> bool \<Rightarrow> CronTask" where
  "cron_demo_task i r = \<lparr>ct_ID = i, ct_Cron = ''0 * * * *'', ct_Prompt = ''go'', ct_CreatedAt = 0, ct_LastFiredAt = None,
     ct_Recurring = r, ct_Durable = False\<rparr>"

definition demo_world :: "CronTask list \<Rightarrow> world" where
  "demo_world ts = \<lparr>w_file = TaskFile (Some ts), w_sched = NewScheduler, w_jobs = [], w_fired = [], w_missed = []\<rparr>"

lemma hourly_samples: "hourly c 0 = 3600000" "hourly c 3600000 = 7200000"
  by (simp_all add: hourly_def)

lemmas demo_eval = cron_demo_env_def cron_demo_task_def demo_world_def check_def check_body_def check_one_def ReadCronTasks_def
  zero_time_def NewScheduler_def fire_time_def anchor_of_def recurring_run_def or_never_def IsRecurringTaskAged_def
  JitteredNextCronRunMs_def OneShotJitteredNextCronRunMs_def lead_of_def jitter_of_def jitterFrac_def
  DefaultCronJitterConfig_def hourly_samples go_rem_def float_of_int_def trunc_div_def int64_of_float_def
  in_int64_def min_int64_def max_int64_def wrap64_def new_job_def Let_def

theorem one_shot_fires_once_witness:
  "\<exists>w. (quiet_step cron_demo_env)\<^sup>*\<^sup>* (demo_world [cron_demo_task ''once'' False]) w \<and> w_fired w \<noteq> []
     \<and> distinct (map ct_ID (filter (\<lambda>t. \<not> ct_Recurring t) (map fst (w_fired w))))"
proof -
  let ?w = "demo_world [cron_demo_task ''once'' False]"
  obtain w1 where w1: "check cron_demo_env 3600000 ?w = Inr w1" and f: "w_fired w1 \<noteq> []"
    by (simp add: demo_eval)
  from w1 have r: "(quiet_step cron_demo_env)\<^sup>*\<^sup>* ?w (settle w1)" by (intro r_into_rtranclp quiet_step.tick)
  have "w_fired (settle w1) \<noteq> []" using f by (simp add: settle_def split: prod.split)
  moreover have "distinct (map ct_ID (filter (\<lambda>t. \<not> ct_Recurring t) (map fst (w_fired (settle w1)))))"
    by (rule one_shot_fires_once [OF r]) (simp_all add: demo_world_def cron_demo_task_def)
  ultimately show ?thesis using r by blast
qed

section \<open>Ticks that overlap with the file work\<close>

text \<open>Any goroutine may take its next step between two ticks.\<close>

inductive overlapping_step :: "cron_env \<Rightarrow> world \<Rightarrow> world \<Rightarrow> bool" for E where
  tick: "check E now w = Inr w' \<Longrightarrow> overlapping_step E w w'"
| job: "i < length (w_jobs w) \<Longrightarrow> overlapping_step E w (step_job i w)"

lemma overlapping_jobs:
  "\<forall>i \<in> set js. i < length (w_jobs w) \<Longrightarrow> (overlapping_step E)\<^sup>*\<^sup>* w (fold step_job js w)"
proof (induction js arbitrary: w)
  case (Cons i js)
  have "overlapping_step E w (step_job i w)" using Cons.prems by (simp add: overlapping_step.job)
  moreover have "(overlapping_step E)\<^sup>*\<^sup>* (step_job i w) (fold step_job js (step_job i w))"
    using Cons.prems by (intro Cons.IH) (simp add: step_job_def split: prod.split)
  ultimately show ?case by simp
qed simp

text \<open>
  The file work of one tick need not be done at the next, and then a one-shot task can fire twice: in
  the run below, where a recurring task fires on the same tick, the goroutine that stamps it
  reads the file before, and writes it after, the goroutine that removes the one-shot task; the
  removed task is back in the file, is off the in-flight set, and is due at once.
\<close>

theorem one_shot_fires_twice:
  "\<exists>w. (overlapping_step cron_demo_env)\<^sup>*\<^sup>* (demo_world [cron_demo_task ''loop'' True, cron_demo_task ''once'' False]) w
     \<and> map (\<lambda>(t, at). (ct_ID t, at)) (w_fired w) = [(''loop'', 3600000), (''once'', 3600000), (''once'', 3601000)]"
proof -
  let ?w = "demo_world [cron_demo_task ''loop'' True, cron_demo_task ''once'' False]"
  define s1 where "s1 = NewScheduler\<lparr>s_tasks := [cron_demo_task ''loop'' True, cron_demo_task ''once'' False],
    s_nextFireAt := [''loop'' \<mapsto> 7200000], s_inFlight := {''once''}\<rparr>"
  define w1 where "w1 = ?w\<lparr>w_sched := s1, w_fired := [(cron_demo_task ''loop'' True, 3600000), (cron_demo_task ''once'' False, 3600000)],
    w_jobs := [new_job (RemoveOp [''once'']) (Some ''once''), new_job (MarkOp [''loop''] 3600000) None]\<rparr>"
  have c1: "check cron_demo_env 3600000 ?w = Inr w1"
    by (simp add: demo_eval w1_def s1_def)
  define ts where "ts = [(cron_demo_task ''loop'' True)\<lparr>ct_LastFiredAt := Some 3600000\<rparr>, cron_demo_task ''once'' False]"
  have w2: "fold step_job [1, 0, 0, 0, 0, 1, 1, 1] w1 = w1\<lparr>w_file := TaskFile (Some ts), w_sched := s1\<lparr>s_inFlight := {}\<rparr>,
      w_jobs := [\<lparr>j_op = RemoveOp [''once''], j_clears = Some ''once'', j_phase = Ended\<rparr>,
        \<lparr>j_op = MarkOp [''loop''] 3600000, j_clears = None, j_phase = Ended\<rparr>]\<rparr>"
    by (simp add: w1_def ts_def s1_def step_job_def job_step_def new_job_def empty_op_def demo_world_def cron_demo_task_def
        ReadCronTasks_def zero_time_def WriteCronTasks_def Let_def)
  have "(overlapping_step cron_demo_env)\<^sup>*\<^sup>* w1 (fold step_job [1, 0, 0, 0, 0, 1, 1, 1] w1)"
    by (rule overlapping_jobs) (simp add: w1_def)
  with c1 have r: "(overlapping_step cron_demo_env)\<^sup>*\<^sup>* ?w (fold step_job [1, 0, 0, 0, 0, 1, 1, 1] w1)"
    by (blast intro: overlapping_step.tick converse_rtranclp_into_rtranclp)
  obtain w3 where w3: "check cron_demo_env 3601000 (fold step_job [1, 0, 0, 0, 0, 1, 1, 1] w1) = Inr w3"
      and f: "w_fired w3 = w_fired w1 @ [(cron_demo_task ''once'' False, 3601000)]"
    unfolding w2 by (simp add: demo_eval w1_def ts_def s1_def)
  from r w3 have "(overlapping_step cron_demo_env)\<^sup>*\<^sup>* ?w w3" by (blast intro: overlapping_step.tick rtranclp.rtrancl_into_rtrancl)
  with f show ?thesis by (intro exI [of _ w3]) (simp add: w1_def cron_demo_task_def)
qed

section \<open>The lock file\<close>

record SchedulerLock =
  sl_SessionID :: string
  sl_PID :: int
  sl_AcquiredAt :: int

text \<open>
  The directory entry points to an inode; a new file is empty (\<open>None\<close>) until its content is
  written, and a write to a file that was unlinked meanwhile reaches nobody.
\<close>

record lock_dir =
  ld_file :: "(nat \<times> SchedulerLock option) option"
  ld_next :: nat

datatype lock_pc = L_Create | L_Fill nat | L_Read | L_Own | L_Remove | L_Create2 | L_Done bool

record contender =
  lc_session :: string
  lc_pid :: int
  lc_now :: int
  lc_pc :: lock_pc

definition lock_of :: "contender \<Rightarrow> SchedulerLock" where
  "lock_of p = \<lparr>sl_SessionID = lc_session p, sl_PID = lc_pid p, sl_AcquiredAt = lc_now p\<rparr>"

text \<open>The \<open>O_EXCL\<close> open.\<close>

definition create_excl :: "lock_pc \<Rightarrow> contender \<Rightarrow> lock_dir \<Rightarrow> contender \<times> lock_dir" where
  "create_excl failed p d =
    (case ld_file d of
       None \<Rightarrow> (p\<lparr>lc_pc := L_Fill (ld_next d)\<rparr>, d\<lparr>ld_file := Some (ld_next d, None), ld_next := ld_next d + 1\<rparr>)
     | Some _ \<Rightarrow> (p\<lparr>lc_pc := failed\<rparr>, d))"

text \<open>The steps of \<open>TryAcquireSchedulerLock\<close>; \<open>alive\<close> is \<open>isProcessRunning\<close>.\<close>

definition lock_step :: "(int \<Rightarrow> bool) \<Rightarrow> contender \<Rightarrow> lock_dir \<Rightarrow> contender \<times> lock_dir" where
  "lock_step alive p d =
    (case lc_pc p of
       L_Create \<Rightarrow> create_excl L_Read p d
     | L_Fill i \<Rightarrow>
        (p\<lparr>lc_pc := L_Done True\<rparr>,
         case ld_file d of None \<Rightarrow> d | Some (k, c) \<Rightarrow> if k = i then d\<lparr>ld_file := Some (k, Some (lock_of p))\<rparr> else d)
     | L_Read \<Rightarrow>
        (case ld_file d of
           Some (k, Some l) \<Rightarrow>
            (if sl_SessionID l = lc_session p then (p\<lparr>lc_pc := if sl_PID l \<noteq> lc_pid p then L_Own else L_Done True\<rparr>, d)
             else (p\<lparr>lc_pc := if alive (sl_PID l) then L_Done False else L_Remove\<rparr>, d))
         | _ \<Rightarrow> (p\<lparr>lc_pc := L_Remove\<rparr>, d))
     | L_Own \<Rightarrow>
        (p\<lparr>lc_pc := L_Done True\<rparr>,
         case ld_file d of
           None \<Rightarrow> d\<lparr>ld_file := Some (ld_next d, Some (lock_of p)), ld_next := ld_next d + 1\<rparr>
         | Some (k, c) \<Rightarrow> d\<lparr>ld_file := Some (k, Some (lock_of p))\<rparr>)
     | L_Remove \<Rightarrow> (p\<lparr>lc_pc := L_Create2\<rparr>, d\<lparr>ld_file := None\<rparr>)
     | L_Create2 \<Rightarrow> create_excl (L_Done False) p d
     | L_Done b \<Rightarrow> (p, d))"

text \<open>A call that nothing interrupts.\<close>

definition TryAcquireSchedulerLock :: "(int \<Rightarrow> bool) \<Rightarrow> contender \<Rightarrow> lock_dir \<Rightarrow> bool \<times> lock_dir" where
  "TryAcquireSchedulerLock alive p d =
    (let (p', d') = ((\<lambda>(p, d). lock_step alive p d) ^^ 5) (p\<lparr>lc_pc := L_Create\<rparr>, d) in (lc_pc p' = L_Done True, d'))"

definition ReleaseSchedulerLock :: "string \<Rightarrow> lock_dir \<Rightarrow> lock_dir" where
  "ReleaseSchedulerLock sessionID d =
    (case ld_file d of
       Some (k, Some l) \<Rightarrow> if sl_SessionID l = sessionID then d\<lparr>ld_file := None\<rparr> else d
     | _ \<Rightarrow> d)"

text \<open>\<open>Start\<close> and \<open>Stop\<close>.\<close>

definition Start :: "cron_env \<Rightarrow> (int \<Rightarrow> bool) \<Rightarrow> contender \<Rightarrow> int \<Rightarrow> world \<times> lock_dir \<Rightarrow> world \<times> lock_dir" where
  "Start E alive p now wd =
    (let (w, d) = wd in
     if \<not> s_stopped (w_sched w) then (w, d)
     else
       let (owned, d') = TryAcquireSchedulerLock alive p d;
           w1 = w\<lparr>w_sched := (w_sched w)\<lparr>s_stopped := False, s_isOwner := owned\<rparr>\<rparr>;
           w2 = (if owned then loadTasks E True now w1 else w1\<lparr>w_sched := (w_sched w1)\<lparr>s_probing := True\<rparr>\<rparr>)
       in (w2\<lparr>w_sched := (w_sched w2)\<lparr>s_ticking := True\<rparr>\<rparr>, d'))"

definition Stop :: "contender \<Rightarrow> world \<times> lock_dir \<Rightarrow> world \<times> lock_dir" where
  "Stop p wd =
    (let (w, d) = wd; s = w_sched w in
     if s_stopped s then (w, d)
     else (w\<lparr>w_sched := s\<lparr>s_stopped := True, s_ticking := False, s_probing := False, s_isOwner := False\<rparr>\<rparr>,
       if s_isOwner s then ReleaseSchedulerLock (lc_session p) d else d))"

text \<open>
  A scheduler that was just made does not start: \<open>Start\<close> returns at once unless \<open>Stop\<close> was
  called before, so that neither the lock is taken nor the loop begun, however often it is called.
\<close>

theorem Start_does_nothing:
  "((Start E alive p now) ^^ n) (w\<lparr>w_sched := NewScheduler\<rparr>, d) = (w\<lparr>w_sched := NewScheduler\<rparr>, d)"
  by (induction n) (simp_all add: Start_def NewScheduler_def)

section \<open>One owner\<close>

text \<open>Several contenders, each between any two steps of the others.\<close>

inductive contend :: "(int \<Rightarrow> bool) \<Rightarrow> contender list \<times> lock_dir \<Rightarrow> contender list \<times> lock_dir \<Rightarrow> bool" for alive where
  "i < length ps \<Longrightarrow> lock_step alive (ps ! i) d = (p', d') \<Longrightarrow> contend alive (ps, d) (ps[i := p'], d')"

definition waiting :: "string \<Rightarrow> contender \<Rightarrow> bool" where
  "waiting owner p \<longleftrightarrow> lc_session p \<noteq> owner \<and> lc_pc p \<in> {L_Create, L_Read, L_Done False}"

definition held :: "(int \<Rightarrow> bool) \<Rightarrow> nat \<times> SchedulerLock \<Rightarrow> contender list \<times> lock_dir \<Rightarrow> bool" where
  "held alive kl psd \<longleftrightarrow> ld_file (snd psd) = Some (fst kl, Some (snd kl)) \<and> alive (sl_PID (snd kl))
     \<and> (\<forall>p \<in> set (fst psd). waiting (sl_SessionID (snd kl)) p)"

lemma held_step:
  assumes "held alive kl s" and "contend alive s t"
  shows "held alive kl t"
  using assms(2)
proof cases
  case (1 i ps d p' d')
  have h: "ld_file d = Some (fst kl, Some (snd kl))" "alive (sl_PID (snd kl))"
      "\<forall>p \<in> set ps. waiting (sl_SessionID (snd kl)) p"
    using assms(1) 1(1) by (simp_all add: held_def)
  then have "waiting (sl_SessionID (snd kl)) (ps ! i)" using 1(3) by simp
  with h 1(4) have "d' = d \<and> waiting (sl_SessionID (snd kl)) p'"
    by (auto simp: waiting_def lock_step_def create_excl_def)
  with h 1(2) set_update_subset_insert [of ps i p'] show ?thesis by (auto simp: held_def)
qed

interpretation lock_held: step_invariant "contend alive" "held alive kl" for alive kl
  by unfold_locales (rule held_step)

text \<open>
  C33: An attempt that starts while the lock file names a living process of another session is turned
  away: if every attempt under way started when the file was already written, then however their
  steps interleave none of them obtains the lock and the file stays as it is. (An attempt that had
  read an empty or a stale file before is not covered: it can still remove the file, as
  \<open>two_owners\<close> shows.)
\<close>

theorem live_lock_is_respected:
  assumes "(contend alive)\<^sup>*\<^sup>* (ps, d) (ps', d')" and "ld_file d = Some (k, Some l)" and "alive (sl_PID l)"
    and "\<forall>p \<in> set ps. lc_pc p = L_Create \<and> lc_session p \<noteq> sl_SessionID l"
  shows "ld_file d' = Some (k, Some l) \<and> (\<forall>p \<in> set ps'. lc_pc p \<noteq> L_Done True)"
proof -
  have "held alive (k, l) (ps, d)" using assms(2-4) by (simp add: held_def waiting_def)
  with lock_held.reach_inv [OF assms(1)] have "held alive (k, l) (ps', d')" by blast
  then show ?thesis by (auto simp: held_def waiting_def)
qed

definition demo_contender :: "string \<Rightarrow> int \<Rightarrow> contender" where
  "demo_contender s pid = \<lparr>lc_session = s, lc_pid = pid, lc_now = 0, lc_pc = L_Create\<rparr>"

lemma contendI: "i < length ps \<Longrightarrow> lock_step alive (ps ! i) d = (p', d') \<Longrightarrow> qs = ps[i := p'] \<Longrightarrow> contend alive (ps, d) (qs, d')"
  by (simp add: contend.intros)

theorem live_lock_is_respected_witness:
  "\<exists>d. (contend (\<lambda>_. True))\<^sup>*\<^sup>* ([demo_contender ''b'' 2], \<lparr>ld_file = Some (0, Some (lock_of (demo_contender ''a'' 1))), ld_next = 1\<rparr>)
         ([(demo_contender ''b'' 2)\<lparr>lc_pc := L_Read\<rparr>], d)
     \<and> ld_file d = Some (0, Some (lock_of (demo_contender ''a'' 1)))"
proof -
  let ?d = "\<lparr>ld_file = Some (0, Some (lock_of (demo_contender ''a'' 1))), ld_next = 1\<rparr>"
  have "contend (\<lambda>_. True) ([demo_contender ''b'' 2], ?d) ([(demo_contender ''b'' 2)\<lparr>lc_pc := L_Read\<rparr>], ?d)"
    by (rule contendI [of 0]) (simp_all add: lock_step_def create_excl_def demo_contender_def)
  then have r: "(contend (\<lambda>_. True))\<^sup>*\<^sup>* ([demo_contender ''b'' 2], ?d) ([(demo_contender ''b'' 2)\<lparr>lc_pc := L_Read\<rparr>], ?d)" by blast
  from live_lock_is_respected [OF r] r show ?thesis by (auto simp: demo_contender_def lock_of_def)
qed

text \<open>
  Two living sessions can both obtain the lock. The file is created before its content is
  written; a session that reads it in between takes it for a stale one, removes it and creates its
  own, while the first one completes its write to the removed file.
\<close>

theorem two_owners:
  "\<exists>ps d. (contend (\<lambda>_. True))\<^sup>*\<^sup>* ([demo_contender ''a'' 1, demo_contender ''b'' 2], \<lparr>ld_file = None, ld_next = 0\<rparr>) (ps, d)
     \<and> map lc_pc ps = [L_Done True, L_Done True]"
proof -
  define step where "step i s = (case s of (ps, d) \<Rightarrow> (case lock_step (\<lambda>_. True) (ps ! i) d of (p', d') \<Rightarrow> (ps[i := p'], d')))"
    for i and s :: "contender list \<times> lock_dir"
  have c: "contend (\<lambda>_. True) s (step i s)" if "i < length (fst s)" for i s
    using that by (cases s) (auto simp: step_def intro: contend.intros split: prod.splits)
  have run: "(contend (\<lambda>_. True))\<^sup>*\<^sup>* s (fold step js s)" if "\<forall>i \<in> set js. i < length (fst s)" for js s
    using that
  proof (induction js arbitrary: s)
    case (Cons i js)
    have "length (fst (step i s)) = length (fst s)" by (simp add: step_def split: prod.split)
    with Cons.IH [of "step i s"] Cons.prems have "(contend (\<lambda>_. True))\<^sup>*\<^sup>* (step i s) (fold step js (step i s))" by simp
    with c [of i s] Cons.prems show ?case by (simp add: converse_rtranclp_into_rtranclp)
  qed simp
  let ?s = "([demo_contender ''a'' 1, demo_contender ''b'' 2], \<lparr>ld_file = None, ld_next = 0\<rparr>)"
  let ?t = "fold step [0, 1, 1, 1, 1, 1, 0] ?s"
  have "(contend (\<lambda>_. True))\<^sup>*\<^sup>* ?s ?t" by (rule run) simp
  moreover have "map lc_pc (fst ?t) = [L_Done True, L_Done True]"
    by (simp add: step_def lock_step_def create_excl_def demo_contender_def lock_of_def)
  ultimately show ?thesis by (metis prod.collapse)
qed

lemma TryAcquire_cases:
  "ld_file d = None \<Longrightarrow> TryAcquireSchedulerLock alive p d
    = (True, \<lparr>ld_file = Some (ld_next d, Some (lock_of p)), ld_next = ld_next d + 1\<rparr>)"
  "ld_file d = Some (k, None) \<Longrightarrow> TryAcquireSchedulerLock alive p d
    = (True, \<lparr>ld_file = Some (ld_next d, Some (lock_of p)), ld_next = ld_next d + 1\<rparr>)"
  "ld_file d = Some (k, Some l) \<Longrightarrow> sl_SessionID l = lc_session p \<Longrightarrow> TryAcquireSchedulerLock alive p d
    = (True, if sl_PID l = lc_pid p then d else d\<lparr>ld_file := Some (k, Some (lock_of p))\<rparr>)"
  "ld_file d = Some (k, Some l) \<Longrightarrow> sl_SessionID l \<noteq> lc_session p \<Longrightarrow> TryAcquireSchedulerLock alive p d
    = (if alive (sl_PID l) then (False, d) else (True, \<lparr>ld_file = Some (ld_next d, Some (lock_of p)), ld_next = ld_next d + 1\<rparr>))"
  by (cases d; simp add: TryAcquireSchedulerLock_def lock_step_def create_excl_def numeral_eq_Suc lock_of_def)+

lemma TryAcquire_owner:
  assumes "TryAcquireSchedulerLock alive p d = (True, d')"
  shows "\<exists>k l. ld_file d' = Some (k, Some l) \<and> sl_SessionID l = lc_session p \<and> sl_PID l = lc_pid p"
proof -
  consider "ld_file d = None" | k where "ld_file d = Some (k, None)" | k l where "ld_file d = Some (k, Some l)"
    by (metis option.exhaust prod.exhaust)
  then show ?thesis
  proof cases
    case (3 k l)
    with assms TryAcquire_cases(3,4) [OF 3, of p alive] show ?thesis
      by (cases "sl_SessionID l = lc_session p") (auto simp: lock_of_def split: if_splits)
  qed (use assms TryAcquire_cases(1,2) in \<open>auto simp: lock_of_def\<close>)
qed

text \<open>
  Calls that do not overlap are exclusive: once a living session has the lock, every other
  session is turned away and leaves the file alone, until the owner releases it.
\<close>

theorem acquire_excludes:
  assumes "TryAcquireSchedulerLock alive p d = (True, d')" and "alive (lc_pid p)" and "lc_session q \<noteq> lc_session p"
  shows "TryAcquireSchedulerLock alive q d' = (False, d')
    \<and> fst (TryAcquireSchedulerLock alive q (ReleaseSchedulerLock (lc_session p) d'))"
proof -
  from TryAcquire_owner [OF assms(1)] obtain k l where
    "ld_file d' = Some (k, Some l)" "sl_SessionID l = lc_session p" "sl_PID l = lc_pid p" by blast
  with assms(2,3) show ?thesis by (simp add: TryAcquire_cases ReleaseSchedulerLock_def)
qed

theorem acquire_excludes_witness:
  "\<not> fst (TryAcquireSchedulerLock (\<lambda>_. True) (demo_contender ''b'' 2)
     (snd (TryAcquireSchedulerLock (\<lambda>_. True) (demo_contender ''a'' 1) \<lparr>ld_file = None, ld_next = 0\<rparr>)))"
proof -
  have "TryAcquireSchedulerLock (\<lambda>_. True) (demo_contender ''a'' 1) \<lparr>ld_file = None, ld_next = 0\<rparr>
      = (True, snd (TryAcquireSchedulerLock (\<lambda>_. True) (demo_contender ''a'' 1) \<lparr>ld_file = None, ld_next = 0\<rparr>))"
    by (simp add: TryAcquireSchedulerLock_def lock_step_def create_excl_def numeral_eq_Suc demo_contender_def)
  from acquire_excludes [OF this, of "demo_contender ''b'' 2"] show ?thesis by (simp add: demo_contender_def)
qed

text \<open>The time reported as the next one is the least that is set, whatever order the map is iterated in.\<close>

lemma next_fire_fold:
  assumes "m = -1 \<or> 0 < m" and "r = fold (\<lambda>t m. if t \<le> 0 then m else if m = -1 \<or> t < m then t else m) ts (m::int)"
  shows "(r = m \<or> r \<in> set ts \<and> 0 < r) \<and> (m \<noteq> -1 \<longrightarrow> r \<noteq> -1 \<and> r \<le> m) \<and> (\<forall>t \<in> set ts. t \<le> 0 \<or> r \<noteq> -1 \<and> r \<le> t)"
  using assms
proof (induction ts arbitrary: m)
  case (Cons t ts)
  define m' where "m' = (if t \<le> 0 then m else if m = -1 \<or> t < m then t else m)"
  have "m' = -1 \<or> 0 < m'" using Cons.prems(1) unfolding m'_def by (auto split: if_splits)
  from Cons.IH [OF this] Cons.prems(2)
  have ih: "(r = m' \<or> r \<in> set ts \<and> 0 < r) \<and> (m' \<noteq> -1 \<longrightarrow> r \<noteq> -1 \<and> r \<le> m') \<and> (\<forall>t \<in> set ts. t \<le> 0 \<or> r \<noteq> -1 \<and> r \<le> t)"
    by (simp add: m'_def)
  have "t \<le> 0 \<and> m' = m \<or> 0 < t \<and> (m = -1 \<or> t < m) \<and> m' = t \<or> 0 < t \<and> 0 < m \<and> m \<le> t \<and> m' = m"
    using Cons.prems(1) by (auto simp: m'_def)
  with ih show ?case by fastforce
qed simp

theorem GetNextFireTime_min:
  "case GetNextFireTime ts of
     None \<Rightarrow> \<forall>t \<in> set ts. t \<le> 0
   | Some m \<Rightarrow> 0 < m \<and> m \<in> set ts \<and> (\<forall>t \<in> set ts. t \<le> 0 \<or> m \<le> t)"
  using next_fire_fold [of "-1", OF _ refl, of ts] by (auto simp: GetNextFireTime_def Let_def)

end
