(* ===== verification/Hooks.thy ===== *)
theory Hooks
  imports Conversation Paths
begin

text \<open>
  Hooks: their configuration and matching (\<open>core/hook/config.go\<close>, \<open>runtime/hooks/matcher.go\<close>),
  the structured output they print (\<open>core/hook/output.go\<close>) and how the results of several hooks
  add up to one decision.

  A hook command is run by the parameter \<open>run\<close>. The syntax of JSON is a parameter too: \<open>json_of\<close>
  turns text into a value, or fails; decoding a value into a Go struct is written out. A key of an
  object sets the field whose name it equals up to case, the last such key counts, \<open>null\<close> leaves a
  field unset, and a value of another type is an error.
\<close>

section \<open>Decoding structs\<close>

definition json_field :: "string \<Rightarrow> (string \<times> json) list \<Rightarrow> json option" where
  "json_field name kvs = map_of (rev (map (\<lambda>kv. (to_lower (fst kv), snd kv)) kvs)) (to_lower name)"

definition dec_string :: "json option \<Rightarrow> unit + string option" where
  "dec_string j = (case j of None \<Rightarrow> Inr None | Some JNull \<Rightarrow> Inr None | Some (JStr s) \<Rightarrow> Inr (Some s) | _ \<Rightarrow> Inl ())"

definition dec_bool :: "json option \<Rightarrow> unit + bool option" where
  "dec_bool j = (case j of None \<Rightarrow> Inr None | Some JNull \<Rightarrow> Inr None | Some (JBool b) \<Rightarrow> Inr (Some b) | _ \<Rightarrow> Inl ())"

text \<open>The entries of the object a struct is decoded from.\<close>

definition dec_struct :: "json \<Rightarrow> unit + (string \<times> json) list" where
  "dec_struct j = (case j of JNull \<Rightarrow> Inr [] | JObj kvs \<Rightarrow> Inr kvs | _ \<Rightarrow> Inl ())"

definition the_str :: "string option \<Rightarrow> string" where
  "the_str s = (case s of None \<Rightarrow> '''' | Some t \<Rightarrow> t)"

section \<open>Hook output\<close>

record hook_output =
  ho_Continue :: "bool option"
  ho_StopReason :: "string option"
  ho_Decision :: "string option"
  ho_SystemMessage :: "string option"
  ho_Reason :: "string option"
  ho_Specific :: "json option"

record pre_tool_output =
  po_Decision :: "string option"
  po_Reason :: "string option"
  po_UpdatedInput :: "json option"
  po_Context :: "string option"

definition dec_hook_output :: "json \<Rightarrow> unit + hook_output" where
  "dec_hook_output j =
    bind_res (dec_struct j) (\<lambda>kvs.
    bind_res (dec_bool (json_field ''continue'' kvs)) (\<lambda>c.
    bind_res (dec_bool (json_field ''suppressOutput'' kvs)) (\<lambda>_.
    bind_res (dec_string (json_field ''stopReason'' kvs)) (\<lambda>sr.
    bind_res (dec_string (json_field ''decision'' kvs)) (\<lambda>d.
    bind_res (dec_string (json_field ''systemMessage'' kvs)) (\<lambda>sm.
    bind_res (dec_string (json_field ''reason'' kvs)) (\<lambda>r.
      Inr \<lparr>ho_Continue = c, ho_StopReason = sr, ho_Decision = d, ho_SystemMessage = sm, ho_Reason = r,
           ho_Specific = json_field ''hookSpecificOutput'' kvs\<rparr>)))))))"

definition ParseHookOutput :: "(string \<Rightarrow> json option) \<Rightarrow> string \<Rightarrow> hook_output option" where
  "ParseHookOutput json_of stdout =
    (let s = trim_space stdout in
     if s = '''' \<or> hd s \<noteq> CHR 0x7B then None
     else case json_of s of
       None \<Rightarrow> None
     | Some j \<Rightarrow> (case dec_hook_output j of Inl _ \<Rightarrow> None | Inr o' \<Rightarrow> Some o'))"

definition dec_pre_tool :: "json \<Rightarrow> unit + string \<times> pre_tool_output" where
  "dec_pre_tool j =
    bind_res (dec_struct j) (\<lambda>kvs.
    bind_res (dec_string (json_field ''hookEventName'' kvs)) (\<lambda>n.
    bind_res (dec_string (json_field ''permissionDecision'' kvs)) (\<lambda>d.
    bind_res (dec_string (json_field ''permissionDecisionReason'' kvs)) (\<lambda>r.
    bind_res (dec_string (json_field ''additionalContext'' kvs)) (\<lambda>c.
      Inr (the_str n, \<lparr>po_Decision = d, po_Reason = r, po_UpdatedInput = json_field ''updatedInput'' kvs, po_Context = c\<rparr>))))))"

definition ParsePreToolUseOutput :: "hook_output \<Rightarrow> pre_tool_output option" where
  "ParsePreToolUseOutput out =
    (case ho_Specific out of
       None \<Rightarrow> None
     | Some j \<Rightarrow>
        (case dec_pre_tool j of
           Inl _ \<Rightarrow> None
         | Inr (name, p) \<Rightarrow> if name \<noteq> ''PreToolUse'' then None else Some p))"

definition ResolvePermissionBehavior :: "hook_output \<Rightarrow> string" where
  "ResolvePermissionBehavior out =
    (let top = (case ho_Decision out of
                  Some d \<Rightarrow> if d = ''approve'' then ''allow'' else if d = ''block'' then ''deny'' else ''''
                | None \<Rightarrow> '''')
     in case ParsePreToolUseOutput out of
          None \<Rightarrow> top
        | Some p \<Rightarrow>
           (case po_Decision p of
              Some d \<Rightarrow> if d \<in> {''allow'', ''deny'', ''ask''} then d else top
            | None \<Rightarrow> top))"

definition nonempty :: "string option \<Rightarrow> bool" where
  "nonempty s \<longleftrightarrow> the_str s \<noteq> ''''"

definition ResolveDenyReason :: "hook_output \<Rightarrow> string" where
  "ResolveDenyReason out =
    (let r = (case ParsePreToolUseOutput out of None \<Rightarrow> None | Some p \<Rightarrow> po_Reason p) in
     if nonempty r then the_str r
     else if nonempty (ho_Reason out) then the_str (ho_Reason out)
     else ''Blocked by hook'')"

definition ResolveUpdatedInput :: "hook_output \<Rightarrow> json option" where
  "ResolveUpdatedInput out = (case ParsePreToolUseOutput out of None \<Rightarrow> None | Some p \<Rightarrow> po_UpdatedInput p)"

text \<open>The fallback decodes any object with a textual \<open>additionalContext\<close>.\<close>

definition ResolveAdditionalContext :: "hook_output \<Rightarrow> string" where
  "ResolveAdditionalContext out =
    (case (case ParsePreToolUseOutput out of None \<Rightarrow> None | Some p \<Rightarrow> po_Context p) of
       Some c \<Rightarrow> c
     | None \<Rightarrow>
        (case ho_Specific out of
           None \<Rightarrow> ''''
         | Some j \<Rightarrow>
            (case bind_res (dec_struct j) (\<lambda>kvs. dec_string (json_field ''additionalContext'' kvs)) of
               Inl _ \<Rightarrow> '''' | Inr c \<Rightarrow> the_str c)))"

section \<open>Hook results\<close>

record hook_result =
  hr_ExitCode :: int
  hr_Stdout :: string
  hr_Stderr :: string
  hr_TimedOut :: bool
  hr_PreventContinuation :: bool
  hr_ParsedOutput :: "hook_output option"

definition IsSuccess :: "hook_result \<Rightarrow> bool" where
  "IsSuccess r \<longleftrightarrow> hr_ExitCode r = 0"

definition IsBlocking :: "hook_result \<Rightarrow> bool" where
  "IsBlocking r \<longleftrightarrow> hr_ExitCode r = 2"

definition HasBlockingResult :: "hook_result list \<Rightarrow> bool" where
  "HasBlockingResult rs \<longleftrightarrow> list_ex IsBlocking rs"

definition BlockingErrors :: "hook_result list \<Rightarrow> string list" where
  "BlockingErrors rs = map hr_Stderr (filter (\<lambda>r. IsBlocking r \<and> trim_space (hr_Stderr r) \<noteq> '''') rs)"

definition hasPreventContinuation :: "hook_result list \<Rightarrow> bool" where
  "hasPreventContinuation rs \<longleftrightarrow> list_ex hr_PreventContinuation rs"

record permission_result =
  hp_Behavior :: string
  hp_Reason :: string
  hp_DenyReason :: string
  hp_UpdatedInput :: "json option"
  hp_AdditionalContext :: string

text \<open>The running aggregate, the last input of a hook that takes no decision, and the contexts.\<close>

type_synonym agg = "permission_result \<times> json option \<times> string list"

definition agg_decision :: "string \<Rightarrow> string \<Rightarrow> permission_result \<Rightarrow> permission_result" where
  "agg_decision behavior reason a =
    (if behavior = ''deny'' then a\<lparr>hp_Behavior := ''deny'', hp_Reason := reason, hp_DenyReason := reason\<rparr>
     else if behavior = ''ask'' then
       (if hp_Behavior a \<noteq> ''deny'' then a\<lparr>hp_Behavior := ''ask'', hp_Reason := reason\<rparr> else a)
     else if behavior = ''allow'' then (if hp_Behavior a = '''' then a\<lparr>hp_Behavior := ''allow''\<rparr> else a)
     else a)"

definition agg_step :: "hook_result \<Rightarrow> agg \<Rightarrow> agg" where
  "agg_step r st =
    (case hr_ParsedOutput r of
       None \<Rightarrow> st
     | Some out \<Rightarrow>
        let (a, passthrough, contexts) = st;
            behavior = ResolvePermissionBehavior out;
            ui = ResolveUpdatedInput out;
            ac = ResolveAdditionalContext out;
            passthrough' = (if ui \<noteq> None \<and> behavior = '''' then ui else passthrough);
            contexts' = (if ac \<noteq> '''' then contexts @ [ac] else contexts);
            a1 = agg_decision behavior (ResolveDenyReason out) a;
            a2 = (if ui \<noteq> None \<and> (behavior = ''allow'' \<or> behavior = ''ask'') then a1\<lparr>hp_UpdatedInput := ui\<rparr> else a1)
        in (a2, passthrough', contexts'))"

definition ResolvePreToolUsePermission :: "hook_result list \<Rightarrow> permission_result" where
  "ResolvePreToolUsePermission results =
    (let (a, passthrough, contexts) = fold agg_step results
          (\<lparr>hp_Behavior = '''', hp_Reason = '''', hp_DenyReason = '''', hp_UpdatedInput = None, hp_AdditionalContext = ''''\<rparr>,
           None, []);
         a1 = (if hp_UpdatedInput a = None \<and> passthrough \<noteq> None then a\<lparr>hp_UpdatedInput := passthrough\<rparr> else a)
     in a1\<lparr>hp_AdditionalContext := join_str [CHR 0x0A] contexts\<rparr>)"

section \<open>Configuration and matching\<close>

record command_hook =
  ch_Type :: string
  ch_Command :: string
  ch_If :: string
  ch_Shell :: string
  ch_Timeout :: int

record hook_matcher =
  hm_Matcher :: string
  hm_Hooks :: "json list"

type_synonym hooks_config = "(string \<times> hook_matcher list) list"

definition dec_int :: "json option \<Rightarrow> unit + int" where
  "dec_int j = (case j of None \<Rightarrow> Inr 0 | Some JNull \<Rightarrow> Inr 0
     | Some (JNum s) \<Rightarrow> (case atoi s of None \<Rightarrow> Inl () | Some i \<Rightarrow> Inr i) | _ \<Rightarrow> Inl ())"

text \<open>The flags \<open>once\<close>, \<open>async\<close> and \<open>asyncRewake\<close> and the status message are decoded but not used by the runner.\<close>

definition decodeCommandHook :: "json \<Rightarrow> command_hook option" where
  "decodeCommandHook raw =
    (case bind_res (dec_struct raw) (\<lambda>kvs.
       bind_res (dec_string (json_field ''type'' kvs)) (\<lambda>t.
         if the_str t \<noteq> ''command'' then Inl ()
         else
           bind_res (dec_string (json_field ''command'' kvs)) (\<lambda>c.
           bind_res (dec_string (json_field ''if'' kvs)) (\<lambda>i.
           bind_res (dec_string (json_field ''shell'' kvs)) (\<lambda>s.
           bind_res (dec_int (json_field ''timeout'' kvs)) (\<lambda>n.
           bind_res (dec_string (json_field ''statusMessage'' kvs)) (\<lambda>_.
           bind_res (dec_bool (json_field ''once'' kvs)) (\<lambda>_.
           bind_res (dec_bool (json_field ''async'' kvs)) (\<lambda>_.
           bind_res (dec_bool (json_field ''asyncRewake'' kvs)) (\<lambda>_.
             Inr \<lparr>ch_Type = ''command'', ch_Command = the_str c, ch_If = the_str i, ch_Shell = the_str s,
                  ch_Timeout = n\<rparr>)))))))))) of
       Inl _ \<Rightarrow> None | Inr h \<Rightarrow> Some h)"

definition event_matchers :: "hooks_config \<Rightarrow> string \<Rightarrow> hook_matcher list" where
  "event_matchers cfg ev = (case map_of cfg ev of None \<Rightarrow> [] | Some ms \<Rightarrow> ms)"

definition CommandHooks :: "hooks_config \<Rightarrow> string \<Rightarrow> command_hook list" where
  "CommandHooks cfg ev = concat (map (\<lambda>m. List.map_filter decodeCommandHook (hm_Hooks m)) (event_matchers cfg ev))"

definition HasEvent :: "hooks_config \<Rightarrow> string \<Rightarrow> bool" where
  "HasEvent cfg ev \<longleftrightarrow> list_ex (\<lambda>m. hm_Hooks m \<noteq> []) (event_matchers cfg ev)"

definition MergeHooksConfig :: "hooks_config \<Rightarrow> hooks_config \<Rightarrow> hooks_config" where
  "MergeHooksConfig base override = filter (\<lambda>kv. fst kv \<notin> fst ` set override) base @ override"

definition matchesMatcherPattern :: "string \<Rightarrow> string \<Rightarrow> string \<Rightarrow> bool" where
  "matchesMatcherPattern pattern toolName matcher =
    (if pattern = '''' then True
     else if matcher \<noteq> '''' then pattern = matcher
     else if toolName = '''' then True
     else pattern = toolName)"

text \<open>Every \<open>if\<close> condition holds (\<open>matchesIfCondition\<close>).\<close>

definition matchesIfCondition :: "string \<Rightarrow> string \<Rightarrow> bool" where
  "matchesIfCondition condition toolName \<longleftrightarrow> True"

definition MatchHooks :: "hooks_config \<Rightarrow> string \<Rightarrow> string \<Rightarrow> string \<Rightarrow> command_hook list" where
  "MatchHooks cfg ev toolName matcher =
    concat (map (\<lambda>m. if matchesMatcherPattern (hm_Matcher m) toolName matcher
        then filter (\<lambda>h. matchesIfCondition (ch_If h) toolName) (List.map_filter decodeCommandHook (hm_Hooks m))
        else [])
      (event_matchers cfg ev))"

section \<open>Running hooks\<close>

text \<open>\<open>run\<close> runs one command and returns its result, or an error when it cannot be started.\<close>

fun run_all :: "(command_hook \<Rightarrow> 'w \<Rightarrow> (string + hook_result) \<times> 'w) \<Rightarrow> command_hook list \<Rightarrow> 'w \<Rightarrow> hook_result list \<times> 'w" where
  "run_all run [] w = ([], w)"
| "run_all run (h # hs) w =
    (let (r, w1) = run h w; (rs, w2) = run_all run hs w1 in
     ((case r of
         Inl err \<Rightarrow> \<lparr>hr_ExitCode = -1, hr_Stdout = '''', hr_Stderr = err, hr_TimedOut = False,
                     hr_PreventContinuation = False, hr_ParsedOutput = None\<rparr>
       | Inr res \<Rightarrow> res) # rs, w2))"

definition RunHooksForTool ::
    "(command_hook \<Rightarrow> 'w \<Rightarrow> (string + hook_result) \<times> 'w) \<Rightarrow> hooks_config \<Rightarrow> string \<Rightarrow> string \<Rightarrow> 'w \<Rightarrow> hook_result list \<times> 'w" where
  "RunHooksForTool run cfg ev toolName w = run_all run (MatchHooks cfg ev toolName '''') w"

definition RunStopHooks ::
    "(command_hook \<Rightarrow> 'w \<Rightarrow> (string + hook_result) \<times> 'w) \<Rightarrow> hooks_config \<Rightarrow> string \<Rightarrow> 'w \<Rightarrow> hook_result list \<times> 'w" where
  "RunStopHooks run cfg ev w = run_all run (CommandHooks cfg ev) w"

text \<open>
  The outcome of the process behind a command, as \<open>RunCommand\<close> reads it: it ended (with its exit
  code), it ran out of time, it was cancelled, or it could not be run.
\<close>

datatype process_end = Exited int | TimedOutEnd | CanceledEnd | NotRun string

definition command_result :: "(string \<Rightarrow> json option) \<Rightarrow> string \<Rightarrow> process_end \<Rightarrow> string \<Rightarrow> string \<Rightarrow> string + hook_result" where
  "command_result json_of command e stdout stderr =
    (let base = \<lparr>hr_ExitCode = 0, hr_Stdout = stdout, hr_Stderr = stderr, hr_TimedOut = False,
                 hr_PreventContinuation = False, hr_ParsedOutput = None\<rparr>
     in case e of
       Exited c \<Rightarrow>
         if c = 0 then
           let parsed = ParseHookOutput json_of stdout in
           Inr (base\<lparr>hr_ParsedOutput := parsed,
             hr_PreventContinuation := (case parsed of Some out \<Rightarrow> ho_Continue out = Some False | None \<Rightarrow> False)\<rparr>)
         else Inr (base\<lparr>hr_ExitCode := c\<rparr>)
     | TimedOutEnd \<Rightarrow> Inr (base\<lparr>hr_TimedOut := True, hr_ExitCode := -1\<rparr>)
     | CanceledEnd \<Rightarrow> Inr (base\<lparr>hr_ExitCode := -1\<rparr>)
     | NotRun msg \<Rightarrow> Inl (''run hook command '' @ go_quote command @ '': '' @ msg))"

section \<open>The strictest decision wins\<close>

definition behavior_of :: "hook_result \<Rightarrow> string" where
  "behavior_of r = (case hr_ParsedOutput r of None \<Rightarrow> '''' | Some out \<Rightarrow> ResolvePermissionBehavior out)"

lemma ResolvePermissionBehavior_range: "ResolvePermissionBehavior out \<in> {'''', ''allow'', ''deny'', ''ask''}"
  by (auto simp: ResolvePermissionBehavior_def Let_def split: option.splits)

definition strictest :: "string list \<Rightarrow> string" where
  "strictest bs = (if ''deny'' \<in> set bs then ''deny'' else if ''ask'' \<in> set bs then ''ask''
     else if ''allow'' \<in> set bs then ''allow'' else '''')"

lemma agg_step_behavior:
  assumes "hp_Behavior (fst st) = strictest bs"
  shows "hp_Behavior (fst (agg_step r st)) = strictest (bs @ [behavior_of r])"
proof (cases "hr_ParsedOutput r")
  case None
  with assms show ?thesis by (simp add: agg_step_def behavior_of_def strictest_def)
next
  case (Some out)
  obtain a p c where st: "st = (a, p, c)" by (cases st)
  have "hp_Behavior (fst (agg_step r st)) = hp_Behavior (agg_decision (ResolvePermissionBehavior out) (ResolveDenyReason out) a)"
    using Some by (simp add: agg_step_def st Let_def)
  moreover have "hp_Behavior a = strictest bs" using assms st by simp
  ultimately show ?thesis
    using Some ResolvePermissionBehavior_range [of out]
    by (auto simp: agg_decision_def strictest_def behavior_of_def)
qed

lemma agg_fold_behavior:
  "hp_Behavior (fst st) = strictest bs \<Longrightarrow> hp_Behavior (fst (fold agg_step rs st)) = strictest (bs @ map behavior_of rs)"
proof (induction rs arbitrary: st bs)
  case (Cons r rs)
  from Cons.IH [OF agg_step_behavior [OF Cons.prems]] show ?case by simp
qed simp

text \<open>
  C25: The hooks of a tool call together decide as the strictest of them: one that denies is enough
  to deny, otherwise one that asks is enough to ask, and a call is allowed by its hooks only when
  none denies or asks. The order of the hooks does not matter.
\<close>

theorem strictest_hook_wins:
  "hp_Behavior (ResolvePreToolUsePermission rs) = strictest (map behavior_of rs)"
proof -
  let ?z = "(\<lparr>hp_Behavior = '''', hp_Reason = '''', hp_DenyReason = '''', hp_UpdatedInput = None, hp_AdditionalContext = ''''\<rparr>,
           None, [])"
  obtain a p c where f: "fold agg_step rs ?z = (a, p, c)" by (cases "fold agg_step rs ?z")
  have "hp_Behavior (fst (fold agg_step rs ?z)) = strictest ([] @ map behavior_of rs)"
    by (rule agg_fold_behavior) (simp add: strictest_def)
  then show ?thesis using f by (simp add: ResolvePreToolUsePermission_def Let_def)
qed

lemma blocking_silent:
  "list_all (\<lambda>r. trim_space (hr_Stderr r) = '''') rs \<Longrightarrow> BlockingErrors rs = []"
  by (induction rs) (auto simp: BlockingErrors_def)

end
