(* ===== verification/Tool_Execution.thy ===== *)
theory Tool_Execution
  imports Tool_Cycle Hooks Permission
begin

text \<open>
  One tool call from hooks to result (\<open>executeToolUse\<close> and the approval functions of
  \<open>runtime/engine/engine.go\<close>, and \<open>runtime/approval/service.go\<close>).

  The tool executor, the hook commands and the prompt shown to the user are parameters. Of an error
  the executor returns, \<open>errors.As\<close> can extract a permission error; those answers are fields of
  \<open>invoke_error\<close>. Analytics, progress events and the JSON the hooks get on their standard input are
  not modelled.
\<close>

section \<open>Approval\<close>

record approval_request =
  ar_CallID :: string
  ar_ToolName :: string
  ar_Path :: string
  ar_Action :: string
  ar_Message :: string

record approval_response =
  as_Approved :: bool
  as_Reason :: string

definition SupportedModes :: "string list" where
  "SupportedModes = [''acceptEdits'', ''bypassPermissions'', ''default'', ''dontAsk'', ''plan'']"

definition IsSupportedMode :: "string \<Rightarrow> bool" where
  "IsSupportedMode mode \<longleftrightarrow> mode \<in> set SupportedModes"

type_synonym 'w decider = "approval_request \<Rightarrow> 'w \<Rightarrow> (go_error + approval_response) \<times> 'w"

text \<open>\<open>prompt\<close> takes the title and the body of the dialogue.\<close>

definition Decide :: "string \<Rightarrow> (string \<Rightarrow> string \<Rightarrow> 'w \<Rightarrow> (go_error + approval_response) \<times> 'w) option \<Rightarrow> 'w decider" where
  "Decide mode0 prompter req w =
    (let mode = (if IsSupportedMode mode0 then mode0 else ''default'') in
     if mode = ''bypassPermissions'' \<or> mode = ''acceptEdits'' then (Inr \<lparr>as_Approved = True, as_Reason = ''''\<rparr>, w)
     else if mode = ''dontAsk'' then
       (Inr \<lparr>as_Approved = False,
          as_Reason = ''Permission to '' @ ar_Action req @ '' '' @ ar_Path req @ '' was not granted.''\<rparr>, w)
     else case prompter of
       None \<Rightarrow> (Inr \<lparr>as_Approved = False, as_Reason = ''Approval service is not interactive in the current mode.''\<rparr>, w)
     | Some prompt \<Rightarrow> prompt (ar_ToolName req @ '' wants to '' @ ar_Action req) (ar_Message req) w)"

section \<open>Calls\<close>

record tool_call =
  tc_ID :: string
  tc_Name :: string
  tc_Input :: tool_input
  tc_WorkingDir :: string

record bash_permission_error =
  bp_Command :: string
  bp_Decision :: string
  bp_Message :: string

record web_permission_error =
  wp_URL :: string
  wp_Decision :: string
  wp_Message :: string

record invoke_error =
  ie_error :: go_error
  ie_fs :: "permission_error option"
  ie_bash :: "bash_permission_error option"
  ie_web :: "web_permission_error option"

type_synonym 'w tool_exec = "perm_ctx option \<Rightarrow> tool_call \<Rightarrow> 'w \<Rightarrow> (tool_result \<times> invoke_error option) \<times> 'w"

record 'w tool_env =
  te_hooks :: hooks_config
  te_run_hook :: "(command_hook \<Rightarrow> 'w \<Rightarrow> (string + hook_result) \<times> 'w) option"
  te_disabled :: bool
  te_decide :: "'w decider option"
  te_execute :: "'w tool_exec"

text \<open>\<open>shouldRunStopHooks\<close>, the same for tool hooks.\<close>

definition shouldRunHooks :: "'w tool_env \<Rightarrow> string \<Rightarrow> bool" where
  "shouldRunHooks E ev \<longleftrightarrow> \<not> te_disabled E \<and> te_run_hook E \<noteq> None \<and> HasEvent (te_hooks E) ev"

text \<open>The hooks of an event for a tool, none when they should not run.\<close>

definition tool_hooks :: "'w tool_env \<Rightarrow> string \<Rightarrow> string \<Rightarrow> 'w \<Rightarrow> hook_result list \<times> 'w" where
  "tool_hooks E ev toolName w =
    (case te_run_hook E of
       None \<Rightarrow> ([], w)
     | Some run \<Rightarrow> if shouldRunHooks E ev then RunHooksForTool run (te_hooks E) ev toolName w else ([], w))"

text \<open>The hooks of another event: whether one blocks, and what the blocking ones wrote
  (\<open>RunFileChangedHooks\<close>, \<open>RunPermissionRequestHooks\<close>, \<open>RunPermissionDeniedHooks\<close>).\<close>

definition event_hooks :: "'w tool_env \<Rightarrow> string \<Rightarrow> 'w \<Rightarrow> (bool \<times> string list) \<times> 'w" where
  "event_hooks E ev w =
    (case te_run_hook E of
       None \<Rightarrow> ((False, []), w)
     | Some run \<Rightarrow>
        if shouldRunHooks E ev then
          let (rs, w1) = RunStopHooks run (te_hooks E) ev w in
          ((HasBlockingResult rs, if HasBlockingResult rs then BlockingErrors rs else []), w1)
        else ((False, []), w))"

definition ok_result :: "tool_result" where
  "ok_result = \<lparr>r_Output = '''', r_Error = '''', r_Meta = []\<rparr>"

text \<open>\<open>json.Unmarshal\<close> of an updated input into the map of the call: entries are added or replaced.\<close>

definition apply_updated :: "json option \<Rightarrow> tool_call \<Rightarrow> tool_call" where
  "apply_updated ui call =
    (case ui of
       None \<Rightarrow> call
     | Some JNull \<Rightarrow> call\<lparr>tc_Input := None\<rparr>
     | Some (JObj kvs) \<Rightarrow>
         call\<lparr>tc_Input := Some (fold (\<lambda>kv m. filter (\<lambda>e. fst e \<noteq> fst kv) m @ [kv]) kvs
           (case tc_Input call of None \<Rightarrow> [] | Some m \<Rightarrow> m))\<rparr>
     | _ \<Rightarrow> call)"

section \<open>Approval of a call\<close>

definition newline :: string where
  "newline = [CHR 0x0A]"

text \<open>The answer: whether to go on, and the result when not.\<close>

definition requestHookApproval :: "'w tool_env \<Rightarrow> tool_call \<Rightarrow> string \<Rightarrow> 'w \<Rightarrow> (go_error + bool \<times> tool_result) \<times> 'w" where
  "requestHookApproval E call reason w =
    (let m0 = ''A PreToolUse hook requested approval before executing '' @ tc_Name call @ ''.'';
         msg = (if trim_space reason \<noteq> '''' then m0 @ '' '' @ trim_space reason else m0)
     in case te_decide E of
          None \<Rightarrow> (Inr (False, error_result ''Approval service is not interactive in the current mode.''), w)
        | Some decide \<Rightarrow>
           (case decide \<lparr>ar_CallID = tc_ID call, ar_ToolName = tc_Name call, ar_Path = tc_Name call,
                 ar_Action = ''execute'', ar_Message = msg\<rparr> w of
              (Inl e, w1) \<Rightarrow> (Inl e, w1)
            | (Inr d, w1) \<Rightarrow>
                if as_Approved d then (Inr (True, ok_result), w1)
                else (Inr (False, error_result
                  (if trim_space (as_Reason d) = '''' then ''Permission to execute '' @ tc_Name call @ '' was not granted.''
                   else trim_space (as_Reason d))), w1)))"

text \<open>
  The three approval functions differ in the request they show, the text of a refusal and the grant
  they put in the context of the second execution.
\<close>

record approval_case =
  ac_Path :: string
  ac_Action :: string
  ac_Message :: string
  ac_Refusal :: string
  ac_Grant :: perm_ctx

definition execute_approval ::
    "'w tool_env \<Rightarrow> 'w decider \<Rightarrow> tool_call \<Rightarrow> approval_case \<Rightarrow> 'w \<Rightarrow> (tool_result \<times> go_error option) \<times> 'w" where
  "execute_approval E decide call c w =
    (let ((blocked, errs), w1) = event_hooks E ''PermissionRequest'' w in
     if blocked then ((error_result (join_str newline errs), None), w1)
     else case decide \<lparr>ar_CallID = tc_ID call, ar_ToolName = tc_Name call, ar_Path = ac_Path c,
                 ar_Action = ac_Action c, ar_Message = ac_Message c\<rparr> w1 of
       (Inl e, w2) \<Rightarrow> ((ok_result, Some e), w2)
     | (Inr d, w2) \<Rightarrow>
         if as_Approved d then
           (case te_execute E (Some (ac_Grant c)) call w2 of ((r, e), w3) \<Rightarrow> ((r, map_option ie_error e), w3))
         else
           let reason = (if trim_space (as_Reason d) = '''' then ac_Refusal c else as_Reason d);
               (_, w3) = event_hooks E ''PermissionDenied'' w2
           in ((error_result reason, None), w3))"

definition fs_case :: "perm_ctx option \<Rightarrow> tool_call \<Rightarrow> permission_error \<Rightarrow> approval_case" where
  "fs_case ctx call pe = \<lparr>ac_Path = pe_Path pe, ac_Action = pe_Access pe, ac_Message = pe_Message pe,
     ac_Refusal = ''Permission to '' @ pe_Access pe @ '' '' @ pe_Path pe @ '' was not granted.'',
     ac_Grant = WithFilesystemGrant ctx \<lparr>fr_ToolName = tc_Name call, fr_Path = pe_Path pe,
       fr_WorkingDir = tc_WorkingDir call, fr_Access = pe_Access pe\<rparr>\<rparr>"

definition bash_case :: "perm_ctx option \<Rightarrow> tool_call \<Rightarrow> bash_permission_error \<Rightarrow> approval_case" where
  "bash_case ctx call pe = \<lparr>ac_Path = bp_Command pe, ac_Action = ''execute'', ac_Message = bp_Message pe,
     ac_Refusal = ''Permission to execute '' @ go_quote (bp_Command pe) @ '' was not granted.'',
     ac_Grant = WithBashGrant ctx \<lparr>br_ToolName = tc_Name call, br_Command = bp_Command pe, br_WorkingDir = tc_WorkingDir call\<rparr>\<rparr>"

definition web_case :: "perm_ctx option \<Rightarrow> tool_call \<Rightarrow> web_permission_error \<Rightarrow> approval_case" where
  "web_case ctx call pe = \<lparr>ac_Path = wp_URL pe, ac_Action = ''fetch'', ac_Message = wp_Message pe,
     ac_Refusal = ''Permission to fetch '' @ go_quote (wp_URL pe) @ '' was not granted.'',
     ac_Grant = WithWebFetchGrant ctx (tc_Name call) (wp_URL pe) (tc_WorkingDir call)\<rparr>"

section \<open>One call\<close>

definition asks :: "string \<Rightarrow> bool" where
  "asks decision \<longleftrightarrow> decision = DecisionAsk"

definition first_some :: "'a option \<Rightarrow> 'a option \<Rightarrow> 'a option" where
  "first_some x y = (case x of Some a \<Rightarrow> Some a | None \<Rightarrow> y)"

text \<open>Which of the three approvals an error calls for, in the order of the code.\<close>

definition pending_approval :: "'w tool_env \<Rightarrow> perm_ctx option \<Rightarrow> tool_call \<Rightarrow> invoke_error option \<Rightarrow> ('w decider \<times> approval_case) option" where
  "pending_approval E ctx call err =
    (case te_decide E of
       None \<Rightarrow> None
     | Some decide \<Rightarrow>
        (case err of
           None \<Rightarrow> None
         | Some e \<Rightarrow>
             map_option (Pair decide)
               (first_some
                 (case ie_fs e of None \<Rightarrow> None | Some pe \<Rightarrow> if asks (pe_Decision pe) then Some (fs_case ctx call pe) else None)
                 (first_some
                   (case ie_bash e of None \<Rightarrow> None | Some pe \<Rightarrow> if asks (bp_Decision pe) then Some (bash_case ctx call pe) else None)
                   (case ie_web e of None \<Rightarrow> None | Some pe \<Rightarrow> if asks (wp_Decision pe) then Some (web_case ctx call pe) else None)))))"

text \<open>The path the \<open>FileChanged\<close> hooks are run for; empty when there is none.\<close>

definition changed_path :: "tool_call \<Rightarrow> string" where
  "changed_path call =
    (let key = (if tc_Name call = ''Write'' \<or> tc_Name call = ''Edit'' then ''file_path''
                else if tc_Name call = ''NotebookEdit'' then ''notebook_path'' else '''')
     in case map_of (case tc_Input call of None \<Rightarrow> [] | Some m \<Rightarrow> m) key of
          Some (JStr s) \<Rightarrow> if key = '''' then '''' else s
        | _ \<Rightarrow> '''')"

definition finish_call ::
    "'w tool_env \<Rightarrow> tool_call \<Rightarrow> string \<Rightarrow> tool_result \<Rightarrow> invoke_error option \<Rightarrow> 'w \<Rightarrow> (tool_result \<times> go_error option) \<times> 'w" where
  "finish_call E call ctxt r err w =
    (if err = None \<and> trim_space (r_Error r) = '''' then
       let (post, w1) = tool_hooks E ''PostToolUse'' (tc_Name call) w in
       if HasBlockingResult post then
         ((attachAdditionalContext (error_result (join_str newline (BlockingErrors post))) ctxt, None), w1)
       else if isFileWriteTool (tc_Name call) \<and> changed_path call \<noteq> '''' then
         let ((blocked, errs), w2) = event_hooks E ''FileChanged'' w1 in
         if blocked then ((attachAdditionalContext (error_result (join_str newline errs)) ctxt, None), w2)
         else ((attachAdditionalContext r ctxt, None), w2)
       else ((attachAdditionalContext r ctxt, None), w1)
     else
       let (post, w1) = tool_hooks E ''PostToolUseFailure'' (tc_Name call) w in
       if HasBlockingResult post then
         ((attachAdditionalContext (error_result (join_str newline (BlockingErrors post))) ctxt, None), w1)
       else ((attachAdditionalContext r ctxt, map_option ie_error err), w1))"

text \<open>The execution after the hooks have let the call through.\<close>

definition run_call :: "'w tool_env \<Rightarrow> perm_ctx option \<Rightarrow> tool_call \<Rightarrow> string \<Rightarrow> 'w \<Rightarrow> (tool_result \<times> go_error option) \<times> 'w" where
  "run_call E ctx call ctxt w =
    (let ((r, err), w1) = te_execute E ctx call w in
     case pending_approval E ctx call err of
       Some (decide, c) \<Rightarrow> execute_approval E decide call c w1
     | None \<Rightarrow> finish_call E call ctxt r err w1)"

definition executeToolUse :: "'w tool_env \<Rightarrow> perm_ctx option \<Rightarrow> tool_call \<Rightarrow> 'w \<Rightarrow> (tool_result \<times> go_error option) \<times> 'w" where
  "executeToolUse E ctx call w =
    (let (pre, w1) = tool_hooks E ''PreToolUse'' (tc_Name call) w in
     if HasBlockingResult pre then ((error_result (join_str newline (BlockingErrors pre)), None), w1)
     else
       let perm = ResolvePreToolUsePermission pre; ctxt = hp_AdditionalContext perm in
       if hp_Behavior perm = ''deny'' then ((attachAdditionalContext (error_result (hp_DenyReason perm)) ctxt, None), w1)
       else
         let call1 = apply_updated (hp_UpdatedInput perm) call;
             (answer, w2) = (if hp_Behavior perm = ''ask'' then requestHookApproval E call1 (hp_Reason perm) w1
                             else (Inr (True, ok_result), w1))
         in case answer of
              Inl e \<Rightarrow> ((ok_result, Some e), w2)
            | Inr (proceed, r) \<Rightarrow>
                if \<not> proceed then ((attachAdditionalContext r ctxt, None), w2)
                else run_call E ctx call1 ctxt w2)"

section \<open>What may run\<close>

text \<open>
  A call that a hook blocks or denies, or that the user refuses when a hook asks, never reaches
  the tool: the outcome does not depend on what the executor would do.
\<close>

theorem refused_call_never_runs:
  assumes "tool_hooks E ''PreToolUse'' (tc_Name call) w = (pre, w1)"
    and "HasBlockingResult pre \<or> strictest (map behavior_of pre) = ''deny'' \<or>
      strictest (map behavior_of pre) = ''ask'' \<and> te_decide E = None"
  shows "executeToolUse (E\<lparr>te_execute := X\<rparr>) ctx call w = executeToolUse (E\<lparr>te_execute := Y\<rparr>) ctx call w"
proof -
  have h: "tool_hooks (E\<lparr>te_execute := Z\<rparr>) ''PreToolUse'' (tc_Name call) w = (pre, w1)" for Z
    using assms(1) by (cases "te_run_hook E") (auto simp: tool_hooks_def shouldRunHooks_def split: if_splits)
  have b: "hp_Behavior (ResolvePreToolUsePermission pre) = strictest (map behavior_of pre)"
    by (rule strictest_hook_wins)
  from assms(2) show ?thesis
    unfolding executeToolUse_def h using b by (auto simp: Let_def requestHookApproval_def)
qed

definition demo_output :: "string \<Rightarrow> hook_output" where
  "demo_output d = \<lparr>ho_Continue = None, ho_StopReason = None, ho_Decision = Some d, ho_SystemMessage = None,
     ho_Reason = None, ho_Specific = None\<rparr>"

definition demo_hook_result :: "int \<Rightarrow> hook_output option \<Rightarrow> hook_result" where
  "demo_hook_result code out = \<lparr>hr_ExitCode = code, hr_Stdout = '''', hr_Stderr = '''', hr_TimedOut = False,
     hr_PreventContinuation = False, hr_ParsedOutput = out\<rparr>"

definition demo_hook :: json where
  "demo_hook = JObj [(''type'', JStr ''command''), (''command'', JStr ''check'')]"

definition demo_tool_env :: "hook_result \<Rightarrow> nat tool_env" where
  "demo_tool_env r = \<lparr>te_hooks = [(''PreToolUse'', [\<lparr>hm_Matcher = ''Bash'', hm_Hooks = [demo_hook]\<rparr>])],
     te_run_hook = Some (\<lambda>h w. (Inr r, w)), te_disabled = False, te_decide = None,
     te_execute = (\<lambda>ctx call w. ((ok_result, None), w + 1))\<rparr>"

definition demo_call :: tool_call where
  "demo_call = \<lparr>tc_ID = ''1'', tc_Name = ''Bash'', tc_Input = None, tc_WorkingDir = ''/w''\<rparr>"

lemma demo_pre: "tool_hooks (demo_tool_env r) ''PreToolUse'' (tc_Name demo_call) w = ([r], w)"
  by (simp add: tool_hooks_def shouldRunHooks_def demo_tool_env_def demo_call_def HasEvent_def event_matchers_def
      RunHooksForTool_def MatchHooks_def matchesMatcherPattern_def matchesIfCondition_def demo_hook_def
      List.map_filter_simps decodeCommandHook_def dec_struct_def json_field_def dec_string_def dec_bool_def dec_int_def
      the_str_def to_lower_def lower_char_def)

theorem refused_call_never_runs_witness:
  "snd (executeToolUse ((demo_tool_env (demo_hook_result 0 (Some (demo_output ''block''))))
      \<lparr>te_execute := \<lambda>ctx call w. ((ok_result, None), w + 1)\<rparr>) None demo_call 0)
   = snd (executeToolUse ((demo_tool_env (demo_hook_result 0 (Some (demo_output ''block''))))
      \<lparr>te_execute := \<lambda>ctx call w. ((ok_result, None), w + 7)\<rparr>) None demo_call 0)"
proof -
  have "strictest (map behavior_of [demo_hook_result 0 (Some (demo_output ''block''))]) = ''deny''"
    by (simp add: behavior_of_def demo_hook_result_def demo_output_def ResolvePermissionBehavior_def
        ParsePreToolUseOutput_def strictest_def)
  then show ?thesis by (intro arg_cong [of _ _ snd] refused_call_never_runs [OF demo_pre]) simp
qed

section \<open>Nothing runs with a grant the user did not give\<close>

text \<open>The environment instrumented with a log of the executions and of the user's answers.\<close>

datatype tool_event = Ran "perm_ctx option" tool_call | Asked approval_request bool

definition logged :: "'w tool_env \<Rightarrow> ('w \<times> tool_event list) tool_env" where
  "logged E = \<lparr>te_hooks = te_hooks E,
     te_run_hook = map_option (\<lambda>run h wl. (fst (run h (fst wl)), (snd (run h (fst wl)), snd wl))) (te_run_hook E),
     te_disabled = te_disabled E,
     te_decide = map_option (\<lambda>decide req wl. (fst (decide req (fst wl)),
       (snd (decide req (fst wl)),
        snd wl @ [Asked req (case fst (decide req (fst wl)) of Inl _ \<Rightarrow> False | Inr d \<Rightarrow> as_Approved d)]))) (te_decide E),
     te_execute = (\<lambda>ctx call wl. (fst (te_execute E ctx call (fst wl)), (snd (te_execute E ctx call (fst wl)), snd wl @ [Ran ctx call])))\<rparr>"

text \<open>The grants one answer can stand for.\<close>

definition grants_for :: "perm_ctx option \<Rightarrow> approval_request \<Rightarrow> string \<Rightarrow> perm_ctx option set" where
  "grants_for ctx req dir = {
     Some (WithFilesystemGrant ctx \<lparr>fr_ToolName = ar_ToolName req, fr_Path = ar_Path req, fr_WorkingDir = dir, fr_Access = ar_Action req\<rparr>),
     Some (WithBashGrant ctx \<lparr>br_ToolName = ar_ToolName req, br_Command = ar_Path req, br_WorkingDir = dir\<rparr>),
     Some (WithWebFetchGrant ctx (ar_ToolName req) (ar_Path req) dir)}"

text \<open>Every execution has the given context, or the grant of a request approved just before.\<close>

fun runs_ok :: "perm_ctx option \<Rightarrow> string \<Rightarrow> approval_request option \<Rightarrow> tool_event list \<Rightarrow> bool" where
  "runs_ok ctx dir ok [] \<longleftrightarrow> True"
| "runs_ok ctx dir ok (Asked req approved # l) \<longleftrightarrow> runs_ok ctx dir (if approved then Some req else None) l"
| "runs_ok ctx dir ok (Ran c call # l) \<longleftrightarrow>
    (c = ctx \<or> (case ok of None \<Rightarrow> False | Some req \<Rightarrow> c \<in> grants_for ctx req dir)) \<and> runs_ok ctx dir None l"

lemma logged_sel [simp]: "te_hooks (logged E) = te_hooks E" "te_disabled (logged E) = te_disabled E"
  "te_execute (logged E) ctx call wl
    = (fst (te_execute E ctx call (fst wl)), (snd (te_execute E ctx call (fst wl)), snd wl @ [Ran ctx call]))"
  by (simp_all add: logged_def)

lemma run_all_logged:
  "snd (snd (run_all (\<lambda>h wl. (fst (run h (fst wl)), (snd (run h (fst wl)), snd wl))) hs (w, l))) = l"
proof (induction hs arbitrary: w)
  case (Cons h hs)
  obtain r w1 where "run h w = (r, w1)" by (cases "run h w")
  with Cons [of w1] show ?case by (simp add: split_beta)
qed simp

lemma tool_hooks_logged: "snd (snd (tool_hooks (logged E) ev n (w, l))) = l"
  by (cases "te_run_hook E") (simp_all add: tool_hooks_def logged_def RunHooksForTool_def run_all_logged)

lemma event_hooks_logged: "snd (snd (event_hooks (logged E) ev (w, l))) = l"
  by (cases "te_run_hook E") (simp_all add: event_hooks_def logged_def RunStopHooks_def split_beta run_all_logged)

lemma finish_call_logged: "snd (snd (finish_call (logged E) call ctxt r err (w, l))) = l"
proof -
  have t: "snd (snd (tool_hooks (logged E) ev n wl)) = snd wl" for ev n wl
    using tool_hooks_logged [of E ev n "fst wl" "snd wl"] by simp
  have e: "snd (snd (event_hooks (logged E) ev wl)) = snd wl" for ev wl
    using event_hooks_logged [of E ev "fst wl" "snd wl"] by simp
  show ?thesis by (simp add: finish_call_def split_beta t e)
qed

lemma runs_ok_fs: "Some (ac_Grant (fs_case ctx call pe)) \<in> grants_for ctx
    \<lparr>ar_CallID = i, ar_ToolName = tc_Name call, ar_Path = ac_Path (fs_case ctx call pe), ar_Action = ac_Action (fs_case ctx call pe),
     ar_Message = m\<rparr> (tc_WorkingDir call)"
  and runs_ok_bash: "Some (ac_Grant (bash_case ctx call be)) \<in> grants_for ctx
    \<lparr>ar_CallID = i, ar_ToolName = tc_Name call, ar_Path = ac_Path (bash_case ctx call be), ar_Action = ac_Action (bash_case ctx call be),
     ar_Message = m\<rparr> (tc_WorkingDir call)"
  and runs_ok_web: "Some (ac_Grant (web_case ctx call we)) \<in> grants_for ctx
    \<lparr>ar_CallID = i, ar_ToolName = tc_Name call, ar_Path = ac_Path (web_case ctx call we), ar_Action = ac_Action (web_case ctx call we),
     ar_Message = m\<rparr> (tc_WorkingDir call)"
  by (simp_all add: grants_for_def fs_case_def bash_case_def web_case_def)

lemma pending_grant:
  assumes "pending_approval E ctx call err = Some (decide, c)"
  shows "Some (ac_Grant c) \<in> grants_for ctx
    \<lparr>ar_CallID = i, ar_ToolName = tc_Name call, ar_Path = ac_Path c, ar_Action = ac_Action c, ar_Message = m\<rparr> (tc_WorkingDir call)
    \<and> te_decide E = Some decide"
  using assms runs_ok_fs runs_ok_bash runs_ok_web
  by (auto simp: pending_approval_def first_some_def split: option.splits if_splits)
lemma execute_approval_logged:
  assumes "te_decide E = Some decide"
    and "\<And>m. Some (ac_Grant c) \<in> grants_for ctx
      \<lparr>ar_CallID = tc_ID call, ar_ToolName = tc_Name call, ar_Path = ac_Path c, ar_Action = ac_Action c, ar_Message = m\<rparr> dir"
  shows "\<exists>l'. snd (snd (execute_approval (logged E) (the (te_decide (logged E))) call c (w, l))) = l @ l' \<and> runs_ok ctx dir None l'
    \<and> length (filter (\<lambda>e. case e of Ran _ _ \<Rightarrow> True | Asked _ _ \<Rightarrow> False) l') \<le> 1"
proof -
  have e: "snd (snd (event_hooks (logged E) ev wl)) = snd wl" for ev wl
    using event_hooks_logged [of E ev "fst wl" "snd wl"] by simp
  obtain blocked errs w1 l1 where pr: "event_hooks (logged E) ''PermissionRequest'' (w, l) = ((blocked, errs), (w1, l1))"
    by (metis prod.exhaust)
  have l1: "l1 = l" using e [of "''PermissionRequest''" "(w, l)"] pr by simp
  let ?req = "\<lparr>ar_CallID = tc_ID call, ar_ToolName = tc_Name call, ar_Path = ac_Path c, ar_Action = ac_Action c, ar_Message = ac_Message c\<rparr>"
  obtain a w2 where d: "decide ?req w1 = (a, w2)" by (cases "decide ?req w1")
  have ld: "the (te_decide (logged E)) = (\<lambda>req wl. (fst (decide req (fst wl)),
       (snd (decide req (fst wl)),
        snd wl @ [Asked req (case fst (decide req (fst wl)) of Inl _ \<Rightarrow> False | Inr d \<Rightarrow> as_Approved d)])))"
    using assms(1) by (simp add: logged_def)
  show ?thesis
  proof (cases blocked)
    case True
    then show ?thesis using pr l1 by (simp add: execute_approval_def)
  next
    case False
    show ?thesis
    proof (cases a)
      case (Inl err)
      with False pr l1 d show ?thesis by (simp add: execute_approval_def ld)
    next
      case (Inr r)
      show ?thesis
      proof (cases "as_Approved r")
        case True
        with False pr l1 d Inr assms(2) [of "ac_Message c"] show ?thesis
          by (simp add: execute_approval_def ld split_beta)
      next
        case False2: False
        with False pr l1 d Inr show ?thesis by (simp add: execute_approval_def ld split_beta e)
      qed
    qed
  qed
qed

abbreviation is_ran :: "tool_event \<Rightarrow> bool" where
  "is_ran e \<equiv> (case e of Ran _ _ \<Rightarrow> True | Asked _ _ \<Rightarrow> False)"

lemma run_call_logged:
  assumes "tc_WorkingDir call = dir"
  shows "\<exists>l'. snd (snd (run_call (logged E) ctx call ctxt (w, l))) = l @ l' \<and> (\<forall>ok. runs_ok ctx dir ok l')
    \<and> length (filter is_ran l') \<le> 2"
proof -
  obtain r err w1 where x: "te_execute E ctx call w = ((r, err), w1)" by (metis prod.exhaust)
  show ?thesis
  proof (cases "pending_approval (logged E) ctx call err")
    case None
    then show ?thesis using x by (simp add: run_call_def finish_call_logged)
  next
    case (Some dc)
    obtain dec' c where dc: "dc = (dec', c)" by (cases dc)
    have p: "te_decide (logged E) = Some dec'"
        "\<And>i m. Some (ac_Grant c) \<in> grants_for ctx \<lparr>ar_CallID = i, ar_ToolName = tc_Name call, ar_Path = ac_Path c,
           ar_Action = ac_Action c, ar_Message = m\<rparr> dir"
      using pending_grant [OF Some [unfolded dc]] assms by blast+
    from p(1) obtain decide where d: "te_decide E = Some decide" by (auto simp: logged_def)
    obtain l' where l': "snd (snd (execute_approval (logged E) dec' call c (w1, l @ [Ran ctx call]))) = (l @ [Ran ctx call]) @ l'"
        "runs_ok ctx dir None l'" "length (filter is_ran l') \<le> 1"
      using execute_approval_logged [OF d, of c ctx call dir w1 "l @ [Ran ctx call]"] p by auto
    have "snd (snd (run_call (logged E) ctx call ctxt (w, l))) = l @ (Ran ctx call # l')"
      using x Some dc l'(1) by (simp add: run_call_def)
    with l' show ?thesis by (intro exI [of _ "Ran ctx call # l'"]) auto
  qed
qed

lemma apply_updated_sel [simp]:
  "tc_WorkingDir (apply_updated ui call) = tc_WorkingDir call"
  "tc_Name (apply_updated ui call) = tc_Name call"
  "tc_ID (apply_updated ui call) = tc_ID call"
  by (auto simp: apply_updated_def split: option.splits json.splits)

lemma requestHookApproval_logged:
  "\<exists>l'. snd (snd (requestHookApproval (logged E) call reason (w, l))) = l @ l' \<and> list_all (\<lambda>e. \<not> is_ran e) l'"
proof (cases "te_decide E")
  case None
  then show ?thesis by (simp add: requestHookApproval_def logged_def)
next
  case (Some decide)
  then have "te_decide (logged E) = Some (\<lambda>req wl. (fst (decide req (fst wl)), (snd (decide req (fst wl)),
        snd wl @ [Asked req (case fst (decide req (fst wl)) of Inl _ \<Rightarrow> False | Inr d \<Rightarrow> as_Approved d)])))"
    by (simp add: logged_def)
  then show ?thesis by (auto simp: requestHookApproval_def Let_def split: sum.split)
qed

lemma runs_ok_asks: "list_all (\<lambda>e. \<not> is_ran e) l \<Longrightarrow> (\<And>ok. runs_ok ctx dir ok l') \<Longrightarrow> runs_ok ctx dir ok (l @ l')"
proof (induction l arbitrary: ok)
  case (Cons e l)
  then show ?case by (cases e) simp_all
qed simp

text \<open>
  C12: Whatever the hooks, the tool and the user do, a call is executed at most twice, each time
  either with the context it came with or with the grant of the one request, for this tool and
  directory, that the user approved just before.
\<close>

theorem granted_run_needs_approval:
  "runs_ok ctx (tc_WorkingDir call) None (snd (snd (executeToolUse (logged E) ctx call (w, []))))
   \<and> length (filter is_ran (snd (snd (executeToolUse (logged E) ctx call (w, []))))) \<le> 2"
proof -
  obtain pre w1 where t: "tool_hooks (logged E) ''PreToolUse'' (tc_Name call) (w, []) = (pre, (w1, []))"
    using tool_hooks_logged [of E "''PreToolUse''" "tc_Name call" w "[]"] by (metis prod.collapse)
  define perm where "perm = ResolvePreToolUsePermission pre"
  define call1 where "call1 = apply_updated (hp_UpdatedInput perm) call"
  define ans where "ans = (if hp_Behavior perm = ''ask'' then requestHookApproval (logged E) call1 (hp_Reason perm) (w1, [])
    else (Inr (True, ok_result), (w1, [])))"
  obtain answer w2 l where a: "ans = (answer, (w2, l))" by (metis prod.exhaust)
  have l: "list_all (\<lambda>e. \<not> is_ran e) l"
    using requestHookApproval_logged [of E call1 "hp_Reason perm" w1 "[]"] a by (auto simp: ans_def split: if_splits)
  then have none: "filter is_ran l = []" by (induction l) auto
  show ?thesis
  proof (cases "HasBlockingResult pre \<or> hp_Behavior perm = ''deny''")
    case True
    then show ?thesis using t by (auto simp: executeToolUse_def perm_def Let_def)
  next
    case False
    then have e: "executeToolUse (logged E) ctx call (w, []) =
        (case answer of Inl e \<Rightarrow> ((ok_result, Some e), (w2, l))
         | Inr (proceed, r) \<Rightarrow> if \<not> proceed then ((attachAdditionalContext r (hp_AdditionalContext perm), None), (w2, l))
             else run_call (logged E) ctx call1 (hp_AdditionalContext perm) (w2, l))"
      using t a by (simp add: executeToolUse_def Let_def perm_def [symmetric] call1_def [symmetric] ans_def [symmetric] split: prod.splits)
    have dir: "tc_WorkingDir call1 = tc_WorkingDir call" by (simp add: call1_def)
    obtain l' where l': "snd (snd (run_call (logged E) ctx call1 (hp_AdditionalContext perm) (w2, l))) = l @ l'"
        "\<forall>ok. runs_ok ctx (tc_WorkingDir call) ok l'" "length (filter is_ran l') \<le> 2"
      using run_call_logged [OF dir, of E ctx "hp_AdditionalContext perm" w2 l] by blast
    have "runs_ok ctx (tc_WorkingDir call) None (l @ [])" by (rule runs_ok_asks [OF l]) simp
    moreover have "runs_ok ctx (tc_WorkingDir call) None (l @ l')" by (rule runs_ok_asks [OF l]) (use l' in simp)
    ultimately show ?thesis using l' none by (auto simp: e split: sum.splits)
  qed
qed

section \<open>Where the flow differs from what it means to do\<close>

text \<open>
  A hook that blocks a call without writing to its standard error is reported to the model as a
  successful call with empty output: the call was not run, but its result is not an error.
\<close>

theorem silent_block_looks_successful:
  assumes "tool_hooks E ''PreToolUse'' (tc_Name call) w = (pre, w1)" and "HasBlockingResult pre"
    and "list_all (\<lambda>r. trim_space (hr_Stderr r) = '''') pre"
  shows "renderToolResult (fst (fst (executeToolUse E ctx call w))) (snd (fst (executeToolUse E ctx call w))) = ('''', False)
    \<and> snd (executeToolUse E ctx call w) = w1"
  using assms blocking_silent [OF assms(3)]
  by (simp add: executeToolUse_def renderToolResult_def error_result_def trim_space_def)

theorem silent_block_looks_successful_witness:
  "renderToolResult (fst (fst (executeToolUse (demo_tool_env (demo_hook_result 2 None)) None demo_call 0)))
      (snd (fst (executeToolUse (demo_tool_env (demo_hook_result 2 None)) None demo_call 0))) = ('''', False)"
  using silent_block_looks_successful [OF demo_pre, of "demo_hook_result 2 None"]
  by (simp add: HasBlockingResult_def IsBlocking_def demo_hook_result_def trim_space_def)

text \<open>
  When a tool asks for permission and the user gives it, the second execution's result goes to
  the model as it is: the hooks that follow a tool (\<open>PostToolUse\<close>, \<open>PostToolUseFailure\<close>,
  \<open>FileChanged\<close>) do not run, and the context the first hooks supplied is dropped.
\<close>

theorem approved_call_skips_hooks:
  assumes "tool_hooks E ''PreToolUse'' (tc_Name call) w = (pre, w1)" and "\<not> HasBlockingResult pre"
    and "strictest (map behavior_of pre) \<notin> {''deny'', ''ask''}"
    and "call1 = apply_updated (hp_UpdatedInput (ResolvePreToolUsePermission pre)) call"
    and "te_execute E ctx call1 w1 = ((r, err), w2)" and "pending_approval E ctx call1 err = Some (decide, c)"
    and "event_hooks E ''PermissionRequest'' w2 = ((False, errs), w3)"
    and "decide \<lparr>ar_CallID = tc_ID call, ar_ToolName = tc_Name call, ar_Path = ac_Path c, ar_Action = ac_Action c,
      ar_Message = ac_Message c\<rparr> w3 = (Inr d, w4)" and "as_Approved d"
    and "te_execute E (Some (ac_Grant c)) call1 w4 = ((r2, err2), w5)"
  shows "executeToolUse E ctx call w = ((r2, map_option ie_error err2), w5)"
proof -
  have b: "hp_Behavior (ResolvePreToolUsePermission pre) \<notin> {''deny'', ''ask''}"
    using assms(3) strictest_hook_wins by simp
  have "executeToolUse E ctx call w = run_call E ctx call1 (hp_AdditionalContext (ResolvePreToolUsePermission pre)) w1"
    using assms(1,2,4) b by (simp add: executeToolUse_def Let_def)
  also have "\<dots> = execute_approval E decide call1 c w2" using assms(5,6) by (simp add: run_call_def)
  also have "\<dots> = ((r2, map_option ie_error err2), w5)"
    using assms(4,7-10) by (simp add: execute_approval_def)
  finally show ?thesis .
qed

definition guarded_env :: "nat tool_env" where
  "guarded_env = \<lparr>te_hooks = [(''PostToolUse'', [\<lparr>hm_Matcher = '''', hm_Hooks = [demo_hook]\<rparr>])],
     te_run_hook = Some (\<lambda>h w. (Inr (demo_hook_result 2 None), w + 100)), te_disabled = False,
     te_decide = Some (\<lambda>req w. (Inr \<lparr>as_Approved = True, as_Reason = ''''\<rparr>, w + 10)),
     te_execute = (\<lambda>ctx call w. (case ctx of
        None \<Rightarrow> ((ok_result, Some \<lparr>ie_error = PlainErr ''ask'', ie_fs = None,
          ie_bash = Some \<lparr>bp_Command = ''ls'', bp_Decision = DecisionAsk, bp_Message = ''run ls?''\<rparr>, ie_web = None\<rparr>), w + 1)
      | Some _ \<Rightarrow> ((ok_result\<lparr>r_Output := ''listing''\<rparr>, None), w + 1)))\<rparr>"

theorem approved_call_skips_hooks_witness:
  "executeToolUse guarded_env None demo_call 0 = ((ok_result\<lparr>r_Output := ''listing''\<rparr>, None), 12)"
proof -
  have pre: "tool_hooks guarded_env ''PreToolUse'' (tc_Name demo_call) 0 = ([], 0)"
    by (simp add: tool_hooks_def shouldRunHooks_def guarded_env_def HasEvent_def event_matchers_def)
  have req: "event_hooks guarded_env ''PermissionRequest'' w = ((False, []), w)" for w
    by (simp add: event_hooks_def shouldRunHooks_def guarded_env_def HasEvent_def event_matchers_def)
  let ?be = "\<lparr>bp_Command = ''ls'', bp_Decision = DecisionAsk, bp_Message = ''run ls?''\<rparr>"
  let ?err = "\<lparr>ie_error = PlainErr ''ask'', ie_fs = None, ie_bash = Some ?be, ie_web = None\<rparr>"
  have up: "apply_updated (hp_UpdatedInput (ResolvePreToolUsePermission [])) demo_call = demo_call"
    by (simp add: ResolvePreToolUsePermission_def apply_updated_def)
  have ex: "te_execute guarded_env None demo_call w = ((ok_result, Some ?err), w + 1)"
    "te_execute guarded_env (Some g) demo_call w = ((ok_result\<lparr>r_Output := ''listing''\<rparr>, None), w + 1)" for w g
    by (simp_all add: guarded_env_def)
  have pa: "pending_approval guarded_env None demo_call (Some ?err)
      = Some (\<lambda>req w. (Inr \<lparr>as_Approved = True, as_Reason = ''''\<rparr>, w + 10), bash_case None demo_call ?be)"
    by (simp add: pending_approval_def first_some_def guarded_env_def asks_def)
  have s: "strictest (map behavior_of []) \<notin> {''deny'', ''ask''}" by (simp add: strictest_def)
  show ?thesis
    using approved_call_skips_hooks [OF pre _ s up [symmetric] ex(1) pa req refl _ ex(2)]
    by (simp add: HasBlockingResult_def)
qed

text \<open>
  The mode \<open>acceptEdits\<close>, like \<open>bypassPermissions\<close>, approves every request, shell commands and
  fetches included; \<open>dontAsk\<close> refuses every one; no other mode decides without the prompt.
\<close>

theorem Decide_modes:
  "Decide ''acceptEdits'' prompter req w = Decide ''bypassPermissions'' prompter' req w
   \<and> Decide ''acceptEdits'' prompter req w = (Inr \<lparr>as_Approved = True, as_Reason = ''''\<rparr>, w)
   \<and> fst (Decide ''dontAsk'' prompter req w) = Inr \<lparr>as_Approved = False,
       as_Reason = ''Permission to '' @ ar_Action req @ '' '' @ ar_Path req @ '' was not granted.''\<rparr>
   \<and> Decide ''plan'' prompter req w = Decide ''default'' prompter req w"
  by (simp add: Decide_def IsSupportedMode_def SupportedModes_def)

text \<open>
  The grant of an approved request fits the request the tool made: when the policy answered a
  read or write with a question, the same request with the grant in its context is allowed.
\<close>

theorem approval_fits_request:
  assumes "ToError (EvaluateFilesystem env pol ctx req) req = Some pe" and "asks (pe_Decision pe)"
    and "fr_ToolName req = tc_Name call" and "fr_WorkingDir req = tc_WorkingDir call"
  shows "ev_Decision (EvaluateFilesystem env pol (Some (ac_Grant (fs_case ctx call pe))) req) = DecisionAllow"
proof -
  have pe: "pe_Path pe = fr_Path req" "pe_Access pe = fr_Access req" "pe_Decision pe = ev_Decision (EvaluateFilesystem env pol ctx req)"
    using assms(1) by (auto simp: ToError_def split: if_splits)
  have r: "\<lparr>fr_ToolName = tc_Name call, fr_Path = pe_Path pe, fr_WorkingDir = tc_WorkingDir call, fr_Access = pe_Access pe\<rparr> = req"
    using assms(3,4) pe by (cases req) simp
  have g: "hasFilesystemGrant (Some (WithFilesystemGrant ctx req)) req"
    by (simp add: hasFilesystemGrant_def WithFilesystemGrant_def Let_def)
  show ?thesis
    using assms(2) pe(3) g unfolding fs_case_def r asks_def
    by (auto simp: EvaluateFilesystem_def split: option.splits sum.splits if_splits)
qed

theorem approval_fits_request_witness:
  "ev_Decision (EvaluateFilesystem demo_env (demo_policy [] []) (Some (WithFilesystemGrant None (read_of ''/etc/x''))) (read_of ''/etc/x''))
   = DecisionAllow"
proof -
  let ?ev = "EvaluateFilesystem demo_env (demo_policy [] []) None (read_of ''/etc/x'')"
  let ?pe = "\<lparr>pe_ToolName = ''Read'', pe_Path = ''/etc/x'', pe_Access = AccessRead, pe_Decision = DecisionAsk, pe_Rule = None,
    pe_Message = ask_read ''/etc/x''\<rparr>"
  have "?ev = ask None (ask_read ''/etc/x'')"
    by (simp add: eval_request evaluateRead_def decide_read_def matchingRuleForInput_def first_match_def
        pathAllowedForRead_def path_eval pathWithinRoot_def)
  then have "ToError ?ev (read_of ''/etc/x'') = Some ?pe"
    by (simp add: ToError_def read_of_def DecisionAsk_def DecisionAllow_def)
  from approval_fits_request [OF this, of "demo_call\<lparr>tc_Name := ''Read''\<rparr>"] show ?thesis
    by (simp add: asks_def read_of_def demo_call_def fs_case_def)
qed

end
