(* ===== verification/Tool_Runner.thy ===== *)
theory Tool_Runner
  imports Streaming_Tools Tool_Execution
begin

text \<open>
  The tools of one model answer: \<open>newStreamingExecutor\<close> wires the streaming executor to
  \<open>executeToolUse\<close>, the engine adds every call and waits (\<open>runtime/engine/engine.go\<close>).

  \<open>run_tools\<close> is one schedule of the executor: of the running tools the oldest finishes first.
  What the engine relies on holds for every schedule; it is the contract \<open>tool_runner\<close>.
\<close>

section \<open>The contract\<close>

abbreviation uses_of :: "executor \<Rightarrow> tool_use list" where
  "uses_of x \<equiv> map st_toolUse (x_tools x)"

text \<open>
  The executor was driven by its own steps, with exactly these calls, until \<open>AwaitAll\<close> returned.
\<close>

definition tools_awaited :: "(string \<Rightarrow> bool) \<Rightarrow> int \<Rightarrow> tool_use list \<Rightarrow> executor \<times> tool_finished list \<Rightarrow> bool" where
  "tools_awaited safeName m uses r \<longleftrightarrow>
    (\<exists>x. reachable safeName m (x, []) \<and> \<not> x_discarded x \<and> AwaitAll False x = Some (snd r, fst r) \<and> uses_of x = uses)"

text \<open>The message of results answers a list of calls: one result per call, in order, nothing but
  results, their media and context.\<close>

definition answers :: "tool_use list \<Rightarrow> message \<Rightarrow> bool" where
  "answers uses m \<longleftrightarrow> m_Role m = RoleUser
    \<and> map p_ToolUseID (filter is_result (m_Content m)) = map tu_ID uses
    \<and> list_all (\<lambda>p. p_Type p \<noteq> ''tool_use'') (m_Content m)"

locale tool_runner =
  fixes safeName :: "string \<Rightarrow> bool"
    and limit :: int
    and run :: "tool_use list \<Rightarrow> 's \<Rightarrow> (executor \<times> tool_finished list) \<times> 's"
  assumes awaited: "tools_awaited safeName limit uses (fst (run uses s))"
begin

lemma run_result:
  obtains x where "reachable safeName limit (x, [])" "\<not> x_discarded x"
    "AwaitAll False x = Some (snd (fst (run uses s)), fst (fst (run uses s)))" "uses_of x = uses"
  using awaited [of uses s] unfolding tools_awaited_def by blast

end

lemma outcome_parts_types: "p \<in> set (outcome_parts oc) \<Longrightarrow> p_Type p \<noteq> ''tool_use''"
  by (auto simp: outcome_parts_def Let_def part_defs split: prod.splits option.splits if_splits)

lemma awaited_answers:
  assumes "tools_awaited safeName m uses (x, done)"
  shows "answers uses (BuildToolResultMessage x)"
    and "mset done = mset (map (outcome_event \<circ> outcome_of) (x_tools x))"
proof -
  obtain x0 where r: "reachable safeName m (x0, [])" "\<not> x_discarded x0" "AwaitAll False x0 = Some (done, x)"
      "uses_of x0 = uses"
    using assms unfolding tools_awaited_def by auto
  have inv: "exec_inv x0" and out: "mset [] = mset (yielded_events (x_tools x0))"
    using reachable_inv [OF r(1)] by simp_all
  have c: "CollectResults x0 = (done, x)" and d: "list_all st_done (x_tools x0)"
    using r(2,3) by (auto simp: AwaitAll_def split: if_splits)
  have fin: "\<forall>t\<in>set (x_tools x0). finished (st_status t)"
    by (rule all_done_finished) (use inv r(2) d in \<open>simp_all add: exec_inv_def\<close>)
  have ok: "list_all result_ok (x_tools x0)" using inv by (simp add: exec_inv_def)
  have y: "x_tools x = snd (collect_loop (x_tools x0))"
    using c r(2) by (auto simp: CollectResults_def split: prod.splits)
  have Y: "\<forall>t\<in>set (x_tools x). st_status t = Yielded" using collect_loop_all(1) [OF fin ok] y by simp
  then have Y': "\<forall>t\<in>set (x_tools x). finished (st_status t)" by simp
  have okx: "list_all result_ok (x_tools x)"
    and ms: "mset (yielded_events (x_tools x)) = mset (yielded_events (x_tools x0)) + mset done"
    using CollectResults_inv [OF inv c] by (simp_all add: exec_inv_def)
  have "map st_id (x_tools x0) = map tu_ID uses"
    using ok r(4) by (auto simp: result_ok_def list_all_iff)
  then have ids: "map st_id (x_tools x) = map tu_ID uses" using collect_loop_all(2) [OF fin ok] y by simp
  show "answers uses (BuildToolResultMessage x)"
    using message_results [OF Y' okx] ids outcome_parts_types
    by (auto simp: answers_def BuildToolResultMessage_def list_all_iff split: if_splits)
  have "yielded_events (x_tools x) = map (outcome_event \<circ> outcome_of) (x_tools x)"
    using Y by (simp add: yielded_events_def)
  with ms out show "mset done = mset (map (outcome_event \<circ> outcome_of) (x_tools x))" by simp
qed

section \<open>One schedule\<close>

text \<open>Each call goes through \<open>executeToolUse\<close>; \<open>runTool\<close> leaves its context empty, working directory included.\<close>

definition call_of :: "tool_use \<Rightarrow> tool_call" where
  "call_of u = \<lparr>tc_ID = tu_ID u, tc_Name = tu_Name u, tc_Input = tu_Input u, tc_WorkingDir = ''''\<rparr>"

fun drain :: "(tool_use \<Rightarrow> 's \<Rightarrow> (tool_result \<times> go_error option) \<times> 's) \<Rightarrow> nat \<Rightarrow> executor \<Rightarrow> 's \<Rightarrow> executor \<times> 's" where
  "drain exec 0 x s = (x, s)"
| "drain exec (Suc n) x s =
    (case x_threads x of
       i # is \<Rightarrow> (case exec (st_toolUse (x_tools x ! i)) s of ((r, e), s1) \<Rightarrow> drain exec n (runTool_finish i r e x) s1)
     | [] \<Rightarrow> if 0 < x_notify x then drain exec n (runTool_notify x) s else (x, s))"

definition run_tools ::
    "(string \<Rightarrow> bool) \<Rightarrow> int \<Rightarrow> (tool_use \<Rightarrow> 's \<Rightarrow> (tool_result \<times> go_error option) \<times> 's)
     \<Rightarrow> tool_use list \<Rightarrow> 's \<Rightarrow> (executor \<times> tool_finished list) \<times> 's" where
  "run_tools safeName m exec uses s =
    (let x0 = fold AddTool uses (NewStreamingToolExecutor safeName m);
         (x, s1) = drain exec (load x0) x0 s
     in case AwaitAll False x of
          None \<Rightarrow> ((x, []), s1)
        | Some (done, y) \<Rightarrow> ((y, done), s1))"

lemma update_uses: "st_toolUse t = st_toolUse (xs ! i) \<Longrightarrow> map st_toolUse (xs[i := t]) = map st_toolUse xs"
  by (induction xs arbitrary: i) (auto split: nat.splits)

lemma close_done_uses [simp]: "uses_of (close_done i x) = uses_of x" "x_discarded (close_done i x) = x_discarded x"
  by (simp_all add: close_done_def update_uses)

lemma process_loop_uses [simp]: "uses_of (process_loop is x) = uses_of x \<and> x_discarded (process_loop is x) = x_discarded x"
proof (induction "is" arbitrary: x)
  case (Cons i ixs)
  have "uses_of (cancel_queued i x) = uses_of x" "uses_of (start_tool i x) = uses_of x"
      "x_discarded (cancel_queued i x) = x_discarded x" "x_discarded (start_tool i x) = x_discarded x"
    by (simp_all add: cancel_queued_def start_tool_def Let_def update_uses)
  with Cons.IH show ?case by (simp add: Let_def)
qed simp

lemma processQueue_uses [simp]: "uses_of (processQueue x) = uses_of x" "x_discarded (processQueue x) = x_discarded x"
  using process_loop_uses by (simp_all add: processQueue_def)

lemma AddTool_uses: "\<not> x_discarded x \<Longrightarrow> uses_of (AddTool u x) = uses_of x @ [u] \<and> \<not> x_discarded (AddTool u x)"
  by (simp add: AddTool_def)

lemma internal_uses:
  assumes "internal x y"
  shows "uses_of y = uses_of x"
  using assms
proof cases
  case (int_finish i r e)
  then show ?thesis
    by (simp add: runTool_finish_def Let_def update_uses split: prod.splits)
next
  case int_notify
  then show ?thesis by (simp add: runTool_notify_def)
qed

lemma internal_xstep: "internal x y \<Longrightarrow> xstep (x, out) (y, out)"
  by (erule internal.cases) (auto intro: finish notify)

lemma fold_AddTool:
  assumes "reachable safeName m (x, [])" and "\<not> x_discarded x"
  shows "reachable safeName m (fold AddTool uses x, []) \<and> uses_of (fold AddTool uses x) = uses_of x @ uses
    \<and> \<not> x_discarded (fold AddTool uses x)"
  using assms
proof (induction uses arbitrary: x)
  case (Cons u us)
  have "reachable safeName m (AddTool u x, [])" by (rule reachable_step [OF Cons.prems(1) add])
  from Cons.IH [OF this] AddTool_uses [OF Cons.prems(2), of u] show ?case by simp
qed simp

lemma drain_steps: "\<exists>n\<le>k. (internal ^^ n) x (fst (drain exec k x s))
    \<and> (n < k \<longrightarrow> x_threads (fst (drain exec k x s)) = [] \<and> x_notify (fst (drain exec k x s)) = 0)"
proof (induction k arbitrary: x s)
  case (Suc k)
  have step: ?case if i: "internal x y" and d: "drain exec (Suc k) x s = drain exec k y s1" for y s1
  proof -
    obtain n where n: "n \<le> k" "(internal ^^ n) y (fst (drain exec k y s1))"
        "n < k \<longrightarrow> x_threads (fst (drain exec k y s1)) = [] \<and> x_notify (fst (drain exec k y s1)) = 0"
      using Suc.IH [of y s1] by blast
    have "(internal ^^ Suc n) x (fst (drain exec k y s1))" using relpowp_Suc_I2 [OF i n(2)] .
    with n show ?thesis unfolding d by (intro exI [of _ "Suc n"]) simp
  qed
  show ?case
  proof (cases "x_threads x")
    case Nil
    show ?thesis
    proof (cases "0 < x_notify x")
      case True
      show ?thesis by (rule step [OF int_notify [OF True]]) (simp add: Nil True)
    next
      case False
      with Nil show ?thesis by (intro exI [of _ 0]) simp
    qed
  next
    case (Cons i ixs)
    obtain r e s1 where e: "exec (st_toolUse (x_tools x ! i)) s = ((r, e), s1)" by (metis prod.exhaust)
    show ?thesis by (rule step [OF int_finish [of i x r e], of s1]) (simp_all add: Cons e)
  qed
qed (auto intro: exI [of _ 0])

lemma internal_reachable: "(internal ^^ n) x y \<Longrightarrow> reachable safeName m (x, []) \<Longrightarrow>
    reachable safeName m (y, []) \<and> uses_of y = uses_of x"
proof (induction n arbitrary: y)
  case (Suc n)
  then obtain z where z: "(internal ^^ n) x z" "internal z y" by auto
  from Suc.IH [OF z(1) Suc.prems(2)] reachable_step [OF _ internal_xstep [OF z(2)]] internal_uses [OF z(2)]
  show ?case by auto
qed simp

lemma run_tools_awaited: "tools_awaited safeName m uses (fst (run_tools safeName m exec uses s))"
proof -
  let ?N = "NewStreamingToolExecutor safeName m"
  define x0 where "x0 = fold AddTool uses ?N"
  define x where "x = fst (drain exec (load x0) x0 s)"
  have "\<not> x_discarded ?N" "uses_of ?N = []" by (simp_all add: NewStreamingToolExecutor_def)
  then have x0: "reachable safeName m (x0, [])" "uses_of x0 = uses" "\<not> x_discarded x0"
    using fold_AddTool [OF reachable_start, of safeName m uses] by (simp_all add: x0_def)
  have inv: "exec_inv x0" using reachable_inv [OF x0(1)] by simp
  obtain n where n: "n \<le> load x0" "(internal ^^ n) x0 x" "n < load x0 \<longrightarrow> x_threads x = [] \<and> x_notify x = 0"
    using drain_steps [of "load x0" x0 exec s] unfolding x_def by blast
  have st: "exec_inv x" "n + load x \<le> load x0" "x_discarded x = x_discarded x0"
    using internal_steps [OF n(2) inv] by simp_all
  have re: "reachable safeName m (x, [])" "uses_of x = uses"
    using internal_reachable [OF n(2) x0(1)] x0(2) by simp_all
  have idle: "x_threads x = [] \<and> x_notify x = 0"
  proof (cases "n < load x0")
    case False
    with n(1) st(2) have "load x = 0" by simp
    then show ?thesis by (simp add: load_def)
  qed (use n in simp)
  then have stuck: "\<nexists>y. internal x y" unfolding internal_iff by simp
  have "\<not> x_discarded x" using st(3) x0(3) by simp
  then have d: "list_all st_done (x_tools x)" by (rule stuck_done [OF st(1) _ stuck])
  obtain fin y where c: "AwaitAll False x = Some (fin, y)"
    using d st(3) x0(3) by (cases "CollectResults x") (simp add: AwaitAll_def)
  have "fst (run_tools safeName m exec uses s) = (y, fin)"
    using c by (cases "drain exec (load x0) x0 s") (simp add: run_tools_def Let_def x0_def [symmetric] x_def)
  with c re st(3) x0(3) show ?thesis unfolding tools_awaited_def by auto
qed

text \<open>The executor of the engine: every call goes through \<open>executeToolUse\<close>.\<close>

definition engine_tools ::
    "'s tool_env \<Rightarrow> perm_ctx option \<Rightarrow> (string \<Rightarrow> bool) \<Rightarrow> int
     \<Rightarrow> tool_use list \<Rightarrow> 's \<Rightarrow> (executor \<times> tool_finished list) \<times> 's" where
  "engine_tools T ctx safeName m = run_tools safeName m (\<lambda>u. executeToolUse T ctx (call_of u))"

interpretation engine_runner: tool_runner safeName m "engine_tools T ctx safeName m"
  by unfold_locales (simp add: engine_tools_def run_tools_awaited)

text \<open>The message of results for the calls of an answer.\<close>

context tool_runner begin

lemma run_answers: "answers uses (BuildToolResultMessage (fst (fst (run uses s))))"
  by (rule awaited_answers(1) [of safeName limit uses _ "snd (fst (run uses s))"]) (use awaited [of uses s] in simp)

end

text \<open>
  C9: The calls of an answer, put through hooks, permission checks and approval by the streaming
  executor, are answered: the executor comes to rest, and the message for the model holds exactly
  one result for each call, in the order of the calls, whatever the hooks, tools and user do.
\<close>

theorem every_call_is_answered:
  "map p_ToolUseID (filter is_result (m_Content (BuildToolResultMessage
      (fst (fst (engine_tools T ctx safeName m uses s)))))) = map tu_ID uses
   \<and> m_Role (BuildToolResultMessage (fst (fst (engine_tools T ctx safeName m uses s)))) = RoleUser"
proof -
  have "answers uses (BuildToolResultMessage (fst (fst (engine_tools T ctx safeName m uses s))))"
    by (rule engine_runner.run_answers)
  then show ?thesis by (simp add: answers_def)
qed

end
