(* ===== verification/Engine_Stream.thy ===== *)
theory Engine_Stream
  imports Provider_Clients Tool_Runner
begin

text \<open>
  One model call of the engine (\<open>streamAndConsume\<close>, \<open>runFallback\<close> and \<open>consumeModelStream\<close> of
  \<open>runtime/engine/engine.go\<close>): attempts with back-off, fallback, and the tools of the answer.

  The client, the fallback, the timer and the streaming tool executor are the fields of
  \<open>engine_env\<close>; \<open>runtime_env\<close> builds one from the clients of \<open>Provider_Clients\<close>. The state
  \<open>'s\<close> is whatever they share. A function returns its outcome, the events it sends, and the
  next state. Time stamps and counters of the statistics are not modelled.
\<close>

section \<open>Events and results\<close>

datatype engine_event =
    RetryAttempted int int int string string
  | ModelFallback string string
  | MessageDelta string
  | ThinkingShown string string
  | ToolCallStarted string string tool_input
  | ToolCallFinished tool_finished
  | CompactDone int int
  | UsageReport usage usage string
  | ConversationDone history usage string
  | RunError string

text \<open>What a call ends with. A negative or tiny back-off makes the random jitter panic.\<close>

datatype 'a ending = Ret 'a | Err go_error | Panicked

record stream_result =
  sr_assistant :: message
  sr_toolUses :: "tool_use list"
  sr_stopReason :: string
  sr_usage :: usage
  sr_activeModel :: string
  sr_events :: "engine_event list"
  sr_exec :: "executor option"
  sr_responseID :: string

record 's engine_env =
  en_stream :: "model_request \<Rightarrow> 's \<Rightarrow> (go_error + stream) \<times> 's"
  en_fallback :: "model_request \<Rightarrow> go_error \<Rightarrow> 's \<Rightarrow> fallback_result option \<times> 's"
  en_policy :: retry_policy
  en_fallbackAfter :: int
  en_rnd :: "int \<Rightarrow> int"
  en_wait :: "int \<Rightarrow> 's \<Rightarrow> go_error option \<times> 's"
  en_tools :: "(tool_use list \<Rightarrow> 's \<Rightarrow> (executor \<times> tool_finished list) \<times> 's) option"

section \<open>Reading a stream\<close>

definition empty_result :: stream_result where
  "empty_result = \<lparr>sr_assistant = mk_message RoleAssistant [], sr_toolUses = [], sr_stopReason = '''',
     sr_usage = usage_zero, sr_activeModel = '''', sr_events = [], sr_exec = None, sr_responseID = ''''\<rparr>"

definition push_part :: "content_part \<Rightarrow> engine_event \<Rightarrow> stream_result \<Rightarrow> stream_result" where
  "push_part p ev r = r\<lparr>sr_assistant := (sr_assistant r)\<lparr>m_Content := m_Content (sr_assistant r) @ [p]\<rparr>,
     sr_events := sr_events r @ [ev]\<rparr>"

fun consume_loop :: "stream \<Rightarrow> stream_result \<Rightarrow> go_error + stream_result" where
  "consume_loop [] r = Inr r"
| "consume_loop (it # its) r =
    (case ev_Type it of
       EvTextDelta \<Rightarrow> consume_loop its (push_part (TextPart (ev_Text it)) (MessageDelta (ev_Text it)) r)
     | EvError \<Rightarrow> Inl (PlainErr (ev_Error it))
     | EvThinking \<Rightarrow> consume_loop its (push_part (ThinkingPart (ev_Thinking it) (ev_Signature it))
         (ThinkingShown (ev_Thinking it) (ev_Signature it)) r)
     | EvToolUse \<Rightarrow>
        (case ev_ToolUse it of
           None \<Rightarrow> Inl (PlainErr ''tool use event missing payload'')
         | Some u \<Rightarrow> consume_loop its
             (push_part (ToolUsePart (tu_ID u) (tu_Name u) (tu_Input u))
                (ToolCallStarted (tu_ID u) (tu_Name u) (tu_Input u))
                (r\<lparr>sr_toolUses := sr_toolUses r @ [u]\<rparr>)))
     | EvDone \<Rightarrow> consume_loop its
         (r\<lparr>sr_stopReason := ev_StopReason it,
            sr_usage := (case ev_Usage it of None \<Rightarrow> sr_usage r | Some u \<Rightarrow> u),
            sr_responseID := (if ev_ResponseID it \<noteq> '''' then ev_ResponseID it else sr_responseID r)\<rparr>)
     | _ \<Rightarrow> consume_loop its r)"

definition consumeModelStream :: "stream \<Rightarrow> go_error + stream_result" where
  "consumeModelStream s = consume_loop s empty_result"

section \<open>Attempts\<close>

text \<open>A computation: its outcome, the events it sends, the next state.\<close>

type_synonym 's act = "'s \<Rightarrow> stream_result ending \<times> engine_event list \<times> 's"

definition send_first :: "engine_event list \<Rightarrow> stream_result ending \<times> engine_event list \<times> 's \<Rightarrow> stream_result ending \<times> engine_event list \<times> 's" where
  "send_first evs r = (fst r, evs @ fst (snd r), snd (snd r))"

text \<open>A successful call: its events are sent, then its tools run.\<close>

definition finish_stream :: "'s engine_env \<Rightarrow> stream_result \<Rightarrow> 's act" where
  "finish_stream E r s =
    (case en_tools E of
       None \<Rightarrow> (Ret r, sr_events r, s)
     | Some run \<Rightarrow>
        (case run (sr_toolUses r) s of ((x, done), s1) \<Rightarrow>
           (Ret (r\<lparr>sr_exec := Some x\<rparr>), sr_events r @ map ToolCallFinished done, s1)))"

definition runFallback :: "'s engine_env \<Rightarrow> model_request \<Rightarrow> fallback_result \<Rightarrow> 's act" where
  "runFallback E req fb s =
    (case consumeModelStream (fb_stream fb) of
       Inl e \<Rightarrow> (Err e, [], s)
     | Inr r \<Rightarrow> send_first [ModelFallback (rq_Model req) (fb_model fb)]
         (finish_stream E (r\<lparr>sr_activeModel := fb_model fb\<rparr>) s))"

text \<open>\<open>tryFallback\<close> and, when it gives a stream, \<open>runFallback\<close>; otherwise go on with \<open>next\<close>.\<close>

definition fallback_or :: "'s engine_env \<Rightarrow> model_request \<Rightarrow> go_error \<Rightarrow> 's act \<Rightarrow> 's act" where
  "fallback_or E req err next s =
    (case en_fallback E req err s of
       (Some fb, s1) \<Rightarrow> runFallback E req fb s1
     | (None, s1) \<Rightarrow> next s1)"

definition retries_of :: "'s engine_env \<Rightarrow> nat" where
  "retries_of E = nat (MaxAttempts (en_policy E))"

definition give_up :: "string \<Rightarrow> go_error \<Rightarrow> 's act" where
  "give_up what err s = (Err (WrapErr (what @ '': '' @ error_text err) err), [], s)"

definition exhausted :: "'s engine_env \<Rightarrow> model_request \<Rightarrow> go_error \<Rightarrow> 's act" where
  "exhausted E req err =
    fallback_or E req err (give_up (''stream failed after '' @ itoa (int (retries_of E)) @ '' retries'') err)"

text \<open>The event and the wait before the next attempt; durations are in nanoseconds, the event in
  milliseconds.\<close>

definition wait_retry :: "'s engine_env \<Rightarrow> go_error \<Rightarrow> int \<Rightarrow> 's act \<Rightarrow> 's act" where
  "wait_retry E err attempt next s =
    (case computeBackoff (en_rnd E) err (attempt + 1) (en_policy E) of
       None \<Rightarrow> (Panicked, [], s)
     | Some backoff \<Rightarrow>
        send_first [RetryAttempted (attempt + 1) (int (retries_of E)) (backoff div 1000000) (error_text err)
            (extractErrorKind (Some err))]
          (case en_wait E backoff s of
             (Some e, s1) \<Rightarrow> (Err e, [], s1)
           | (None, s1) \<Rightarrow> next s1))"

text \<open>The rest of an iteration after a retriable failure.\<close>

definition retry_or_fallback :: "'s engine_env \<Rightarrow> model_request \<Rightarrow> int \<Rightarrow> go_error \<Rightarrow> 's act \<Rightarrow> 's act" where
  "retry_or_fallback E req attempt err next =
    (if shouldFallbackAfterAttempts (en_fallbackAfter E) (attempt + 1) then fallback_or E req err next else next)"

text \<open>One iteration; \<open>again err\<close> is what follows a retriable failure.\<close>

definition attempt_once :: "'s engine_env \<Rightarrow> model_request \<Rightarrow> int \<Rightarrow> (go_error \<Rightarrow> 's act) \<Rightarrow> 's act" where
  "attempt_once E req attempt again s =
    (case en_stream E req s of
       (Inl err, s1) \<Rightarrow>
         if isImmediateFallbackError err then
           fallback_or E req err (give_up ''stream failed, immediate fallback not available'' err) s1
         else if \<not> isRetriableError err then exhausted E req err s1
         else retry_or_fallback E req attempt err (again err) s1
     | (Inr str, s1) \<Rightarrow>
         (case consumeModelStream str of
            Inr r \<Rightarrow> finish_stream E r s1
          | Inl err \<Rightarrow>
              if \<not> isRetriableError err then (Err err, [], s1)
              else retry_or_fallback E req attempt err (again err) s1))"

text \<open>The loop; \<open>k\<close> retries are left.\<close>

fun attempt_loop :: "'s engine_env \<Rightarrow> model_request \<Rightarrow> nat \<Rightarrow> 's act" where
  "attempt_loop E req 0 s = attempt_once E req (int (retries_of E)) (exhausted E req) s"
| "attempt_loop E req (Suc k) s =
    attempt_once E req (int (retries_of E) - int (Suc k))
      (\<lambda>err. wait_retry E err (int (retries_of E) - int (Suc k)) (attempt_loop E req k)) s"

definition streamAndConsume :: "'s engine_env \<Rightarrow> model_request \<Rightarrow> 's act" where
  "streamAndConsume E req = attempt_loop E req (retries_of E)"

section \<open>The runtime's clients\<close>

text \<open>Waiting and tools change the world behind the clients; the breakers are the runtime's own.\<close>

definition on_world :: "('w \<Rightarrow> 'a \<times> 'w) \<Rightarrow> 'w engine_net \<Rightarrow> 'a \<times> 'w engine_net" where
  "on_world f st =
    (case f (env (en_net st)) of (a, w) \<Rightarrow> (a, st\<lparr>en_net := (en_net st)\<lparr>env := w\<rparr>\<rparr>))"

definition runtime_env ::
    "'w provider \<Rightarrow> 'w clock \<Rightarrow> fallback_config \<Rightarrow> retry_policy \<Rightarrow> int \<Rightarrow> (int \<Rightarrow> int)
     \<Rightarrow> (int \<Rightarrow> 'w \<Rightarrow> go_error option \<times> 'w) \<Rightarrow> (tool_use list \<Rightarrow> 'w \<Rightarrow> (executor \<times> tool_finished list) \<times> 'w) option
     \<Rightarrow> 'w engine_net engine_env" where
  "runtime_env raw clock cfg policy fallbackAfter rnd wait tools =
    \<lparr>en_stream = engine_Stream raw clock (fc_Client cfg), en_fallback = tryFallback raw clock cfg,
     en_policy = policy, en_fallbackAfter = fallbackAfter, en_rnd = rnd, en_wait = (\<lambda>d. on_world (wait d)),
     en_tools = map_option (\<lambda>run uses. on_world (run uses)) tools\<rparr>"

section \<open>What a call keeps\<close>

locale call_contract =
  fixes E :: "'s engine_env"
    and inv :: "'s \<Rightarrow> bool"
  assumes stream_keeps: "inv s \<Longrightarrow> inv (snd (en_stream E req s))"
    and fallback_keeps: "inv s \<Longrightarrow> inv (snd (en_fallback E req err s))"
    and wait_keeps: "inv s \<Longrightarrow> inv (snd (en_wait E d s))"
    and tools_keep: "en_tools E = Some run \<Longrightarrow> inv s \<Longrightarrow> inv (snd (run uses s))"
begin

abbreviation keeps :: "'s act \<Rightarrow> bool" where
  "keeps a \<equiv> (\<forall>s. inv s \<longrightarrow> inv (snd (snd (a s))))"

lemma finish_keeps: "keeps (finish_stream E r)"
proof (intro allI impI)
  fix s assume s: "inv s"
  show "inv (snd (snd (finish_stream E r s)))"
  proof (cases "en_tools E")
    case (Some run)
    with tools_keep [OF Some s, of "sr_toolUses r"] show ?thesis
      by (auto simp: finish_stream_def split: prod.splits)
  qed (use s in \<open>simp add: finish_stream_def\<close>)
qed

lemma runFallback_keeps: "keeps (runFallback E req fb)"
  using finish_keeps by (auto simp: runFallback_def send_first_def split: sum.split)

lemma fallback_or_keeps:
  assumes "keeps next"
  shows "keeps (fallback_or E req err next)"
proof (intro allI impI)
  fix s assume s: "inv s"
  obtain fb s1 where f: "en_fallback E req err s = (fb, s1)" by fastforce
  then have "inv s1" using fallback_keeps [OF s, of req err] by simp
  with f assms runFallback_keeps show "inv (snd (snd (fallback_or E req err next s)))"
    by (cases fb) (simp_all add: fallback_or_def)
qed

lemma exhausted_keeps: "keeps (exhausted E req err)"
  unfolding exhausted_def by (rule fallback_or_keeps) (simp add: give_up_def)

lemma wait_retry_keeps:
  assumes "keeps next"
  shows "keeps (wait_retry E err n next)"
proof (intro allI impI)
  fix s assume s: "inv s"
  show "inv (snd (snd (wait_retry E err n next s)))"
  proof (cases "computeBackoff (en_rnd E) err (n + 1) (en_policy E)")
    case (Some d)
    obtain c s1 where w: "en_wait E d s = (c, s1)" by fastforce
    then have "inv s1" using wait_keeps [OF s, of d] by simp
    with w assms Some show ?thesis by (cases c) (simp_all add: wait_retry_def send_first_def)
  qed (use s in \<open>simp add: wait_retry_def\<close>)
qed

lemma attempt_once_keeps:
  assumes again: "\<And>err. keeps (again err)"
  shows "keeps (attempt_once E req n again)"
proof (intro allI impI)
  fix s assume s: "inv s"
  obtain r s1 where r: "en_stream E req s = (r, s1)" by fastforce
  then have s1: "inv s1" using stream_keeps [OF s, of req] by simp
  have retry: "keeps (retry_or_fallback E req n err (again err))" for err
    using again fallback_or_keeps [OF again] by (simp add: retry_or_fallback_def)
  have up: "keeps (fallback_or E req err (give_up t err))" for err t
    by (rule fallback_or_keeps) (simp add: give_up_def)
  show "inv (snd (snd (attempt_once E req n again s)))"
  proof (cases r)
    case (Inl err)
    with r s1 retry up exhausted_keeps show ?thesis by (simp add: attempt_once_def)
  next
    case (Inr str)
    with r s1 retry finish_keeps show ?thesis
      by (cases "consumeModelStream str") (simp_all add: attempt_once_def)
  qed
qed

lemma attempt_loop_keeps: "keeps (attempt_loop E req k)"
proof (induction k)
  case 0
  have "keeps (attempt_once E req (int (retries_of E)) (exhausted E req))"
    by (rule attempt_once_keeps) (rule exhausted_keeps)
  then show ?case by simp
next
  case (Suc k)
  have "keeps (attempt_once E req (int (retries_of E) - int (Suc k))
      (\<lambda>err. wait_retry E err (int (retries_of E) - int (Suc k)) (attempt_loop E req k)))"
    by (rule attempt_once_keeps) (rule wait_retry_keeps [OF Suc.IH])
  then show ?case by simp
qed

lemma call_keeps: "inv s \<Longrightarrow> inv (snd (snd (streamAndConsume E req s)))"
  using attempt_loop_keeps by (simp add: streamAndConsume_def)

end

lemma tryFallback_wf:
  assumes "net_wf (en_net st)"
  shows "net_wf (en_net (snd (tryFallback raw clock cfg req err st)))"
proof -
  obtain r st1 where r: "engine_Stream raw clock (fc_Client cfg) (req\<lparr>rq_Model := fc_FallbackModel cfg\<rparr>) st = (r, st1)"
    by fastforce
  then have w1: "net_wf (en_net st1)" using engine_Stream_wf [OF assms, of raw clock "fc_Client cfg"] by (metis snd_conv)
  have f: "net_wf (snd (fallback_loop raw clock req 0 (fc_FallbackClients cfg) n))" if "net_wf n" for n
    using fallback_loop_wf [OF that] .
  show ?thesis
    using r w1 assms f [OF assms] f [OF w1]
    by (cases r) (auto simp: tryFallback_def Let_def split: prod.splits)
qed

lemma on_world_net: "net_wf (en_net st) \<Longrightarrow> net_wf (en_net (snd (on_world f st)))"
  by (auto simp: on_world_def net_wf_def split: prod.splits)

interpretation runtime_call: call_contract "runtime_env raw clock cfg policy fa rnd wait tools" "\<lambda>st. net_wf (en_net st)"
  by unfold_locales (auto simp: runtime_env_def engine_Stream_wf tryFallback_wf on_world_net)

text \<open>
  A model call, with all its attempts, its fallbacks and its tools, leaves every circuit breaker
  well formed.
\<close>

theorem model_call_keeps_breakers:
  assumes "net_wf (en_net st)"
  shows "net_wf (en_net (snd (snd (streamAndConsume (runtime_env raw clock cfg policy fa rnd wait tools) req st))))"
  by (rule runtime_call.call_keeps [OF assms])

definition calm_policy :: retry_policy where
  "calm_policy = \<lparr>MaxAttempts = 1, InitialBackoff = 1000000, MaxBackoff = 2000000\<rparr>"

theorem model_call_keeps_breakers_witness:
  "net_wf (en_net (snd (snd (streamAndConsume
      (runtime_env (\<lambda>i req w. (Inl (NetErr ''reset''), w)) (\<lambda>w. (w, w + 1))
        \<lparr>fc_Client = DirectClient (BreakerClient ''a'' 0 (RawClient 0)), fc_FallbackModel = ''small'', fc_FallbackClients = []\<rparr>
        calm_policy 0 (\<lambda>n. 0) (\<lambda>d w. (None, w + d)) None)
      demo_request \<lparr>en_net = fresh_net 0, en_pool = NewProviderPool [] [] RoundRobin\<rparr>))))"
  by (rule model_call_keeps_breakers) (simp add: fresh_net_wf)

section \<open>What the caller sees\<close>

text \<open>The retry events of a call, numbered from \<open>n\<close>.\<close>

fun retry_events :: "int \<Rightarrow> engine_event list \<Rightarrow> bool" where
  "retry_events n [] \<longleftrightarrow> True"
| "retry_events n (RetryAttempted k m b t c # evs) \<longleftrightarrow> k = n \<and> retry_events (n + 1) evs"
| "retry_events n (ev # evs) \<longleftrightarrow> False"

text \<open>The events of a successful call: those of one whole stream, after the change of model if there
  was one, then those of its tools. A failed call shows none.\<close>

fun shows_answer :: "model_request \<Rightarrow> stream_result ending \<Rightarrow> engine_event list \<Rightarrow> bool" where
  "shows_answer req (Ret r) evs \<longleftrightarrow>
    (\<exists>str r0 switch finished. consumeModelStream str = Inr r0 \<and> sr_assistant r = sr_assistant r0
       \<and> sr_toolUses r = sr_toolUses r0 \<and> switch \<in> {[], [ModelFallback (rq_Model req) (sr_activeModel r)]}
       \<and> evs = switch @ sr_events r0 @ map ToolCallFinished finished)"
| "shows_answer req e evs \<longleftrightarrow> evs = []"

definition well_shown :: "'s engine_env \<Rightarrow> model_request \<Rightarrow> int \<Rightarrow> nat \<Rightarrow> 's act \<Rightarrow> bool" where
  "well_shown E req n k a \<longleftrightarrow> (\<forall>s. \<exists>rs evs. fst (snd (a s)) = rs @ evs \<and> retry_events n rs \<and> length rs \<le> k
     \<and> shows_answer req (fst (a s)) evs)"

lemma well_shownI:
  assumes "\<And>s. shows_answer req (fst (a s)) (fst (snd (a s)))"
  shows "well_shown E req n k a"
  unfolding well_shown_def
proof
  fix s
  show "\<exists>rs evs. fst (snd (a s)) = rs @ evs \<and> retry_events n rs \<and> length rs \<le> k \<and> shows_answer req (fst (a s)) evs"
    by (intro exI [of _ "[]"] exI [of _ "fst (snd (a s))"]) (simp add: assms)
qed

lemma well_shownD:
  assumes "well_shown E req n k a"
  obtains rs evs where "fst (snd (a s)) = rs @ evs" "retry_events n rs" "length rs \<le> k" "shows_answer req (fst (a s)) evs"
  using assms unfolding well_shown_def by blast

lemma finish_shows:
  assumes "consumeModelStream str = Inr r" and "switch \<in> {[], [ModelFallback (rq_Model req) m]}"
    and "m = '''' \<longrightarrow> r' = r" and "r' = r\<lparr>sr_activeModel := m\<rparr> \<or> r' = r \<and> switch = []"
  shows "shows_answer req (fst (finish_stream E r' s)) (switch @ fst (snd (finish_stream E r' s)))"
proof (cases "en_tools E")
  case None
  have "switch \<in> {[], [ModelFallback (rq_Model req) (sr_activeModel r')]}" "sr_events r' = sr_events r"
      "sr_assistant r' = sr_assistant r" "sr_toolUses r' = sr_toolUses r"
    using assms(2,4) by auto
  with assms(1) None show ?thesis
    by (auto simp: finish_stream_def intro!: exI [of _ str] exI [of _ r] exI [of _ switch])
next
  case (Some run)
  obtain x fin s1 where "run (sr_toolUses r') s = ((x, fin), s1)" by (metis prod.exhaust)
  moreover have "switch \<in> {[], [ModelFallback (rq_Model req) (sr_activeModel r')]}" "sr_events r' = sr_events r"
      "sr_assistant r' = sr_assistant r" "sr_toolUses r' = sr_toolUses r"
    using assms(2,4) by auto
  ultimately show ?thesis using assms(1) Some
    by (auto simp: finish_stream_def intro!: exI [of _ str] exI [of _ r] exI [of _ switch] exI [of _ fin])
qed

lemma consume_activeModel:
  "consume_loop str r = Inr r' \<Longrightarrow> sr_activeModel r' = sr_activeModel r"
proof (induction str arbitrary: r)
  case (Cons it str)
  show ?case
  proof (cases "ev_Type it")
    case EvToolUse
    show ?thesis
    proof (cases "ev_ToolUse it")
      case (Some u)
      with Cons.prems EvToolUse Cons.IH [of "push_part (ToolUsePart (tu_ID u) (tu_Name u) (tu_Input u))
                (ToolCallStarted (tu_ID u) (tu_Name u) (tu_Input u)) (r\<lparr>sr_toolUses := sr_toolUses r @ [u]\<rparr>)"]
      show ?thesis by (simp add: push_part_def)
    qed (use Cons.prems EvToolUse in simp)
  qed (use Cons in \<open>fastforce simp: push_part_def\<close>)+
qed simp

lemma finish_well_shown:
  assumes "consumeModelStream str = Inr r"
  shows "well_shown E req n k (finish_stream E r)"
proof (rule well_shownI)
  fix s
  from finish_shows [OF assms, of "[]" req "sr_activeModel r" r E s] consume_activeModel [of str empty_result r] assms
  show "shows_answer req (fst (finish_stream E r s)) (fst (snd (finish_stream E r s)))" by simp
qed

lemma runFallback_shown: "well_shown E req n k (runFallback E req fb)"
proof (rule well_shownI)
  fix s
  show "shows_answer req (fst (runFallback E req fb s)) (fst (snd (runFallback E req fb s)))"
  proof (cases "consumeModelStream (fb_stream fb)")
    case (Inr r)
    have "fb_model fb = '''' \<longrightarrow> r\<lparr>sr_activeModel := fb_model fb\<rparr> = r"
      using consume_activeModel [of "fb_stream fb" empty_result r] Inr
      by (auto simp: consumeModelStream_def empty_result_def)
    from finish_shows [OF Inr, of "[ModelFallback (rq_Model req) (fb_model fb)]" req "fb_model fb", OF _ this]
    show ?thesis using Inr by (simp add: runFallback_def send_first_def)
  qed (simp add: runFallback_def)
qed

lemma fallback_or_shown:
  assumes "well_shown E req n k next"
  shows "well_shown E req n k (fallback_or E req err next)"
  unfolding well_shown_def
proof
  fix s
  obtain fb s1 where f: "en_fallback E req err s = (fb, s1)" by fastforce
  show "\<exists>rs evs. fst (snd (fallback_or E req err next s)) = rs @ evs \<and> retry_events n rs \<and> length rs \<le> k
     \<and> shows_answer req (fst (fallback_or E req err next s)) evs"
  proof (cases fb)
    case None
    with f assms show ?thesis unfolding well_shown_def by (simp add: fallback_or_def)
  next
    case (Some r)
    with f runFallback_shown [of E req n k r] show ?thesis unfolding well_shown_def by (simp add: fallback_or_def)
  qed
qed

lemma give_up_shown: "well_shown E req n k (give_up t err)"
  by (rule well_shownI) (simp add: give_up_def)

lemma exhausted_shown: "well_shown E req n k (exhausted E req err)"
  unfolding exhausted_def by (rule fallback_or_shown [OF give_up_shown])

lemma wait_retry_shown:
  assumes "well_shown E req (n + 1) k next" and m: "m = n - 1"
  shows "well_shown E req n (Suc k) (wait_retry E err m next)"
  unfolding well_shown_def m
proof
  fix s
  show "\<exists>rs evs. fst (snd (wait_retry E err (n - 1) next s)) = rs @ evs \<and> retry_events n rs \<and> length rs \<le> Suc k
     \<and> shows_answer req (fst (wait_retry E err (n - 1) next s)) evs"
  proof (cases "computeBackoff (en_rnd E) err n (en_policy E)")
    case None
    then show ?thesis by (simp add: wait_retry_def)
  next
    case (Some d)
    obtain c s1 where w: "en_wait E d s = (c, s1)" by fastforce
    let ?ev = "RetryAttempted n (int (retries_of E)) (d div 1000000) (error_text err) (extractErrorKind (Some err))"
    show ?thesis
    proof (cases c)
      case None
      obtain rs evs where r: "fst (snd (next s1)) = rs @ evs" "retry_events (n + 1) rs" "length rs \<le> k"
          "shows_answer req (fst (next s1)) evs"
        using well_shownD [OF assms(1)] by metis
      show ?thesis
        by (rule exI [of _ "?ev # rs"], rule exI [of _ evs])
          (use Some w None r in \<open>simp add: wait_retry_def send_first_def\<close>)
    next
      case (Some e)
      show ?thesis
        by (rule exI [of _ "[?ev]"], rule exI [of _ "[]"])
          (use \<open>computeBackoff (en_rnd E) err n (en_policy E) = Some d\<close> w Some in \<open>simp add: wait_retry_def send_first_def\<close>)
    qed
  qed
qed

lemma attempt_once_shown:
  assumes again: "\<And>err. well_shown E req n k (again err)"
  shows "well_shown E req n k (attempt_once E req m again)"
  unfolding well_shown_def
proof
  fix s
  obtain r s1 where r: "en_stream E req s = (r, s1)" by fastforce
  have retry: "well_shown E req n k (retry_or_fallback E req m err (again err))" for err
    using again fallback_or_shown [OF again] by (simp add: retry_or_fallback_def)
  have up: "well_shown E req n k (fallback_or E req err (give_up t err))" for err t
    by (rule fallback_or_shown [OF give_up_shown])
  let ?P = "\<lambda>a s. \<exists>rs evs. fst (snd (a s)) = rs @ evs \<and> retry_events n rs \<and> length rs \<le> k \<and> shows_answer req (fst (a s)) evs"
  have P: "well_shown E req n k a \<Longrightarrow> ?P a s'" for a s' unfolding well_shown_def by blast
  show "?P (attempt_once E req m again) s"
  proof (cases r)
    case (Inl err)
    show ?thesis
      using P [OF up] P [OF exhausted_shown] P [OF retry] r Inl by (simp add: attempt_once_def)
  next
    case (Inr str)
    show ?thesis
    proof (cases "consumeModelStream str")
      case (Inl err)
      show ?thesis using P [OF retry] r Inr Inl by (simp add: attempt_once_def)
    next
      case c: (Inr a)
      show ?thesis using P [OF finish_well_shown [OF c]] r Inr c by (simp add: attempt_once_def)
    qed
  qed
qed

lemma attempt_loop_shown: "k \<le> retries_of E \<Longrightarrow> well_shown E req (int (retries_of E) - int k + 1) k (attempt_loop E req k)"
proof (induction k)
  case 0
  have "well_shown E req (int (retries_of E) + 1) 0 (attempt_once E req (int (retries_of E)) (exhausted E req))"
    by (rule attempt_once_shown [OF exhausted_shown])
  then show ?case by (simp add: well_shown_def)
next
  case (Suc k)
  let ?n = "int (retries_of E) - int (Suc k)"
  have "well_shown E req (?n + 1 + 1) k (attempt_loop E req k)" using Suc by simp
  then have "well_shown E req (?n + 1) (Suc k) (wait_retry E err ?n (attempt_loop E req k))" for err
    by (rule wait_retry_shown) simp
  then have "well_shown E req (?n + 1) (Suc k) (attempt_once E req ?n (\<lambda>err. wait_retry E err ?n (attempt_loop E req k)))"
    by (rule attempt_once_shown)
  then show ?case by (simp add: well_shown_def)
qed

text \<open>
  C7: What failed attempts produced is never shown: a model call sends its retry notices, numbered
  from one and at most as many as the policy allows, and then, when it succeeds, the events of
  exactly one complete stream (the one whose message it returns) and of that message's tools; when
  it fails, nothing more.
\<close>

theorem only_success_is_shown:
  "\<exists>rs evs. fst (snd (streamAndConsume E req s)) = rs @ evs \<and> retry_events 1 rs
     \<and> length rs \<le> nat (MaxAttempts (en_policy E)) \<and> shows_answer req (fst (streamAndConsume E req s)) evs"
  using attempt_loop_shown [of "retries_of E" E req]
  by (simp add: well_shown_def streamAndConsume_def) (simp add: retries_of_def)

section \<open>What a call does\<close>

datatype call_step = AskedModel | TriedFallback | RanTools "tool_use list"

definition noted :: "'s engine_env \<Rightarrow> ('s \<times> call_step list) engine_env" where
  "noted E = \<lparr>
     en_stream = (\<lambda>req sl. (fst (en_stream E req (fst sl)), (snd (en_stream E req (fst sl)), snd sl @ [AskedModel]))),
     en_fallback = (\<lambda>req err sl. (fst (en_fallback E req err (fst sl)),
       (snd (en_fallback E req err (fst sl)), snd sl @ [TriedFallback]))),
     en_policy = en_policy E, en_fallbackAfter = en_fallbackAfter E, en_rnd = en_rnd E,
     en_wait = (\<lambda>d sl. (fst (en_wait E d (fst sl)), (snd (en_wait E d (fst sl)), snd sl))),
     en_tools = map_option (\<lambda>run uses sl. (fst (run uses (fst sl)), (snd (run uses (fst sl)), snd sl @ [RanTools uses]))) (en_tools E)\<rparr>"

text \<open>The tools a call must have run, once, at the very end.\<close>

fun tools_due :: "'s engine_env \<Rightarrow> stream_result ending \<Rightarrow> call_step list" where
  "tools_due E (Ret r) = (if en_tools E = None then [] else [RanTools (sr_toolUses r)])"
| "tools_due E e = []"

text \<open>\<open>p\<close> and \<open>q\<close> bound the model requests and the fallbacks tried.\<close>

definition frugal :: "'s engine_env \<Rightarrow> nat \<Rightarrow> nat \<Rightarrow> ('s \<times> call_step list) act \<Rightarrow> bool" where
  "frugal E p q a \<longleftrightarrow> (\<forall>s l. \<exists>l'. snd (snd (snd (a (s, l)))) = l @ l' @ tools_due E (fst (a (s, l)))
     \<and> set l' \<subseteq> {AskedModel, TriedFallback}
     \<and> length (filter (\<lambda>c. c = AskedModel) l') \<le> p \<and> length (filter (\<lambda>c. c = TriedFallback) l') \<le> q)"

lemma frugalI:
  assumes "\<And>s l. \<exists>l'. snd (snd (snd (a (s, l)))) = l @ l' @ tools_due E (fst (a (s, l)))
     \<and> set l' \<subseteq> {AskedModel, TriedFallback}
     \<and> length (filter (\<lambda>c. c = AskedModel) l') \<le> p \<and> length (filter (\<lambda>c. c = TriedFallback) l') \<le> q"
  shows "frugal E p q a"
  using assms unfolding frugal_def by blast

lemma frugal_after:
  assumes "frugal E p q a" and "c \<in> {AskedModel, TriedFallback}"
  shows "\<exists>l'. snd (snd (snd (a (s, l @ [c])))) = l @ l' @ tools_due E (fst (a (s, l @ [c])))
     \<and> set l' \<subseteq> {AskedModel, TriedFallback}
     \<and> length (filter (\<lambda>c. c = AskedModel) l') \<le> (if c = AskedModel then Suc p else p)
     \<and> length (filter (\<lambda>c. c = TriedFallback) l') \<le> (if c = TriedFallback then Suc q else q)"
proof -
  obtain l' where "snd (snd (snd (a (s, l @ [c])))) = (l @ [c]) @ l' @ tools_due E (fst (a (s, l @ [c])))"
      "set l' \<subseteq> {AskedModel, TriedFallback}"
      "length (filter (\<lambda>c. c = AskedModel) l') \<le> p" "length (filter (\<lambda>c. c = TriedFallback) l') \<le> q"
    using assms(1) unfolding frugal_def by blast
  with assms(2) show ?thesis by (intro exI [of _ "c # l'"]) auto
qed

lemma finish_frugal: "frugal E p q (finish_stream (noted E) r)"
proof (rule frugalI, intro exI [of _ "[]"])
  fix s l
  show "snd (snd (snd (finish_stream (noted E) r (s, l)))) = l @ [] @ tools_due E (fst (finish_stream (noted E) r (s, l))) \<and>
      set [] \<subseteq> {AskedModel, TriedFallback} \<and> length (filter (\<lambda>c. c = AskedModel) []) \<le> p
      \<and> length (filter (\<lambda>c. c = TriedFallback) []) \<le> q"
  proof (cases "en_tools E")
    case (Some run)
    obtain x fin s1 where "run (sr_toolUses r) s = ((x, fin), s1)" by (metis prod.exhaust)
    with Some show ?thesis by (simp add: finish_stream_def noted_def)
  qed (simp add: finish_stream_def noted_def)
qed

lemma runFallback_frugal: "frugal E p q (runFallback (noted E) req fb)"
proof (cases "consumeModelStream (fb_stream fb)")
  case (Inl e)
  then show ?thesis by (intro frugalI) (simp add: runFallback_def)
next
  case (Inr r)
  have "frugal E p q (finish_stream (noted E) (r\<lparr>sr_activeModel := fb_model fb\<rparr>))" by (rule finish_frugal)
  with Inr show ?thesis by (simp add: frugal_def runFallback_def send_first_def)
qed

lemma fallback_or_frugal:
  assumes "frugal E p q next"
  shows "frugal E p (Suc q) (fallback_or (noted E) req err next)"
proof (rule frugalI)
  fix s l
  obtain fb s1 where f: "en_fallback E req err s = (fb, s1)" by fastforce
  then have n: "en_fallback (noted E) req err (s, l) = (fb, (s1, l @ [TriedFallback]))" by (simp add: noted_def)
  show "\<exists>l'. snd (snd (snd (fallback_or (noted E) req err next (s, l)))) = l @ l' @ tools_due E (fst (fallback_or (noted E) req err next (s, l)))
     \<and> set l' \<subseteq> {AskedModel, TriedFallback}
     \<and> length (filter (\<lambda>c. c = AskedModel) l') \<le> p \<and> length (filter (\<lambda>c. c = TriedFallback) l') \<le> Suc q"
    using n frugal_after [OF assms, of TriedFallback s1 l]
      frugal_after [OF runFallback_frugal [of E p q req "the fb"], of TriedFallback s1 l]
    by (cases fb) (simp_all add: fallback_or_def)
qed

lemma give_up_frugal: "frugal E p q (give_up t err)"
  by (rule frugalI) (simp add: give_up_def)

lemma exhausted_frugal: "frugal E p (Suc q) (exhausted (noted E) req err)"
  unfolding exhausted_def by (rule fallback_or_frugal [OF give_up_frugal])

lemma wait_retry_frugal:
  assumes "frugal E p q next"
  shows "frugal E p q (wait_retry (noted E) err n next)"
proof (rule frugalI)
  fix s l
  let ?G = "\<lambda>a st. \<exists>l'. snd (snd (snd (a st))) = l @ l' @ tools_due E (fst (a st))
     \<and> set l' \<subseteq> {AskedModel, TriedFallback}
     \<and> length (filter (\<lambda>c. c = AskedModel) l') \<le> p \<and> length (filter (\<lambda>c. c = TriedFallback) l') \<le> q"
  show "?G (wait_retry (noted E) err n next) (s, l)"
  proof (cases "computeBackoff (en_rnd E) err (n + 1) (en_policy E)")
    case None
    then show ?thesis by (simp add: wait_retry_def noted_def)
  next
    case (Some d)
    obtain c s1 where w: "en_wait E d s = (c, s1)" by fastforce
    have "?G next (s1, l)" using assms unfolding frugal_def by blast
    with Some w show ?thesis by (cases c) (simp_all add: wait_retry_def send_first_def noted_def)
  qed
qed

lemma attempt_once_frugal:
  assumes again: "\<And>err. frugal E p (Suc q) (again err)"
  shows "frugal E (Suc p) (Suc (Suc q)) (attempt_once (noted E) req m again)"
proof (rule frugalI)
  fix s l
  obtain r s1 where r: "en_stream E req s = (r, s1)" by fastforce
  then have n: "en_stream (noted E) req (s, l) = (r, (s1, l @ [AskedModel]))" by (simp add: noted_def)
  have weaken: "frugal E p (Suc (Suc q)) a" if "frugal E p (Suc q) a" for a
    using that unfolding frugal_def by (meson le_SucI)
  have retry: "frugal E p (Suc (Suc q)) (retry_or_fallback (noted E) req m err (again err))" for err
    using weaken [OF again] fallback_or_frugal [OF again] by (simp add: retry_or_fallback_def)
  have up: "frugal E p (Suc (Suc q)) (fallback_or (noted E) req err (give_up t err))" for err t
    by (rule fallback_or_frugal [OF give_up_frugal])
  have g: "\<exists>l'. snd (snd (snd (a (s1, l @ [AskedModel])))) = l @ l' @ tools_due E (fst (a (s1, l @ [AskedModel])))
     \<and> set l' \<subseteq> {AskedModel, TriedFallback}
     \<and> length (filter (\<lambda>c. c = AskedModel) l') \<le> Suc p \<and> length (filter (\<lambda>c. c = TriedFallback) l') \<le> Suc (Suc q)"
    if "frugal E p (Suc (Suc q)) a" for a
    using frugal_after [OF that, of AskedModel s1 l] by simp
  show "\<exists>l'. snd (snd (snd (attempt_once (noted E) req m again (s, l))))
        = l @ l' @ tools_due E (fst (attempt_once (noted E) req m again (s, l)))
     \<and> set l' \<subseteq> {AskedModel, TriedFallback}
     \<and> length (filter (\<lambda>c. c = AskedModel) l') \<le> Suc p \<and> length (filter (\<lambda>c. c = TriedFallback) l') \<le> Suc (Suc q)"
  proof (cases r)
    case (Inl err)
    show ?thesis using g [OF up] g [OF exhausted_frugal] g [OF retry] n Inl by (simp add: attempt_once_def)
  next
    case (Inr str)
    show ?thesis
    proof (cases "consumeModelStream str")
      case (Inl err)
      have "frugal E p (Suc (Suc q)) (\<lambda>st. (Err err, [], st))" by (rule frugalI) simp
      from g [OF this] g [OF retry] n Inr Inl show ?thesis by (simp add: attempt_once_def)
    next
      case c: (Inr a)
      show ?thesis using g [OF finish_frugal] n Inr c by (simp add: attempt_once_def)
    qed
  qed
qed

lemma noted_retries [simp]: "retries_of (noted E) = retries_of E"
  by (simp add: retries_of_def noted_def)

lemma attempt_loop_frugal: "frugal E (Suc k) (k + 2) (attempt_loop (noted E) req k)"
proof (induction k)
  case 0
  have "frugal E (Suc 0) (Suc (Suc 0)) (attempt_once (noted E) req (int (retries_of E)) (exhausted (noted E) req))"
    by (rule attempt_once_frugal) (rule exhausted_frugal)
  then show ?case by (simp add: frugal_def)
next
  case (Suc k)
  have "frugal E (Suc k) (Suc (Suc k)) (attempt_loop (noted E) req k)" using Suc.IH by simp
  then have "frugal E (Suc k) (Suc (Suc k)) (wait_retry (noted E) err m (attempt_loop (noted E) req k))" for err m
    by (rule wait_retry_frugal)
  then have "frugal E (Suc (Suc k)) (Suc (Suc (Suc k))) (attempt_once (noted E) req (int (retries_of E) - int (Suc k))
      (\<lambda>err. wait_retry (noted E) err (int (retries_of E) - int (Suc k)) (attempt_loop (noted E) req k)))"
    by (rule attempt_once_frugal)
  then show ?case by (simp add: frugal_def)
qed

text \<open>
  C8: A model call with \<open>n\<close> retries asks the model at most \<open>n + 1\<close> times and tries the fallback
  at most \<open>n + 2\<close> times; the tools of an answer run exactly once, after everything else, when the
  call succeeds, and no tool runs in a call that fails.
\<close>

theorem tools_run_once_at_the_end:
  "\<exists>l. snd (snd (snd (streamAndConsume (noted E) req (s, [])))) = l @ tools_due E (fst (streamAndConsume (noted E) req (s, [])))
     \<and> set l \<subseteq> {AskedModel, TriedFallback}
     \<and> length (filter (\<lambda>c. c = AskedModel) l) \<le> nat (MaxAttempts (en_policy E)) + 1
     \<and> length (filter (\<lambda>c. c = TriedFallback) l) \<le> nat (MaxAttempts (en_policy E)) + 2"
proof -
  have "frugal E (Suc (retries_of E)) (retries_of E + 2) (streamAndConsume (noted E) req)"
    using attempt_loop_frugal [of E "retries_of E" req] by (simp add: streamAndConsume_def)
  then show ?thesis unfolding frugal_def by (metis Suc_eq_plus1 append_Nil retries_of_def)
qed

end
