(* ===== verification/Engine_Loop.thy ===== *)
theory Engine_Loop
  imports Engine_Stream Compaction
begin

text \<open>
  The engine's loop over a turn (\<open>Run\<close> and \<open>runLoop\<close> of \<open>runtime/engine/engine.go\<close>, \<open>budget.go\<close>,
  \<open>token_budget.go\<close>): automatic and emergency compaction, model calls, continuation after
  truncation, the token budget, stop hooks and tool rounds.

  One pass through the loop is \<open>loop_step\<close>; \<open>run_loop\<close> repeats it, with fuel. The token budget of
  the turn is \<open>lp_budget\<close>, 0 when the feature is off. The transcript file, the cache break
  detector, analytics and the observers of a turn (post-sampling, post-turn and session-start hooks) only
  watch the loop and are not modelled, nor are the sampling parameters copied into each request.
\<close>

section \<open>Messages\<close>

definition isToolResultOnlyMessage :: "message \<Rightarrow> bool" where
  "isToolResultOnlyMessage msg \<longleftrightarrow>
    m_Content msg \<noteq> [] \<and>
    list_all (\<lambda>p. (p_Type p = ''text'' \<and> p_IsMeta p) \<or> p_Type p = ''tool_result'') (m_Content msg)"

text \<open>A natural-language turn of the user.\<close>

definition is_prompt :: "message \<Rightarrow> bool" where
  "is_prompt msg \<longleftrightarrow> m_Role msg = RoleUser \<and> \<not> isToolResultOnlyMessage msg"

definition findLatestContinuationUserMessage :: "message list \<Rightarrow> message option" where
  "findLatestContinuationUserMessage msgs = find is_prompt (rev msgs)"

definition findContinuationRecoveryTail :: "message list \<Rightarrow> message list" where
  "findContinuationRecoveryTail msgs =
    (case dropWhile (\<lambda>m. \<not> is_prompt m) (rev msgs) of
       [] \<Rightarrow> []
     | m # _ \<Rightarrow> m # rev (takeWhile (\<lambda>m. \<not> is_prompt m) (rev msgs)))"

definition containsExactMessage :: "message list \<Rightarrow> message \<Rightarrow> bool" where
  "containsExactMessage msgs target \<longleftrightarrow>
    list_ex (\<lambda>m. m_Role m = m_Role target \<and> m_Content m = m_Content target) msgs"

definition appendMissingMessageTail :: "message list \<Rightarrow> message list \<Rightarrow> message list" where
  "appendMissingMessageTail msgs tail =
    (if tail = [] then msgs
     else case find (\<lambda>k. drop (length msgs - k) msgs = take k tail) (rev [1..<Suc (min (length msgs) (length tail))]) of
       Some k \<Rightarrow> msgs @ drop k tail
     | None \<Rightarrow> msgs @ tail)"

definition last_text :: "message \<Rightarrow> string list" where
  "last_text m = (if m_Role m = RoleAssistant
     then map p_Text (filter (\<lambda>p. p_Type p = ''text'' \<and> p_Text p \<noteq> '''') (m_Content m)) else [])"

definition extractLastAssistantText :: "message list \<Rightarrow> string" where
  "extractLastAssistantText msgs =
    (case find (\<lambda>m. last_text m \<noteq> []) (rev msgs) of None \<Rightarrow> '''' | Some m \<Rightarrow> join_str newline (last_text m))"

text \<open>The budget of the turn, read from the user's latest text that holds one; \<open>parse\<close> is
  \<open>ParseTokenBudget\<close>, whose regular expressions are left as a parameter.\<close>

definition parseTokenBudgetFromHistory :: "(string \<Rightarrow> int option) \<Rightarrow> message list \<Rightarrow> int option" where
  "parseTokenBudgetFromHistory parse msgs =
    (let texts = concat (map (\<lambda>m. map (trim_space \<circ> p_Text) (filter (\<lambda>p. p_Type p = ''text'' \<and> \<not> p_IsMeta p) (m_Content m)))
           (filter is_prompt (rev msgs)))
     in case find (\<lambda>t. t \<noteq> '''' \<and> parse t \<noteq> None) texts of None \<Rightarrow> None | Some t \<Rightarrow> parse t)"

definition buildInitialHistory :: "message list \<Rightarrow> string \<Rightarrow> go_error + history" where
  "buildInitialHistory msgs input =
    (if msgs \<noteq> [] then Inr msgs
     else if trim_space input = '''' then Inl (PlainErr ''missing user input'')
     else Inr [mk_message RoleUser [TextPart (trim_space input)]])"

section \<open>The token budget\<close>

record budget_tracker =
  ContinuationCount :: int
  LastDeltaTokens :: int
  LastGlobalTurnTokens :: int

definition NewBudgetTracker :: budget_tracker where
  "NewBudgetTracker = \<lparr>ContinuationCount = 0, LastDeltaTokens = 0, LastGlobalTurnTokens = 0\<rparr>"

text \<open>\<open>int(float64(budget) * 0.9)\<close>, the double nearest to 0.9 being \<open>8106479329266893 / 2 ^ 53\<close>.\<close>

definition ninety_percent :: "int \<Rightarrow> int" where
  "ninety_percent budget = int (round53 (round53 (nat budget) * 8106479329266893) div 2 ^ 53)"

text \<open>Commas between groups of three digits, from the right.\<close>

fun group_digits :: "string \<Rightarrow> string" where
  "group_digits s = (if length s \<le> 3 then s
     else group_digits (take (length s - 3) s) @ '','' @ drop (length s - 3) s)"

declare group_digits.simps [simp del]

definition formatNumber :: "int \<Rightarrow> string" where
  "formatNumber n = group_digits (itoa (if n < 0 then wrap64 (- n) else n))"

text \<open>The division of Go truncates; the budget is positive.\<close>

definition go_percent :: "int \<Rightarrow> int \<Rightarrow> int" where
  "go_percent tokens budget =
    (let p = wrap64 (tokens * 100) in if p < 0 then - ((- p) div budget) else p div budget)"

definition FormatBudgetNudgeMessage :: "int \<Rightarrow> int \<Rightarrow> int \<Rightarrow> string" where
  "FormatBudgetNudgeMessage pct turnTokens budget =
    ''Stopped at '' @ itoa pct @ ''% of token target ('' @ formatNumber turnTokens @ '' / '' @ formatNumber budget
      @ ''). Keep working '' @ [CHR 0xE2, CHR 0x80, CHR 0x94] @ '' do not summarize.''"

text \<open>Whether the intervals have become too small to go on.\<close>

definition is_diminishing :: "budget_tracker \<Rightarrow> int \<Rightarrow> bool" where
  "is_diminishing tr tokens \<longleftrightarrow>
    ContinuationCount tr \<ge> 3 \<and> wrap64 (tokens - LastGlobalTurnTokens tr) < 500 \<and> LastDeltaTokens tr < 500"

text \<open>\<open>Some\<close> with the nudge when the model should go on. The completion event, which is only
  logged, is left out; the engine passes an empty agent identifier.\<close>

definition checkTokenBudget :: "budget_tracker \<Rightarrow> string \<Rightarrow> int \<Rightarrow> int \<Rightarrow> string option \<times> budget_tracker" where
  "checkTokenBudget tr agentID budget tokens =
    (if agentID \<noteq> '''' \<or> budget \<le> 0 then (None, tr)
     else if \<not> is_diminishing tr tokens \<and> tokens < ninety_percent budget then
       (Some (FormatBudgetNudgeMessage (go_percent tokens budget) tokens budget),
        \<lparr>ContinuationCount = wrap64 (ContinuationCount tr + 1), LastDeltaTokens = wrap64 (tokens - LastGlobalTurnTokens tr),
         LastGlobalTurnTokens = tokens\<rparr>)
     else (None, tr))"

definition ComputeTaskBudgetRemaining :: "int \<Rightarrow> int \<Rightarrow> int \<Rightarrow> int \<Rightarrow> int" where
  "ComputeTaskBudgetRemaining currentRemaining totalBudget inputTokens outputTokens =
    (let remaining = wrap64 ((if currentRemaining \<le> 0 then totalBudget else currentRemaining) - wrap64 (inputTokens + outputTokens))
     in if remaining < 0 then 0 else remaining)"

section \<open>The state of the loop\<close>

datatype loop_hook = StopInput bool string | PreCompactInput | PostCompactInput string

record 's loop_env =
  lp_call :: "'s engine_env"
  lp_autoCompact :: bool
  lp_getenv :: "string \<Rightarrow> string"
  lp_prompt :: string
  lp_transcript :: string
  lp_tools :: "string list"
  lp_system :: string
  lp_caching :: bool
  lp_budget :: int
  lp_maxIterations :: int
  lp_hooks :: hooks_config
  lp_run_hook :: "(loop_hook \<Rightarrow> command_hook \<Rightarrow> 's \<Rightarrow> (string + hook_result) \<times> 's) option"
  lp_hooks_disabled :: bool

record loop_state =
  ls_history :: history
  ls_toolLoops :: nat
  ls_continuations :: nat
  ls_usage :: usage
  ls_model :: string
  ls_tracking :: tracking_state
  ls_recovered :: bool
  ls_transient :: "message list"
  ls_outTokens :: int
  ls_budget :: budget_tracker
  ls_stopActive :: bool
  ls_responseID :: string
  ls_taskRemaining :: int

definition no_tracking :: tracking_state where
  "no_tracking = \<lparr>ts_Compacted = False, ts_TurnCounter = 0, ts_TurnID = '''', ts_ConsecutiveFailures = 0\<rparr>"

definition initial_state :: "history \<Rightarrow> string \<Rightarrow> loop_state" where
  "initial_state h model = \<lparr>ls_history = h, ls_toolLoops = 0, ls_continuations = 0, ls_usage = usage_zero, ls_model = model,
     ls_tracking = no_tracking, ls_recovered = False, ls_transient = [], ls_outTokens = 0, ls_budget = NewBudgetTracker,
     ls_stopActive = False, ls_responseID = '''', ls_taskRemaining = 0\<rparr>"

definition maxToolIterations :: "'s loop_env \<Rightarrow> nat" where
  "maxToolIterations E = (if lp_maxIterations E \<le> 0 then 8 else nat (lp_maxIterations E))"

definition event_name :: "loop_hook \<Rightarrow> string" where
  "event_name h = (case h of StopInput _ _ \<Rightarrow> ''Stop'' | PreCompactInput \<Rightarrow> ''PreCompact'' | PostCompactInput _ \<Rightarrow> ''PostCompact'')"

text \<open>\<open>runHooks\<close> behind its guard \<open>shouldRunStopHooks\<close>.\<close>

definition loop_hooks :: "'s loop_env \<Rightarrow> loop_hook \<Rightarrow> 's \<Rightarrow> hook_result list \<times> 's" where
  "loop_hooks E inp s =
    (case lp_run_hook E of
       None \<Rightarrow> ([], s)
     | Some run \<Rightarrow>
        if \<not> lp_hooks_disabled E \<and> HasEvent (lp_hooks E) (event_name inp)
        then RunStopHooks (run inp) (lp_hooks E) (event_name inp) s else ([], s))"

section \<open>Compaction in the loop\<close>

text \<open>The account of a compaction: the remaining task budget, the usage and the events.\<close>

definition account :: "'s loop_env \<Rightarrow> compaction_result \<Rightarrow> loop_state \<Rightarrow> loop_state" where
  "account E res st =
    (if Usage_IsZero (cr_Usage res) then st
     else st\<lparr>ls_usage := Usage_Add (ls_usage st) (cr_Usage res),
             ls_taskRemaining := (if lp_budget E > 0
               then ComputeTaskBudgetRemaining (ls_taskRemaining st) (lp_budget E)
                      (InputTokens (cr_Usage res)) (OutputTokens (cr_Usage res))
               else ls_taskRemaining st)\<rparr>)"

definition compaction_events :: "compaction_result \<Rightarrow> loop_state \<Rightarrow> engine_event list" where
  "compaction_events res st =
    CompactDone (cr_PreTokenCount res) (cr_PostTokenCount res)
      # (if Usage_IsZero (cr_Usage res) then [] else [UsageReport (cr_Usage res) (Usage_Add (ls_usage st) (cr_Usage res)) ''''])"

definition compaction_hooks :: "'s loop_env \<Rightarrow> compaction_result \<Rightarrow> 's \<Rightarrow> 's" where
  "compaction_hooks E res s = snd (loop_hooks E (PostCompactInput (cr_Summary res)) (snd (loop_hooks E PreCompactInput s)))"

definition compacted_history :: "compaction_result \<Rightarrow> history" where
  "compacted_history res = cr_Boundary res # cr_SummaryMessages res"

definition auto_compact :: "'s loop_env \<Rightarrow> loop_state \<Rightarrow> 's \<Rightarrow> loop_state \<times> engine_event list \<times> 's" where
  "auto_compact E st s =
    (if lp_autoCompact E \<and> ls_transient st = [] then
       (case AutoCompactIfNeeded (lp_getenv E) (en_stream (lp_call E)) (lp_prompt E) (ls_history st) (ls_model st)
               (lp_transcript E) (Some (ls_tracking st)) s of
          (r, t, s1) \<Rightarrow>
            (case r of
               Inr (Some res) \<Rightarrow>
                 (account E res (st\<lparr>ls_tracking := the t, ls_history := compacted_history res\<rparr>), compaction_events res st,
                  compaction_hooks E res s1)
             | _ \<Rightarrow> (st\<lparr>ls_tracking := the t\<rparr>, [], s1)))
     else (st, [], s))"

text \<open>The history after an emergency compaction of \<open>old\<close>.\<close>

definition recovered_history :: "message list \<Rightarrow> history \<Rightarrow> compaction_result \<Rightarrow> history" where
  "recovered_history transient old res =
    (let h = compacted_history res in
     if transient \<noteq> [] then appendMissingMessageTail h (findContinuationRecoveryTail old)
     else case findLatestContinuationUserMessage old of
       None \<Rightarrow> h
     | Some user \<Rightarrow>
        if is_prompt (last old) \<and> \<not> containsExactMessage h user
        then (if is_prompt (last h) then butlast h else h) @ [user]
        else h)"

section \<open>One pass through the loop\<close>

datatype loop_end = Finished "go_error option" | Crashed

datatype loop_next = Next loop_state | End loop_end

definition build_request :: "'s loop_env \<Rightarrow> loop_state \<Rightarrow> model_request" where
  "build_request E st =
    \<lparr>rq_Model = ls_model st, rq_System = lp_system E, rq_MaxOutputTokens = 0,
     rq_Messages = ls_history st @ ls_transient st, rq_Tools = lp_tools E,
     rq_TaskBudget = (if lp_budget E > 0
       then Some \<lparr>tb_Type = ''tokens'', tb_Total = lp_budget E,
              tb_Remaining = (if ls_taskRemaining st > 0 then Some (ls_taskRemaining st) else None)\<rparr>
       else None),
     rq_EnablePromptCaching = lp_caching E,
     rq_PreviousResponseID = (if ls_responseID st \<noteq> '''' then Some (ls_responseID st) else None)\<rparr>"

text \<open>A failed model call.\<close>

definition after_error :: "'s loop_env \<Rightarrow> loop_state \<Rightarrow> go_error \<Rightarrow> 's \<Rightarrow> loop_next \<times> engine_event list \<times> 's" where
  "after_error E st err s =
    (if isPromptTooLongError err \<and> \<not> ls_recovered st \<and> lp_autoCompact E then
       (case CompactConversation (en_stream (lp_call E))
               \<lparr>cq_Messages = ls_history st, cq_Model = ls_model st, cq_Prompt = lp_prompt E,
                cq_TranscriptPath = lp_transcript E, cq_ReadFileState = [], cq_PlanContent = '''',
                cq_PlanFilePath = '''', cq_InvokedSkills = []\<rparr> s of
          (Inl e, s1) \<Rightarrow> (End (Finished (Some err)), [], s1)
        | (Inr res, s1) \<Rightarrow>
            (Next (account E res (st\<lparr>ls_recovered := True,
                ls_history := recovered_history (ls_transient st) (ls_history st) res\<rparr>)),
             compaction_events res st, compaction_hooks E res s1))
     else (End (Finished (Some err)), [], s))"

definition StopReasonMaxTokens :: string where
  "StopReasonMaxTokens = ''max_tokens''"

definition continuationUserMessage :: string where
  "continuationUserMessage = ''Output token limit hit. Resume directly '' @ [CHR 0xE2, CHR 0x80, CHR 0x94]
     @ '' no apology, no recap of what you were doing. Pick up mid-thought if that is where the cut happened. Break remaining work into smaller pieces.''"

definition done_event :: "loop_state \<Rightarrow> string \<Rightarrow> engine_event" where
  "done_event st reason = ConversationDone (ls_history st) (ls_usage st) reason"

definition stop_feedback :: "hook_result list \<Rightarrow> message list" where
  "stop_feedback rs = map (\<lambda>t. mk_message RoleUser [TextPart t]) (BlockingErrors rs)"

text \<open>The stop hooks, and the end of the turn when none blocks.\<close>

definition finish_turn :: "'s loop_env \<Rightarrow> loop_state \<Rightarrow> string \<Rightarrow> 's \<Rightarrow> loop_next \<times> engine_event list \<times> 's" where
  "finish_turn E st reason s =
    (case loop_hooks E (StopInput (ls_stopActive st) (extractLastAssistantText (ls_history st))) s of (rs, s1) \<Rightarrow>
       if hasPreventContinuation rs then (End (Finished None), [done_event st reason], s1)
       else if HasBlockingResult rs then
         (Next (st\<lparr>ls_stopActive := True, ls_history := ls_history st @ stop_feedback rs\<rparr>), [], s1)
       else (End (Finished None), [done_event st reason], s1))"

text \<open>An answer without tool calls.\<close>

definition after_text :: "'s loop_env \<Rightarrow> loop_state \<Rightarrow> string \<Rightarrow> 's \<Rightarrow> loop_next \<times> engine_event list \<times> 's" where
  "after_text E st reason s =
    (if reason = StopReasonMaxTokens \<and> ls_continuations st < 3 then
       (Next (st\<lparr>ls_continuations := ls_continuations st + 1,
                 ls_transient := [mk_message RoleUser [TextPart continuationUserMessage]]\<rparr>), [], s)
     else if lp_budget E > 0 \<and> reason \<noteq> StopReasonMaxTokens then
       (case checkTokenBudget (ls_budget st) '''' (lp_budget E) (ls_outTokens st) of
          (Some nudge, tr) \<Rightarrow>
            (Next (st\<lparr>ls_budget := tr, ls_transient := [mk_message RoleUser [TextPart nudge]]\<rparr>), [], s)
        | (None, tr) \<Rightarrow> finish_turn E (st\<lparr>ls_budget := tr\<rparr>) reason s)
     else finish_turn E st reason s)"

text \<open>An answer with tool calls, which have run already.\<close>

definition after_tools :: "'s loop_env \<Rightarrow> loop_state \<Rightarrow> stream_result \<Rightarrow> loop_next" where
  "after_tools E st r =
    (case sr_exec r of
       None \<Rightarrow> End (Finished (Some (PlainErr ''tool loop requested but executor is not configured'')))
     | Some x \<Rightarrow>
        if ls_toolLoops st \<ge> maxToolIterations E then
          End (Finished (Some (PlainErr (''tool loop exceeded max iterations ('' @ itoa (int (maxToolIterations E)) @ '')''))))
        else
          Next (st\<lparr>ls_toolLoops := ls_toolLoops st + 1, ls_continuations := 0,
                   ls_outTokens := (if lp_budget E > 0 then 0 else ls_outTokens st),
                   ls_budget := (if lp_budget E > 0 then NewBudgetTracker else ls_budget st),
                   ls_history := ls_history st @ [BuildToolResultMessage x]\<rparr>))"

text \<open>The state once an answer has arrived.\<close>

definition take_answer :: "loop_state \<Rightarrow> stream_result \<Rightarrow> loop_state" where
  "take_answer st r = st\<lparr>ls_transient := [], ls_recovered := False,
     ls_model := (if sr_activeModel r \<noteq> '''' then sr_activeModel r else ls_model st),
     ls_responseID := (if sr_responseID r \<noteq> '''' then sr_responseID r else ls_responseID st),
     ls_usage := Usage_Add (ls_usage st) (sr_usage r),
     ls_outTokens := wrap64 (ls_outTokens st + OutputTokens (sr_usage r)),
     ls_history := ls_history st @ (if m_Content (sr_assistant r) \<noteq> [] then [sr_assistant r] else [])\<rparr>"

definition usage_events :: "loop_state \<Rightarrow> stream_result \<Rightarrow> engine_event list" where
  "usage_events st r = (if Usage_IsZero (sr_usage r) then []
     else [UsageReport (sr_usage r) (Usage_Add (ls_usage st) (sr_usage r)) (sr_stopReason r)])"

definition after_answer :: "'s loop_env \<Rightarrow> loop_state \<Rightarrow> stream_result \<Rightarrow> 's \<Rightarrow> loop_next \<times> engine_event list \<times> 's" where
  "after_answer E st r s =
    (let st1 = take_answer st r;
         (n, evs, s1) = (if sr_toolUses r = [] then after_text E st1 (sr_stopReason r) s else (after_tools E st1 r, [], s))
     in (n, usage_events st r @ evs, s1))"

text \<open>One pass, the outcome of the call already known.\<close>

definition after_call :: "'s loop_env \<Rightarrow> loop_state \<Rightarrow> stream_result ending \<Rightarrow> 's \<Rightarrow> loop_next \<times> engine_event list \<times> 's" where
  "after_call E st res s =
    (case res of
       Ret r \<Rightarrow> after_answer E st r s
     | Err e \<Rightarrow> after_error E st e s
     | Panicked \<Rightarrow> (End Crashed, [], s))"

definition loop_step :: "'s loop_env \<Rightarrow> loop_state \<Rightarrow> 's \<Rightarrow> loop_next \<times> engine_event list \<times> 's" where
  "loop_step E st s =
    (let (st1, evs1, s1) = auto_compact E st s;
         (res, evs2, s2) = streamAndConsume (lp_call E) (build_request E st1) s1;
         (n, evs3, s3) = after_call E st1 res s2
     in (n, evs1 @ evs2 @ evs3, s3))"

text \<open>\<open>None\<close> when the fuel runs out.\<close>

fun run_loop :: "nat \<Rightarrow> 's loop_env \<Rightarrow> loop_state \<Rightarrow> 's \<Rightarrow> (loop_end \<times> engine_event list \<times> 's) option" where
  "run_loop 0 E st s = None"
| "run_loop (Suc n) E st s =
    (case loop_step E st s of
       (End e, evs, s1) \<Rightarrow> Some (e, evs, s1)
     | (Next st1, evs, s1) \<Rightarrow>
         (case run_loop n E st1 s1 of None \<Rightarrow> None | Some (e, evs2, s2) \<Rightarrow> Some (e, evs @ evs2, s2)))"

text \<open>\<open>Run\<close>: an error at the end is sent as an event.\<close>

definition Run :: "nat \<Rightarrow> 's loop_env \<Rightarrow> string \<Rightarrow> message list \<Rightarrow> string \<Rightarrow> 's
    \<Rightarrow> go_error + (loop_end \<times> engine_event list \<times> 's) option" where
  "Run fuel E model msgs input s =
    (case buildInitialHistory msgs input of
       Inl e \<Rightarrow> Inl e
     | Inr h \<Rightarrow> Inr (map_option (\<lambda>(e, evs, s1).
         (e, evs @ (case e of Finished (Some err) \<Rightarrow> [RunError (error_text err)] | _ \<Rightarrow> []), s1))
         (run_loop fuel E (initial_state h model) s)))"

section \<open>The loop ends\<close>

definition nudge_limit :: "'s loop_env \<Rightarrow> nat" where
  "nudge_limit E = 2 * (nat (ninety_percent (lp_budget E)) div 500) + 4"

text \<open>How many nudges a tracker still allows: each either spends 500 tokens of the budget, or is one
  of the first three, or follows one that did.\<close>

definition nudges_left :: "'s loop_env \<Rightarrow> budget_tracker \<Rightarrow> nat" where
  "nudges_left E tr = 2 * (nat (ninety_percent (lp_budget E) - LastGlobalTurnTokens tr) div 500)
     + (if LastDeltaTokens tr \<ge> 500 then 1 else 0) + nat (3 - ContinuationCount tr)"

text \<open>What a tracker has counted and what it still allows stay within the limit.\<close>

definition tracker_ok :: "'s loop_env \<Rightarrow> budget_tracker \<Rightarrow> bool" where
  "tracker_ok E tr \<longleftrightarrow> 0 \<le> ContinuationCount tr \<and> 0 \<le> LastGlobalTurnTokens tr
     \<and> ContinuationCount tr + int (nudges_left E tr) \<le> int (nudge_limit E)"

lemma ninety_percent_small: "in_int64 b \<Longrightarrow> ninety_percent b \<le> 9000000000000000000"
proof -
  assume b: "in_int64 b"
  define n where "n = nat b"
  define p where "p = round53 n * 8106479329266893"
  have n: "n \<le> 9223372036854775807" using b by (auto simp: in_int64_def max_int64_def n_def)
  have "round53 n * 9007199254740992 \<le> n * 9007199254740993" using round53_error [of n] by simp
  with n have r: "round53 n \<le> 9223372036854776832" by linarith
  then have "p \<le> 9223372036854776832 * 8106479329266893" unfolding p_def by (rule mult_le_mono1)
  moreover have "round53 p * 9007199254740992 \<le> p * 9007199254740993" using round53_error [of p] by simp
  ultimately have "round53 p \<le> 75000000000000000000000000000000000" by linarith
  then have "round53 p div 9007199254740992 \<le> 75000000000000000000000000000000000 div 9007199254740992" by (rule div_le_mono)
  also have "\<dots> \<le> (9000000000000000000 :: nat)" by simp
  finally have "int (round53 p div 9007199254740992) \<le> 9000000000000000000" by linarith
  then show ?thesis by (simp add: ninety_percent_def p_def n_def)
qed

lemma nudge_limit_small: "in_int64 (lp_budget E) \<Longrightarrow> int (nudge_limit E) \<le> 40000000000000000"
proof -
  assume "in_int64 (lp_budget E)"
  then have "nat (ninety_percent (lp_budget E)) \<le> 9000000000000000000" using ninety_percent_small by fastforce
  then have "nat (ninety_percent (lp_budget E)) div 500 \<le> 9000000000000000000 div 500" by (rule div_le_mono)
  then show ?thesis by (simp add: nudge_limit_def)
qed

lemma nudge_decreases:
  assumes "checkTokenBudget tr a (lp_budget E) tokens = (Some nudge, tr')" and "LastGlobalTurnTokens tr \<le> tokens"
    and "tracker_ok E tr" and "in_int64 tokens" and "in_int64 (lp_budget E)"
  shows "nudges_left E tr' < nudges_left E tr \<and> LastGlobalTurnTokens tr' = tokens \<and> tokens < ninety_percent (lp_budget E)
    \<and> tracker_ok E tr'"
proof -
  let ?R = "ninety_percent (lp_budget E)"
  have cc: "0 \<le> ContinuationCount tr" "ContinuationCount tr + int (nudges_left E tr) \<le> int (nudge_limit E)" "0 \<le> LastGlobalTurnTokens tr"
    using assms(3) by (simp_all add: tracker_ok_def)
  then have "in_int64 (ContinuationCount tr + 1)" "in_int64 (tokens - LastGlobalTurnTokens tr)"
    using nudge_limit_small [OF assms(5)] assms(2,4) by (simp_all add: in_int64_def min_int64_def max_int64_def)
  note [simp] = wrap64_id [OF this(1)] wrap64_id [OF this(2)]
  have c: "\<not> is_diminishing tr tokens" "tokens < ?R"
    and tr': "tr' = \<lparr>ContinuationCount = ContinuationCount tr + 1, LastDeltaTokens = tokens - LastGlobalTurnTokens tr,
         LastGlobalTurnTokens = tokens\<rparr>"
    using assms(1) by (auto simp: checkTokenBudget_def split: if_splits)
  have "nudges_left E tr' < nudges_left E tr"
  proof (cases "tokens - LastGlobalTurnTokens tr \<ge> 500")
    case True
    have "nat (?R - tokens) + 500 \<le> nat (?R - LastGlobalTurnTokens tr)" using True c(2) by linarith
    then have "nat (?R - tokens) div 500 + 1 \<le> nat (?R - LastGlobalTurnTokens tr) div 500"
      by (metis div_add_self2 div_le_mono zero_neq_numeral)
    moreover have "nat (2 - ContinuationCount tr) \<le> nat (3 - ContinuationCount tr)" by linarith
    ultimately show ?thesis using True by (simp add: nudges_left_def tr')
  next
    case False
    have le: "nat (?R - tokens) div 500 \<le> nat (?R - LastGlobalTurnTokens tr) div 500"
      using assms(2) by (intro div_le_mono) linarith
    have small: "LastDeltaTokens tr' < 500" "ContinuationCount tr' = ContinuationCount tr + 1"
        "LastGlobalTurnTokens tr' = tokens"
      using False by (simp_all add: tr')
    have old: "ContinuationCount tr < 3 \<or> LastDeltaTokens tr \<ge> 500"
      using c(1) False by (auto simp: is_diminishing_def)
    then have "nat (3 - ContinuationCount tr') + 1 \<le> nat (3 - ContinuationCount tr) + (if LastDeltaTokens tr \<ge> 500 then 1 else 0)"
      using small(2) by auto
    with le small show ?thesis unfolding nudges_left_def by (simp only: small(3)) simp
  qed
  then show ?thesis using c(2) cc assms(2) by (simp add: tr' tracker_ok_def)
qed

lemma nudges_left_new: "nudges_left E NewBudgetTracker \<le> nudge_limit E"
  by (simp add: nudges_left_def nudge_limit_def NewBudgetTracker_def)

text \<open>Bounds the passes left.\<close>

definition passes_left :: "'s loop_env \<Rightarrow> loop_state \<Rightarrow> nat" where
  "passes_left E st = (2 * (3 + nudge_limit E) + 2) * (maxToolIterations E - ls_toolLoops st)
     + 2 * ((3 - ls_continuations st) + (if ls_stopActive st then 0 else 1) + nudges_left E (ls_budget st))
     + (if ls_recovered st then 0 else 1)"

definition max_passes :: "'s loop_env \<Rightarrow> nat" where
  "max_passes E = (2 * (3 + nudge_limit E) + 2) * maxToolIterations E + 2 * (4 + nudge_limit E) + 2"

text \<open>The stop hooks let the turn end once they have been told that they blocked it before.\<close>

definition hooks_yield :: "'s loop_env \<Rightarrow> bool" where
  "hooks_yield E \<longleftrightarrow> (\<forall>t s. \<not> HasBlockingResult (fst (loop_hooks E (StopInput True t) s)))"

text \<open>The provider reports for each answer a number of output tokens that fits in 32 bits; a provider that
  reports more can make the sum of a turn wrap around.\<close>

definition counts_tokens :: "'s loop_env \<Rightarrow> bool" where
  "counts_tokens E \<longleftrightarrow> (\<forall>req s. case fst (streamAndConsume (lp_call E) req s) of
     Ret r \<Rightarrow> 0 \<le> OutputTokens (sr_usage r) \<and> OutputTokens (sr_usage r) < 4294967296 | _ \<Rightarrow> True)"

text \<open>The sum of a turn never wraps: a nudge comes below nine tenths of the budget, and other
  answers that lead to a further pass are few.\<close>

definition free_answers :: "loop_state \<Rightarrow> int" where
  "free_answers st = int (ls_continuations st) + (if ls_stopActive st then 1 else 0)"

definition in_budget :: "'s loop_env \<Rightarrow> loop_state \<Rightarrow> bool" where
  "in_budget E st \<longleftrightarrow> ls_continuations st \<le> 3 \<and>
    (lp_budget E > 0 \<longrightarrow>
      LastGlobalTurnTokens (ls_budget st) \<le> ls_outTokens st \<and> tracker_ok E (ls_budget st)
      \<and> ls_outTokens st \<le> 9000000000000000000 + 4294967296 * free_answers st)"

text \<open>The same after an answer has been counted.\<close>

definition in_budget1 :: "'s loop_env \<Rightarrow> loop_state \<Rightarrow> bool" where
  "in_budget1 E st \<longleftrightarrow> ls_continuations st \<le> 3 \<and>
    (lp_budget E > 0 \<longrightarrow>
      LastGlobalTurnTokens (ls_budget st) \<le> ls_outTokens st \<and> tracker_ok E (ls_budget st)
      \<and> ls_outTokens st \<le> 9000000000000000000 + 4294967296 * (free_answers st + 1))"

lemma account_sel [simp]:
  "ls_history (account E res st) = ls_history st" "ls_toolLoops (account E res st) = ls_toolLoops st"
  "ls_continuations (account E res st) = ls_continuations st" "ls_recovered (account E res st) = ls_recovered st"
  "ls_transient (account E res st) = ls_transient st" "ls_outTokens (account E res st) = ls_outTokens st"
  "ls_budget (account E res st) = ls_budget st" "ls_stopActive (account E res st) = ls_stopActive st"
  "ls_model (account E res st) = ls_model st" "ls_responseID (account E res st) = ls_responseID st"
  "ls_tracking (account E res st) = ls_tracking st"
  by (simp_all add: account_def)

lemma auto_compact_cases:
  obtains (kept) t evs s1 where "auto_compact E st s = (st\<lparr>ls_tracking := t\<rparr>, evs, s1)"
    | (compacted) t res evs s0 s1 where
      "auto_compact E st s = (account E res (st\<lparr>ls_tracking := the t, ls_history := compacted_history res\<rparr>), evs, s1)"
      "ls_transient st = []" "AutoCompactIfNeeded (lp_getenv E) (en_stream (lp_call E)) (lp_prompt E) (ls_history st)
         (ls_model st) (lp_transcript E) (Some (ls_tracking st)) s = (Inr (Some res), t, s0)"
proof (cases "lp_autoCompact E \<and> ls_transient st = []")
  case False
  then show ?thesis by (intro kept [of "ls_tracking st" "[]" s]) (auto simp: auto_compact_def)
next
  case True
  obtain r t s1 where a: "AutoCompactIfNeeded (lp_getenv E) (en_stream (lp_call E)) (lp_prompt E) (ls_history st)
         (ls_model st) (lp_transcript E) (Some (ls_tracking st)) s = (r, t, s1)" by (metis prod.exhaust)
  have none: "thesis" if "auto_compact E st s = (st\<lparr>ls_tracking := the t\<rparr>, [], s1)" using kept [OF that] .
  show ?thesis
  proof (cases r)
    case (Inl e)
    with True a show ?thesis by (intro none) (simp add: auto_compact_def)
  next
    case (Inr x)
    show ?thesis
    proof (cases x)
      case None
      with True a Inr show ?thesis by (intro none) (simp add: auto_compact_def)
    next
      case (Some res)
      show ?thesis
      proof (rule compacted)
        show "auto_compact E st s = (account E res (st\<lparr>ls_tracking := the t, ls_history := compacted_history res\<rparr>),
            compaction_events res st, compaction_hooks E res s1)"
          using True a Inr Some by (simp add: auto_compact_def)
        show "AutoCompactIfNeeded (lp_getenv E) (en_stream (lp_call E)) (lp_prompt E) (ls_history st)
         (ls_model st) (lp_transcript E) (Some (ls_tracking st)) s = (Inr (Some res), t, s1)"
          using a Inr Some by simp
      qed (use True in simp)
    qed
  qed
qed

text \<open>Automatic compaction changes the history and the accounts only.\<close>

lemma auto_compact_sel:
  assumes "auto_compact E st s = (st1, evs, s1)"
  shows "ls_toolLoops st1 = ls_toolLoops st" "ls_continuations st1 = ls_continuations st"
    "ls_recovered st1 = ls_recovered st" "ls_transient st1 = ls_transient st" "ls_outTokens st1 = ls_outTokens st"
    "ls_budget st1 = ls_budget st" "ls_stopActive st1 = ls_stopActive st" "ls_model st1 = ls_model st"
    "ls_responseID st1 = ls_responseID st"
  by (rule auto_compact_cases [of E st s]; use assms in simp)+

lemma passes_left_auto:
  assumes "auto_compact E st s = (st1, evs, s1)"
  shows "passes_left E st1 = passes_left E st" "in_budget E st1 = in_budget E st"
  using auto_compact_sel [OF assms] by (simp_all add: passes_left_def in_budget_def free_answers_def)

lemma after_error_decreases:
  assumes "after_error E st err s = (Next st', evs, s')"
  shows "passes_left E st' < passes_left E st \<and> in_budget E st' = in_budget E st"
  using assms
  by (auto simp: after_error_def passes_left_def in_budget_def free_answers_def split: if_splits prod.splits sum.splits)

lemma finish_turn_next:
  assumes "finish_turn E st reason s = (Next st', evs, s')"
  shows "\<exists>rs s1. loop_hooks E (StopInput (ls_stopActive st) (extractLastAssistantText (ls_history st))) s = (rs, s1)
    \<and> HasBlockingResult rs \<and> st' = st\<lparr>ls_stopActive := True, ls_history := ls_history st @ stop_feedback rs\<rparr>"
  using assms by (auto simp: finish_turn_def split: prod.splits if_splits)

lemma finish_turn_decreases:
  assumes "finish_turn E st reason s = (Next st', evs, s')" and "hooks_yield E" and "in_budget1 E st"
  shows "passes_left E st' + 2 \<le> passes_left E st \<and> in_budget E st'"
proof -
  obtain rs s1 where h: "loop_hooks E (StopInput (ls_stopActive st) (extractLastAssistantText (ls_history st))) s = (rs, s1)"
      "HasBlockingResult rs" "st' = st\<lparr>ls_stopActive := True, ls_history := ls_history st @ stop_feedback rs\<rparr>"
    using finish_turn_next [OF assms(1)] by blast
  have "\<not> HasBlockingResult (fst (loop_hooks E (StopInput True (extractLastAssistantText (ls_history st))) s))"
    using assms(2) unfolding hooks_yield_def by blast
  then have "\<not> ls_stopActive st" using h(1,2) by (cases "ls_stopActive st") simp_all
  with h(3) assms(3) show ?thesis by (simp add: passes_left_def in_budget_def in_budget1_def free_answers_def)
qed

lemma checkTokenBudget_None: "checkTokenBudget tr a b t = (None, tr') \<Longrightarrow> tr' = tr"
  by (auto simp: checkTokenBudget_def split: if_splits)

lemma in_budget1_range: "in_budget1 E st \<Longrightarrow> lp_budget E > 0 \<Longrightarrow> in_int64 (ls_outTokens st)"
  by (auto simp: in_budget1_def tracker_ok_def free_answers_def in_int64_def min_int64_def max_int64_def split: if_splits)

lemma after_text_decreases:
  assumes "after_text E st reason s = (Next st', evs, s')" and "hooks_yield E" and "in_budget1 E st" and "in_int64 (lp_budget E)"
  shows "passes_left E st' + 2 \<le> passes_left E st \<and> in_budget E st'"
proof (cases "reason = StopReasonMaxTokens \<and> ls_continuations st < 3")
  case True
  then have "st' = st\<lparr>ls_continuations := ls_continuations st + 1,
      ls_transient := [mk_message RoleUser [TextPart continuationUserMessage]]\<rparr>"
    using assms(1) by (simp add: after_text_def)
  moreover have "3 - ls_continuations st = Suc (3 - Suc (ls_continuations st))" using True by linarith
  ultimately show ?thesis using assms(3) True
    by (simp add: passes_left_def in_budget_def in_budget1_def free_answers_def algebra_simps del: diff_Suc_Suc)
next
  case plain: False
  show ?thesis
  proof (cases "lp_budget E > 0 \<and> reason \<noteq> StopReasonMaxTokens")
    case False
    then have "finish_turn E st reason s = (Next st', evs, s')" using assms(1) plain by (auto simp: after_text_def)
    from finish_turn_decreases [OF this assms(2,3)] show ?thesis by simp
  next
    case True
    obtain nudge tr where c: "checkTokenBudget (ls_budget st) '''' (lp_budget E) (ls_outTokens st) = (nudge, tr)"
      by fastforce
    show ?thesis
    proof (cases nudge)
      case None
      with c have "tr = ls_budget st" using checkTokenBudget_None by blast
      then have "finish_turn E st reason s = (Next st', evs, s')"
        using assms(1) plain True c None by (simp add: after_text_def)
      from finish_turn_decreases [OF this assms(2)] assms(3) show ?thesis by simp
    next
      case (Some msg)
      have g: "LastGlobalTurnTokens (ls_budget st) \<le> ls_outTokens st" "tracker_ok E (ls_budget st)"
        using assms(3) True by (simp_all add: in_budget1_def)
      have "st' = st\<lparr>ls_budget := tr, ls_transient := [mk_message RoleUser [TextPart msg]]\<rparr>"
        using assms(1) plain True c Some by (simp add: after_text_def)
      moreover note n = nudge_decreases [OF c [unfolded Some] g in_budget1_range [OF assms(3) conjunct1 [OF True]] assms(4)]
      moreover have "0 \<le> free_answers st" by (simp add: free_answers_def)
      ultimately have "in_budget E st'" using assms(3) ninety_percent_small [OF assms(4)]
        by (auto simp: in_budget_def in_budget1_def free_answers_def)
      moreover have "passes_left E st' + 2 \<le> passes_left E st"
        using n unfolding passes_left_def by (simp add: \<open>st' = _\<close>)
      ultimately show ?thesis by simp
    qed
  qed
qed

lemma after_tools_decreases:
  assumes "after_tools E st r = Next st'" and "in_budget1 E st"
  shows "passes_left E st' + 2 \<le> passes_left E st \<and> in_budget E st'"
proof -
  let ?C = "2 * (3 + nudge_limit E) + 2"
  obtain x where x: "sr_exec r = Some x" "ls_toolLoops st < maxToolIterations E"
    and st': "st' = st\<lparr>ls_toolLoops := ls_toolLoops st + 1, ls_continuations := 0,
                   ls_outTokens := (if lp_budget E > 0 then 0 else ls_outTokens st),
                   ls_budget := (if lp_budget E > 0 then NewBudgetTracker else ls_budget st),
                   ls_history := ls_history st @ [BuildToolResultMessage x]\<rparr>"
    using assms(1) by (auto simp: after_tools_def split: option.splits if_splits)
  define k where "k = maxToolIterations E - ls_toolLoops st"
  have k: "maxToolIterations E - ls_toolLoops st' = k - 1" "0 < k" using x(2) by (simp_all add: st' k_def)
  have n: "nudges_left E (ls_budget st') \<le> nudges_left E (ls_budget st) + nudge_limit E"
    using nudges_left_new [of E] by (simp add: st')
  define a where "a = ?C * (k - 1)"
  define b where "b = ?C * k"
  define stops where "stops = (if ls_stopActive st then 0 else 1 :: nat)"
  define fresh where "fresh = (if ls_recovered st then 0 else 1 :: nat)"
  have "a + ?C = b" using k(2) unfolding a_def b_def by (metis Suc_diff_1 mult_Suc_right add.commute)
  moreover have "passes_left E st' = a + 2 * (3 + stops + nudges_left E (ls_budget st')) + fresh"
    using k(1) by (simp add: passes_left_def st' a_def stops_def fresh_def)
  moreover have "passes_left E st = b + 2 * ((3 - ls_continuations st) + stops + nudges_left E (ls_budget st)) + fresh"
    by (simp add: passes_left_def k_def b_def stops_def fresh_def)
  ultimately have "passes_left E st' + 2 \<le> passes_left E st" using n by (simp add: algebra_simps)
  moreover have "in_budget E st'"
    using nudges_left_new [of E] by (simp add: st' in_budget_def tracker_ok_def free_answers_def) (simp add: NewBudgetTracker_def)
  ultimately show ?thesis by simp
qed

lemma take_answer_passes:
  assumes "0 \<le> OutputTokens (sr_usage r)" "OutputTokens (sr_usage r) < 4294967296" and "in_budget E st"
  shows "passes_left E (take_answer st r) \<le> passes_left E st + 1 \<and> in_budget1 E (take_answer st r)"
proof -
  have "in_int64 (ls_outTokens st + OutputTokens (sr_usage r))" if "lp_budget E > 0"
    using assms that
    by (auto simp: in_budget_def tracker_ok_def free_answers_def in_int64_def min_int64_def max_int64_def split: if_splits)
  then show ?thesis
    using assms by (auto simp: passes_left_def in_budget_def in_budget1_def free_answers_def take_answer_def)
qed

lemma loop_step_decreases:
  assumes "hooks_yield E" and "counts_tokens E" and "in_int64 (lp_budget E)" and "in_budget E st"
    and "loop_step E st s = (Next st', evs, s')"
  shows "passes_left E st' < passes_left E st \<and> in_budget E st'"
proof -
  obtain st1 evs1 s1 where a: "auto_compact E st s = (st1, evs1, s1)" by (metis prod.exhaust)
  obtain res evs2 s2 where c: "streamAndConsume (lp_call E) (build_request E st1) s1 = (res, evs2, s2)"
    by (metis prod.exhaust)
  obtain n evs3 s3 where d: "after_call E st1 res s2 = (n, evs3, s3)" by (metis prod.exhaust)
  have n: "n = Next st'" using assms(5) a c d by (simp add: loop_step_def)
  have st1: "passes_left E st1 = passes_left E st" "in_budget E st1"
    using passes_left_auto [OF a] assms(4) by simp_all
  show ?thesis
  proof (cases res)
    case Panicked
    with d n show ?thesis by (simp add: after_call_def)
  next
    case (Err e)
    with d n have "after_error E st1 e s2 = (Next st', evs3, s3)" by (simp add: after_call_def)
    from after_error_decreases [OF this] st1 show ?thesis by simp
  next
    case (Ret r)
    have nn: "0 \<le> OutputTokens (sr_usage r)" "OutputTokens (sr_usage r) < 4294967296"
    proof -
      have "case fst (streamAndConsume (lp_call E) (build_request E st1) s1) of
          Ret r \<Rightarrow> 0 \<le> OutputTokens (sr_usage r) \<and> OutputTokens (sr_usage r) < 4294967296 | _ \<Rightarrow> True"
        using assms(2) unfolding counts_tokens_def by blast
      then show "0 \<le> OutputTokens (sr_usage r)" "OutputTokens (sr_usage r) < 4294967296" using c Ret by simp_all
    qed
    define st2 where "st2 = take_answer st1 r"
    have t: "passes_left E st2 \<le> passes_left E st1 + 1" "in_budget1 E st2"
      using take_answer_passes [OF nn st1(2)] by (simp_all add: st2_def)
    have m: "after_answer E st1 r s2 = (Next st', evs3, s3)" using d n Ret by (simp add: after_call_def)
    show ?thesis
    proof (cases "sr_toolUses r = []")
      case True
      then obtain evs4 where "after_text E st2 (sr_stopReason r) s2 = (Next st', evs4, s3)"
        using m by (auto simp: after_answer_def Let_def st2_def split: prod.splits)
      from after_text_decreases [OF this assms(1) t(2) assms(3)] t st1 show ?thesis by simp
    next
      case False
      then have "after_tools E st2 r = Next st'"
        using m by (auto simp: after_answer_def Let_def st2_def split: prod.splits)
      from after_tools_decreases [OF this t(2)] t st1 show ?thesis by simp
    qed
  qed
qed

lemma run_loop_enough:
  assumes "hooks_yield E" and "counts_tokens E" and "in_int64 (lp_budget E)"
  shows "in_budget E st \<Longrightarrow> passes_left E st < n \<Longrightarrow> run_loop n E st s \<noteq> None"
proof (induction n arbitrary: st s)
  case (Suc n)
  obtain x evs s1 where l: "loop_step E st s = (x, evs, s1)" by (metis prod.exhaust)
  show ?case
  proof (cases x)
    case (End e)
    with l show ?thesis by simp
  next
    case (Next st1)
    from loop_step_decreases [OF assms Suc.prems(1) l [unfolded Next]]
    have "in_budget E st1" "passes_left E st1 < n" using Suc.prems(2) by simp_all
    from Suc.IH [OF this] obtain e evs2 s2 where "run_loop n E st1 s1 = Some (e, evs2, s2)" by fastforce
    with l Next show ?thesis by simp
  qed
qed simp

text \<open>
  C2: A turn ends: whatever the model, the tools, the compactions and the user's budget do, the
  loop stops after at most \<open>max_passes\<close> passes, provided the stop hooks let a turn end once they
  have blocked it and the provider counts for each answer between 0 and \<open>2 ^ 32 - 1\<close> output tokens, so
  that the 64-bit sum of a turn does not wrap. The bound depends on the limit of tool rounds and on the
  token budget only.
\<close>

theorem run_loop_returns:
  assumes "hooks_yield E" and "counts_tokens E" and "in_int64 (lp_budget E)"
  shows "run_loop (max_passes E) E (initial_state h model) s \<noteq> None"
proof (rule run_loop_enough [OF assms])
  show "in_budget E (initial_state h model)"
    using nudges_left_new [of E] by (simp add: in_budget_def tracker_ok_def free_answers_def initial_state_def) (simp add: NewBudgetTracker_def)
  have "passes_left E (initial_state h model) =
      (2 * (3 + nudge_limit E) + 2) * maxToolIterations E + 2 * (4 + nudges_left E NewBudgetTracker) + 1"
    by (simp add: passes_left_def initial_state_def)
  then show "passes_left E (initial_state h model) < max_passes E"
    using nudges_left_new [of E] by (simp add: max_passes_def)
qed

text \<open>A client that always answers with the same stream, and an engine without tools and hooks.\<close>

definition steady_call :: "stream \<Rightarrow> nat engine_env" where
  "steady_call str = \<lparr>en_stream = (\<lambda>req n. (Inr str, n + 1)), en_fallback = (\<lambda>req err n. (None, n)),
     en_policy = calm_policy\<lparr>MaxAttempts := 0\<rparr>, en_fallbackAfter = 0, en_rnd = (\<lambda>n. 0),
     en_wait = (\<lambda>d n. (None, n)), en_tools = None\<rparr>"

definition steady_env :: "stream \<Rightarrow> nat loop_env" where
  "steady_env str = \<lparr>lp_call = steady_call str, lp_autoCompact = False, lp_getenv = (\<lambda>k. ''''), lp_prompt = '''',
     lp_transcript = '''', lp_tools = [], lp_system = '''', lp_caching = False, lp_budget = 0, lp_maxIterations = 2,
     lp_hooks = [], lp_run_hook = None, lp_hooks_disabled = False\<rparr>"

definition hello :: stream where
  "hello = [(mk_event EvTextDelta)\<lparr>ev_Text := ''hello''\<rparr>, mk_event EvDone]"

lemma steady_answer:
  "consumeModelStream str = Inr r \<Longrightarrow> streamAndConsume (steady_call str) req n = (Ret r, sr_events r, n + 1)"
  by (simp add: streamAndConsume_def retries_of_def steady_call_def calm_policy_def attempt_once_def finish_stream_def)

lemma hello_result:
  obtains r where "consumeModelStream hello = Inr r" "sr_toolUses r = []" "sr_stopReason r = ''''" "sr_usage r = usage_zero"
    "m_Content (sr_assistant r) = [TextPart ''hello'']"
  by (simp add: consumeModelStream_def hello_def mk_event_def empty_result_def push_part_def)

theorem run_loop_returns_witness:
  "run_loop (max_passes (steady_env hello)) (steady_env hello)
      (initial_state [mk_message RoleUser [TextPart ''hi'']] ''m'') 0 \<noteq> None"
proof (rule run_loop_returns)
  show "hooks_yield (steady_env hello)"
    by (simp add: hooks_yield_def loop_hooks_def steady_env_def HasBlockingResult_def)
  obtain r where r: "consumeModelStream hello = Inr r" "sr_usage r = usage_zero" by (rule hello_result) blast
  show "counts_tokens (steady_env hello)"
    using r(2) by (simp add: counts_tokens_def steady_env_def steady_answer [OF r(1)] usage_zero_def)
  show "in_int64 (lp_budget (steady_env hello))"
    by (simp add: steady_env_def in_int64_def min_int64_def max_int64_def)
qed

section \<open>Where the loop does not do what it means to\<close>

definition text_only :: "'s loop_env \<Rightarrow> bool" where
  "text_only E \<longleftrightarrow> \<not> lp_autoCompact E \<and> lp_budget E \<le> 0 \<and>
    (\<forall>req s. \<exists>r evs s'. streamAndConsume (lp_call E) req s = (Ret r, evs, s') \<and> sr_toolUses r = []
       \<and> sr_stopReason r \<noteq> StopReasonMaxTokens)"

definition always_blocks :: "'s loop_env \<Rightarrow> bool" where
  "always_blocks E \<longleftrightarrow> (\<forall>a t s. HasBlockingResult (fst (loop_hooks E (StopInput a t) s))
     \<and> \<not> hasPreventContinuation (fst (loop_hooks E (StopInput a t) s)))"

lemma blocked_step:
  assumes "text_only E" and "always_blocks E"
  shows "\<exists>st' evs s'. loop_step E st s = (Next st', evs, s')"
proof -
  obtain r evs s1 where c: "streamAndConsume (lp_call E) (build_request E st) s = (Ret r, evs, s1)"
      and r: "sr_toolUses r = []" "sr_stopReason r \<noteq> StopReasonMaxTokens"
    using assms(1) unfolding text_only_def by blast
  have a: "auto_compact E st s = (st, [], s)" "\<not> lp_budget E > 0"
    using assms(1) by (simp_all add: auto_compact_def text_only_def)
  define st1 where "st1 = take_answer st r"
  obtain rs s2 where h: "loop_hooks E (StopInput (ls_stopActive st1) (extractLastAssistantText (ls_history st1))) s1 = (rs, s2)"
    by fastforce
  have b: "HasBlockingResult rs" "\<not> hasPreventContinuation rs"
    using assms(2) h unfolding always_blocks_def by (metis fst_conv)+
  then have "finish_turn E st1 (sr_stopReason r) s1
      = (Next (st1\<lparr>ls_stopActive := True, ls_history := ls_history st1 @ stop_feedback rs\<rparr>), [], s2)"
    using h by (simp add: finish_turn_def)
  then show ?thesis
    using a c r by (simp add: loop_step_def after_call_def after_answer_def after_text_def st1_def)
qed

text \<open>
  A stop hook that always blocks keeps the turn alive for ever: the loop has no limit of its own
  on such rounds (the limit counts tool rounds only), so with a model that answers in text no amount
  of fuel is enough. The flag the hooks are given is the only way out.
\<close>

theorem blocking_stop_hook_never_ends:
  assumes "text_only E" and "always_blocks E"
  shows "run_loop n E st s = None"
proof (induction n arbitrary: st s)
  case (Suc n)
  obtain st' evs s' where "loop_step E st s = (Next st', evs, s')" using blocked_step [OF assms] by blast
  with Suc.IH show ?case by simp
qed simp

definition stubborn_env :: "nat loop_env" where
  "stubborn_env = (steady_env hello)\<lparr>lp_hooks := [(''Stop'', [\<lparr>hm_Matcher = '''', hm_Hooks = [demo_hook]\<rparr>])],
     lp_run_hook := Some (\<lambda>inp h n. (Inr (demo_hook_result 2 None), n))\<rparr>"

theorem blocking_stop_hook_never_ends_witness:
  "run_loop 1000 stubborn_env (initial_state [mk_message RoleUser [TextPart ''hi'']] ''m'') 0 = None"
proof (rule blocking_stop_hook_never_ends)
  obtain r where r: "consumeModelStream hello = Inr r" "sr_toolUses r = []" "sr_stopReason r = ''''" by (rule hello_result) blast
  show "text_only stubborn_env"
    using r by (simp add: text_only_def stubborn_env_def steady_env_def steady_answer [OF r(1)] StopReasonMaxTokens_def)
  have d: "decodeCommandHook demo_hook \<noteq> None"
    by (simp add: demo_hook_def decodeCommandHook_def dec_struct_def json_field_def dec_string_def dec_bool_def dec_int_def
        the_str_def to_lower_def lower_char_def)
  have "fst (loop_hooks stubborn_env (StopInput a t) n) = [demo_hook_result 2 None]" for a t n
    using d by (auto simp: loop_hooks_def stubborn_env_def steady_env_def HasEvent_def event_matchers_def event_name_def
        RunStopHooks_def CommandHooks_def List.map_filter_simps split: option.splits)
  then show "always_blocks stubborn_env"
    by (simp add: always_blocks_def HasBlockingResult_def hasPreventContinuation_def IsBlocking_def demo_hook_result_def)
qed

text \<open>
  C40: The limit of tool rounds is tested after the tools have run: when it is reached, the calls of
  one more answer are executed, their results are dropped, and the turn ends with an error that
  shows neither them nor the history.
\<close>

theorem tools_run_beyond_the_limit:
  assumes "lp_call E = noted C" and "en_tools C \<noteq> None" and "ls_toolLoops st \<ge> maxToolIterations E"
    and "auto_compact E st sl = (st1, evs1, (s, l))"
    and "streamAndConsume (lp_call E) (build_request E st1) (s, l) = (Ret r, evs2, (s2, l2))" and "sr_toolUses r \<noteq> []"
  shows "last l2 = RanTools (sr_toolUses r)
    \<and> (\<exists>err evs. loop_step E st sl = (End (Finished (Some err)), evs, (s2, l2)) \<and> evs = evs1 @ evs2 @ usage_events st1 r)"
proof -
  have f: "frugal C (Suc (retries_of C)) (retries_of C + 2) (streamAndConsume (noted C) (build_request E st1))"
    using attempt_loop_frugal [of C "retries_of C" "build_request E st1"] by (simp add: streamAndConsume_def)
  obtain l' where "l2 = l @ l' @ tools_due C (Ret r)"
    using f assms(5) unfolding frugal_def assms(1) by (metis fst_conv snd_conv)
  then have l2: "last l2 = RanTools (sr_toolUses r)" using assms(2) by simp
  have tl: "ls_toolLoops (take_answer st1 r) \<ge> maxToolIterations E"
    using auto_compact_sel(1) [OF assms(4)] assms(3) by (simp add: take_answer_def)
  have "\<exists>err. after_tools E (take_answer st1 r) r = End (Finished (Some err))"
    using tl by (auto simp: after_tools_def split: option.splits)
  then obtain err where "after_tools E (take_answer st1 r) r = End (Finished (Some err))" by blast
  with l2 assms(4-6) show ?thesis
    by (simp add: loop_step_def after_call_def after_answer_def)
qed

definition calling :: stream where
  "calling = [(mk_event EvToolUse)\<lparr>ev_ToolUse := Some (demo_use ''a'' ''Write'')\<rparr>, mk_event EvDone]"

definition busy_call :: "nat engine_env" where
  "busy_call = (steady_call calling)\<lparr>en_tools := Some (\<lambda>uses n. ((NewStreamingToolExecutor (\<lambda>_. True) 10, []), n + 10))\<rparr>"

definition busy_env :: "(nat \<times> call_step list) loop_env" where
  "busy_env = \<lparr>lp_call = noted busy_call, lp_autoCompact = False, lp_getenv = (\<lambda>k. ''''), lp_prompt = '''',
     lp_transcript = '''', lp_tools = [], lp_system = '''', lp_caching = False, lp_budget = 0, lp_maxIterations = 0,
     lp_hooks = [], lp_run_hook = None, lp_hooks_disabled = False\<rparr>"

definition tired_state :: loop_state where
  "tired_state = (initial_state [mk_message RoleUser [TextPart ''hi'']] ''m'')\<lparr>ls_toolLoops := 8\<rparr>"

lemma calling_result:
  obtains r where "consumeModelStream calling = Inr r" "sr_toolUses r = [demo_use ''a'' ''Write'']"
  by (simp add: consumeModelStream_def calling_def mk_event_def empty_result_def push_part_def)

theorem tools_run_beyond_the_limit_witness:
  "last (snd (snd (snd (loop_step busy_env tired_state (0, []))))) = RanTools [demo_use ''a'' ''Write'']"
proof -
  obtain r where r: "consumeModelStream calling = Inr r" "sr_toolUses r = [demo_use ''a'' ''Write'']" by (rule calling_result)
  let ?r = "r\<lparr>sr_exec := Some (NewStreamingToolExecutor (\<lambda>_. True) 10)\<rparr>"
  have c: "streamAndConsume (lp_call busy_env) (build_request busy_env tired_state) (0, [])
      = (Ret ?r, sr_events r, (11, [AskedModel, RanTools [demo_use ''a'' ''Write'']]))"
    using r by (simp add: streamAndConsume_def retries_of_def busy_env_def busy_call_def noted_def steady_call_def calm_policy_def
        attempt_once_def finish_stream_def)
  have a: "auto_compact busy_env tired_state (0, []) = (tired_state, [], (0, []))"
    by (simp add: auto_compact_def busy_env_def)
  have l: "maxToolIterations busy_env \<le> ls_toolLoops tired_state" "lp_call busy_env = noted busy_call" "en_tools busy_call \<noteq> None"
    by (simp_all add: maxToolIterations_def busy_env_def tired_state_def busy_call_def)
  have "sr_toolUses ?r \<noteq> []" using r(2) by simp
  from tools_run_beyond_the_limit [OF l(2,3,1) a c this] r(2) show ?thesis by auto
qed

section \<open>The model after a fallback\<close>

lemma fallback_loop_label:
  "fallback_loop raw clock req i cs st = (Some fb, st') \<Longrightarrow> \<exists>j. fb_model fb = ''fallback-client-'' @ itoa (int j)"
proof (induction cs arbitrary: i st)
  case (Cons mc cs)
  show ?case
  proof (cases mc)
    case None
    with Cons show ?thesis by simp
  next
    case (Some c)
    obtain ok st1 where o: "(case c of BreakerClient name b inner \<Rightarrow> breaker_CanExecute clock b st
        | RawClient _ \<Rightarrow> (True, st)) = (ok, st1)" by fastforce
    obtain r st2 where r: "client_Stream raw clock c req st1 = (r, st2)" by fastforce
    show ?thesis
      using Cons.prems o r Some Cons.IH [of "Suc i" st1] Cons.IH [of "Suc i" st2]
      by (cases r) (auto split: if_splits)
  qed
qed simp

lemma tryFallback_label:
  assumes "tryFallback raw clock cfg req err st = (Some fb, st')" and "fc_FallbackModel cfg = ''''"
  shows "\<exists>j. fb_model fb = ''fallback-client-'' @ itoa (int j)"
  using assms fallback_loop_label by (auto simp: tryFallback_def split: if_splits prod.splits)

lemma finish_turn_model: "finish_turn E st reason s = (Next st', evs, s') \<Longrightarrow> ls_model st' = ls_model st"
  using finish_turn_next by fastforce

lemma after_text_model: "after_text E st reason s = (Next st', evs, s') \<Longrightarrow> ls_model st' = ls_model st"
  using finish_turn_model by (fastforce simp: after_text_def split: if_splits prod.splits option.splits)

lemma after_answer_model:
  assumes "after_answer E st r s = (Next st', evs, s')"
  shows "ls_model st' = (if sr_activeModel r \<noteq> '''' then sr_activeModel r else ls_model st)"
proof (cases "sr_toolUses r = []")
  case True
  then obtain evs' where "after_text E (take_answer st r) (sr_stopReason r) s = (Next st', evs', s')"
    using assms by (auto simp: after_answer_def split: prod.splits)
  from after_text_model [OF this] show ?thesis by (simp add: take_answer_def)
next
  case False
  then have "after_tools E (take_answer st r) r = Next st'" using assms by (auto simp: after_answer_def)
  then show ?thesis by (auto simp: after_tools_def take_answer_def split: option.splits if_splits)
qed

text \<open>
  After a fallback to another provider's client, the label made for the event,
  \<open>fallback-client-i\<close>, is taken for the name of a model: the next request of the turn, which goes to
  the first client again, asks for a model of that name.
\<close>

theorem fallback_label_becomes_model:
  assumes "lp_call E = runtime_env raw clock cfg policy fa rnd wait tools" and "\<not> lp_autoCompact E"
    and "engine_Stream raw clock (fc_Client cfg) (build_request E st) s = (Inl err, s1)" and "isImmediateFallbackError err"
    and "tryFallback raw clock cfg (build_request E st) err s1 = (Some fb, s2)" and "fc_FallbackModel cfg = ''''"
    and "loop_step E st s = (Next st', evs, s3)" and "consumeModelStream (fb_stream fb) = Inr r"
  shows "\<exists>j. rq_Model (build_request E st') = ''fallback-client-'' @ itoa (int j)"
proof -
  obtain j where j: "fb_model fb = ''fallback-client-'' @ itoa (int j)" using tryFallback_label [OF assms(5,6)] by blast
  let ?C = "runtime_env raw clock cfg policy fa rnd wait tools"
  let ?r = "r\<lparr>sr_activeModel := fb_model fb\<rparr>"
  have "streamAndConsume ?C (build_request E st) s = attempt_once ?C (build_request E st) n again s \<longrightarrow>
      streamAndConsume ?C (build_request E st) s = runFallback ?C (build_request E st) fb s2" for n again
    using assms(3-5) by (simp add: attempt_once_def fallback_or_def runtime_env_def)
  moreover have "\<exists>n again. streamAndConsume ?C (build_request E st) s = attempt_once ?C (build_request E st) n again s"
    unfolding streamAndConsume_def by (cases "retries_of ?C") (metis attempt_loop.simps)+
  ultimately have sc: "streamAndConsume ?C (build_request E st) s
      = send_first [ModelFallback (rq_Model (build_request E st)) (fb_model fb)] (finish_stream ?C ?r s2)"
    using assms(8) by (auto simp: runFallback_def)
  have "\<exists>r1 evs1 t. finish_stream ?C ?r s2 = (Ret r1, evs1, t) \<and> sr_activeModel r1 = fb_model fb"
    by (auto simp: finish_stream_def split: option.splits prod.splits)
  then obtain r1 evs1 t where f: "finish_stream ?C ?r s2 = (Ret r1, evs1, t)" "sr_activeModel r1 = fb_model fb" by blast
  have a: "auto_compact E st s = (st, [], s)" using assms(2) by (simp add: auto_compact_def)
  obtain evs2 where "after_answer E st r1 t = (Next st', evs2, s3)"
    using assms(1,7) a sc f(1) by (auto simp: loop_step_def after_call_def send_first_def split: prod.splits)
  from after_answer_model [OF this] f(2) j have "ls_model st' = fb_model fb" by (simp split: if_splits)
  with j show ?thesis by (intro exI [of _ j]) (simp add: build_request_def)
qed

definition spent_provider :: "nat provider" where
  "spent_provider i req w = (if i = 0 then Inl (NewProviderError QuotaExceeded ''a'' 429 ''quota'') else Inr calling, w + 1)"

definition spare_config :: fallback_config where
  "spare_config = \<lparr>fc_Client = DirectClient (RawClient 0), fc_FallbackModel = '''', fc_FallbackClients = [Some (RawClient 1)]\<rparr>"

definition spare_env :: "nat engine_net loop_env" where
  "spare_env = \<lparr>lp_call = runtime_env spent_provider (\<lambda>w. (int w, w)) spare_config calm_policy 0 (\<lambda>n. 0) (\<lambda>d w. (None, w))
       (Some (\<lambda>uses w. ((NewStreamingToolExecutor (\<lambda>_. True) 10, []), w))),
     lp_autoCompact = False, lp_getenv = (\<lambda>k. ''''), lp_prompt = '''',
     lp_transcript = '''', lp_tools = [], lp_system = '''', lp_caching = False, lp_budget = 0, lp_maxIterations = 0,
     lp_hooks = [], lp_run_hook = None, lp_hooks_disabled = False\<rparr>"

theorem fallback_label_becomes_model_witness:
  "\<exists>st' evs s' j. loop_step spare_env (initial_state [mk_message RoleUser [TextPart ''hi'']] ''m'')
      \<lparr>en_net = fresh_net 0, en_pool = NewProviderPool [] [] RoundRobin\<rparr> = (Next st', evs, s')
    \<and> rq_Model (build_request spare_env st') = ''fallback-client-'' @ itoa (int j)"
proof -
  let ?st = "initial_state [mk_message RoleUser [TextPart ''hi'']] ''m''"
  let ?s = "\<lparr>en_net = fresh_net (0::nat), en_pool = NewProviderPool [] [] RoundRobin\<rparr>"
  let ?err = "NewProviderError QuotaExceeded ''a'' 429 ''quota''"
  let ?req = "build_request spare_env ?st"
  obtain r where r: "consumeModelStream calling = Inr r" "sr_toolUses r = [demo_use ''a'' ''Write'']" by (rule calling_result)
  have lc: "lp_call spare_env = runtime_env spent_provider (\<lambda>w. (int w, w)) spare_config calm_policy 0 (\<lambda>n. 0)
       (\<lambda>d w. (None, w)) (Some (\<lambda>uses w. ((NewStreamingToolExecutor (\<lambda>_. True) 10, []), w)))" "\<not> lp_autoCompact spare_env"
    by (simp_all add: spare_env_def)
  have q: "as_provider ?err = Some QuotaExceeded"
    by (simp add: as_provider_def errors_as_def NewProviderError_def)
  then have im: "isImmediateFallbackError ?err" "fallback_eligible ?err"
    by (simp_all add: isImmediateFallbackError_def fallback_eligible_def)
  obtain s1 where s1: "engine_Stream spent_provider (\<lambda>w. (int w, w)) (fc_Client spare_config) ?req ?s = (Inl ?err, s1)"
    by (simp add: engine_Stream_def spare_config_def spent_provider_def)
  obtain fb s2 where fb: "tryFallback spent_provider (\<lambda>w. (int w, w)) spare_config ?req ?err s1 = (Some fb, s2)"
      "fb_stream fb = calling"
    using im(2) by (simp add: tryFallback_def spare_config_def spent_provider_def)
  have "\<exists>st' evs s'. loop_step spare_env ?st ?s = (Next st', evs, s')"
    using s1 fb im r
    by (simp add: loop_step_def auto_compact_def lc streamAndConsume_def retries_of_def runtime_env_def calm_policy_def
        attempt_once_def fallback_or_def runFallback_def finish_stream_def on_world_def send_first_def
        after_call_def after_answer_def after_tools_def take_answer_def maxToolIterations_def spare_env_def initial_state_def
        split: prod.splits)
  then obtain st' evs s' where st': "loop_step spare_env ?st ?s = (Next st', evs, s')" by blast
  have "fc_FallbackModel spare_config = ''''" by (simp add: spare_config_def)
  moreover have "consumeModelStream (fb_stream fb) = Inr r" using fb(2) r(1) by simp
  ultimately obtain j where "rq_Model (build_request spare_env st') = ''fallback-client-'' @ itoa (int j)"
    using fallback_label_becomes_model [OF lc s1 im(1) fb(1) _ st'] by blast
  with st' show ?thesis by (intro exI conjI)
qed

end
