(* ===== verification/Engine_History.thy ===== *)
theory Engine_History
  imports Engine_Loop "HOL-Library.Sublist"
begin

text \<open>
  The shape of the conversation during a turn: the provider accepts a request only when every message
  with tool calls is followed by the message with their results, and no result stands elsewhere.

  \<open>exchange\<close> is the abstract history, \<open>proto\<close> its protocol; a pass of \<open>loop_step\<close> refines a
  sequence of protocol steps. What a model call must guarantee for that is the contract \<open>clean_call\<close>.
\<close>

section \<open>Exchanges\<close>

definition tool_uses :: "message \<Rightarrow> string list" where
  "tool_uses m = map p_ToolUseID (filter (\<lambda>p. p_Type p = ''tool_use'') (m_Content m))"

definition results :: "message \<Rightarrow> string list" where
  "results m = map p_ToolUseID (filter is_result (m_Content m))"

definition standalone :: "message \<Rightarrow> bool" where
  "standalone m \<longleftrightarrow> tool_uses m = [] \<and> results m = []"

text \<open>\<open>r\<close> is the message of results for the calls of \<open>a\<close>.\<close>

definition replies :: "message \<Rightarrow> message \<Rightarrow> bool" where
  "replies a r \<longleftrightarrow> m_Role a = RoleAssistant \<and> results a = [] \<and> tool_uses a \<noteq> []
    \<and> m_Role r = RoleUser \<and> tool_uses r = [] \<and> results r = tool_uses a"

fun paired :: "message list \<Rightarrow> bool" where
  "paired [] \<longleftrightarrow> True"
| "paired [m] \<longleftrightarrow> standalone m"
| "paired (m # r # ms) \<longleftrightarrow> (if tool_uses m = [] then results m = [] \<and> paired (r # ms) else replies m r \<and> paired ms)"

datatype exchange = Say message | Call message message

fun msgs_of :: "exchange \<Rightarrow> message list" where
  "msgs_of (Say m) = [m]"
| "msgs_of (Call a r) = [a, r]"

fun ok_exchange :: "exchange \<Rightarrow> bool" where
  "ok_exchange (Say m) \<longleftrightarrow> standalone m"
| "ok_exchange (Call a r) \<longleftrightarrow> replies a r"

definition flatten :: "exchange list \<Rightarrow> message list" where
  "flatten es = concat (map msgs_of es)"

abbreviation ok :: "exchange list \<Rightarrow> bool" where
  "ok \<equiv> list_all ok_exchange"

lemma flatten_simps [simp]: "flatten [] = []" "flatten (e # es) = msgs_of e @ flatten es"
    "flatten (es @ fs) = flatten es @ flatten fs"
  by (simp_all add: flatten_def)

lemma flatten_eq_Nil [simp]: "flatten es = [] \<longleftrightarrow> es = []"
  by (cases es; cases "hd es") auto

lemma paired_Cons: "standalone m \<Longrightarrow> paired (m # ms) = paired ms"
  by (cases ms) (auto simp: standalone_def)

lemma paired_flatten: "ok es \<Longrightarrow> paired (flatten es)"
proof (induction es)
  case (Cons e es)
  then show ?case by (cases e) (auto simp: paired_Cons replies_def)
qed simp

lemma paired_exchanges: "paired h \<Longrightarrow> \<exists>es. h = flatten es \<and> ok es"
proof (induction h rule: paired.induct)
  case 1
  show ?case by (intro exI [of _ "[]"]) simp
next
  case (2 m)
  then show ?case by (intro exI [of _ "[Say m]"]) simp
next
  case (3 m r ms)
  show ?case
  proof (cases "tool_uses m = []")
    case True
    with "3.prems" have p: "results m = []" "paired (r # ms)" by simp_all
    with 3(1) True obtain es where "r # ms = flatten es" "ok es" by auto
    with True p(1) show ?thesis by (intro exI [of _ "Say m # es"]) (simp add: standalone_def)
  next
    case False
    with 3 obtain es where "ms = flatten es" "ok es" by auto
    with False 3 show ?thesis by (intro exI [of _ "Call m r # es"]) simp
  qed
qed

text \<open>The paired histories are those made of exchanges.\<close>

lemma paired_iff: "paired h \<longleftrightarrow> (\<exists>es. h = flatten es \<and> ok es)"
  using paired_flatten paired_exchanges by blast

text \<open>A cut before a message without results does not split an exchange.\<close>

lemma flatten_cut:
  assumes "flatten es = xs @ m # ys" and "ok es" and "results m = []"
  shows "\<exists>us vs. es = us @ vs \<and> xs = flatten us \<and> m # ys = flatten vs"
  using assms
proof (induction es arbitrary: xs)
  case (Cons e es)
  show ?case
  proof (cases xs)
    case Nil
    with Cons.prems show ?thesis by (intro exI [of _ "[]"] exI [of _ "e # es"]) simp
  next
    case (Cons x xs')
    note xs = this
    have rec: ?thesis if "xs = msgs_of e @ zs" for zs
    proof -
      have "flatten es = zs @ m # ys" using Cons.prems(1) that by simp
      from Cons.IH [OF this _ Cons.prems(3)] Cons.prems(2) obtain us vs
        where "es = us @ vs" "zs = flatten us" "m # ys = flatten vs" by auto
      then show ?thesis using that by (intro exI [of _ "e # us"] exI [of _ vs]) simp
    qed
    show ?thesis
    proof (cases e)
      case (Say s)
      with Cons.prems(1) xs show ?thesis by (intro rec [of xs']) simp
    next
      case (Call a r)
      have "xs' \<noteq> []"
      proof
        assume "xs' = []"
        then have "m = r" using Cons.prems(1) xs Call by simp
        with Cons.prems(2,3) Call show False by (simp add: replies_def)
      qed
      then obtain y zs where "xs' = y # zs" by (cases xs') auto
      with Cons.prems(1) xs Call show ?thesis by (intro rec [of zs]) simp
    qed
  qed
qed simp

text \<open>The last exchange, read off the last message.\<close>

lemma flatten_last:
  assumes "ok es" and "flatten es \<noteq> []"
  obtains (say) us m where "es = us @ [Say m]" "standalone m" "last (flatten es) = m"
  | (call) us a r where "es = us @ [Call a r]" "replies a r" "last (flatten es) = r"
proof -
  have ne: "es \<noteq> []" using assms(2) by auto
  then have "es = butlast es @ [last es]" by simp
  then obtain us e where e: "es = us @ [e]" by blast
  with assms(1) have k: "ok_exchange e" by simp
  show thesis
  proof (cases e)
    case (Say m)
    from say [of us m] Say e k show thesis by simp
  next
    case (Call a r)
    from call [of us a r] Call e k show thesis by simp
  qed
qed

section \<open>The protocol\<close>

fun strip_exchange :: "exchange \<Rightarrow> exchange" where
  "strip_exchange (Say m) = Say (strip_message m)"
| "strip_exchange (Call a r) = Call (strip_message a) (strip_message r)"

text \<open>A run of exchanges of the history, perhaps with its images replaced by markers.\<close>

definition piece :: "exchange list \<Rightarrow> exchange list \<Rightarrow> bool" where
  "piece es xs \<longleftrightarrow> (\<exists>ys. sublist ys es \<and> (xs = ys \<or> xs = map strip_exchange ys))"

text \<open>A turn appends whole exchanges, or forgets all but pieces of the history behind a boundary and
  a summary.\<close>

inductive proto :: "exchange list \<Rightarrow> exchange list \<Rightarrow> bool" where
  add: "ok_exchange e \<Longrightarrow> proto es (es @ [e])"
| forget: "standalone b \<Longrightarrow> standalone s \<Longrightarrow> piece es xs \<Longrightarrow> piece es ys
    \<Longrightarrow> proto es (Say b # Say s # xs @ ys)"

lemma strip_types: "map p_Type (filter is_result (map strip_block ps)) = map p_Type (filter is_result ps)
   \<and> map p_ToolUseID (filter is_result (map strip_block ps)) = map p_ToolUseID (filter is_result ps)
   \<and> map p_ToolUseID (filter (\<lambda>p. p_Type p = ''tool_use'') (map strip_block ps))
     = map p_ToolUseID (filter (\<lambda>p. p_Type p = ''tool_use'') ps)"
  by (induction ps) (auto simp: strip_block_def is_result_def part_defs)

lemma strip_ids [simp]: "results (strip_message m) = results m" "tool_uses (strip_message m) = tool_uses m"
  using strip_types [of "m_Content m"] by (auto simp: results_def tool_uses_def strip_message_def)

lemma strip_exchange_ok [simp]: "ok_exchange (strip_exchange e) = ok_exchange e"
  by (cases e) (simp_all add: standalone_def replies_def)

lemma flatten_strip: "flatten (map strip_exchange es) = map strip_message (flatten es)"
proof (induction es)
  case (Cons e es)
  then show ?case by (cases e) simp_all
qed simp

lemma piece_ok: "piece es xs \<Longrightarrow> ok es \<Longrightarrow> ok xs"
  unfolding piece_def sublist_def by (auto simp: list.pred_map comp_def)

lemma piece_Nil [simp]: "piece es []"
  unfolding piece_def by (intro exI [of _ "[]"]) simp

lemma proto_ok: "proto es es' \<Longrightarrow> ok es \<Longrightarrow> ok es'"
  by (induction rule: proto.induct) (auto dest: piece_ok)

lemma protos_ok: "proto\<^sup>*\<^sup>* es es' \<Longrightarrow> ok es \<Longrightarrow> ok es'"
  by (induction rule: rtranclp_induct) (auto dest: proto_ok)

section \<open>Compaction keeps exchanges whole\<close>

text \<open>A message of results that carries nothing but results and context, and is no boundary.\<close>

definition tidy :: "message \<Rightarrow> bool" where
  "tidy m \<longleftrightarrow> (results m = [] \<or> isToolResultOnlyMessage m \<and> \<not> IsCompactBoundary m)"

lemma results_is_Nil: "results m = [] \<longleftrightarrow> \<not> containsToolResult m"
  by (auto simp: results_def containsToolResult_def is_result_def list_ex_iff filter_empty_conv)

lemma tool_uses_is_Nil: "tool_uses m = [] \<longleftrightarrow> \<not> containsToolUse m"
  by (auto simp: tool_uses_def containsToolUse_def list_ex_iff filter_empty_conv)

lemma tidy_strip_id: "tidy m \<Longrightarrow> results m \<noteq> [] \<Longrightarrow> strip_message m = m"
  by (auto simp: tidy_def strip_message_def isToolResultOnlyMessage_def list_all_iff list_ex_iff is_media_def)

lemma tidy_strip: "tidy m \<Longrightarrow> tidy (strip_message m)"
  by (cases "results m = []") (simp add: tidy_def, simp add: tidy_strip_id)

lemma standalone_tidy: "standalone m \<Longrightarrow> tidy m"
  by (simp add: standalone_def tidy_def)

lemma after_boundary_suffix:
  assumes "ok es" and "list_all tidy (flatten es)"
  shows "\<exists>us vs. es = us @ vs \<and> GetMessagesAfterCompactBoundary (flatten es) = flatten vs \<and> (es \<noteq> [] \<longrightarrow> vs \<noteq> [])"
  using after_boundary_cases [of "flatten es"]
proof (elim disjE exE conjE)
  assume "GetMessagesAfterCompactBoundary (flatten es) = flatten es"
  then show ?thesis by (intro exI [of _ "[]"] exI [of _ es]) simp
next
  fix pre b post
  assume f: "flatten es = pre @ b # post" "IsCompactBoundary b"
    and g: "GetMessagesAfterCompactBoundary (flatten es) = b # post"
  have "tidy b" using assms(2) f(1) by simp
  then have "results b = []" using f(2) by (auto simp: tidy_def)
  from flatten_cut [OF f(1) assms(1) this] g obtain us vs
    where "es = us @ vs" "GetMessagesAfterCompactBoundary (flatten es) = flatten vs" "b # post = flatten vs" by metis
  then show ?thesis by (intro exI [of _ us] exI [of _ vs]) auto
qed

text \<open>What a compaction preserves is a run of exchanges at the end.\<close>

lemma preserved_suffix:
  assumes "ok vs" and "GetMessagesAfterCompactBoundary msgs = flatten vs"
  shows "\<exists>us ws. vs = us @ ws \<and> snd (splitMessagesForCompaction msgs) = flatten ws
    \<and> (vs \<noteq> [] \<and> m_Role (last (flatten vs)) = RoleUser \<longrightarrow> ws \<noteq> [])"
proof (cases "flatten vs = []")
  case True
  then show ?thesis by (intro exI [of _ vs] exI [of _ "[]"]) (simp add: splitMessagesForCompaction_def assms(2))
next
  case False
  from assms(1) False show ?thesis
  proof (cases rule: flatten_last)
    case (say us m)
    have c: "\<not> containsToolResult m" using say(2) by (simp add: standalone_def results_is_Nil)
    have f: "flatten vs = flatten us @ [m]" using say(1) by simp
    show ?thesis
    proof (cases "m_Role m = RoleUser")
      case True
      then have "preservedTailCount (flatten vs) = 1" using c by (simp add: preservedTailCount_def f)
      then have "snd (splitMessagesForCompaction msgs) = [m]"
        using assms(2) by (auto simp: splitMessagesForCompaction_def f Let_def)
      then show ?thesis using say(1) by (intro exI [of _ us] exI [of _ "[Say m]"]) simp
    next
      case no: False
      then have "preservedTailCount (flatten vs) = 0" by (simp add: preservedTailCount_def f)
      then show ?thesis using assms(2) no
        by (intro exI [of _ vs] exI [of _ "[]"]) (simp add: splitMessagesForCompaction_def Let_def f)
    qed
  next
    case (call us a r)
    have f: "flatten vs = flatten us @ [a, r]" using call(1) by simp
    have "m_Role r = RoleUser" "containsToolResult r" "m_Role a = RoleAssistant" "containsToolUse a"
      using call(2) results_is_Nil [of r] tool_uses_is_Nil [of a] by (auto simp: replies_def)
    then have "preservedTailCount (flatten vs) = 2" by (simp add: preservedTailCount_def f nth_append)
    then have "snd (splitMessagesForCompaction msgs) = [a, r]"
      using assms(2) by (auto simp: splitMessagesForCompaction_def f Let_def)
    then show ?thesis using call(1) by (intro exI [of _ us] exI [of _ "[Call a r]"]) simp
  qed
qed

lemma sublist_suffix: "sublist ws (us @ vs @ ws)"
  by (rule suffix_imp_sublist) (simp add: suffix_def)

lemma compaction_pieces:
  assumes "CompactConversation call req w = (Inr res, w')" and "cq_Messages req = flatten es"
    and "ok es" and "list_all tidy (flatten es)"
  shows "\<exists>us ws. es = us @ ws \<and> compacted_history res
      = flatten (Say (cr_Boundary res) # Say (CreateSummaryMessage (cr_Summary res) (cq_TranscriptPath req)) # map strip_exchange ws)
    \<and> standalone (cr_Boundary res) \<and> (es \<noteq> [] \<and> m_Role (last (flatten es)) = RoleUser \<longrightarrow> ws \<noteq> [])"
proof -
  obtain us vs where u: "es = us @ vs" "GetMessagesAfterCompactBoundary (flatten es) = flatten vs" "es \<noteq> [] \<longrightarrow> vs \<noteq> []"
    using after_boundary_suffix [OF assms(3,4)] by blast
  then have "ok vs" using assms(3) by simp
  from preserved_suffix [OF this u(2)] obtain us' ws
    where w: "vs = us' @ ws" "snd (splitMessagesForCompaction (flatten es)) = flatten ws"
      "vs \<noteq> [] \<and> m_Role (last (flatten vs)) = RoleUser \<longrightarrow> ws \<noteq> []" by blast
  have "es \<noteq> [] \<and> m_Role (last (flatten es)) = RoleUser \<longrightarrow> ws \<noteq> []" using w(3) u(1,3) by auto
  note kept = this
  have s: "cr_SummaryMessages res = CreateSummaryMessage (cr_Summary res) (cq_TranscriptPath req)
        # map strip_message (flatten ws)"
    and b: "cr_Boundary res = CreateBoundaryMessage TriggerAuto (EstimateTokens (cq_Messages req)) (int (length (cq_Messages req)))"
    using CompactConversation_success [OF assms(1)] by (simp_all add: assms(2) w(2))
  have "standalone (cr_Boundary res)"
    unfolding b by (simp add: standalone_def CreateBoundaryMessage_def results_def tool_uses_def is_result_def part_defs)
  with u(1) w(1) s kept show ?thesis
    by (intro exI [of _ "us @ us'"] exI [of _ ws]) (simp add: compacted_history_def flatten_strip)
qed

lemma summary_standalone: "standalone (CreateSummaryMessage s t)"
  by (simp add: standalone_def CreateSummaryMessage_def Let_def results_def tool_uses_def is_result_def part_defs)

section \<open>Emergency compaction\<close>

lemma prompt_no_results: "tidy m \<Longrightarrow> is_prompt m \<Longrightarrow> results m = []"
  by (auto simp: tidy_def is_prompt_def)

lemma recovery_tail_cases:
  assumes "findContinuationRecoveryTail msgs \<noteq> []"
  obtains xs m ys where "msgs = xs @ m # ys" "findContinuationRecoveryTail msgs = m # ys" "is_prompt m"
proof -
  let ?P = "\<lambda>m. \<not> is_prompt m"
  obtain m zs where d: "dropWhile ?P (rev msgs) = m # zs"
    using assms by (cases "dropWhile ?P (rev msgs)") (auto simp: findContinuationRecoveryTail_def)
  have "rev msgs = takeWhile ?P (rev msgs) @ m # zs" using takeWhile_dropWhile_id [of ?P "rev msgs"] d by simp
  then have "msgs = rev zs @ m # rev (takeWhile ?P (rev msgs))"
    by (metis append_Cons append_assoc rev.simps(2) rev_append rev_rev_ident append_Nil)
  moreover have "is_prompt m" using d hd_dropWhile [of ?P "rev msgs"] by force
  ultimately show thesis using d by (intro that) (simp_all add: findContinuationRecoveryTail_def)
qed

lemma flatten_prefix:
  assumes "ok vs" and "ok ts" and "flatten ts = flatten vs @ rest"
  shows "\<exists>us ts'. ts = us @ ts' \<and> rest = flatten ts'"
  using assms
proof (induction vs arbitrary: ts)
  case Nil
  then show ?case by (intro exI [of _ "[]"] exI [of _ ts]) simp
next
  case (Cons v vs)
  obtain t ts' where t: "ts = t # ts'" using Cons.prems(3) by (cases ts; cases v) auto
  have "t = v"
    using Cons.prems t by (cases t; cases v) (auto simp: standalone_def replies_def)
  then have "flatten ts' = flatten vs @ rest" using Cons.prems(3) t by simp
  from Cons.IH [OF _ _ this] Cons.prems(1,2) t obtain us zs where "ts' = us @ zs" "rest = flatten zs" by auto
  then show ?case using t by (intro exI [of _ "t # us"] exI [of _ zs]) simp
qed

lemma appended_tail:
  assumes "ok hs" and "ok ts" and "flatten ts = m # ys" and "results m = []"
  shows "\<exists>us ts'. ts = us @ ts' \<and> appendMissingMessageTail (flatten hs) (flatten ts) = flatten (hs @ ts')"
proof -
  let ?h = "flatten hs" and ?t = "flatten ts"
  let ?P = "\<lambda>k. drop (length ?h - k) ?h = take k ?t"
  let ?ks = "rev [1..<Suc (min (length ?h) (length ?t))]"
  show ?thesis
  proof (cases "find ?P ?ks")
    case None
    then show ?thesis using assms(3)
      by (intro exI [of _ "[]"] exI [of _ ts]) (simp add: appendMissingMessageTail_def del: upt_Suc)
  next
    case (Some k)
    then have k: "?P k" "k \<in> set ?ks" unfolding find_Some_iff by (auto simp del: upt_Suc set_rev)
    then have "0 < k" by (auto simp del: upt_Suc)
    then obtain j where j: "k = Suc j" by (cases k) auto
    have "?h = take (length ?h - k) ?h @ take k ?t" using k(1) by (metis append_take_drop_id)
    then have "?h = take (length ?h - k) ?h @ m # take j ys" using j assms(3) by simp
    from flatten_cut [OF this assms(1,4)] obtain us vs where v: "hs = us @ vs" "m # take j ys = flatten vs" by blast
    have "flatten ts = flatten vs @ drop k ?t" using v(2) j assms(3) append_take_drop_id [of k ?t] by simp
    from flatten_prefix [OF _ assms(2) this] v(1) assms(1) obtain us' ts'
      where "ts = us' @ ts'" "drop k ?t = flatten ts'" by auto
    moreover have "appendMissingMessageTail ?h ?t = ?h @ drop k ?t"
      using Some assms(3) by (simp add: appendMissingMessageTail_def del: upt_Suc)
    ultimately show ?thesis by auto
  qed
qed

lemma auto_compact_success:
  assumes "AutoCompactIfNeeded ge call p ms m tp tr s = (Inr (Some res), t, s')"
  shows "\<exists>req s0. CompactConversation call req s0 = (Inr res, s') \<and> cq_Messages req = ms"
  using assms
  by (fastforce simp: AutoCompactIfNeeded_def Let_def split: option.splits if_splits prod.splits sum.splits)

section \<open>A pass refines the protocol\<close>

text \<open>What an answer must be: an assistant message whose tool calls are those of the answer, with
  one result per call when they have run.\<close>

definition clean_answer :: "stream_result \<Rightarrow> bool" where
  "clean_answer r \<longleftrightarrow> m_Role (sr_assistant r) = RoleAssistant \<and> results (sr_assistant r) = []
    \<and> tool_uses (sr_assistant r) = map tu_ID (sr_toolUses r)
    \<and> (\<forall>x. sr_exec r = Some x \<longrightarrow> answers (sr_toolUses r) (BuildToolResultMessage x) \<and> tidy (BuildToolResultMessage x))"

text \<open>\<open>h\<close> is the tidy history of the exchanges \<open>es\<close>.\<close>

definition shows_history :: "exchange list \<Rightarrow> message list \<Rightarrow> bool" where
  "shows_history es h \<longleftrightarrow> h = flatten es \<and> ok es \<and> list_all tidy h"

lemma shows_add:
  assumes "shows_history es h" and "ok_exchange e" and "list_all tidy (msgs_of e)"
  shows "proto es (es @ [e]) \<and> shows_history (es @ [e]) (h @ msgs_of e)"
  using assms by (auto simp: shows_history_def proto.add)

lemma shows_says:
  assumes "shows_history es h" and "list_all standalone ms"
  shows "\<exists>es'. proto\<^sup>*\<^sup>* es es' \<and> shows_history es' (h @ ms)"
  using assms
proof (induction ms arbitrary: es h)
  case (Cons m ms)
  have "proto es (es @ [Say m]) \<and> shows_history (es @ [Say m]) (h @ [m])"
    using shows_add [OF Cons.prems(1), of "Say m"] Cons.prems(2) standalone_tidy by simp
  then show ?case using Cons.IH [of "es @ [Say m]" "h @ [m]"] Cons.prems(2) by (auto intro: converse_rtranclp_into_rtranclp)
qed auto

lemma shows_forget:
  assumes "shows_history es h" and "standalone b" and "standalone s" and "piece es xs" and "piece es ys"
  shows "proto es (Say b # Say s # xs @ ys) \<and> shows_history (Say b # Say s # xs @ ys) (flatten (Say b # Say s # xs @ ys))"
proof -
  have t: "list_all tidy (flatten zs)" if "piece es zs" for zs
    using that assms(1) unfolding piece_def sublist_def shows_history_def
    by (auto simp: flatten_strip list_all_iff ball_Un intro!: tidy_strip)
  have "ok (Say b # Say s # xs @ ys)" using assms piece_ok by (auto simp: shows_history_def)
  moreover have "list_all tidy (flatten (Say b # Say s # xs @ ys))"
    using t [OF assms(4)] t [OF assms(5)] assms(2,3) standalone_tidy by simp
  ultimately show ?thesis using assms(2-5) by (simp add: shows_history_def proto.forget)
qed

lemma piece_strip_suffix: "es = us @ ws \<Longrightarrow> piece es (map strip_exchange ws)"
  unfolding piece_def using sublist_suffix [of ws us "[]"] by auto

lemma piece_suffix: "es = us @ ws \<Longrightarrow> piece es ws"
  unfolding piece_def using sublist_suffix [of ws us "[]"] by auto

lemma auto_compact_refines:
  assumes "auto_compact E st s = (st1, evs, s1)" and "shows_history es (ls_history st)"
  shows "\<exists>es'. proto\<^sup>*\<^sup>* es es' \<and> shows_history es' (ls_history st1)"
proof (rule auto_compact_cases [of E st s])
  fix t evs' s1'
  assume "auto_compact E st s = (st\<lparr>ls_tracking := t\<rparr>, evs', s1')"
  with assms show ?thesis by auto
next
  fix t res evs' s0 s1'
  assume a: "auto_compact E st s = (account E res (st\<lparr>ls_tracking := the t, ls_history := compacted_history res\<rparr>), evs', s1')"
    and c: "AutoCompactIfNeeded (lp_getenv E) (en_stream (lp_call E)) (lp_prompt E) (ls_history st)
         (ls_model st) (lp_transcript E) (Some (ls_tracking st)) s = (Inr (Some res), t, s0)"
  have h: "ls_history st = flatten es" "ok es" "list_all tidy (flatten es)" using assms(2) by (auto simp: shows_history_def)
  obtain req w where q: "CompactConversation (en_stream (lp_call E)) req w = (Inr res, s0)" "cq_Messages req = flatten es"
    using auto_compact_success [OF c] h(1) by auto
  obtain us ws where w: "es = us @ ws" "compacted_history res
      = flatten (Say (cr_Boundary res) # Say (CreateSummaryMessage (cr_Summary res) (cq_TranscriptPath req)) # map strip_exchange ws)"
      "standalone (cr_Boundary res)"
    using compaction_pieces [OF q h(2,3)] by blast
  from shows_forget [OF assms(2) w(3) summary_standalone piece_strip_suffix [OF w(1)] piece_Nil] w(2) a assms(1)
  show ?thesis by auto
qed

lemma recovered_refines:
  assumes "CompactConversation call req w = (Inr res, w')" and "cq_Messages req = h" and "shows_history es h"
  shows "\<exists>es'. proto\<^sup>*\<^sup>* es es' \<and> shows_history es' (recovered_history transient h res)"
proof -
  have h: "h = flatten es" "ok es" "list_all tidy (flatten es)" using assms(3) by (auto simp: shows_history_def)
  obtain us ws where w: "es = us @ ws" "compacted_history res
      = flatten (Say (cr_Boundary res) # Say (CreateSummaryMessage (cr_Summary res) (cq_TranscriptPath req)) # map strip_exchange ws)"
      "standalone (cr_Boundary res)" "es \<noteq> [] \<and> m_Role (last (flatten es)) = RoleUser \<longrightarrow> ws \<noteq> []"
    using compaction_pieces [OF assms(1) _ h(2,3)] assms(2) h(1) by metis
  define B where "B = Say (cr_Boundary res)"
  define S where "S = Say (CreateSummaryMessage (cr_Summary res) (cq_TranscriptPath req))"
  have "standalone (CreateSummaryMessage (cr_Summary res) (cq_TranscriptPath req))" by (rule summary_standalone)
  note forget = shows_forget [OF assms(3) w(3) this, folded B_def S_def]
  have c: "compacted_history res = flatten (B # S # map strip_exchange ws)" using w(2) by (simp add: B_def S_def)
  have plain: ?thesis if "recovered_history transient h res = compacted_history res"
    using forget [OF piece_strip_suffix [OF w(1)] piece_Nil] that c by auto
  show ?thesis
  proof (cases "transient = []")
    case False
    define T where "T = findContinuationRecoveryTail h"
    have r: "recovered_history transient h res = appendMissingMessageTail (compacted_history res) T"
      using False by (simp add: recovered_history_def T_def)
    show ?thesis
    proof (cases "T = []")
      case True
      with r show ?thesis by (intro plain) (simp add: appendMissingMessageTail_def)
    next
      case False
      then obtain xs m ys where t: "h = xs @ m # ys" "T = m # ys" "is_prompt m"
        unfolding T_def by (rule recovery_tail_cases)
      have m: "results m = []" using t h by (intro prompt_no_results) (auto simp: list_all_iff)
      obtain vs ts where v: "es = vs @ ts" "m # ys = flatten ts" using flatten_cut [OF _ h(2) m] t(1) h(1) by metis
      have "ok (B # S # map strip_exchange ws)" using forget [OF piece_strip_suffix [OF w(1)] piece_Nil]
        by (simp add: shows_history_def)
      from appended_tail [OF this _ v(2) [symmetric] m] v(1) h(2) obtain us' ts' where u: "ts = us' @ ts'"
          "appendMissingMessageTail (compacted_history res) T = flatten ((B # S # map strip_exchange ws) @ ts')"
        using t(2) v(2) c by auto
      have "piece es ts'" using piece_suffix [of es "vs @ us'" ts'] v(1) u(1) by simp
      from forget [OF piece_strip_suffix [OF w(1)] this] u(2) r show ?thesis by auto
    qed
  next
    case empty: True
    show ?thesis
    proof (cases "h \<noteq> [] \<and> is_prompt (last h) \<and> \<not> containsExactMessage (compacted_history res) (last h)")
      case False
      have "findLatestContinuationUserMessage h = Some (last h)" if "h \<noteq> []" "is_prompt (last h)"
        using that by (cases h rule: rev_cases) (simp_all add: findLatestContinuationUserMessage_def)
      moreover have "findLatestContinuationUserMessage [] = None" by (simp add: findLatestContinuationUserMessage_def)
      ultimately show ?thesis using False empty
        by (intro plain, cases "h = []") (auto simp: recovered_history_def Let_def split: option.splits)
    next
      case True
      then have f: "findLatestContinuationUserMessage h = Some (last h)"
        by (cases h rule: rev_cases) (simp_all add: findLatestContinuationUserMessage_def)
      have "tidy (last h)" using True h by (auto simp: list_all_iff)
      then have nr: "results (last h) = []" using True by (auto intro: prompt_no_results)
      have "flatten es \<noteq> []" using True h(1) by simp
      with h(2) have "\<exists>vs. es = vs @ [Say (last h)]"
      proof (cases rule: flatten_last)
        case (call us a r)
        with nr h(1) show ?thesis by (auto simp: replies_def)
      qed (use h(1) in auto)
      then obtain vs where v: "es = vs @ [Say (last h)]" ..
      have "ws \<noteq> []" using w(4) True h(1) by (auto simp: is_prompt_def)
      then obtain ws' where ws: "ws = ws' @ [Say (last h)]" using w(1) v by (cases ws rule: rev_cases) auto
      have r: "recovered_history transient h res = (let g = compacted_history res in
          (if is_prompt (last g) then butlast g else g) @ [last h])"
        using True f empty by (simp add: recovered_history_def Let_def)
      have tail: "piece es [Say (last h)]" using piece_suffix v by blast
      have front: "piece es (map strip_exchange ws')"
        unfolding piece_def using w(1) ws by (intro exI [of _ ws']) (auto simp: sublist_def)
      show ?thesis
      proof (cases "is_prompt (strip_message (last h))")
        case True
        then have "recovered_history transient h res = flatten (B # S # map strip_exchange ws' @ [Say (last h)])"
          by (simp add: r c ws B_def S_def butlast_append)
        with forget [OF front tail] show ?thesis by auto
      next
        case False
        then have "recovered_history transient h res = flatten (B # S # map strip_exchange ws @ [Say (last h)])"
          by (simp add: r c ws B_def S_def)
        with forget [OF piece_strip_suffix [OF w(1)] tail] show ?thesis by auto
      qed
    qed
  qed
qed

lemma feedback_standalone: "list_all standalone (stop_feedback rs)"
  by (auto simp: stop_feedback_def list_all_iff standalone_def results_def tool_uses_def is_result_def part_defs)

locale clean_call =
  fixes E :: "'s loop_env"
  assumes answer: "streamAndConsume (lp_call E) req s = (Ret r, evs, s') \<Longrightarrow> clean_answer r"
begin

lemma answer_refines:
  assumes "clean_answer r" and "shows_history es (ls_history st)"
    and "after_answer E st r s = (Next st', evs, s')"
  shows "\<exists>es'. proto\<^sup>*\<^sup>* es es' \<and> shows_history es' (ls_history st')"
proof (cases "sr_toolUses r = []")
  case True
  then have say: "standalone (sr_assistant r)" using assms(1) by (simp add: clean_answer_def standalone_def)
  define ms where "ms = (if m_Content (sr_assistant r) \<noteq> [] then [sr_assistant r] else [])"
  have h: "ls_history (take_answer st r) = ls_history st @ ms" by (simp add: take_answer_def ms_def)
  obtain evs' where t: "after_text E (take_answer st r) (sr_stopReason r) s = (Next st', evs', s')"
    using assms(3) True by (auto simp: after_answer_def Let_def split: prod.splits)
  have "\<exists>fs. ls_history st' = ls_history (take_answer st r) @ fs \<and> list_all standalone fs"
    using t feedback_standalone
    by (fastforce simp: after_text_def finish_turn_def split: if_splits prod.splits option.splits)
  then obtain fs where "ls_history st' = ls_history st @ ms @ fs" "list_all standalone (ms @ fs)"
    using h say by (auto simp: ms_def)
  with shows_says [OF assms(2)] show ?thesis by metis
next
  case False
  then have t: "after_tools E (take_answer st r) r = Next st'"
    using assms(3) by (auto simp: after_answer_def Let_def split: prod.splits)
  then obtain x where x: "sr_exec r = Some x" "ls_history st' = ls_history (take_answer st r) @ [BuildToolResultMessage x]"
    by (auto simp: after_tools_def split: option.splits if_splits)
  have c: "replies (sr_assistant r) (BuildToolResultMessage x)" "tidy (BuildToolResultMessage x)"
    using assms(1) x(1) False
    by (auto simp: clean_answer_def answers_def replies_def results_def tool_uses_def list_all_iff filter_empty_conv)
  then have ne: "m_Content (sr_assistant r) \<noteq> []" by (auto simp: replies_def tool_uses_def)
  have "tidy (sr_assistant r)" using c(1) by (simp add: replies_def tidy_def)
  with shows_add [OF assms(2), of "Call (sr_assistant r) (BuildToolResultMessage x)"] c x(2) ne
  show ?thesis by (auto simp: take_answer_def)
qed

lemma step_refines:
  assumes "shows_history es (ls_history st)" and "loop_step E st s = (Next st', evs, s')"
  shows "\<exists>es'. proto\<^sup>*\<^sup>* es es' \<and> shows_history es' (ls_history st')"
proof -
  obtain st1 evs1 s1 where a: "auto_compact E st s = (st1, evs1, s1)" by (metis prod.exhaust)
  obtain res evs2 s2 where c: "streamAndConsume (lp_call E) (build_request E st1) s1 = (res, evs2, s2)"
    by (metis prod.exhaust)
  obtain evs3 where d: "after_call E st1 res s2 = (Next st', evs3, s')"
    using assms(2) a c by (auto simp: loop_step_def split: prod.splits)
  obtain es1 where e: "proto\<^sup>*\<^sup>* es es1" "shows_history es1 (ls_history st1)"
    using auto_compact_refines [OF a assms(1)] by blast
  have "\<exists>es'. proto\<^sup>*\<^sup>* es1 es' \<and> shows_history es' (ls_history st')"
  proof (cases res)
    case (Ret r)
    with answer_refines [OF answer e(2)] c d show ?thesis by (simp add: after_call_def)
  next
    case (Err err)
    then obtain req w res' w' where "CompactConversation (en_stream (lp_call E)) req w = (Inr res', w')"
        "cq_Messages req = ls_history st1" "ls_history st' = recovered_history (ls_transient st1) (ls_history st1) res'"
      using d by (fastforce simp: after_call_def after_error_def split: if_splits prod.splits sum.splits)
    with recovered_refines [OF _ _ e(2)] show ?thesis by metis
  next
    case Panicked
    with d show ?thesis by (simp add: after_call_def)
  qed
  with e(1) show ?thesis by (meson rtranclp_trans)
qed

end

section \<open>The engine's calls are clean\<close>

text \<open>What reading a stream keeps: the answer is an assistant message whose calls are collected.\<close>

definition reads_clean :: "stream_result \<Rightarrow> bool" where
  "reads_clean r \<longleftrightarrow> m_Role (sr_assistant r) = RoleAssistant \<and> results (sr_assistant r) = []
    \<and> tool_uses (sr_assistant r) = map tu_ID (sr_toolUses r) \<and> sr_exec r = None"

lemma push_clean: "reads_clean r \<Longrightarrow> p_Type p \<noteq> ''tool_result'' \<Longrightarrow> p_Type p \<noteq> ''tool_use'' \<Longrightarrow> reads_clean (push_part p ev r)"
  by (simp add: reads_clean_def push_part_def results_def tool_uses_def is_result_def)

lemma push_call_clean:
  "reads_clean r \<Longrightarrow> reads_clean (push_part (ToolUsePart (tu_ID u) n i) ev (r\<lparr>sr_toolUses := sr_toolUses r @ [u]\<rparr>))"
  by (simp add: reads_clean_def push_part_def results_def tool_uses_def is_result_def ToolUsePart_def empty_part_def)

lemma consume_clean: "consume_loop str r = Inr r' \<Longrightarrow> reads_clean r \<Longrightarrow> reads_clean r'"
proof (induction str arbitrary: r)
  case (Cons it str)
  show ?case
  proof (cases "ev_Type it")
    case EvTextDelta
    with Cons push_clean [OF Cons.prems(2), of "TextPart (ev_Text it)"] show ?thesis by (simp add: part_defs)
  next
    case EvThinking
    with Cons push_clean [OF Cons.prems(2), of "ThinkingPart (ev_Thinking it) (ev_Signature it)"] show ?thesis
      by (simp add: part_defs)
  next
    case EvToolUse
    with Cons push_call_clean [OF Cons.prems(2)] show ?thesis by (auto split: option.splits)
  next
    case EvDone
    have "reads_clean (r\<lparr>sr_stopReason := a, sr_usage := b, sr_responseID := c\<rparr>)" for a b c
      using Cons.prems(2) by (simp add: reads_clean_def)
    with Cons EvDone show ?thesis by simp
  qed (use Cons in auto)
qed simp

lemma model_clean: "consumeModelStream str = Inr r \<Longrightarrow> reads_clean r"
  unfolding consumeModelStream_def
  by (erule consume_clean) (simp add: reads_clean_def empty_result_def results_def tool_uses_def)

definition gives_clean :: "'s act \<Rightarrow> bool" where
  "gives_clean a \<longleftrightarrow> (\<forall>s r. fst (a s) = Ret r \<longrightarrow> clean_answer r)"

locale tidy_tools =
  fixes E :: "'s engine_env"
  assumes tools: "en_tools E = Some run \<Longrightarrow> answers uses (BuildToolResultMessage (fst (fst (run uses s))))
    \<and> tidy (BuildToolResultMessage (fst (fst (run uses s))))"
begin

lemma finish_clean:
  assumes "reads_clean r"
  shows "gives_clean (finish_stream E r)"
proof -
  have "clean_answer r'" if "fst (finish_stream E r s) = Ret r'" for s r'
  proof (cases "en_tools E")
    case None
    with that assms show ?thesis by (auto simp: finish_stream_def clean_answer_def reads_clean_def)
  next
    case (Some run)
    obtain x fin s1 where x: "run (sr_toolUses r) s = ((x, fin), s1)" by (metis prod.exhaust)
    then have "r' = r\<lparr>sr_exec := Some x\<rparr>" using that Some by (simp add: finish_stream_def)
    with tools [OF Some, of "sr_toolUses r" s] x assms show ?thesis by (simp add: clean_answer_def reads_clean_def)
  qed
  then show ?thesis by (simp add: gives_clean_def)
qed

lemma runFallback_clean: "gives_clean (runFallback E req fb)"
proof (cases "consumeModelStream (fb_stream fb)")
  case (Inr r)
  then have "reads_clean (r\<lparr>sr_activeModel := fb_model fb\<rparr>)" using model_clean by (simp add: reads_clean_def)
  from finish_clean [OF this] Inr show ?thesis by (simp add: gives_clean_def runFallback_def send_first_def)
qed (simp add: gives_clean_def runFallback_def)

lemma fallback_or_clean: "gives_clean next \<Longrightarrow> gives_clean (fallback_or E req err next)"
  using runFallback_clean by (auto simp: gives_clean_def fallback_or_def split: prod.splits option.splits)

lemma exhausted_clean: "gives_clean (exhausted E req err)"
  unfolding exhausted_def by (rule fallback_or_clean) (simp add: gives_clean_def give_up_def)

lemma wait_retry_clean: "gives_clean next \<Longrightarrow> gives_clean (wait_retry E err n next)"
  by (auto simp: gives_clean_def wait_retry_def send_first_def split: prod.splits option.splits)

lemma attempt_once_clean:
  assumes "\<And>err. gives_clean (again err)"
  shows "gives_clean (attempt_once E req n again)"
proof -
  have up: "gives_clean (fallback_or E req err (give_up t err))" for err t
    by (rule fallback_or_clean) (simp add: gives_clean_def give_up_def)
  have retry: "gives_clean (retry_or_fallback E req n err (again err))" for err
    using assms fallback_or_clean [OF assms] by (simp add: retry_or_fallback_def)
  have "clean_answer r" if r: "fst (attempt_once E req n again s) = Ret r" for s r
  proof -
    obtain c s1 where c: "en_stream E req s = (c, s1)" by fastforce
    have D: "gives_clean a \<Longrightarrow> fst (a s') = Ret r \<Longrightarrow> clean_answer r" for a :: "'s act" and s'
      by (simp add: gives_clean_def)
    show ?thesis
    proof (cases c)
      case (Inl err)
      with r c show ?thesis using D [OF up] D [OF exhausted_clean] D [OF retry]
        by (auto simp: attempt_once_def split: if_splits)
    next
      case (Inr str)
      with r c show ?thesis using D [OF finish_clean [OF model_clean]] D [OF retry]
        by (auto simp: attempt_once_def split: if_splits sum.splits)
    qed
  qed
  then show ?thesis by (simp add: gives_clean_def)
qed

lemma attempt_loop_clean: "gives_clean (attempt_loop E req k)"
proof (induction k)
  case 0
  have "gives_clean (attempt_once E req (int (retries_of E)) (exhausted E req))"
    by (rule attempt_once_clean) (rule exhausted_clean)
  then show ?case by (simp add: gives_clean_def)
next
  case (Suc k)
  have "gives_clean (attempt_once E req (int (retries_of E) - int (Suc k))
      (\<lambda>err. wait_retry E err (int (retries_of E) - int (Suc k)) (attempt_loop E req k)))"
    by (rule attempt_once_clean) (rule wait_retry_clean [OF Suc.IH])
  then show ?case by (simp add: gives_clean_def)
qed

lemma call_clean: "streamAndConsume E req s = (Ret r, evs, s') \<Longrightarrow> clean_answer r"
  using attempt_loop_clean [of req "retries_of E"] by (simp add: gives_clean_def streamAndConsume_def) (metis fst_conv)

end

section \<open>Tools that return text\<close>

text \<open>A result without media; its context, if a hook adds one, is not the marker of a boundary.\<close>

definition text_result :: "tool_result \<Rightarrow> bool" where
  "text_result r \<longleftrightarrow> toolResultImage r = None \<and> toolResultImages r = [] \<and> toolResultDocument r = None
    \<and> toolAdditionalContext r \<noteq> ''[compact_boundary]''"

definition text_tools :: "(tool_use \<Rightarrow> 's \<Rightarrow> (tool_result \<times> go_error option) \<times> 's) \<Rightarrow> bool" where
  "text_tools exec \<longleftrightarrow> (\<forall>u s. text_result (fst (fst (exec u s))))"

abbreviation text_results :: "executor \<Rightarrow> bool" where
  "text_results x \<equiv> list_all (\<lambda>t. text_result (st_result t)) (x_tools x)"

lemma text_result_no_meta: "r_Meta r = [] \<Longrightarrow> text_result r"
  by (simp add: text_result_def toolResultImage_def toolResultImages_def toolResultDocument_def toolAdditionalContext_def)

lemma text_set_tool:
  assumes "list_all P xs" and "i < length xs \<Longrightarrow> P t"
  shows "list_all P (xs[i := t])"
  using assms by (cases "i < length xs") (auto simp: list_all_length nth_list_update)

lemma text_at: "text_results x \<Longrightarrow> i < length (x_tools x) \<Longrightarrow> text_result (st_result (x_tools x ! i))"
  by (simp add: list_all_length)

lemma close_done_text: "text_results x \<Longrightarrow> text_results (close_done i x)"
  by (auto simp: close_done_def intro!: text_set_tool text_at)

lemma start_tool_text: "text_results x \<Longrightarrow> text_results (start_tool i x)"
  by (auto simp: start_tool_def intro!: text_set_tool text_at)

lemma cancel_queued_text: "text_results x \<Longrightarrow> text_results (cancel_queued i x)"
  by (auto simp: cancel_queued_def Let_def error_result_def intro!: close_done_text text_set_tool text_result_no_meta)

lemma process_loop_text: "text_results x \<Longrightarrow> text_results (process_loop is x)"
  by (induction "is" x rule: process_loop.induct) (auto simp: Let_def start_tool_text cancel_queued_text)

lemma AddTool_text: "text_results x \<Longrightarrow> text_results (AddTool u x)"
  by (auto simp: AddTool_def processQueue_def intro!: process_loop_text text_result_no_meta)

lemma finish_text:
  assumes "text_results x" and "text_result r"
  shows "text_results (runTool_finish i r e x)"
proof -
  have "text_result (fst (cascade_result sc r e))" for sc
    using assms(2) by (simp add: cascade_result_def error_result_def text_result_no_meta)
  with assms show ?thesis
    by (auto simp: runTool_finish_def Let_def split: prod.splits intro!: close_done_text text_set_tool) (metis fst_conv)
qed

lemma drain_text: "text_tools exec \<Longrightarrow> text_results x \<Longrightarrow> text_results (fst (drain exec n x s))"
proof (induction exec n x s rule: drain.induct)
  case (2 exec n x s)
  show ?case
  proof (cases "x_threads x")
    case Nil
    have "text_results (runTool_notify x)" using 2(4) by (simp add: runTool_notify_def processQueue_def process_loop_text)
    with 2 Nil show ?thesis by auto
  next
    case (Cons i ixs)
    obtain r e s1 where e: "exec (st_toolUse (x_tools x ! i)) s = ((r, e), s1)" by (metis prod.exhaust)
    have "text_result r" using 2(3) e unfolding text_tools_def by (metis fst_conv)
    with 2 Cons e show ?thesis by (simp add: finish_text)
  qed
qed simp

lemma collect_text: "list_all (\<lambda>t. text_result (st_result t)) ts \<Longrightarrow> list_all (\<lambda>t. text_result (st_result t)) (snd (collect_loop ts))"
  by (induction ts) (auto simp: Let_def split: prod.splits)

lemma run_tools_text:
  assumes "text_tools exec"
  shows "text_results (fst (fst (run_tools safeName m exec uses s)))"
proof -
  have add: "text_results (fold AddTool us x)" if "text_results x" for us x
    using that by (induction us arbitrary: x) (simp_all add: AddTool_text)
  define x0 where "x0 = fold AddTool uses (NewStreamingToolExecutor safeName m)"
  have x: "text_results (fst (drain exec (load x0) x0 s))"
    using drain_text [OF assms] add [of "NewStreamingToolExecutor safeName m" uses]
    by (simp add: x0_def NewStreamingToolExecutor_def)
  then have "text_results (snd (CollectResults (fst (drain exec (load x0) x0 s))))"
    using collect_text [OF x] by (auto simp: CollectResults_def split: prod.splits)
  with x show ?thesis
    by (auto simp: run_tools_def Let_def AwaitAll_def x0_def [symmetric] split: prod.splits option.splits)
qed

lemma text_outcome_parts:
  assumes "text_result (o_result oc)" and "p \<in> set (outcome_parts oc)"
  shows "(p_Type p = ''text'' \<and> p_IsMeta p \<or> p_Type p = ''tool_result'')
    \<and> \<not> (p_Type p = ''text'' \<and> p_Text p = ''[compact_boundary]'')"
  using assms by (auto simp: outcome_parts_def Let_def text_result_def part_defs split: prod.splits if_splits)

lemma text_message_tidy:
  assumes "text_results x"
  shows "tidy (BuildToolResultMessage x)"
proof -
  have p: "(p_Type p = ''text'' \<and> p_IsMeta p \<or> p_Type p = ''tool_result'')
      \<and> \<not> (p_Type p = ''text'' \<and> p_Text p = ''[compact_boundary]'')"
    if "p \<in> set (m_Content (BuildToolResultMessage x))" for p
  proof -
    from that obtain t where t: "t \<in> set (x_tools x)" "p \<in> set (outcome_parts (outcome_of t))"
      by (auto simp: BuildToolResultMessage_def split: if_splits)
    have "text_result (o_result (outcome_of t))" using assms t(1) by (auto simp: outcome_of_def list_all_iff)
    from text_outcome_parts [OF this t(2)] show ?thesis .
  qed
  show ?thesis
    using p by (auto simp: tidy_def isToolResultOnlyMessage_def IsCompactBoundary_def results_def list_all_iff list_ex_iff)
qed

text \<open>An engine whose tools return text is clean.\<close>

definition with_tools ::
    "'s engine_env \<Rightarrow> (string \<Rightarrow> bool) \<Rightarrow> int \<Rightarrow> (tool_use \<Rightarrow> 's \<Rightarrow> (tool_result \<times> go_error option) \<times> 's) \<Rightarrow> 's engine_env" where
  "with_tools C safeName m exec = C\<lparr>en_tools := Some (run_tools safeName m exec)\<rparr>"

lemma text_tools_tidy:
  assumes "text_tools exec"
  shows "tidy_tools (with_tools C safeName m exec)"
proof
  fix run uses s
  assume "en_tools (with_tools C safeName m exec) = Some run"
  then have run: "run = run_tools safeName m exec" by (simp add: with_tools_def)
  have "tools_awaited safeName m uses (fst (run uses s))" unfolding run by (rule run_tools_awaited)
  then have "answers uses (BuildToolResultMessage (fst (fst (run uses s))))"
    using awaited_answers(1) by (metis prod.collapse)
  then show "answers uses (BuildToolResultMessage (fst (fst (run uses s)))) \<and> tidy (BuildToolResultMessage (fst (fst (run uses s))))"
    using text_message_tidy [OF run_tools_text [OF assms]] unfolding run by blast
qed

text \<open>Tools seen through their text only.\<close>

definition text_of :: "(tool_use \<Rightarrow> 's \<Rightarrow> (tool_result \<times> go_error option) \<times> 's) \<Rightarrow> tool_use \<Rightarrow> 's \<Rightarrow> (tool_result \<times> go_error option) \<times> 's" where
  "text_of exec u s = (case exec u s of ((r, e), s1) \<Rightarrow> ((r\<lparr>r_Meta := []\<rparr>, e), s1))"

lemma text_of_text: "text_tools (text_of exec)"
  by (auto simp: text_tools_def text_of_def text_result_no_meta split: prod.splits)

interpretation text_engine: tidy_tools "with_tools C safeName m (text_of exec)"
  by (rule text_tools_tidy [OF text_of_text])

lemma clean_loop:
  assumes "tidy_tools (lp_call E)"
  shows "clean_call E"
  by unfold_locales (rule tidy_tools.call_clean [OF assms])

interpretation text_loop: clean_call "E\<lparr>lp_call := with_tools C safeName m (text_of exec)\<rparr>"
  by (rule clean_loop) (simp add: text_engine.tidy_tools_axioms)

section \<open>A whole turn\<close>

text \<open>The states a turn passes through.\<close>

inductive turn :: "'s loop_env \<Rightarrow> loop_state \<times> 's \<Rightarrow> loop_state \<times> 's \<Rightarrow> bool" for E where
  pass: "loop_step E st s = (Next st', evs, s') \<Longrightarrow> turn E (st, s) (st', s')"

inductive_cases turnE: "turn E (st, s) q"

text \<open>Every pass of \<open>run_loop\<close> starts in such a state.\<close>

lemma run_loop_turn:
  "run_loop n E st s = Some (e, evs, s') \<Longrightarrow>
    \<exists>st1 s1 evs1. (turn E)\<^sup>*\<^sup>* (st, s) (st1, s1) \<and> loop_step E st1 s1 = (End e, evs1, s')"
proof (induction n E st s arbitrary: evs rule: run_loop.induct)
  case (2 n E st s)
  obtain x evs1 s1 where l: "loop_step E st s = (x, evs1, s1)" by (metis prod.exhaust)
  show ?case
  proof (cases x)
    case (Next st1)
    with 2 l obtain evs2 where "run_loop n E st1 s1 = Some (e, evs2, s')"
      by (auto split: option.splits prod.splits)
    with 2(1) [OF l [symmetric] Next refl] obtain st2 s2 evs3
      where "(turn E)\<^sup>*\<^sup>* (st1, s1) (st2, s2)" "loop_step E st2 s2 = (End e, evs3, s')" by blast
    then show ?thesis using turn.pass [OF l [unfolded Next]] by (blast intro: converse_rtranclp_into_rtranclp)
  next
    case (End e')
    with 2(2) l show ?thesis by auto
  qed
qed simp

lemma step_transient:
  assumes "loop_step E st s = (Next st', evs, s')" and "list_all standalone (ls_transient st)"
  shows "list_all standalone (ls_transient st')"
proof -
  have say: "standalone (mk_message RoleUser [TextPart t])" for t
    by (simp add: standalone_def results_def tool_uses_def is_result_def part_defs)
  have keep: "ls_transient (fst (auto_compact E st s)) = ls_transient st"
    using auto_compact_sel(4) [of E st s] by (metis prod.collapse)
  have "list_all standalone (ls_transient st2)"
    if "after_call E st1 res s1 = (Next st2, e, s2)" "list_all standalone (ls_transient st1)" for st1 res s1 st2 e s2
    using that say
    by (auto simp: after_call_def after_answer_def after_text_def finish_turn_def after_tools_def after_error_def
        take_answer_def Let_def split: ending.splits if_splits prod.splits option.splits sum.splits)
  with assms keep show ?thesis by (auto simp: loop_step_def Let_def split: prod.splits)
qed

context clean_call begin

lemma turn_refines:
  assumes "(turn E)\<^sup>*\<^sup>* p q" and "shows_history es (ls_history (fst p))" and "list_all standalone (ls_transient (fst p))"
  shows "\<exists>es'. proto\<^sup>*\<^sup>* es es' \<and> shows_history es' (ls_history (fst q)) \<and> list_all standalone (ls_transient (fst q))"
  using assms(1)
proof (induction rule: rtranclp_induct)
  case base
  then show ?case using assms(2,3) by blast
next
  case (step q r)
  from step.hyps(2) obtain st s st' s' evs where q: "q = (st, s)" "r = (st', s')" "loop_step E st s = (Next st', evs, s')"
    by (cases rule: turn.cases) auto
  with step.IH obtain es1 where e: "proto\<^sup>*\<^sup>* es es1" "shows_history es1 (ls_history st)" "list_all standalone (ls_transient st)"
    by auto
  from step_refines [OF e(2) q(3)] step_transient [OF q(3) e(3)] e(1) q(2) show ?case
    by (metis fst_conv rtranclp_trans)
qed

lemma request_paired:
  assumes "shows_history es (ls_history st)" and "list_all standalone (ls_transient st)"
  shows "paired (rq_Messages (build_request E (fst (auto_compact E st s))))"
proof -
  obtain st1 evs s1 where a: "auto_compact E st s = (st1, evs, s1)" by (metis prod.exhaust)
  obtain es1 where "shows_history es1 (ls_history st1)" using auto_compact_refines [OF a assms(1)] by blast
  moreover have "ls_transient st1 = ls_transient st" using auto_compact_sel(4) [OF a] .
  ultimately obtain es2 where "shows_history es2 (ls_history st1 @ ls_transient st1)"
    using shows_says assms(2) by metis
  then show ?thesis using a by (auto simp: build_request_def shows_history_def paired_flatten)
qed

end

lemma fresh_state: "ls_history (initial_state h model) = h" "ls_transient (initial_state h model) = []"
  by (simp_all add: initial_state_def)

text \<open>
  C3: Whatever the model, the hooks, the user's budget and the compactions do during a turn, every
  request sent to the provider is well formed: each message with tool calls is directly followed by
  the message holding exactly their results in order, and no result stands anywhere else. The tools
  must return text and the turn must start from such a history.
\<close>

theorem every_request_is_paired:
  assumes "en_tools (lp_call E) = Some (run_tools safeName m exec)" and "text_tools exec"
    and "paired h" and "list_all tidy h"
    and "(turn E)\<^sup>*\<^sup>* (initial_state h model, s) (st, s1)"
  shows "paired (rq_Messages (build_request E (fst (auto_compact E st s1))))"
proof -
  have "lp_call E = with_tools (lp_call E) safeName m exec" using assms(1) by (simp add: with_tools_def)
  then have C: "clean_call E" using text_tools_tidy [OF assms(2)] by (metis clean_loop)
  obtain es where "shows_history es h" using assms(3,4) paired_exchanges by (auto simp: shows_history_def)
  with clean_call.turn_refines [OF C assms(5)] clean_call.request_paired [OF C]
  show ?thesis by (auto simp: fresh_state)
qed

text \<open>A model that asks for one tool on every call; the tool answers with a text.\<close>

definition ok_tool :: "tool_use \<Rightarrow> nat \<Rightarrow> (tool_result \<times> go_error option) \<times> nat" where
  "ok_tool u n = ((\<lparr>r_Output = ''ok'', r_Error = '''', r_Meta = []\<rparr>, None), n + 1)"

definition worker_env :: "nat loop_env" where
  "worker_env = (steady_env calling)\<lparr>lp_call := with_tools (steady_call calling) (\<lambda>_. True) 10 ok_tool\<rparr>"

definition hi_history :: "message list" where
  "hi_history = [mk_message RoleUser [TextPart ''hi'']]"

definition worker_states :: "loop_state \<times> nat" where
  "worker_states = (case loop_step worker_env (initial_state hi_history ''m'') 0 of
     (Next st, _, n) \<Rightarrow> (st, n) | (_, _, n) \<Rightarrow> (initial_state hi_history ''m'', n))"

lemma worker_moves: "(case loop_step worker_env (initial_state hi_history ''m'') 0 of
     (Next st, _, n) \<Rightarrow> n = 2 \<and> length (ls_history st) = 3 | _ \<Rightarrow> False)"
  by code_simp

lemma worker_turn:
  "(turn worker_env)\<^sup>*\<^sup>* (initial_state hi_history ''m'', 0) (fst worker_states, 2)
    \<and> length (ls_history (fst worker_states)) = 3"
proof -
  obtain x evs n where l: "loop_step worker_env (initial_state hi_history ''m'') 0 = (x, evs, n)" by (metis prod.exhaust)
  with worker_moves obtain st where st: "x = Next st" "n = 2" "length (ls_history st) = 3" by (auto split: loop_next.splits)
  then have "turn worker_env (initial_state hi_history ''m'', 0) (st, 2)" using l by (auto intro: turn.pass)
  with l st show ?thesis by (auto simp: worker_states_def)
qed

lemma worker_tools: "en_tools (lp_call worker_env) = Some (run_tools (\<lambda>_. True) 10 ok_tool)" "text_tools ok_tool"
  by (simp_all add: worker_env_def with_tools_def text_tools_def ok_tool_def text_result_no_meta)

lemma hi_paired: "paired hi_history" "list_all tidy hi_history"
  by (simp_all add: hi_history_def standalone_def tidy_def results_def tool_uses_def is_result_def part_defs)

theorem every_request_is_paired_witness:
  "length (ls_history (fst worker_states)) = 3
    \<and> paired (rq_Messages (build_request worker_env (fst (auto_compact worker_env (fst worker_states) 2))))"
  using every_request_is_paired [OF worker_tools hi_paired, of "''m''" 0 "fst worker_states" 2] worker_turn by blast

text \<open>With compaction each pass still moves the history by protocol steps: it appends exchanges, or forgets
  all but pieces of them behind a boundary and a summary.\<close>

lemma turn_moves_by_exchanges:
  assumes "en_tools (lp_call E) = Some (run_tools safeName m exec)" and "text_tools exec"
    and "h = flatten es" and "list_all ok_exchange es" and "list_all tidy h"
    and "(turn E)\<^sup>*\<^sup>* (initial_state h model, s) (st, s1)"
  shows "\<exists>es'. proto\<^sup>*\<^sup>* es es' \<and> ls_history st = flatten es'"
proof -
  have "lp_call E = with_tools (lp_call E) safeName m exec" using assms(1) by (simp add: with_tools_def)
  then have C: "clean_call E" using text_tools_tidy [OF assms(2)] by (metis clean_loop)
  have "shows_history es h" using assms(3-5) by (simp add: shows_history_def)
  with clean_call.turn_refines [OF C assms(6)] show ?thesis by (auto simp: fresh_state shows_history_def)
qed

section \<open>Turns without compaction\<close>

definition answer_text :: "message \<Rightarrow> bool" where
  "answer_text a \<longleftrightarrow> m_Role a = RoleAssistant \<and> standalone a \<and> m_Content a \<noteq> []"

definition user_text :: "message \<Rightarrow> bool" where
  "user_text u \<longleftrightarrow> m_Role u = RoleUser \<and> (\<exists>t. m_Content u = [TextPart t])"

text \<open>The dialogue of a turn with \<open>k\<close> rounds of tools: rounds, texts of the model, which a cut-off, a budget
  or a stop hook lets it continue, and the feedback of stop hooks.\<close>

inductive dialogue :: "nat \<Rightarrow> exchange list \<Rightarrow> bool" where
  start: "dialogue 0 []"
| round: "dialogue k rs \<Longrightarrow> replies a r \<Longrightarrow> dialogue (Suc k) (rs @ [Call a r])"
| saying: "dialogue k rs \<Longrightarrow> answer_text a \<Longrightarrow> dialogue k (rs @ [Say a])"
| feedback: "dialogue k rs \<Longrightarrow> user_text u \<Longrightarrow> dialogue k (rs @ [Say u])"

lemma dialogue_feedback: "dialogue k rs \<Longrightarrow> list_all user_text us \<Longrightarrow> dialogue k (rs @ map Say us)"
proof (induction us rule: rev_induct)
  case (snoc u us)
  then have "dialogue k ((rs @ map Say us) @ [Say u])" by (intro dialogue.feedback) auto
  then show ?case by simp
qed simp

lemma flatten_Say: "flatten (map Say ms) = ms"
  by (induction ms) auto

lemma stop_feedback_user: "list_all user_text (stop_feedback rs)"
  by (auto simp: stop_feedback_def user_text_def list_all_iff)

definition said :: "stream_result \<Rightarrow> message list" where
  "said r = (if m_Content (sr_assistant r) \<noteq> [] then [sr_assistant r] else [])"

lemma after_text_history:
  assumes "after_text E st reason s = (Next st', evs, s')"
  shows "\<exists>us. list_all user_text us \<and> ls_history st' = ls_history st @ us \<and> ls_toolLoops st' = ls_toolLoops st"
proof -
  have "ls_toolLoops st' = ls_toolLoops st \<and>
      (ls_history st' = ls_history st \<or> (\<exists>rs. ls_history st' = ls_history st @ stop_feedback rs))"
    using assms by (auto simp: after_text_def finish_turn_def split: if_splits prod.splits option.splits)
  then show ?thesis using stop_feedback_user by (metis append_Nil2 list.pred_inject(1))
qed

lemma after_text_end:
  assumes "after_text E st reason s = (End e, evs, s')"
  shows "e = Finished None \<and> evs = [ConversationDone (ls_history st) (ls_usage st) reason]"
  using assms by (auto simp: after_text_def finish_turn_def done_event_def checkTokenBudget_def split: if_splits prod.splits option.splits)

text \<open>The state of a turn: its dialogue so far, behind the history it began with.\<close>

definition in_dialogue :: "'s loop_env \<Rightarrow> message list \<Rightarrow> loop_state \<Rightarrow> exchange list \<Rightarrow> bool" where
  "in_dialogue E h st rs \<longleftrightarrow> dialogue (ls_toolLoops st) rs \<and> ls_history st = h @ flatten rs
     \<and> ls_toolLoops st \<le> maxToolIterations E"

lemma plain_pass:
  assumes "\<not> lp_autoCompact E" and "loop_step E st s = (n, evs, s')"
  obtains res evs2 s2 evs3 where "streamAndConsume (lp_call E) (build_request E st) s = (res, evs2, s2)"
    "after_call E st res s2 = (n, evs3, s')" "evs = evs2 @ evs3"
  using assms by (auto simp: loop_step_def auto_compact_def split: prod.splits)

lemma no_recovery: "\<not> lp_autoCompact E \<Longrightarrow> after_error E st err s = (End (Finished (Some err)), [], s)"
  by (simp add: after_error_def)

context clean_call begin

lemma text_answer_said:
  "clean_answer r \<Longrightarrow> sr_toolUses r = [] \<Longrightarrow> list_all answer_text (said r)"
  by (auto simp: clean_answer_def said_def answer_text_def standalone_def)

lemma answer_dialogue:
  assumes "clean_answer r" and "in_dialogue E h st rs" and "after_answer E st r s = (Next st', evs, s')"
  shows "\<exists>rs'. in_dialogue E h st' rs'"
proof (cases "sr_toolUses r = []")
  case True
  obtain evs' where t: "after_text E (take_answer st r) (sr_stopReason r) s = (Next st', evs', s')"
    using assms(3) True by (auto simp: after_answer_def Let_def split: prod.splits)
  from after_text_history [OF this] obtain us where us: "list_all user_text us"
    "ls_history st' = ls_history st @ said r @ us" "ls_toolLoops st' = ls_toolLoops st"
    by (auto simp: take_answer_def said_def)
  have "dialogue (ls_toolLoops st) (rs @ map Say (said r))"
    using assms(2) text_answer_said [OF assms(1) True]
    by (auto simp: in_dialogue_def said_def intro: dialogue.saying)
  from dialogue_feedback [OF this us(1)] us assms(2) show ?thesis
    by (intro exI [of _ "(rs @ map Say (said r)) @ map Say us"]) (simp add: in_dialogue_def flatten_Say)
next
  case False
  then have t: "after_tools E (take_answer st r) r = Next st'"
    using assms(3) by (auto simp: after_answer_def Let_def split: prod.splits)
  then obtain x where x: "sr_exec r = Some x" "ls_history st' = ls_history (take_answer st r) @ [BuildToolResultMessage x]"
      "ls_toolLoops st' = Suc (ls_toolLoops st)" "ls_toolLoops st < maxToolIterations E"
    by (auto simp: after_tools_def take_answer_def split: option.splits if_splits)
  have c: "replies (sr_assistant r) (BuildToolResultMessage x)"
    using assms(1) x(1) False
    by (auto simp: clean_answer_def answers_def replies_def results_def tool_uses_def list_all_iff filter_empty_conv)
  then have ne: "m_Content (sr_assistant r) \<noteq> []" by (auto simp: replies_def tool_uses_def)
  from assms(2) c x ne show ?thesis
    by (intro exI [of _ "rs @ [Call (sr_assistant r) (BuildToolResultMessage x)]"])
       (auto simp: in_dialogue_def take_answer_def intro: dialogue.round)
qed

lemma step_dialogue:
  assumes "\<not> lp_autoCompact E" and "in_dialogue E h st rs" and "loop_step E st s = (Next st', evs, s')"
  shows "\<exists>rs'. in_dialogue E h st' rs'"
proof -
  from assms(1,3) obtain res evs2 s2 evs3 where c: "streamAndConsume (lp_call E) (build_request E st) s = (res, evs2, s2)"
    "after_call E st res s2 = (Next st', evs3, s')" by (rule plain_pass)
  then obtain r where "res = Ret r" "after_answer E st r s2 = (Next st', evs3, s')"
    by (auto simp: after_call_def no_recovery [OF assms(1)] split: ending.splits)
  with answer_dialogue [OF answer assms(2)] c(1) show ?thesis by simp
qed

lemma last_dialogue:
  assumes "\<not> lp_autoCompact E" and "in_dialogue E h st rs" and "loop_step E st s = (End (Finished None), evs, s')"
  shows "\<exists>fin u reason. last evs = ConversationDone (h @ flatten (rs @ map Say fin)) u reason
    \<and> length fin \<le> 1 \<and> list_all answer_text fin"
proof -
  from assms(1,3) obtain res evs2 s2 evs3 where c: "streamAndConsume (lp_call E) (build_request E st) s = (res, evs2, s2)"
    "after_call E st res s2 = (End (Finished None), evs3, s')" "evs = evs2 @ evs3" by (rule plain_pass)
  then obtain r where r: "res = Ret r" "after_answer E st r s2 = (End (Finished None), evs3, s')"
    by (auto simp: after_call_def no_recovery [OF assms(1)] split: ending.splits)
  with c(1) answer have clean: "clean_answer r" by blast
  have no: "sr_toolUses r = []"
  proof (rule ccontr)
    assume "sr_toolUses r \<noteq> []"
    with r(2) show False by (auto simp: after_answer_def after_tools_def Let_def split: option.splits if_splits)
  qed
  with r(2) obtain evs4 evs5 where "after_text E (take_answer st r) (sr_stopReason r) s2 = (End (Finished None), evs5, s')" "evs3 = evs4 @ evs5"
    by (auto simp: after_answer_def Let_def split: prod.splits)
  from this(2) after_text_end [OF this(1)] have "last evs3 = ConversationDone (ls_history st @ said r) (ls_usage (take_answer st r)) (sr_stopReason r)" "evs3 \<noteq> []"
    by (auto simp: take_answer_def said_def)
  with assms(2) text_answer_said [OF clean no] c(3) show ?thesis
    by (intro exI [of _ "said r"]) (auto simp: in_dialogue_def flatten_Say said_def)
qed

lemma run_dialogue:
  assumes "\<not> lp_autoCompact E" and "in_dialogue E h st rs" and "run_loop n E st s = Some (Finished None, evs, s')"
  shows "\<exists>k rs' fin u reason. dialogue k rs' \<and> k \<le> maxToolIterations E
    \<and> last evs = ConversationDone (h @ flatten (rs' @ map Say fin)) u reason \<and> evs \<noteq> []
    \<and> length fin \<le> 1 \<and> list_all answer_text fin"
  using assms(2,3)
proof (induction n arbitrary: st s rs evs)
  case (Suc n)
  obtain x evs1 s1 where l: "loop_step E st s = (x, evs1, s1)" by (metis prod.exhaust)
  show ?case
  proof (cases x)
    case (Next st1)
    with Suc.prems(2) l obtain evs2 where e: "run_loop n E st1 s1 = Some (Finished None, evs2, s')" "evs = evs1 @ evs2"
      by (auto split: option.splits prod.splits)
    obtain rs1 where "in_dialogue E h st1 rs1" using step_dialogue [OF assms(1) Suc.prems(1) l [unfolded Next]] by blast
    from Suc.IH [OF this e(1)] obtain k rs' fin u reason where "dialogue k rs'" "k \<le> maxToolIterations E"
      "last evs2 = ConversationDone (h @ flatten (rs' @ map Say fin)) u reason" "evs2 \<noteq> []"
      "length fin \<le> 1" "list_all answer_text fin" by blast
    moreover from this e(2) have "last evs = ConversationDone (h @ flatten (rs' @ map Say fin)) u reason" "evs \<noteq> []" by simp_all
    ultimately show ?thesis by blast
  next
    case (End y)
    with Suc.prems(2) l have y: "loop_step E st s = (End (Finished None), evs, s')" by simp
    moreover from this have "evs \<noteq> []"
      by (rule plain_pass [OF assms(1)])
         (auto simp: after_call_def no_recovery [OF assms(1)] after_answer_def after_tools_def Let_def
           split: ending.splits prod.splits option.splits if_splits dest!: after_text_end)
    moreover from Suc.prems(1) have "dialogue (ls_toolLoops st) rs" "ls_toolLoops st \<le> maxToolIterations E"
      by (simp_all add: in_dialogue_def)
    ultimately show ?thesis using last_dialogue [OF assms(1) Suc.prems(1) y] by blast
  qed
qed simp

end


text \<open>A model that greets; the tools are there and are not called.\<close>

definition greeter_env :: "nat loop_env" where
  "greeter_env = (steady_env hello)\<lparr>lp_call := with_tools (steady_call hello) (\<lambda>_. True) 10 ok_tool\<rparr>"

lemma greeter_run: "(case run_loop 1 greeter_env (initial_state hi_history ''m'') 0 of
    Some (Finished None, evs, n) \<Rightarrow> n = 1 | _ \<Rightarrow> False)"
  by code_simp


section \<open>Where it breaks\<close>

lemma assistant_last_not_preserved:
  assumes "msgs \<noteq> []" and "m_Role (last msgs) = RoleAssistant"
  shows "snd (splitMessagesForCompaction msgs) = []"
proof -
  have "GetMessagesAfterCompactBoundary msgs \<noteq> [] \<and> last (GetMessagesAfterCompactBoundary msgs) = last msgs"
    using after_boundary_cases [of msgs] assms(1) by auto
  then have "preservedTailCount (GetMessagesAfterCompactBoundary msgs) = 0"
    using assms(2) by (simp add: preservedTailCount_def)
  then show ?thesis by (simp add: splitMessagesForCompaction_def Let_def)
qed

text \<open>
  After a tool has returned an image, the message of its results counts as a turn of the user;
  when the model's next answer is cut off and the continuation finds the prompt too long, the
  emergency compaction keeps the history from that message on, without the call it answers: the next
  request has a result without a call.
\<close>

theorem image_result_is_orphaned:
  assumes "CompactConversation call req w = (Inr res, w')" and "cq_Messages req = h @ [a, r, m]"
    and "paired h" and "replies a r" and "\<not> isToolResultOnlyMessage r"
    and "standalone m" and "m_Role m = RoleAssistant" and "transient \<noteq> []"
  shows "paired (cq_Messages req) \<and> \<not> paired (recovered_history transient (cq_Messages req) res)"
proof
  from assms(3) obtain es where "h = flatten es" "ok es" using paired_exchanges by blast
  then show "paired (cq_Messages req)"
    using paired_flatten [of "es @ [Call a r, Say m]"] assms(2,4,6) by simp
next
  let ?b = "cr_Boundary res" and ?s = "CreateSummaryMessage (cr_Summary res) (cq_TranscriptPath req)"
  have "snd (splitMessagesForCompaction (cq_Messages req)) = []"
    by (rule assistant_last_not_preserved) (simp_all add: assms(2,7))
  then have c: "compacted_history res = [?b, ?s]"
    using CompactConversation_success [OF assms(1)] by (simp add: compacted_history_def)
  have "standalone ?b" using CompactConversation_success [OF assms(1)]
    by (simp add: standalone_def CreateBoundaryMessage_def results_def tool_uses_def is_result_def part_defs)
  moreover have "standalone ?s" by (rule summary_standalone)
  moreover have r: "results r \<noteq> []" "m_Role r = RoleUser" using assms(4) by (auto simp: replies_def)
  ultimately have d: "?b \<noteq> r" "?s \<noteq> r" by (auto simp: standalone_def)
  have "findContinuationRecoveryTail (cq_Messages req) = [r, m]"
    using assms(5,7) r(2) by (simp add: findContinuationRecoveryTail_def is_prompt_def assms(2))
  then have "recovered_history transient (cq_Messages req) res = [?b, ?s, r, m]"
    using d assms(8) by (simp add: recovered_history_def c appendMissingMessageTail_def numeral_2_eq_2)
  moreover have "paired [?b, ?s, r, m] = paired [r, m]"
    by (simp only: paired_Cons \<open>standalone ?b\<close> \<open>standalone ?s\<close>)
  ultimately show "\<not> paired (recovered_history transient (cq_Messages req) res)"
    using assms(4) r(1) by (simp add: replies_def)
qed

definition seen_image :: compact_request where
  "seen_image = image_turn\<lparr>cq_Messages :=
     [mk_message RoleUser [TextPart ''go''], mk_message RoleAssistant [ToolUsePart ''t1'' ''Read'' None],
      mk_message RoleUser [ToolResultPart ''t1'' ''ok'' False, ImagePart ''image/png'' ''AAAA''],
      mk_message RoleAssistant [TextPart ''half'']]\<rparr>"

theorem image_result_is_orphaned_witness:
  "\<exists>res. CompactConversation (text_client ''ok'') seen_image 0 = (Inr res, 1)
    \<and> paired (cq_Messages seen_image)
    \<and> \<not> paired (recovered_history [mk_message RoleUser [TextPart ''on'']] (cq_Messages seen_image) res)"
proof -
  have "\<not> has_prefix ''ok'' promptTooLongErrorMessage"
    by (simp add: has_prefix_def promptTooLongErrorMessage_def)
  then obtain res where res: "CompactConversation (text_client ''ok'') seen_image 0 = (Inr res, 1)"
    using text_client_compacts [of "''ok''" seen_image 0] by (auto simp: seen_image_def)
  have "paired (cq_Messages seen_image) \<and> \<not> paired (recovered_history [mk_message RoleUser [TextPart ''on'']] (cq_Messages seen_image) res)"
    by (rule image_result_is_orphaned [OF res, of "take 1 (cq_Messages seen_image)" "cq_Messages seen_image ! 1"
          "cq_Messages seen_image ! 2" "cq_Messages seen_image ! 3"])
       (simp_all add: seen_image_def standalone_def replies_def isToolResultOnlyMessage_def results_def tool_uses_def
          is_result_def part_defs)
  with res show ?thesis by blast
qed

end
