(* ===== verification/Regexp.thy ===== *)
theory Regexp
  imports Prelude
begin

text \<open>
  The part of Go's \<open>regexp\<close> package the program uses for tests (\<open>MatchString\<close>): regular expressions
  over bytes with anchors and word boundaries. \<open>matches\<close> says what an expression matches,
  \<open>regexp_match\<close> decides it by computing where a match can end, and the two agree.

  Whether a quantifier is lazy does not matter for a test. Case-insensitive expressions fold ASCII
  letters only.
\<close>

section \<open>Expressions\<close>

datatype regexp =
    Eps
  | Cls "char \<Rightarrow> bool"
  | Cat regexp regexp
  | Alt regexp regexp
  | Star regexp
  | Bol
  | Eol
  | WordB

text \<open>The classes \<open>\s\<close>, \<open>\w\<close>, \<open>\d\<close> and the dot.\<close>

definition rx_space :: "char \<Rightarrow> bool" where
  "rx_space c \<longleftrightarrow> (of_char c :: nat) \<in> {9, 10, 12, 13, 32}"

definition rx_word :: "char \<Rightarrow> bool" where
  "rx_word c \<longleftrightarrow> (let n = (of_char c :: nat) in
     (48 \<le> n \<and> n \<le> 57) \<or> (65 \<le> n \<and> n \<le> 90) \<or> (97 \<le> n \<and> n \<le> 122) \<or> n = 95)"

definition rx_dot :: "char \<Rightarrow> bool" where
  "rx_dot c \<longleftrightarrow> c \<noteq> CHR 0x0A"

definition one_of :: "string \<Rightarrow> char \<Rightarrow> bool" where
  "one_of s c \<longleftrightarrow> c \<in> set s"

definition none_of :: "string \<Rightarrow> char \<Rightarrow> bool" where
  "none_of s c \<longleftrightarrow> c \<notin> set s"

fun Lit :: "string \<Rightarrow> regexp" where
  "Lit [] = Eps"
| "Lit [c] = Cls (\<lambda>x. x = c)"
| "Lit (c # s) = Cat (Cls (\<lambda>x. x = c)) (Lit s)"

text \<open>A lower-case literal under \<open>(?i)\<close>.\<close>

fun ILit :: "string \<Rightarrow> regexp" where
  "ILit [] = Eps"
| "ILit (c # s) = Cat (Cls (\<lambda>x. lower_char x = c)) (ILit s)"

fun Seq :: "regexp list \<Rightarrow> regexp" where
  "Seq [] = Eps"
| "Seq [r] = r"
| "Seq (r # rs) = Cat r (Seq rs)"

fun Alts :: "regexp list \<Rightarrow> regexp" where
  "Alts [] = Cls (\<lambda>_. False)"
| "Alts [r] = r"
| "Alts (r # rs) = Alt r (Alts rs)"

definition Opt :: "regexp \<Rightarrow> regexp" where
  "Opt r = Alt r Eps"

definition Plus :: "regexp \<Rightarrow> regexp" where
  "Plus r = Cat r (Star r)"

section \<open>What an expression matches\<close>

text \<open>Iterations of a relation between the text before, the text matched and the text after.\<close>

inductive iterated :: "(string \<Rightarrow> string \<Rightarrow> string \<Rightarrow> bool) \<Rightarrow> string \<Rightarrow> string \<Rightarrow> string \<Rightarrow> bool" for M where
  stop: "iterated M pre [] post"
| again: "M pre u (v @ post) \<Longrightarrow> iterated M (pre @ u) v post \<Longrightarrow> iterated M pre (u @ v) post"

definition word_before :: "string \<Rightarrow> bool" where
  "word_before pre \<longleftrightarrow> pre \<noteq> [] \<and> rx_word (last pre)"

definition word_after :: "string \<Rightarrow> bool" where
  "word_after post \<longleftrightarrow> post \<noteq> [] \<and> rx_word (hd post)"

primrec matches :: "regexp \<Rightarrow> string \<Rightarrow> string \<Rightarrow> string \<Rightarrow> bool" where
  "matches Eps pre w post \<longleftrightarrow> w = []"
| "matches (Cls P) pre w post \<longleftrightarrow> (\<exists>c. w = [c] \<and> P c)"
| "matches (Cat r q) pre w post \<longleftrightarrow> (\<exists>u v. w = u @ v \<and> matches r pre u (v @ post) \<and> matches q (pre @ u) v post)"
| "matches (Alt r q) pre w post \<longleftrightarrow> matches r pre w post \<or> matches q pre w post"
| "matches (Star r) pre w post \<longleftrightarrow> iterated (matches r) pre w post"
| "matches Bol pre w post \<longleftrightarrow> w = [] \<and> pre = []"
| "matches Eol pre w post \<longleftrightarrow> w = [] \<and> post = []"
| "matches WordB pre w post \<longleftrightarrow> w = [] \<and> word_before pre \<noteq> word_after post"

section \<open>Matching\<close>

text \<open>A position: the byte before it, if any, and the rest of the text.\<close>

type_synonym pos = "char option \<times> string"

fun star_ends :: "(pos \<Rightarrow> pos list) \<Rightarrow> nat \<Rightarrow> pos \<Rightarrow> pos list" where
  "star_ends f 0 p = [p]"
| "star_ends f (Suc n) p = p # concat (map (star_ends f n) (filter (\<lambda>q. length (snd q) < length (snd p)) (f p)))"

text \<open>The positions where a match that starts at a position can end.\<close>

primrec ends :: "regexp \<Rightarrow> pos \<Rightarrow> pos list" where
  "ends Eps p = [p]"
| "ends (Cls P) p = (case snd p of [] \<Rightarrow> [] | c # t \<Rightarrow> if P c then [(Some c, t)] else [])"
| "ends (Cat r q) p = concat (map (ends q) (ends r p))"
| "ends (Alt r q) p = ends r p @ ends q p"
| "ends (Star r) p = star_ends (ends r) (length (snd p)) p"
| "ends Bol p = (if fst p = None then [p] else [])"
| "ends Eol p = (if snd p = [] then [p] else [])"
| "ends WordB p = (if (case fst p of None \<Rightarrow> False | Some c \<Rightarrow> rx_word c) \<noteq> word_after (snd p) then [p] else [])"

fun search_from :: "regexp \<Rightarrow> char option \<Rightarrow> string \<Rightarrow> bool" where
  "search_from r b [] \<longleftrightarrow> ends r (b, []) \<noteq> []"
| "search_from r b (c # s) \<longleftrightarrow> ends r (b, c # s) \<noteq> [] \<or> search_from r (Some c) s"

definition regexp_match :: "regexp \<Rightarrow> string \<Rightarrow> bool" where
  "regexp_match r s \<longleftrightarrow> search_from r None s"

section \<open>Correctness\<close>

definition byte_before :: "string \<Rightarrow> char option" where
  "byte_before pre = (if pre = [] then None else Some (last pre))"

lemma byte_before_simps [simp]: "byte_before [] = None" "byte_before (pre @ [c]) = Some c"
    "byte_before pre = None \<longleftrightarrow> pre = []"
  by (simp_all add: byte_before_def)

lemma byte_before_append: "w \<noteq> [] \<Longrightarrow> byte_before (pre @ w) = byte_before w"
  by (simp add: byte_before_def)

text \<open>\<open>q\<close> is reached from \<open>pre\<close> and \<open>s\<close> by matching a part of \<open>s\<close>.\<close>

definition reached :: "(string \<Rightarrow> string \<Rightarrow> string \<Rightarrow> bool) \<Rightarrow> string \<Rightarrow> string \<Rightarrow> pos \<Rightarrow> bool" where
  "reached M pre s q \<longleftrightarrow> (\<exists>w. s = w @ snd q \<and> M pre w (snd q) \<and> fst q = byte_before (pre @ w))"

lemma iterated_nonempty:
  "iterated M pre w post \<Longrightarrow> w \<noteq> [] \<Longrightarrow>
    \<exists>u v. u \<noteq> [] \<and> w = u @ v \<and> M pre u (v @ post) \<and> iterated M (pre @ u) v post"
proof (induction rule: iterated.induct)
  case (again pre u v post)
  show ?case
  proof (cases "u = []")
    case True
    with again show ?thesis by simp
  next
    case False
    with again show ?thesis by blast
  qed
qed simp

lemma star_ends_iff:
  assumes "\<And>pre s q. q \<in> set (f (byte_before pre, s)) \<longleftrightarrow> reached M pre s q" and "length s \<le> n"
  shows "q \<in> set (star_ends f n (byte_before pre, s)) \<longleftrightarrow> reached (iterated M) pre s q"
  using assms(2)
proof (induction n arbitrary: pre s)
  case 0
  then have "s = []" by simp
  then show ?case by (cases q) (auto simp: reached_def intro: iterated.stop)
next
  case (Suc n)
  show ?case
  proof
    assume "q \<in> set (star_ends f (Suc n) (byte_before pre, s))"
    then consider "q = (byte_before pre, s)"
      | q' where "q' \<in> set (f (byte_before pre, s))" "length (snd q') < length s" "q \<in> set (star_ends f n q')" by auto
    then show "reached (iterated M) pre s q"
    proof cases
      case 1
      then show ?thesis by (auto simp: reached_def intro: iterated.stop)
    next
      case 2
      then obtain u where u: "s = u @ snd q'" "M pre u (snd q')" "fst q' = byte_before (pre @ u)"
        using assms(1) by (auto simp: reached_def)
      have "q' = (byte_before (pre @ u), snd q')" using u(3) by (cases q') simp
      then have "reached (iterated M) (pre @ u) (snd q') q"
        using Suc.IH [of "snd q'" "pre @ u"] 2(2,3) Suc.prems by simp
      then obtain v where v: "snd q' = v @ snd q" "iterated M (pre @ u) v (snd q)" "fst q = byte_before (pre @ u @ v)"
        by (auto simp: reached_def)
      have "iterated M pre (u @ v) (snd q)" using u(2) v(1,2) by (auto intro: iterated.again)
      with u(1) v show ?thesis by (auto simp: reached_def)
    qed
  next
    assume "reached (iterated M) pre s q"
    then obtain w where w: "s = w @ snd q" "iterated M pre w (snd q)" "fst q = byte_before (pre @ w)"
      by (auto simp: reached_def)
    show "q \<in> set (star_ends f (Suc n) (byte_before pre, s))"
    proof (cases "w = []")
      case True
      with w show ?thesis by (cases q) simp
    next
      case False
      from iterated_nonempty [OF w(2) False] obtain u v
        where uv: "u \<noteq> []" "w = u @ v" "M pre u (v @ snd q)" "iterated M (pre @ u) v (snd q)" by blast
      have s: "s = u @ v @ snd q" using w(1) uv(2) by simp
      have "(byte_before (pre @ u), v @ snd q) \<in> set (f (byte_before pre, s))"
        using uv(3) s by (auto simp: assms(1) reached_def)
      moreover have "q \<in> set (star_ends f n (byte_before (pre @ u), v @ snd q))"
      proof -
        have "length (v @ snd q) \<le> n" using Suc.prems s uv(1) by (cases u) auto
        moreover have "reached (iterated M) (pre @ u) (v @ snd q) q"
          using uv(2,4) w(3) by (auto simp: reached_def)
        ultimately show ?thesis using Suc.IH by blast
      qed
      moreover have "length (v @ snd q) < length s" using s uv(1) by simp
      ultimately show ?thesis by auto
    qed
  qed
qed

lemma ends_iff: "q \<in> set (ends r (byte_before pre, s)) \<longleftrightarrow> reached (matches r) pre s q"
proof (induction r arbitrary: pre s q)
  case Eps
  then show ?case by (cases q) (auto simp: reached_def)
next
  case (Cls P)
  show ?case
  proof (cases s)
    case Nil
    then show ?thesis by (auto simp: reached_def)
  next
    case (Cons c t)
    then show ?thesis by (cases q) (auto simp: reached_def)
  qed
next
  case (Cat r1 r2)
  show ?case
  proof
    assume "q \<in> set (ends (Cat r1 r2) (byte_before pre, s))"
    then obtain q' where q': "q' \<in> set (ends r1 (byte_before pre, s))" "q \<in> set (ends r2 q')" by auto
    then obtain u where u: "s = u @ snd q'" "matches r1 pre u (snd q')" "fst q' = byte_before (pre @ u)"
      using Cat.IH(1) by (auto simp: reached_def)
    have "q' = (byte_before (pre @ u), snd q')" using u(3) by (cases q') simp
    then have "reached (matches r2) (pre @ u) (snd q') q" using q'(2) Cat.IH(2) [of q "pre @ u" "snd q'"] by simp
    then obtain v where v: "snd q' = v @ snd q" "matches r2 (pre @ u) v (snd q)" "fst q = byte_before ((pre @ u) @ v)"
      by (auto simp only: reached_def)
    have "matches (Cat r1 r2) pre (u @ v) (snd q)" using u(2) v(1,2) by auto
    with u(1) v(1,3) show "reached (matches (Cat r1 r2)) pre s q"
      unfolding reached_def by (intro exI [of _ "u @ v"]) simp
  next
    assume "reached (matches (Cat r1 r2)) pre s q"
    then obtain u v where w: "s = (u @ v) @ snd q" "matches r1 pre u (v @ snd q)" "matches r2 (pre @ u) v (snd q)"
        "fst q = byte_before (pre @ u @ v)"
      by (auto simp: reached_def)
    have "(byte_before (pre @ u), v @ snd q) \<in> set (ends r1 (byte_before pre, s))"
      unfolding Cat.IH(1) using w(1,2) by (auto simp: reached_def)
    moreover have "q \<in> set (ends r2 (byte_before (pre @ u), v @ snd q))"
      unfolding Cat.IH(2) using w(3,4) by (auto simp: reached_def)
    ultimately show "q \<in> set (ends (Cat r1 r2) (byte_before pre, s))" by auto
  qed
next
  case (Alt r1 r2)
  then show ?case by (auto simp: reached_def)
next
  case (Star r)
  have "reached (matches (Star r)) = reached (iterated (matches r))" by (intro ext) (simp add: reached_def)
  moreover have "q \<in> set (star_ends (ends r) (length s) (byte_before pre, s)) \<longleftrightarrow> reached (iterated (matches r)) pre s q"
    by (rule star_ends_iff [OF Star.IH order_refl])
  ultimately show ?case by simp
next
  case Bol
  then show ?case by (cases q) (auto simp: reached_def)
next
  case Eol
  then show ?case by (cases q) (auto simp: reached_def)
next
  case WordB
  then show ?case by (cases q) (auto simp: reached_def byte_before_def word_before_def)
qed

lemma search_from_iff:
  "search_from r (byte_before pre) s \<longleftrightarrow> (\<exists>u w v. s = u @ w @ v \<and> matches r (pre @ u) w v)"
proof (induction s arbitrary: pre)
  case Nil
  have "ends r (byte_before pre, []) \<noteq> [] \<longleftrightarrow> (\<exists>q. q \<in> set (ends r (byte_before pre, [])))"
    by (cases "ends r (byte_before pre, [])") auto
  then show ?case by (auto simp: ends_iff reached_def)
next
  case (Cons c s)
  have "ends r (byte_before pre, c # s) \<noteq> [] \<longleftrightarrow> (\<exists>q. q \<in> set (ends r (byte_before pre, c # s)))"
    by (cases "ends r (byte_before pre, c # s)") auto
  also have "\<dots> \<longleftrightarrow> (\<exists>w v. c # s = w @ v \<and> matches r pre w v)" by (auto simp: ends_iff reached_def)
  finally have here: "ends r (byte_before pre, c # s) \<noteq> [] \<longleftrightarrow> (\<exists>w v. c # s = w @ v \<and> matches r pre w v)" .
  have later: "search_from r (Some c) s \<longleftrightarrow> (\<exists>u w v. s = u @ w @ v \<and> matches r (pre @ c # u) w v)"
    using Cons.IH [of "pre @ [c]"] by simp
  show ?case
  proof
    assume "search_from r (byte_before pre) (c # s)"
    then consider "ends r (byte_before pre, c # s) \<noteq> []" | "search_from r (Some c) s" by auto
    then show "\<exists>u w v. c # s = u @ w @ v \<and> matches r (pre @ u) w v"
    proof cases
      case 1
      with here obtain w v where "c # s = [] @ w @ v \<and> matches r (pre @ []) w v" by auto
      then show ?thesis by blast
    next
      case 2
      with later obtain u w v where "c # s = (c # u) @ w @ v \<and> matches r (pre @ c # u) w v" by auto
      then show ?thesis by blast
    qed
  next
    assume "\<exists>u w v. c # s = u @ w @ v \<and> matches r (pre @ u) w v"
    then obtain u w v where m: "c # s = u @ w @ v" "matches r (pre @ u) w v" by blast
    show "search_from r (byte_before pre) (c # s)"
    proof (cases u)
      case Nil
      with m have "ends r (byte_before pre, c # s) \<noteq> []" unfolding here by auto
      then show ?thesis by simp
    next
      case (Cons d u')
      with m later show ?thesis by auto
    qed
  qed
qed

text \<open>
  The test decides the relation: an expression is found in a text exactly when some part of the
  text matches it in its context.
\<close>

theorem regexp_match_iff: "regexp_match r s \<longleftrightarrow> (\<exists>u w v. s = u @ w @ v \<and> matches r u w v)"
  using search_from_iff [of r "[]" s] by (simp add: regexp_match_def)

section \<open>Simple expressions\<close>

lemma matches_Lit [simp]: "matches (Lit s) pre w post \<longleftrightarrow> w = s"
proof (induction s arbitrary: pre w rule: Lit.induct)
  case (3 c d s)
  then show ?case by auto
qed auto

lemma iterated_Cls: "iterated (matches (Cls P)) pre w post \<longleftrightarrow> list_all P w"
proof
  show "iterated (matches (Cls P)) pre w post \<Longrightarrow> list_all P w" by (induction rule: iterated.induct) auto
next
  show "list_all P w \<Longrightarrow> iterated (matches (Cls P)) pre w post"
  proof (induction w arbitrary: pre)
    case Nil
    show ?case by (rule iterated.stop)
  next
    case (Cons c w)
    have "iterated (matches (Cls P)) pre ([c] @ w) post"
    proof (rule iterated.again)
      show "matches (Cls P) pre [c] (w @ post)" using Cons.prems by simp
      show "iterated (matches (Cls P)) (pre @ [c]) w post" by (rule Cons.IH) (use Cons.prems in simp)
    qed
    then show ?case by (simp only: append_Cons append_Nil)
  qed
qed

lemma matches_Star_Cls [simp]: "matches (Star (Cls P)) pre w post \<longleftrightarrow> list_all P w"
  by (simp add: iterated_Cls)

declare matches.simps(5) [simp del]

lemma not_found: "\<not> regexp_match r s \<Longrightarrow> s = u @ w @ v \<Longrightarrow> \<not> matches r u w v"
  unfolding regexp_match_iff by blast

lemma matches_CatI: "matches r pre u (v @ post) \<Longrightarrow> matches q (pre @ u) v post \<Longrightarrow> matches (Cat r q) pre (u @ v) post"
  by auto

lemma matches_Lit_Cat: "matches (Cat (Lit s) r) pre w post \<longleftrightarrow> (\<exists>v. w = s @ v \<and> matches r (pre @ s) v post)"
  by auto

lemma matches_Star_Cat: "matches (Cat (Star (Cls P)) r) pre w post
    \<longleftrightarrow> (\<exists>u v. w = u @ v \<and> list_all P u \<and> matches r (pre @ u) v post)"
  by auto

text \<open>An expression between \<open>^\<close> and \<open>$\<close>.\<close>

lemma anchored_match: "regexp_match (Cat Bol r) s \<longleftrightarrow> (\<exists>w v. s = w @ v \<and> matches r [] w v)"
  unfolding regexp_match_iff by auto

end
