(* ===== verification/Bash_Permission.thy ===== *)
theory Bash_Permission
  imports Permission Regexp
begin

text \<open>
  The \<open>Bash(...)\<close> rules of the settings (\<open>platform/shell/permissions.go\<close>): parsing of rules,
  normalisation of commands and the decision. Log lines are left out.
\<close>

section \<open>Normalisation\<close>

text \<open>\<open>strings.Fields\<close>.\<close>

function str_fields :: "string \<Rightarrow> string list" where
  "str_fields s = (let t = dropWhile is_space s in
     if t = [] then [] else takeWhile (\<lambda>c. \<not> is_space c) t # str_fields (dropWhile (\<lambda>c. \<not> is_space c) t))"
  by pat_completeness auto

lemma dropWhile_shorter: "t \<noteq> [] \<Longrightarrow> P (hd t) \<Longrightarrow> length (dropWhile P t) < length t"
  by (cases t) (auto simp: le_imp_less_Suc length_dropWhile_le)

termination str_fields
proof (relation "measure length", simp_all)
  fix s assume t: "\<exists>x\<in>set s. \<not> is_space x"
  then have n: "dropWhile is_space s \<noteq> []" by (simp add: dropWhile_eq_Nil_conv)
  have "length (dropWhile (\<lambda>c. \<not> is_space c) (dropWhile is_space s)) < length (dropWhile is_space s)"
    by (rule dropWhile_shorter [OF n]) (use hd_dropWhile [OF n] in simp)
  also have "\<dots> \<le> length s" by (rule length_dropWhile_le)
  finally show "length (dropWhile (\<lambda>c. \<not> is_space c) (dropWhile is_space s)) < length s" .
qed

declare str_fields.simps [simp del]

definition env_char :: "char \<Rightarrow> bool" where
  "env_char c \<longleftrightarrow> (let n = (of_char c :: nat) in n = 95 \<or> (65 \<le> n \<and> n \<le> 90) \<or> (97 \<le> n \<and> n \<le> 122))"

definition looksLikeEnvAssignment :: "string \<Rightarrow> bool" where
  "looksLikeEnvAssignment token \<longleftrightarrow>
    CHR ''='' \<in> set token \<and>
    (case takeWhile (\<lambda>c. c \<noteq> CHR ''='') token of
       [] \<Rightarrow> False
     | c # key \<Rightarrow> env_char c \<and> list_all (\<lambda>d. env_char d \<or> is_digit d) key)"

definition looksLikeTimeoutDuration :: "string \<Rightarrow> bool" where
  "looksLikeTimeoutDuration token0 =
    (let token = trim_space token0;
         token = (if length token > 1 \<and> last token \<in> {CHR ''s'', CHR ''m'', CHR ''h'', CHR ''d''} then butlast token else token)
     in token \<noteq> '''' \<and> list_all is_digit token)"

definition stripLeadingEnvAssignments :: "string list \<Rightarrow> string list" where
  "stripLeadingEnvAssignments tokens = dropWhile looksLikeEnvAssignment tokens"

definition is_flag :: "string \<Rightarrow> bool" where
  "is_flag t \<longleftrightarrow> has_prefix t ''-''"

definition drop_dashes :: "string list \<Rightarrow> string list" where
  "drop_dashes ts = (if ts \<noteq> [] \<and> hd ts = ''--'' then tl ts else ts)"

text \<open>The options of \<open>timeout\<close>, each with the value after it when that is no option.\<close>

fun skip_options :: "string list \<Rightarrow> string list" where
  "skip_options [] = []"
| "skip_options [t] = (if is_flag t then [] else [t])"
| "skip_options (t # u # us) =
    (if is_flag t then if is_flag u then skip_options (u # us) else skip_options us else t # u # us)"

definition stripTimeoutWrapper :: "string list \<Rightarrow> string list" where
  "stripTimeoutWrapper tokens =
    (if length tokens < 3 \<or> hd tokens \<noteq> ''timeout'' then tokens
     else case skip_options (tl tokens) of
       [] \<Rightarrow> tokens
     | d # rest \<Rightarrow> if looksLikeTimeoutDuration d then drop_dashes rest else tokens)"

definition strip_nice :: "string list \<Rightarrow> string list" where
  "strip_nice ts = drop_dashes
    (if length ts \<ge> 2 \<and> hd ts = ''-n'' then drop 2 ts
     else if length ts \<ge> 1 \<and> is_flag (hd ts) \<and> length (hd ts) > 1 then tl ts
     else ts)"

function stripLeadingShellWrappers :: "string list \<Rightarrow> string list" where
  "stripLeadingShellWrappers [] = []"
| "stripLeadingShellWrappers (t # ts) =
    (if t = ''time'' \<or> t = ''nohup'' then stripLeadingShellWrappers (drop_dashes ts)
     else if t = ''nice'' then stripLeadingShellWrappers (strip_nice ts)
     else if t = ''timeout'' then
       (if length (stripTimeoutWrapper (t # ts)) = length (t # ts) then t # ts
        else stripLeadingShellWrappers (stripTimeoutWrapper (t # ts)))
     else t # ts)"
  by pat_completeness auto

lemma drop_dashes_length: "length (drop_dashes ts) \<le> length ts"
  by (simp add: drop_dashes_def)

lemma strip_nice_length: "length (strip_nice ts) \<le> length ts"
  unfolding strip_nice_def by (rule order_trans [OF drop_dashes_length]) simp

lemma skip_options_length: "length (skip_options ts) \<le> length ts"
  by (induction ts rule: skip_options.induct) auto

lemma stripTimeoutWrapper_length: "length (stripTimeoutWrapper ts) \<le> length ts"
proof (cases "skip_options (tl ts)")
  case (Cons d rest)
  have "length (drop_dashes rest) \<le> length (skip_options (tl ts))" using Cons drop_dashes_length [of rest] by simp
  also have "\<dots> \<le> length ts" using skip_options_length [of "tl ts"] by simp
  finally show ?thesis using Cons by (auto simp: stripTimeoutWrapper_def)
qed (auto simp: stripTimeoutWrapper_def)

termination stripLeadingShellWrappers
proof (relation "measure length", goal_cases)
  case (4 t ts)
  then show ?case using stripTimeoutWrapper_length [of "t # ts"] by simp
qed (auto simp: le_imp_less_Suc drop_dashes_length strip_nice_length)

declare stripLeadingShellWrappers.simps(2) [simp del]

definition normalizeCommandForPermission :: "string \<Rightarrow> string" where
  "normalizeCommandForPermission command =
    (let tokens = str_fields (trim_space command) in
     if tokens = [] then ''''
     else join_str '' '' (stripLeadingShellWrappers (stripLeadingEnvAssignments tokens)))"

section \<open>Rules\<close>

datatype match_mode = MatchAll | MatchExact | MatchPrefix

record bash_rule =
  bl_raw :: string
  bl_pattern :: string
  bl_mode :: match_mode

text \<open>The group of \<open>^\s*Bash\((.*)\)\s*$\<close>.\<close>

definition bash_rule_body :: "string \<Rightarrow> string option" where
  "bash_rule_body raw =
    (let t = dropWhile rx_space raw; r = rev (dropWhile rx_space (rev (drop 5 t))) in
     if has_prefix t ''Bash('' \<and> r \<noteq> [] \<and> last r = CHR '')'' \<and> CHR 0x0A \<notin> set (butlast r) then Some (butlast r) else None)"

definition parseBashPermissionRule :: "string \<Rightarrow> bash_rule option" where
  "parseBashPermissionRule raw =
    (case bash_rule_body raw of
       None \<Rightarrow> None
     | Some body \<Rightarrow>
         let pattern = normalizeCommandForPermission body in
         if pattern = '''' then None
         else if pattern = ''*'' then Some \<lparr>bl_raw = trim_space raw, bl_pattern = '''', bl_mode = MatchAll\<rparr>
         else if has_suffix pattern '':*'' then
           let prefix = normalizeCommandForPermission (trim_space (take (length pattern - 2) pattern)) in
           if prefix = '''' then None
           else Some \<lparr>bl_raw = trim_space raw, bl_pattern = prefix, bl_mode = MatchPrefix\<rparr>
         else Some \<lparr>bl_raw = trim_space raw, bl_pattern = pattern, bl_mode = MatchExact\<rparr>)"

definition parseBashPermissionRules :: "string list \<Rightarrow> bash_rule list" where
  "parseBashPermissionRules values = List.map_filter parseBashPermissionRule values"

definition matchesCommandPrefix :: "string \<Rightarrow> string \<Rightarrow> bool" where
  "matchesCommandPrefix command p \<longleftrightarrow>
    command = p \<or>
    (has_prefix command p \<and> length command > length p \<and>
     (let rest = drop (length p) command in
      has_prefix rest '' '' \<or> has_prefix rest ''|'' \<or> has_prefix rest '';'' \<or> has_prefix rest ''&&'' \<or> has_prefix rest ''||''))"

definition bash_rule_matches :: "bash_rule \<Rightarrow> string \<Rightarrow> bool" where
  "bash_rule_matches r command =
    (case bl_mode r of
       MatchAll \<Rightarrow> True
     | MatchExact \<Rightarrow> command = bl_pattern r
     | MatchPrefix \<Rightarrow> matchesCommandPrefix command (bl_pattern r))"

definition matchPermissionRule :: "bash_rule list \<Rightarrow> string \<Rightarrow> bash_rule option" where
  "matchPermissionRule rules command = find (\<lambda>r. bash_rule_matches r command) rules"

section \<open>The decision\<close>

record bash_checker =
  bc_allow :: "bash_rule list"
  bc_deny :: "bash_rule list"
  bc_ask :: "bash_rule list"

definition NewPermissionChecker :: "string list \<Rightarrow> string list \<Rightarrow> string list \<Rightarrow> bash_checker" where
  "NewPermissionChecker allows denies asked = \<lparr>bc_allow = parseBashPermissionRules allows,
     bc_deny = parseBashPermissionRules denies, bc_ask = parseBashPermissionRules asked\<rparr>"

record bash_evaluation =
  be_Decision :: string
  be_NormalizedCommand :: string
  be_Rule :: string
  be_Message :: string

definition ask_message :: "string \<Rightarrow> string" where
  "ask_message cmd = ''Claude requested permissions to execute '' @ go_quote cmd @ '', but you haven't granted it yet.''"

definition bash_Check :: "bash_checker \<Rightarrow> string \<Rightarrow> bash_evaluation" where
  "bash_Check c command =
    (let n = normalizeCommandForPermission command in
     if n = '''' then \<lparr>be_Decision = DecisionAsk, be_NormalizedCommand = n, be_Rule = '''',
        be_Message = ''Claude requested permissions to execute an empty command, but you haven't granted it yet.''\<rparr>
     else case matchPermissionRule (bc_deny c) n of
       Some r \<Rightarrow> \<lparr>be_Decision = DecisionDeny, be_NormalizedCommand = n, be_Rule = bl_raw r,
         be_Message = ''Permission to execute '' @ go_quote n @ '' has been denied.''\<rparr>
     | None \<Rightarrow>
        (case matchPermissionRule (bc_ask c) n of
           Some r \<Rightarrow> \<lparr>be_Decision = DecisionAsk, be_NormalizedCommand = n, be_Rule = bl_raw r, be_Message = ask_message n\<rparr>
         | None \<Rightarrow>
            (case matchPermissionRule (bc_allow c) n of
               Some r \<Rightarrow> \<lparr>be_Decision = DecisionAllow, be_NormalizedCommand = n, be_Rule = bl_raw r, be_Message = ''''\<rparr>
             | None \<Rightarrow> \<lparr>be_Decision = DecisionAsk, be_NormalizedCommand = n, be_Rule = '''', be_Message = ask_message n\<rparr>)))"

section \<open>The rule pattern\<close>

text \<open>The expression \<open>^\s*Bash\((.*)\)\s*$\<close>; its group is what stands between the brackets.\<close>

lemma strip_left: "\<exists>u. s = u @ dropWhile P s \<and> list_all P u"
  by (intro exI [of _ "takeWhile P s"]) (auto simp: list_all_iff dest: set_takeWhileD)

lemma strip_right: "\<exists>w. s = rev (dropWhile P (rev s)) @ w \<and> list_all P w"
proof -
  obtain u where "rev s = u @ dropWhile P (rev s)" "list_all P u" using strip_left [of "rev s" P] by blast
  then have "s = rev (dropWhile P (rev s)) @ rev u" by (metis rev_append rev_rev_ident)
  with \<open>list_all P u\<close> show ?thesis by (intro exI [of _ "rev u"]) (simp add: list_all_iff)
qed

lemma spaces_then: "list_all rx_space u \<Longrightarrow> \<not> rx_space c \<Longrightarrow> dropWhile rx_space (u @ c # s) = c # s"
  by (induction u) auto

lemma bash_rule_body_iff:
  "bash_rule_body raw = Some b \<longleftrightarrow>
    (\<exists>u v. raw = u @ ''Bash('' @ b @ '')'' @ v \<and> list_all rx_space u \<and> list_all rx_space v \<and> CHR 0x0A \<notin> set b)"
proof
  assume m: "bash_rule_body raw = Some b"
  define t where "t = dropWhile rx_space raw"
  define r where "r = rev (dropWhile rx_space (rev (drop 5 t)))"
  have c: "has_prefix t ''Bash(''" "r \<noteq> []" "last r = CHR '')''" "CHR 0x0A \<notin> set (butlast r)" "b = butlast r"
    using m by (auto simp: bash_rule_body_def Let_def t_def r_def split: if_splits)
  obtain u where u: "raw = u @ t" "list_all rx_space u" using strip_left [of raw rx_space] unfolding t_def by blast
  have t: "t = ''Bash('' @ drop 5 t" using c(1) by (auto simp: has_prefix_iff)
  obtain w where w: "drop 5 t = r @ w" "list_all rx_space w"
    using strip_right [of "drop 5 t" rx_space] unfolding r_def by blast
  have "r = b @ '')''" using c(2,3,5) by (metis append_butlast_last_id)
  then have "raw = u @ ''Bash('' @ b @ '')'' @ w" using u(1) t w(1) by simp
  with u(2) w(2) c(4,5) show "\<exists>u v. raw = u @ ''Bash('' @ b @ '')'' @ v \<and> list_all rx_space u \<and> list_all rx_space v \<and> CHR 0x0A \<notin> set b" by blast
next
  assume "\<exists>u v. raw = u @ ''Bash('' @ b @ '')'' @ v \<and> list_all rx_space u \<and> list_all rx_space v \<and> CHR 0x0A \<notin> set b"
  then obtain u v where m: "raw = u @ ''Bash('' @ b @ '')'' @ v" "list_all rx_space u" "list_all rx_space v" "CHR 0x0A \<notin> set b"
    by blast
  have t: "dropWhile rx_space raw = ''Bash('' @ b @ '')'' @ v"
    unfolding m(1) using spaces_then [OF m(2), of "CHR ''B''" "''ash('' @ b @ '')'' @ v"] by (simp add: rx_space_def)
  have "list_all rx_space (rev v)" using m(3) by (simp add: list_all_iff)
  then have "dropWhile rx_space (rev ((b @ '')'') @ v)) = CHR '')'' # rev b"
    using spaces_then [of "rev v" "CHR '')''" "rev b"] by (simp add: rx_space_def)
  then have r: "rev (dropWhile rx_space (rev (drop 5 (dropWhile rx_space raw)))) = b @ '')''" by (simp add: t)
  have "has_prefix (dropWhile rx_space raw) ''Bash(''" by (simp add: t has_prefix_def)
  with m(4) show "bash_rule_body raw = Some b" unfolding bash_rule_body_def Let_def r by simp
qed

section \<open>What the rules see of a command\<close>

lemma str_fields_Nil: "list_all is_space s \<Longrightarrow> str_fields s = []"
  by (subst str_fields.simps) (simp add: Let_def dropWhile_eq_Nil_conv list_all_iff)

lemma str_fields_dropWhile: "str_fields (dropWhile is_space s) = str_fields s"
  by (subst (1 2) str_fields.simps) simp

lemma str_fields_split: "is_space c \<Longrightarrow> str_fields (x @ c # y) = str_fields x @ str_fields y"
proof (induction x rule: str_fields.induct)
  case (1 x)
  define t where "t = dropWhile is_space x"
  show ?case
  proof (cases "t = []")
    case True
    then have x: "\<forall>d\<in>set x. is_space d" by (simp add: t_def dropWhile_eq_Nil_conv)
    then have "dropWhile is_space (x @ c # y) = dropWhile is_space y" using "1.prems" by (simp add: dropWhile_append)
    then have "str_fields (x @ c # y) = str_fields y" using str_fields_dropWhile by metis
    then show ?thesis using x by (simp add: str_fields_Nil list_all_iff)
  next
    case False
    let ?n = "\<lambda>d. \<not> is_space d"
    have d: "dropWhile is_space (x @ c # y) = t @ c # y" using False by (auto simp: t_def dropWhile_append)
    have tw: "takeWhile ?n (t @ c # y) = takeWhile ?n t" using "1.prems" by (induction t) auto
    have dw: "dropWhile ?n (t @ c # y) = dropWhile ?n t @ c # y" using "1.prems" by (induction t) auto
    have "str_fields (x @ c # y) = takeWhile ?n t # str_fields (dropWhile ?n t @ c # y)"
      by (subst str_fields.simps) (simp add: Let_def d tw dw)
    also have "\<dots> = (takeWhile ?n t # str_fields (dropWhile ?n t)) @ str_fields y"
      using "1.IH" [OF t_def False "1.prems"] by simp
    also have "takeWhile ?n t # str_fields (dropWhile ?n t) = str_fields x"
      using False by (subst (2) str_fields.simps) (simp add: Let_def t_def)
    finally show ?thesis .
  qed
qed

lemma str_fields_spaces_after: "list_all is_space w \<Longrightarrow> str_fields (s @ w) = str_fields s"
  by (cases w) (auto simp: str_fields_split str_fields_Nil)

lemma str_fields_trim [simp]: "str_fields (trim_space s) = str_fields s"
proof -
  obtain w where w: "dropWhile is_space s = trim_space s @ w" "list_all is_space w"
    using strip_right [of "dropWhile is_space s" is_space] unfolding trim_space_def by blast
  show ?thesis using str_fields_spaces_after [OF w(2), of "trim_space s"] w(1) str_fields_dropWhile [of s] by simp
qed

lemma str_fields_word: "w \<noteq> [] \<Longrightarrow> list_all (\<lambda>c. \<not> is_space c) w \<Longrightarrow> str_fields w = [w]"
proof -
  assume w: "w \<noteq> []" "list_all (\<lambda>c. \<not> is_space c) w"
  then have a: "dropWhile is_space w = w" by (cases w) auto
  have b: "takeWhile (\<lambda>c. \<not> is_space c) w = w" and c: "dropWhile (\<lambda>c. \<not> is_space c) w = []"
    using w(2) by (simp_all add: takeWhile_eq_all_conv dropWhile_eq_Nil_conv list_all_iff)
  have "str_fields w = (if w = [] then [] else w # str_fields [])"
    by (subst str_fields.simps) (simp only: Let_def a b c)
  with w(1) show ?thesis by (simp add: str_fields_Nil)
qed

text \<open>The rules see the words of a command only.\<close>

lemma normalize_fields: "normalizeCommandForPermission s = (let tokens = str_fields s in
     if tokens = [] then '''' else join_str '' '' (stripLeadingShellWrappers (stripLeadingEnvAssignments tokens)))"
  by (simp add: normalizeCommandForPermission_def)

lemma Check_fields: "str_fields x = str_fields y \<Longrightarrow> bash_Check c x = bash_Check c y"
  by (simp add: bash_Check_def normalize_fields)

text \<open>
  The rules cannot tell a line break from a blank: a command of two lines gets the same decision,
  the same rule and the same normal form as the command in which its second line stands as arguments
  of the first, so a rule that allows the first line's command allows whatever the second line does.
\<close>

theorem line_break_is_a_blank:
  "bash_Check c (x @ [CHR 0x0A] @ y) = bash_Check c (x @ '' '' @ y)"
  by (rule Check_fields) (simp add: str_fields_split is_space_def)

lemma join_str_Cons: "\<exists>t. join_str sep (w # ws) = w @ t \<and> (ws = [] \<longrightarrow> t = []) \<and> (ws \<noteq> [] \<longrightarrow> has_prefix t sep)"
  by (cases ws) auto

lemma Check_decision:
  "be_Decision (bash_Check c command) = DecisionAllow \<longleftrightarrow>
    (let n = normalizeCommandForPermission command in
     n \<noteq> '''' \<and> (\<forall>r\<in>set (bc_deny c). \<not> bash_rule_matches r n) \<and> (\<forall>r\<in>set (bc_ask c). \<not> bash_rule_matches r n)
       \<and> (\<exists>r\<in>set (bc_allow c). bash_rule_matches r n))"
proof -
  let ?n = "normalizeCommandForPermission command"
  have m: "(\<forall>r\<in>set rs. \<not> bash_rule_matches r ?n) \<longleftrightarrow> matchPermissionRule rs ?n = None" for rs
    by (auto simp: matchPermissionRule_def find_None_iff)
  have e: "(\<exists>r\<in>set rs. bash_rule_matches r ?n) \<longleftrightarrow> matchPermissionRule rs ?n \<noteq> None" for rs
    using m [of rs] by auto
  show ?thesis unfolding Let_def m e
    by (auto simp: bash_Check_def Let_def DecisionAllow_def DecisionAsk_def DecisionDeny_def split: option.splits)
qed

text \<open>The name of a program: no blank, no shell operator, no \<open>=\<close>, and none of the wrappers that are skipped.\<close>

definition program_name :: "string \<Rightarrow> bool" where
  "program_name p \<longleftrightarrow> p \<noteq> '''' \<and> p \<notin> {''time'', ''nohup'', ''nice'', ''timeout''} \<and>
     list_all (\<lambda>c. \<not> is_space c \<and> c \<notin> {CHR ''='', CHR '';'', CHR ''|'', CHR ''&''}) p"

lemma normalize_program:
  assumes "w \<noteq> ''''" "list_all (\<lambda>c. \<not> is_space c \<and> c \<noteq> CHR ''='') w" "w \<notin> {''time'', ''nohup'', ''nice'', ''timeout''}"
  shows "normalizeCommandForPermission (w @ '' '' @ args) = join_str '' '' (w # str_fields args)"
proof -
  have "list_all (\<lambda>c. \<not> is_space c) w" "\<not> looksLikeEnvAssignment w"
    using assms(2) by (auto simp: list_all_iff looksLikeEnvAssignment_def)
  then show ?thesis using assms str_fields_split [of "CHR '' ''" w args] str_fields_word [OF assms(1)]
    by (simp add: normalize_fields stripLeadingEnvAssignments_def stripLeadingShellWrappers.simps is_space_def)
qed

text \<open>A rule about one program does not match what follows a semicolon after another.\<close>

lemma rule_of_another_program:
  assumes "program_name p" "program_name (bl_pattern d)" "bl_pattern d \<noteq> p" "bl_mode d \<noteq> MatchAll"
  shows "\<not> bash_rule_matches d (p @ '';'' @ t)"
proof -
  let ?q = "bl_pattern d"
  have c: "CHR '';'' \<notin> set ?q" using assms(2) by (auto simp: program_name_def list_all_iff)
  have "\<not> matchesCommandPrefix (p @ '';'' @ t) ?q"
  proof
    assume m: "matchesCommandPrefix (p @ '';'' @ t) ?q"
    then obtain u where u: "p @ '';'' @ t = ?q @ u" by (auto simp: matchesCommandPrefix_def has_prefix_iff)
    have "p @ CHR '';'' # r \<noteq> ?q" for r using c by (metis in_set_conv_decomp)
    then obtain v where v: "p = ?q @ v" using u by (auto simp: append_eq_append_conv2 Cons_eq_append_conv append_eq_Cons_conv)
    with assms(3) obtain e v' where e: "v = e # v'" by (cases v) auto
    have "e \<notin> {CHR '' '', CHR '';'', CHR ''|'', CHR ''&''}"
      using assms(1) v e by (auto simp: program_name_def is_space_def)
    then show False using m v e by (auto simp: matchesCommandPrefix_def has_prefix_def Let_def)
  qed
  moreover have "p @ '';'' @ t \<noteq> ?q" using c by (metis in_set_conv_decomp append_Cons append_Nil)
  ultimately show ?thesis using assms(4) by (cases "bl_mode d") (simp_all add: bash_rule_matches_def)
qed

text \<open>
  C39: The rules look at the program at the front only. Let a prefix rule allow \<open>p\<close>, let a prefix rule
  deny \<open>q\<close>, and let every denying or asking rule be about one program other than \<open>p\<close>. Then the command
  \<open>q\<close> with any arguments is denied, and the same command after \<open>p;\<close> is allowed, as is every
  other continuation of \<open>p;\<close>.
\<close>

theorem chained_command_escapes_deny:
  assumes "program_name p" "a \<in> set (bc_allow c)" "bl_mode a = MatchPrefix" "bl_pattern a = p"
    and "\<forall>d\<in>set (bc_deny c) \<union> set (bc_ask c). bl_mode d \<noteq> MatchAll \<and> program_name (bl_pattern d) \<and> bl_pattern d \<noteq> p"
    and "q \<in> set (bc_deny c)" "bl_mode q = MatchPrefix"
  shows "be_Decision (bash_Check c (bl_pattern q @ '' '' @ args)) = DecisionDeny
    \<and> be_Decision (bash_Check c (p @ ''; '' @ bl_pattern q @ '' '' @ args)) = DecisionAllow
    \<and> be_Decision (bash_Check c (p @ ''; '' @ payload)) = DecisionAllow"
proof -
  have allow: "be_Decision (bash_Check c (p @ ''; '' @ rest)) = DecisionAllow" for rest
  proof -
    have "p @ '';'' \<notin> {''time'', ''nohup'', ''nice'', ''timeout''}" by (auto simp: append_eq_Cons_conv)
    then have n: "normalizeCommandForPermission (p @ ''; '' @ rest) = join_str '' '' ((p @ '';'') # str_fields rest)"
      using normalize_program [of "p @ '';''" rest] assms(1) by (auto simp: program_name_def list_all_iff is_space_def)
    obtain t where t: "join_str '' '' ((p @ '';'') # str_fields rest) = p @ '';'' @ t"
      using join_str_Cons [of "'' ''" "p @ '';''"] by auto
    have "bash_rule_matches a (p @ '';'' @ t)"
      using assms(3,4) by (simp add: bash_rule_matches_def matchesCommandPrefix_def has_prefix_def)
    moreover have "\<not> bash_rule_matches d (p @ '';'' @ t)" if "d \<in> set (bc_deny c) \<union> set (bc_ask c)" for d
      using that assms(5) rule_of_another_program [OF assms(1)] by blast
    ultimately show ?thesis unfolding Check_decision n t Let_def using assms(2) by auto
  qed
  have q: "program_name (bl_pattern q)" using assms(5,6) by blast
  have n: "normalizeCommandForPermission (bl_pattern q @ '' '' @ args) = join_str '' '' (bl_pattern q # str_fields args)"
    by (rule normalize_program) (use q in \<open>auto simp: program_name_def list_all_iff\<close>)
  obtain t where t: "join_str '' '' (bl_pattern q # str_fields args) = bl_pattern q @ t"
    "str_fields args = [] \<longrightarrow> t = []" "str_fields args \<noteq> [] \<longrightarrow> has_prefix t '' ''" using join_str_Cons by blast
  have "bash_rule_matches q (bl_pattern q @ t)"
    using t(2,3) assms(7) by (cases "str_fields args = []") (auto simp: bash_rule_matches_def matchesCommandPrefix_def has_prefix_def)
  then have "matchPermissionRule (bc_deny c) (bl_pattern q @ t) \<noteq> None"
    using assms(6) by (auto simp: matchPermissionRule_def find_None_iff)
  then have "be_Decision (bash_Check c (bl_pattern q @ '' '' @ args)) = DecisionDeny"
    using q unfolding bash_Check_def Let_def n t(1) by (auto simp: program_name_def)
  with allow show ?thesis by blast
qed

definition careful_checker :: bash_checker where
  "careful_checker = NewPermissionChecker [''Bash(ls:*)''] [''Bash(rm:*)''] []"

lemma careful_rules:
  "careful_checker = \<lparr>bc_allow = [\<lparr>bl_raw = ''Bash(ls:*)'', bl_pattern = ''ls'', bl_mode = MatchPrefix\<rparr>],
     bc_deny = [\<lparr>bl_raw = ''Bash(rm:*)'', bl_pattern = ''rm'', bl_mode = MatchPrefix\<rparr>], bc_ask = []\<rparr>"
  by code_simp

theorem chained_command_escapes_deny_witness:
  "be_Decision (bash_Check careful_checker ''rm -rf x'') = DecisionDeny
   \<and> be_Decision (bash_Check careful_checker ''ls; rm -rf x'') = DecisionAllow"
  using chained_command_escapes_deny [of "''ls''" "hd (bc_allow careful_checker)" careful_checker "hd (bc_deny careful_checker)"
      "''-rf x''" "''''"]
  by (simp add: careful_rules program_name_def is_space_def)

definition open_checker :: bash_checker where
  "open_checker = NewPermissionChecker [''Bash(*)''] [''Bash(rm:*)''] []"

lemma open_rules:
  "open_checker = \<lparr>bc_allow = [\<lparr>bl_raw = ''Bash(*)'', bl_pattern = '''', bl_mode = MatchAll\<rparr>],
     bc_deny = [\<lparr>bl_raw = ''Bash(rm:*)'', bl_pattern = ''rm'', bl_mode = MatchPrefix\<rparr>], bc_ask = []\<rparr>"
  by code_simp

text \<open>
  Variables and wrappers are dropped once each and in that order, so a denied command is let
  through when a variable follows a wrapper: with \<open>rm\<close> denied and everything else allowed,
  \<open>A=1 nohup rm\<close> is denied and \<open>nohup A=1 rm\<close>, which runs the same program, is allowed, with any
  arguments.
\<close>

theorem denied_command_behind_wrapper:
  "be_Decision (bash_Check open_checker (''A=1 nohup rm '' @ args)) = DecisionDeny
   \<and> be_Decision (bash_Check open_checker (''nohup A=1 rm '' @ args)) = DecisionAllow"
proof -
  have f: "str_fields (a @ '' '' @ b) = str_fields a @ str_fields b" for a b using str_fields_split [of "CHR '' ''" a b] by (simp add: is_space_def)
  have w: "str_fields ''A=1'' = [''A=1'']" "str_fields ''nohup'' = [''nohup'']" "str_fields ''rm'' = [''rm'']"
    by (simp_all add: str_fields_word is_space_def)
  have e: "looksLikeEnvAssignment ''A=1''" "\<not> looksLikeEnvAssignment ''nohup''" "\<not> looksLikeEnvAssignment ''rm''"
    by code_simp+
  have "''A=1 nohup rm '' @ args = ''A=1'' @ '' '' @ ''nohup'' @ '' '' @ ''rm'' @ '' '' @ args" by simp
  then have "str_fields (''A=1 nohup rm '' @ args) = ''A=1'' # ''nohup'' # ''rm'' # str_fields args"
    by (simp only: f w) simp
  then have n1: "normalizeCommandForPermission (''A=1 nohup rm '' @ args) = join_str '' '' (''rm'' # str_fields args)"
    using e by (simp add: normalize_fields stripLeadingEnvAssignments_def stripLeadingShellWrappers.simps drop_dashes_def)
  have "''nohup A=1 rm '' @ args = ''nohup'' @ '' '' @ ''A=1'' @ '' '' @ ''rm'' @ '' '' @ args" by simp
  then have "str_fields (''nohup A=1 rm '' @ args) = ''nohup'' # ''A=1'' # ''rm'' # str_fields args"
    by (simp only: f w) simp
  then have n2: "normalizeCommandForPermission (''nohup A=1 rm '' @ args) = join_str '' '' (''A=1'' # ''rm'' # str_fields args)"
    using e by (simp add: normalize_fields stripLeadingEnvAssignments_def stripLeadingShellWrappers.simps drop_dashes_def)
  obtain t where t: "join_str '' '' (''rm'' # str_fields args) = ''rm'' @ t" "str_fields args = [] \<longrightarrow> t = []"
      "str_fields args \<noteq> [] \<longrightarrow> has_prefix t '' ''" using join_str_Cons by blast
  have r: "matchesCommandPrefix (''rm'' @ t) ''rm''"
    using t(2,3) by (cases "str_fields args = []") (auto simp: matchesCommandPrefix_def has_prefix_def)
  obtain u where u: "join_str '' '' (''A=1'' # ''rm'' # str_fields args) = ''A=1'' @ u" using join_str_Cons by blast
  have d: "\<not> matchesCommandPrefix (''A=1'' @ u) ''rm''" by (simp add: matchesCommandPrefix_def has_prefix_def)
  have "be_Decision (bash_Check open_checker (''A=1 nohup rm '' @ args)) = DecisionDeny"
    unfolding bash_Check_def Let_def n1 t(1) open_rules using r
    by (simp add: matchPermissionRule_def bash_rule_matches_def)
  moreover have "be_Decision (bash_Check open_checker (''nohup A=1 rm '' @ args)) = DecisionAllow"
    unfolding Check_decision Let_def n2 u open_rules using d by (simp add: bash_rule_matches_def)
  ultimately show ?thesis by blast
qed

end
