(* ===== verification/Bash_Scan.thy ===== *)
theory Bash_Scan
  imports Regexp
begin

text \<open>
  The security scanner of the Bash tool (\<open>services/tools/bash/security_scanner.go\<close>): six validators,
  each a few regular expressions, and the highest risk they find.
\<close>

section \<open>Validators\<close>

datatype risk = RiskLevelSafe | RiskLevelWarning | RiskLevelDangerous

type_synonym finding = "risk \<times> string \<times> string"

definition no_finding :: finding where
  "no_finding = (RiskLevelSafe, '''', '''')"

definition dollar_paren :: regexp where
  "dollar_paren = Seq [Lit ''$('', Cls (none_of '')'')]"

definition dollar_brace :: regexp where
  "dollar_brace = Seq [Lit ''${'', Star (Cls (none_of ''}'')), Cls (one_of '';|&<>$'')]"

definition angle_paren :: regexp where
  "angle_paren = Seq [Cls (one_of ''<>''), Lit ''('']"

definition commandSubstitutionPatterns :: "regexp list" where
  "commandSubstitutionPatterns = [dollar_paren, dollar_brace, angle_paren]"

definition backtick :: char where "backtick = CHR 0x60"
definition backslash :: char where "backslash = CHR 0x5C"

text \<open>A closing backtick, \<open>p\<close> being the byte before.\<close>

fun closes :: "char \<Rightarrow> string \<Rightarrow> bool" where
  "closes p [] \<longleftrightarrow> False"
| "closes p (c # s) \<longleftrightarrow> (c = backtick \<and> p \<noteq> backslash) \<or> closes c s"

fun backtick_pair_from :: "char option \<Rightarrow> string \<Rightarrow> bool" where
  "backtick_pair_from p [] \<longleftrightarrow> False"
| "backtick_pair_from p (c # s) \<longleftrightarrow>
    (c = backtick \<and> p \<noteq> Some backslash \<and> closes c s) \<or> backtick_pair_from (Some c) s"

definition hasUnescapedBacktickPair :: "string \<Rightarrow> bool" where
  "hasUnescapedBacktickPair command \<longleftrightarrow> backtick_pair_from None command"

definition commandSubstitutionValidator :: "string \<Rightarrow> finding" where
  "commandSubstitutionValidator command =
    (if list_ex (\<lambda>r. regexp_match r command) commandSubstitutionPatterns \<or> hasUnescapedBacktickPair command then
       (RiskLevelDangerous, ''command_substitution'',
        ''Command contains command substitution patterns ($(), backticks, or process substitution) which can execute arbitrary code'')
     else no_finding)"

definition downloadThenExecutePattern :: regexp where
  "downloadThenExecutePattern = Seq [Alts (map ILit [''curl'', ''wget'', ''fetch'']), WordB, Star (Cls rx_dot), Lit ''|'',
     Star (Cls rx_space), Alts (map ILit [''sh'', ''bash'', ''zsh'', ''fish''])]"

definition downloadPipeValidator :: "string \<Rightarrow> finding" where
  "downloadPipeValidator command =
    (let lower = to_lower command in
     if regexp_match downloadThenExecutePattern command
       \<or> (list_ex (str_contains lower) [''curl'', ''wget'', ''fetch'']
          \<and> list_ex (str_contains lower) [''| sh'', ''| bash'', ''| zsh'', ''| fish''])
     then (RiskLevelDangerous, ''download_pipe'',
       ''Command downloads remote code and pipes it directly to a shell, which can execute arbitrary code'')
     else no_finding)"

text \<open>\<open>(?:^|[\s;|&])\<close>\<close>

definition command_start :: regexp where
  "command_start = Alt Bol (Cls (\<lambda>c. rx_space c \<or> one_of '';|&'' c))"

definition privilegeEscalationPattern :: regexp where
  "privilegeEscalationPattern = Seq [command_start,
     Alts [Lit ''sudo'', Seq [Lit ''su'', WordB], Lit ''doas'', Lit ''pkexec'', Lit ''sudoedit''], Alt (Cls rx_space) Eol]"

definition privilegeEscalationValidator :: "string \<Rightarrow> finding" where
  "privilegeEscalationValidator command =
    (if regexp_match privilegeEscalationPattern command then (RiskLevelWarning, ''privilege_escalation'',
       ''Command attempts to elevate privileges (sudo, su, doas, pkexec). This requires approval.'')
     else no_finding)"

definition name_or_colon :: regexp where
  "name_or_colon = Alt (Lit '':'') (Plus (Cls rx_word))"

definition blanks :: regexp where
  "blanks = Star (Cls rx_space)"

definition forkBombPattern :: regexp where
  "forkBombPattern = Seq [name_or_colon, blanks, Lit ''('', blanks, Lit '')'', blanks, Lit ''{'', blanks, name_or_colon,
     blanks, Lit ''|'']"

definition forkBombValidator :: "string \<Rightarrow> finding" where
  "forkBombValidator command =
    (if regexp_match forkBombPattern command then (RiskLevelDangerous, ''fork_bomb'',
       ''Command contains a fork bomb pattern which would exhaust system resources'')
     else no_finding)"

definition diskWipePattern :: regexp where
  "diskWipePattern = Seq [WordB, ILit ''dd'', WordB, Star (Cls rx_dot), WordB, ILit ''of=/dev/'',
     Alts (map ILit [''sda'', ''sdb'', ''nvme'', ''hd'', ''mmcblk'', ''vd'', ''loop'', ''disk''])]"

definition formatPattern :: regexp where
  "formatPattern = Seq [command_start,
     Alts [ILit ''mkfs'', Seq [ILit ''mkfs.'', Alts [Seq [ILit ''ext'', Cls (one_of ''234'')], ILit ''xfs'', ILit ''btrfs'',
             ILit ''ntfs'', ILit ''vfat'']], ILit ''fdisk'', ILit ''parted''],
     WordB, Star (Cls rx_dot), ILit ''/dev/'', Plus (Cls rx_word)]"

definition diskWipeValidator :: "string \<Rightarrow> finding" where
  "diskWipeValidator command =
    (if regexp_match diskWipePattern command then (RiskLevelDangerous, ''disk_wipe'',
       ''Command appears to write to a block device or use disk formatting tools, which could destroy data'')
     else if regexp_match formatPattern command then (RiskLevelDangerous, ''disk_format'',
       ''Command uses disk formatting tools (mkfs, fdisk, parted) which could destroy data'')
     else no_finding)"

definition rx_letter :: "char \<Rightarrow> bool" where
  "rx_letter c \<longleftrightarrow> (let n = (of_char c :: nat) in (65 \<le> n \<and> n \<le> 90) \<or> (97 \<le> n \<and> n \<le> 122))"

definition rootDeletionPattern :: regexp where
  "rootDeletionPattern = Seq [command_start, Lit ''rm'', Plus (Cls rx_space),
     Opt (Seq [Lit ''-'', Star (Cls rx_letter), Lit ''f'', Star (Cls rx_letter), Plus (Cls rx_space)]),
     Alts [Seq [Lit ''/'', blanks, Alt Eol (Cls (\<lambda>c. rx_space c \<or> one_of '';|&'' c))], Lit ''/*'', Lit ''/.*'',
       Seq [Lit ''/'', Plus (Cls rx_space), Lit ''--no-preserve-root'']]]"

definition rootDeletionValidator :: "string \<Rightarrow> finding" where
  "rootDeletionValidator command =
    (if regexp_match rootDeletionPattern command then (RiskLevelDangerous, ''root_deletion'',
       ''Command recursively deletes the root directory or its contents, which would destroy the system'')
     else no_finding)"

section \<open>The scanner\<close>

fun riskPriority :: "risk \<Rightarrow> nat" where
  "riskPriority RiskLevelDangerous = 3"
| "riskPriority RiskLevelWarning = 2"
| "riskPriority RiskLevelSafe = 1"

type_synonym scanner = "(string \<Rightarrow> finding) list"

definition NewDefaultSecurityScanner :: scanner where
  "NewDefaultSecurityScanner = [commandSubstitutionValidator, downloadPipeValidator, privilegeEscalationValidator,
     forkBombValidator, diskWipeValidator, rootDeletionValidator]"

fun scan_loop :: "finding \<Rightarrow> scanner \<Rightarrow> string \<Rightarrow> finding" where
  "scan_loop best [] command = best"
| "scan_loop best (v # vs) command =
    scan_loop (if riskPriority (fst (v command)) > riskPriority (fst best) then v command else best) vs command"

definition Scan :: "scanner \<Rightarrow> string \<Rightarrow> finding" where
  "Scan vs command = scan_loop no_finding vs command"

lemma riskPriority_inj [simp]: "riskPriority a = riskPriority b \<longleftrightarrow> a = b"
  by (cases a; cases b) auto

lemma riskPriority_pos: "riskPriority RiskLevelSafe \<le> riskPriority r"
  by (cases r) auto

lemma scan_loop_find:
  "scan_loop best vs c =
    (if fst best = RiskLevelDangerous then best
     else case find (\<lambda>v. fst (v c) = RiskLevelDangerous) vs of
       Some v \<Rightarrow> v c
     | None \<Rightarrow> if fst best = RiskLevelWarning then best
        else case find (\<lambda>v. fst (v c) = RiskLevelWarning) vs of Some v \<Rightarrow> v c | None \<Rightarrow> best)"
proof (induction vs arbitrary: best)
  case (Cons v vs)
  then show ?case by (cases "fst best"; cases "fst (v c)") (auto split: option.splits)
qed (cases "fst best", auto)

text \<open>
  The scanner reports what the first validator that finds a danger says; when none does, what the
  first that finds something to approve says; and nothing when all are content.
\<close>

theorem Scan_first_highest:
  "Scan vs command =
    (case find (\<lambda>v. fst (v command) = RiskLevelDangerous) vs of
       Some v \<Rightarrow> v command
     | None \<Rightarrow> (case find (\<lambda>v. fst (v command) = RiskLevelWarning) vs of Some v \<Rightarrow> v command | None \<Rightarrow> no_finding))"
  unfolding Scan_def scan_loop_find by (simp add: no_finding_def)

lemma Scan_safe: "fst (Scan vs c) = RiskLevelSafe \<Longrightarrow> v \<in> set vs \<Longrightarrow> fst (v c) = RiskLevelSafe"
  unfolding Scan_def scan_loop_find
  by (cases "fst (v c)") (auto simp: find_None_iff find_Some_iff no_finding_def split: option.splits)

section \<open>What a safe command cannot hold\<close>

lemma closes_append: "(if w = [] then p \<noteq> backslash else last w \<noteq> backslash) \<Longrightarrow> closes p (w @ backtick # v)"
  by (induction w arbitrary: p) (auto split: if_splits)


lemma backtick_pair_append:
  "(if u = [] then p \<noteq> Some backslash else last u \<noteq> backslash) \<Longrightarrow> closes backtick s
    \<Longrightarrow> backtick_pair_from p (u @ backtick # s)"
  by (induction u arbitrary: p) (auto split: if_splits)

lemma closes_iff: "closes p s \<longleftrightarrow> (\<exists>w v. s = w @ backtick # v \<and> (if w = [] then p else last w) \<noteq> backslash)"
proof
  show "closes p s \<Longrightarrow> \<exists>w v. s = w @ backtick # v \<and> (if w = [] then p else last w) \<noteq> backslash"
  proof (induction s arbitrary: p)
    case (Cons c s)
    then consider "c = backtick" "p \<noteq> backslash" | "closes c s" by auto
    then show ?case
    proof cases
      case 1
      then show ?thesis by (intro exI [of _ "[]"] exI [of _ s]) simp
    next
      case 2
      with Cons.IH obtain w v where "s = w @ backtick # v" "(if w = [] then c else last w) \<noteq> backslash" by blast
      then show ?thesis by (intro exI [of _ "c # w"] exI [of _ v]) auto
    qed
  qed simp
qed (auto intro: closes_append split: if_splits)

lemma backtick_pair_iff: "backtick_pair_from p s \<longleftrightarrow>
    (\<exists>u r. s = u @ backtick # r \<and> (if u = [] then p \<noteq> Some backslash else last u \<noteq> backslash) \<and> closes backtick r)"
proof
  show "backtick_pair_from p s \<Longrightarrow>
      \<exists>u r. s = u @ backtick # r \<and> (if u = [] then p \<noteq> Some backslash else last u \<noteq> backslash) \<and> closes backtick r"
  proof (induction s arbitrary: p)
    case (Cons c s)
    then consider "c = backtick" "p \<noteq> Some backslash" "closes c s" | "backtick_pair_from (Some c) s" by auto
    then show ?case
    proof cases
      case 1
      then show ?thesis by (intro exI [of _ "[]"] exI [of _ s]) simp
    next
      case 2
      with Cons.IH obtain u r where "s = u @ backtick # r" "closes backtick r"
        "if u = [] then Some c \<noteq> Some backslash else last u \<noteq> backslash" by blast
      then show ?thesis by (intro exI [of _ "c # u"] exI [of _ r]) auto
    qed
  qed simp
qed (auto intro: backtick_pair_append split: if_splits)

text \<open>The forms of substitution the scanner looks for, as parts of the command: \<open>$(\<close> before anything but a
  closing bracket, \<open>${\<close> with a separator inside, \<open><(\<close>, \<open>>(\<close>, and two backticks that follow no backslash.\<close>

definition names_substitution :: "string \<Rightarrow> bool" where
  "names_substitution command \<longleftrightarrow>
    (\<exists>u c v. command = u @ ''$('' @ c # v \<and> c \<noteq> CHR '')'')
    \<or> (\<exists>u w c v. command = u @ ''${'' @ w @ c # v \<and> CHR ''}'' \<notin> set w \<and> c \<in> set '';|&<>$'')
    \<or> (\<exists>u v. command = u @ ''<('' @ v \<or> command = u @ ''>('' @ v)
    \<or> (\<exists>u w v. command = u @ [backtick] @ w @ [backtick] @ v \<and> \<not> (u \<noteq> [] \<and> last u = backslash) \<and> \<not> (w \<noteq> [] \<and> last w = backslash))"

lemma dollar_paren_iff: "regexp_match dollar_paren s \<longleftrightarrow> (\<exists>u c v. s = u @ ''$('' @ c # v \<and> c \<noteq> CHR '')'')"
  unfolding regexp_match_iff dollar_paren_def by (auto simp: none_of_def; metis append.simps)

lemma angle_paren_iff: "regexp_match angle_paren s \<longleftrightarrow> (\<exists>u v. s = u @ ''<('' @ v \<or> s = u @ ''>('' @ v)"
  unfolding regexp_match_iff angle_paren_def by (auto simp: one_of_def; metis append.simps)

lemma dollar_brace_iff: "regexp_match dollar_brace s \<longleftrightarrow>
    (\<exists>u w c v. s = u @ ''${'' @ w @ c # v \<and> CHR ''}'' \<notin> set w \<and> c \<in> set '';|&<>$'')"
proof -
  have free: "list_all (none_of ''}'') x \<longleftrightarrow> CHR ''}'' \<notin> set x" for x by (auto simp: none_of_def list_all_iff)
  have m: "matches dollar_brace u w v \<longleftrightarrow> (\<exists>x c. w = ''${'' @ x @ [c] \<and> CHR ''}'' \<notin> set x \<and> c \<in> set '';|&<>$'')" for u w v
    unfolding dollar_brace_def Seq.simps matches_Lit_Cat matches_Star_Cat free by (auto simp: one_of_def)
  show ?thesis unfolding regexp_match_iff m by (auto; metis append.assoc append_Cons append_Nil)
qed

lemma backticks_iff: "hasUnescapedBacktickPair s \<longleftrightarrow>
    (\<exists>u w v. s = u @ [backtick] @ w @ [backtick] @ v \<and> \<not> (u \<noteq> [] \<and> last u = backslash) \<and> \<not> (w \<noteq> [] \<and> last w = backslash))"
proof -
  have b: "backtick \<noteq> backslash" by (simp add: backtick_def backslash_def)
  show ?thesis (is "?l \<longleftrightarrow> ?r")
  proof
    assume ?l
    then obtain u r where u: "s = u @ backtick # r" "if u = [] then None \<noteq> Some backslash else last u \<noteq> backslash" "closes backtick r"
      unfolding hasUnescapedBacktickPair_def backtick_pair_iff by blast
    then obtain w v where w: "r = w @ backtick # v" "(if w = [] then backtick else last w) \<noteq> backslash"
      unfolding closes_iff by blast
    show ?r
      by (intro exI [of _ u] exI [of _ w] exI [of _ v]) (use u w in \<open>auto split: if_splits\<close>)
  next
    assume ?r
    then obtain u w v where m: "s = u @ [backtick] @ w @ [backtick] @ v" "\<not> (u \<noteq> [] \<and> last u = backslash)" "\<not> (w \<noteq> [] \<and> last w = backslash)"
      by blast
    with b have "closes backtick (w @ backtick # v)" by (intro closes_append) auto
    with m have "backtick_pair_from None (u @ backtick # w @ backtick # v)" by (intro backtick_pair_append) auto
    with m(1) show ?l by (simp add: hasUnescapedBacktickPair_def)
  qed
qed

lemma substitution_validator_iff:
  "fst (commandSubstitutionValidator command) = RiskLevelDangerous \<longleftrightarrow> names_substitution command"
  unfolding names_substitution_def backticks_iff [symmetric] angle_paren_iff [symmetric] dollar_paren_iff [symmetric] dollar_brace_iff [symmetric]
  by (auto simp: commandSubstitutionValidator_def commandSubstitutionPatterns_def no_finding_def)



text \<open>Two backslashes before a backtick escape each other, and the shell substitutes; the scanner finds the
  command safe.\<close>

lemma double_backslash_hides_backtick:
  "fst (Scan NewDefaultSecurityScanner (''echo '' @ [backslash, backslash, backtick] @ ''id'' @ [backtick])) = RiskLevelSafe"
  by code_simp

lemma scanned:
  "fst (Scan NewDefaultSecurityScanner ''rm -rf / --no-preserve-root'') = RiskLevelDangerous"
  by code_simp

lemma scanned_option_first:
  "fst (Scan NewDefaultSecurityScanner ''rm -rf --no-preserve-root /'') = RiskLevelSafe"
  by code_simp

lemma scanned_two_options:
  "fst (Scan NewDefaultSecurityScanner ''rm -r -f /'') = RiskLevelSafe"
  by code_simp

lemma scanned_sudo: "fst (Scan NewDefaultSecurityScanner ''sudo ls'') = RiskLevelWarning"
  by code_simp

lemma scanned_sudo_redirect: "fst (Scan NewDefaultSecurityScanner ''sudo>x ls'') = RiskLevelSafe"
  by code_simp

text \<open>
  The form of a deletion of the root that actually deletes it is missed: the option that asks for it
  is recognised only after the path, so with the option where it is usually written, or with the
  options apart, the command is safe; and so is a privileged command followed by a redirection.
\<close>

theorem root_deletion_is_missed:
  "fst (Scan NewDefaultSecurityScanner ''rm -rf / --no-preserve-root'') = RiskLevelDangerous
   \<and> fst (Scan NewDefaultSecurityScanner ''rm -rf --no-preserve-root /'') = RiskLevelSafe
   \<and> fst (Scan NewDefaultSecurityScanner ''rm -r -f /'') = RiskLevelSafe
   \<and> fst (Scan NewDefaultSecurityScanner ''sudo ls'') = RiskLevelWarning
   \<and> fst (Scan NewDefaultSecurityScanner ''sudo>x ls'') = RiskLevelSafe"
  by (simp add: scanned scanned_option_first scanned_two_options scanned_sudo scanned_sudo_redirect)

end
