(* ===== verification/Sed_Guard.thy ===== *)
theory Sed_Guard
  imports Bash_Scan
begin

text \<open>
  The check of \<open>sed\<close> commands (\<open>services/tools/bash/sed_validation.go\<close>) and the parser of in-place
  substitutions (\<open>sed_edit_parser.go\<close>).
\<close>

section \<open>Tokens\<close>

definition single_quote :: char where "single_quote = CHR 0x27"
definition double_quote :: char where "double_quote = CHR 0x22"

definition isShellWhitespace :: "char \<Rightarrow> bool" where
  "isShellWhitespace b \<longleftrightarrow> (of_char b :: nat) \<in> {32, 9, 10, 13}"

definition flush :: "string list \<Rightarrow> string \<Rightarrow> string list" where
  "flush tokens current = (if current = [] then tokens else tokens @ [current])"

fun token_loop :: "string \<Rightarrow> string list \<Rightarrow> string \<Rightarrow> bool \<Rightarrow> bool \<Rightarrow> bool \<Rightarrow> string list option" where
  "token_loop [] tokens current single double escaped =
    (if single \<or> double then None else Some (flush tokens current))"
| "token_loop (c # s) tokens current single double escaped =
    (if escaped then token_loop s tokens (current @ [c]) single double False
     else if c = backslash \<and> \<not> single then token_loop s tokens current single double True
     else if c = single_quote \<and> \<not> double then token_loop s tokens current (\<not> single) double False
     else if c = double_quote \<and> \<not> single then token_loop s tokens current single (\<not> double) False
     else if isShellWhitespace c then
       (if single \<or> double then token_loop s tokens (current @ [c]) single double False
        else token_loop s (flush tokens current) [] single double False)
     else token_loop s tokens (current @ [c]) single double False)"

definition tokenizeShellCommand :: "string \<Rightarrow> string list option" where
  "tokenizeShellCommand input = token_loop input [] [] False False False"

text \<open>What follows \<open>sed\<close> in a call of it: \<open>None\<close> when the command is none.\<close>

definition sed_rest :: "string \<Rightarrow> string option" where
  "sed_rest command =
    (let trimmed = trim_space command; rest = drop 3 trimmed in
     if has_prefix trimmed ''sed'' \<and> rest \<noteq> [] \<and> (hd rest = CHR '' '' \<or> hd rest = CHR 0x09)
     then Some (trim_space rest) else None)"

section \<open>Expressions\<close>

definition digits :: regexp where "digits = Plus (Cls is_digit)"
definition slash_free :: regexp where "slash_free = Star (Cls (none_of ''/''))"
definition danger :: regexp where "danger = Cls (one_of ''wWeE'')"

text \<open>The text after the last delimiter, of two or three.\<close>

fun subst_scan :: "char \<Rightarrow> string \<Rightarrow> bool \<Rightarrow> nat \<Rightarrow> string \<Rightarrow> string option" where
  "subst_scan d [] escaped n after = (if n < 2 then None else Some after)"
| "subst_scan d (c # s) escaped n after =
    (if escaped then subst_scan d s False n after
     else if c = backslash then subst_scan d s True n after
     else if c = d then (if n + 1 = 3 then Some s else subst_scan d s False (n + 1) s)
     else subst_scan d s False n after)"

definition parseSedSubstitutionFlags :: "string \<Rightarrow> string option" where
  "parseSedSubstitutionFlags cmd =
    (case cmd of
       c # d # s \<Rightarrow> if c = CHR ''s'' \<and> d \<noteq> backslash \<and> d \<noteq> CHR 0x0A then subst_scan d s False 0 [] else None
     | _ \<Rightarrow> None)"

definition has_danger :: "string \<Rightarrow> bool" where
  "has_danger flags \<longleftrightarrow> list_ex (one_of ''wWeE'') flags"

text \<open>A comment: the first \<open>#\<close> does not follow an \<open>s\<close>.\<close>

definition has_comment :: "string \<Rightarrow> bool" where
  "has_comment cmd \<longleftrightarrow> CHR ''#'' \<in> set cmd \<and>
    (let before = takeWhile (\<lambda>c. c \<noteq> CHR ''#'') cmd in \<not> (before \<noteq> [] \<and> last before = CHR ''s''))"

definition address_flags :: regexp where
  "address_flags = Star (Cls (one_of ''IMim''))"

text \<open>The addresses of the patterns for writing and executing, with and without the class of flags.\<close>

definition sed_addresses :: "regexp list" where
  "sed_addresses =
    [digits, Lit ''$'', Seq [Lit ''/'', slash_free, Lit ''/'', address_flags],
     Seq [digits, Lit '','', digits], Seq [digits, Lit '',$''],
     Seq [Lit ''/'', slash_free, Lit ''/'', address_flags, Lit '','', Lit ''/'', slash_free, Lit ''/'', address_flags]]"

definition writePatterns :: "regexp list" where
  "writePatterns = (let w = [Cls (one_of ''wW''), blanks, Plus (Cls (\<lambda>c. \<not> rx_space c))] in
     Seq (Bol # w) # map (\<lambda>a. Seq (Bol # a # blanks # w)) sed_addresses)"

definition execPatterns :: "regexp list" where
  "execPatterns = Seq [Bol, Lit ''e''] # map (\<lambda>a. Seq [Bol, a, blanks, Lit ''e'']) sed_addresses"

definition non_ascii :: regexp where
  "non_ascii = Cls (\<lambda>c. (of_char c :: nat) = 0 \<or> 127 < (of_char c :: nat))"

definition negation :: regexp where
  "negation = Alt (Seq [Bol, Lit ''!'']) (Seq [Cls (\<lambda>c. is_digit c \<or> one_of ''/$'' c), Lit ''!''])"

definition step_address :: regexp where
  "step_address = Alts [Seq [Cls is_digit, blanks, Lit ''~'', blanks, Cls is_digit],
     Seq [Lit '','', blanks, Lit ''~'', blanks, Cls is_digit], Seq [Lit ''$'', blanks, Lit ''~'', blanks, Cls is_digit]]"

definition comma_sign :: regexp where
  "comma_sign = Seq [Lit '','', blanks, Cls (one_of ''+-'')]"

definition backslash_trick :: regexp where
  "backslash_trick = Alt (Lit [CHR ''s'', backslash]) (Seq [Lit [backslash], Cls (one_of ''|#%@'')])"

definition escaped_slash_write :: regexp where
  "escaped_slash_write = Seq [Lit [backslash, CHR ''/''], Star (Cls rx_dot), Cls (one_of ''wW'')]"

definition slash_then_danger :: regexp where
  "slash_then_danger = Seq [Lit ''/'', slash_free, Plus (Cls rx_space), danger]"

definition well_formed_substitution :: regexp where
  "well_formed_substitution = Seq [Bol, Lit ''s/'', slash_free, Lit ''/'', slash_free, Lit ''/'', slash_free, Eol]"

definition containsDangerousOperations :: "string \<Rightarrow> bool" where
  "containsDangerousOperations expression =
    (let cmd = trim_space expression; flags = parseSedSubstitutionFlags cmd in
     if cmd = '''' then False
     else regexp_match non_ascii cmd
       \<or> list_ex (\<lambda>c. one_of ''{}'' c \<or> c = CHR 0x0A) cmd
       \<or> has_comment cmd
       \<or> regexp_match negation cmd
       \<or> regexp_match step_address cmd
       \<or> has_prefix cmd '',''
       \<or> regexp_match comma_sign cmd
       \<or> regexp_match backslash_trick cmd
       \<or> regexp_match escaped_slash_write cmd
       \<or> regexp_match slash_then_danger cmd
       \<or> (has_prefix cmd ''s/'' \<and> \<not> regexp_match well_formed_substitution cmd)
       \<or> (regexp_match (Seq [Bol, Lit ''s'', Cls rx_dot]) cmd \<and> regexp_match (Seq [danger, Eol]) cmd
          \<and> (case flags of None \<Rightarrow> True | Some f \<Rightarrow> has_danger f))
       \<or> list_ex (\<lambda>r. regexp_match r cmd) writePatterns
       \<or> list_ex (\<lambda>r. regexp_match r cmd) execPatterns
       \<or> (has_prefix cmd ''s'' \<and> (case flags of None \<Rightarrow> False | Some f \<Rightarrow> has_danger f))
       \<or> (has_prefix cmd ''y'' \<and> has_danger cmd))"

definition print_command :: regexp where
  "print_command = Seq [Bol, Opt (Alt digits (Seq [digits, Lit '','', digits])), Lit ''p'', Eol]"

definition isPrintCommand :: "string \<Rightarrow> bool" where
  "isPrintCommand cmd \<longleftrightarrow> cmd \<noteq> '''' \<and> regexp_match print_command cmd"

fun extract_loop :: "bool \<Rightarrow> bool \<Rightarrow> string list \<Rightarrow> string list" where
  "extract_loop foundE foundX [] = []"
| "extract_loop foundE foundX (arg # rest) =
    (if (arg = ''-e'' \<or> arg = ''--expression'') \<and> rest \<noteq> [] then hd rest # extract_loop True foundX (tl rest)
     else if has_prefix arg ''--expression='' then trim_prefix arg ''--expression='' # extract_loop True foundX rest
     else if has_prefix arg ''-e='' then trim_prefix arg ''-e='' # extract_loop True foundX rest
     else if has_prefix arg ''-'' then extract_loop foundE foundX rest
     else if \<not> foundE \<and> \<not> foundX then arg # extract_loop foundE True rest
     else [])"

definition extractSedExpressions :: "string \<Rightarrow> string list" where
  "extractSedExpressions command =
    (case sed_rest command of
       None \<Rightarrow> []
     | Some rest \<Rightarrow>
        if regexp_match (Seq [Lit ''-e'', Cls (one_of ''wWe'')]) rest \<or> regexp_match (Seq [Lit ''-w'', Cls (one_of ''eE'')]) rest
        then []
        else (case tokenizeShellCommand rest of None \<Rightarrow> [] | Some tokens \<Rightarrow> extract_loop False False tokens))"

section \<open>The check\<close>

definition allowed_flags :: "bool \<Rightarrow> string list" where
  "allowed_flags allowFileWrites =
    [''-E'', ''-r'', ''--regexp-extended'', ''--posix'', ''-n'', ''--quiet'', ''--silent'', ''-z'', ''--zero-terminated'']
      @ (if allowFileWrites then [''-i'', ''--in-place''] else [])"

definition isFlagAllowed :: "string \<Rightarrow> string list \<Rightarrow> bool" where
  "isFlagAllowed flag allowed =
    (if has_prefix flag ''--'' then flag \<in> set allowed
     else if length flag > 2 then list_all (\<lambda>c. [CHR ''-'', c] \<in> set allowed) (tl flag)
     else flag \<in> set allowed)"

definition is_subst :: "string \<Rightarrow> bool" where
  "is_subst e \<longleftrightarrow> has_prefix (trim_space e) ''s/''"

definition sedCommandIsAllowed :: "string \<Rightarrow> bool \<Rightarrow> bool" where
  "sedCommandIsAllowed command allowFileWrites =
    (let trimmed = trim_space command; rest = drop 3 trimmed in
     if \<not> has_prefix trimmed ''sed'' then True
     else if rest = [] then False
     else if hd rest \<noteq> CHR '' '' \<and> hd rest \<noteq> CHR 0x09 then True
     else case tokenizeShellCommand (trim_space rest) of
       None \<Rightarrow> False
     | Some tokens \<Rightarrow>
        let flags = filter (\<lambda>t. has_prefix t ''-'' \<and> t \<noteq> ''--'') tokens; es = extractSedExpressions command in
        list_all (\<lambda>f. isFlagAllowed f (allowed_flags allowFileWrites)) flags
        \<and> es \<noteq> []
        \<and> \<not> list_ex containsDangerousOperations es
        \<and> list_all (\<lambda>e. is_subst e \<or> isPrintCommand (trim_space e)) es
        \<and> \<not> (allowFileWrites \<and> \<not> list_ex is_subst es)
        \<and> (list_ex is_subst es \<longrightarrow> list_all (\<lambda>e. CHR '';'' \<notin> set e) es))"

text \<open>Whether files are named.\<close>

fun file_args :: "nat \<Rightarrow> bool \<Rightarrow> string list \<Rightarrow> bool" where
  "file_args n hasE [] \<longleftrightarrow> False"
| "file_args n hasE (arg # rest) \<longleftrightarrow>
    (if (arg = ''-e'' \<or> arg = ''--expression'') \<and> rest \<noteq> [] then file_args n True (tl rest)
     else if has_prefix arg ''--expression='' \<or> has_prefix arg ''-e='' then file_args n True rest
     else if has_prefix arg ''-'' then file_args n hasE rest
     else hasE \<or> n + 1 > 1 \<or> file_args (n + 1) hasE rest)"

definition sedHasFileArgs :: "string \<Rightarrow> bool" where
  "sedHasFileArgs command =
    (case sed_rest command of
       None \<Rightarrow> False
     | Some rest \<Rightarrow> (case tokenizeShellCommand rest of None \<Rightarrow> True | Some tokens \<Rightarrow> file_args 0 False tokens))"

section \<open>In-place substitutions\<close>

record sed_edit =
  se_FilePath :: string
  se_Pattern :: string
  se_Replacement :: string
  se_Flags :: string
  se_ExtendedRegex :: bool

record sed_args =
  sa_inPlace :: bool
  sa_extended :: bool
  sa_expression :: "string option"
  sa_file :: "string option"

fun edit_args :: "string list \<Rightarrow> sed_args \<Rightarrow> sed_args option" where
  "edit_args [] a = Some a"
| "edit_args (arg # rest) a =
    (if arg = ''-i'' \<or> arg = ''--in-place'' then
       edit_args (if rest \<noteq> [] \<and> has_prefix (hd rest) ''.'' then tl rest else rest) (a\<lparr>sa_inPlace := True\<rparr>)
     else if has_prefix arg ''-i'' then edit_args rest (a\<lparr>sa_inPlace := True\<rparr>)
     else if arg = ''-E'' \<or> arg = ''-r'' \<or> arg = ''--regexp-extended'' then edit_args rest (a\<lparr>sa_extended := True\<rparr>)
     else if arg = ''-e'' \<or> arg = ''--expression'' then
       (if rest = [] \<or> sa_expression a \<noteq> None then None
        else edit_args (tl rest) (a\<lparr>sa_expression := Some (hd rest)\<rparr>))
     else if has_prefix arg ''--expression='' then
       (if sa_expression a \<noteq> None then None
        else edit_args rest (a\<lparr>sa_expression := Some (trim_prefix arg ''--expression='')\<rparr>))
     else if has_prefix arg ''-'' then None
     else if sa_expression a = None then edit_args rest (a\<lparr>sa_expression := Some arg\<rparr>)
     else if sa_file a = None then edit_args rest (a\<lparr>sa_file := Some arg\<rparr>)
     else None)"

text \<open>The parts of a substitution after \<open>s/\<close>: the number of delimiters seen selects the part.\<close>

fun subst_parts :: "string \<Rightarrow> string \<Rightarrow> string list \<Rightarrow> string list option" where
  "subst_parts [] cur done_parts = Some (done_parts @ [cur])"
| "subst_parts (c # s) cur done_parts =
    (if c = backslash \<and> s \<noteq> [] then subst_parts (tl s) (cur @ [c, hd s]) done_parts
     else if c = CHR ''/'' then (if length done_parts = 2 then None else subst_parts s [] (done_parts @ [cur]))
     else subst_parts s (cur @ [c]) done_parts)"

definition valid_flag :: "char \<Rightarrow> bool" where
  "valid_flag c \<longleftrightarrow> c \<in> set ''gpimIM'' \<or> c \<in> set ''123456789''"

definition parseSedEditCommand :: "string \<Rightarrow> sed_edit option" where
  "parseSedEditCommand command =
    (case Option.bind (sed_rest command) tokenizeShellCommand of
       None \<Rightarrow> None
     | Some tokens \<Rightarrow>
        (case edit_args tokens \<lparr>sa_inPlace = False, sa_extended = False, sa_expression = None, sa_file = None\<rparr> of
           None \<Rightarrow> None
         | Some a \<Rightarrow>
            (case (sa_inPlace a, sa_expression a, sa_file a) of
               (True, Some e, Some f) \<Rightarrow>
                 if \<not> has_prefix e ''s/'' then None
                 else (case subst_parts (drop 2 e) [] [] of
                   Some [p, r, fl] \<Rightarrow> if list_all valid_flag fl then
                     Some \<lparr>se_FilePath = f, se_Pattern = p, se_Replacement = r, se_Flags = fl, se_ExtendedRegex = sa_extended a\<rparr>
                   else None
                 | _ \<Rightarrow> None)
             | _ \<Rightarrow> None)))"

definition isSedInPlaceEdit :: "string \<Rightarrow> bool" where
  "isSedInPlaceEdit command \<longleftrightarrow> parseSedEditCommand command \<noteq> None"

section \<open>What the check lets through\<close>

lemma script_flags_refused:
  assumes "isFlagAllowed f (allowed_flags w)"
  shows "f \<noteq> ''-e''" "f \<noteq> ''--expression''" "\<not> has_prefix f ''--expression=''" "\<not> has_prefix f ''-e=''"
proof -
  show "f \<noteq> ''-e''" "f \<noteq> ''--expression''"
    using assms by (auto simp: isFlagAllowed_def allowed_flags_def has_prefix_def split: if_splits)
  show "\<not> has_prefix f ''--expression=''"
  proof
    assume "has_prefix f ''--expression=''"
    then obtain r where "f = ''--expression='' @ r" unfolding has_prefix_iff by blast
    with assms show False by (auto simp: isFlagAllowed_def allowed_flags_def has_prefix_def split: if_splits)
  qed
  show "\<not> has_prefix f ''-e=''"
  proof
    assume "has_prefix f ''-e=''"
    then obtain r where "f = ''-e='' @ r" unfolding has_prefix_iff by blast
    with assms show False by (auto simp: isFlagAllowed_def allowed_flags_def has_prefix_def split: if_splits)
  qed
qed

definition flags_allowed :: "string list \<Rightarrow> bool \<Rightarrow> bool" where
  "flags_allowed tokens w \<longleftrightarrow>
    list_all (\<lambda>f. isFlagAllowed f (allowed_flags w)) (filter (\<lambda>t. has_prefix t ''-'' \<and> t \<noteq> ''--'') tokens)"

text \<open>With such flags the script is the first token that is no flag.\<close>

lemma extract_one:
  assumes "flags_allowed tokens w"
  shows "extract_loop False True tokens = []"
    and "extract_loop False False tokens = (case find (\<lambda>t. \<not> has_prefix t ''-'') tokens of None \<Rightarrow> [] | Some e \<Rightarrow> [e])"
proof -
  have plain: "t \<noteq> ''-e'' \<and> t \<noteq> ''--expression'' \<and> \<not> has_prefix t ''--expression='' \<and> \<not> has_prefix t ''-e=''"
    if "flags_allowed (t # ts) w" for t ts
  proof (cases "has_prefix t ''-'' \<and> t \<noteq> ''--''")
    case True
    with that have "isFlagAllowed t (allowed_flags w)" by (simp add: flags_allowed_def)
    from script_flags_refused [OF this] show ?thesis by blast
  next
    case False
    then show ?thesis by (auto simp: has_prefix_iff)
  qed
  have tl: "flags_allowed ts w" if "flags_allowed (t # ts) w" for t ts
    using that by (simp add: flags_allowed_def split: if_splits)
  have one: "extract_loop False True ts = []" if "flags_allowed ts w" for ts
    using that
  proof (induction ts)
    case (Cons t ts)
    then show ?case using plain [OF Cons.prems] tl [OF Cons.prems] by simp
  qed simp
  show "extract_loop False True tokens = []" by (rule one [OF assms])
  show "extract_loop False False tokens = (case find (\<lambda>t. \<not> has_prefix t ''-'') tokens of None \<Rightarrow> [] | Some e \<Rightarrow> [e])"
    using assms
  proof (induction tokens)
    case (Cons t ts)
    then show ?case using plain [OF Cons.prems] tl [OF Cons.prems] one by simp
  qed simp
qed

lemma well_formed_iff: "regexp_match well_formed_substitution s \<longleftrightarrow>
    (\<exists>p r fl. s = ''s/'' @ p @ ''/'' @ r @ ''/'' @ fl \<and> CHR ''/'' \<notin> set p \<and> CHR ''/'' \<notin> set r \<and> CHR ''/'' \<notin> set fl)"
proof -
  have free: "list_all (none_of ''/'') x \<longleftrightarrow> CHR ''/'' \<notin> set x" for x by (auto simp: none_of_def list_all_iff)
  have "regexp_match well_formed_substitution s \<longleftrightarrow> (\<exists>w v. s = w @ v \<and> (\<exists>x. w = ''s/'' @ x \<and> (\<exists>p y. x = p @ y
      \<and> CHR ''/'' \<notin> set p \<and> (\<exists>z. y = ''/'' @ z \<and> (\<exists>r t. z = r @ t \<and> CHR ''/'' \<notin> set r
      \<and> (\<exists>f. t = ''/'' @ f \<and> (\<exists>fl g. f = fl @ g \<and> CHR ''/'' \<notin> set fl \<and> g = [] \<and> v = [])))))))"
    unfolding well_formed_substitution_def slash_free_def Seq.simps anchored_match matches_Lit_Cat matches_Star_Cat free
      matches.simps(7) by simp
  note iff = this
  show ?thesis (is "?l \<longleftrightarrow> ?r")
  proof
    assume ?l
    with iff obtain w v x p y z r t f fl g where "s = w @ v" "w = ''s/'' @ x" "x = p @ y" "CHR ''/'' \<notin> set p" "y = ''/'' @ z"
        "z = r @ t" "CHR ''/'' \<notin> set r" "t = ''/'' @ f" "f = fl @ g" "CHR ''/'' \<notin> set fl" "g = []" "v = []" by blast
    then have "s = ''s/'' @ p @ ''/'' @ r @ ''/'' @ fl \<and> CHR ''/'' \<notin> set p \<and> CHR ''/'' \<notin> set r \<and> CHR ''/'' \<notin> set fl" by simp
    then show ?r by blast
  next
    assume ?r
    then obtain p r fl where "s = ''s/'' @ p @ ''/'' @ r @ ''/'' @ fl" "CHR ''/'' \<notin> set p" "CHR ''/'' \<notin> set r" "CHR ''/'' \<notin> set fl"
      by blast
    then have s: "s = (''s/'' @ p @ ''/'' @ r @ ''/'' @ fl @ []) @ []"
        and f: "list_all (none_of ''/'') p" "list_all (none_of ''/'') r" "list_all (none_of ''/'') fl" by (simp_all add: free)
    have "matches (Seq [Lit ''s/'', slash_free, Lit ''/'', slash_free, Lit ''/'', slash_free, Eol]) []
        (''s/'' @ p @ ''/'' @ r @ ''/'' @ fl @ []) []"
      unfolding Seq.simps slash_free_def by (intro matches_CatI) (simp_all add: f)
    then show ?l unfolding well_formed_substitution_def Seq.simps anchored_match using s by blast
  qed
qed

lemma print_shape: "isPrintCommand s \<Longrightarrow> \<exists>a. s = a @ ''p'' \<and> list_all (\<lambda>c. is_digit c \<or> c = CHR '','') a"
  unfolding isPrintCommand_def print_command_def digits_def Opt_def Plus_def
  by (fastforce simp: anchored_match list_all_iff)

text \<open>How \<open>sed\<close> itself divides what follows \<open>s/\<close>: at each slash that no backslash escapes.\<close>

definition glue :: "string \<Rightarrow> string list \<Rightarrow> string list" where
  "glue x ws = (case ws of [] \<Rightarrow> [x] | w # vs \<Rightarrow> (x @ w) # vs)"

fun sed_split :: "string \<Rightarrow> string list" where
  "sed_split [] = [[]]"
| "sed_split [c] = (if c = CHR ''/'' then [[], []] else [[c]])"
| "sed_split (c # d # s) =
    (if c = CHR ''/'' then [] # sed_split (d # s)
     else if c = backslash then glue [c, d] (sed_split s)
     else glue [c] (sed_split (d # s)))"

text \<open>A substitution whose flags, as \<open>sed\<close> reads them, neither write nor execute. With fewer than three
  parts \<open>sed\<close> rejects the script as unterminated.\<close>

definition harmless_subst :: "string \<Rightarrow> bool" where
  "harmless_subst e \<longleftrightarrow> (\<exists>body. e = ''s/'' @ body \<and> length (sed_split body) \<le> 3
     \<and> (\<forall>p r fl. sed_split body = [p, r, fl] \<longrightarrow> \<not> has_danger fl))"

definition harmless_print :: "string \<Rightarrow> bool" where
  "harmless_print e \<longleftrightarrow> (\<exists>a. e = a @ ''p'' \<and> list_all (\<lambda>c. is_digit c \<or> c = CHR '','') a)"

lemma glue_simps [simp]: "glue x ws \<noteq> []" "length (glue x ws) = max 1 (length ws)"
  by (simp_all add: glue_def split: list.split)

lemma sed_split_not_Nil [simp]: "sed_split s \<noteq> []"
  by (induction s rule: sed_split.induct) simp_all

lemma glue_Cons: "ws \<noteq> [] \<Longrightarrow> glue x ws = v # vs \<longleftrightarrow> (\<exists>w. ws = w # vs \<and> v = x @ w)"
  by (cases ws) (auto simp: glue_def)

text \<open>The scan of the check agrees with the division: what it finds after the last delimiter is the last part.\<close>

lemma slash_no_backslash [simp]: "CHR ''/'' \<noteq> backslash" "backslash \<noteq> CHR ''/''"
  by (simp_all add: backslash_def)

lemma scan_two: "sed_split s = [fl] \<Longrightarrow> subst_scan (CHR ''/'') s False 2 after = Some after \<and> fl = s"
proof (induction s arbitrary: fl rule: sed_split.induct)
  case (3 c d s)
  then show ?case by (auto simp: glue_Cons split: if_splits)
qed (auto split: if_splits)

lemma scan_one: "sed_split s = [r, fl] \<Longrightarrow> subst_scan (CHR ''/'') s False 1 after = Some fl"
proof (induction s arbitrary: r after rule: sed_split.induct)
  case (3 c d s)
  then show ?case using scan_two [of "d # s" fl "d # s"]
    by (auto simp: glue_Cons numeral_2_eq_2 split: if_splits)
qed (auto split: if_splits)

lemma scan_zero: "sed_split s = [p, r, fl] \<Longrightarrow> subst_scan (CHR ''/'') s False 0 after = Some fl"
proof (induction s arbitrary: p after rule: sed_split.induct)
  case (3 c d s)
  then show ?case using scan_one [of "d # s" r fl "d # s"]
    by (auto simp: glue_Cons split: if_splits)
qed (auto split: if_splits)

lemma sed_split_length: "length (sed_split s) \<le> Suc (length (filter (\<lambda>c. c = CHR ''/'') s))"
  by (induction s rule: sed_split.induct) auto

lemma safe_subst_harmless:
  assumes "\<not> containsDangerousOperations e" and "is_subst e"
  shows "harmless_subst (trim_space e)"
proof -
  let ?c = "trim_space e"
  have s: "has_prefix ?c ''s/''" using assms(2) by (simp add: is_subst_def)
  then have "?c \<noteq> []" "has_prefix ?c ''s''" by (auto simp: has_prefix_iff)
  with assms(1) s have w: "regexp_match well_formed_substitution ?c"
      and d: "case parseSedSubstitutionFlags ?c of None \<Rightarrow> True | Some f \<Rightarrow> \<not> has_danger f"
    by (auto simp: containsDangerousOperations_def Let_def split: option.splits)
  obtain p r fl where c: "?c = ''s/'' @ p @ ''/'' @ r @ ''/'' @ fl"
      "CHR ''/'' \<notin> set p" "CHR ''/'' \<notin> set r" "CHR ''/'' \<notin> set fl"
    using w unfolding well_formed_iff by blast
  have none: "filter (\<lambda>c. c = CHR ''/'') x = []" if "CHR ''/'' \<notin> set x" for x
    using that by (auto simp: filter_empty_conv)
  let ?body = "p @ ''/'' @ r @ ''/'' @ fl"
  have "length (sed_split ?body) \<le> 3" using sed_split_length [of ?body] c(2-4) by (simp add: none)
  moreover have "\<not> has_danger fl'" if "sed_split ?body = [p', r', fl']" for p' r' fl'
    using scan_zero [OF that] d by (simp add: c(1) parseSedSubstitutionFlags_def backslash_def)
  ultimately show ?thesis unfolding harmless_subst_def using c(1) by blast
qed



end
