(* ===== verification/Tool_Schema.thy ===== *)
theory Tool_Schema
  imports Conversation Paths
begin

text \<open>
  The schemas of tool inputs (\<open>core/tool/schema.go\<close>): rendering, validation and the typed decoding of
  an accepted input.

  An input is the map \<open>json.Unmarshal\<close> makes of the model's text, so a number is a \<open>float64\<close> and
  \<open>JNum\<close> holds the text \<open>json.Marshal\<close> writes for it. A Go map has no order: the list of the
  properties stands for the order in which one run visits them. Log lines are left out.
\<close>

section \<open>Schemas\<close>

datatype value_kind = KindString | KindInteger | KindNumber | KindBoolean | KindObject | KindArray | KindOther string

fun kind_text :: "value_kind \<Rightarrow> string" where
  "kind_text KindString = ''string''"
| "kind_text KindInteger = ''integer''"
| "kind_text KindNumber = ''number''"
| "kind_text KindBoolean = ''boolean''"
| "kind_text KindObject = ''object''"
| "kind_text KindArray = ''array''"
| "kind_text (KindOther s) = s"

datatype field_schema =
  FieldSchema (fs_Type: value_kind) (fs_Description: string) (fs_Required: bool) (fs_Items: "field_schema option")

type_synonym input_schema = "(string \<times> field_schema) list"

fun field_json :: "field_schema \<Rightarrow> json" where
  "field_json (FieldSchema k d r it) = JObj
    ([(''type'', JStr (kind_text k))]
     @ (if d \<noteq> '''' then [(''description'', JStr d)] else [])
     @ (case it of None \<Rightarrow> [] | Some f \<Rightarrow> if k = KindArray then [(''items'', field_json f)] else []))"

definition JSONSchema :: "input_schema \<Rightarrow> json" where
  "JSONSchema s =
    (let required = sort (map fst (filter (\<lambda>(n, f). fs_Required f) s)) in
     JObj ([(''type'', JStr ''object''), (''properties'', JObj (map (\<lambda>(n, f). (n, field_json f)) s))]
       @ (if required \<noteq> [] then [(''required'', JArr (map JStr required))] else [])))"

section \<open>Validation\<close>

text \<open>\<open>math.Trunc(v) == v\<close> on the shortest text of a \<open>float64\<close>: the exponent form stands for
  numbers from \<open>1e21\<close>, all of them integers, and below \<open>1e-6\<close>, none of them.\<close>

definition isIntegerValue :: "json \<Rightarrow> bool" where
  "isIntegerValue v \<longleftrightarrow> (case v of
     JNum s \<Rightarrow> if CHR ''e'' \<in> set s then str_contains s ''e+'' else CHR ''.'' \<notin> set s
   | _ \<Rightarrow> False)"

definition isNumericValue :: "json \<Rightarrow> bool" where
  "isNumericValue v \<longleftrightarrow> (case v of JNum s \<Rightarrow> True | _ \<Rightarrow> False)"

definition isObjectValue :: "json \<Rightarrow> bool" where
  "isObjectValue v \<longleftrightarrow> (case v of JObj kvs \<Rightarrow> True | _ \<Rightarrow> False)"

definition asArray :: "json \<Rightarrow> json list option" where
  "asArray v = (case v of JArr vs \<Rightarrow> Some vs | _ \<Rightarrow> None)"

definition is_str :: "json \<Rightarrow> bool" where
  "is_str v \<longleftrightarrow> (case v of JStr s \<Rightarrow> True | _ \<Rightarrow> False)"

definition is_bool :: "json \<Rightarrow> bool" where
  "is_bool v \<longleftrightarrow> (case v of JBool b \<Rightarrow> True | _ \<Rightarrow> False)"

definition must_be :: "bool \<Rightarrow> string \<Rightarrow> string \<Rightarrow> string option" where
  "must_be ok path what = (if ok then None else Some (''tool schema: field '' @ go_quote path @ '' must be '' @ what))"

function validateFieldValue :: "string \<Rightarrow> field_schema \<Rightarrow> json \<Rightarrow> string option"
  and validate_items :: "string \<Rightarrow> field_schema \<Rightarrow> nat \<Rightarrow> json list \<Rightarrow> string option" where
  "validateFieldValue path (FieldSchema k d r it) value =
    (case k of
       KindString \<Rightarrow> must_be (is_str value) path ''a string''
     | KindInteger \<Rightarrow> must_be (isIntegerValue value) path ''an integer''
     | KindNumber \<Rightarrow> must_be (isNumericValue value) path ''a number''
     | KindBoolean \<Rightarrow> must_be (is_bool value) path ''a boolean''
     | KindObject \<Rightarrow> must_be (isObjectValue value) path ''an object''
     | KindArray \<Rightarrow> (case asArray value of
          None \<Rightarrow> must_be False path ''an array''
        | Some vs \<Rightarrow> (case it of None \<Rightarrow> None | Some f \<Rightarrow> validate_items path f 0 vs))
     | KindOther s \<Rightarrow> Some (''tool schema: field '' @ go_quote path @ '' uses unsupported type '' @ go_quote s))"
| "validate_items path f i [] = None"
| "validate_items path f i (v # vs) =
    (case validateFieldValue (path @ ''['' @ nat_str i @ '']'') f v of
       Some e \<Rightarrow> Some e
     | None \<Rightarrow> validate_items path f (Suc i) vs)"
  by pat_completeness auto

termination
  by (relation "inv_image (less_than <*lex*> less_than)
      (\<lambda>x. case x of Inl (p, f, v) \<Rightarrow> (size f, 0) | Inr (p, f, i, vs) \<Rightarrow> (size f, Suc (length vs)))") auto

definition firstSortedKey :: "(string \<times> json) list \<Rightarrow> string" where
  "firstSortedKey values = (case sort (map fst values) of [] \<Rightarrow> '''' | k # ks \<Rightarrow> k)"

definition unknown_fields :: "(string \<times> json) list \<Rightarrow> input_schema \<Rightarrow> (string \<times> json) list" where
  "unknown_fields values allowed = filter (\<lambda>(k, v). k \<notin> fst ` set allowed) values"

definition firstSortedUnknownKey :: "(string \<times> json) list \<Rightarrow> input_schema \<Rightarrow> string" where
  "firstSortedUnknownKey values allowed = firstSortedKey (unknown_fields values allowed)"

definition unexpected :: "string \<Rightarrow> string" where
  "unexpected k = ''tool schema: unexpected field '' @ go_quote k"

fun validate_properties :: "input_schema \<Rightarrow> (string \<times> json) list \<Rightarrow> string option" where
  "validate_properties [] input = None"
| "validate_properties ((n, f) # s) input =
    (case map_of input n of
       None \<Rightarrow> if fs_Required f then Some (''tool schema: missing required field '' @ go_quote n)
               else validate_properties s input
     | Some v \<Rightarrow> (case validateFieldValue n f v of
          Some e \<Rightarrow> Some e
        | None \<Rightarrow> validate_properties s input))"

definition input_fields :: "tool_input \<Rightarrow> (string \<times> json) list" where
  "input_fields input = (case input of None \<Rightarrow> [] | Some kvs \<Rightarrow> kvs)"

definition Validate :: "input_schema \<Rightarrow> tool_input \<Rightarrow> string option" where
  "Validate s input0 =
    (let input = input_fields input0 in
     if s = [] \<and> input \<noteq> [] then Some (unexpected (firstSortedKey input))
     else case validate_properties s input of
       Some e \<Rightarrow> Some e
     | None \<Rightarrow>
         if unknown_fields input s \<noteq> [] then Some (unexpected (firstSortedUnknownKey input s)) else None)"

section \<open>Decoding\<close>

text \<open>
  \<open>DecodeInput\<close> marshals an accepted input and decodes it into the tool's own structure, whose fields
  are named after the properties; an absent field keeps the zero value. Only a number can still fail
  here: one that does not fit the integer type.
\<close>

type_synonym 'a getter = "(string \<times> json) list \<Rightarrow> string + 'a"

definition get_string :: "string \<Rightarrow> string getter" where
  "get_string n kvs = (case map_of kvs n of Some (JStr s) \<Rightarrow> Inr s | _ \<Rightarrow> Inr '''')"

definition get_bool :: "string \<Rightarrow> bool getter" where
  "get_bool n kvs = (case map_of kvs n of Some (JBool b) \<Rightarrow> Inr b | _ \<Rightarrow> Inr False)"

definition get_int :: "string \<Rightarrow> int getter" where
  "get_int n kvs = (case map_of kvs n of
     Some (JNum s) \<Rightarrow> (case atoi s of
        Some i \<Rightarrow> Inr i
      | None \<Rightarrow> Inl (''tool schema: decode input: json: cannot unmarshal number '' @ s
          @ '' into Go struct field Input.'' @ n @ '' of type int''))
   | _ \<Rightarrow> Inr 0)"

definition DecodeInput :: "input_schema \<Rightarrow> 'a getter \<Rightarrow> tool_input \<Rightarrow> string + 'a" where
  "DecodeInput s decode input = (case Validate s input of
     Some e \<Rightarrow> Inl e
   | None \<Rightarrow> decode (input_fields input))"

section \<open>Accepted inputs\<close>

text \<open>The types of the schema language, as a relation.\<close>

inductive inhabits :: "json \<Rightarrow> field_schema \<Rightarrow> bool" where
  str: "inhabits (JStr s) (FieldSchema KindString d r it)"
| int: "isIntegerValue v \<Longrightarrow> inhabits v (FieldSchema KindInteger d r it)"
| num: "inhabits (JNum s) (FieldSchema KindNumber d r it)"
| bool: "inhabits (JBool b) (FieldSchema KindBoolean d r it)"
| obj: "inhabits (JObj kvs) (FieldSchema KindObject d r it)"
| arr: "inhabits (JArr vs) (FieldSchema KindArray d r None)"
| arr_of: "\<forall>v\<in>set vs. inhabits v f \<Longrightarrow> inhabits (JArr vs) (FieldSchema KindArray d r (Some f))"

inductive_cases inhabitsE: "inhabits v (FieldSchema k d r it)"

definition well_typed :: "input_schema \<Rightarrow> (string \<times> json) list \<Rightarrow> bool" where
  "well_typed s kvs \<longleftrightarrow>
    fst ` set kvs \<subseteq> fst ` set s \<and>
    (\<forall>(n, f) \<in> set s. case map_of kvs n of None \<Rightarrow> \<not> fs_Required f | Some v \<Rightarrow> inhabits v f)"

lemma must_be_None [simp]: "must_be ok path what = None \<longleftrightarrow> ok"
  by (simp add: must_be_def)

lemma is_kind_iff: "is_str v \<longleftrightarrow> (\<exists>s. v = JStr s)" "is_bool v \<longleftrightarrow> (\<exists>b. v = JBool b)"
  "isNumericValue v \<longleftrightarrow> (\<exists>s. v = JNum s)" "isObjectValue v \<longleftrightarrow> (\<exists>kvs. v = JObj kvs)"
  "asArray v = Some vs \<longleftrightarrow> v = JArr vs" "asArray v = None \<longleftrightarrow> (\<nexists>vs. v = JArr vs)"
  by (auto simp: is_str_def is_bool_def isNumericValue_def isObjectValue_def asArray_def split: json.splits)

lemma validateFieldValue_iff:
  "validateFieldValue p f v = None \<longleftrightarrow> inhabits v f"
  "validate_items p f i vs = None \<longleftrightarrow> (\<forall>v\<in>set vs. inhabits v f)"
proof (induction p f v and p f i vs rule: validateFieldValue_validate_items.induct)
  case (1 path k d r it v)
  then show ?case
  proof (cases k)
    case KindArray
    then show ?thesis using 1
      by (cases v; cases it) (auto simp: asArray_def elim!: inhabitsE intro: inhabits.intros)
  qed (auto simp: is_kind_iff elim!: inhabitsE intro: inhabits.intros)
qed (auto split: option.splits)

lemma validate_properties_iff:
  "validate_properties s kvs = None \<longleftrightarrow>
    (\<forall>(n, f) \<in> set s. case map_of kvs n of None \<Rightarrow> \<not> fs_Required f | Some v \<Rightarrow> inhabits v f)"
proof (induction s)
  case (Cons nf s)
  obtain n f where nf: "nf = (n, f)" by (cases nf)
  show ?case
  proof (cases "map_of kvs n")
    case None
    then show ?thesis using Cons nf by simp
  next
    case (Some v)
    then show ?thesis using Cons nf validateFieldValue_iff(1) [of n f v]
      by (cases "validateFieldValue n f v") simp_all
  qed
qed simp

text \<open>
  C22: The validation of a tool input is sound and complete for the schema language: an input is accepted
  exactly when every field it has is declared and has the declared type, through arrays of any
  nesting, and no required field is missing. The answer does not depend on the order in which the
  maps are visited (the message of a refusal does).
\<close>

theorem Validate_iff_well_typed:
  "Validate s input = None \<longleftrightarrow> well_typed s (input_fields input)"
proof -
  have u: "unknown_fields (input_fields input) s \<noteq> [] \<longleftrightarrow> \<not> fst ` set (input_fields input) \<subseteq> fst ` set s"
    by (force simp: unknown_fields_def filter_empty_conv)
  show ?thesis
  proof (cases "s = []")
    case True
    then show ?thesis
      by (cases "input_fields input") (auto simp: Validate_def Let_def well_typed_def unknown_fields_def)
  next
    case False
    then show ?thesis using u
      by (cases "validate_properties s (input_fields input)")
         (auto simp: Validate_def Let_def well_typed_def validate_properties_iff [symmetric])
  qed
qed

end
