(* ===== verification/Background_Tasks.thy ===== *)
theory Background_Tasks
  imports Tool_Execution Tool_Schema
begin

text \<open>
  The store of live background tasks (\<open>runtime/session/background_tasks.go\<close>,
  \<open>core/session/background_task.go\<close>) and the \<open>TaskStop\<close> tool (\<open>services/tools/task_stop/tool.go\<close>).

  The controller registered with a task is a value \<open>'p\<close>. \<open>Stop\<close> and \<open>Resume\<close> call it without holding the
  lock, so the call is a parameter that may change the store as well: that is where the goroutine
  observing the process runs. Every other operation is one step, as the lock makes it. Stores are not
  nil; log lines are left out.
\<close>

section \<open>The store\<close>

record task_snapshot =
  bs_ID :: string
  bs_Type :: string
  bs_Status :: string
  bs_Summary :: string
  bs_Controls :: bool

definition StatusRunning :: string where "StatusRunning = ''running''"
definition StatusCompleted :: string where "StatusCompleted = ''completed''"
definition StatusFailed :: string where "StatusFailed = ''failed''"
definition StatusStopped :: string where "StatusStopped = ''stopped''"

record 'p task_entry =
  en_snapshot :: task_snapshot
  en_stopper :: "'p option"
  en_resumer :: "'p option"

record 'p bg_store =
  bg_tasks :: "string \<rightharpoonup> 'p task_entry"
  bg_order :: "string list"

definition NewBackgroundTaskStore :: "'p bg_store" where
  "NewBackgroundTaskStore = \<lparr>bg_tasks = Map.empty, bg_order = []\<rparr>"

fun replace_loop :: "task_snapshot list \<Rightarrow> 'p bg_store \<Rightarrow> 'p bg_store" where
  "replace_loop [] s = s"
| "replace_loop (t # ts) s = replace_loop ts
    (if bs_ID t = '''' then s
     else s\<lparr>bg_tasks := (bg_tasks s)(bs_ID t \<mapsto> \<lparr>en_snapshot = t, en_stopper = None, en_resumer = None\<rparr>),
            bg_order := bg_order s @ [bs_ID t]\<rparr>)"

definition bg_Replace :: "task_snapshot list \<Rightarrow> 'p bg_store \<Rightarrow> 'p bg_store" where
  "bg_Replace ts s = replace_loop ts NewBackgroundTaskStore"

text \<open>\<open>resumable\<close> says whether a controller has a \<open>Resume\<close> method.\<close>

definition resolveTaskResumer :: "('p \<Rightarrow> bool) \<Rightarrow> 'p option \<Rightarrow> 'p option" where
  "resolveTaskResumer resumable c = (case c of None \<Rightarrow> None | Some p \<Rightarrow> if resumable p then Some p else None)"

definition bg_Register :: "('p \<Rightarrow> bool) \<Rightarrow> task_snapshot \<Rightarrow> 'p option \<Rightarrow> 'p bg_store \<Rightarrow> 'p bg_store" where
  "bg_Register resumable t c s =
    (if bs_ID t = '''' then s
     else \<lparr>bg_tasks = (bg_tasks s)(bs_ID t \<mapsto>
              \<lparr>en_snapshot = t, en_stopper = c, en_resumer = resolveTaskResumer resumable c\<rparr>),
           bg_order = (if bg_tasks s (bs_ID t) = None then bg_order s @ [bs_ID t] else bg_order s)\<rparr>)"

definition bg_Update :: "task_snapshot \<Rightarrow> 'p bg_store \<Rightarrow> bool \<times> 'p bg_store" where
  "bg_Update t s =
    (if bs_ID t = '''' then (False, s)
     else case bg_tasks s (bs_ID t) of
       None \<Rightarrow> (False, s)
     | Some e \<Rightarrow> (True, s\<lparr>bg_tasks := (bg_tasks s)(bs_ID t \<mapsto> e\<lparr>en_snapshot := t\<rparr>)\<rparr>))"

definition bg_Get :: "string \<Rightarrow> 'p bg_store \<Rightarrow> task_snapshot option" where
  "bg_Get i s = (if i = '''' then None else map_option en_snapshot (bg_tasks s i))"

definition bg_Remove :: "string \<Rightarrow> 'p bg_store \<Rightarrow> 'p bg_store" where
  "bg_Remove i s =
    (if i = '''' \<or> bg_tasks s i = None then s
     else \<lparr>bg_tasks = (bg_tasks s)(i := None), bg_order = filter (\<lambda>j. j \<noteq> i) (bg_order s)\<rparr>)"

definition bg_List :: "'p bg_store \<Rightarrow> task_snapshot list" where
  "bg_List s = List.map_filter (\<lambda>i. map_option en_snapshot (bg_tasks s i)) (bg_order s)"

type_synonym ('p, 'w) bg_world = "'p bg_store \<times> 'w"

type_synonym ('p, 'w) control = "'p \<Rightarrow> ('p, 'w) bg_world \<Rightarrow> go_error option \<times> ('p, 'w) bg_world"

definition bg_Stop :: "('p, 'w) control \<Rightarrow> string \<Rightarrow> ('p, 'w) bg_world \<Rightarrow> (go_error + task_snapshot) \<times> ('p, 'w) bg_world" where
  "bg_Stop stop i w =
    (if i = '''' then (Inl (PlainErr ''task_id is required''), w)
     else case bg_tasks (fst w) i of
       None \<Rightarrow> (Inl (PlainErr (''no background task found with ID: '' @ i)), w)
     | Some e \<Rightarrow>
        (case en_stopper e of
           None \<Rightarrow> (Inl (PlainErr (''background task '' @ i @ '' cannot be stopped'')), w)
         | Some p \<Rightarrow>
            if \<not> bs_Controls (en_snapshot e) then (Inl (PlainErr (''background task '' @ i @ '' cannot be stopped'')), w)
            else case stop p w of
              (Some err, w1) \<Rightarrow> (Inl (WrapErr (''stop background task '' @ i @ '': '' @ error_text err) err), w1)
            | (None, w1) \<Rightarrow>
                let stopped = (en_snapshot e)\<lparr>bs_Status := StatusStopped, bs_Controls := False\<rparr>
                in (Inr stopped, (snd (bg_Update stopped (fst w1)), snd w1))))"

definition bg_Resume ::
    "(string \<Rightarrow> ('p, 'w) control) \<Rightarrow> string \<Rightarrow> string \<Rightarrow> ('p, 'w) bg_world \<Rightarrow> (go_error + task_snapshot) \<times> ('p, 'w) bg_world" where
  "bg_Resume resume i message w =
    (if i = '''' then (Inl (PlainErr ''task_id is required''), w)
     else case bg_tasks (fst w) i of
       None \<Rightarrow> (Inl (PlainErr (''no background task found with ID: '' @ i)), w)
     | Some e \<Rightarrow>
        if bs_Type (en_snapshot e) \<noteq> ''agent'' then
          (Inl (PlainErr (''background task '' @ i @ '' does not support resume'')), w)
        else if bs_Status (en_snapshot e) \<noteq> StatusStopped then
          (Inl (PlainErr (''background task '' @ i @ '' is not stopped'')), w)
        else case en_resumer e of
          None \<Rightarrow> (Inl (PlainErr (''background task '' @ i @ '' cannot be resumed'')), w)
        | Some p \<Rightarrow>
           (case resume (trim_space message) p w of
              (Some err, w1) \<Rightarrow> (Inl (WrapErr (''resume background task '' @ i @ '': '' @ error_text err) err), w1)
            | (None, w1) \<Rightarrow>
               (case bg_tasks (fst w1) i of
                  None \<Rightarrow> (Inl (PlainErr (''no background task found with ID: '' @ i)), w1)
                | Some e1 \<Rightarrow>
                    let resumed = (en_snapshot e1)\<lparr>bs_Status := StatusRunning, bs_Controls := True\<rparr>
                    in (Inr resumed, ((fst w1)\<lparr>bg_tasks := (bg_tasks (fst w1))(i \<mapsto> e1\<lparr>en_snapshot := resumed\<rparr>)\<rparr>, snd w1)))))"

section \<open>The tool that stops a task\<close>

definition stop_schema :: input_schema where
  "stop_schema = [(''task_id'', FieldSchema KindString ''The ID of the running background task to stop.'' True None)]"

definition renderStopSuccess :: "task_snapshot \<Rightarrow> string" where
  "renderStopSuccess t = ''Stopped background task: '' @ bs_ID t
     @ (if bs_Summary t = '''' then '''' else '' ('' @ bs_Summary t @ '')'')"

definition task_stop_Invoke :: "('p, 'w) control option \<Rightarrow> tool_call \<Rightarrow> ('p, 'w) bg_world \<Rightarrow> tool_result \<times> ('p, 'w) bg_world" where
  "task_stop_Invoke store call w =
    (case store of
       None \<Rightarrow> (error_result ''Background task stop is not available in Claude Code Go yet.'', w)
     | Some stop \<Rightarrow>
        (case DecodeInput stop_schema (get_string ''task_id'') (tc_Input call) of
           Inl e \<Rightarrow> (error_result e, w)
         | Inr raw \<Rightarrow>
            let i = trim_space raw in
            if i = '''' then (error_result ''task_id is required'', w)
            else case bg_Stop stop i w of
              (Inl e, w1) \<Rightarrow> (error_result (error_text e), w1)
            | (Inr t, w1) \<Rightarrow> (\<lparr>r_Output = renderStopSuccess t, r_Error = '''', r_Meta = [(''data'', MetaOther)]\<rparr>, w1)))"

section \<open>Well-formed stores\<close>

text \<open>\<open>uniq\<close>: no identifier was given twice in one replacement of all tasks.\<close>

definition bg_ok :: "bool \<Rightarrow> 'p bg_store \<Rightarrow> bool" where
  "bg_ok uniq s \<longleftrightarrow> (uniq \<longrightarrow> distinct (bg_order s)) \<and> set (bg_order s) = dom (bg_tasks s) \<and>
    (\<forall>i e. bg_tasks s i = Some e \<longrightarrow> i \<noteq> '''' \<and> bs_ID (en_snapshot e) = i)"

lemma bg_ok_id: "bg_ok uniq s \<Longrightarrow> bg_tasks s i = Some e \<Longrightarrow> i \<noteq> '''' \<and> bs_ID (en_snapshot e) = i"
  by (simp add: bg_ok_def)

lemma bg_ok_New: "bg_ok uniq NewBackgroundTaskStore"
  by (simp add: bg_ok_def NewBackgroundTaskStore_def)

lemma bg_ok_Register: "bg_ok uniq s \<Longrightarrow> bg_ok uniq (bg_Register resumable t c s)"
  by (auto simp: bg_ok_def bg_Register_def)

lemma bg_ok_Update: "bg_ok uniq s \<Longrightarrow> bg_ok uniq (snd (bg_Update t s))"
  by (auto simp: bg_ok_def bg_Update_def split: option.splits)

lemma bg_ok_Remove: "bg_ok uniq s \<Longrightarrow> bg_ok uniq (bg_Remove i s)"
  by (auto simp: bg_ok_def bg_Remove_def)

lemma bg_ok_replace_loop:
  "bg_ok uniq s \<Longrightarrow> (uniq \<longrightarrow> distinct (filter (\<lambda>i. i \<noteq> '''') (map bs_ID ts)) \<and>
    (\<forall>t\<in>set ts. bs_ID t \<notin> set (bg_order s))) \<Longrightarrow> bg_ok uniq (replace_loop ts s)"
proof (induction ts s rule: replace_loop.induct)
  case (2 t ts s)
  show ?case
  proof (cases "bs_ID t = ''''")
    case False
    let ?s = "s\<lparr>bg_tasks := (bg_tasks s)(bs_ID t \<mapsto> \<lparr>en_snapshot = t, en_stopper = None, en_resumer = None\<rparr>),
      bg_order := bg_order s @ [bs_ID t]\<rparr>"
    have "bg_ok uniq ?s" using "2.prems" False by (auto simp: bg_ok_def)
    moreover have "uniq \<longrightarrow> (\<forall>u\<in>set ts. bs_ID u \<notin> set (bg_order ?s))"
      using "2.prems" False by (auto simp: bg_ok_def) (metis imageI)
    ultimately show ?thesis using 2 False by simp
  qed (use 2 in simp)
qed simp

lemma bg_ok_Replace: "(uniq \<longrightarrow> distinct (filter (\<lambda>i. i \<noteq> '''') (map bs_ID ts))) \<Longrightarrow> bg_ok uniq (bg_Replace ts s)"
  unfolding bg_Replace_def by (rule bg_ok_replace_loop [OF bg_ok_New]) (auto simp: NewBackgroundTaskStore_def)

lemma bg_ok_Stop:
  assumes "bg_ok uniq (fst w)" "\<And>p. bg_ok uniq (fst (snd (stop p w)))"
  shows "bg_ok uniq (fst (snd (bg_Stop stop i w)))"
proof -
  have "bg_ok uniq (fst w1)" if "stop p w = (r, w1)" for p r w1 using assms(2) [of p] that by simp
  then show ?thesis using assms(1)
    by (auto simp: bg_Stop_def Let_def bg_ok_Update split: option.splits prod.splits)
qed

lemma bg_ok_Resume:
  assumes "bg_ok uniq (fst w)" "\<And>m p. bg_ok uniq (fst (snd (resume m p w)))"
  shows "bg_ok uniq (fst (snd (bg_Resume resume i m w)))"
proof -
  have k: "bg_ok uniq (fst w1)" if "resume (trim_space m) p w = (r, w1)" for p r w1
    using assms(2) [of "trim_space m" p] that by simp
  have u: "bg_ok uniq (x\<lparr>bg_tasks := (bg_tasks x)(i \<mapsto> e\<lparr>en_snapshot := (en_snapshot e)\<lparr>bs_Status := a, bs_Controls := b\<rparr>\<rparr>)\<rparr>)"
    if "bg_ok uniq x" "bg_tasks x i = Some e" for x :: "'a bg_store" and e a b using that by (auto simp: bg_ok_def)
  show ?thesis using assms(1) k u by (auto simp: bg_Resume_def Let_def split: option.splits prod.splits)
qed

lemma bg_List_ids:
  assumes "bg_ok uniq s"
  shows "map bs_ID (bg_List s) = bg_order s"
proof -
  have "map bs_ID (List.map_filter (\<lambda>i. map_option en_snapshot (bg_tasks s i)) ids) = ids" if "set ids \<subseteq> dom (bg_tasks s)" for ids
    using that by (induction ids) (auto simp: List.map_filter_simps dest: bg_ok_id [OF assms])
  then show ?thesis using assms by (simp add: bg_List_def bg_ok_def)
qed

section \<open>What the list shows\<close>

text \<open>The operations of the store, as the steps of any number of goroutines; what the goroutines do outside
  may change the rest \<open>w\<close> of the world. A controller that \<open>Stop\<close> or \<open>Resume\<close> calls leaves a store that is
  reached by operations as well.\<close>

inductive bg_reach :: "('p \<Rightarrow> bool) \<Rightarrow> bool \<Rightarrow> ('p, 'w) bg_world \<Rightarrow> bool" for resumable uniq where
  new: "bg_reach resumable uniq (NewBackgroundTaskStore, w)"
| outside: "bg_reach resumable uniq (s, w) \<Longrightarrow> bg_reach resumable uniq (s, w')"
| replace: "bg_reach resumable uniq (s, w) \<Longrightarrow> uniq \<longrightarrow> distinct (filter (\<lambda>i. i \<noteq> '''') (map bs_ID ts))
    \<Longrightarrow> bg_reach resumable uniq (bg_Replace ts s, w)"
| register: "bg_reach resumable uniq (s, w) \<Longrightarrow> bg_reach resumable uniq (bg_Register resumable t c s, w)"
| update: "bg_reach resumable uniq (s, w) \<Longrightarrow> bg_reach resumable uniq (snd (bg_Update t s), w)"
| remove: "bg_reach resumable uniq (s, w) \<Longrightarrow> bg_reach resumable uniq (bg_Remove i s, w)"
| stop: "bg_reach resumable uniq x \<Longrightarrow> (\<And>p. bg_reach resumable uniq (snd (stop p x)))
    \<Longrightarrow> bg_reach resumable uniq (snd (bg_Stop stop i x))"
| resume: "bg_reach resumable uniq x \<Longrightarrow> (\<And>m p. bg_reach resumable uniq (snd (resume m p x)))
    \<Longrightarrow> bg_reach resumable uniq (snd (bg_Resume resume i m x))"

lemma bg_reach_ok: "bg_reach resumable uniq x \<Longrightarrow> bg_ok uniq (fst x)"
  by (induction rule: bg_reach.induct)
     (auto intro: bg_ok_New bg_ok_Register bg_ok_Update bg_ok_Remove bg_ok_Replace bg_ok_Stop bg_ok_Resume)

text \<open>
  C23: Whatever the goroutines do with the store, in whatever order, the list shows exactly the live tasks,
  each with the snapshot that looking its identifier up gives; and it shows each once, unless a
  replacement of all tasks was given an identifier twice.
\<close>

theorem bg_list_shows_each_task_once:
  assumes "bg_reach resumable uniq (s, w)"
  shows "set (bg_List s) = {t. \<exists>i. bg_Get i s = Some t} \<and> (uniq \<longrightarrow> distinct (map bs_ID (bg_List s)))"
proof -
  have ok: "bg_ok uniq s" using bg_reach_ok [OF assms] by simp
  have d: "uniq \<longrightarrow> distinct (map bs_ID (bg_List s))" using ok bg_List_ids [OF ok] by (simp add: bg_ok_def)
  have "set (bg_List s) = {t. \<exists>i. bg_Get i s = Some t}"
  proof (intro set_eqI iffI)
    fix t assume "t \<in> set (bg_List s)"
    then obtain i e where "bg_tasks s i = Some e" "t = en_snapshot e"
      by (auto simp: bg_List_def List.map_filter_def)
    moreover then have "i \<noteq> ''''" using bg_ok_id [OF ok] by blast
    ultimately show "t \<in> {t. \<exists>i. bg_Get i s = Some t}" by (auto simp: bg_Get_def intro!: exI [of _ i])
  next
    fix t assume "t \<in> {t. \<exists>i. bg_Get i s = Some t}"
    then obtain i e where e: "bg_tasks s i = Some e" "t = en_snapshot e"
      by (auto simp: bg_Get_def split: if_splits)
    then have "i \<in> set (bg_order s)" using ok by (auto simp: bg_ok_def)
    then show "t \<in> set (bg_List s)" using e by (auto simp: bg_List_def List.map_filter_def image_iff intro!: bexI [of _ i])
  qed
  with d show ?thesis by blast
qed

theorem bg_list_shows_each_task_once_witness:
  "distinct (map bs_ID (bg_List (bg_Register (\<lambda>_. False) \<lparr>bs_ID = ''t'', bs_Type = ''bash'', bs_Status = StatusRunning,
     bs_Summary = ''ls'', bs_Controls = True\<rparr> (Some (0::nat)) NewBackgroundTaskStore)))"
  using bg_list_shows_each_task_once [OF bg_reach.register [OF bg_reach.new [where uniq = True and w = "()"]]] by blast

text \<open>A replacement with a repeated identifier: the list shows the task twice.\<close>

lemma Replace_lists_twice:
  "bs_ID t \<noteq> '''' \<Longrightarrow> bg_List (bg_Replace [t, t] s) = [t, t]"
  by (simp add: bg_Replace_def NewBackgroundTaskStore_def bg_List_def List.map_filter_simps)

end
