(* ===== verification/Bash_Tool.thy ===== *)
theory Bash_Tool
  imports Bash_Permission Sed_Guard Background_Tasks
begin

text \<open>
  The \<open>Bash\<close> tool (\<open>services/tools/bash/tool.go\<close>, \<open>output_capture.go\<close>, \<open>foreground_background.go\<close>,
  \<open>notification.go\<close>) over the rules of \<open>Bash_Permission\<close>, the guards of \<open>Sed_Guard\<close> and \<open>Bash_Scan\<close>
  and the store of \<open>Background_Tasks\<close>.

  The shell, the clock of the blocking budget, Docker, \<open>os.Stat\<close>, the environment and the image
  library are parameters; the world they change is kept next to the task store. Progress events, the
  elapsed seconds of a result and log lines are not modelled.
\<close>

section \<open>Data\<close>

record shell_request =
  sr_Command :: string
  sr_WorkingDir :: string
  sr_Timeout :: int

record shell_result =
  sh_Stdout :: string
  sh_Stderr :: string
  sh_ExitCode :: int
  sh_TimedOut :: bool
  sh_Canceled :: bool

record bash_input =
  bi_Command :: string
  bi_Timeout :: int
  bi_Description :: string
  bi_RunInBackground :: bool
  bi_DisableSandbox :: bool

record bash_output =
  bo_Command :: string
  bo_Stdout :: string
  bo_Stderr :: string
  bo_ExitCode :: int
  bo_TimedOut :: bool
  bo_OutputFilePath :: string
  bo_OutputFileSize :: int

text \<open>What ends the \<open>select\<close> on a switchable command.\<close>

datatype wait_event = Finished shell_result | ChannelClosed | BudgetSpent | ContextDone

record ('p, 'w) bash_host =
  bh_env :: "string \<Rightarrow> string"
  bh_docker :: "('p, 'w) bg_world \<Rightarrow> bool"
  bh_stat :: "string \<Rightarrow> ('p, 'w) bg_world \<Rightarrow> int option"
  bh_resize :: "string \<Rightarrow> string \<Rightarrow> int \<Rightarrow> ('p, 'w) bg_world \<Rightarrow> string option"
  bh_is_image :: "string \<Rightarrow> bool"
  bh_new_id :: "('p, 'w) bg_world \<Rightarrow> string \<times> ('p, 'w) bg_world"
  bh_await :: "'p \<Rightarrow> ('p, 'w) bg_world \<Rightarrow> wait_event \<times> ('p, 'w) bg_world"
  bh_stop :: "('p, 'w) control"
  bh_resumable :: "'p \<Rightarrow> bool"

type_synonym ('p, 'w, 'a) shell_call = "shell_request \<Rightarrow> ('p, 'w) bg_world \<Rightarrow> (go_error + 'a) \<times> ('p, 'w) bg_world"

record ('p, 'w) bash_tool =
  bt_executor :: "('p, 'w, shell_result) shell_call option"
  bt_background :: "('p, 'w, 'p) shell_call option"
  bt_permissions :: "(string \<Rightarrow> bash_evaluation) option"
  bt_mode :: string
  bt_tasks :: bool
  bt_emit :: "(string \<Rightarrow> string \<Rightarrow> string \<Rightarrow> string \<Rightarrow> ('p, 'w) bg_world \<Rightarrow> ('p, 'w) bg_world) option"
  bt_scanner :: "scanner option"
  bt_sandbox :: "(string \<Rightarrow> bool \<Rightarrow> bool) option"

definition NewToolWithRuntime ::
    "('p, 'w, shell_result) shell_call option \<Rightarrow> ('p, 'w, 'p) shell_call option \<Rightarrow> (string \<Rightarrow> bash_evaluation) option
      \<Rightarrow> string \<Rightarrow> bool \<Rightarrow> ('p, 'w) bash_tool" where
  "NewToolWithRuntime ex start perms mode tasks =
    \<lparr>bt_executor = ex, bt_background = start, bt_permissions = perms,
     bt_mode = (if trim_space mode = '''' then ''default'' else mode), bt_tasks = tasks,
     bt_emit = None, bt_scanner = None, bt_sandbox = None\<rparr>"

definition NewToolWithNotification where
  "NewToolWithNotification ex start perms mode tasks emit = (NewToolWithRuntime ex start perms mode tasks)\<lparr>bt_emit := emit\<rparr>"

definition NewToolWithSecurityScanner where
  "NewToolWithSecurityScanner ex start perms mode tasks emit scanner =
    (NewToolWithNotification ex start perms mode tasks emit)\<lparr>bt_scanner := scanner\<rparr>"

definition NewToolWithSandbox where
  "NewToolWithSandbox ex start perms mode tasks emit scanner sbx =
    (NewToolWithSecurityScanner ex start perms mode tasks emit scanner)\<lparr>bt_sandbox := sbx\<rparr>"

section \<open>Time limits\<close>

definition parsePositiveIntegerEnv :: "(string \<Rightarrow> string) \<Rightarrow> string \<Rightarrow> int \<Rightarrow> int" where
  "parsePositiveIntegerEnv env name fallback =
    (let value = trim_space (env name) in
     if value = '''' then fallback
     else case atoi value of None \<Rightarrow> fallback | Some n \<Rightarrow> if n \<le> 0 then fallback else n)"

definition effectiveDefaultTimeout :: "(string \<Rightarrow> string) \<Rightarrow> int" where
  "effectiveDefaultTimeout env = parsePositiveIntegerEnv env ''BASH_DEFAULT_TIMEOUT_MS'' 120000"

definition effectiveMaxTimeout :: "(string \<Rightarrow> string) \<Rightarrow> int" where
  "effectiveMaxTimeout env =
    (let maximum = parsePositiveIntegerEnv env ''BASH_MAX_TIMEOUT_MS'' 600000; d = effectiveDefaultTimeout env in
     if maximum < d then d else maximum)"

definition resolveTimeout :: "(string \<Rightarrow> string) \<Rightarrow> int \<Rightarrow> string + int" where
  "resolveTimeout env value =
    (let t = (if value = 0 then effectiveDefaultTimeout env else value) in
     if t < 0 then Inl ''timeout must be greater than or equal to 0''
     else if t > effectiveMaxTimeout env then
       Inl (''timeout must be less than or equal to '' @ itoa (effectiveMaxTimeout env))
     else Inr t)"

text \<open>\<open>time.Duration(ms) * time.Millisecond\<close>, nanoseconds in 64 bits.\<close>

definition milliseconds :: "int \<Rightarrow> int" where
  "milliseconds ms = wrap64 (ms * 1000000)"

section \<open>Input\<close>

definition bash_schema :: "(string \<Rightarrow> string) \<Rightarrow> input_schema" where
  "bash_schema env =
    [(''command'', FieldSchema KindString ''The foreground shell command to execute.'' True None),
     (''timeout'', FieldSchema KindInteger
        (''Optional timeout in milliseconds (max '' @ itoa (effectiveMaxTimeout env) @ '').'') False None),
     (''description'', FieldSchema KindString ''Optional short description of what the command does.'' False None),
     (''run_in_background'', FieldSchema KindBoolean
        ''Set to true to run the command in the background and return a task identifier.'' False None),
     (''dangerouslyDisableSandbox'', FieldSchema KindBoolean
        ''Set to true to run the command outside the sandbox.'' False None)]"

definition decode_bash :: "bash_input getter" where
  "decode_bash kvs =
    bind_res (get_string ''command'' kvs) (\<lambda>c. bind_res (get_int ''timeout'' kvs) (\<lambda>t.
    bind_res (get_string ''description'' kvs) (\<lambda>d. bind_res (get_bool ''run_in_background'' kvs) (\<lambda>b.
    bind_res (get_bool ''dangerouslyDisableSandbox'' kvs) (\<lambda>s.
      Inr \<lparr>bi_Command = c, bi_Timeout = t, bi_Description = d, bi_RunInBackground = b, bi_DisableSandbox = s\<rparr>)))))"

section \<open>The sandbox\<close>

definition shellQuote :: "string \<Rightarrow> string" where
  "shellQuote s =
    (if s = '''' then [single_quote, single_quote]
     else [single_quote]
       @ concat (map (\<lambda>c. if c = single_quote then [single_quote, backslash, single_quote, single_quote] else [c]) s)
       @ [single_quote])"

definition wrapWithSandbox :: "string \<Rightarrow> int \<Rightarrow> string \<Rightarrow> string" where
  "wrapWithSandbox command ms workDir =
    (let args = [''run'', ''--rm'', ''-i'', ''--memory'', ''512m'', ''--cpus'', ''2'', ''--network'', ''none'']
       @ (if workDir \<noteq> '''' then [''-v'', workDir @ '':'' @ workDir, ''-w'', workDir] else [])
       @ (if ms > 0 then [''ubuntu:22.04'', ''timeout'', itoa (max 1 (ms div 1000)), ''sh'', ''-c'', command]
          else [''ubuntu:22.04'', ''sh'', ''-c'', command])
     in ''docker'' @ concat (map (\<lambda>a. '' '' @ shellQuote a) args))"

definition sandboxed :: "('p, 'w) bash_host \<Rightarrow> ('p, 'w) bash_tool \<Rightarrow> tool_call \<Rightarrow> bash_input \<Rightarrow> string \<Rightarrow> int \<Rightarrow> ('p, 'w) bg_world \<Rightarrow> string" where
  "sandboxed H T call i command ms w =
    (case bt_sandbox T of
       None \<Rightarrow> command
     | Some should \<Rightarrow> if should command (bi_DisableSandbox i) \<and> bh_docker H w then wrapWithSandbox command ms (tc_WorkingDir call) else command)"

section \<open>Redirections\<close>

record redirect_info =
  ri_StdoutFile :: string
  ri_StderrFile :: string
  ri_Append :: bool
  ri_Command :: string

definition token_of :: "string \<Rightarrow> string list" where
  "token_of current = (if current = '''' then [] else [current])"

text \<open>The second argument is the token being read, the first the quote it stands in.\<close>

fun split_loop :: "char option \<Rightarrow> string \<Rightarrow> string \<Rightarrow> string list" where
  "split_loop q current [] = token_of current"
| "split_loop (Some q) current (r # rs) = split_loop (if r = q then None else Some q) (current @ [r]) rs"
| "split_loop None current (r # rs) =
    (if r = double_quote \<or> r = single_quote then token_of current @ split_loop (Some r) [r] rs
     else if r = CHR '' '' \<or> r = CHR 0x09 then token_of current @ split_loop None '''' rs
     else if r = CHR ''>'' then
       token_of current @ (if has_prefix rs ''>'' then ''>>'' # split_loop None '''' (drop 1 rs)
                           else ''>'' # split_loop None '''' rs)
     else if r = CHR ''2'' \<and> has_prefix rs ''>'' then
       token_of current @ (if has_prefix rs ''>>'' then ''2>>'' # split_loop None '''' (drop 2 rs)
                           else ''2>'' # split_loop None '''' (drop 1 rs))
     else split_loop None (current @ [r]) rs)"

definition splitCommandRespectingQuotes :: "string \<Rightarrow> string list" where
  "splitCommandRespectingQuotes command = split_loop None '''' command"

definition unquote :: "string \<Rightarrow> string" where
  "unquote s = (if length s \<ge> 2 \<and> hd s = last s \<and> hd s \<in> {double_quote, single_quote} then butlast (tl s) else s)"

fun redirect_loop :: "string list \<Rightarrow> redirect_info \<Rightarrow> string list \<Rightarrow> redirect_info" where
  "redirect_loop [] info kept = info\<lparr>ri_Command := join_str '' '' kept\<rparr>"
| "redirect_loop (tok # toks) info kept =
    (let info1 = (if tok \<in> {''>>'', ''2>>''} then info\<lparr>ri_Append := True\<rparr> else info) in
     if tok = ''>>'' \<or> tok = ''>'' then
       (case toks of [] \<Rightarrow> redirect_loop [] info1 kept
        | f # rest \<Rightarrow> redirect_loop rest (info1\<lparr>ri_StdoutFile := unquote f\<rparr>) kept)
     else if tok = ''2>>'' \<or> tok = ''2>'' then
       (case toks of [] \<Rightarrow> redirect_loop [] info1 kept
        | f # rest \<Rightarrow> redirect_loop rest (info1\<lparr>ri_StderrFile := unquote f\<rparr>) kept)
     else redirect_loop toks info (kept @ [tok]))"

definition parseOutputRedirection :: "string \<Rightarrow> redirect_info" where
  "parseOutputRedirection command = redirect_loop (splitCommandRespectingQuotes command)
     \<lparr>ri_StdoutFile = '''', ri_StderrFile = '''', ri_Append = False, ri_Command = command\<rparr> []"

text \<open>What the shell gets.\<close>

definition exec_command :: "string \<Rightarrow> string" where
  "exec_command command = (let c = ri_Command (parseOutputRedirection command) in if c = '''' then command else c)"

section \<open>Texts\<close>

definition trim_newlines :: "string \<Rightarrow> string" where
  "trim_newlines s = rev (dropWhile (\<lambda>c. c = CHR 0x0A) (rev s))"

definition appendOutputFileInfo :: "string \<Rightarrow> bash_output \<Rightarrow> string" where
  "appendOutputFileInfo body out =
    (if bo_OutputFilePath out = '''' then body
     else body @ newline @ newline @ ''Output written to: '' @ bo_OutputFilePath out
       @ (if bo_OutputFileSize out > 0 then '' ('' @ itoa (bo_OutputFileSize out) @ '' bytes)'' else ''''))"

definition renderStreamDetails :: "string \<Rightarrow> string \<Rightarrow> string" where
  "renderStreamDetails out err =
    (let o1 = trim_newlines out; e1 = trim_newlines err in
     if o1 = '''' \<and> e1 = '''' then ''''
     else if e1 = '''' then ''stdout:'' @ newline @ o1
     else if o1 = '''' then ''stderr:'' @ newline @ e1
     else ''stdout:'' @ newline @ o1 @ newline @ newline @ ''stderr:'' @ newline @ e1)"

definition renderSuccess :: "bash_output \<Rightarrow> string" where
  "renderSuccess out =
    (let o1 = trim_newlines (bo_Stdout out); e1 = trim_newlines (bo_Stderr out) in
     appendOutputFileInfo
      (if o1 = '''' \<and> e1 = '''' then ''Done'' else if e1 = '''' then o1
       else renderStreamDetails (bo_Stdout out) (bo_Stderr out)) out)"

definition with_details :: "string \<Rightarrow> bash_output \<Rightarrow> string" where
  "with_details s out =
    (let d = renderStreamDetails (bo_Stdout out) (bo_Stderr out) in
     appendOutputFileInfo (if d = '''' then s else s @ newline @ d) out)"

definition renderFailure :: "bash_output \<Rightarrow> string" where
  "renderFailure out = with_details (''Command failed with exit code '' @ itoa (bo_ExitCode out) @ ''.'') out"

definition renderTimeout :: "bash_output \<Rightarrow> int \<Rightarrow> string" where
  "renderTimeout out ms = with_details (''Command timed out after '' @ itoa ms @ ''ms.'') out"

definition data_result :: "string \<Rightarrow> string \<Rightarrow> tool_result" where
  "data_result out err = \<lparr>r_Output = out, r_Error = err, r_Meta = [(''data'', MetaOther)]\<rparr>"

definition renderResult :: "bash_output \<Rightarrow> int \<Rightarrow> tool_result" where
  "renderResult out ms =
    (if bo_TimedOut out then data_result '''' (renderTimeout out ms)
     else if bo_ExitCode out \<noteq> 0 then data_result '''' (renderFailure out)
     else data_result (renderSuccess out) '''')"

definition summarizeBackgroundCommand :: "string \<Rightarrow> string \<Rightarrow> string" where
  "summarizeBackgroundCommand description command =
    (if trim_space description \<noteq> '''' then trim_space description else trim_space command)"

definition buildNotificationSummary :: "string \<Rightarrow> string \<Rightarrow> int \<Rightarrow> string" where
  "buildNotificationSummary description status exitCode =
    ''Background command '' @ go_quote description @
    (if status = ''completed'' then '' completed'' @ (if exitCode \<noteq> 0 then '' (exit code '' @ itoa exitCode @ '')'' else '''')
     else if status = ''failed'' then '' failed with exit code '' @ itoa exitCode
     else if status = ''killed'' then '' was stopped''
     else '' finished ('' @ status @ '')'')"

section \<open>Execution\<close>

text \<open>\<open>^data:image/[a-z0-9.+_-]+;base64,\<close>.\<close>

definition media_char :: "char \<Rightarrow> bool" where
  "media_char c \<longleftrightarrow> (let n = (of_char c :: nat) in (97 \<le> n \<and> n \<le> 122) \<or> (48 \<le> n \<and> n \<le> 57)) \<or> c \<in> set ''.+_-''"

definition dataURIPattern :: regexp where
  "dataURIPattern = Seq [Bol, Lit ''data:image/'', Plus (Cls media_char), Lit '';base64,'']"

definition isImageOutput :: "string \<Rightarrow> bool" where
  "isImageOutput content \<longleftrightarrow> regexp_match dataURIPattern content"

text \<open>The output with a resized image, and whether the result has an \<open>image\<close> entry.\<close>

definition processImageOutput :: "('p, 'w) bash_host \<Rightarrow> bash_output \<Rightarrow> ('p, 'w) bg_world \<Rightarrow> bash_output \<times> bool" where
  "processImageOutput H out w =
    (if \<not> isImageOutput (bo_Stdout out) then (out, False)
     else case bh_resize H (bo_Stdout out) (bo_OutputFilePath out) (bo_OutputFileSize out) w of
       None \<Rightarrow> (out, False)
     | Some resized \<Rightarrow> (out\<lparr>bo_Stdout := resized\<rparr>, bh_is_image H resized))"

text \<open>The image is of another type than the one \<open>toolResultImage\<close> looks for.\<close>

definition buildRichMeta :: "bool \<Rightarrow> (string \<times> meta_value) list" where
  "buildRichMeta img = (''data'', MetaOther) # (if img then [(''image'', MetaOther)] else [])"

definition bash_output_of :: "('p, 'w) bash_host \<Rightarrow> string \<Rightarrow> shell_result \<Rightarrow> ('p, 'w) bg_world \<Rightarrow> bash_output" where
  "bash_output_of H command r w =
    (let f = ri_StdoutFile (parseOutputRedirection command) in
     \<lparr>bo_Command = exec_command command, bo_Stdout = sh_Stdout r, bo_Stderr = sh_Stderr r, bo_ExitCode = sh_ExitCode r,
      bo_TimedOut = sh_TimedOut r, bo_OutputFilePath = f,
      bo_OutputFileSize = (if f = '''' then 0 else case bh_stat H f w of None \<Rightarrow> 0 | Some n \<Rightarrow> n)\<rparr>)"

type_synonym ('p, 'w) invoked = "(tool_result \<times> invoke_error option) \<times> ('p, 'w) bg_world"

definition plain_error :: "string \<Rightarrow> invoke_error" where
  "plain_error msg = \<lparr>ie_error = PlainErr msg, ie_fs = None, ie_bash = None, ie_web = None\<rparr>"

definition bash_error :: "bash_permission_error \<Rightarrow> invoke_error" where
  "bash_error pe = \<lparr>ie_error = PlainErr (bp_Message pe), ie_fs = None, ie_bash = Some pe, ie_web = None\<rparr>"

definition shell_failed :: "go_error \<Rightarrow> tool_result" where
  "shell_failed e = error_result (''bash tool: '' @ error_text e)"

definition executeForegroundCommand ::
    "('p, 'w) bash_host \<Rightarrow> ('p, 'w) bash_tool \<Rightarrow> tool_call \<Rightarrow> string \<Rightarrow> int \<Rightarrow> ('p, 'w) bg_world \<Rightarrow> ('p, 'w) invoked" where
  "executeForegroundCommand H T call command ms w =
    (case bt_executor T of
       None \<Rightarrow> ((ok_result, Some (plain_error ''bash tool: executor is not configured'')), w)
     | Some execute \<Rightarrow>
        (case execute \<lparr>sr_Command = exec_command command, sr_WorkingDir = tc_WorkingDir call, sr_Timeout = milliseconds ms\<rparr> w of
           (Inl e, w1) \<Rightarrow> ((shell_failed e, None), w1)
         | (Inr r, w1) \<Rightarrow>
             let (out, img) = processImageOutput H (bash_output_of H command r w1) w1 in
             if sh_TimedOut r \<or> sh_ExitCode r \<noteq> 0 then ((renderResult out ms, None), w1)
             else ((\<lparr>r_Output = renderSuccess out, r_Error = '''', r_Meta = buildRichMeta img\<rparr>, None), w1)))"

definition running_snapshot :: "string \<Rightarrow> string \<Rightarrow> task_snapshot" where
  "running_snapshot i summary =
    \<lparr>bs_ID = i, bs_Type = ''bash'', bs_Status = StatusRunning, bs_Summary = summary, bs_Controls = True\<rparr>"

text \<open>A process started and registered: its task, or the error of the start.\<close>

definition start_registered ::
    "('p, 'w) bash_host \<Rightarrow> ('p, 'w, 'p) shell_call \<Rightarrow> tool_call \<Rightarrow> bash_input \<Rightarrow> string \<Rightarrow> string \<Rightarrow> int \<Rightarrow> ('p, 'w) bg_world
      \<Rightarrow> (go_error + 'p \<times> string) \<times> ('p, 'w) bg_world" where
  "start_registered H start call i run command ms w =
    (case start \<lparr>sr_Command = run, sr_WorkingDir = tc_WorkingDir call, sr_Timeout = milliseconds ms\<rparr> w of
       (Inl e, w1) \<Rightarrow> (Inl e, w1)
     | (Inr p, w1) \<Rightarrow>
         let (taskID, w2) = bh_new_id H w1
         in (Inr (p, taskID), (bg_Register (bh_resumable H)
              (running_snapshot taskID (summarizeBackgroundCommand (bi_Description i) command)) (Some p) (fst w2), snd w2)))"

definition startBackgroundCommand ::
    "('p, 'w) bash_host \<Rightarrow> ('p, 'w) bash_tool \<Rightarrow> tool_call \<Rightarrow> bash_input \<Rightarrow> string \<Rightarrow> int \<Rightarrow> ('p, 'w) bg_world \<Rightarrow> ('p, 'w) invoked" where
  "startBackgroundCommand H T call i command ms w =
    (case bt_background T of
       None \<Rightarrow> ((error_result ''Background Bash tasks are not available in Claude Code Go yet.'', None), w)
     | Some start \<Rightarrow>
        if \<not> bt_tasks T then ((error_result ''Background Bash tasks are not available in Claude Code Go yet.'', None), w)
        else case start_registered H start call i command command ms w of
          (Inl e, w1) \<Rightarrow> ((shell_failed e, None), w1)
        | (Inr (p, taskID), w1) \<Rightarrow>
            ((data_result (''Started background task: '' @ taskID @ newline @ ''Command: '' @ command) '''', None), w1))"

text \<open>
  The goroutine that waits for a background process: \<open>None\<close> for a channel closed without a result.
\<close>

definition background_status :: "shell_result \<Rightarrow> string \<times> string" where
  "background_status r =
    (if sh_TimedOut r then (StatusFailed, ''failed'')
     else if sh_ExitCode r = 0 then (StatusCompleted, ''completed'')
     else if sh_Canceled r then (StatusStopped, ''killed'')
     else (StatusFailed, ''failed''))"

definition consumeBackgroundResult ::
    "('p, 'w) bash_tool \<Rightarrow> string \<Rightarrow> task_snapshot \<Rightarrow> shell_result option \<Rightarrow> ('p, 'w) bg_world \<Rightarrow> ('p, 'w) bg_world" where
  "consumeBackgroundResult T taskID snapshot result w =
    (case result of
       None \<Rightarrow> w
     | Some r \<Rightarrow>
        let (status, notify) = background_status r;
            w1 = (bg_Remove taskID (snd (bg_Update (snapshot\<lparr>bs_Status := status\<rparr>) (fst w))), snd w)
        in case bt_emit T of
             None \<Rightarrow> w1
           | Some emit \<Rightarrow> emit taskID notify (buildNotificationSummary (bs_Summary snapshot) notify (sh_ExitCode r)) '''' w1)"

definition executeSwitchableCommand ::
    "('p, 'w) bash_host \<Rightarrow> ('p, 'w) bash_tool \<Rightarrow> tool_call \<Rightarrow> bash_input \<Rightarrow> string \<Rightarrow> int \<Rightarrow> ('p, 'w) bg_world \<Rightarrow> ('p, 'w) invoked" where
  "executeSwitchableCommand H T call i command ms w =
    (case bt_background T of
       None \<Rightarrow> ((error_result ''Switchable Bash execution is not available in Claude Code Go yet.'', None), w)
     | Some start \<Rightarrow>
        if \<not> bt_tasks T then ((error_result ''Switchable Bash execution is not available in Claude Code Go yet.'', None), w)
        else case start_registered H start call i (exec_command command) command ms w of
          (Inl e, w1) \<Rightarrow> ((shell_failed e, None), w1)
        | (Inr (p, taskID), w1) \<Rightarrow>
            let (ev, w2) = bh_await H p w1 in
            (case ev of
               Finished r \<Rightarrow>
                 let w3 = (bg_Remove taskID (fst w2), snd w2) in ((renderResult (bash_output_of H command r w3) ms, None), w3)
             | ChannelClosed \<Rightarrow>
                 ((error_result ''bash tool: background result channel closed unexpectedly'', None), (bg_Remove taskID (fst w2), snd w2))
             | BudgetSpent \<Rightarrow>
                 ((data_result (''Command exceeded the assistant-mode blocking budget (15s) and was moved to the background with ID: ''
                     @ taskID @ ''. It is still running '' @ [CHR 0xE2, CHR 0x80, CHR 0x94]
                     @ '' you will be notified when it completes.'') '''', None), w2)
             | ContextDone \<Rightarrow>
                 let (_, w3) = bh_stop H p w2
                 in ((error_result ''Command was aborted before completion'', None), (bg_Remove taskID (fst w3), snd w3))))"

definition isAutobackgroundingAllowed :: "string \<Rightarrow> bool" where
  "isAutobackgroundingAllowed command \<longleftrightarrow>
    trim_space command \<noteq> '''' \<and>
    (case str_fields (trim_space command) of [] \<Rightarrow> True | t # ts \<Rightarrow> t \<noteq> ''sleep'')"

section \<open>The guards\<close>

definition sed_blocked :: "('p, 'w) bash_tool \<Rightarrow> string \<Rightarrow> bool" where
  "sed_blocked T command \<longleftrightarrow>
    (let rest = drop 3 (trim_space command) in
     has_prefix (trim_space command) ''sed'' \<and> rest \<noteq> [] \<and> (hd rest = CHR '' '' \<or> hd rest = CHR 0x09) \<and>
     \<not> sedCommandIsAllowed command (bt_mode T = ''acceptEdits''))"

definition guard :: "('p, 'w) bash_tool \<Rightarrow> string \<Rightarrow> bash_permission_error option" where
  "guard T command =
    (if sed_blocked T command then
       Some \<lparr>bp_Command = command, bp_Decision = DecisionAsk,
         bp_Message = ''sed command requires approval (contains potentially dangerous operations)''\<rparr>
     else case bt_scanner T of
       None \<Rightarrow> None
     | Some vs \<Rightarrow>
        (case Scan vs command of
           (RiskLevelDangerous, p, msg) \<Rightarrow> Some \<lparr>bp_Command = command, bp_Decision = DecisionDeny, bp_Message = msg\<rparr>
         | (RiskLevelWarning, p, msg) \<Rightarrow> Some \<lparr>bp_Command = command, bp_Decision = DecisionAsk, bp_Message = msg\<rparr>
         | (RiskLevelSafe, p, msg) \<Rightarrow> None))"

definition executeAllowedCommand ::
    "('p, 'w) bash_host \<Rightarrow> ('p, 'w) bash_tool \<Rightarrow> tool_call \<Rightarrow> bash_input \<Rightarrow> string \<Rightarrow> int \<Rightarrow> ('p, 'w) bg_world \<Rightarrow> ('p, 'w) invoked" where
  "executeAllowedCommand H T call i command ms w =
    (case guard T command of
       Some pe \<Rightarrow> ((ok_result, Some (bash_error pe)), w)
     | None \<Rightarrow>
        if bi_RunInBackground i then startBackgroundCommand H T call i command ms w
        else if bt_background T \<noteq> None \<and> bt_tasks T \<and> isAutobackgroundingAllowed command then
          executeSwitchableCommand H T call i command ms w
        else executeForegroundCommand H T call command ms w)"

section \<open>A call\<close>

definition isAcceptEditsAutoAllowedCommand :: "string \<Rightarrow> bool" where
  "isAcceptEditsAutoAllowedCommand command \<longleftrightarrow>
    (let trimmed = trim_space command in
     trimmed \<noteq> '''' \<and>
     \<not> (str_contains trimmed ''&&'' \<or> str_contains trimmed ''||'' \<or> str_contains trimmed '';'' \<or> str_contains trimmed ''|'') \<and>
     (case str_fields trimmed of
        [] \<Rightarrow> False
      | t # ts \<Rightarrow> t \<in> {''mkdir'', ''touch'', ''rm'', ''rmdir'', ''mv'', ''cp'', ''sed''}))"

text \<open>The input of a call: the command to run, after the sandbox, and its time limit.\<close>

definition bash_command ::
    "('p, 'w) bash_host \<Rightarrow> ('p, 'w) bash_tool \<Rightarrow> tool_call \<Rightarrow> ('p, 'w) bg_world \<Rightarrow> string + bash_input \<times> string \<times> int" where
  "bash_command H T call w =
    bind_res (DecodeInput (bash_schema (bh_env H)) decode_bash (tc_Input call)) (\<lambda>i.
      let command = trim_space (bi_Command i) in
      if command = '''' then Inl ''command is required''
      else bind_res (resolveTimeout (bh_env H) (bi_Timeout i)) (\<lambda>ms.
        Inr (i, sandboxed H T call i command ms w, ms)))"

definition normal_form :: "bash_evaluation \<Rightarrow> string \<Rightarrow> string" where
  "normal_form e command =
    (if trim_space (be_NormalizedCommand e) = '''' then command else trim_space (be_NormalizedCommand e))"

definition denied_result :: "string \<Rightarrow> string \<Rightarrow> string \<Rightarrow> tool_result" where
  "denied_result msg decision rule = \<lparr>r_Output = '''', r_Error = msg,
     r_Meta = [(''permission_decision'', MetaString decision), (''permission_rule'', MetaString rule)]\<rparr>"

text \<open>Why a command must not run: \<open>None\<close> when it may.\<close>

definition refusal ::
    "('p, 'w) bash_tool \<Rightarrow> (string \<Rightarrow> bash_evaluation) \<Rightarrow> perm_ctx option \<Rightarrow> tool_call \<Rightarrow> string \<Rightarrow> (tool_result \<times> invoke_error option) option" where
  "refusal T check ctx call command =
    (if bt_mode T = ''bypassPermissions'' then None
     else
       let e = check command; n = normal_form e command in
       if HasBashGrant ctx \<lparr>br_ToolName = tc_Name call, br_Command = n, br_WorkingDir = tc_WorkingDir call\<rparr> then None
       else if be_Decision e = DecisionDeny then Some (denied_result (be_Message e) DecisionDeny (be_Rule e), None)
       else if be_Decision e = DecisionAsk then
         if bt_mode T = ''acceptEdits'' \<and> isAcceptEditsAutoAllowedCommand n then None
         else if bt_mode T = ''dontAsk'' then
           Some (denied_result (''Permission to execute '' @ go_quote n @ '' was not granted.'') DecisionDeny (be_Rule e), None)
         else Some (ok_result, Some (bash_error \<lparr>bp_Command = n, bp_Decision = DecisionAsk, bp_Message = be_Message e\<rparr>))
       else None)"

definition bash_Invoke ::
    "('p, 'w) bash_host \<Rightarrow> ('p, 'w) bash_tool \<Rightarrow> perm_ctx option \<Rightarrow> tool_call \<Rightarrow> ('p, 'w) bg_world \<Rightarrow> ('p, 'w) invoked" where
  "bash_Invoke H T ctx call w =
    (if bt_executor T = None then ((ok_result, Some (plain_error ''bash tool: executor is not configured'')), w)
     else case bt_permissions T of
       None \<Rightarrow> ((ok_result, Some (plain_error ''bash tool: permission checker is not configured'')), w)
     | Some check \<Rightarrow>
        (case bash_command H T call w of
           Inl e \<Rightarrow> ((error_result e, None), w)
         | Inr (i, command, ms) \<Rightarrow>
            (case refusal T check ctx call command of
               Some answer \<Rightarrow> (answer, w)
             | None \<Rightarrow> executeAllowedCommand H T call i command ms w)))"

section \<open>Who may run a command\<close>

text \<open>What the tool answers without any process is the same for every shell.\<close>

definition with_shell where
  "with_shell T shell = T\<lparr>bt_executor := Some (fst shell), bt_background := Some (snd shell)\<rparr>"

lemma with_shell_keeps [simp]:
  "bt_mode (with_shell T s) = bt_mode T" "bt_permissions (with_shell T s) = bt_permissions T"
  "bt_sandbox (with_shell T s) = bt_sandbox T" "bt_scanner (with_shell T s) = bt_scanner T"
  "bt_executor (with_shell T s) = Some (fst s)"
  by (simp_all add: with_shell_def)

lemma with_shell_asks [simp]:
  "bash_command H (with_shell T s) = bash_command H T" "refusal (with_shell T s) = refusal T" "guard (with_shell T s) = guard T"
  by (intro ext; simp only: bash_command_def sandboxed_def refusal_def guard_def sed_blocked_def with_shell_keeps)+

text \<open>
  C5: A command reaches a shell, in the foreground, in the background or switchable, only when it was let
  through: the mode bypasses permissions, or the user has granted its normal form to this tool in this
  directory, or the rules do not deny it and either do not ask or the mode accepts edits and the command
  is one of the editing commands; and only when neither the guard on \<open>sed\<close> nor the scanner stops it.
  Otherwise the answer and the world do not depend on what the shell would do.
\<close>

theorem only_admitted_commands_run:
  assumes "bt_permissions T = Some check" "bash_command H T call w = Inr (i, command, ms)"
    and "guard T command \<noteq> None \<or>
      bt_mode T \<noteq> ''bypassPermissions'' \<and>
      \<not> HasBashGrant ctx \<lparr>br_ToolName = tc_Name call, br_Command = normal_form (check command) command,
          br_WorkingDir = tc_WorkingDir call\<rparr> \<and>
      (be_Decision (check command) = DecisionDeny \<or>
       be_Decision (check command) = DecisionAsk \<and>
       \<not> (bt_mode T = ''acceptEdits'' \<and> isAcceptEditsAutoAllowedCommand (normal_form (check command) command)))"
  shows "bash_Invoke H (with_shell T X) ctx call w = bash_Invoke H (with_shell T Y) ctx call w \<and>
    snd (bash_Invoke H (with_shell T X) ctx call w) = w"
proof (cases "refusal T check ctx call command")
  case None
  then have "guard T command \<noteq> None" using assms(3) by (auto simp: refusal_def Let_def split: if_splits)
  then show ?thesis using assms(1,2) None by (auto simp: bash_Invoke_def executeAllowedCommand_def)
qed (use assms(1,2) in \<open>simp add: bash_Invoke_def\<close>)

section \<open>Time limits\<close>

lemma parsePositiveIntegerEnv_pos: "0 < fallback \<Longrightarrow> 0 < parsePositiveIntegerEnv env name fallback"
  by (auto simp: parsePositiveIntegerEnv_def Let_def split: option.splits)

text \<open>
  A command always has a time limit between one millisecond and the maximum, whatever the environment
  says and also when the input asks for none, and the limit in nanoseconds is exact as long as the
  maximum stays below 9223372036855 milliseconds.
\<close>

theorem resolved_timeout_is_bounded:
  assumes "resolveTimeout env value = Inr t"
  shows "0 < t \<and> t \<le> effectiveMaxTimeout env \<and>
    (effectiveMaxTimeout env < 9223372036855 \<longrightarrow> milliseconds t = t * 1000000)"
proof -
  have d: "0 < effectiveDefaultTimeout env" "effectiveDefaultTimeout env \<le> effectiveMaxTimeout env"
    by (simp_all add: effectiveDefaultTimeout_def effectiveMaxTimeout_def parsePositiveIntegerEnv_pos Let_def)
  have t: "0 < t" "t \<le> effectiveMaxTimeout env"
    using assms d by (auto simp: resolveTimeout_def Let_def split: if_splits)
  moreover have "milliseconds t = t * 1000000" if "effectiveMaxTimeout env < 9223372036855"
    using t that unfolding milliseconds_def by (intro wrap64_id) (auto simp: in_int64_def max_int64_def min_int64_def)
  ultimately show ?thesis by blast
qed

theorem resolved_timeout_is_bounded_witness:
  "0 < (120000::int) \<and> 120000 \<le> effectiveMaxTimeout (\<lambda>_. '''') \<and>
    (effectiveMaxTimeout (\<lambda>_. '''') < 9223372036855 \<longrightarrow> milliseconds 120000 = 120000 * 1000000)"
  by (rule resolved_timeout_is_bounded [of _ 0]) code_simp

section \<open>Redirections\<close>

definition plain_char :: "char \<Rightarrow> bool" where
  "plain_char c \<longleftrightarrow> c \<notin> {double_quote, single_quote, CHR '' '', CHR 0x09, CHR ''>''}"

definition plain_word :: "string \<Rightarrow> bool" where
  "plain_word w \<longleftrightarrow> w \<noteq> [] \<and> list_all plain_char w"

lemma split_plain:
  "list_all plain_char p \<Longrightarrow> \<not> has_prefix rest ''>'' \<Longrightarrow> split_loop None cur (p @ rest) = split_loop None (cur @ p) rest"
proof (induction p arbitrary: cur)
  case (Cons c p)
  have "\<not> has_prefix (p @ rest) ''>''" using Cons.prems by (cases p) (auto simp: has_prefix_def plain_char_def)
  then show ?case using Cons by (simp add: plain_char_def)
qed simp

lemma split_word: "plain_word w \<Longrightarrow> split_loop None '''' (w @ '' '' @ rest) = w # split_loop None '''' rest"
  using split_plain [of w "'' '' @ rest" "''''"]
  by (simp add: plain_word_def token_of_def has_prefix_def double_quote_def single_quote_def)

lemma split_last: "plain_word w \<Longrightarrow> split_loop None '''' w = [w]"
  using split_plain [of w "''''" "''''"] by (simp add: plain_word_def token_of_def has_prefix_def)

lemma split_words:
  "list_all plain_word ws \<Longrightarrow> ws \<noteq> [] \<Longrightarrow>
    split_loop None '''' (join_str '' '' ws @ '' '' @ rest) = ws @ split_loop None '''' rest"
proof (induction "'' ''" ws rule: join_str.induct)
  case (3 w v vs)
  then show ?case using split_word [of w "join_str '' '' (v # vs) @ '' '' @ rest"] by simp
qed (use split_word in auto)

lemma redirect_words:
  "list_all plain_word ws \<Longrightarrow> redirect_loop (ws @ toks) info kept = redirect_loop toks info (kept @ ws)"
  by (induction ws arbitrary: kept) (auto simp: plain_word_def plain_char_def Let_def)

lemma unquote_plain: "plain_word w \<Longrightarrow> unquote w = w"
  by (cases w) (auto simp: unquote_def plain_word_def plain_char_def)

lemma parse_redirection:
  assumes "ws \<noteq> []" "list_all plain_word ws" "plain_word f"
  shows "parseOutputRedirection (join_str '' '' ws @ '' > '' @ f)
    = \<lparr>ri_StdoutFile = f, ri_StderrFile = '''', ri_Append = False, ri_Command = join_str '' '' ws\<rparr>"
proof -
  have "split_loop None '''' (''> '' @ f) = [''>'', f]"
    using split_last [OF assms(3)] by (simp add: token_of_def has_prefix_def double_quote_def single_quote_def)
  then have "splitCommandRespectingQuotes (join_str '' '' ws @ '' > '' @ f) = ws @ [''>'', f]"
    using split_words [OF assms(2,1), of "''> '' @ f"] by (simp add: splitCommandRespectingQuotes_def)
  then show ?thesis using redirect_words [OF assms(2)] unquote_plain [OF assms(3)]
    by (simp add: parseOutputRedirection_def)
qed

text \<open>
  C36: The redirection of a foreground command is dropped. A command of plain words that ends with a
  single \<open>> f\<close> is handed to the shell without it when it runs in the foreground; if it succeeds, the
  result says that the output was written to \<open>f\<close>, even when there is no file \<open>f\<close> after the run. (A
  background command reaches the shell as it is.)
\<close>

theorem foreground_redirection_is_dropped:
  assumes "ws \<noteq> []" "list_all plain_word ws" "plain_word f" "bt_executor T = Some X"
    and "X \<lparr>sr_Command = join_str '' '' ws, sr_WorkingDir = tc_WorkingDir call, sr_Timeout = milliseconds ms\<rparr> w = (Inr r, w1)"
    and "sh_ExitCode r = 0" "\<not> sh_TimedOut r" "\<not> isImageOutput (sh_Stdout r)" "bh_stat H f w1 = None"
  shows "\<exists>body. executeForegroundCommand H T call (join_str '' '' ws @ '' > '' @ f) ms w =
    ((data_result (body @ newline @ newline @ ''Output written to: '' @ f) '''', None), w1)"
proof -
  define c where "c = join_str '' '' ws @ '' > '' @ f"
  have p: "parseOutputRedirection c = \<lparr>ri_StdoutFile = f, ri_StderrFile = '''', ri_Append = False, ri_Command = join_str '' '' ws\<rparr>"
    unfolding c_def by (rule parse_redirection [OF assms(1-3)])
  have "join_str '' '' ws \<noteq> ''''" using assms(1,2) by (cases ws; cases "tl ws") (auto simp: plain_word_def)
  then have e: "exec_command c = join_str '' '' ws" by (simp add: exec_command_def p)
  have f: "f \<noteq> ''''" using assms(3) by (auto simp: plain_word_def)
  show ?thesis unfolding c_def [symmetric] using assms(4-9) e f
    by (auto simp: executeForegroundCommand_def processImageOutput_def bash_output_of_def p buildRichMeta_def
        data_result_def renderSuccess_def appendOutputFileInfo_def Let_def)
qed

definition demo_host :: "(nat, nat) bash_host" where
  "demo_host = \<lparr>bh_env = (\<lambda>n. ''''), bh_docker = (\<lambda>w. False), bh_stat = (\<lambda>f w. None), bh_resize = (\<lambda>s f n w. None),
     bh_is_image = (\<lambda>s. False), bh_new_id = (\<lambda>w. (''task'', w)), bh_await = (\<lambda>p w. (BudgetSpent, w)),
     bh_stop = (\<lambda>p w. (None, w)), bh_resumable = (\<lambda>p. False)\<rparr>"

text \<open>A shell that counts its runs.\<close>

definition demo_shell :: "(nat, nat, shell_result) shell_call" where
  "demo_shell req w = (Inr \<lparr>sh_Stdout = sr_Command req, sh_Stderr = '''', sh_ExitCode = 0, sh_TimedOut = False, sh_Canceled = False\<rparr>,
     (fst w, snd w + 1))"

definition demo_tool :: "(string \<Rightarrow> bash_evaluation) \<Rightarrow> string \<Rightarrow> (nat, nat) bash_tool" where
  "demo_tool check mode = NewToolWithRuntime (Some demo_shell) None (Some check) mode False"

definition demo_bash_call :: "string \<Rightarrow> tool_call" where
  "demo_bash_call cmd = \<lparr>tc_ID = ''c'', tc_Name = ''Bash'', tc_Input = Some [(''command'', JStr cmd)], tc_WorkingDir = ''/w''\<rparr>"

definition demo_eval :: "string \<Rightarrow> string \<Rightarrow> bash_evaluation" where
  "demo_eval d cmd = \<lparr>be_Decision = d, be_NormalizedCommand = cmd, be_Rule = '''', be_Message = ''ask first''\<rparr>"

theorem foreground_redirection_is_dropped_witness:
  "\<exists>body. executeForegroundCommand demo_host (demo_tool (demo_eval DecisionAllow) ''default'') (demo_bash_call '''')
      (join_str '' '' [''ls'', ''-l''] @ '' > '' @ ''out'') 1000 (NewBackgroundTaskStore, 0) =
    ((data_result (body @ newline @ newline @ ''Output written to: '' @ ''out'') '''', None), (NewBackgroundTaskStore, 1))"
  by (rule foreground_redirection_is_dropped [where X = demo_shell and r = "\<lparr>sh_Stdout = ''ls -l'', sh_Stderr = '''', sh_ExitCode = 0,
          sh_TimedOut = False, sh_Canceled = False\<rparr>"])
     (simp_all add: plain_word_def plain_char_def double_quote_def single_quote_def demo_tool_def NewToolWithRuntime_def
        demo_shell_def demo_host_def isImageOutput_def, code_simp)

lemma accepts_command: "Validate (bash_schema env) (Some [(''command'', JStr cmd)]) = None"
  by (simp add: Validate_def bash_schema_def input_fields_def is_str_def unknown_fields_def must_be_def Let_def)

lemma demo_timeout: "resolveTimeout (bh_env demo_host) 0 = Inr 120000"
  by (simp add: demo_host_def resolveTimeout_def effectiveDefaultTimeout_def effectiveMaxTimeout_def
      parsePositiveIntegerEnv_def trim_space_def)

lemma demo_command:
  assumes "trim_space cmd = cmd" "cmd \<noteq> ''''" "bt_sandbox T = None"
  shows "bash_command demo_host T (demo_bash_call cmd) w =
    Inr (\<lparr>bi_Command = cmd, bi_Timeout = 0, bi_Description = '''', bi_RunInBackground = False, bi_DisableSandbox = False\<rparr>, cmd, 120000)"
  using assms by (simp add: bash_command_def DecodeInput_def accepts_command demo_bash_call_def input_fields_def decode_bash_def
      get_string_def get_int_def get_bool_def demo_timeout sandboxed_def)

theorem only_admitted_commands_run_witness:
  "snd (bash_Invoke demo_host (with_shell (demo_tool (demo_eval DecisionDeny) ''default'') (demo_shell, \<lambda>req w. (Inr 0, w))) None
     (demo_bash_call ''ls'') (NewBackgroundTaskStore, 0)) = (NewBackgroundTaskStore, 0)"
proof -
  let ?T = "demo_tool (demo_eval DecisionDeny) ''default''"
  have c: "bash_command demo_host ?T (demo_bash_call ''ls'') (NewBackgroundTaskStore, 0) =
    Inr (\<lparr>bi_Command = ''ls'', bi_Timeout = 0, bi_Description = '''', bi_RunInBackground = False, bi_DisableSandbox = False\<rparr>, ''ls'', 120000)"
    by (rule demo_command) (simp_all add: demo_tool_def NewToolWithRuntime_def trim_space_def is_space_def)
  have p: "bt_permissions ?T = Some (demo_eval DecisionDeny)" by (simp add: demo_tool_def NewToolWithRuntime_def)
  have m: "bt_mode ?T = ''default''" by (simp add: demo_tool_def NewToolWithRuntime_def trim_space_def is_space_def)
  show ?thesis
    by (rule conjunct2 [OF only_admitted_commands_run [OF p c]]) (simp add: m demo_eval_def HasBashGrant_def)
qed

section \<open>Approvals that release nothing\<close>

lemma HasBashGrant_With: "HasBashGrant (Some (WithBashGrant ctx req)) r \<longleftrightarrow> r = req \<or> HasBashGrant ctx r"
  by (cases ctx; cases r; cases req)
     (auto simp: HasBashGrant_def WithBashGrant_def ctx_or_background_def background_def Let_def)

lemma no_hooks: "te_run_hook E = None \<Longrightarrow> tool_hooks E ev n w = ([], w) \<and> event_hooks E ev w = ((False, []), w)"
  by (simp add: tool_hooks_def event_hooks_def)

lemma stopped_Invoke:
  assumes "bt_executor T \<noteq> None" "bt_permissions T = Some check" "bash_command H T call w = Inr (i, command, ms)"
    and "guard T command = Some pe" "refusal T check ctx call command = None"
  shows "bash_Invoke H T ctx call w = ((ok_result, Some (bash_error pe)), w)"
  using assms by (auto simp: bash_Invoke_def executeAllowedCommand_def)

lemma refusal_asks:
  assumes "be_Decision (check command) \<noteq> DecisionDeny" "bt_mode T \<noteq> ''dontAsk''"
  shows "refusal T check ctx call command = None \<or>
    refusal T check ctx call command = Some (ok_result, Some (bash_error
      \<lparr>bp_Command = normal_form (check command) command, bp_Decision = DecisionAsk, bp_Message = be_Message (check command)\<rparr>))"
  using assms by (simp add: refusal_def Let_def)

lemma refusal_granted:
  "HasBashGrant ctx \<lparr>br_ToolName = tc_Name call, br_Command = normal_form (check command) command, br_WorkingDir = tc_WorkingDir call\<rparr>
    \<Longrightarrow> refusal T check ctx call command = None"
  by (simp add: refusal_def Let_def)

lemma refusal_more_grants:
  "refusal T check ctx call command = None \<Longrightarrow> refusal T check (Some (WithBashGrant ctx req)) call command = None"
  by (simp add: refusal_def HasBashGrant_With Let_def split: if_splits)

text \<open>
  C37: No approval releases a command the guards stop. When \<open>sed\<close> or the scanner asks for approval, the user
  approves everything, and the rules do not deny the command, the call still ends with the message that
  asks for approval, as an error, and the shell has not run.
\<close>

theorem approval_releases_no_guarded_command:
  assumes "te_execute E = bash_Invoke H T" "te_run_hook E = None"
    and "te_decide E = Some (\<lambda>req w. (Inr \<lparr>as_Approved = True, as_Reason = reason\<rparr>, w))"
    and "bt_executor T \<noteq> None" "bt_permissions T = Some check" "bash_command H T call w = Inr (i, command, ms)"
    and "be_Decision (check command) \<noteq> DecisionDeny" "bt_mode T \<noteq> ''dontAsk''" "guard T command = Some pe"
  shows "executeToolUse E ctx call w = ((ok_result, Some (PlainErr (bp_Message pe))), w)"
proof -
  note stop = stopped_Invoke [OF assms(4,5,6,9)]
  have pre: "executeToolUse E ctx call w = run_call E ctx call '''' w"
    using no_hooks [OF assms(2)] by (simp add: executeToolUse_def HasBlockingResult_def ResolvePreToolUsePermission_def apply_updated_def)
  from refusal_asks [where check = check and command = command, OF assms(7,8), of ctx call] show ?thesis
  proof (elim disjE, goal_cases)
    case 1
    then show ?thesis
      using stop [OF 1] stop [OF refusal_more_grants [OF 1]] no_hooks [OF assms(2)] assms(1,3)
      by (simp add: pre run_call_def pending_approval_def bash_error_def first_some_def asks_def execute_approval_def
          bash_case_def finish_call_def ok_result_def HasBlockingResult_def attachAdditionalContext_def trim_space_def)
  next
    case 2
    let ?g = "\<lparr>br_ToolName = tc_Name call, br_Command = normal_form (check command) command, br_WorkingDir = tc_WorkingDir call\<rparr>"
    have "refusal T check (Some (WithBashGrant ctx ?g)) call command = None"
      by (rule refusal_granted) (simp add: HasBashGrant_With)
    note r = stop [OF this]
    have "bash_Invoke H T ctx call w = ((ok_result, Some (bash_error \<lparr>bp_Command = normal_form (check command) command,
        bp_Decision = DecisionAsk, bp_Message = be_Message (check command)\<rparr>)), w)"
      using 2 assms(4,5,6) by (auto simp: bash_Invoke_def)
    then show ?thesis using r no_hooks [OF assms(2)] assms(1,3)
      by (simp add: pre run_call_def pending_approval_def bash_error_def first_some_def asks_def execute_approval_def bash_case_def)
  qed
qed

section \<open>Background commands\<close>

text \<open>
  The output of a background command is lost. When its process ends the task leaves the store, and the
  store, the notification and all that follows are the same whatever the command printed: no tool can
  read it afterwards.
\<close>

theorem background_output_is_lost:
  assumes "taskID \<noteq> ''''" "\<forall>e a b c d x. bt_emit T = Some e \<longrightarrow> fst (e a b c d x) = fst x"
  shows "bg_Get taskID (fst (consumeBackgroundResult T taskID snapshot (Some r) w)) = None \<and>
    consumeBackgroundResult T taskID snapshot (Some (r\<lparr>sh_Stdout := out, sh_Stderr := err\<rparr>)) w
      = consumeBackgroundResult T taskID snapshot (Some r) w"
proof -
  have gone: "bg_Get taskID (bg_Remove taskID s) = None" for s :: "'a bg_store"
    by (simp add: bg_Get_def bg_Remove_def)
  have "background_status (r\<lparr>sh_Stdout := out, sh_Stderr := err\<rparr>) = background_status r"
    by (simp add: background_status_def)
  then show ?thesis using assms gone
    by (auto simp: consumeBackgroundResult_def Let_def split: option.splits prod.splits)
qed

section \<open>Accepted edits\<close>

lemma str_fields_nonempty: "str_fields t \<noteq> [] \<Longrightarrow> t \<noteq> ''''"
  by (auto simp: str_fields_Nil)

lemma trim_space_part: "\<exists>u v. s = u @ trim_space s @ v"
proof -
  obtain u where "s = u @ dropWhile is_space s" using strip_left [of s is_space] by blast
  moreover obtain v where "dropWhile is_space s = trim_space s @ v"
    using strip_right [of "dropWhile is_space s" is_space] unfolding trim_space_def by blast
  ultimately show ?thesis by metis
qed

text \<open>
  In the mode that accepts edits, a command that starts with an editing command is let through without
  asking whatever follows an ampersand: the exclusion of compound commands knows \<open>&&\<close>, \<open>||\<close>, \<open>;\<close> and \<open>|\<close>
  but not the control operator \<open>&\<close>.
\<close>

theorem accepted_edit_admits_background_list:
  assumes "list_all (\<lambda>c. c \<notin> {CHR ''&'', CHR ''|'', CHR '';''}) payload"
  shows "isAcceptEditsAutoAllowedCommand (''touch x & '' @ payload)"
proof -
  let ?s = "''touch x & '' @ payload"
  obtain u v where uv: "?s = u @ trim_space ?s @ v" using trim_space_part by blast
  have p: "count_list payload c = 0" if "c \<in> {CHR ''&'', CHR ''|'', CHR '';''}" for c
    using assms that by (intro count_list_0_iff [THEN iffD2]) (auto simp: list_all_iff)
  have n: "\<not> str_contains (trim_space ?s) q" if "c \<in> {CHR ''&'', CHR ''|'', CHR '';''}" "count_list ?s c < count_list q c" for q c
  proof
    assume "str_contains (trim_space ?s) q"
    then obtain a b where "trim_space ?s = a @ q @ b" by (auto simp: str_contains_iff)
    then have "?s = (u @ a) @ q @ (b @ v)" using uv by simp
    then have "count_list ?s c \<ge> count_list q c" by (metis count_list_append le_add1 le_add2 le_trans)
    with that show False by simp
  qed
  have f: "str_fields (trim_space ?s) = ''touch'' # str_fields (''x & '' @ payload)"
    using str_fields_split [of "CHR '' ''" "''touch''" "''x & '' @ payload"]
    by (simp add: is_space_def str_fields_word)
  have "trim_space ?s \<noteq> ''''" by (rule str_fields_nonempty) (unfold f, simp)
  with f show ?thesis
    using n [of "CHR ''&''" "''&&''"] n [of "CHR ''|''" "''||''"] n [of "CHR '';''" "'';''"] n [of "CHR ''|''" "''|''"]
    by (simp add: isAcceptEditsAutoAllowedCommand_def p)
qed

theorem approval_releases_no_guarded_command_witness:
  "executeToolUse \<lparr>te_hooks = [], te_run_hook = None, te_disabled = False,
      te_decide = Some (\<lambda>req w. (Inr \<lparr>as_Approved = True, as_Reason = ''''\<rparr>, w)),
      te_execute = bash_Invoke demo_host (demo_tool (demo_eval DecisionAsk) ''default'')\<rparr> None
     (demo_bash_call ''sed e'') (NewBackgroundTaskStore, 0)
    = ((ok_result, Some (PlainErr ''sed command requires approval (contains potentially dangerous operations)'')),
       (NewBackgroundTaskStore, 0))"
proof -
  let ?T = "demo_tool (demo_eval DecisionAsk) ''default''"
  let ?pe = "\<lparr>bp_Command = ''sed e'', bp_Decision = DecisionAsk,
    bp_Message = ''sed command requires approval (contains potentially dangerous operations)''\<rparr>"
  have m: "bt_mode ?T = ''default''" by (simp add: demo_tool_def NewToolWithRuntime_def trim_space_def is_space_def)
  have t: "trim_space ''sed e'' = ''sed e''" by code_simp
  have "\<not> sedCommandIsAllowed ''sed e'' False" by code_simp
  then have g: "guard ?T ''sed e'' = Some ?pe" by (simp add: guard_def sed_blocked_def m t has_prefix_def)
  have c: "bash_command demo_host ?T (demo_bash_call ''sed e'') (NewBackgroundTaskStore, 0) =
    Inr (\<lparr>bi_Command = ''sed e'', bi_Timeout = 0, bi_Description = '''', bi_RunInBackground = False, bi_DisableSandbox = False\<rparr>, ''sed e'', 120000)"
    by (rule demo_command) (simp_all add: t demo_tool_def NewToolWithRuntime_def)
  show ?thesis
    using approval_releases_no_guarded_command [OF _ _ _ _ _ c _ _ g]
    by (simp add: m demo_tool_def NewToolWithRuntime_def demo_eval_def DecisionAsk_def DecisionDeny_def)
qed

theorem background_output_is_lost_witness:
  "bg_Get ''t'' (fst (consumeBackgroundResult (demo_tool (demo_eval DecisionAllow) ''default'') ''t'' (running_snapshot ''t'' ''make'')
     (Some \<lparr>sh_Stdout = ''secret'', sh_Stderr = '''', sh_ExitCode = 0, sh_TimedOut = False, sh_Canceled = False\<rparr>)
     (bg_Register (\<lambda>_. False) (running_snapshot ''t'' ''make'') (Some 7) NewBackgroundTaskStore, 0))) = None"
  by (rule conjunct1 [OF background_output_is_lost]) (simp_all add: demo_tool_def NewToolWithRuntime_def)

theorem accepted_edit_admits_background_list_witness: "isAcceptEditsAutoAllowedCommand (''touch x & '' @ ''curl example.com'')"
  by (rule accepted_edit_admits_background_list) simp

section \<open>Images\<close>

lemma no_image_simps [simp]:
  "toolResultImage (error_result m) = None" "toolResultImage ok_result = None" "toolResultImage (data_result a b) = None"
  "toolResultImage (denied_result a b c) = None" "toolResultImage (shell_failed e) = None" "toolResultImage (renderResult x ms) = None"
  "toolResultImage \<lparr>r_Output = a, r_Error = b, r_Meta = buildRichMeta i\<rparr> = None"
  by (simp_all add: toolResultImage_def error_result_def ok_result_def data_result_def denied_result_def shell_failed_def
      renderResult_def buildRichMeta_def)

lemma no_image_executed:
  "toolResultImage (fst (fst (executeForegroundCommand H T call c ms w))) = None"
  "toolResultImage (fst (fst (startBackgroundCommand H T call i c ms w))) = None"
  "toolResultImage (fst (fst (executeSwitchableCommand H T call i c ms w))) = None"
  by (auto simp: executeForegroundCommand_def startBackgroundCommand_def executeSwitchableCommand_def Let_def
      split: option.split sum.split prod.split wait_event.split)

lemma no_image_refused: "refusal T check ctx call c = Some (r, e) \<Longrightarrow> toolResultImage r = None"
  by (auto simp: refusal_def Let_def split: if_splits)

text \<open>
  The picture a command prints as a data URI never becomes an image for the model: whatever the call, the
  engine's \<open>toolResultImage\<close> finds none in the result, because the tool stores another type under the
  key than the one the engine looks for.
\<close>

theorem bash_image_is_not_shown: "toolResultImage (fst (fst (bash_Invoke H T ctx call w))) = None"
  by (auto simp: bash_Invoke_def executeAllowedCommand_def no_image_executed no_image_refused
      split: option.split sum.split prod.split)

end
