(* ===== verification/File_Text.thy ===== *)
theory File_Text
  imports Go_Text
begin

text \<open>
  The text of an edit (\<open>services/tools/file_edit/tool.go\<close>) and the patch shown for it
  (\<open>services/tools/shared/patch.go\<close>). \<open>unicode.IsLetter\<close> is a parameter.
\<close>

section \<open>Quotes\<close>

definition leftSingle :: nat where "leftSingle = 8216"
definition rightSingle :: nat where "rightSingle = 8217"
definition leftDouble :: nat where "leftDouble = 8220"
definition rightDouble :: nat where "rightDouble = 8221"

text \<open>\<open>strings.NewReplacer\<close> on the three bytes of a curly quote.\<close>

fun normalizeQuotes :: "string \<Rightarrow> string" where
  "normalizeQuotes (a # b # c # s) =
    (if a = CHR 0xE2 \<and> b = CHR 0x80 \<and> (c = CHR 0x98 \<or> c = CHR 0x99) then CHR 0x27 # normalizeQuotes s
     else if a = CHR 0xE2 \<and> b = CHR 0x80 \<and> (c = CHR 0x9C \<or> c = CHR 0x9D) then CHR 0x22 # normalizeQuotes s
     else a # normalizeQuotes (b # c # s))"
| "normalizeQuotes s = s"

fun indexRunes :: "nat list \<Rightarrow> nat list \<Rightarrow> nat option" where
  "indexRunes needle [] = (if needle = [] then Some 0 else None)"
| "indexRunes needle (h # hs) =
    (if take (length needle) (h # hs) = needle then Some 0 else map_option Suc (indexRunes needle hs))"

definition findActualString :: "string \<Rightarrow> string \<Rightarrow> string option" where
  "findActualString content search =
    (if str_contains content search then Some search
     else map_option (\<lambda>i. encode_runes (take (length (runes search)) (drop i (runes content))))
       (indexRunes (runes (normalizeQuotes search)) (runes (normalizeQuotes content))))"

definition isOpeningQuoteContext :: "nat option \<Rightarrow> bool" where
  "isOpeningQuoteContext prev \<longleftrightarrow>
    (case prev of None \<Rightarrow> True | Some r \<Rightarrow> r \<in> {32, 9, 10, 13, 40, 91, 123, 45, 8212, 8211})"

fun mapQuoteRunes :: "(nat \<Rightarrow> bool) \<Rightarrow> nat \<Rightarrow> nat \<Rightarrow> nat \<Rightarrow> bool \<Rightarrow> nat option \<Rightarrow> nat list \<Rightarrow> nat list" where
  "mapQuoteRunes letter target opening closing apostrophe prev [] = []"
| "mapQuoteRunes letter target opening closing apostrophe prev (c # cs) =
    (if c \<noteq> target then c
     else if apostrophe \<and> (case prev of None \<Rightarrow> False | Some p \<Rightarrow> letter p) \<and> (case cs of [] \<Rightarrow> False | n # _ \<Rightarrow> letter n) then closing
     else if isOpeningQuoteContext prev then opening
     else closing)
    # mapQuoteRunes letter target opening closing apostrophe (Some c) cs"

definition applyCurlyDoubleQuotes :: "(nat \<Rightarrow> bool) \<Rightarrow> string \<Rightarrow> string" where
  "applyCurlyDoubleQuotes letter s = encode_runes (mapQuoteRunes letter 34 leftDouble rightDouble False None (runes s))"

definition applyCurlySingleQuotes :: "(nat \<Rightarrow> bool) \<Rightarrow> string \<Rightarrow> string" where
  "applyCurlySingleQuotes letter s = encode_runes (mapQuoteRunes letter 39 leftSingle rightSingle True None (runes s))"

definition preserveQuoteStyle :: "(nat \<Rightarrow> bool) \<Rightarrow> string \<Rightarrow> string \<Rightarrow> string \<Rightarrow> string" where
  "preserveQuoteStyle letter expectedOld actualOld new =
    (if expectedOld = actualOld then new
     else
       let has_double = leftDouble \<in> set (runes actualOld) \<or> rightDouble \<in> set (runes actualOld);
           has_single = leftSingle \<in> set (runes actualOld) \<or> rightSingle \<in> set (runes actualOld)
       in if \<not> has_double \<and> \<not> has_single then new
          else let r = (if has_double then applyCurlyDoubleQuotes letter new else new)
               in if has_single then applyCurlySingleQuotes letter r else r)"

section \<open>Patches\<close>

record hunk =
  hk_OldStart :: nat
  hk_OldLines :: nat
  hk_NewStart :: nat
  hk_NewLines :: nat
  hk_Lines :: "string list"

definition splitLines :: "string \<Rightarrow> string list" where
  "splitLines content =
    (if content = '''' then []
     else let ls = split_char (CHR 0x0A) content in
       if has_suffix content [CHR 0x0A] then butlast ls else ls)"

fun common_prefix :: "'a list \<Rightarrow> 'a list \<Rightarrow> nat" where
  "common_prefix (x # xs) (y # ys) = (if x = y then Suc (common_prefix xs ys) else 0)"
| "common_prefix xs ys = 0"

text \<open>The common suffix is counted from the back and not into the common prefix.\<close>

definition BuildStructuredPatch :: "string \<Rightarrow> string \<Rightarrow> hunk list" where
  "BuildStructuredPatch old new =
    (if old = new then []
     else
       let oldLines = splitLines old; newLines = splitLines new;
           p = common_prefix oldLines newLines;
           s = common_prefix (rev (drop p oldLines)) (rev (drop p newLines));
           oldChanged = take (length oldLines - p - s) (drop p oldLines);
           newChanged = take (length newLines - p - s) (drop p newLines)
       in [\<lparr>hk_OldStart = p + 1, hk_OldLines = length oldChanged, hk_NewStart = p + 1, hk_NewLines = length newChanged,
            hk_Lines = map (\<lambda>l. CHR ''-'' # l) oldChanged @ map (\<lambda>l. CHR ''+'' # l) newChanged\<rparr>])"

section \<open>What the search finds\<close>

definition straight :: "nat \<Rightarrow> nat" where
  "straight r = (if r = leftSingle \<or> r = rightSingle then 39 else if r = leftDouble \<or> r = rightDouble then 34 else r)"

lemma straight_rune [simp]: "is_rune r \<Longrightarrow> is_rune (straight r)"
  by (auto simp: straight_def is_rune_def)

lemma quote_bytes:
  "encode_rune leftSingle = [CHR 0xE2, CHR 0x80, CHR 0x98]" "encode_rune rightSingle = [CHR 0xE2, CHR 0x80, CHR 0x99]"
  "encode_rune leftDouble = [CHR 0xE2, CHR 0x80, CHR 0x9C]" "encode_rune rightDouble = [CHR 0xE2, CHR 0x80, CHR 0x9D]"
  by (simp_all add: encode_rune_def leftSingle_def rightSingle_def leftDouble_def rightDouble_def char_of_def bit_iff_odd)

lemma byte_CHR: "byte (CHR 0xE2) = 226" "byte (CHR 0x80) = 128" "byte (CHR 0x98) = 152" "byte (CHR 0x99) = 153"
  "byte (CHR 0x9C) = 156" "byte (CHR 0x9D) = 157"
  by (simp_all add: byte_def)

lemma normalize_skip: "a \<noteq> CHR 0xE2 \<Longrightarrow> normalizeQuotes (a # t) = a # normalizeQuotes t"
  by (cases t; cases "tl t") auto

lemma char_of_not_E2: "n < 256 \<Longrightarrow> n \<noteq> 226 \<Longrightarrow> char_of (n :: nat) \<noteq> CHR 0xE2"
  by (metis byte_CHR(1) byte_char_of)

lemma quote_rune:
  assumes "n div 4096 = 2" "n div 64 mod 64 = 0" "n mod 64 \<in> {24, 25, 28, 29}"
  shows "n \<in> {leftSingle, rightSingle, leftDouble, rightDouble}"
proof -
  have "n = 8192 + n mod 64" using split3 [of n] assms(1,2) by simp
  then show ?thesis using assms(3) by (auto simp: leftSingle_def rightSingle_def leftDouble_def rightDouble_def)
qed

lemma normalize_rune:
  assumes "is_rune n"
  shows "normalizeQuotes (encode_rune n @ t) = encode_rune (straight n) @ normalizeQuotes t"
proof (cases "n \<in> {leftSingle, rightSingle, leftDouble, rightDouble}")
  case True
  have "encode_rune 39 = [CHR 0x27]" "encode_rune 34 = [CHR 0x22]" by (simp_all add: encode_rune_def char_of_def bit_iff_odd)
  then show ?thesis using True
    by (auto simp: quote_bytes straight_def leftSingle_def rightSingle_def leftDouble_def rightDouble_def
        simp flip: leftSingle_def rightSingle_def leftDouble_def rightDouble_def)
next
  case False
  then have s: "straight n = n" by (auto simp: straight_def)
  have c: "char_of (128 + m mod 64) \<noteq> CHR 0xE2" for m :: nat by (rule char_of_not_E2) simp_all
  consider (1) "n < 128" | (2) "128 \<le> n" "n < 2048" | (3) "2048 \<le> n" "n < 65536" | (4) "65536 \<le> n" "n < 1114112"
    using assms by (auto simp: is_rune_def) linarith+
  then show ?thesis
  proof cases
    case 1
    then show ?thesis using char_of_not_E2 [of n] by (simp add: s encode_rune_def normalize_skip)
  next
    case 2
    then have "char_of (192 + n div 64) \<noteq> CHR 0xE2" by (intro char_of_not_E2) auto
    then show ?thesis using 2 c by (simp add: s encode_rune_def normalize_skip)
  next
    case 3
    let ?a = "char_of (224 + n div 4096)" and ?b = "char_of (128 + n div 64 mod 64)" and ?c = "char_of (128 + n mod 64)"
    have e: "encode_rune n = [?a, ?b, ?c]" using 3 by (simp add: encode_rune_def)
    have "\<not> (?a = CHR 0xE2 \<and> ?b = CHR 0x80 \<and> ?c \<in> {CHR 0x98, CHR 0x99, CHR 0x9C, CHR 0x9D})"
    proof
      assume q: "?a = CHR 0xE2 \<and> ?b = CHR 0x80 \<and> ?c \<in> {CHR 0x98, CHR 0x99, CHR 0x9C, CHR 0x9D}"
      have b: "byte ?a = 224 + n div 4096" "byte ?b = 128 + n div 64 mod 64" "byte ?c = 128 + n mod 64"
        using 3 by (auto intro!: byte_char_of)
      from q have "byte ?a = 226" "byte ?b = 128" using byte_CHR by (simp_all only:)
      moreover from q have "byte ?c \<in> byte ` {CHR 0x98, CHR 0x99, CHR 0x9C, CHR 0x9D}" by (intro imageI) (simp only:)
      then have "byte ?c \<in> {152, 153, 156, 157}" by (simp only: image_insert image_empty byte_CHR)
      ultimately have "n div 4096 = 2" "n div 64 mod 64 = 0" "n mod 64 \<in> {24, 25, 28, 29}" unfolding b by auto
      with False quote_rune [of n] show False by blast
    qed
    then have "normalizeQuotes (?a # ?b # ?c # t) = ?a # normalizeQuotes (?b # ?c # t)" by simp
    also have "normalizeQuotes (?b # ?c # t) = ?b # ?c # normalizeQuotes t" using c [of "n div 64"] c [of n] by (simp only: normalize_skip not_False_eq_True)
    finally show ?thesis by (simp only: s e append_Cons append_Nil)
  next
    case 4
    then have "char_of (240 + n div 262144) \<noteq> CHR 0xE2" by (intro char_of_not_E2) auto
    then show ?thesis using 4 c by (simp add: s encode_rune_def normalize_skip)
  qed
qed

lemma normalize_encode:
  "list_all is_rune ns \<Longrightarrow> normalizeQuotes (encode_runes ns) = encode_runes (map straight ns)"
  by (induction ns) (simp_all add: normalize_rune)

lemma runes_normalize: "utf8_valid s \<Longrightarrow> runes (normalizeQuotes s) = map straight (runes s)"
proof -
  assume "utf8_valid s"
  then obtain ns where ns: "s = encode_runes ns" "list_all is_rune ns" "runes s = ns" by (rule valid_cases)
  have "list_all is_rune (map straight ns)" using ns(2) by (auto simp: list_all_iff)
  then show ?thesis using ns runes_encode normalize_encode by simp
qed

lemma indexRunes_Some: "indexRunes needle hay = Some i \<Longrightarrow> take (length needle) (drop i hay) = needle"
  by (induction hay arbitrary: i) (auto split: if_splits)

lemma indexRunes_None: "indexRunes needle hay = None \<Longrightarrow> take (length needle) (drop i hay) \<noteq> needle"
  by (induction hay arbitrary: i) (auto split: if_splits simp: drop_Cons split: nat.splits)

lemma straight_encode_inj:
  assumes "list_all is_rune xs" "list_all is_rune ys"
  shows "encode_runes xs = encode_runes ys \<longleftrightarrow> xs = ys"
  using runes_encode [OF assms(1)] runes_encode [OF assms(2)] by metis

text \<open>
  C16: The search of an edit is sound and complete up to the form of quotes, on text that is valid UTF-8:
  what it finds is a part of the file that equals the search string once curly quotes are made
  straight, and when it finds nothing no such part exists.
\<close>

theorem findActualString_exact:
  assumes "utf8_valid content" "utf8_valid search"
  shows "case findActualString content search of
      Some actual \<Rightarrow> (\<exists>a b. content = a @ actual @ b) \<and> normalizeQuotes actual = normalizeQuotes search
    | None \<Rightarrow> \<not> (\<exists>a x b. content = a @ x @ b \<and> utf8_valid a \<and> utf8_valid x \<and> utf8_valid b
        \<and> normalizeQuotes x = normalizeQuotes search)"
proof -
  obtain cs where cs: "content = encode_runes cs" "list_all is_rune cs" "runes content = cs" by (rule valid_cases [OF assms(1)])
  obtain ss where ss: "search = encode_runes ss" "list_all is_rune ss" "runes search = ss" by (rule valid_cases [OF assms(2)])
  have st: "list_all is_rune (map straight xs)" if "list_all is_rune xs" for xs using that by (auto simp: list_all_iff)
  note rn = runes_normalize [OF assms(1)] runes_normalize [OF assms(2)]
  show ?thesis
  proof (cases "findActualString content search")
    case None
    then have c: "\<not> str_contains content search" and i: "indexRunes (map straight ss) (map straight cs) = None"
      by (auto simp: findActualString_def rn cs(3) ss(3) split: if_splits)
    have False if h: "content = a @ x @ b" "utf8_valid a" "utf8_valid x" "utf8_valid b" "normalizeQuotes x = normalizeQuotes search"
      for a x b
    proof -
      obtain as xs bs where e: "a = encode_runes as" "list_all is_rune as" "x = encode_runes xs" "list_all is_rune xs"
        "b = encode_runes bs" "list_all is_rune bs" using valid_cases h(2-4) by metis
      have "encode_runes cs = encode_runes (as @ xs @ bs)" using h(1) cs(1) e by simp
      then have m: "cs = as @ xs @ bs" using straight_encode_inj [of cs "as @ xs @ bs"] cs(2) e by simp
      have "encode_runes (map straight xs) = encode_runes (map straight ss)" using h(5) e ss normalize_encode by simp
      then have "map straight xs = map straight ss" using straight_encode_inj st e(4) ss(2) by blast
      then have "take (length (map straight ss)) (drop (length as) (map straight cs)) = map straight ss"
        using m by (metis append_eq_conv_conj length_map map_append)
      then show False using indexRunes_None [OF i] by blast
    qed
    then show ?thesis unfolding None by (simp only: option.case) blast
  next
    case (Some actual)
    show ?thesis
    proof (cases "str_contains content search")
      case True
      then show ?thesis using Some by (auto simp: findActualString_def str_contains_iff)
    next
      case False
      then obtain i where i: "indexRunes (map straight ss) (map straight cs) = Some i" "actual = encode_runes (take (length ss) (drop i cs))"
        using Some by (auto simp: findActualString_def rn cs(3) ss(3))
      let ?x = "take (length ss) (drop i cs)"
      have t: "map straight ?x = map straight ss" using indexRunes_Some [OF i(1)] by (simp add: take_map drop_map)
      have x: "list_all is_rune ?x" using cs(2) by (auto simp: list_all_iff dest!: in_set_takeD in_set_dropD)
      have "cs = take i cs @ ?x @ drop (length ss) (drop i cs)" by (simp only: append_take_drop_id)
      then have "content = encode_runes (take i cs) @ actual @ encode_runes (drop (length ss) (drop i cs))"
        unfolding cs(1) i(2) by (metis encode_runes_simps(3))
      moreover have "normalizeQuotes actual = normalizeQuotes search"
        unfolding i(2) ss(1) normalize_encode [OF x] normalize_encode [OF ss(2)] t ..
      ultimately show ?thesis unfolding Some by (simp only: option.case) blast
    qed
  qed
qed

theorem findActualString_exact_witness:
  "case findActualString ''a'' ''b'' of
      Some actual \<Rightarrow> (\<exists>a b. ''a'' = a @ actual @ b) \<and> normalizeQuotes actual = normalizeQuotes ''b''
    | None \<Rightarrow> \<not> (\<exists>a x b. ''a'' = a @ x @ b \<and> utf8_valid a \<and> utf8_valid x \<and> utf8_valid b
        \<and> normalizeQuotes x = normalizeQuotes ''b'')"
  by (rule findActualString_exact) (simp_all add: utf8_valid_def decode_rune_def byte_def)

section \<open>What a patch does\<close>

text \<open>The reader of a patch: the lines a hunk removes have to be there.\<close>

definition marked :: "char \<Rightarrow> string list \<Rightarrow> string list" where
  "marked c ls = map tl (filter (\<lambda>l. l \<noteq> [] \<and> hd l = c) ls)"

definition apply_hunk :: "hunk \<Rightarrow> string list \<Rightarrow> string list option" where
  "apply_hunk h ls =
    (let k = hk_OldStart h - 1; n = hk_OldLines h in
     if take n (drop k ls) = marked (CHR ''-'') (hk_Lines h)
     then Some (take k ls @ marked (CHR ''+'') (hk_Lines h) @ drop (k + n) ls) else None)"

fun apply_patch :: "hunk list \<Rightarrow> string list \<Rightarrow> string list option" where
  "apply_patch [] ls = Some ls"
| "apply_patch (h # hs) ls = (case apply_hunk h ls of None \<Rightarrow> None | Some r \<Rightarrow> apply_patch hs r)"

lemma marked_simps:
  "marked c (map ((#) c) xs @ map ((#) d) ys) = (if c = d then xs @ ys else xs)"
  "c \<noteq> d \<Longrightarrow> marked d (map ((#) c) xs @ map ((#) d) ys) = ys"
  by (simp_all add: marked_def filter_map comp_def)

lemma common_prefix_take: "take (common_prefix xs ys) xs = take (common_prefix xs ys) ys"
  by (induction xs ys rule: common_prefix.induct) auto

lemma common_prefix_le: "common_prefix xs ys \<le> length xs" "common_prefix xs ys \<le> length ys"
  by (induction xs ys rule: common_prefix.induct) auto

lemma common_suffix: 
  assumes "s = common_prefix (rev xs) (rev ys)"
  shows "drop (length xs - s) xs = drop (length ys - s) ys"
proof -
  have "take s (rev xs) = take s (rev ys)" unfolding assms by (rule common_prefix_take)
  then show ?thesis by (simp add: take_rev)
qed

text \<open>
  C19: The patch shown for an edit is exact on lines: applied to the lines of the old text it finds every
  line it removes and gives the lines of the new text.
\<close>

theorem patch_applies: "apply_patch (BuildStructuredPatch old new) (splitLines old) = Some (splitLines new)"
proof (cases "old = new")
  case False
  define xs ys where "xs = splitLines old" and "ys = splitLines new"
  define p where "p = common_prefix xs ys"
  define s where "s = common_prefix (rev (drop p xs)) (rev (drop p ys))"
  define n where "n = length xs - p - s"
  define m where "m = length ys - p - s"
  let ?rem = "take n (drop p xs)" and ?add = "take m (drop p ys)"
  have P: "take p xs = take p ys" unfolding p_def by (rule common_prefix_take)
  have S: "drop n (drop p xs) = drop m (drop p ys)"
    using common_suffix [of s "drop p xs" "drop p ys"] by (simp add: n_def m_def s_def)
  have hunks: "BuildStructuredPatch old new = [\<lparr>hk_OldStart = p + 1, hk_OldLines = length ?rem, hk_NewStart = p + 1, hk_NewLines = length ?add,
      hk_Lines = map ((#) (CHR ''-'')) ?rem @ map ((#) (CHR ''+'')) ?add\<rparr>]"
    using False by (simp add: BuildStructuredPatch_def Let_def xs_def ys_def p_def s_def n_def m_def)
  have "take p xs @ ?add @ drop (p + length ?rem) xs = take p ys @ ?add @ drop m (drop p ys)"
    using P S by (simp add: n_def add.commute)
  also have "\<dots> = ys" by (simp only: append_take_drop_id)
  finally have "take p xs @ ?add @ drop (p + length ?rem) xs = ys" .
  then show ?thesis unfolding hunks xs_def [symmetric] ys_def [symmetric]
    by (simp add: apply_hunk_def marked_simps Let_def n_def)
qed (simp add: BuildStructuredPatch_def)

end
