(* ===== verification/Team_Memory.thy ===== *)
theory Team_Memory
  imports Paths Regexp
begin

text \<open>
  The secrets that must not be written to the memory shared with a team
  (\<open>services/tools/shared/team_memory.go\<close>). \<open>filepath.ToSlash\<close> is the identity on Unix.
\<close>

section \<open>Patterns\<close>

definition Times :: "nat \<Rightarrow> regexp \<Rightarrow> regexp" where
  "Times n r = Seq (replicate n r)"

definition Between :: "nat \<Rightarrow> nat \<Rightarrow> regexp \<Rightarrow> regexp" where
  "Between a b r = Seq (replicate a r @ replicate (b - a) (Opt r))"

definition upper :: "char \<Rightarrow> bool" where
  "upper c \<longleftrightarrow> (let n = (of_char c :: nat) in 65 \<le> n \<and> n \<le> 90)"

definition alnum :: "char \<Rightarrow> bool" where
  "alnum c \<longleftrightarrow> (let n = (of_char c :: nat) in (48 \<le> n \<and> n \<le> 57) \<or> (65 \<le> n \<and> n \<le> 90) \<or> (97 \<le> n \<and> n \<le> 122))"

definition key_char :: "char \<Rightarrow> bool" where
  "key_char c \<longleftrightarrow> alnum c \<or> c = CHR ''_'' \<or> c = CHR ''-''"

definition base32_char :: "char \<Rightarrow> bool" where
  "base32_char c \<longleftrightarrow> upper c \<or> (let n = (of_char c :: nat) in 50 \<le> n \<and> n \<le> 55)"

text \<open>What may follow a key: a quote, white space, a semicolon, an escaped line break or the end.\<close>

definition key_end :: regexp where
  "key_end = Alts [Cls (\<lambda>c. c = CHR 0x60 \<or> c = CHR 0x27 \<or> c = CHR 0x22 \<or> rx_space c \<or> c = CHR '';''),
     Seq [Lit [CHR 0x5C], Cls (\<lambda>c. c = CHR ''n'' \<or> c = CHR ''r'')], Eol]"

definition openai_part :: regexp where
  "openai_part = Alts [Times 74 (Cls key_char), Times 58 (Cls key_char)]"

record secret_rule =
  sc_id :: string
  sc_label :: string
  sc_pattern :: regexp

definition secret :: "string \<Rightarrow> string \<Rightarrow> regexp list \<Rightarrow> secret_rule" where
  "secret i l rs = \<lparr>sc_id = i, sc_label = l, sc_pattern = Seq rs\<rparr>"

definition teamMemorySecretRules :: "secret_rule list" where
  "teamMemorySecretRules =
    [secret ''aws-access-token'' ''AWS access token''
       [WordB, Alts [Seq [Lit ''A3T'', Cls (\<lambda>c. upper c \<or> is_digit c)], Lit ''AKIA'', Lit ''ASIA'', Lit ''ABIA'', Lit ''ACCA''],
        Times 16 (Cls base32_char), WordB],
     secret ''anthropic-api-key'' ''Anthropic API key'' [WordB, Lit ''sk-ant-api03-'', Times 93 (Cls key_char), Lit ''AA'', key_end],
     secret ''anthropic-admin-api-key'' ''Anthropic admin API key''
       [WordB, Lit ''sk-ant-admin01-'', Times 93 (Cls key_char), Lit ''AA'', key_end],
     secret ''openai-api-key'' ''OpenAI API key''
       [WordB,
        Alts [Seq [Lit ''sk-'', Alts [Lit ''proj'', Lit ''svcacct'', Lit ''admin''], Lit ''-'', openai_part, Lit ''T3BlbkFJ'', openai_part],
              Seq [Lit ''sk-'', Times 20 (Cls alnum), Lit ''T3BlbkFJ'', Times 20 (Cls alnum)]],
        key_end],
     secret ''github-pat'' ''GitHub PAT'' [Lit ''ghp_'', Times 36 (Cls alnum)],
     secret ''slack-bot-token'' ''Slack bot token''
       [Lit ''xoxb-'', Between 10 13 (Cls is_digit), Lit ''-'', Between 10 13 (Cls is_digit), Star (Cls (\<lambda>c. alnum c \<or> c = CHR ''-''))],
     secret ''gitlab-pat'' ''GitLab PAT'' [Lit ''glpat-'', Times 20 (Cls (\<lambda>c. rx_word c \<or> c = CHR ''-''))],
     secret ''stripe-access-token'' ''Stripe access token''
       [WordB, Alts [Lit ''sk'', Lit ''rk''], Lit ''_'', Alts [Lit ''test'', Lit ''live'', Lit ''prod''], Lit ''_'',
        Between 10 99 (Cls alnum), key_end]]"

section \<open>The check\<close>

definition IsTeamMemoryPath :: "string \<Rightarrow> bool" where
  "IsTeamMemoryPath filePath \<longleftrightarrow>
    (let n = to_lower (path_Clean filePath) in str_contains n ''/memory/team/'' \<or> has_suffix n ''/memory/team'')"

definition ScanForSecrets :: "string \<Rightarrow> secret_rule list" where
  "ScanForSecrets content =
    (if content = '''' then [] else filter (\<lambda>r. regexp_match (sc_pattern r) content) teamMemorySecretRules)"

definition distinct_labels :: "secret_rule list \<Rightarrow> string list" where
  "distinct_labels rs = fold (\<lambda>r ls. if sc_label r \<in> set ls then ls else ls @ [sc_label r]) rs []"

definition CheckTeamMemorySecrets :: "string \<Rightarrow> string \<Rightarrow> string" where
  "CheckTeamMemorySecrets filePath content =
    (if \<not> IsTeamMemoryPath filePath then ''''
     else let matches = ScanForSecrets content in
       if matches = [] then ''''
       else ''Content contains potential secrets ('' @ join_str '', '' (distinct_labels matches)
         @ '') and cannot be written to team memory. Team memory is shared with all repository collaborators. Remove the sensitive content and try again.'')"

end
