(* ===== verification/File_Tools.thy ===== *)
theory File_Tools
  imports Tool_Execution Tool_Schema File_Text Team_Memory
begin

text \<open>
  The tools that read and change files and the executor that keeps what has been read:
  \<open>services/tools/file_read\<close> (text files), \<open>file_edit\<close>, \<open>file_write\<close>, \<open>core/tool/call.go\<close>,
  \<open>runtime/executor/tool_executor.go\<close>, \<open>platform/fs/path.go\<close>.

  The disk is the part of the operating system these tools use: files with their bytes, modification
  time and permissions, directories, and the calls \<open>Stat\<close>, \<open>ReadFile\<close>, \<open>MkdirAll\<close>, \<open>WriteFile\<close>, each
  atomic on a path without symbolic links. A call can be made to fail, a failing write also after it has
  cut the file. Parameters are \<open>unicode.IsLetter\<close>, the validation of settings files, the reminder for
  memory files, and the readers of images, notebooks and PDF files. Log lines are left out.
\<close>

section \<open>The disk\<close>

record file_entry =
  fe_Data :: string
  fe_ModTime :: int
  fe_Perm :: nat

datatype node = RegularFile file_entry | Directory

record disk =
  dk_nodes :: "string \<rightharpoonup> node"
  dk_now :: int
  dk_stat_error :: "string \<Rightarrow> string option"
  dk_read_error :: "string \<Rightarrow> string option"
  dk_mkdir_error :: "string \<Rightarrow> string option"
  dk_write_error :: "string \<Rightarrow> (string \<times> string option) option"

text \<open>An error with whether it says that the path does not exist.\<close>

definition os_Stat :: "disk \<Rightarrow> string \<Rightarrow> bool \<times> string + node" where
  "os_Stat d p = (case dk_stat_error d p of
     Some e \<Rightarrow> Inl (False, e)
   | None \<Rightarrow> (case dk_nodes d p of
       None \<Rightarrow> Inl (True, ''stat '' @ p @ '': no such file or directory'')
     | Some n \<Rightarrow> Inr n))"

definition os_ReadFile :: "disk \<Rightarrow> string \<Rightarrow> string + string" where
  "os_ReadFile d p = (case dk_read_error d p of
     Some e \<Rightarrow> Inl e
   | None \<Rightarrow> (case dk_nodes d p of
       None \<Rightarrow> Inl (''open '' @ p @ '': no such file or directory'')
     | Some Directory \<Rightarrow> Inl (''read '' @ p @ '': is a directory'')
     | Some (RegularFile f) \<Rightarrow> Inr (fe_Data f)))"

definition ancestors :: "string \<Rightarrow> string list" where
  "ancestors p = map (\<lambda>k. take k p) (filter (\<lambda>k. k = length p \<or> p ! k = CHR ''/'') [1..<Suc (length p)])"

definition os_MkdirAll :: "disk \<Rightarrow> string \<Rightarrow> string option \<times> disk" where
  "os_MkdirAll d p = (case dk_mkdir_error d p of
     Some e \<Rightarrow> (Some e, d)
   | None \<Rightarrow>
      if list_ex (\<lambda>q. case dk_nodes d q of Some (RegularFile f) \<Rightarrow> True | _ \<Rightarrow> False) (ancestors p)
      then (Some (''mkdir '' @ p @ '': not a directory''), d)
      else (None, d\<lparr>dk_nodes := fold (\<lambda>q m. if m q = None then m(q \<mapsto> Directory) else m) (ancestors p) (dk_nodes d)\<rparr>))"

definition set_data :: "string \<Rightarrow> string \<Rightarrow> nat \<Rightarrow> disk \<Rightarrow> disk" where
  "set_data p data perm d = d\<lparr>dk_nodes := (dk_nodes d)(p \<mapsto> RegularFile
     \<lparr>fe_Data = data, fe_ModTime = dk_now d,
      fe_Perm = (case dk_nodes d p of Some (RegularFile f) \<Rightarrow> fe_Perm f | _ \<Rightarrow> perm)\<rparr>)\<rparr>"

definition os_WriteFile :: "disk \<Rightarrow> string \<Rightarrow> string \<Rightarrow> nat \<Rightarrow> string option \<times> disk" where
  "os_WriteFile d p data perm = (case dk_write_error d p of
     Some (e, None) \<Rightarrow> (Some e, d)
   | Some (e, Some torn) \<Rightarrow> (Some e, set_data p torn perm d)
   | None \<Rightarrow> if dk_nodes d p = Some Directory then (Some (''open '' @ p @ '': is a directory''), d)
             else (None, set_data p data perm d))"

section \<open>Paths\<close>

definition ExpandPath :: "path_env \<Rightarrow> string \<Rightarrow> string \<Rightarrow> string checked" where
  "ExpandPath env path baseDir =
    bind_res (if baseDir = '''' then env_Getwd env else Inr baseDir) (\<lambda>base.
      if CHR 0x00 \<in> set path \<or> CHR 0x00 \<in> set base then Inl ''path contains null bytes''
      else
        let p = trim_space path in
        if p = '''' then Inr (path_Clean base)
        else if p = ''~'' then bind_res (env_UserHomeDir env) (\<lambda>h. Inr (path_Clean h))
        else if has_prefix p ''~/'' \<or> has_prefix p [CHR ''~'', CHR 0x5C]
        then bind_res (env_UserHomeDir env) (\<lambda>h. Inr (path_Clean (path_Join h (drop 2 p))))
        else if is_abs p then Inr (path_Clean p)
        else Inr (path_Clean (path_Join base p)))"

definition ToRelativePath :: "path_env \<Rightarrow> string \<Rightarrow> string \<Rightarrow> string" where
  "ToRelativePath env absolutePath workingDir =
    (if absolutePath = '''' then ''''
     else case (if workingDir = '''' then env_Getwd env else Inr workingDir) of
       Inl e \<Rightarrow> absolutePath
     | Inr base \<Rightarrow>
        (case path_Rel base absolutePath of
           None \<Rightarrow> absolutePath
         | Some r \<Rightarrow> if r = ''..'' \<or> has_prefix r ''../'' then absolutePath else r))"

section \<open>What has been read\<close>

text \<open>A time is a number of nanoseconds since the zero time of Go.\<close>

record read_state =
  rd_ReadAt :: int
  rd_ObservedModTime :: int
  rd_ReadOffset :: int
  rd_ReadLimit :: int
  rd_IsPartial :: bool

type_synonym read_states = "string \<rightharpoonup> read_state"

definition Lookup :: "read_states \<Rightarrow> string \<Rightarrow> read_state option" where
  "Lookup s path = (if path = '''' then None else s path)"

definition MergeReadState :: "read_states \<Rightarrow> read_states \<Rightarrow> read_states" where
  "MergeReadState s other = (\<lambda>path. if path \<noteq> '''' \<and> other path \<noteq> None then other path else s path)"

section \<open>The executor\<close>

text \<open>
  A tool gets the merged read states with the call and returns those it adds
  (\<open>Meta["read_state"]\<close>) next to the rest of its result.
\<close>

type_synonym 'w invoker = "perm_ctx option \<Rightarrow> read_states \<Rightarrow> tool_call \<Rightarrow> 'w \<Rightarrow>
  ((tool_result \<times> read_states) \<times> invoke_error option) \<times> 'w"

record 'w tool_impl =
  ti_Invoke :: "'w invoker"
  ti_ConcurrencySafe :: bool

definition IsConcurrencySafe :: "(string \<Rightarrow> 'w tool_impl option) option \<Rightarrow> string \<Rightarrow> bool" where
  "IsConcurrencySafe registry toolName =
    (case registry of
       None \<Rightarrow> False
     | Some get \<Rightarrow> if toolName = '''' then False
                   else (case get toolName of None \<Rightarrow> False | Some t \<Rightarrow> ti_ConcurrencySafe t))"

definition applyReadStateUpdate :: "read_states \<Rightarrow> read_states \<Rightarrow> read_states" where
  "applyReadStateUpdate update states = (if dom update = {} then states else MergeReadState states update)"

definition exec_error :: "string \<Rightarrow> invoke_error" where
  "exec_error msg = \<lparr>ie_error = PlainErr msg, ie_fs = None, ie_bash = None, ie_web = None\<rparr>"

definition Execute :: "(string \<Rightarrow> 'w tool_impl option) option \<Rightarrow> read_states \<Rightarrow> (read_states \<times> 'w) tool_exec" where
  "Execute registry inline ctx call sw =
    (case registry of
       None \<Rightarrow> ((ok_result, Some (exec_error ''tool executor: registry is not configured'')), sw)
     | Some get \<Rightarrow>
        if tc_Name call = '''' then ((ok_result, Some (exec_error ''tool executor: empty tool name'')), sw)
        else case get (tc_Name call) of
          None \<Rightarrow> ((ok_result, Some (exec_error (''tool executor: tool '' @ go_quote (tc_Name call) @ '' not found''))), sw)
        | Some t \<Rightarrow>
            (case ti_Invoke t ctx (MergeReadState (fst sw) inline) call (snd sw) of
               (((r, update), Some e), w1) \<Rightarrow> ((r, Some e), (fst sw, w1))
             | (((r, update), None), w1) \<Rightarrow> ((r, None), (applyReadStateUpdate update (fst sw), w1))))"

section \<open>Guards of changes\<close>

definition unread_error :: string where
  "unread_error = ''File has not been read yet. Read it first before writing to it.''"

definition modified_error :: string where
  "modified_error = ''File has been modified since read, either by the user or by a linter. Read it again before attempting to write it.''"

definition validateExistingFileReadState :: "read_states \<Rightarrow> string \<Rightarrow> int \<Rightarrow> string option" where
  "validateExistingFileReadState states filePath currentModTime =
    (case Lookup states filePath of
       None \<Rightarrow> Some unread_error
     | Some s \<Rightarrow>
        if rd_IsPartial s then Some unread_error
        else if rd_ObservedModTime s \<noteq> 0 \<and> currentModTime > rd_ObservedModTime s then Some modified_error
        else None)"

text \<open>\<open>math.Round(v*10)/10\<close> printed with one decimal, exact as the sizes are far below \<open>2 ^ 49\<close>.\<close>

definition formatFileSize :: "nat \<Rightarrow> string" where
  "formatFileSize sz =
    (let unit = \<lambda>k. [''B'', ''KiB'', ''MiB'', ''GiB'', ''TiB''] ! k;
         k = (if sz < 1024 then 0 else if sz < 1024 ^ 2 then 1 else if sz < 1024 ^ 3 then 2
              else if sz < 1024 ^ 4 then 3 else 4);
         tenths = (20 * sz + 1024 ^ k) div (2 * 1024 ^ k)
     in (if k = 0 then nat_str sz else nat_str (tenths div 10) @ ''.'' @ nat_str (tenths mod 10)) @ '' '' @ unit k)"

record file_env =
  fx_paths :: path_env
  fx_policy :: fs_policy
  fx_letter :: "nat \<Rightarrow> bool"
  fx_settings :: "string \<Rightarrow> (string \<times> string) option"

definition file_error :: "permission_error \<Rightarrow> invoke_error" where
  "file_error pe = \<lparr>ie_error = PlainErr (pe_Message pe), ie_fs = Some pe, ie_bash = None, ie_web = None\<rparr>"

definition write_refused :: "file_env \<Rightarrow> perm_ctx option \<Rightarrow> string \<Rightarrow> string \<Rightarrow> string \<Rightarrow> permission_error option" where
  "write_refused X ctx toolName filePath workingDir =
    ToError (CheckWritePermissionForTool (fx_paths X) (fx_policy X) ctx toolName filePath workingDir)
      \<lparr>fr_ToolName = toolName, fr_Path = filePath, fr_WorkingDir = workingDir, fr_Access = AccessWrite\<rparr>"

type_synonym file_answer = "((tool_result \<times> read_states) \<times> invoke_error option) \<times> disk"

definition refuse :: "string \<Rightarrow> disk \<Rightarrow> file_answer" where
  "refuse msg d = (((error_result msg, Map.empty), None), d)"

definition changed :: "string \<Rightarrow> disk \<Rightarrow> file_answer" where
  "changed out d = (((\<lparr>r_Output = out, r_Error = '''', r_Meta = [(''data'', MetaOther)]\<rparr>, Map.empty), None), d)"

text \<open>Parent directories and the file itself.\<close>

definition create_file :: "string \<Rightarrow> string \<Rightarrow> string \<Rightarrow> nat \<Rightarrow> disk \<Rightarrow> string option \<times> disk" where
  "create_file tool p data perm d =
    (case os_MkdirAll d (path_Dir p) of
       (Some e, d1) \<Rightarrow> (Some (tool @ '': create parent directories: '' @ e), d1)
     | (None, d1) \<Rightarrow>
        (case os_WriteFile d1 p data perm of
           (Some e, d2) \<Rightarrow> (Some (tool @ '': write file: '' @ e), d2)
         | (None, d2) \<Rightarrow> (None, d2)))"

section \<open>Edit\<close>

definition GlobalConfigPath :: string where
  "GlobalConfigPath = ''~/.claude/settings.json''"

definition isClaudeSettingsPath :: "file_env \<Rightarrow> string \<Rightarrow> bool" where
  "isClaudeSettingsPath X filePath \<longleftrightarrow>
    (let n = to_lower (path_Clean filePath) in
     has_suffix n ''.claude/settings.json'' \<or> has_suffix n ''.claude/settings.local.json'' \<or>
     (case env_UserHomeDir (fx_paths X) of
        Inl e \<Rightarrow> False
      | Inr home \<Rightarrow> n = to_lower (path_Clean (path_Join home (trim_prefix GlobalConfigPath ''~/'')))))"

definition validateSettingsFileEdit :: "file_env \<Rightarrow> string \<Rightarrow> string \<Rightarrow> string \<Rightarrow> string option" where
  "validateSettingsFileEdit X filePath before after =
    (if \<not> isClaudeSettingsPath X filePath then None
     else if fx_settings X before \<noteq> None then None
     else case fx_settings X after of
       None \<Rightarrow> None
     | Some (report, schema) \<Rightarrow> Some (''Claude Code settings.json validation failed after edit:'' @ newline @ report
         @ newline @ newline @ ''Full schema:'' @ newline @ schema @ newline
         @ ''IMPORTANT: Do not update the env unless explicitly instructed to do so.''))"

definition maxEditFileSize :: nat where
  "maxEditFileSize = 1024 * 1024 * 1024"

definition binary_error :: string where
  "binary_error = ''This tool cannot edit binary files. The file appears to contain non-text content.''"

definition directory_error :: "string \<Rightarrow> string" where
  "directory_error p = ''Path is a directory, not a file: '' @ p"

definition readEditableFile :: "read_states \<Rightarrow> string \<Rightarrow> string \<Rightarrow> disk \<Rightarrow> string + string \<times> nat" where
  "readEditableFile states requestedPath filePath d =
    (case os_Stat d filePath of
       Inl (missing, e) \<Rightarrow> Inl (if missing then ''File does not exist: '' @ requestedPath else ''file edit tool: inspect target: '' @ e)
     | Inr Directory \<Rightarrow> Inl (directory_error requestedPath)
     | Inr (RegularFile f) \<Rightarrow>
        if length (fe_Data f) > maxEditFileSize then
          Inl (''File is too large to edit ('' @ formatFileSize (length (fe_Data f)) @ ''). Maximum editable file size is ''
            @ formatFileSize maxEditFileSize @ ''.'')
        else if has_suffix (to_lower filePath) ''.ipynb'' then
          Inl ''File is a Jupyter Notebook. Use the NotebookEdit to edit this file.''
        else case validateExistingFileReadState states filePath (fe_ModTime f) of
          Some e \<Rightarrow> Inl e
        | None \<Rightarrow>
           (case os_ReadFile d filePath of
              Inl e \<Rightarrow> Inl (''file edit tool: read file: '' @ e)
            | Inr bytes \<Rightarrow> if utf8_valid bytes then Inr (bytes, fe_Perm f) else Inl binary_error))"

record edit_input =
  ei_FilePath :: string
  ei_OldString :: string
  ei_NewString :: string
  ei_ReplaceAll :: bool

definition edit_schema :: input_schema where
  "edit_schema =
    [(''file_path'', FieldSchema KindString ''The file path to edit.'' True None),
     (''old_string'', FieldSchema KindString ''The exact string to replace.'' True None),
     (''new_string'', FieldSchema KindString ''The replacement string.'' True None),
     (''replace_all'', FieldSchema KindBoolean ''Whether to replace all occurrences of old_string.'' False None)]"

definition decode_edit :: "edit_input getter" where
  "decode_edit kvs =
    bind_res (get_string ''file_path'' kvs) (\<lambda>p. bind_res (get_string ''old_string'' kvs) (\<lambda>a.
    bind_res (get_string ''new_string'' kvs) (\<lambda>b. bind_res (get_bool ''replace_all'' kvs) (\<lambda>r.
      Inr \<lparr>ei_FilePath = p, ei_OldString = a, ei_NewString = b, ei_ReplaceAll = r\<rparr>))))"

definition edit_output :: "file_env \<Rightarrow> string \<Rightarrow> string \<Rightarrow> nat \<Rightarrow> string" where
  "edit_output X filePath workingDir n =
    ''Updated file: '' @ ToRelativePath (fx_paths X) filePath workingDir @ '' ('' @ nat_str n @ '' replacement)''"

definition handleEmptyOldString :: "file_env \<Rightarrow> string \<Rightarrow> edit_input \<Rightarrow> string \<Rightarrow> disk \<Rightarrow> file_answer" where
  "handleEmptyOldString X workingDir i filePath d =
    (let create = (\<lambda>perm. case create_file ''file edit tool'' filePath (ei_NewString i) perm d of
           (Some e, d1) \<Rightarrow> refuse e d1
         | (None, d1) \<Rightarrow> changed (edit_output X filePath workingDir 1) d1)
     in case os_Stat d filePath of
       Inl (missing, e) \<Rightarrow> if missing then create 420 else refuse (''file edit tool: inspect target: '' @ e) d
     | Inr Directory \<Rightarrow> refuse (directory_error (ei_FilePath i)) d
     | Inr (RegularFile f) \<Rightarrow>
        (case os_ReadFile d filePath of
           Inl e \<Rightarrow> refuse (''file edit tool: read file: '' @ e) d
         | Inr bytes \<Rightarrow>
            if \<not> utf8_valid bytes then refuse binary_error d
            else if trim_space bytes \<noteq> '''' then refuse ''Cannot create new file - file already exists.'' d
            else create (fe_Perm f)))"

definition not_found_error :: "string \<Rightarrow> string" where
  "not_found_error old = ''String to replace not found in file.'' @ newline @ ''String: '' @ old"

text \<open>The new content and the number of replacements.\<close>

definition edit_text :: "(nat \<Rightarrow> bool) \<Rightarrow> edit_input \<Rightarrow> string \<Rightarrow> string + string \<times> nat" where
  "edit_text letter i content =
    (case findActualString content (ei_OldString i) of
       None \<Rightarrow> Inl (not_found_error (ei_OldString i))
     | Some actual \<Rightarrow>
        let new = preserveQuoteStyle letter (ei_OldString i) actual (ei_NewString i);
            n = str_count actual content
        in if n = 0 then Inl (not_found_error (ei_OldString i))
           else if n > 1 \<and> \<not> ei_ReplaceAll i then
             Inl (''Found '' @ nat_str n @ '' matches of the string to replace, but replace_all is false. To replace all occurrences, set replace_all to true. To replace only one occurrence, please provide more context to uniquely identify the instance.''
               @ newline @ ''String: '' @ ei_OldString i)
           else if ei_ReplaceAll i then Inr (str_replace_all actual new content, n)
           else Inr (str_replace_first actual new content, 1))"

definition edit_existing :: "file_env \<Rightarrow> read_states \<Rightarrow> string \<Rightarrow> edit_input \<Rightarrow> string \<Rightarrow> disk \<Rightarrow> file_answer" where
  "edit_existing X states workingDir i filePath d =
    (case readEditableFile states (ei_FilePath i) filePath d of
       Inl e \<Rightarrow> refuse e d
     | Inr (content, perm) \<Rightarrow>
        (case edit_text (fx_letter X) i content of
           Inl e \<Rightarrow> refuse e d
         | Inr (updated, n) \<Rightarrow>
            (case validateSettingsFileEdit X filePath content updated of
               Some e \<Rightarrow> refuse e d
             | None \<Rightarrow>
                (case os_WriteFile d filePath updated perm of
                   (Some e, d1) \<Rightarrow> refuse (''file edit tool: write file: '' @ e) d1
                 | (None, d1) \<Rightarrow> changed (edit_output X filePath workingDir n) d1))))"

definition edit_Invoke :: "file_env \<Rightarrow> disk invoker" where
  "edit_Invoke X ctx states call d =
    (case DecodeInput edit_schema decode_edit (tc_Input call) of
       Inl e \<Rightarrow> refuse e d
     | Inr i \<Rightarrow>
        if trim_space (ei_FilePath i) = '''' then refuse ''file_path is required'' d
        else case ExpandPath (fx_paths X) (ei_FilePath i) (tc_WorkingDir call) of
          Inl e \<Rightarrow> refuse (''file edit tool: expand path: '' @ e) d
        | Inr filePath \<Rightarrow>
            if CheckTeamMemorySecrets filePath (ei_NewString i) \<noteq> '''' then
              refuse (CheckTeamMemorySecrets filePath (ei_NewString i)) d
            else if ei_OldString i = ei_NewString i then
              refuse ''No changes to make: old_string and new_string are exactly the same.'' d
            else case write_refused X ctx ''Edit'' filePath (tc_WorkingDir call) of
              Some pe \<Rightarrow> (((ok_result, Map.empty), Some (file_error pe)), d)
            | None \<Rightarrow>
                if ei_OldString i = '''' then handleEmptyOldString X (tc_WorkingDir call) i filePath d
                else edit_existing X states (tc_WorkingDir call) i filePath d)"

section \<open>Write\<close>

record write_input =
  wi_FilePath :: string
  wi_Content :: string

definition write_schema :: input_schema where
  "write_schema =
    [(''file_path'', FieldSchema KindString ''The file path to write.'' True None),
     (''content'', FieldSchema KindString ''The full file content to write.'' True None)]"

definition decode_write :: "write_input getter" where
  "decode_write kvs =
    bind_res (get_string ''file_path'' kvs) (\<lambda>p. bind_res (get_string ''content'' kvs) (\<lambda>c.
      Inr \<lparr>wi_FilePath = p, wi_Content = c\<rparr>))"

text \<open>Whether the file is created or updated, and its permissions.\<close>

definition write_target :: "read_states \<Rightarrow> write_input \<Rightarrow> string \<Rightarrow> disk \<Rightarrow> string + string \<times> nat" where
  "write_target states i filePath d =
    (case os_Stat d filePath of
       Inl (missing, e) \<Rightarrow> if missing then Inr (''Created'', 420) else Inl (''file write tool: inspect target: '' @ e)
     | Inr Directory \<Rightarrow> Inl (directory_error (wi_FilePath i))
     | Inr (RegularFile f) \<Rightarrow>
        (case validateExistingFileReadState states filePath (fe_ModTime f) of
           Some e \<Rightarrow> Inl e
         | None \<Rightarrow>
            (case os_ReadFile d filePath of
               Inl e \<Rightarrow> Inl (''file write tool: read existing file: '' @ e)
             | Inr bytes \<Rightarrow> Inr (''Updated'', fe_Perm f))))"

definition write_Invoke :: "file_env \<Rightarrow> disk invoker" where
  "write_Invoke X ctx states call d =
    (case DecodeInput write_schema decode_write (tc_Input call) of
       Inl e \<Rightarrow> refuse e d
     | Inr i \<Rightarrow>
        if trim_space (wi_FilePath i) = '''' then refuse ''file_path is required'' d
        else case ExpandPath (fx_paths X) (wi_FilePath i) (tc_WorkingDir call) of
          Inl e \<Rightarrow> refuse (''file write tool: expand path: '' @ e) d
        | Inr filePath \<Rightarrow>
            if CheckTeamMemorySecrets filePath (wi_Content i) \<noteq> '''' then
              refuse (CheckTeamMemorySecrets filePath (wi_Content i)) d
            else case write_refused X ctx ''Write'' filePath (tc_WorkingDir call) of
              Some pe \<Rightarrow> (((ok_result, Map.empty), Some (file_error pe)), d)
            | None \<Rightarrow>
               (case write_target states i filePath d of
                  Inl e \<Rightarrow> refuse e d
                | Inr (what, perm) \<Rightarrow>
                   (case create_file ''file write tool'' filePath (wi_Content i) perm d of
                      (Some e, d1) \<Rightarrow> refuse e d1
                    | (None, d1) \<Rightarrow>
                        changed (what @ '' file: '' @ ToRelativePath (fx_paths X) filePath (tc_WorkingDir call)) d1)))"

section \<open>Freshness of files that have been read\<close>

text \<open>The tracker: for each file the modification time of the last read and whether the watcher has seen a
  change since.\<close>

type_synonym tracker = "string \<rightharpoonup> int \<times> bool"

definition RecordRead :: "string \<Rightarrow> int \<Rightarrow> tracker \<Rightarrow> tracker" where
  "RecordRead filePath modTime ft = ft(filePath \<mapsto> (modTime, False))"

definition MarkChanged :: "string \<Rightarrow> tracker \<Rightarrow> tracker" where
  "MarkChanged filePath ft = ft(filePath \<mapsto> (case ft filePath of None \<Rightarrow> (0, True) | Some (m, _) \<Rightarrow> (m, True)))"

definition HasChanged :: "tracker \<Rightarrow> string \<Rightarrow> int \<Rightarrow> bool" where
  "HasChanged ft filePath currentModTime \<longleftrightarrow>
    (case ft filePath of None \<Rightarrow> False | Some (m, external) \<Rightarrow> external \<or> (m \<noteq> 0 \<and> m \<noteq> currentModTime))"

definition time_unit :: "int \<Rightarrow> string \<Rightarrow> string" where
  "time_unit n u = (if n = 1 then ''changed 1 '' @ u @ '' ago'' else ''changed '' @ itoa n @ '' '' @ u @ ''s ago'')"

definition formatTimeDelta :: "int \<Rightarrow> string" where
  "formatTimeDelta d =
    (if d < 60000000000 then ''changed just now''
     else if d < 3600000000000 then time_unit (d div 60000000000) ''minute''
     else if d < 86400000000000 then time_unit (d div 3600000000000) ''hour''
     else time_unit (d div 86400000000000) ''day'')"

definition BuildReminder :: "tracker \<Rightarrow> string \<Rightarrow> int \<Rightarrow> string" where
  "BuildReminder ft filePath currentModTime =
    (let remind = (\<lambda>reason. ''<system-reminder>File has '' @ reason
           @ '' since last read. The content below may differ from what you saw earlier.</system-reminder>'' @ newline)
     in case ft filePath of
       None \<Rightarrow> ''''
     | Some (m, external) \<Rightarrow>
        if external then remind ''changed externally''
        else if m \<noteq> 0 \<and> m \<noteq> currentModTime then remind (formatTimeDelta (currentModTime - m))
        else '''')"

section \<open>Read\<close>

text \<open>\<open>rx_media\<close> reads an image, a notebook or a PDF file, \<open>rx_screenshot\<close> finds the other spelling of the
  name of a screenshot that does not exist.\<close>

record read_env =
  rx_file :: file_env
  rx_maxSize :: int
  rx_maxTokens :: int
  rx_defaultTokens :: int
  rx_now :: int
  rx_memory_note :: "string \<Rightarrow> int \<Rightarrow> string"
  rx_screenshot :: "disk \<Rightarrow> string \<Rightarrow> string option"
  rx_media :: "string \<Rightarrow> string \<Rightarrow> string \<Rightarrow> disk \<Rightarrow> (tool_result \<times> read_states) \<times> invoke_error option"

record read_input =
  rd_FilePath :: string
  rd_Offset :: int
  rd_Limit :: int
  rd_Pages :: string

definition read_schema :: input_schema where
  "read_schema =
    [(''file_path'', FieldSchema KindString ''The file path to read.'' True None),
     (''offset'', FieldSchema KindInteger ''The 1-based line number to start reading from.'' False None),
     (''limit'', FieldSchema KindInteger ''The number of lines to read.'' False None),
     (''pages'', FieldSchema KindString ''Page range for PDF files (e.g., \"1-5\", \"3\"). Only applicable to PDF files.'' False None)]"

definition decode_read :: "read_input getter" where
  "decode_read kvs =
    bind_res (get_string ''file_path'' kvs) (\<lambda>p. bind_res (get_int ''offset'' kvs) (\<lambda>a.
    bind_res (get_int ''limit'' kvs) (\<lambda>l. bind_res (get_string ''pages'' kvs) (\<lambda>g.
      Inr \<lparr>rd_FilePath = p, rd_Offset = a, rd_Limit = l, rd_Pages = g\<rparr>))))"

definition path_Ext :: "string \<Rightarrow> string" where
  "path_Ext p = (let w = takeWhile (\<lambda>c. c \<noteq> CHR ''/'' \<and> c \<noteq> CHR ''.'') (rev p) in
     if has_prefix (drop (length w) (rev p)) ''.'' then CHR ''.'' # rev w else '''')"

definition round_half_even :: "nat \<Rightarrow> nat \<Rightarrow> nat" where
  "round_half_even n d = (let q = n div d; r = n mod d in if 2 * r > d \<or> (2 * r = d \<and> odd q) then q + 1 else q)"

definition formatByteSize :: "int \<Rightarrow> string" where
  "formatByteSize sz =
    (if sz < 1024 then itoa sz @ '' B''
     else let n = nat sz; d = (if n \<ge> 1048576 then 1048576 else 1024); u = (if n \<ge> 1048576 then '' MB'' else '' KB'')
       in if n mod d = 0 then nat_str (n div d) @ u
          else let t = round_half_even (10 * n) d in nat_str (t div 10) @ ''.'' @ nat_str (t mod 10) @ u)"

definition bytesPerTokenForExtension :: "string \<Rightarrow> nat" where
  "bytesPerTokenForExtension ext = (if ext \<in> {''json'', ''jsonl'', ''jsonc''} then 2 else 4)"

definition estimateTokensForContent :: "string \<Rightarrow> string \<Rightarrow> nat" where
  "estimateTokensForContent content ext =
    (if content = '''' then 0
     else (length content + bytesPerTokenForExtension ext - 1) div bytesPerTokenForExtension ext)"

definition advice :: string where
  "advice = ''Use offset and limit parameters to read specific portions of the file, or search for specific content instead of reading the whole file.''"

definition validateContentTokens :: "read_env \<Rightarrow> string \<Rightarrow> string \<Rightarrow> string option" where
  "validateContentTokens X content ext =
    (let maxTokens = (if rx_maxTokens X \<le> 0 then rx_defaultTokens X else rx_maxTokens X);
         n = int (estimateTokensForContent content ext)
     in if n \<le> maxTokens then None
        else Some (''File content ('' @ itoa n @ '' tokens) exceeds maximum allowed tokens ('' @ itoa maxTokens @ ''). '' @ advice))"

definition normalizeLine :: "string \<Rightarrow> bool \<Rightarrow> string" where
  "normalizeLine line stripBOM =
    (let t = (if has_suffix line [CHR 0x0D] then butlast line else line) in
     if stripBOM then trim_prefix t [CHR 0xEF, CHR 0xBB, CHR 0xBF] else t)"

text \<open>The lines from \<open>current\<close> on that lie in the window, or an error at one that is no text.\<close>

fun select_lines :: "int \<Rightarrow> int \<Rightarrow> int \<Rightarrow> string list \<Rightarrow> string + string list" where
  "select_lines start lim current [] = Inr []"
| "select_lines start lim current (l # ls) =
    (if current \<ge> start \<and> (lim = 0 \<or> current \<le> wrap64 (start + lim - 1)) then
       if utf8_valid (normalizeLine l (current = 1))
       then bind_res (select_lines start lim (current + 1) ls) (\<lambda>r. Inr (normalizeLine l (current = 1) # r))
       else Inl ''This tool cannot read binary files. The file appears to contain non-text content.''
     else select_lines start lim (current + 1) ls)"

text \<open>The selected lines and the number of all lines.\<close>

definition readTextRange :: "string \<Rightarrow> int \<Rightarrow> int \<Rightarrow> disk \<Rightarrow> string + string list \<times> int" where
  "readTextRange filePath offset lim d =
    bind_res (os_ReadFile d filePath) (\<lambda>bytes.
    bind_res (select_lines (max offset 1) lim 1 (splitLines bytes)) (\<lambda>ls. Inr (ls, int (length (splitLines bytes)))))"

definition pad_left :: "nat \<Rightarrow> string \<Rightarrow> string" where
  "pad_left n s = replicate (n - length s) (CHR '' '') @ s"

fun number_lines :: "int \<Rightarrow> string list \<Rightarrow> string list" where
  "number_lines n [] = []"
| "number_lines n (l # ls) = (pad_left 6 (itoa n) @ [CHR 0x09] @ l) # number_lines (n + 1) ls"

definition render_read :: "string \<Rightarrow> int \<Rightarrow> int \<Rightarrow> string \<Rightarrow> string" where
  "render_read content start allLines reminder =
    reminder @
    (if content = '''' then
       if allLines = 0 then ''<system-reminder>Warning: the file exists but the contents are empty.</system-reminder>''
       else ''<system-reminder>Warning: the file exists but is shorter than the provided offset ('' @ itoa start
         @ ''). The file has '' @ itoa allLines @ '' lines.</system-reminder>''
     else join_str newline (number_lines start (split_char (CHR 0x0A) content)))"

definition buildReadStateSnapshot :: "string \<Rightarrow> int \<Rightarrow> int \<Rightarrow> int \<Rightarrow> int \<Rightarrow> read_states" where
  "buildReadStateSnapshot path modTime offset lim now =
    (if path = '''' then Map.empty
     else [path \<mapsto> \<lparr>rd_ReadAt = now, rd_ObservedModTime = modTime, rd_ReadOffset = offset, rd_ReadLimit = lim,
                     rd_IsPartial = (offset > 1 \<or> lim > 0)\<rparr>])"

definition file_unchanged :: "read_states \<Rightarrow> string \<Rightarrow> int \<Rightarrow> int \<Rightarrow> int \<Rightarrow> bool" where
  "file_unchanged states filePath offset lim currentModTime \<longleftrightarrow>
    (case Lookup states filePath of
       None \<Rightarrow> False
     | Some s \<Rightarrow> \<not> rd_IsPartial s \<and> rd_ReadOffset s \<noteq> 0 \<and> rd_ReadOffset s = offset \<and> rd_ReadLimit s = lim
         \<and> rd_ObservedModTime s \<noteq> 0 \<and> rd_ObservedModTime s = currentModTime)"

definition unchanged_stub :: string where
  "unchanged_stub = ''File unchanged since last read. The content from the earlier Read tool_result in this conversation is still current - refer to that instead of re-reading.''"

definition media_extension :: "string \<Rightarrow> bool" where
  "media_extension ext \<longleftrightarrow> ext \<in> {''png'', ''jpg'', ''jpeg'', ''gif'', ''webp'', ''ipynb'', ''pdf''}"

type_synonym read_world = "disk \<times> tracker"

definition answer :: "string \<Rightarrow> (string \<times> meta_value) list \<Rightarrow> read_states \<Rightarrow> (tool_result \<times> read_states) \<times> invoke_error option" where
  "answer out meta s = ((\<lparr>r_Output = out, r_Error = '''', r_Meta = meta\<rparr>, s), None)"

definition failed_read :: "string \<Rightarrow> (tool_result \<times> read_states) \<times> invoke_error option" where
  "failed_read msg = ((error_result msg, Map.empty), None)"

definition read_text :: "read_env \<Rightarrow> string \<Rightarrow> int \<Rightarrow> int \<Rightarrow> file_entry \<Rightarrow> read_world \<Rightarrow>
    ((tool_result \<times> read_states) \<times> invoke_error option) \<times> read_world" where
  "read_text X filePath offset lim f w =
    (let maxSize = (if rx_maxSize X > 0 then rx_maxSize X else 262144) in
     if lim = 0 \<and> int (length (fe_Data f)) > maxSize then
       (failed_read (''File content ('' @ formatByteSize (int (length (fe_Data f))) @ '') exceeds maximum allowed size (''
          @ formatByteSize maxSize @ ''). '' @ advice), w)
     else case readTextRange filePath offset lim (fst w) of
       Inl e \<Rightarrow> (failed_read e, w)
     | Inr (ls, allLines) \<Rightarrow>
        let content = join_str newline ls in
        (case validateContentTokens X content (trim_prefix (path_Ext filePath) ''.'') of
           Some e \<Rightarrow> (failed_read e, w)
         | None \<Rightarrow>
            let ft = RecordRead filePath (fe_ModTime f) (snd w);
                reminder = rx_memory_note X filePath (fe_ModTime f) @ BuildReminder ft filePath (fe_ModTime f)
            in (answer (render_read content offset allLines reminder)
                  [(''data'', MetaOther), (''nested_memory_attachment_triggers'', MetaOther), (''dynamic_skill_dir_triggers'', MetaOther)]
                  (buildReadStateSnapshot filePath (fe_ModTime f) offset lim (rx_now X)), (fst w, ft))))"

definition read_refused :: "read_env \<Rightarrow> perm_ctx option \<Rightarrow> string \<Rightarrow> string \<Rightarrow> permission_error option" where
  "read_refused X ctx filePath workingDir =
    ToError (CheckReadPermissionForTool (fx_paths (rx_file X)) (fx_policy (rx_file X)) ctx ''Read'' filePath workingDir)
      \<lparr>fr_ToolName = ''Read'', fr_Path = filePath, fr_WorkingDir = workingDir, fr_Access = AccessRead\<rparr>"

text \<open>The path read and what is there, the other spelling of a screenshot included.\<close>

definition read_target :: "read_env \<Rightarrow> disk \<Rightarrow> string \<Rightarrow> (string \<times> node) option" where
  "read_target X d filePath =
    (case os_Stat d filePath of
       Inr n \<Rightarrow> Some (filePath, n)
     | Inl e \<Rightarrow>
        (case rx_screenshot X d filePath of
           None \<Rightarrow> None
         | Some alt \<Rightarrow> (case os_Stat d alt of Inr n \<Rightarrow> Some (alt, n) | Inl e \<Rightarrow> None)))"

definition read_Invoke :: "read_env \<Rightarrow> read_world invoker" where
  "read_Invoke X ctx states call w =
    (case DecodeInput read_schema decode_read (tc_Input call) of
       Inl e \<Rightarrow> (failed_read e, w)
     | Inr i \<Rightarrow>
        let offset = (if rd_Offset i = 0 then 1 else rd_Offset i) in
        if offset < 0 then (failed_read ''Offset must be greater than or equal to 0'', w)
        else if rd_Limit i < 0 then (failed_read ''Limit must be greater than or equal to 0'', w)
        else case ExpandPath (fx_paths (rx_file X)) (rd_FilePath i) (tc_WorkingDir call) of
          Inl e \<Rightarrow> (failed_read (''file read tool: expand path: '' @ e), w)
        | Inr path \<Rightarrow>
            (case read_target X (fst w) path of
               None \<Rightarrow> (failed_read (''File does not exist: '' @ rd_FilePath i), w)
             | Some (filePath, Directory) \<Rightarrow> (failed_read (directory_error (rd_FilePath i)), w)
             | Some (filePath, RegularFile f) \<Rightarrow>
                (case read_refused X ctx filePath (tc_WorkingDir call) of
                   Some pe \<Rightarrow> (((ok_result, Map.empty), Some (file_error pe)), w)
                 | None \<Rightarrow>
                    if file_unchanged states filePath offset (rd_Limit i) (fe_ModTime f) then
                      (answer unchanged_stub [(''data'', MetaOther)] Map.empty, w)
                    else if media_extension (trim_prefix (path_Ext filePath) ''.'') then
                      (rx_media X (trim_prefix (path_Ext filePath) ''.'') filePath (rd_Pages i) (fst w), w)
                    else read_text X filePath offset (rd_Limit i) f w)))"

text \<open>The tools of this theory by name.\<close>

definition on_disk :: "disk invoker \<Rightarrow> read_world invoker" where
  "on_disk tool ctx states call w = (case tool ctx states call (fst w) of (a, d) \<Rightarrow> (a, (d, snd w)))"

definition file_registry :: "read_env \<Rightarrow> string \<Rightarrow> read_world tool_impl option" where
  "file_registry X name =
    (if name = ''Read'' then Some \<lparr>ti_Invoke = read_Invoke X, ti_ConcurrencySafe = True\<rparr>
     else if name = ''Edit'' then Some \<lparr>ti_Invoke = on_disk (edit_Invoke (rx_file X)), ti_ConcurrencySafe = False\<rparr>
     else if name = ''Write'' then Some \<lparr>ti_Invoke = on_disk (write_Invoke (rx_file X)), ti_ConcurrencySafe = False\<rparr>
     else None)"

end
