(* ===== verification/File_Changes.thy ===== *)
theory File_Changes
  imports File_Tools
begin

text \<open>
  What the file tools keep: which calls can change a file, what an edit writes, what the executor
  remembers of reads, and what the reminder of a changed file depends on.
\<close>

section \<open>What the tools leave alone\<close>

lemma fold_mkdir: "m q = Some n \<Longrightarrow> fold (\<lambda>q m. if m q = None then m(q \<mapsto> Directory) else m) qs m q = Some n"
proof (induction qs arbitrary: m)
  case (Cons a qs)
  have "(if m a = None then m(a \<mapsto> Directory) else m) q = Some n" using Cons.prems by auto
  then show ?case using Cons.IH by simp
qed simp

lemma MkdirAll_keeps: "dk_nodes d q = Some n \<Longrightarrow> dk_nodes (snd (os_MkdirAll d p)) q = Some n"
  by (auto simp: os_MkdirAll_def fold_mkdir split: option.splits)

lemma WriteFile_keeps: "q \<noteq> p \<Longrightarrow> dk_nodes (snd (os_WriteFile d p data perm)) q = dk_nodes d q"
  by (auto simp: os_WriteFile_def set_data_def split: option.splits)

lemma create_file_keeps:
  "q \<noteq> p \<Longrightarrow> dk_nodes d q = Some n \<Longrightarrow> dk_nodes (snd (create_file tool p data perm d)) q = Some n"
  by (auto simp: create_file_def WriteFile_keeps split: option.splits prod.splits)
     (metis MkdirAll_keeps WriteFile_keeps snd_conv)+

lemma refuse_disk [simp]: "snd (refuse msg d) = d" "snd (changed out d) = d"
  by (simp_all add: refuse_def changed_def)

text \<open>The guard on an existing file, as a property of the read state.\<close>

definition fully_read :: "read_states \<Rightarrow> string \<Rightarrow> int \<Rightarrow> bool" where
  "fully_read states p m \<longleftrightarrow> (\<exists>st. Lookup states p = Some st \<and> \<not> rd_IsPartial st \<and>
     (rd_ObservedModTime st = 0 \<or> m \<le> rd_ObservedModTime st))"

lemma guard_iff: "validateExistingFileReadState states p m = None \<longleftrightarrow> fully_read states p m"
  by (auto simp: validateExistingFileReadState_def fully_read_def split: option.splits)

lemma readEditable_guard:
  assumes "readEditableFile states raw p d = Inr (content, perm)"
  obtains f where "dk_nodes d p = Some (RegularFile f)" "fully_read states p (fe_ModTime f)" "content = fe_Data f" "perm = fe_Perm f"
    "utf8_valid content" "dk_stat_error d p = None" "dk_read_error d p = None" "length content \<le> maxEditFileSize"
    "\<not> has_suffix (to_lower p) ''.ipynb''"
  using assms guard_iff
  by (auto simp: readEditableFile_def os_Stat_def os_ReadFile_def not_less split: option.splits node.splits sum.splits if_splits prod.splits)

text \<open>How an edit of an existing file and a write come to touch the disk.\<close>

lemma edit_existing_touches:
  assumes "dk_nodes d q = Some (RegularFile f)" "dk_nodes (snd (edit_existing X states wd i p d)) q \<noteq> Some (RegularFile f)"
  shows "q = p \<and> fully_read states p (fe_ModTime f)"
proof -
  obtain content perm where r: "readEditableFile states (ei_FilePath i) p d = Inr (content, perm)"
    using assms by (auto simp: edit_existing_def split: sum.splits)
  have "q = p"
  proof (rule ccontr)
    assume "q \<noteq> p"
    then have k: "dk_nodes (snd (os_WriteFile d p data perm)) q = Some (RegularFile f)" for data
      using assms(1) by (simp add: WriteFile_keeps)
    show False using assms r k
      by (auto simp: edit_existing_def split: sum.splits prod.splits option.splits) (metis k snd_conv)+
  qed
  with assms(1) r show ?thesis by (auto elim!: readEditable_guard)
qed

lemma empty_old_touches:
  assumes "dk_nodes d q = Some (RegularFile f)" "dk_nodes (snd (handleEmptyOldString X wd i p d)) q \<noteq> Some (RegularFile f)"
  shows "q = p \<and> trim_space (fe_Data f) = ''''"
proof -
  have k: "dk_nodes (snd (create_file t p s perm d)) q = Some (RegularFile f)" if "q \<noteq> p" for t s perm
    by (rule create_file_keeps [OF that assms(1)])
  have "q = p"
  proof (rule ccontr)
    assume "q \<noteq> p"
    then show False using assms k
      by (auto simp: handleEmptyOldString_def Let_def split: sum.splits prod.splits option.splits node.splits if_splits)
         (metis k snd_conv)+
  qed
  with assms show ?thesis
    by (auto simp: handleEmptyOldString_def Let_def os_Stat_def os_ReadFile_def
        split: sum.splits prod.splits option.splits node.splits if_splits)
qed

lemma write_target_guard:
  "write_target states i p d = Inr x \<Longrightarrow> dk_nodes d p = Some (RegularFile f) \<Longrightarrow> fully_read states p (fe_ModTime f)"
  by (auto simp: write_target_def os_Stat_def guard_iff [symmetric] split: option.splits sum.splits if_splits prod.splits)

text \<open>
  C6: A file the model has not read cannot be changed. Whenever a call of \<open>Edit\<close> or \<open>Write\<close> changes a
  regular file, the policy admits the write of exactly that path, and the file has been read completely
  and is not newer than what was read; the one exception is \<open>Edit\<close> with an empty search string on a
  file of white space.
\<close>

theorem changed_file_was_read:
  assumes "name = ''Edit'' \<and> tool = edit_Invoke X \<or> name = ''Write'' \<and> tool = write_Invoke X"
    and "dk_nodes d q = Some (RegularFile f)"
    and "dk_nodes (snd (tool ctx states call d)) q \<noteq> Some (RegularFile f)"
  shows "write_refused X ctx name q (tc_WorkingDir call) = None \<and>
    (fully_read states q (fe_ModTime f) \<or> name = ''Edit'' \<and> trim_space (fe_Data f) = '''')"
  using assms(1)
proof
  assume n: "name = ''Edit'' \<and> tool = edit_Invoke X"
  then obtain i p where w: "write_refused X ctx ''Edit'' p (tc_WorkingDir call) = None"
    and t: "dk_nodes (snd (handleEmptyOldString X (tc_WorkingDir call) i p d)) q \<noteq> Some (RegularFile f) \<or>
         dk_nodes (snd (edit_existing X states (tc_WorkingDir call) i p d)) q \<noteq> Some (RegularFile f)"
    using assms(2,3) by (auto simp: edit_Invoke_def split: sum.splits option.splits if_splits)
  from t have "q = p \<and> (fully_read states p (fe_ModTime f) \<or> trim_space (fe_Data f) = '''')"
    using empty_old_touches [OF assms(2)] edit_existing_touches [OF assms(2)] by (elim disjE) blast+
  then show ?thesis using n w by auto
next
  assume n: "name = ''Write'' \<and> tool = write_Invoke X"
  then obtain i p t perm where w: "write_refused X ctx ''Write'' p (tc_WorkingDir call) = None"
    and t: "write_target states i p d = Inr (t, perm)"
    and c: "dk_nodes (snd (create_file ''file write tool'' p (wi_Content i) perm d)) q \<noteq> Some (RegularFile f)"
    using assms(2,3) by (auto simp: write_Invoke_def split: sum.splits option.splits if_splits prod.splits)
  then have "q = p" using create_file_keeps [OF _ assms(2)] by blast
  then show ?thesis using n w write_target_guard [OF t] assms(2) by simp
qed

section \<open>What an edit writes\<close>

lemma str_count_pos:
  "str_count old s \<noteq> 0 \<Longrightarrow> \<exists>a b. s = a @ old @ b \<and> str_replace_first old new s = a @ new @ b"
proof (induction old s rule: str_count.induct)
  case (2 old c s)
  show ?case
  proof (cases "old \<noteq> [] \<and> has_prefix (c # s) old")
    case True
    then obtain b where b: "c # s = old @ b" by (auto simp: has_prefix_iff)
    have "str_replace_first old new (c # s) = new @ drop (length old) (c # s)" using True by simp
    then show ?thesis using b by (intro exI [of _ "[]"] exI [of _ b]) (simp add: b)
  next
    case False
    then obtain a b where "s = a @ old @ b" "str_replace_first old new s = a @ new @ b" using 2 by (auto split: if_splits)
    then show ?thesis using False by (intro exI [of _ "c # a"] exI [of _ b]) auto
  qed
qed simp

lemma read_error_text: "readEditableFile states raw p d = Inl e \<Longrightarrow> e \<noteq> ''''"
  by (auto simp: readEditableFile_def directory_error_def binary_error_def validateExistingFileReadState_def unread_error_def
      modified_error_def split: sum.splits prod.splits option.splits node.splits if_splits)

lemma edit_error_text: "edit_text l i c = Inl e \<Longrightarrow> e \<noteq> ''''"
  by (auto simp: edit_text_def Let_def not_found_error_def split: option.splits if_splits)

lemma settings_error_text: "validateSettingsFileEdit X p a b = Some e \<Longrightarrow> e \<noteq> ''''"
  by (auto simp: validateSettingsFileEdit_def split: option.splits if_splits)

lemma refuse_answer: "(refuse e d = (((r, s), None), d1)) \<longleftrightarrow> r = error_result e \<and> s = Map.empty \<and> d1 = d"
  by (auto simp: refuse_def)

lemma error_result_error [simp]: "r_Error (error_result e) = e"
  by (simp add: error_result_def)

text \<open>The steps of a successful edit.\<close>

lemma edit_existing_ok:
  assumes "edit_existing X states wd i p d = (((r, s), None), d1)" "r_Error r = ''''"
  obtains content perm updated n where "readEditableFile states (ei_FilePath i) p d = Inr (content, perm)"
    "edit_text (fx_letter X) i content = Inr (updated, n)" "validateSettingsFileEdit X p content updated = None"
    "os_WriteFile d p updated perm = (None, d1)" "r = \<lparr>r_Output = edit_output X p wd n, r_Error = '''', r_Meta = [(''data'', MetaOther)]\<rparr>"
    "s = Map.empty"
  using assms
  by (auto simp: edit_existing_def changed_def refuse_answer read_error_text edit_error_text settings_error_text
      split: sum.splits prod.splits option.splits)

text \<open>
  C17: What a successful edit does. The file was valid text and completely read; the search string, up to
  the form of quotes, occurs in it, and exactly once unless all occurrences are to be replaced; then the
  file holds the old content with that occurrence, or all of them, replaced, its permissions are kept,
  its time is now, and nothing else on the disk has changed.
\<close>

theorem successful_edit_exact:
  assumes "edit_Invoke X ctx states call d = (((r, s), None), d1)" "r_Error r = ''''"
    and "DecodeInput edit_schema decode_edit (tc_Input call) = Inr i" "ei_OldString i \<noteq> ''''"
    and "ExpandPath (fx_paths X) (ei_FilePath i) (tc_WorkingDir call) = Inr p"
  shows "\<exists>f actual new data. dk_nodes d p = Some (RegularFile f) \<and> fully_read states p (fe_ModTime f) \<and> utf8_valid (fe_Data f) \<and>
    findActualString (fe_Data f) (ei_OldString i) = Some actual \<and>
    new = preserveQuoteStyle (fx_letter X) (ei_OldString i) actual (ei_NewString i) \<and>
    (if ei_ReplaceAll i then data = str_replace_all actual new (fe_Data f)
     else str_count actual (fe_Data f) = 1 \<and> (\<exists>a b. fe_Data f = a @ actual @ b \<and> data = a @ new @ b)) \<and>
    d1 = set_data p data (fe_Perm f) d"
proof -
  have e: "edit_existing X states (tc_WorkingDir call) i p d = (((r, s), None), d1)"
    using assms(1,3,4,5) assms(2) by (auto simp: edit_Invoke_def refuse_def error_result_def split: if_splits option.splits)
  obtain content perm updated n where c: "readEditableFile states (ei_FilePath i) p d = Inr (content, perm)"
    and u: "edit_text (fx_letter X) i content = Inr (updated, n)" and w: "os_WriteFile d p updated perm = (None, d1)"
    using e assms(2) by (rule edit_existing_ok)
  obtain f where f: "dk_nodes d p = Some (RegularFile f)" "fully_read states p (fe_ModTime f)" "content = fe_Data f"
    "perm = fe_Perm f" "utf8_valid content" using c by (rule readEditable_guard)
  obtain actual where a: "findActualString content (ei_OldString i) = Some actual"
    using u by (auto simp: edit_text_def split: option.splits)
  define new where "new = preserveQuoteStyle (fx_letter X) (ei_OldString i) actual (ei_NewString i)"
  have t: "if ei_ReplaceAll i then updated = str_replace_all actual new content
    else str_count actual content = 1 \<and> updated = str_replace_first actual new content"
    using u a by (auto simp: edit_text_def Let_def new_def split: if_splits)
  have d1: "d1 = set_data p updated perm d" using w f(1) by (auto simp: os_WriteFile_def split: option.splits)
  have "if ei_ReplaceAll i then updated = str_replace_all actual new content
    else str_count actual content = 1 \<and> (\<exists>a b. content = a @ actual @ b \<and> updated = a @ new @ b)"
    using t str_count_pos [of actual content new] by (auto split: if_splits)
  then show ?thesis using f a d1 new_def by blast
qed

section \<open>What the executor remembers\<close>

lemma file_registry_simps [simp]:
  "file_registry R ''Read'' = Some \<lparr>ti_Invoke = read_Invoke R, ti_ConcurrencySafe = True\<rparr>"
  "file_registry R ''Edit'' = Some \<lparr>ti_Invoke = on_disk (edit_Invoke (rx_file R)), ti_ConcurrencySafe = False\<rparr>"
  "file_registry R ''Write'' = Some \<lparr>ti_Invoke = on_disk (write_Invoke (rx_file R)), ti_ConcurrencySafe = False\<rparr>"
  by (simp_all add: file_registry_def)

lemma apply_empty [simp]: "applyReadStateUpdate Map.empty states = states"
  by (simp add: applyReadStateUpdate_def)

text \<open>An edit with a search string, once its input has been read.\<close>

definition edit_of :: "file_env \<Rightarrow> tool_call \<Rightarrow> edit_input \<Rightarrow> string \<Rightarrow> bool" where
  "edit_of X call i p \<longleftrightarrow> tc_Name call = ''Edit'' \<and> DecodeInput edit_schema decode_edit (tc_Input call) = Inr i \<and>
     ei_OldString i \<noteq> '''' \<and> ExpandPath (fx_paths X) (ei_FilePath i) (tc_WorkingDir call) = Inr p"

lemma edit_of_unfold:
  assumes "edit_of X call i p"
  shows "edit_Invoke X ctx states call d =
    (if trim_space (ei_FilePath i) = '''' then refuse ''file_path is required'' d
     else if CheckTeamMemorySecrets p (ei_NewString i) \<noteq> '''' then refuse (CheckTeamMemorySecrets p (ei_NewString i)) d
     else if ei_OldString i = ei_NewString i then
       refuse ''No changes to make: old_string and new_string are exactly the same.'' d
     else case write_refused X ctx ''Edit'' p (tc_WorkingDir call) of
       Some pe \<Rightarrow> (((ok_result, Map.empty), Some (file_error pe)), d)
     | None \<Rightarrow> edit_existing X states (tc_WorkingDir call) i p d)"
  using assms by (simp add: edit_of_def edit_Invoke_def)

lemma edit_step:
  assumes "edit_of (rx_file R) call i p" and "Execute (Some (file_registry R)) inline ctx call (states, (d, ft)) = ((r, None), sw)"
    and "r_Error r = ''''"
  obtains d1 where "edit_existing (rx_file R) (MergeReadState states inline) (tc_WorkingDir call) i p d = (((r, Map.empty), None), d1)"
    "sw = (states, (d1, ft))"
proof -
  obtain s d1 where e: "edit_Invoke (rx_file R) ctx (MergeReadState states inline) call d = (((r, s), None), d1)"
    and w: "sw = (applyReadStateUpdate s states, (d1, ft))"
    using assms(1,2) by (auto simp: Execute_def edit_of_def on_disk_def split: prod.splits option.splits)
  have x: "edit_existing (rx_file R) (MergeReadState states inline) (tc_WorkingDir call) i p d = (((r, s), None), d1)"
    using e assms(3) unfolding edit_of_unfold [OF assms(1)]
    by (auto simp: refuse_answer split: if_splits option.splits)
  then have "s = Map.empty" using assms(3) by (rule edit_existing_ok)
  with x w that show ?thesis by simp
qed

lemma unread_is_refused:
  assumes "\<And>f. dk_nodes d p = Some (RegularFile f) \<Longrightarrow> \<not> fully_read states p (fe_ModTime f)"
  obtains e where "edit_existing X states wd i p d = refuse e d" "e \<noteq> ''''"
proof (cases "readEditableFile states (ei_FilePath i) p d")
  case (Inl e)
  then show ?thesis using that read_error_text by (simp add: edit_existing_def)
next
  case (Inr x)
  then obtain content perm where "readEditableFile states (ei_FilePath i) p d = Inr (content, perm)" by (cases x) auto
  then show ?thesis using assms by (metis readEditable_guard)
qed

lemma refused_edit_changes_nothing:
  assumes "edit_of (rx_file R) call i p" "edit_existing (rx_file R) (MergeReadState states inline) (tc_WorkingDir call) i p d = refuse e d"
    and "e \<noteq> ''''"
  obtains r err where "Execute (Some (file_registry R)) inline ctx call (states, (d, ft)) = ((r, err), (states, (d, ft)))"
    "err \<noteq> None \<or> r_Error r \<noteq> ''''"
proof -
  have "\<exists>r err. edit_Invoke (rx_file R) ctx (MergeReadState states inline) call d = (((r, Map.empty), err), d) \<and>
      (err \<noteq> None \<or> r_Error r \<noteq> '''')"
    unfolding edit_of_unfold [OF assms(1)] assms(2)
    using assms(3) by (simp add: refuse_def split: option.split)
  then obtain r err where r: "edit_Invoke (rx_file R) ctx (MergeReadState states inline) call d = (((r, Map.empty), err), d)"
    "err \<noteq> None \<or> r_Error r \<noteq> ''''" by blast
  have "Execute (Some (file_registry R)) inline ctx call (states, (d, ft)) = ((r, err), (states, (d, ft)))"
    using r(1) assms(1) by (auto simp: Execute_def edit_of_def on_disk_def split: option.splits)
  with r(2) that show ?thesis by blast
qed

text \<open>
  C38: Two edits in a row. A successful \<open>Edit\<close> with a non-empty \<open>old_string\<close>, at a time later than the
  remembered read's, gives the file a new modification time and leaves that read alone; so when the
  very next call is again an \<open>Edit\<close> of the same file with a non-empty \<open>old_string\<close>, it is refused and
  changes neither the disk nor the remembered reads. (An \<open>Edit\<close> with an empty \<open>old_string\<close>, which
  fills a file the first one left blank, needs no read and is not covered.)
\<close>

theorem second_edit_fails:
  assumes "edit_of (rx_file R) call i p" and "Execute (Some (file_registry R)) inline ctx call (states, (d, ft)) = ((r, None), sw)"
    and "r_Error r = ''''"
    and "Lookup (MergeReadState states inline) p = Some st" "rd_ObservedModTime st \<noteq> 0" "rd_ObservedModTime st < dk_now d"
    and "edit_of (rx_file R) call' j p"
  shows "\<exists>r' err. Execute (Some (file_registry R)) inline ctx' call' sw = ((r', err), sw) \<and> (err \<noteq> None \<or> r_Error r' \<noteq> '''')"
proof -
  obtain d1 where x: "edit_existing (rx_file R) (MergeReadState states inline) (tc_WorkingDir call) i p d = (((r, Map.empty), None), d1)"
    and sw: "sw = (states, (d1, ft))" using assms(1-3) by (rule edit_step)
  obtain data perm where "os_WriteFile d p data perm = (None, d1)" using x assms(3) by (rule edit_existing_ok)
  then have "\<exists>f. dk_nodes d1 p = Some (RegularFile f) \<and> fe_ModTime f = dk_now d"
    by (auto simp: os_WriteFile_def set_data_def split: option.splits if_splits)
  then have "\<not> fully_read (MergeReadState states inline) p (fe_ModTime f)" if "dk_nodes d1 p = Some (RegularFile f)" for f
    using that assms(4-6) by (auto simp: fully_read_def)
  then obtain e where "edit_existing (rx_file R) (MergeReadState states inline) (tc_WorkingDir call') j p d1 = refuse e d1" "e \<noteq> ''''"
    by (rule unread_is_refused)
  with assms(7) obtain r' err where "Execute (Some (file_registry R)) inline ctx' call' (states, (d1, ft)) = ((r', err), (states, (d1, ft)))"
    "err \<noteq> None \<or> r_Error r' \<noteq> ''''" by (rule refused_edit_changes_nothing)
  then show ?thesis unfolding sw by blast
qed

section \<open>What a read opens\<close>

lemma read_text_state:
  assumes "read_text X p offset lim f w = (((r, s), err), w')" "r_Error r = ''''" "dk_read_error (fst w) p = None"
    "dk_nodes (fst w) p = Some (RegularFile f)"
  shows "s = buildReadStateSnapshot p (fe_ModTime f) offset lim (rx_now X) \<and> fst w' = fst w"
proof -
  have "e \<noteq> ''''" if "readTextRange p offset lim (fst w) = Inl e" for e
  proof -
    have "select_lines a b c ls = Inl e \<Longrightarrow> e \<noteq> ''''" for a b c ls
      by (induction ls arbitrary: c) (auto simp: bind_res_Inl_iff split: if_splits)
    with that assms(3,4) show ?thesis by (auto simp: readTextRange_def os_ReadFile_def bind_res_Inl_iff)
  qed
  then show ?thesis using assms(1,2)
    by (auto simp: read_text_def Let_def answer_def failed_read_def validateContentTokens_def split: if_splits sum.splits prod.splits)
qed

lemma file_unchanged_read:
  "file_unchanged states p offset 0 m \<Longrightarrow> fully_read states p m"
  by (auto simp: file_unchanged_def fully_read_def split: option.splits)

lemma snapshot_read:
  "p \<noteq> '''' \<Longrightarrow> fully_read (applyReadStateUpdate (buildReadStateSnapshot p m 1 0 now) states) p m"
  by (auto simp: fully_read_def applyReadStateUpdate_def buildReadStateSnapshot_def MergeReadState_def Lookup_def)

lemma MergeReadState_empty [simp]: "MergeReadState s Map.empty = s"
  by (simp add: MergeReadState_def)

text \<open>A read of the whole of a text file.\<close>

definition whole_read :: "read_env \<Rightarrow> tool_call \<Rightarrow> string \<Rightarrow> bool" where
  "whole_read R call p \<longleftrightarrow> tc_Name call = ''Read'' \<and> p \<noteq> '''' \<and> \<not> media_extension (trim_prefix (path_Ext p) ''.'') \<and>
    (case DecodeInput read_schema decode_read (tc_Input call) of
       Inl e \<Rightarrow> False
     | Inr i \<Rightarrow> rd_Offset i \<in> {0, 1} \<and> rd_Limit i = 0 \<and>
         ExpandPath (fx_paths (rx_file R)) (rd_FilePath i) (tc_WorkingDir call) = Inr p)"

lemma whole_read_state:
  assumes "whole_read R call p" and "dk_nodes d p = Some (RegularFile f)" "dk_stat_error d p = None" "dk_read_error d p = None"
    and x: "Execute (Some (file_registry R)) Map.empty ctx call (states, (d, ft)) = ((r, None), (states', (d', ft')))"
    and "r_Error r = ''''"
  shows "d' = d \<and> fully_read states' p (fe_ModTime f)"
proof -
  obtain i where i: "DecodeInput read_schema decode_read (tc_Input call) = Inr i" "rd_Offset i \<in> {0, 1}" "rd_Limit i = 0"
    "ExpandPath (fx_paths (rx_file R)) (rd_FilePath i) (tc_WorkingDir call) = Inr p" "tc_Name call = ''Read''"
    using assms(1) by (auto simp: whole_read_def split: sum.splits)
  have tgt: "read_target R d p = Some (p, RegularFile f)" using assms(2,3) by (simp add: read_target_def os_Stat_def)
  have off: "(if rd_Offset i = 0 then 1 else rd_Offset i) = 1" using i(2) by auto
  obtain s w' where v: "read_Invoke R ctx states call (d, ft) = (((r, s), None), w')"
    and w: "states' = applyReadStateUpdate s states" "w' = (d', ft')"
    using x i(5) by (auto simp: Execute_def split: prod.splits option.splits)
  have ref: "read_refused R ctx p (tc_WorkingDir call) = None"
    using v i(1,3,4) tgt off by (auto simp: read_Invoke_def Let_def split: option.splits)
  show ?thesis
  proof (cases "file_unchanged states p 1 0 (fe_ModTime f)")
    case True
    with v i tgt off ref have "s = Map.empty" "w' = (d, ft)" by (auto simp: read_Invoke_def Let_def answer_def)
    with w True file_unchanged_read show ?thesis by auto
  next
    case False
    with v i(1,3,4) tgt off ref assms(1) have "read_text R p 1 0 f (d, ft) = (((r, s), None), w')"
      by (simp add: read_Invoke_def Let_def whole_read_def)
    from read_text_state [OF this] assms show ?thesis by (simp add: w snapshot_read whole_read_def)
  qed
qed

text \<open>
  C18: A file that has just been read as a whole can be edited. When a \<open>Read\<close> of the whole of a text file
  succeeds, the following \<open>Edit\<close> of that file succeeds and writes the new content, provided the policy
  admits the write, the search string fits the content, and the disk does not fail.
\<close>

theorem whole_read_opens_edit:
  assumes "whole_read R call p" and "dk_nodes d p = Some (RegularFile f)"
    and "dk_stat_error d p = None" "dk_read_error d p = None" "dk_write_error d p = None"
    and "Execute (Some (file_registry R)) Map.empty ctx call (states, (d, ft)) = ((r, None), (states', (d', ft')))" "r_Error r = ''''"
    and "edit_of (rx_file R) edit j p" "trim_space (ei_FilePath j) \<noteq> ''''" "ei_OldString j \<noteq> ei_NewString j"
    and "CheckTeamMemorySecrets p (ei_NewString j) = ''''" "write_refused (rx_file R) ctx' ''Edit'' p (tc_WorkingDir edit) = None"
    and "utf8_valid (fe_Data f)" "length (fe_Data f) \<le> maxEditFileSize" "\<not> has_suffix (to_lower p) ''.ipynb''"
    and "edit_text (fx_letter (rx_file R)) j (fe_Data f) = Inr (data, n)"
    and "validateSettingsFileEdit (rx_file R) p (fe_Data f) data = None"
  shows "\<exists>r'. Execute (Some (file_registry R)) Map.empty ctx' edit (states', (d', ft'))
      = ((r', None), (states', (set_data p data (fe_Perm f) d, ft'))) \<and> r_Error r' = ''''"
proof -
  have d: "d' = d" "fully_read states' p (fe_ModTime f)" using whole_read_state [OF assms(1-4) assms(6,7)] by simp_all
  have "readEditableFile states' (ei_FilePath j) p d = Inr (fe_Data f, fe_Perm f)"
    using assms(2-4,13-15) guard_iff [THEN iffD2, OF d(2)] by (simp add: readEditableFile_def os_Stat_def os_ReadFile_def)
  then have "edit_existing (rx_file R) states' (tc_WorkingDir edit) j p d
      = changed (edit_output (rx_file R) p (tc_WorkingDir edit) n) (set_data p data (fe_Perm f) d)"
    using assms(2,5,16,17) by (simp add: edit_existing_def os_WriteFile_def)
  then have "edit_Invoke (rx_file R) ctx' states' edit d
      = changed (edit_output (rx_file R) p (tc_WorkingDir edit) n) (set_data p data (fe_Perm f) d)"
    using assms(9-12) by (simp add: edit_of_unfold [OF assms(8)])
  then show ?thesis using assms(8) d(1) by (simp add: Execute_def edit_of_def on_disk_def changed_def)
qed

section \<open>The reminder of a changed file\<close>

text \<open>
  The reminder of a changed file is never shown. The read records the new modification time and
  clears the mark of the watcher before it asks for the reminder, so there is none, and what a \<open>Read\<close>
  answers does not depend on what the tracker has seen.
\<close>

theorem reminder_never_shown:
  "BuildReminder (RecordRead p m ft) p m = '''' \<and>
   fst (read_Invoke X ctx states call (d, ft)) = fst (read_Invoke X ctx states call (d, ft'))"
proof
  show "BuildReminder (RecordRead p m ft) p m = ''''" for p m ft by (simp add: BuildReminder_def RecordRead_def)
  then have "fst (read_text X p offset lim f (d, ft)) = fst (read_text X p offset lim f (d, ft'))" for p offset lim f
    by (simp add: read_text_def Let_def split: sum.split option.split)
  then show "fst (read_Invoke X ctx states call (d, ft)) = fst (read_Invoke X ctx states call (d, ft'))"
    by (simp add: read_Invoke_def Let_def split: sum.split option.split node.split)
qed

section \<open>A concrete file\<close>

definition demo_file_env :: file_env where
  "demo_file_env = \<lparr>fx_paths = demo_env, fx_policy = demo_policy [] [], fx_letter = (\<lambda>_. False), fx_settings = (\<lambda>_. None)\<rparr>"

definition demo_read_env :: read_env where
  "demo_read_env = \<lparr>rx_file = demo_file_env, rx_maxSize = 0, rx_maxTokens = 0, rx_defaultTokens = 25000, rx_now = 8,
     rx_memory_note = (\<lambda>_ _. ''''), rx_screenshot = (\<lambda>_ _. None),
     rx_media = (\<lambda>_ _ _ _. failed_read ''no media'')\<rparr>"

definition demo_entry :: file_entry where
  "demo_entry = \<lparr>fe_Data = ''a'', fe_ModTime = 5, fe_Perm = 420\<rparr>"

definition demo_disk :: disk where
  "demo_disk = \<lparr>dk_nodes = [''/w/a'' \<mapsto> RegularFile demo_entry], dk_now = 9, dk_stat_error = (\<lambda>_. None),
     dk_read_error = (\<lambda>_. None), dk_mkdir_error = (\<lambda>_. None), dk_write_error = (\<lambda>_. None)\<rparr>"

definition demo_edit_call :: tool_call where
  "demo_edit_call = \<lparr>tc_ID = ''t1'', tc_Name = ''Edit'', tc_Input = Some [(''file_path'', JStr ''/w/a''),
     (''old_string'', JStr ''a''), (''new_string'', JStr ''b'')], tc_WorkingDir = ''/w''\<rparr>"

definition demo_read_call :: tool_call where
  "demo_read_call = \<lparr>tc_ID = ''t0'', tc_Name = ''Read'', tc_Input = Some [(''file_path'', JStr ''/w/a'')], tc_WorkingDir = ''/w''\<rparr>"

definition demo_edit :: edit_input where
  "demo_edit = \<lparr>ei_FilePath = ''/w/a'', ei_OldString = ''a'', ei_NewString = ''b'', ei_ReplaceAll = False\<rparr>"

definition demo_states :: read_states where
  "demo_states = [''/w/a'' \<mapsto> \<lparr>rd_ReadAt = 8, rd_ObservedModTime = 5, rd_ReadOffset = 1, rd_ReadLimit = 0, rd_IsPartial = False\<rparr>]"

definition demo_grants :: "perm_ctx option" where
  "demo_grants = Some \<lparr>fs_grants = [read_of ''/w/a'', \<lparr>fr_ToolName = ''Edit'', fr_Path = ''/w/a'', fr_WorkingDir = ''/w'',
     fr_Access = AccessWrite\<rparr>], bash_grants = [], web_grants = []\<rparr>"

lemma demo_expand: "ExpandPath demo_env ''/w/a'' ''/w'' = Inr ''/w/a''"
  by (simp add: ExpandPath_def path_eval)

lemma demo_decode: "DecodeInput edit_schema decode_edit (tc_Input demo_edit_call) = Inr demo_edit"
  by (simp add: DecodeInput_def edit_schema_def decode_edit_def demo_edit_call_def demo_edit_def Validate_def input_fields_def
      is_str_def is_bool_def must_be_def unknown_fields_def get_string_def get_bool_def Let_def)

lemma demo_edit_of: "edit_of demo_file_env demo_edit_call demo_edit ''/w/a''"
  using demo_decode demo_expand
  by (simp add: edit_of_def demo_edit_call_def demo_file_env_def demo_edit_def)

lemma demo_whole_read: "whole_read demo_read_env demo_read_call ''/w/a''"
  using demo_expand
  by (simp add: whole_read_def demo_read_call_def demo_read_env_def demo_file_env_def DecodeInput_def read_schema_def decode_read_def
      Validate_def input_fields_def is_str_def must_be_def unknown_fields_def get_string_def get_int_def Let_def
      media_extension_def path_Ext_def has_prefix_def trim_prefix_def)

lemma demo_admitted: "write_refused demo_file_env demo_grants ''Edit'' ''/w/a'' ''/w'' = None"
    "read_refused demo_read_env demo_grants ''/w/a'' ''/w'' = None"
  by (simp_all add: write_refused_def read_refused_def CheckWritePermissionForTool_def CheckReadPermissionForTool_def
      EvaluateFilesystem_def FilesystemRequest_Validate_def Access_Valid_def AccessWrite_def AccessRead_def demo_grants_def
      hasFilesystemGrant_def read_of_def ToError_def)

lemma demo_secrets: "CheckTeamMemorySecrets ''/w/a'' s = ''''"
  by (simp add: CheckTeamMemorySecrets_def IsTeamMemoryPath_def path_eval to_lower_def) code_simp

lemma demo_edit_text: "edit_text l demo_edit ''a'' = Inr (''b'', 1)"
  by (simp add: edit_text_def demo_edit_def findActualString_def preserveQuoteStyle_def has_prefix_def Let_def)

lemma demo_guard: "validateExistingFileReadState demo_states ''/w/a'' 5 = None" "fully_read demo_states ''/w/a'' 5"
  by (simp_all add: guard_iff [symmetric] validateExistingFileReadState_def demo_states_def Lookup_def)

lemma demo_settings: "validateSettingsFileEdit demo_file_env p a b = None"
  by (simp add: validateSettingsFileEdit_def demo_file_env_def)

lemma demo_write: "os_WriteFile demo_disk ''/w/a'' s perm = (None, set_data ''/w/a'' s perm demo_disk)"
  by (simp add: os_WriteFile_def demo_disk_def)

lemma demo_edit_result:
  "edit_Invoke demo_file_env demo_grants demo_states demo_edit_call demo_disk =
    changed (edit_output demo_file_env ''/w/a'' ''/w'' 1) (set_data ''/w/a'' ''b'' 420 demo_disk)"
proof -
  have p: "trim_space (ei_FilePath demo_edit) \<noteq> ''''" "ei_OldString demo_edit \<noteq> ei_NewString demo_edit"
    "tc_WorkingDir demo_edit_call = ''/w''"
    by (simp_all add: demo_edit_def demo_edit_call_def trim_space_def is_space_def)
  have r: "readEditableFile demo_states raw ''/w/a'' demo_disk = Inr (''a'', 420)" for raw
    using demo_guard
    by (simp add: readEditableFile_def os_Stat_def os_ReadFile_def demo_disk_def demo_entry_def maxEditFileSize_def
        has_suffix_def to_lower_def utf8_valid_def decode_rune_def byte_def)
  have "edit_existing demo_file_env demo_states ''/w'' demo_edit ''/w/a'' demo_disk
      = changed (edit_output demo_file_env ''/w/a'' ''/w'' 1) (set_data ''/w/a'' ''b'' 420 demo_disk)"
    using r demo_edit_text demo_settings demo_write by (simp add: edit_existing_def)
  then show ?thesis using p demo_admitted(1) demo_secrets by (simp add: edit_of_unfold [OF demo_edit_of])
qed

lemma demo_execute_edit:
  "Execute (Some (file_registry demo_read_env)) Map.empty demo_grants demo_edit_call (demo_states, (demo_disk, ft)) =
    ((\<lparr>r_Output = edit_output demo_file_env ''/w/a'' ''/w'' 1, r_Error = '''', r_Meta = [(''data'', MetaOther)]\<rparr>, None),
     (demo_states, (set_data ''/w/a'' ''b'' 420 demo_disk, ft)))"
  using demo_edit_result by (simp add: Execute_def on_disk_def demo_edit_call_def changed_def demo_read_env_def)

lemma demo_file: "dk_nodes demo_disk ''/w/a'' = Some (RegularFile demo_entry)" "dk_now demo_disk = 9"
    "dk_stat_error demo_disk ''/w/a'' = None" "dk_read_error demo_disk ''/w/a'' = None" "dk_write_error demo_disk ''/w/a'' = None"
  by (simp_all add: demo_disk_def)

theorem changed_file_was_read_witness:
  "write_refused demo_file_env demo_grants ''Edit'' ''/w/a'' ''/w'' = None \<and>
    (fully_read demo_states ''/w/a'' 5 \<or> trim_space ''a'' = '''')"
  using changed_file_was_read [of "''Edit''" "edit_Invoke demo_file_env" demo_file_env demo_disk "''/w/a''" demo_entry demo_grants
      demo_states demo_edit_call]
  by (simp add: demo_edit_result demo_file) (simp add: set_data_def demo_entry_def demo_edit_call_def)

theorem successful_edit_exact_witness:
  "\<exists>f actual new data. dk_nodes demo_disk ''/w/a'' = Some (RegularFile f) \<and> fully_read demo_states ''/w/a'' (fe_ModTime f) \<and>
    utf8_valid (fe_Data f) \<and> findActualString (fe_Data f) (ei_OldString demo_edit) = Some actual \<and>
    new = preserveQuoteStyle (fx_letter demo_file_env) (ei_OldString demo_edit) actual (ei_NewString demo_edit) \<and>
    (if ei_ReplaceAll demo_edit then data = str_replace_all actual new (fe_Data f)
     else str_count actual (fe_Data f) = 1 \<and> (\<exists>a b. fe_Data f = a @ actual @ b \<and> data = a @ new @ b)) \<and>
    set_data ''/w/a'' ''b'' 420 demo_disk = set_data ''/w/a'' data (fe_Perm f) demo_disk"
proof (rule successful_edit_exact [OF demo_edit_result [unfolded changed_def] _ demo_decode])
  show "ExpandPath (fx_paths demo_file_env) (ei_FilePath demo_edit) (tc_WorkingDir demo_edit_call) = Inr ''/w/a''"
    using demo_expand by (simp add: demo_file_env_def demo_edit_def demo_edit_call_def)
qed (simp_all add: demo_edit_def)

theorem second_edit_fails_witness:
  "\<exists>r err. Execute (Some (file_registry demo_read_env)) Map.empty demo_grants demo_edit_call
      (demo_states, (set_data ''/w/a'' ''b'' 420 demo_disk, Map.empty)) = ((r, err), (demo_states, (set_data ''/w/a'' ''b'' 420 demo_disk, Map.empty)))
    \<and> (err \<noteq> None \<or> r_Error r \<noteq> '''')"
proof (rule second_edit_fails [OF _ demo_execute_edit])
  show "edit_of (rx_file demo_read_env) demo_edit_call demo_edit ''/w/a''" "edit_of (rx_file demo_read_env) demo_edit_call demo_edit ''/w/a''"
    using demo_edit_of by (simp_all add: demo_read_env_def)
  show "Lookup (MergeReadState demo_states Map.empty) ''/w/a'' = Some
      \<lparr>rd_ReadAt = 8, rd_ObservedModTime = 5, rd_ReadOffset = 1, rd_ReadLimit = 0, rd_IsPartial = False\<rparr>"
    by (simp add: demo_states_def Lookup_def)
qed (simp_all add: demo_file)

lemma demo_execute_read:
  obtains r states' ft' where "Execute (Some (file_registry demo_read_env)) Map.empty demo_grants demo_read_call (Map.empty, (demo_disk, Map.empty))
    = ((r, None), (states', (demo_disk, ft')))" "r_Error r = ''''"
proof -
  have i: "DecodeInput read_schema decode_read (tc_Input demo_read_call) = Inr \<lparr>rd_FilePath = ''/w/a'', rd_Offset = 0, rd_Limit = 0, rd_Pages = ''''\<rparr>"
    by (simp add: demo_read_call_def DecodeInput_def read_schema_def decode_read_def
      Validate_def input_fields_def is_str_def must_be_def unknown_fields_def get_string_def get_int_def Let_def)
  have "readTextRange ''/w/a'' 1 0 demo_disk = Inr ([''a''], 1)"
    by (simp add: readTextRange_def os_ReadFile_def demo_disk_def demo_entry_def splitLines_def has_suffix_def normalizeLine_def
        utf8_valid_def decode_rune_def byte_def trim_prefix_def has_prefix_def)
  then have "\<exists>r s w. read_text demo_read_env ''/w/a'' 1 0 demo_entry (demo_disk, Map.empty) = (((r, s), None), w) \<and> r_Error r = '''' \<and> fst w = demo_disk"
    by (simp add: read_text_def Let_def answer_def validateContentTokens_def demo_read_env_def demo_entry_def estimateTokensForContent_def
        bytesPerTokenForExtension_def)
  then obtain r s w where r: "read_text demo_read_env ''/w/a'' 1 0 demo_entry (demo_disk, Map.empty) = (((r, s), None), w)"
    "r_Error r = ''''" "fst w = demo_disk" by blast
  have x: "ExpandPath (fx_paths (rx_file demo_read_env)) ''/w/a'' (tc_WorkingDir demo_read_call) = Inr ''/w/a''"
    using demo_expand by (simp add: demo_read_env_def demo_file_env_def demo_read_call_def)
  have t: "read_target demo_read_env demo_disk ''/w/a'' = Some (''/w/a'', RegularFile demo_entry)"
    by (simp add: read_target_def os_Stat_def demo_file)
  have a: "read_refused demo_read_env demo_grants ''/w/a'' (tc_WorkingDir demo_read_call) = None"
    using demo_admitted(2) by (simp add: demo_read_call_def)
  have m: "\<not> media_extension (trim_prefix (path_Ext ''/w/a'') ''.'')" using demo_whole_read by (simp add: whole_read_def)
  have "read_Invoke demo_read_env demo_grants Map.empty demo_read_call (demo_disk, Map.empty) = (((r, s), None), w)"
    using m by (simp add: read_Invoke_def i x t a r file_unchanged_def Lookup_def)
  then show ?thesis using r that [of r "applyReadStateUpdate s Map.empty" "snd w"]
    by (cases w) (simp add: Execute_def demo_read_call_def)
qed

theorem whole_read_opens_edit_witness:
  "\<exists>states ft r. Execute (Some (file_registry demo_read_env)) Map.empty demo_grants demo_edit_call (states, (demo_disk, ft))
      = ((r, None), (states, (set_data ''/w/a'' ''b'' (fe_Perm demo_entry) demo_disk, ft))) \<and> r_Error r = ''''"
proof -
  obtain r states' ft' where x: "Execute (Some (file_registry demo_read_env)) Map.empty demo_grants demo_read_call
      (Map.empty, (demo_disk, Map.empty)) = ((r, None), (states', (demo_disk, ft')))" "r_Error r = ''''"
    by (rule demo_execute_read)
  have f: "rx_file demo_read_env = demo_file_env" by (simp add: demo_read_env_def)
  have "\<exists>r'. Execute (Some (file_registry demo_read_env)) Map.empty demo_grants demo_edit_call (states', (demo_disk, ft'))
      = ((r', None), (states', (set_data ''/w/a'' ''b'' (fe_Perm demo_entry) demo_disk, ft'))) \<and> r_Error r' = ''''"
  proof (rule whole_read_opens_edit [OF demo_whole_read demo_file(1,3,4,5) x])
    show "edit_of (rx_file demo_read_env) demo_edit_call demo_edit ''/w/a''" unfolding f by (rule demo_edit_of)
    show "write_refused (rx_file demo_read_env) demo_grants ''Edit'' ''/w/a'' (tc_WorkingDir demo_edit_call) = None"
      using demo_admitted(1) f by (simp add: demo_edit_call_def)
    show "edit_text (fx_letter (rx_file demo_read_env)) demo_edit (fe_Data demo_entry) = Inr (''b'', 1)"
      using demo_edit_text by (simp add: demo_entry_def)
    show "CheckTeamMemorySecrets ''/w/a'' (ei_NewString demo_edit) = ''''" by (rule demo_secrets)
    show "validateSettingsFileEdit (rx_file demo_read_env) ''/w/a'' (fe_Data demo_entry) ''b'' = None"
      unfolding f by (rule demo_settings)
  qed (simp_all add: demo_edit_def demo_entry_def trim_space_def is_space_def utf8_valid_def decode_rune_def byte_def
      maxEditFileSize_def has_suffix_def to_lower_def)
  then show ?thesis by blast
qed

end
