(* ===== verification/Settings.thy ===== *)
theory Settings
  imports Hooks
begin

text \<open>
  Settings: the configuration and the merge of its layers (\<open>core/config/config.go\<close>, \<open>provider.go\<close>,
  \<open>merge.go\<close>).

  A Go map is a list of its entries with distinct keys; nil and the empty map are both \<open>[]\<close>, as the code
  tells them apart nowhere. A float is the text \<open>json.Marshal\<close> writes for it.
\<close>

type_synonym 'a entries = "(string \<times> 'a) list"

definition overlay :: "'a entries \<Rightarrow> 'a entries \<Rightarrow> 'a entries" where
  "overlay base override = filter (\<lambda>kv. fst kv \<notin> fst ` set override) base @ override"

section \<open>The configuration\<close>

record policy_settings =
  ps_Origin :: string
  ps_HasBaseFile :: bool
  ps_HasDropIns :: bool

record remote_session =
  rs_Enabled :: bool
  rs_SessionID :: string
  rs_URL :: string
  rs_StreamURL :: string
  rs_InitialPrompt :: string

record permission_config =
  pc_DefaultMode :: string
  pc_Allow :: "string list"
  pc_Deny :: "string list"
  pc_Ask :: "string list"
  pc_AdditionalDirectories :: "string list"
  pc_AdditionalDirectoryEntries :: "(string \<times> string) list"
  pc_DisableBypassPermissionsMode :: string

record status_line =
  sl_Type :: string
  sl_Command :: string
  sl_Padding :: "string option"

record oauth_account =
  oa_AccountUUID :: string
  oa_EmailAddress :: string
  oa_OrganizationUUID :: string
  oa_OrganizationName :: string

record ssh_config =
  sc_ID :: string
  sc_Name :: string
  sc_SSHHost :: string
  sc_SSHPort :: int
  sc_SSHIdentityFile :: string
  sc_StartDirectory :: string

text \<open>An allowed channel plugin is its marketplace and its name; an additional directory its path and source.\<close>

record config =
  c_ProjectPath :: string
  c_HomeDir :: string
  c_Env :: "string entries"
  c_Model :: string
  c_EffortLevel :: string
  c_HasEffortLevelSetting :: bool
  c_FastMode :: bool
  c_HasFastModeSetting :: bool
  c_Theme :: string
  c_EditorMode :: string
  c_Provider :: string
  c_APIKey :: string
  c_AuthToken :: string
  c_APIBaseURL :: string
  c_LoadedSettingSources :: "string list"
  c_SettingSourcesFlag :: string
  c_HasSettingSourcesFlag :: bool
  c_SettingOrigins :: "string entries"
  c_ManagedSettingsDir :: string
  c_PolicySettings :: policy_settings
  c_APIKeySource :: string
  c_AuthTokenSource :: string
  c_OAuthAccount :: oauth_account
  c_APIBaseURLSource :: string
  c_ProxyURL :: string
  c_ProxySource :: string
  c_AdditionalCACertsPath :: string
  c_AdditionalCACertsSource :: string
  c_MTLSClientCertPath :: string
  c_MTLSClientCertSource :: string
  c_MTLSClientKeyPath :: string
  c_MTLSClientKeySource :: string
  c_ApprovalMode :: string
  c_SessionDBPath :: string
  c_RemoteSession :: remote_session
  c_Permissions :: permission_config
  c_Hooks :: hooks_config
  c_AllowManagedHooksOnly :: bool
  c_HasAllowManagedHooksOnlySetting :: bool
  c_AllowedHttpHookUrls :: "string list"
  c_HasAllowedHttpHookUrls :: bool
  c_HttpHookAllowedEnvVars :: "string list"
  c_HasHttpHookAllowedEnvVars :: bool
  c_EnabledPlugins :: "json entries"
  c_StatusLine :: status_line
  c_ExtraKnownMarketplaces :: "json entries entries"
  c_StrictKnownMarketplaces :: "string list"
  c_BlockedMarketplaces :: "string list"
  c_ForceLoginMethod :: string
  c_ForceLoginOrgUUID :: string
  c_OtelHeadersHelper :: string
  c_OutputStyle :: string
  c_Language :: string
  c_SkipWebFetchPreflight :: bool
  c_Sandbox :: "json entries"
  c_Agent :: string
  c_CompanyAnnouncements :: "string list"
  c_PluginConfigs :: "json entries entries"
  c_Remote :: string
  c_AutoUpdatesChannel :: string
  c_MinimumVersion :: string
  c_PlansDirectory :: string
  c_ChannelsEnabled :: bool
  c_HasChannelsEnabledSetting :: bool
  c_AllowedChannelPlugins :: "(string \<times> string) list"
  c_SSHConfigs :: "ssh_config list"
  c_ClaudeMdExcludes :: "string list"
  c_PluginTrustMessage :: string
  c_DisableAllHooks :: bool
  c_OutputFormat :: string
  c_EnablePromptCaching :: bool
  c_SpinnerTipsEnabled :: bool
  c_HasSpinnerTipsEnabledSetting :: bool
  c_VertexProjectID :: string
  c_VertexRegion :: string
  c_VertexSkipAuth :: bool
  c_BedrockRegion :: string
  c_BedrockModelID :: string
  c_BedrockSkipAuth :: bool
  c_FoundryResource :: string
  c_FoundryBaseURL :: string
  c_FoundryAPIKey :: string
  c_FoundrySkipAuth :: bool

section \<open>Normal forms\<close>

definition NormalizeThemeSetting :: "string \<Rightarrow> string" where
  "NormalizeThemeSetting value = (if value = '''' then ''dark'' else value)"

definition NormalizeEditorMode :: "string \<Rightarrow> string" where
  "NormalizeEditorMode value = (if value \<in> {'''', ''emacs'', ''normal''} then ''normal'' else value)"

definition NormalizeEffortLevel :: "string \<Rightarrow> string" where
  "NormalizeEffortLevel value = value"

definition NormalizeProvider :: "string \<Rightarrow> string" where
  "NormalizeProvider value =
    (let v = trim_space (to_lower value) in
     if v \<in> {'''', ''anthropic''} then ''anthropic''
     else if v \<in> {''openai'', ''openai_compatible'', ''openai-compatible''} then ''openai-compatible''
     else if v \<in> {''zhipu'', ''zhipuai'', ''glm''} then ''glm''
     else v)"

definition IsSupportedThemeSetting :: "string \<Rightarrow> bool" where
  "IsSupportedThemeSetting value \<longleftrightarrow> value \<in> {''auto'', ''dark'', ''light'', ''light-daltonized'', ''dark-daltonized'',
     ''light-ansi'', ''dark-ansi''}"

definition IsSupportedEffortLevel :: "string \<Rightarrow> bool" where
  "IsSupportedEffortLevel value \<longleftrightarrow> value \<in> {''low'', ''medium'', ''high'', ''max''}"

definition BuildRemoteSessionURL :: "string \<Rightarrow> string" where
  "BuildRemoteSessionURL sessionID =
    (let t = trim_space sessionID in if t = '''' then '''' else ''https://claude.ai/code/'' @ t @ ''?m=0'')"

definition nonblank :: "string list \<Rightarrow> string list" where
  "nonblank ps = filter (\<lambda>p. p \<noteq> '''') (map trim_space ps)"

definition NewAdditionalDirectoryConfigs :: "string list \<Rightarrow> string \<Rightarrow> (string \<times> string) list" where
  "NewAdditionalDirectoryConfigs paths source = map (\<lambda>p. (p, source)) (nonblank paths)"

definition AdditionalDirectoryPaths :: "(string \<times> string) list \<Rightarrow> string list" where
  "AdditionalDirectoryPaths entries = nonblank (map fst entries)"

section \<open>Layers\<close>

text \<open>A value that is set wins, for strings, lists and maps alike.\<close>

definition pick :: "'a list \<Rightarrow> 'a list \<Rightarrow> 'a list" where
  "pick base override = (if override \<noteq> [] then override else base)"

definition mergePolicySettingsConfig :: "policy_settings \<Rightarrow> policy_settings \<Rightarrow> policy_settings" where
  "mergePolicySettingsConfig base override = (if ps_Origin override \<noteq> '''' then override else base)"

definition mergeOAuthAccountConfig :: "oauth_account \<Rightarrow> oauth_account \<Rightarrow> oauth_account" where
  "mergeOAuthAccountConfig base override =
    \<lparr>oa_AccountUUID = pick (oa_AccountUUID base) (oa_AccountUUID override),
     oa_EmailAddress = pick (oa_EmailAddress base) (oa_EmailAddress override),
     oa_OrganizationUUID = pick (oa_OrganizationUUID base) (oa_OrganizationUUID override),
     oa_OrganizationName = pick (oa_OrganizationName base) (oa_OrganizationName override)\<rparr>"

definition mergePermissionConfig :: "permission_config \<Rightarrow> permission_config \<Rightarrow> permission_config" where
  "mergePermissionConfig base override =
    \<lparr>pc_DefaultMode = pick (pc_DefaultMode base) (pc_DefaultMode override),
     pc_Allow = pick (pc_Allow base) (pc_Allow override),
     pc_Deny = pick (pc_Deny base) (pc_Deny override),
     pc_Ask = pick (pc_Ask base) (pc_Ask override),
     pc_AdditionalDirectories =
       (if pc_AdditionalDirectoryEntries override \<noteq> [] then AdditionalDirectoryPaths (pc_AdditionalDirectoryEntries override)
        else pick (pc_AdditionalDirectories base) (pc_AdditionalDirectories override)),
     pc_AdditionalDirectoryEntries = pick (pc_AdditionalDirectoryEntries base) (pc_AdditionalDirectoryEntries override),
     pc_DisableBypassPermissionsMode = pick (pc_DisableBypassPermissionsMode base) (pc_DisableBypassPermissionsMode override)\<rparr>"

definition has_status_line :: "status_line \<Rightarrow> bool" where
  "has_status_line s \<longleftrightarrow> sl_Type s \<noteq> '''' \<or> sl_Command s \<noteq> '''' \<or> sl_Padding s \<noteq> None"

definition Merge :: "config \<Rightarrow> config \<Rightarrow> config" where
  "Merge base override =
    \<lparr>c_ProjectPath = pick (c_ProjectPath base) (c_ProjectPath override),
     c_HomeDir = c_HomeDir base,
     c_Env = overlay (c_Env base) (c_Env override),
     c_Model = pick (c_Model base) (c_Model override),
     c_EffortLevel = (if c_HasEffortLevelSetting override then NormalizeEffortLevel (c_EffortLevel override) else c_EffortLevel base),
     c_HasEffortLevelSetting = (c_HasEffortLevelSetting base \<or> c_HasEffortLevelSetting override),
     c_FastMode = (if c_HasFastModeSetting override then c_FastMode override else c_FastMode base),
     c_HasFastModeSetting = (c_HasFastModeSetting base \<or> c_HasFastModeSetting override),
     c_Theme = (if c_Theme override \<noteq> '''' then NormalizeThemeSetting (c_Theme override) else c_Theme base),
     c_EditorMode = (if c_EditorMode override \<noteq> '''' then NormalizeEditorMode (c_EditorMode override) else c_EditorMode base),
     c_Provider = (if c_Provider override \<noteq> '''' then NormalizeProvider (c_Provider override) else c_Provider base),
     c_APIKey = pick (c_APIKey base) (c_APIKey override),
     c_AuthToken = pick (c_AuthToken base) (c_AuthToken override),
     c_APIBaseURL = pick (c_APIBaseURL base) (c_APIBaseURL override),
     c_LoadedSettingSources = pick (c_LoadedSettingSources base) (c_LoadedSettingSources override),
     c_SettingSourcesFlag = (if c_HasSettingSourcesFlag override then c_SettingSourcesFlag override else c_SettingSourcesFlag base),
     c_HasSettingSourcesFlag = (c_HasSettingSourcesFlag base \<or> c_HasSettingSourcesFlag override),
     c_SettingOrigins = overlay (c_SettingOrigins base) (c_SettingOrigins override),
     c_ManagedSettingsDir = c_ManagedSettingsDir base,
     c_PolicySettings = mergePolicySettingsConfig (c_PolicySettings base) (c_PolicySettings override),
     c_APIKeySource = pick (c_APIKeySource base) (c_APIKeySource override),
     c_AuthTokenSource = pick (c_AuthTokenSource base) (c_AuthTokenSource override),
     c_OAuthAccount = mergeOAuthAccountConfig (c_OAuthAccount base) (c_OAuthAccount override),
     c_APIBaseURLSource = pick (c_APIBaseURLSource base) (c_APIBaseURLSource override),
     c_ProxyURL = pick (c_ProxyURL base) (c_ProxyURL override),
     c_ProxySource = pick (c_ProxySource base) (c_ProxySource override),
     c_AdditionalCACertsPath = pick (c_AdditionalCACertsPath base) (c_AdditionalCACertsPath override),
     c_AdditionalCACertsSource = pick (c_AdditionalCACertsSource base) (c_AdditionalCACertsSource override),
     c_MTLSClientCertPath = pick (c_MTLSClientCertPath base) (c_MTLSClientCertPath override),
     c_MTLSClientCertSource = pick (c_MTLSClientCertSource base) (c_MTLSClientCertSource override),
     c_MTLSClientKeyPath = pick (c_MTLSClientKeyPath base) (c_MTLSClientKeyPath override),
     c_MTLSClientKeySource = pick (c_MTLSClientKeySource base) (c_MTLSClientKeySource override),
     c_ApprovalMode = pick (c_ApprovalMode base) (c_ApprovalMode override),
     c_SessionDBPath = pick (c_SessionDBPath base) (c_SessionDBPath override),
     c_RemoteSession = c_RemoteSession base,
     c_Permissions = mergePermissionConfig (c_Permissions base) (c_Permissions override),
     c_Hooks = MergeHooksConfig (c_Hooks base) (c_Hooks override),
     c_AllowManagedHooksOnly = (if c_HasAllowManagedHooksOnlySetting override then c_AllowManagedHooksOnly override else c_AllowManagedHooksOnly base),
     c_HasAllowManagedHooksOnlySetting = (c_HasAllowManagedHooksOnlySetting base \<or> c_HasAllowManagedHooksOnlySetting override),
     c_AllowedHttpHookUrls = (if c_HasAllowedHttpHookUrls override then c_AllowedHttpHookUrls override else c_AllowedHttpHookUrls base),
     c_HasAllowedHttpHookUrls = (c_HasAllowedHttpHookUrls base \<or> c_HasAllowedHttpHookUrls override),
     c_HttpHookAllowedEnvVars = (if c_HasHttpHookAllowedEnvVars override then c_HttpHookAllowedEnvVars override else c_HttpHookAllowedEnvVars base),
     c_HasHttpHookAllowedEnvVars = (c_HasHttpHookAllowedEnvVars base \<or> c_HasHttpHookAllowedEnvVars override),
     c_EnabledPlugins = pick (c_EnabledPlugins base) (c_EnabledPlugins override),
     c_StatusLine = (if has_status_line (c_StatusLine override) then c_StatusLine override else c_StatusLine base),
     c_ExtraKnownMarketplaces = pick (c_ExtraKnownMarketplaces base) (c_ExtraKnownMarketplaces override),
     c_StrictKnownMarketplaces = pick (c_StrictKnownMarketplaces base) (c_StrictKnownMarketplaces override),
     c_BlockedMarketplaces = pick (c_BlockedMarketplaces base) (c_BlockedMarketplaces override),
     c_ForceLoginMethod = pick (c_ForceLoginMethod base) (c_ForceLoginMethod override),
     c_ForceLoginOrgUUID = pick (c_ForceLoginOrgUUID base) (c_ForceLoginOrgUUID override),
     c_OtelHeadersHelper = pick (c_OtelHeadersHelper base) (c_OtelHeadersHelper override),
     c_OutputStyle = pick (c_OutputStyle base) (c_OutputStyle override),
     c_Language = pick (c_Language base) (c_Language override),
     c_SkipWebFetchPreflight = (c_SkipWebFetchPreflight base \<or> c_SkipWebFetchPreflight override),
     c_Sandbox = pick (c_Sandbox base) (c_Sandbox override),
     c_Agent = pick (c_Agent base) (c_Agent override),
     c_CompanyAnnouncements = pick (c_CompanyAnnouncements base) (c_CompanyAnnouncements override),
     c_PluginConfigs = pick (c_PluginConfigs base) (c_PluginConfigs override),
     c_Remote = pick (c_Remote base) (c_Remote override),
     c_AutoUpdatesChannel = pick (c_AutoUpdatesChannel base) (c_AutoUpdatesChannel override),
     c_MinimumVersion = pick (c_MinimumVersion base) (c_MinimumVersion override),
     c_PlansDirectory = pick (c_PlansDirectory base) (c_PlansDirectory override),
     c_ChannelsEnabled = (if c_HasChannelsEnabledSetting override then c_ChannelsEnabled override else c_ChannelsEnabled base),
     c_HasChannelsEnabledSetting = (c_HasChannelsEnabledSetting base \<or> c_HasChannelsEnabledSetting override),
     c_AllowedChannelPlugins = pick (c_AllowedChannelPlugins base) (c_AllowedChannelPlugins override),
     c_SSHConfigs = pick (c_SSHConfigs base) (c_SSHConfigs override),
     c_ClaudeMdExcludes = pick (c_ClaudeMdExcludes base) (c_ClaudeMdExcludes override),
     c_PluginTrustMessage = pick (c_PluginTrustMessage base) (c_PluginTrustMessage override),
     c_DisableAllHooks = (c_DisableAllHooks base \<or> c_DisableAllHooks override),
     c_OutputFormat = c_OutputFormat base,
     c_EnablePromptCaching = c_EnablePromptCaching base,
     c_SpinnerTipsEnabled = c_SpinnerTipsEnabled base,
     c_HasSpinnerTipsEnabledSetting = c_HasSpinnerTipsEnabledSetting base,
     c_VertexProjectID = c_VertexProjectID base,
     c_VertexRegion = c_VertexRegion base,
     c_VertexSkipAuth = c_VertexSkipAuth base,
     c_BedrockRegion = c_BedrockRegion base,
     c_BedrockModelID = c_BedrockModelID base,
     c_BedrockSkipAuth = c_BedrockSkipAuth base,
     c_FoundryResource = c_FoundryResource base,
     c_FoundryBaseURL = c_FoundryBaseURL base,
     c_FoundryAPIKey = c_FoundryAPIKey base,
     c_FoundrySkipAuth = c_FoundrySkipAuth base\<rparr>"

text \<open>The zero value of each structure.\<close>

definition no_permissions :: permission_config where
  "no_permissions = \<lparr>pc_DefaultMode = '''', pc_Allow = [], pc_Deny = [], pc_Ask = [], pc_AdditionalDirectories = [],
     pc_AdditionalDirectoryEntries = [], pc_DisableBypassPermissionsMode = ''''\<rparr>"

definition no_config :: config where
  "no_config = \<lparr>c_ProjectPath = '''', c_HomeDir = '''', c_Env = [], c_Model = '''', c_EffortLevel = '''',
     c_HasEffortLevelSetting = False, c_FastMode = False, c_HasFastModeSetting = False, c_Theme = '''',
     c_EditorMode = '''', c_Provider = '''', c_APIKey = '''', c_AuthToken = '''', c_APIBaseURL = '''',
     c_LoadedSettingSources = [], c_SettingSourcesFlag = '''', c_HasSettingSourcesFlag = False, c_SettingOrigins = [],
     c_ManagedSettingsDir = '''',
     c_PolicySettings = \<lparr>ps_Origin = '''', ps_HasBaseFile = False, ps_HasDropIns = False\<rparr>,
     c_APIKeySource = '''', c_AuthTokenSource = '''',
     c_OAuthAccount = \<lparr>oa_AccountUUID = '''', oa_EmailAddress = '''', oa_OrganizationUUID = '''', oa_OrganizationName = ''''\<rparr>,
     c_APIBaseURLSource = '''', c_ProxyURL = '''', c_ProxySource = '''', c_AdditionalCACertsPath = '''',
     c_AdditionalCACertsSource = '''', c_MTLSClientCertPath = '''', c_MTLSClientCertSource = '''',
     c_MTLSClientKeyPath = '''', c_MTLSClientKeySource = '''', c_ApprovalMode = '''', c_SessionDBPath = '''',
     c_RemoteSession = \<lparr>rs_Enabled = False, rs_SessionID = '''', rs_URL = '''', rs_StreamURL = '''', rs_InitialPrompt = ''''\<rparr>,
     c_Permissions = no_permissions, c_Hooks = [], c_AllowManagedHooksOnly = False,
     c_HasAllowManagedHooksOnlySetting = False, c_AllowedHttpHookUrls = [], c_HasAllowedHttpHookUrls = False,
     c_HttpHookAllowedEnvVars = [], c_HasHttpHookAllowedEnvVars = False, c_EnabledPlugins = [],
     c_StatusLine = \<lparr>sl_Type = '''', sl_Command = '''', sl_Padding = None\<rparr>,
     c_ExtraKnownMarketplaces = [], c_StrictKnownMarketplaces = [], c_BlockedMarketplaces = [],
     c_ForceLoginMethod = '''', c_ForceLoginOrgUUID = '''', c_OtelHeadersHelper = '''', c_OutputStyle = '''',
     c_Language = '''', c_SkipWebFetchPreflight = False, c_Sandbox = [], c_Agent = '''', c_CompanyAnnouncements = [],
     c_PluginConfigs = [], c_Remote = '''', c_AutoUpdatesChannel = '''', c_MinimumVersion = '''',
     c_PlansDirectory = '''', c_ChannelsEnabled = False, c_HasChannelsEnabledSetting = False,
     c_AllowedChannelPlugins = [], c_SSHConfigs = [], c_ClaudeMdExcludes = [], c_PluginTrustMessage = '''',
     c_DisableAllHooks = False, c_OutputFormat = '''', c_EnablePromptCaching = False, c_SpinnerTipsEnabled = False,
     c_HasSpinnerTipsEnabledSetting = False, c_VertexProjectID = '''', c_VertexRegion = '''',
     c_VertexSkipAuth = False, c_BedrockRegion = '''', c_BedrockModelID = '''', c_BedrockSkipAuth = False,
     c_FoundryResource = '''', c_FoundryBaseURL = '''', c_FoundryAPIKey = '''', c_FoundrySkipAuth = False\<rparr>"

definition DefaultConfig :: "string \<Rightarrow> config" where
  "DefaultConfig disable_prompt_caching = no_config\<lparr>c_Model := ''claude-sonnet-4-5'', c_Theme := NormalizeThemeSetting '''',
     c_EditorMode := NormalizeEditorMode '''', c_Provider := ''anthropic'', c_ApprovalMode := ''default'',
     c_Permissions := no_permissions\<lparr>pc_DefaultMode := ''default''\<rparr>,
     c_EnablePromptCaching := (disable_prompt_caching = '''')\<rparr>"

section \<open>The merge of layers is associative\<close>

lemma pick_assoc: "pick (pick a b) c = pick a (pick b c)"
  by (simp add: pick_def)

definition keys :: "'a entries \<Rightarrow> string set" where
  "keys m = fst ` set m"

lemma overlay_keys: "overlay base override = filter (\<lambda>kv. fst kv \<notin> keys override) base @ override"
  by (simp add: overlay_def keys_def)

lemma keys_overlay [simp]: "keys (overlay a b) = keys a \<union> keys b"
proof (rule set_eqI)
  fix k show "k \<in> keys (overlay a b) \<longleftrightarrow> k \<in> keys a \<union> keys b"
  proof (cases "k \<in> keys b")
    case False
    then have "k \<in> keys (overlay a b) \<longleftrightarrow> (\<exists>x\<in>set a. fst x \<notin> keys b \<and> fst x = k)"
      by (auto simp: overlay_def keys_def)
    also have "\<dots> \<longleftrightarrow> k \<in> keys a" using False by (auto simp: keys_def)
    finally show ?thesis using False by simp
  qed (simp add: overlay_def keys_def image_Un)
qed

lemma overlay_assoc: "overlay (overlay a b) c = overlay a (overlay b c)"
proof -
  have "filter (\<lambda>kv. fst kv \<notin> keys (overlay b c)) a = filter (\<lambda>kv. fst kv \<notin> keys c) (filter (\<lambda>kv. fst kv \<notin> keys b) a)"
    unfolding keys_overlay filter_filter by (rule filter_cong) auto
  then show ?thesis by (simp only: overlay_keys [of a "overlay b c"]) (simp add: overlay_keys)
qed

lemma MergeHooks_assoc: "MergeHooksConfig (MergeHooksConfig a b) c = MergeHooksConfig a (MergeHooksConfig b c)"
  using overlay_assoc unfolding overlay_def MergeHooksConfig_def .

lemma policy_assoc:
  "mergePolicySettingsConfig (mergePolicySettingsConfig a b) c = mergePolicySettingsConfig a (mergePolicySettingsConfig b c)"
  by (simp add: mergePolicySettingsConfig_def)

lemma oauth_assoc:
  "mergeOAuthAccountConfig (mergeOAuthAccountConfig a b) c = mergeOAuthAccountConfig a (mergeOAuthAccountConfig b c)"
  by (simp add: mergeOAuthAccountConfig_def pick_assoc)

text \<open>A layer whose additional directories, if it has any, come with entries that name their source.\<close>

definition sourced :: "config \<Rightarrow> bool" where
  "sourced c \<longleftrightarrow> (let p = c_Permissions c in
     pc_AdditionalDirectories p \<noteq> [] \<longrightarrow> pc_AdditionalDirectoryEntries p \<noteq> [])"

lemma permission_assoc:
  assumes "pc_AdditionalDirectories b \<noteq> [] \<longrightarrow> pc_AdditionalDirectoryEntries b \<noteq> []"
    and "pc_AdditionalDirectories c \<noteq> [] \<longrightarrow> pc_AdditionalDirectoryEntries c \<noteq> []"
  shows "mergePermissionConfig (mergePermissionConfig a b) c = mergePermissionConfig a (mergePermissionConfig b c)"
  using assms
  by (cases "pc_AdditionalDirectoryEntries c = []"; cases "pc_AdditionalDirectoryEntries b = []")
     (simp_all add: mergePermissionConfig_def pick_def)

lemma normal_theme: "NormalizeThemeSetting (NormalizeThemeSetting v) = NormalizeThemeSetting v" "NormalizeThemeSetting v \<noteq> ''''"
  by (simp_all add: NormalizeThemeSetting_def)

lemma normal_editor: "NormalizeEditorMode (NormalizeEditorMode v) = NormalizeEditorMode v" "NormalizeEditorMode v \<noteq> ''''"
  by (simp_all add: NormalizeEditorMode_def)

lemma lower_idem: "lower_char (lower_char c) = lower_char c"
  by (simp add: lower_char_def)

lemma set_trim: "set (trim_space s) \<subseteq> set s"
  unfolding trim_space_def by (metis (no_types, lifting) set_dropWhileD set_rev subsetI)

lemma trim_idem: "trim_space (trim_space s) = trim_space s"
proof -
  have 1: "dropWhile is_space (dropWhile is_space r) = dropWhile is_space r" for r by (induction r) auto
  let ?a = "dropWhile is_space s"
  have "dropWhile is_space (rev (dropWhile is_space (rev ?a))) = rev (dropWhile is_space (rev ?a))"
  proof (cases "dropWhile is_space (rev ?a)")
    case (Cons x xs)
    then have "?a \<noteq> []" by (metis dropWhile.simps(1) list.distinct(1) rev.simps(1))
    moreover obtain zs where "?a = rev (dropWhile is_space (rev ?a)) @ zs"
      by (metis rev_append rev_rev_ident takeWhile_dropWhile_id)
    ultimately have "hd (rev (dropWhile is_space (rev ?a))) = hd ?a" using Cons by (metis hd_append list.distinct(1) rev_is_Nil_conv)
    moreover have "\<not> is_space (hd ?a)" using \<open>?a \<noteq> []\<close> hd_dropWhile by blast
    ultimately show ?thesis using Cons by (metis dropWhile.simps(1) dropWhile.simps(2) hd_Cons_tl)
  next
    case Nil
    then show ?thesis by (simp only: rev.simps dropWhile.simps)
  qed
  then show ?thesis unfolding trim_space_def by (simp add: 1)
qed

lemma lower_fixed: "to_lower (trim_space (to_lower s)) = trim_space (to_lower s)"
proof -
  have "lower_char c = c" if "c \<in> set (trim_space (to_lower s))" for c
    using that set_trim [of "to_lower s"] by (auto simp: to_lower_def lower_idem)
  then show ?thesis by (simp add: to_lower_def map_idI)
qed

lemma normal_provider: "NormalizeProvider (NormalizeProvider v) = NormalizeProvider v" "NormalizeProvider v \<noteq> ''''"
proof -
  show "NormalizeProvider v \<noteq> ''''" by (simp add: NormalizeProvider_def Let_def)
  have e: "NormalizeProvider ''anthropic'' = ''anthropic''" "NormalizeProvider ''openai-compatible'' = ''openai-compatible''"
    "NormalizeProvider ''glm'' = ''glm''"
    by code_simp+
  have "NormalizeProvider (trim_space (to_lower v)) = NormalizeProvider v"
    by (simp only: NormalizeProvider_def lower_fixed trim_idem)
  then show "NormalizeProvider (NormalizeProvider v) = NormalizeProvider v"
    using e by (simp add: NormalizeProvider_def [of v] Let_def)
qed
text \<open>
  C21: The merge of settings is associative, so a stack of layers has one meaning however it is grouped.
  The one exception, which the hypothesis rules out, is a layer whose additional directories are all
  blank: the parser gives it directories without entries, and the entries of a lower layer stay beside
  them.
\<close>

theorem Merge_assoc:
  assumes "sourced b" "sourced c"
  shows "Merge (Merge a b) c = Merge a (Merge b c)"
proof -
  note outer = Merge_def [of "Merge a b" c] Merge_def [of a "Merge b c"] config.select_convs
  have p: "mergePermissionConfig (mergePermissionConfig (c_Permissions a) (c_Permissions b)) (c_Permissions c)
      = mergePermissionConfig (c_Permissions a) (mergePermissionConfig (c_Permissions b) (c_Permissions c))"
    by (rule permission_assoc) (use assms in \<open>simp_all add: sourced_def Let_def\<close>)
  show ?thesis
    by (rule config.equality; simp only: outer; simp only: Merge_def config.select_convs;
        simp add: p pick_assoc overlay_assoc MergeHooks_assoc policy_assoc oauth_assoc normal_theme normal_editor
          normal_provider NormalizeEffortLevel_def)
qed

theorem Merge_assoc_witness:
  "Merge (Merge (DefaultConfig '''') (no_config\<lparr>c_Model := ''m''\<rparr>)) (no_config\<lparr>c_Theme := ''light''\<rparr>)
    = Merge (DefaultConfig '''') (Merge (no_config\<lparr>c_Model := ''m''\<rparr>) (no_config\<lparr>c_Theme := ''light''\<rparr>))"
  by (rule Merge_assoc) (simp_all add: sourced_def no_config_def no_permissions_def)

end
