(* ===== verification/Settings_Load.thy ===== *)
theory Settings_Load
  imports Settings
begin

text \<open>
  Loading of settings (\<open>platform/config/fileloader.go\<close>, \<open>managed_settings.go\<close>, \<open>runtime_env.go\<close>,
  \<open>setting_sources.go\<close>, \<open>trust_state.go\<close> and the start of \<open>NewAppWithDependencies\<close> in
  \<open>app/bootstrap/app.go\<close>), on Linux: the managed preferences of macOS and the registry of Windows are left
  out.

  Files, directories, the environment and the syntax of JSON are parameters. The decoding into
  \<open>settingsFile\<close> is written out: the keys of an object set their fields in order, \<open>null\<close> leaves text and
  flags as they are and clears slices, maps and pointers, a value of another type is an error.
\<close>

section \<open>Decoding\<close>

type_synonym 's setter = "json \<Rightarrow> 's \<Rightarrow> unit + 's"

definition decode_into :: "(string \<times> 's setter) list \<Rightarrow> json \<Rightarrow> 's \<Rightarrow> unit + 's" where
  "decode_into fs j s =
    bind_res (dec_struct j) (fold_res (\<lambda>s kv.
      case map_of (map (\<lambda>f. (to_lower (fst f), snd f)) fs) (to_lower (fst kv)) of
        None \<Rightarrow> Inr s
      | Some f \<Rightarrow> f (snd kv) s) s)"

definition str_field :: "((string \<Rightarrow> string) \<Rightarrow> 's \<Rightarrow> 's) \<Rightarrow> 's setter" where
  "str_field upd j s = (case j of JNull \<Rightarrow> Inr s | JStr t \<Rightarrow> Inr (upd (\<lambda>_. t) s) | _ \<Rightarrow> Inl ())"

definition bool_field :: "((bool \<Rightarrow> bool) \<Rightarrow> 's \<Rightarrow> 's) \<Rightarrow> 's setter" where
  "bool_field upd j s = (case j of JNull \<Rightarrow> Inr s | JBool b \<Rightarrow> Inr (upd (\<lambda>_. b) s) | _ \<Rightarrow> Inl ())"

definition int_field :: "((int \<Rightarrow> int) \<Rightarrow> 's \<Rightarrow> 's) \<Rightarrow> 's setter" where
  "int_field upd j s = (if j = JNull then Inr s else bind_res (dec_int (Some j)) (\<lambda>n. Inr (upd (\<lambda>_. n) s)))"

definition ptr_field :: "(json \<Rightarrow> 'a option) \<Rightarrow> (('a option \<Rightarrow> 'a option) \<Rightarrow> 's \<Rightarrow> 's) \<Rightarrow> 's setter" where
  "ptr_field dec upd j s =
    (if j = JNull then Inr (upd (\<lambda>_. None) s)
     else case dec j of None \<Rightarrow> Inl () | Some a \<Rightarrow> Inr (upd (\<lambda>_. Some a) s))"

definition json_str :: "json \<Rightarrow> string option" where
  "json_str j = (case j of JStr t \<Rightarrow> Some t | _ \<Rightarrow> None)"

definition json_bool :: "json \<Rightarrow> bool option" where
  "json_bool j = (case j of JBool b \<Rightarrow> Some b | _ \<Rightarrow> None)"

definition json_num :: "json \<Rightarrow> string option" where
  "json_num j = (case j of JNum t \<Rightarrow> Some t | _ \<Rightarrow> None)"

definition dec_str_elem :: "json \<Rightarrow> unit + string" where
  "dec_str_elem j = (case j of JNull \<Rightarrow> Inr '''' | JStr t \<Rightarrow> Inr t | _ \<Rightarrow> Inl ())"

fun dec_elems :: "(json \<Rightarrow> unit + 'a) \<Rightarrow> json list \<Rightarrow> unit + 'a list" where
  "dec_elems dec [] = Inr []"
| "dec_elems dec (j # js) = bind_res (dec j) (\<lambda>a. bind_res (dec_elems dec js) (\<lambda>r. Inr (a # r)))"

text \<open>A slice; one whose being nil matters keeps the difference.\<close>

definition dec_slice :: "(json \<Rightarrow> unit + 'a) \<Rightarrow> json \<Rightarrow> unit + 'a list option" where
  "dec_slice dec j = (case j of JNull \<Rightarrow> Inr None | JArr js \<Rightarrow> bind_res (dec_elems dec js) (\<lambda>r. Inr (Some r)) | _ \<Rightarrow> Inl ())"

definition some_list :: "'a list option \<Rightarrow> 'a list" where
  "some_list r = (case r of None \<Rightarrow> [] | Some l \<Rightarrow> l)"

definition slice_field :: "(json \<Rightarrow> unit + 'a) \<Rightarrow> (('a list \<Rightarrow> 'a list) \<Rightarrow> 's \<Rightarrow> 's) \<Rightarrow> 's setter" where
  "slice_field dec upd j s = bind_res (dec_slice dec j) (\<lambda>r. Inr (upd (\<lambda>_. some_list r) s))"

definition opt_slice_field :: "(json \<Rightarrow> unit + 'a) \<Rightarrow> (('a list option \<Rightarrow> 'a list option) \<Rightarrow> 's \<Rightarrow> 's) \<Rightarrow> 's setter" where
  "opt_slice_field dec upd j s = bind_res (dec_slice dec j) (\<lambda>r. Inr (upd (\<lambda>_. r) s))"

text \<open>A map, decoded into the entries it has.\<close>

definition dec_entries :: "(json \<Rightarrow> unit + 'a) \<Rightarrow> json \<Rightarrow> 'a entries \<Rightarrow> unit + 'a entries" where
  "dec_entries dec j m = (case j of
     JNull \<Rightarrow> Inr []
   | JObj kvs \<Rightarrow> fold_res (\<lambda>m kv. bind_res (dec (snd kv)) (\<lambda>a. Inr (overlay m [(fst kv, a)]))) m kvs
   | _ \<Rightarrow> Inl ())"

definition map_field :: "(json \<Rightarrow> unit + 'a) \<Rightarrow> ('s \<Rightarrow> 'a entries) \<Rightarrow> (('a entries \<Rightarrow> 'a entries) \<Rightarrow> 's \<Rightarrow> 's) \<Rightarrow> 's setter" where
  "map_field dec get upd j s = bind_res (dec_entries dec j (get s)) (\<lambda>m. Inr (upd (\<lambda>_. m) s))"

definition any_map :: "json \<Rightarrow> unit + json entries" where
  "any_map j = dec_entries Inr j []"

definition struct_field ::
    "(string \<times> 'a setter) list \<Rightarrow> ('s \<Rightarrow> 'a) \<Rightarrow> (('a \<Rightarrow> 'a) \<Rightarrow> 's \<Rightarrow> 's) \<Rightarrow> 's setter" where
  "struct_field fs get upd j s = bind_res (decode_into fs j (get s)) (\<lambda>a. Inr (upd (\<lambda>_. a) s))"

definition dec_elem_struct :: "(string \<times> 'a setter) list \<Rightarrow> 'a \<Rightarrow> json \<Rightarrow> unit + 'a" where
  "dec_elem_struct fs zero j = decode_into fs j zero"

section \<open>The settings file\<close>

record settings_file =
  sf_Model :: string
  sf_EffortLevel :: "string option"
  sf_FastMode :: "bool option"
  sf_Theme :: string
  sf_EditorMode :: string
  sf_Provider :: string
  sf_SessionDBPath :: string
  sf_Env :: "json entries"
  sf_AllowManagedHooksOnly :: "bool option"
  sf_AllowedHttpHookUrls :: "string list option"
  sf_HttpHookAllowedEnvVars :: "string list option"
  sf_EnabledPlugins :: "json entries"
  sf_ExtraKnownMarketplaces :: "json entries entries"
  sf_StrictKnownMarketplaces :: "string list"
  sf_BlockedMarketplaces :: "string list"
  sf_StatusLine :: status_line
  sf_ForceLoginMethod :: string
  sf_ForceLoginOrgUUID :: string
  sf_OtelHeadersHelper :: string
  sf_OutputStyle :: string
  sf_Language :: string
  sf_SkipWebFetchPreflight :: "bool option"
  sf_Sandbox :: "json entries"
  sf_Agent :: string
  sf_CompanyAnnouncements :: "string list"
  sf_PluginConfigs :: "json entries entries"
  sf_Remote :: string
  sf_AutoUpdatesChannel :: string
  sf_MinimumVersion :: string
  sf_PlansDirectory :: string
  sf_ChannelsEnabled :: "bool option"
  sf_AllowedChannelPlugins :: "(string \<times> string) list"
  sf_SSHConfigs :: "ssh_config list"
  sf_ClaudeMdExcludes :: "string list"
  sf_PluginTrustMessage :: string
  sf_OAuthAccount :: oauth_account
  sf_Permissions :: permission_config
  sf_Hooks :: "json entries"
  sf_DisableAllHooks :: bool

definition status_fields :: "(string \<times> status_line setter) list" where
  "status_fields = [(''type'', str_field sl_Type_update), (''command'', str_field sl_Command_update),
     (''padding'', ptr_field json_num sl_Padding_update)]"

definition oauth_fields :: "(string \<times> oauth_account setter) list" where
  "oauth_fields = [(''accountUuid'', str_field oa_AccountUUID_update), (''emailAddress'', str_field oa_EmailAddress_update),
     (''organizationUuid'', str_field oa_OrganizationUUID_update), (''organizationName'', str_field oa_OrganizationName_update)]"

definition permission_fields :: "(string \<times> permission_config setter) list" where
  "permission_fields = [(''defaultMode'', str_field pc_DefaultMode_update),
     (''allow'', slice_field dec_str_elem pc_Allow_update), (''deny'', slice_field dec_str_elem pc_Deny_update),
     (''ask'', slice_field dec_str_elem pc_Ask_update),
     (''additionalDirectories'', slice_field dec_str_elem pc_AdditionalDirectories_update),
     (''disableBypassPermissionsMode'', str_field pc_DisableBypassPermissionsMode_update)]"

definition remote_fields :: "(string \<times> string setter) list" where
  "remote_fields = [(''defaultEnvironmentId'', str_field id)]"

definition channel_fields :: "(string \<times> (string \<times> string) setter) list" where
  "channel_fields = [(''marketplace'', str_field apfst), (''plugin'', str_field apsnd)]"

definition ssh_fields :: "(string \<times> ssh_config setter) list" where
  "ssh_fields = [(''id'', str_field sc_ID_update), (''name'', str_field sc_Name_update), (''sshHost'', str_field sc_SSHHost_update),
     (''sshPort'', int_field sc_SSHPort_update), (''sshIdentityFile'', str_field sc_SSHIdentityFile_update),
     (''startDirectory'', str_field sc_StartDirectory_update)]"

definition no_ssh :: ssh_config where
  "no_ssh = \<lparr>sc_ID = '''', sc_Name = '''', sc_SSHHost = '''', sc_SSHPort = 0, sc_SSHIdentityFile = '''', sc_StartDirectory = ''''\<rparr>"

definition settings_fields :: "(string \<times> settings_file setter) list" where
  "settings_fields =
    [(''model'', str_field sf_Model_update),
     (''effortLevel'', ptr_field json_str sf_EffortLevel_update),
     (''fastMode'', ptr_field json_bool sf_FastMode_update),
     (''theme'', str_field sf_Theme_update),
     (''editorMode'', str_field sf_EditorMode_update),
     (''provider'', str_field sf_Provider_update),
     (''sessionDbPath'', str_field sf_SessionDBPath_update),
     (''env'', map_field Inr sf_Env sf_Env_update),
     (''allowManagedHooksOnly'', ptr_field json_bool sf_AllowManagedHooksOnly_update),
     (''allowedHttpHookUrls'', opt_slice_field dec_str_elem sf_AllowedHttpHookUrls_update),
     (''httpHookAllowedEnvVars'', opt_slice_field dec_str_elem sf_HttpHookAllowedEnvVars_update),
     (''enabledPlugins'', map_field Inr sf_EnabledPlugins sf_EnabledPlugins_update),
     (''extraKnownMarketplaces'', map_field any_map sf_ExtraKnownMarketplaces sf_ExtraKnownMarketplaces_update),
     (''strictKnownMarketplaces'', slice_field dec_str_elem sf_StrictKnownMarketplaces_update),
     (''blockedMarketplaces'', slice_field dec_str_elem sf_BlockedMarketplaces_update),
     (''statusLine'', struct_field status_fields sf_StatusLine sf_StatusLine_update),
     (''forceLoginMethod'', str_field sf_ForceLoginMethod_update),
     (''forceLoginOrgUUID'', str_field sf_ForceLoginOrgUUID_update),
     (''otelHeadersHelper'', str_field sf_OtelHeadersHelper_update),
     (''outputStyle'', str_field sf_OutputStyle_update),
     (''language'', str_field sf_Language_update),
     (''skipWebFetchPreflight'', ptr_field json_bool sf_SkipWebFetchPreflight_update),
     (''sandbox'', map_field Inr sf_Sandbox sf_Sandbox_update),
     (''agent'', str_field sf_Agent_update),
     (''companyAnnouncements'', slice_field dec_str_elem sf_CompanyAnnouncements_update),
     (''pluginConfigs'', map_field any_map sf_PluginConfigs sf_PluginConfigs_update),
     (''remote'', struct_field remote_fields sf_Remote sf_Remote_update),
     (''autoUpdatesChannel'', str_field sf_AutoUpdatesChannel_update),
     (''minimumVersion'', str_field sf_MinimumVersion_update),
     (''plansDirectory'', str_field sf_PlansDirectory_update),
     (''channelsEnabled'', ptr_field json_bool sf_ChannelsEnabled_update),
     (''allowedChannelPlugins'', slice_field (dec_elem_struct channel_fields ('''', '''')) sf_AllowedChannelPlugins_update),
     (''sshConfigs'', slice_field (dec_elem_struct ssh_fields no_ssh) sf_SSHConfigs_update),
     (''claudeMdExcludes'', slice_field dec_str_elem sf_ClaudeMdExcludes_update),
     (''pluginTrustMessage'', str_field sf_PluginTrustMessage_update),
     (''oauthAccount'', struct_field oauth_fields sf_OAuthAccount sf_OAuthAccount_update),
     (''permissions'', struct_field permission_fields sf_Permissions sf_Permissions_update),
     (''hooks'', map_field Inr sf_Hooks sf_Hooks_update),
     (''disableAllHooks'', bool_field sf_DisableAllHooks_update)]"

section \<open>From the file to the configuration\<close>

datatype setting_source = UserSettings | ProjectSettings | LocalSettings | FlagSettings | PolicySettings

fun source_id :: "setting_source \<Rightarrow> string" where
  "source_id UserSettings = ''userSettings''"
| "source_id ProjectSettings = ''projectSettings''"
| "source_id LocalSettings = ''localSettings''"
| "source_id FlagSettings = ''flagSettings''"
| "source_id PolicySettings = ''policySettings''"

definition additionalDirectorySourceFromSettingSource :: "setting_source \<Rightarrow> string" where
  "additionalDirectorySourceFromSettingSource s = (if s = FlagSettings then '''' else source_id s)"

text \<open>\<open>strconv.FormatFloat(v, 'f', -1, 64)\<close> of a number in its shortest form.\<close>

definition plain_float :: "string \<Rightarrow> string" where
  "plain_float s =
    (if CHR ''e'' \<notin> set s then s
     else
       let neg = has_prefix s ''-''; m = trim_prefix (takeWhile (\<lambda>c. c \<noteq> CHR ''e'') s) ''-'';
           x = drop 1 (dropWhile (\<lambda>c. c \<noteq> CHR ''e'') s);
           whole = takeWhile (\<lambda>c. c \<noteq> CHR ''.'') m; frac = drop 1 (dropWhile (\<lambda>c. c \<noteq> CHR ''.'') m);
           digits = whole @ frac;
           k = int (length whole) + (case atoi (trim_prefix x ''+'') of None \<Rightarrow> 0 | Some e \<Rightarrow> e)
       in (if neg then ''-'' else '''') @
          (if k \<le> 0 then ''0.'' @ replicate (nat (- k)) (CHR ''0'') @ digits
           else if nat k \<ge> length digits then digits @ replicate (nat k - length digits) (CHR ''0'')
           else take (nat k) digits @ ''.'' @ drop (nat k) digits))"

definition coerceSettingsEnvValue :: "json \<Rightarrow> string" where
  "coerceSettingsEnvValue j = (case j of
     JNull \<Rightarrow> ''null'' | JStr s \<Rightarrow> s | JBool b \<Rightarrow> (if b then ''true'' else ''false'') | JNum s \<Rightarrow> plain_float s
   | _ \<Rightarrow> json_marshal j)"

definition coerceSettingsEnvMap :: "json entries \<Rightarrow> string entries" where
  "coerceSettingsEnvMap raw =
    fold (\<lambda>kv m. if trim_space (fst kv) = '''' then m else overlay m [(trim_space (fst kv), coerceSettingsEnvValue (snd kv))]) raw []"

definition hook_events :: "string list" where
  "hook_events = [''PreToolUse'', ''PostToolUse'', ''PostToolUseFailure'', ''Notification'', ''UserPromptSubmit'', ''SessionStart'',
     ''SessionEnd'', ''Stop'', ''StopFailure'', ''SubagentStart'', ''SubagentStop'', ''PreCompact'', ''PostCompact'',
     ''PermissionRequest'', ''PermissionDenied'', ''Setup'', ''TeammateIdle'', ''TaskCreated'', ''TaskCompleted'',
     ''Elicitation'', ''ElicitationResult'', ''ConfigChange'', ''WorktreeCreate'', ''WorktreeRemove'', ''InstructionsLoaded'',
     ''CwdChanged'', ''FileChanged'']"

definition matcher_fields :: "(string \<times> hook_matcher setter) list" where
  "matcher_fields = [(''matcher'', str_field hm_Matcher_update), (''hooks'', slice_field Inr hm_Hooks_update)]"

definition dec_matchers :: "json \<Rightarrow> unit + hook_matcher list" where
  "dec_matchers j = bind_res (dec_slice (dec_elem_struct matcher_fields \<lparr>hm_Matcher = '''', hm_Hooks = []\<rparr>) j) (\<lambda>r. Inr (some_list r))"

text \<open>Outside functions: files and directories (an error says whether the name does not exist), JSON, the
  complaint of the decoder about a value, the environment.\<close>

record settings_os =
  so_ReadFile :: "string \<Rightarrow> bool \<times> string + string"
  so_ReadDir :: "string \<Rightarrow> bool \<times> string + (string \<times> bool) list"
  so_json :: "string \<Rightarrow> string + json"
  so_type_error :: "json \<Rightarrow> string"
  so_Getenv :: "string \<Rightarrow> string"

definition ParseHooksConfig :: "settings_os \<Rightarrow> json entries \<Rightarrow> string + hooks_config" where
  "ParseHooksConfig S raw =
    fold_res (\<lambda>cfg kv.
      if fst kv \<notin> set hook_events then Inr cfg
      else case dec_matchers (snd kv) of
        Inl _ \<Rightarrow> Inl (''parse hooks for event '' @ fst kv @ '': '' @ so_type_error S (snd kv))
      | Inr ms \<Rightarrow> Inr (overlay cfg [(fst kv, ms)])) [] raw"

definition readThemeSetting :: "string \<Rightarrow> string" where
  "readThemeSetting v = (if trim_space v = '''' then '''' else NormalizeThemeSetting v)"

definition readEditorMode :: "string \<Rightarrow> string" where
  "readEditorMode v = (if trim_space v = '''' then '''' else NormalizeEditorMode v)"

definition readProvider :: "string \<Rightarrow> string" where
  "readProvider v = (if trim_space v = '''' then '''' else NormalizeProvider v)"

definition readEffortLevel :: "string option \<Rightarrow> string" where
  "readEffortLevel v = (case v of None \<Rightarrow> '''' | Some s \<Rightarrow> NormalizeEffortLevel s)"

definition no_settings :: settings_file where
  "no_settings = \<lparr>sf_Model = '''', sf_EffortLevel = None, sf_FastMode = None, sf_Theme = '''', sf_EditorMode = '''',
     sf_Provider = '''', sf_SessionDBPath = '''', sf_Env = [], sf_AllowManagedHooksOnly = None, sf_AllowedHttpHookUrls = None,
     sf_HttpHookAllowedEnvVars = None, sf_EnabledPlugins = [], sf_ExtraKnownMarketplaces = [], sf_StrictKnownMarketplaces = [],
     sf_BlockedMarketplaces = [], sf_StatusLine = \<lparr>sl_Type = '''', sl_Command = '''', sl_Padding = None\<rparr>,
     sf_ForceLoginMethod = '''', sf_ForceLoginOrgUUID = '''', sf_OtelHeadersHelper = '''', sf_OutputStyle = '''', sf_Language = '''',
     sf_SkipWebFetchPreflight = None, sf_Sandbox = [], sf_Agent = '''', sf_CompanyAnnouncements = [], sf_PluginConfigs = [],
     sf_Remote = '''', sf_AutoUpdatesChannel = '''', sf_MinimumVersion = '''', sf_PlansDirectory = '''', sf_ChannelsEnabled = None,
     sf_AllowedChannelPlugins = [], sf_SSHConfigs = [], sf_ClaudeMdExcludes = [], sf_PluginTrustMessage = '''',
     sf_OAuthAccount = \<lparr>oa_AccountUUID = '''', oa_EmailAddress = '''', oa_OrganizationUUID = '''', oa_OrganizationName = ''''\<rparr>,
     sf_Permissions = no_permissions, sf_Hooks = [], sf_DisableAllHooks = False\<rparr>"

definition trim_ssh :: "ssh_config \<Rightarrow> ssh_config" where
  "trim_ssh c = \<lparr>sc_ID = trim_space (sc_ID c), sc_Name = trim_space (sc_Name c), sc_SSHHost = trim_space (sc_SSHHost c),
     sc_SSHPort = sc_SSHPort c, sc_SSHIdentityFile = trim_space (sc_SSHIdentityFile c),
     sc_StartDirectory = trim_space (sc_StartDirectory c)\<rparr>"

definition trim_account :: "oauth_account \<Rightarrow> oauth_account" where
  "trim_account a = \<lparr>oa_AccountUUID = trim_space (oa_AccountUUID a), oa_EmailAddress = trim_space (oa_EmailAddress a),
     oa_OrganizationUUID = trim_space (oa_OrganizationUUID a), oa_OrganizationName = trim_space (oa_OrganizationName a)\<rparr>"

definition settings_config :: "settings_file \<Rightarrow> hooks_config \<Rightarrow> setting_source \<Rightarrow> config" where
  "settings_config p hooks source = no_config\<lparr>
     c_Env := coerceSettingsEnvMap (sf_Env p),
     c_Model := sf_Model p,
     c_EffortLevel := readEffortLevel (sf_EffortLevel p), c_HasEffortLevelSetting := sf_EffortLevel p \<noteq> None,
     c_FastMode := (sf_FastMode p = Some True), c_HasFastModeSetting := sf_FastMode p \<noteq> None,
     c_Theme := readThemeSetting (sf_Theme p),
     c_EditorMode := readEditorMode (sf_EditorMode p),
     c_Provider := readProvider (sf_Provider p),
     c_ApprovalMode := pc_DefaultMode (sf_Permissions p),
     c_SessionDBPath := sf_SessionDBPath p,
     c_OAuthAccount := trim_account (sf_OAuthAccount p),
     c_Permissions := (sf_Permissions p)\<lparr>pc_AdditionalDirectoryEntries := NewAdditionalDirectoryConfigs
        (pc_AdditionalDirectories (sf_Permissions p)) (additionalDirectorySourceFromSettingSource source)\<rparr>,
     c_Hooks := hooks,
     c_AllowManagedHooksOnly := (sf_AllowManagedHooksOnly p = Some True),
     c_HasAllowManagedHooksOnlySetting := sf_AllowManagedHooksOnly p \<noteq> None,
     c_AllowedHttpHookUrls := some_list (sf_AllowedHttpHookUrls p),
     c_HasAllowedHttpHookUrls := sf_AllowedHttpHookUrls p \<noteq> None,
     c_HttpHookAllowedEnvVars := some_list (sf_HttpHookAllowedEnvVars p),
     c_HasHttpHookAllowedEnvVars := sf_HttpHookAllowedEnvVars p \<noteq> None,
     c_EnabledPlugins := sf_EnabledPlugins p,
     c_StatusLine := (sf_StatusLine p)\<lparr>sl_Type := trim_space (sl_Type (sf_StatusLine p)),
        sl_Command := trim_space (sl_Command (sf_StatusLine p))\<rparr>,
     c_ExtraKnownMarketplaces := sf_ExtraKnownMarketplaces p,
     c_StrictKnownMarketplaces := sf_StrictKnownMarketplaces p,
     c_BlockedMarketplaces := sf_BlockedMarketplaces p,
     c_ForceLoginMethod := trim_space (sf_ForceLoginMethod p),
     c_ForceLoginOrgUUID := trim_space (sf_ForceLoginOrgUUID p),
     c_OtelHeadersHelper := trim_space (sf_OtelHeadersHelper p),
     c_OutputStyle := trim_space (sf_OutputStyle p),
     c_Language := trim_space (sf_Language p),
     c_SkipWebFetchPreflight := (sf_SkipWebFetchPreflight p = Some True),
     c_Sandbox := sf_Sandbox p,
     c_Agent := trim_space (sf_Agent p),
     c_CompanyAnnouncements := sf_CompanyAnnouncements p,
     c_PluginConfigs := sf_PluginConfigs p,
     c_Remote := trim_space (sf_Remote p),
     c_AutoUpdatesChannel := trim_space (sf_AutoUpdatesChannel p),
     c_MinimumVersion := trim_space (sf_MinimumVersion p),
     c_PlansDirectory := trim_space (sf_PlansDirectory p),
     c_ChannelsEnabled := (sf_ChannelsEnabled p = Some True), c_HasChannelsEnabledSetting := sf_ChannelsEnabled p \<noteq> None,
     c_AllowedChannelPlugins := map (\<lambda>e. (trim_space (fst e), trim_space (snd e))) (sf_AllowedChannelPlugins p),
     c_SSHConfigs := map trim_ssh (sf_SSHConfigs p),
     c_ClaudeMdExcludes := sf_ClaudeMdExcludes p,
     c_PluginTrustMessage := trim_space (sf_PluginTrustMessage p),
     c_DisableAllHooks := sf_DisableAllHooks p\<rparr>"

definition parseSettingsConfig :: "settings_os \<Rightarrow> string \<Rightarrow> string \<Rightarrow> setting_source \<Rightarrow> string + config" where
  "parseSettingsConfig S data source settingSource =
    (let parse_error = (\<lambda>e. Inl (''parse settings file '' @ source @ '': '' @ e)) in
     case so_json S data of
       Inl e \<Rightarrow> parse_error e
     | Inr j \<Rightarrow>
        (case decode_into settings_fields j no_settings of
           Inl _ \<Rightarrow> parse_error (so_type_error S j)
         | Inr p \<Rightarrow>
            (case ParseHooksConfig S (sf_Hooks p) of
               Inl e \<Rightarrow> Inl (''parse hooks config in '' @ source @ '': '' @ e)
             | Inr hooks \<Rightarrow> Inr (settings_config p hooks settingSource))))"

section \<open>Sources\<close>

definition DefaultSettingSources :: "setting_source list" where
  "DefaultSettingSources = [UserSettings, ProjectSettings, LocalSettings]"

definition parse_source :: "string \<Rightarrow> string + setting_source" where
  "parse_source part =
    (if trim_space part = ''user'' then Inr UserSettings
     else if trim_space part = ''project'' then Inr ProjectSettings
     else if trim_space part = ''local'' then Inr LocalSettings
     else Inl (''invalid setting source: '' @ trim_space part @ ''. valid options are: user, project, local''))"

definition ParseSettingSourcesFlag :: "string \<Rightarrow> string + setting_source list" where
  "ParseSettingSourcesFlag flag =
    (if flag = '''' then Inr []
     else fold_res (\<lambda>acc part. bind_res (parse_source part) (\<lambda>s. Inr (acc @ [s]))) [] (split_char (CHR '','') flag))"

fun format_source :: "setting_source \<Rightarrow> string list" where
  "format_source UserSettings = [''user'']"
| "format_source ProjectSettings = [''project'']"
| "format_source LocalSettings = [''local'']"
| "format_source s = []"

definition FormatSettingSourcesFlag :: "setting_source list \<Rightarrow> string" where
  "FormatSettingSourcesFlag sources = join_str '','' (concat (map format_source sources))"

section \<open>The environment from settings\<close>

definition runtimeSafeEnvVars :: "string list" where
  "runtimeSafeEnvVars =
    [''ANTHROPIC_CUSTOM_HEADERS'', ''ANTHROPIC_CUSTOM_MODEL_OPTION'', ''ANTHROPIC_CUSTOM_MODEL_OPTION_DESCRIPTION'',
     ''ANTHROPIC_CUSTOM_MODEL_OPTION_NAME'', ''ANTHROPIC_DEFAULT_HAIKU_MODEL'',
     ''ANTHROPIC_DEFAULT_HAIKU_MODEL_DESCRIPTION'', ''ANTHROPIC_DEFAULT_HAIKU_MODEL_NAME'',
     ''ANTHROPIC_DEFAULT_HAIKU_MODEL_SUPPORTED_CAPABILITIES'', ''ANTHROPIC_DEFAULT_OPUS_MODEL'',
     ''ANTHROPIC_DEFAULT_OPUS_MODEL_DESCRIPTION'', ''ANTHROPIC_DEFAULT_OPUS_MODEL_NAME'',
     ''ANTHROPIC_DEFAULT_OPUS_MODEL_SUPPORTED_CAPABILITIES'', ''ANTHROPIC_DEFAULT_SONNET_MODEL'',
     ''ANTHROPIC_DEFAULT_SONNET_MODEL_DESCRIPTION'', ''ANTHROPIC_DEFAULT_SONNET_MODEL_NAME'',
     ''ANTHROPIC_DEFAULT_SONNET_MODEL_SUPPORTED_CAPABILITIES'', ''ANTHROPIC_FOUNDRY_API_KEY'', ''ANTHROPIC_MODEL'',
     ''ANTHROPIC_SMALL_FAST_MODEL'', ''ANTHROPIC_SMALL_FAST_MODEL_AWS_REGION'', ''AWS_DEFAULT_REGION'',
     ''AWS_PROFILE'', ''AWS_REGION'', ''BASH_DEFAULT_TIMEOUT_MS'', ''BASH_MAX_OUTPUT_LENGTH'',
     ''BASH_MAX_TIMEOUT_MS'', ''CLAUDE_BASH_MAINTAIN_PROJECT_WORKING_DIR'', ''CLAUDE_CODE_API_KEY_HELPER_TTL_MS'',
     ''CLAUDE_CODE_DISABLE_EXPERIMENTAL_BETAS'', ''CLAUDE_CODE_DISABLE_NONESSENTIAL_TRAFFIC'',
     ''CLAUDE_CODE_DISABLE_TERMINAL_TITLE'', ''CLAUDE_CODE_ENABLE_TELEMETRY'',
     ''CLAUDE_CODE_EXPERIMENTAL_AGENT_TEAMS'', ''CLAUDE_CODE_IDE_SKIP_AUTO_INSTALL'',
     ''CLAUDE_CODE_MAX_OUTPUT_TOKENS'', ''CLAUDE_CODE_SKIP_BEDROCK_AUTH'', ''CLAUDE_CODE_SKIP_FOUNDRY_AUTH'',
     ''CLAUDE_CODE_SKIP_VERTEX_AUTH'', ''CLAUDE_CODE_SUBAGENT_MODEL'', ''CLAUDE_CODE_USE_BEDROCK'',
     ''CLAUDE_CODE_USE_FOUNDRY'', ''CLAUDE_CODE_USE_VERTEX'', ''DISABLE_AUTOUPDATER'', ''DISABLE_BUG_COMMAND'',
     ''DISABLE_COST_WARNINGS'', ''DISABLE_ERROR_REPORTING'', ''DISABLE_FEEDBACK_COMMAND'', ''DISABLE_TELEMETRY'',
     ''ENABLE_TOOL_SEARCH'', ''MAX_MCP_OUTPUT_TOKENS'', ''MAX_THINKING_TOKENS'', ''MCP_TIMEOUT'',
     ''MCP_TOOL_TIMEOUT'', ''OTEL_EXPORTER_OTLP_HEADERS'', ''OTEL_EXPORTER_OTLP_LOGS_HEADERS'',
     ''OTEL_EXPORTER_OTLP_LOGS_PROTOCOL'', ''OTEL_EXPORTER_OTLP_METRICS_CLIENT_CERTIFICATE'',
     ''OTEL_EXPORTER_OTLP_METRICS_CLIENT_KEY'', ''OTEL_EXPORTER_OTLP_METRICS_HEADERS'',
     ''OTEL_EXPORTER_OTLP_METRICS_PROTOCOL'', ''OTEL_EXPORTER_OTLP_PROTOCOL'',
     ''OTEL_EXPORTER_OTLP_TRACES_HEADERS'', ''OTEL_LOG_TOOL_DETAILS'', ''OTEL_LOG_USER_PROMPTS'',
     ''OTEL_LOGS_EXPORT_INTERVAL'', ''OTEL_LOGS_EXPORTER'', ''OTEL_METRIC_EXPORT_INTERVAL'',
     ''OTEL_METRICS_EXPORTER'', ''OTEL_METRICS_INCLUDE_ACCOUNT_UUID'', ''OTEL_METRICS_INCLUDE_SESSION_ID'',
     ''OTEL_METRICS_INCLUDE_VERSION'', ''OTEL_RESOURCE_ATTRIBUTES'', ''USE_BUILTIN_RIPGREP'',
     ''VERTEX_REGION_CLAUDE_3_5_HAIKU'', ''VERTEX_REGION_CLAUDE_3_5_SONNET'', ''VERTEX_REGION_CLAUDE_3_7_SONNET'',
     ''VERTEX_REGION_CLAUDE_4_0_OPUS'', ''VERTEX_REGION_CLAUDE_4_0_SONNET'', ''VERTEX_REGION_CLAUDE_4_1_OPUS'',
     ''VERTEX_REGION_CLAUDE_4_5_SONNET'', ''VERTEX_REGION_CLAUDE_4_6_SONNET'', ''VERTEX_REGION_CLAUDE_HAIKU_4_5'']"

definition runtimeProviderManagedEnvVars :: "string list" where
  "runtimeProviderManagedEnvVars =
    [''ANTHROPIC_API_KEY'', ''ANTHROPIC_AUTH_TOKEN'', ''ANTHROPIC_BASE_URL'', ''ANTHROPIC_BEDROCK_BASE_URL'',
     ''ANTHROPIC_DEFAULT_HAIKU_MODEL'', ''ANTHROPIC_DEFAULT_OPUS_MODEL'', ''ANTHROPIC_DEFAULT_SONNET_MODEL'',
     ''ANTHROPIC_FOUNDRY_API_KEY'', ''ANTHROPIC_FOUNDRY_BASE_URL'', ''ANTHROPIC_FOUNDRY_RESOURCE'',
     ''ANTHROPIC_MODEL'', ''ANTHROPIC_SMALL_FAST_MODEL'', ''ANTHROPIC_SMALL_FAST_MODEL_AWS_REGION'',
     ''ANTHROPIC_VERTEX_BASE_URL'', ''ANTHROPIC_VERTEX_PROJECT_ID'', ''AWS_BEARER_TOKEN_BEDROCK'',
     ''CLAUDE_CODE_API_BASE_URL'', ''CLAUDE_CODE_API_KEY'', ''CLAUDE_CODE_AUTH_TOKEN'', ''CLAUDE_CODE_MODEL'',
     ''CLAUDE_CODE_OAUTH_TOKEN'', ''CLAUDE_CODE_PROVIDER'', ''CLAUDE_CODE_PROVIDER_MANAGED_BY_HOST'',
     ''CLAUDE_CODE_SKIP_BEDROCK_AUTH'', ''CLAUDE_CODE_SKIP_FOUNDRY_AUTH'', ''CLAUDE_CODE_SKIP_VERTEX_AUTH'',
     ''CLAUDE_CODE_SUBAGENT_MODEL'', ''CLAUDE_CODE_USE_BEDROCK'', ''CLAUDE_CODE_USE_FOUNDRY'',
     ''CLAUDE_CODE_USE_VERTEX'', ''CLOUD_ML_REGION'', ''GLM_API_KEY'', ''GLM_BASE_URL'', ''OPENAI_API_KEY'',
     ''OPENAI_BASE_URL'', ''ZHIPUAI_API_KEY'', ''ZHIPUAI_BASE_URL'']"

definition runtimeProviderManagedPrefixes :: "string list" where
  "runtimeProviderManagedPrefixes = [''VERTEX_REGION_CLAUDE_'']"

definition upper_char :: "char \<Rightarrow> char" where
  "upper_char c = (if 97 \<le> (of_char c :: nat) \<and> (of_char c :: nat) \<le> 122 then char_of ((of_char c :: nat) - 32) else c)"

definition to_upper :: "string \<Rightarrow> string" where
  "to_upper s = map upper_char s"

definition isSafeRuntimeEnvVar :: "string \<Rightarrow> bool" where
  "isSafeRuntimeEnvVar key \<longleftrightarrow> to_upper (trim_space key) \<in> set runtimeSafeEnvVars"

definition isProviderManagedRuntimeEnvVar :: "string \<Rightarrow> bool" where
  "isProviderManagedRuntimeEnvVar key \<longleftrightarrow>
    (let upper = to_upper (trim_space key) in
     upper \<in> set runtimeProviderManagedEnvVars \<or> list_ex (has_prefix upper) runtimeProviderManagedPrefixes)"

definition mergeRuntimeEnvLayer :: "string entries \<Rightarrow> string entries \<Rightarrow> bool \<Rightarrow> bool \<Rightarrow> string entries" where
  "mergeRuntimeEnvLayer dst layer hostManagedProvider safeOnly =
    overlay dst (filter (\<lambda>kv. \<not> (hostManagedProvider \<and> isProviderManagedRuntimeEnvVar (fst kv))
       \<and> \<not> (safeOnly \<and> \<not> isSafeRuntimeEnvVar (fst kv))) layer)"

definition buildRuntimeSettingsEnv :: "(setting_source \<Rightarrow> string entries) \<Rightarrow> bool \<Rightarrow> bool \<Rightarrow> string entries" where
  "buildRuntimeSettingsEnv sourceEnvs hostManagedProvider trustAccepted =
    fold (\<lambda>source merged. mergeRuntimeEnvLayer merged (sourceEnvs source) hostManagedProvider
        ((source = ProjectSettings \<or> source = LocalSettings) \<and> \<not> trustAccepted))
      [UserSettings, ProjectSettings, LocalSettings, PolicySettings, FlagSettings] []"

definition isTruthySettingEnv :: "string \<Rightarrow> bool" where
  "isTruthySettingEnv value \<longleftrightarrow> to_lower (trim_space value) \<in> {''1'', ''true'', ''yes'', ''on''}"

section \<open>The loader\<close>

record loader =
  fl_CWD :: string
  fl_HomeDir :: string
  fl_ManagedSettingsDir :: string
  fl_ManagedAdminSettingsPath :: string
  fl_ManagedUserSettingsPath :: string
  fl_LookupEnv :: "string \<Rightarrow> string"
  fl_FlagSettingsValue :: string
  fl_AllowedSettingSources :: "setting_source list option"
  fl_TrustAccepted :: bool

definition allowedSettingSources :: "loader \<Rightarrow> setting_source list" where
  "allowedSettingSources l = (case fl_AllowedSettingSources l of None \<Rightarrow> DefaultSettingSources | Some s \<Rightarrow> s)"

definition candidate :: "loader \<Rightarrow> setting_source \<Rightarrow> (setting_source \<times> string) list" where
  "candidate l source = (case source of
     UserSettings \<Rightarrow> if fl_HomeDir l \<noteq> '''' then [(source, path_Join (fl_HomeDir l) ''.claude/settings.json'')] else []
   | ProjectSettings \<Rightarrow> if fl_CWD l \<noteq> '''' then [(source, path_Join (fl_CWD l) ''.claude/settings.json'')] else []
   | LocalSettings \<Rightarrow> if fl_CWD l \<noteq> '''' then [(source, path_Join (fl_CWD l) ''.claude/settings.local.json'')] else []
   | _ \<Rightarrow> [])"

definition settingsPathCandidates :: "loader \<Rightarrow> (setting_source \<times> string) list" where
  "settingsPathCandidates l = concat (map (candidate l) (allowedSettingSources l))"

definition read_error :: "string \<Rightarrow> string \<Rightarrow> string + 'a" where
  "read_error path e = Inl (''read settings file '' @ path @ '': '' @ e)"

text \<open>A layer and whether there is one.\<close>

definition loadSettingsFile :: "settings_os \<Rightarrow> setting_source \<times> string \<Rightarrow> string + config \<times> bool" where
  "loadSettingsFile S cand =
    (case so_ReadFile S (snd cand) of
       Inl (True, e) \<Rightarrow> Inr (no_config, False)
     | Inl (False, e) \<Rightarrow> read_error (snd cand) e
     | Inr data \<Rightarrow> bind_res (parseSettingsConfig S data (snd cand) (fst cand)) (\<lambda>c. Inr (c, True)))"

definition loadFlagSettings :: "settings_os \<Rightarrow> loader \<Rightarrow> string \<Rightarrow> string + config" where
  "loadFlagSettings S l value =
    (let t = trim_space value in
     if t = '''' then Inl ''parse --settings: empty value''
     else if has_prefix t [CHR 0x7B] \<and> has_suffix t [CHR 0x7D]
     then parseSettingsConfig S t ''--settings inline JSON'' FlagSettings
     else let path = path_Clean (if is_abs t then t else path_Join (fl_CWD l) t) in
       case so_ReadFile S path of
         Inl (_, e) \<Rightarrow> read_error path e
       | Inr data \<Rightarrow> parseSettingsConfig S data path FlagSettings)"

text \<open>\<open>managed_settings.go\<close>\<close>

definition hasLoadedSettingsValues :: "config \<Rightarrow> bool" where
  "hasLoadedSettingsValues c \<longleftrightarrow>
    c_Model c \<noteq> '''' \<or> c_HasEffortLevelSetting c \<or> c_HasFastModeSetting c \<or> c_Theme c \<noteq> '''' \<or> c_EditorMode c \<noteq> '''' \<or>
    c_Provider c \<noteq> '''' \<or> c_ApprovalMode c \<noteq> '''' \<or> c_SessionDBPath c \<noteq> '''' \<or> c_Env c \<noteq> [] \<or>
    oa_AccountUUID (c_OAuthAccount c) \<noteq> '''' \<or> oa_EmailAddress (c_OAuthAccount c) \<noteq> '''' \<or>
    oa_OrganizationUUID (c_OAuthAccount c) \<noteq> '''' \<or> oa_OrganizationName (c_OAuthAccount c) \<noteq> '''' \<or>
    c_HasAllowManagedHooksOnlySetting c \<or> c_HasAllowedHttpHookUrls c \<or> c_HasHttpHookAllowedEnvVars c \<or>
    c_EnabledPlugins c \<noteq> [] \<or> has_status_line (c_StatusLine c) \<or> c_ExtraKnownMarketplaces c \<noteq> [] \<or>
    c_StrictKnownMarketplaces c \<noteq> [] \<or> c_BlockedMarketplaces c \<noteq> [] \<or> c_ForceLoginMethod c \<noteq> '''' \<or>
    c_ForceLoginOrgUUID c \<noteq> '''' \<or> c_OtelHeadersHelper c \<noteq> '''' \<or> c_OutputStyle c \<noteq> '''' \<or> c_Language c \<noteq> '''' \<or>
    c_SkipWebFetchPreflight c \<or> c_Sandbox c \<noteq> [] \<or> c_Agent c \<noteq> '''' \<or> c_CompanyAnnouncements c \<noteq> [] \<or>
    c_PluginConfigs c \<noteq> [] \<or> c_Remote c \<noteq> '''' \<or> c_AutoUpdatesChannel c \<noteq> '''' \<or> c_MinimumVersion c \<noteq> '''' \<or>
    c_PlansDirectory c \<noteq> '''' \<or> c_ChannelsEnabled c \<or> c_AllowedChannelPlugins c \<noteq> [] \<or> c_SSHConfigs c \<noteq> [] \<or>
    c_ClaudeMdExcludes c \<noteq> [] \<or> c_PluginTrustMessage c \<noteq> '''' \<or>
    pc_Allow (c_Permissions c) \<noteq> [] \<or> pc_Deny (c_Permissions c) \<noteq> [] \<or> pc_Ask (c_Permissions c) \<noteq> [] \<or>
    pc_AdditionalDirectories (c_Permissions c) \<noteq> [] \<or> pc_AdditionalDirectoryEntries (c_Permissions c) \<noteq> [] \<or>
    pc_DisableBypassPermissionsMode (c_Permissions c) \<noteq> ''''"

text \<open>Also the body of \<open>loadRemoteManagedSettings\<close>.\<close>

definition loadManagedSettingsFile :: "settings_os \<Rightarrow> string \<Rightarrow> string + config \<times> bool" where
  "loadManagedSettingsFile S path =
    (case so_ReadFile S path of
       Inl (True, e) \<Rightarrow> Inr (no_config, False)
     | Inl (False, e) \<Rightarrow> read_error path e
     | Inr data \<Rightarrow> bind_res (parseSettingsConfig S data path PolicySettings) (\<lambda>c. Inr (c, hasLoadedSettingsValues c)))"

definition managedSettingsDir :: "loader \<Rightarrow> string" where
  "managedSettingsDir l =
    (if trim_space (fl_ManagedSettingsDir l) \<noteq> '''' then path_Clean (fl_ManagedSettingsDir l) else ''/etc/claude-code'')"

definition discoverManagedDropIns :: "settings_os \<Rightarrow> string \<Rightarrow> string + string list" where
  "discoverManagedDropIns S dir =
    (case so_ReadDir S dir of
       Inl (True, e) \<Rightarrow> Inr []
     | Inl (False, e) \<Rightarrow> Inl (''read managed settings directory '' @ dir @ '': '' @ e)
     | Inr es \<Rightarrow> Inr (sort (map fst (filter (\<lambda>(name, is_dir).
          \<not> is_dir \<and> \<not> has_prefix name ''.'' \<and> has_suffix name ''.json'') es))))"

definition merge_drop_in :: "settings_os \<Rightarrow> string \<Rightarrow> config \<Rightarrow> string \<Rightarrow> string + config" where
  "merge_drop_in S dir merged name =
    bind_res (loadManagedSettingsFile S (path_Join dir name)) (\<lambda>(c, loaded). Inr (if loaded then Merge merged c else merged))"

definition loadManagedSettings :: "settings_os \<Rightarrow> loader \<Rightarrow> string + config \<times> bool" where
  "loadManagedSettings S l =
    (let root = managedSettingsDir l; dropInDir = path_Join root ''managed-settings.d'' in
     bind_res (loadManagedSettingsFile S (path_Join root ''managed-settings.json'')) (\<lambda>(baseCfg, baseLoaded).
     bind_res (discoverManagedDropIns S dropInDir) (\<lambda>names.
     bind_res (fold_res (merge_drop_in S dropInDir) (if baseLoaded then Merge no_config baseCfg else no_config) names) (\<lambda>merged.
       if \<not> baseLoaded \<and> names = [] then Inr (no_config, False)
       else if \<not> hasLoadedSettingsValues merged then Inr (no_config, False)
       else Inr (merged\<lparr>c_PolicySettings := \<lparr>ps_Origin = ''file'', ps_HasBaseFile = baseLoaded, ps_HasDropIns = (names \<noteq> [])\<rparr>\<rparr>, True)))))"

definition override_file :: "settings_os \<Rightarrow> string \<Rightarrow> string + config \<times> bool" where
  "override_file S path = (if trim_space path \<noteq> '''' then loadManagedSettingsFile S (trim_space path) else Inr (no_config, False))"

definition from_origin :: "string \<Rightarrow> config \<Rightarrow> config" where
  "from_origin origin c = c\<lparr>c_PolicySettings := \<lparr>ps_Origin = origin, ps_HasBaseFile = False, ps_HasDropIns = False\<rparr>\<rparr>"

definition loadPolicySettings :: "settings_os \<Rightarrow> loader \<Rightarrow> string + config \<times> bool" where
  "loadPolicySettings S l =
    bind_res (loadManagedSettingsFile S (path_Join (fl_HomeDir l) ''.claude/remote-settings.json'')) (\<lambda>(remote, remoteLoaded).
    if remoteLoaded then Inr (from_origin ''remote'' remote, True)
    else bind_res (override_file S (fl_ManagedAdminSettingsPath l)) (\<lambda>(admin, adminLoaded).
    if adminLoaded then Inr (from_origin ''os_admin'' admin, True)
    else bind_res (loadManagedSettings S l) (\<lambda>(file, fileLoaded).
    if fileLoaded then Inr (file, True)
    else bind_res (override_file S (fl_ManagedUserSettingsPath l)) (\<lambda>(user, userLoaded).
    if userLoaded then Inr (from_origin ''os_user'' user, True)
    else Inr (no_config, False)))))"

section \<open>Load\<close>

definition set_origin :: "bool \<Rightarrow> string \<Rightarrow> setting_source \<Rightarrow> string entries \<Rightarrow> string entries" where
  "set_origin b field source m = (if b then overlay m [(field, source_id source)] else m)"

definition collectSettingOrigins :: "string entries \<Rightarrow> config \<Rightarrow> setting_source \<Rightarrow> string entries" where
  "collectSettingOrigins origins c source =
    fold (\<lambda>(b, field) m. set_origin b field source m)
      [(trim_space (c_Model c) \<noteq> '''', ''model''), (c_HasEffortLevelSetting c, ''effortLevel''), (c_HasFastModeSetting c, ''fastMode''),
       (trim_space (c_Theme c) \<noteq> '''', ''theme''), (trim_space (c_EditorMode c) \<noteq> '''', ''editorMode''),
       (trim_space (c_Provider c) \<noteq> '''', ''provider''), (trim_space (c_ApprovalMode c) \<noteq> '''', ''approvalMode''),
       (trim_space (c_SessionDBPath c) \<noteq> '''', ''sessionDbPath''),
       (pc_AdditionalDirectoryEntries (c_Permissions c) \<noteq> [] \<or> pc_AdditionalDirectories (c_Permissions c) \<noteq> [],
        ''permissions.additionalDirectories''),
       (c_Env c \<noteq> [], ''env'')] origins"

text \<open>What the loading of layers has built so far.\<close>

record layers =
  ly_cfg :: config
  ly_envs :: "setting_source \<Rightarrow> string entries"
  ly_origins :: "string entries"
  ly_loaded :: "string list"

definition add_layer :: "setting_source \<Rightarrow> config \<Rightarrow> bool \<Rightarrow> layers \<Rightarrow> layers" where
  "add_layer source c loaded L = L\<lparr>
     ly_loaded := (if loaded then ly_loaded L @ [source_id source] else ly_loaded L),
     ly_origins := (if loaded then collectSettingOrigins (ly_origins L) c source else ly_origins L),
     ly_envs := (ly_envs L)(source := c_Env c),
     ly_cfg := Merge (ly_cfg L) c\<rparr>"

definition start_layers :: "settings_os \<Rightarrow> loader \<Rightarrow> layers" where
  "start_layers S l = \<lparr>ly_cfg = (DefaultConfig (so_Getenv S ''DISABLE_PROMPT_CACHING''))
       \<lparr>c_ProjectPath := fl_CWD l, c_HomeDir := fl_HomeDir l,
        c_SessionDBPath := (if fl_HomeDir l = '''' then '''' else path_Join (fl_HomeDir l) ''.claude/claude-code-go/sessions.db'')\<rparr>,
     ly_envs = (\<lambda>_. []), ly_origins = [], ly_loaded = []\<rparr>"

definition add_file :: "settings_os \<Rightarrow> layers \<Rightarrow> setting_source \<times> string \<Rightarrow> string + layers" where
  "add_file S L cand = bind_res (loadSettingsFile S cand) (\<lambda>(c, loaded). Inr (add_layer (fst cand) c loaded L))"

definition load_layers :: "settings_os \<Rightarrow> loader \<Rightarrow> string + layers" where
  "load_layers S l =
    bind_res (fold_res (add_file S) (start_layers S l) (settingsPathCandidates l)) (\<lambda>L1.
    bind_res (loadPolicySettings S l) (\<lambda>(policy, loaded).
    let L2 = (if loaded then add_layer PolicySettings policy True L1 else L1) in
    if trim_space (fl_FlagSettingsValue l) = '''' then Inr L2
    else bind_res (loadFlagSettings S l (fl_FlagSettingsValue l)) (\<lambda>flag. Inr (add_layer FlagSettings flag True L2))))"

definition runtimeEnvLookup :: "loader \<Rightarrow> string entries \<Rightarrow> string \<Rightarrow> string" where
  "runtimeEnvLookup l settingsEnv key = (case map_of settingsEnv key of Some v \<Rightarrow> v | None \<Rightarrow> fl_LookupEnv l key)"

definition runtimeEnvLookupWithSource :: "loader \<Rightarrow> string entries \<Rightarrow> string \<Rightarrow> string \<times> string" where
  "runtimeEnvLookupWithSource l settingsEnv key =
    (case map_of settingsEnv key of
       Some v \<Rightarrow> if v = '''' then ('''', '''') else (v, key @ '' (settings env)'')
     | None \<Rightarrow> if fl_LookupEnv l key = '''' then ('''', '''') else (fl_LookupEnv l key, key))"

fun first_set :: "(string \<Rightarrow> string \<times> string) \<Rightarrow> string list \<Rightarrow> string \<times> string" where
  "first_set look [] = ('''', '''')"
| "first_set look (k # ks) = (if fst (look k) \<noteq> '''' then look k else first_set look ks)"

fun firstResolvedEnvValue :: "(string \<Rightarrow> string \<times> string) \<Rightarrow> string list \<Rightarrow> string \<times> string" where
  "firstResolvedEnvValue look [] = ('''', '''')"
| "firstResolvedEnvValue look (k # ks) = (if trim_space (fst (look k)) = '''' then firstResolvedEnvValue look ks else look k)"

definition lookupAPIKey :: "string \<Rightarrow> (string \<Rightarrow> string \<times> string) \<Rightarrow> string \<times> string" where
  "lookupAPIKey provider look =
    (if fst (look ''CLAUDE_CODE_API_KEY'') \<noteq> '''' then look ''CLAUDE_CODE_API_KEY''
     else let p = NormalizeProvider provider in
       if p = ''anthropic'' then look ''ANTHROPIC_API_KEY''
       else if p = ''openai-compatible'' then look ''OPENAI_API_KEY''
       else if p = ''glm'' then first_set look [''GLM_API_KEY'', ''ZHIPUAI_API_KEY'', ''OPENAI_API_KEY'']
       else ('''', ''''))"

definition lookupAuthToken :: "string \<Rightarrow> (string \<Rightarrow> string \<times> string) \<Rightarrow> string \<times> string" where
  "lookupAuthToken provider look =
    (if NormalizeProvider provider \<noteq> ''anthropic'' then ('''', '''') else look ''ANTHROPIC_AUTH_TOKEN'')"

definition lookupAPIBaseURL :: "string \<Rightarrow> (string \<Rightarrow> string \<times> string) \<Rightarrow> string \<times> string" where
  "lookupAPIBaseURL provider look =
    (if fst (look ''CLAUDE_CODE_API_BASE_URL'') \<noteq> '''' then look ''CLAUDE_CODE_API_BASE_URL''
     else let p = NormalizeProvider provider in
       if p = ''anthropic'' then look ''ANTHROPIC_BASE_URL''
       else if p = ''openai-compatible'' then first_set look [''OPENAI_BASE_URL'', ''OPENAI_API_BASE'']
       else if p = ''glm'' then first_set look [''GLM_BASE_URL'', ''ZHIPUAI_BASE_URL'', ''OPENAI_BASE_URL'', ''OPENAI_API_BASE'']
       else ('''', ''''))"

definition env_config :: "loader \<Rightarrow> config \<Rightarrow> config" where
  "env_config l cfg =
    (let get = runtimeEnvLookup l (c_Env cfg); look = runtimeEnvLookupWithSource l (c_Env cfg);
         envProvider = trim_space (fst (look ''CLAUDE_CODE_PROVIDER''));
         active = (if trim_space envProvider \<noteq> '''' then envProvider else if trim_space (c_Provider cfg) \<noteq> '''' then c_Provider cfg else '''');
         key = lookupAPIKey active look; token = lookupAuthToken active look; url = lookupAPIBaseURL active look;
         proxy = firstResolvedEnvValue look [''https_proxy'', ''HTTPS_PROXY'', ''http_proxy'', ''HTTP_PROXY''];
         ca = look ''NODE_EXTRA_CA_CERTS''; cert = look ''CLAUDE_CODE_CLIENT_CERT''; pkey = look ''CLAUDE_CODE_CLIENT_KEY''
     in no_config\<lparr>c_Model := get ''CLAUDE_CODE_MODEL'', c_Theme := get ''CLAUDE_CODE_THEME'',
        c_EditorMode := get ''CLAUDE_CODE_EDITOR_MODE'', c_Provider := envProvider,
        c_APIKey := fst key, c_AuthToken := fst token, c_APIBaseURL := fst url,
        c_APIKeySource := snd key, c_AuthTokenSource := snd token, c_APIBaseURLSource := snd url,
        c_ProxyURL := fst proxy, c_ProxySource := snd proxy,
        c_AdditionalCACertsPath := fst ca, c_AdditionalCACertsSource := snd ca,
        c_MTLSClientCertPath := fst cert, c_MTLSClientCertSource := snd cert,
        c_MTLSClientKeyPath := fst pkey, c_MTLSClientKeySource := snd pkey,
        c_ApprovalMode := get ''CLAUDE_CODE_APPROVAL_MODE'', c_SessionDBPath := get ''CLAUDE_CODE_SESSION_DB_PATH''\<rparr>)"

definition finish_load :: "loader \<Rightarrow> layers \<Rightarrow> config" where
  "finish_load l L =
    (let cfg = (ly_cfg L)\<lparr>c_LoadedSettingSources := ly_loaded L, c_SettingOrigins := ly_origins L,
           c_ManagedSettingsDir := managedSettingsDir l,
           c_Env := buildRuntimeSettingsEnv (ly_envs L)
             (isTruthySettingEnv (fl_LookupEnv l ''CLAUDE_CODE_PROVIDER_MANAGED_BY_HOST'')) (fl_TrustAccepted l)\<rparr>
     in Merge cfg (env_config l cfg))"

definition Load :: "settings_os \<Rightarrow> loader \<Rightarrow> string + config" where
  "Load S l = bind_res (load_layers S l) (\<lambda>L. Inr (finish_load l L))"

section \<open>Trust\<close>

text \<open>The projects with a recorded decision, and whether it is trust.\<close>

type_synonym trust_state = "bool entries"

definition normalizeTrustPath :: "string \<Rightarrow> string" where
  "normalizeTrustPath p =
    (let q = path_Clean p in if q = ''.'' then '''' else if has_suffix q ''/'' then butlast q else q)"

text \<open>The walk to the root, which is at most as long as the path.\<close>

fun trusted_above :: "nat \<Rightarrow> trust_state \<Rightarrow> string \<Rightarrow> bool" where
  "trusted_above 0 state current = False"
| "trusted_above (Suc n) state current =
    (if map_of state current = Some True then True
     else let parent = normalizeTrustPath (path_Dir current) in
       if parent = current \<or> parent = '''' then False else trusted_above n state parent)"

definition IsTrustAccepted :: "trust_state option \<Rightarrow> string \<Rightarrow> string \<Rightarrow> bool" where
  "IsTrustAccepted state cwd homeDir =
    (case state of
       None \<Rightarrow> False
     | Some st \<Rightarrow>
        if cwd = '''' \<or> cwd = homeDir then True
        else if normalizeTrustPath cwd = '''' then False
        else trusted_above (length (normalizeTrustPath cwd)) st (normalizeTrustPath cwd))"

definition AcceptTrust :: "trust_state \<Rightarrow> string \<Rightarrow> trust_state" where
  "AcceptTrust st cwd = (if normalizeTrustPath cwd = '''' then st else overlay st [(normalizeTrustPath cwd, True)])"

text \<open>The configuration an application starts with: the recorded trust or a failure to read it, and the
  dialog, which answers whether it was accepted and whether it was shown. The trust state is what is
  saved.\<close>

definition start_config :: "settings_os \<Rightarrow> loader \<Rightarrow> string + trust_state \<Rightarrow> string + bool \<times> bool \<Rightarrow>
    string + config \<times> trust_state" where
  "start_config S l recorded dialog =
    bind_res (Load S l) (\<lambda>cfg.
    let st = (case recorded of Inl e \<Rightarrow> [] | Inr st \<Rightarrow> st) in
    if IsTrustAccepted (Some st) (fl_CWD l) (fl_HomeDir l) then Inr (cfg, st)
    else case dialog of
      Inl e \<Rightarrow> Inl (''trust dialog: '' @ e)
    | Inr (accepted, shown) \<Rightarrow>
        if shown \<and> \<not> accepted then Inl ''workspace trust declined''
        else if accepted then
          bind_res (Load S (l\<lparr>fl_TrustAccepted := True\<rparr>)) (\<lambda>cfg1. Inr (cfg1, AcceptTrust st (fl_CWD l)))
        else Inr (cfg, st))"

end
