(* ===== verification/Settings_Facts.thy ===== *)
theory Settings_Facts
  imports Settings_Load
begin

text \<open>
  What the loading of settings guarantees and where it does not: the environment an untrusted workspace
  can set, the precedence of layers, policies that are not seen, the memory of trust.
\<close>

section \<open>Trusted directories\<close>

lemma join_snoc: "ss \<noteq> [] \<Longrightarrow> join_str sep (ss @ [s]) = join_str sep ss @ sep @ s"
proof (induction ss)
  case (Cons a ss)
  then show ?case by (cases ss) auto
qed simp

lemma split_char_end: "split_char d (x @ [d]) = split_char d x @ [[]]"
proof (induction x)
  case (Cons c x)
  then show ?case by (cases "split_char d x") auto
qed simp

abbreviation root_path :: "string list \<Rightarrow> string" where
  "root_path ss \<equiv> render_path True ss"

lemma root_path_segs: "list_all plain_seg ss \<Longrightarrow> path_segs (root_path ss) = ss" "list_all plain_seg ss \<Longrightarrow> is_abs (root_path ss)"
  by (simp_all add: path_segs_render is_abs_render cleaned_rooted)

lemma last_slash:
  assumes "CHR ''/'' \<notin> set s"
  shows "rev (dropWhile (\<lambda>c. c \<noteq> CHR ''/'') (rev (x @ CHR ''/'' # s))) = x @ ''/''"
proof -
  have "dropWhile (\<lambda>c. c \<noteq> CHR ''/'') (rev s @ CHR ''/'' # rev x) = CHR ''/'' # rev x"
    using assms by (induction s rule: rev_induct) auto
  then show ?thesis by simp
qed

lemma Clean_slash:
  assumes "list_all plain_seg ss" "ss \<noteq> []"
  shows "path_Clean (root_path ss @ ''/'') = root_path ss"
proof -
  have a: "is_abs (root_path ss @ ''/'')" by (simp add: render_path_def is_abs_def has_prefix_def)
  have "path_segs (root_path ss @ ''/'') = path_segs (root_path ss)"
    using a root_path_segs(2) [OF assms(1)] by (simp add: path_segs_def clean_segs_def split_char_end clean_step_def)
  then show ?thesis using a root_path_segs [OF assms(1)] by (simp add: path_Clean_def)
qed

lemma Dir_root:
  assumes "list_all plain_seg (ss @ [s])"
  shows "path_Dir (root_path (ss @ [s])) = root_path ss"
proof -
  have s: "CHR ''/'' \<notin> set s" "list_all plain_seg ss" using assms by (simp_all add: plain_seg_def)
  show ?thesis
  proof (cases "ss = []")
    case True
    have "root_path ([] @ [s]) = [] @ CHR ''/'' # s" by (simp add: render_path_def)
    then have "path_Dir (root_path ([] @ [s])) = path_Clean ''/''"
      unfolding path_Dir_def using last_slash [OF s(1), of "[]"] by simp
    then show ?thesis using True by (simp add: path_Clean_def path_segs_def clean_segs_def clean_step_def is_abs_def has_prefix_def)
  next
    case False
    then have "root_path (ss @ [s]) = root_path ss @ CHR ''/'' # s" by (simp add: render_path_def join_snoc)
    then have "path_Dir (root_path (ss @ [s])) = path_Clean (root_path ss @ ''/'')"
      unfolding path_Dir_def using last_slash [OF s(1), of "root_path ss"] by simp
    then show ?thesis using Clean_slash [OF s(2) False] by simp
  qed
qed

lemma normal_root:
  assumes "list_all plain_seg ss"
  shows "normalizeTrustPath (root_path ss) = (if ss = [] then '''' else root_path ss)"
proof -
  have c: "path_Clean (root_path ss) = root_path ss"
    using root_path_segs [OF assms] by (simp add: path_Clean_def)
  have "\<not> has_suffix (root_path ss) ''/''" if "ss \<noteq> []"
  proof -
    from that obtain ts s where ts: "ss = ts @ [s]" by (metis rev_exhaust)
    have s: "s \<noteq> []" "CHR ''/'' \<notin> set s" using assms ts by (simp_all add: plain_seg_def)
    have "\<exists>x. root_path ss = x @ s"
      using ts by (cases "ts = []") (auto simp: render_path_def join_snoc)
    then obtain x where "root_path ss = x @ s" by blast
    then show ?thesis using s by (cases s rule: rev_cases) (auto simp: has_suffix_def)
  qed
  then show ?thesis using c by (auto simp: normalizeTrustPath_def Let_def render_path_def has_suffix_def)
qed

lemma trusted_above_iff:
  assumes "list_all plain_seg ss" "ss \<noteq> []" "length ss \<le> n"
  shows "trusted_above n st (root_path ss) \<longleftrightarrow> (\<exists>k\<in>{1..length ss}. map_of st (root_path (take k ss)) = Some True)"
  using assms
proof (induction n arbitrary: ss)
  case (Suc n)
  obtain ts s where ts: "ss = ts @ [s]" using Suc.prems(2) by (metis rev_exhaust)
  have p: "list_all plain_seg ts" using Suc.prems(1) ts by simp
  have d: "normalizeTrustPath (path_Dir (root_path ss)) = (if ts = [] then '''' else root_path ts)"
    using Dir_root [of ts s] Suc.prems(1) ts normal_root [OF p] by simp
  have ne: "root_path ts \<noteq> root_path ss"
    using root_path_segs(1) [OF p] root_path_segs(1) [OF Suc.prems(1)] ts by (metis append_self_conv not_Cons_self2)
  have split: "(\<exists>k\<in>{1..length ss}. map_of st (root_path (take k ss)) = Some True) \<longleftrightarrow>
      map_of st (root_path ss) = Some True \<or> (\<exists>k\<in>{1..length ts}. map_of st (root_path (take k ts)) = Some True)"
    using ts by (auto simp: atLeastAtMostSuc_conv)
  show ?case
  proof (cases "ts = []")
    case True
    then show ?thesis using d split by simp
  next
    case False
    have "root_path ts \<noteq> ''''" by (simp add: render_path_def)
    then have "trusted_above (Suc n) st (root_path ss) \<longleftrightarrow> map_of st (root_path ss) = Some True \<or> trusted_above n st (root_path ts)"
      using d ne False by (simp add: Let_def)
    moreover have "length ts \<le> n" using Suc.prems(3) ts by simp
    ultimately show ?thesis using split Suc.IH [OF p False] by blast
  qed
qed simp

lemma length_root: "list_all plain_seg ss \<Longrightarrow> length ss \<le> length (root_path ss)"
proof (induction ss rule: rev_induct)
  case (snoc s ss)
  then show ?case by (cases "ss = []") (auto simp: render_path_def join_snoc)
qed simp

text \<open>
  A directory other than the home directory is trusted exactly when
  it or one of the directories above it, but not the root, is recorded as trusted.
\<close>

lemma IsTrustAccepted_exact:
  assumes "is_abs cwd" "cwd \<noteq> homeDir"
  shows "IsTrustAccepted (Some st) cwd homeDir \<longleftrightarrow>
    (\<exists>k\<in>{1..length (path_segs cwd)}. map_of st (root_path (take k (path_segs cwd))) = Some True)"
proof -
  let ?ss = "path_segs cwd"
  have p: "list_all plain_seg ?ss" using assms(1) by (rule abs_segs_plain)
  have "normalizeTrustPath cwd = normalizeTrustPath (root_path ?ss)"
    using assms(1) root_path_segs [OF p] by (simp add: normalizeTrustPath_def path_Clean_def)
  then have n: "normalizeTrustPath cwd = (if ?ss = [] then '''' else root_path ?ss)" using normal_root [OF p] by simp
  have "cwd \<noteq> ''''" using assms(1) by (auto simp: is_abs_def has_prefix_def)
  show ?thesis
  proof (cases "?ss = []")
    case True
    then show ?thesis using n assms(2) \<open>cwd \<noteq> ''''\<close> by (simp add: IsTrustAccepted_def)
  next
    case False
    then have "normalizeTrustPath cwd \<noteq> ''''" using n by (simp add: render_path_def)
    then show ?thesis using n False assms(2) \<open>cwd \<noteq> ''''\<close> trusted_above_iff [OF p False length_root [OF p]]
      by (simp add: IsTrustAccepted_def)
  qed
qed

section \<open>The environment\<close>

lemma map_of_overlay: "map_of (overlay a b) k = (case map_of b k of None \<Rightarrow> map_of a k | Some v \<Rightarrow> Some v)"
proof -
  have "map_of (filter (\<lambda>kv. fst kv \<notin> keys b) a) k = (if k \<in> keys b then None else map_of a k)"
    by (induction a) auto
  moreover have "map_of b k = None \<longleftrightarrow> k \<notin> keys b" by (simp add: map_of_eq_None_iff keys_def)
  ultimately show ?thesis by (auto simp: overlay_keys map_add_def split: option.splits)
qed

lemma map_of_filter_key: "map_of (filter (\<lambda>kv. P (fst kv)) m) k = (if P k then map_of m k else None)"
  by (induction m) auto

lemma unsafe_layer:
  "\<not> isSafeRuntimeEnvVar key \<Longrightarrow> map_of (mergeRuntimeEnvLayer dst layer host True) key = map_of dst key"
  by (simp add: mergeRuntimeEnvLayer_def map_of_overlay
      map_of_filter_key [of "\<lambda>k. (host \<longrightarrow> \<not> isProviderManagedRuntimeEnvVar k) \<and> isSafeRuntimeEnvVar k"])

lemma layer_cong:
  "map_of dst key = map_of dst' key \<Longrightarrow>
   map_of (mergeRuntimeEnvLayer dst layer host safe) key = map_of (mergeRuntimeEnvLayer dst' layer host safe) key"
  by (simp add: mergeRuntimeEnvLayer_def map_of_overlay split: option.split)

lemma unsafe_env:
  assumes "\<not> isSafeRuntimeEnvVar key" and "\<And>s. s \<notin> {ProjectSettings, LocalSettings} \<Longrightarrow> envs s = envs' s"
  shows "map_of (buildRuntimeSettingsEnv envs host False) key = map_of (buildRuntimeSettingsEnv envs' host False) key"
proof -
  have e: "envs UserSettings = envs' UserSettings" "envs PolicySettings = envs' PolicySettings" "envs FlagSettings = envs' FlagSettings"
    using assms(2) by simp_all
  show ?thesis unfolding buildRuntimeSettingsEnv_def
    by (simp add: e) (intro layer_cong, simp add: unsafe_layer assms(1))
qed

lemma Merge_env: "c_Env (Merge a b) = overlay (c_Env a) (c_Env b)"
  by (simp only: Merge_def config.select_convs)

lemma overlay_empty [simp]: "overlay a [] = a"
  by (simp add: overlay_def)

lemma env_config_env [simp]: "c_Env (env_config l cfg) = []"
  by (simp add: env_config_def no_config_def Let_def)

definition host_managed :: "loader \<Rightarrow> bool" where
  "host_managed l \<longleftrightarrow> isTruthySettingEnv (fl_LookupEnv l ''CLAUDE_CODE_PROVIDER_MANAGED_BY_HOST'')"

lemma finish_load_env: "c_Env (finish_load l L) = buildRuntimeSettingsEnv (ly_envs L) (host_managed l) (fl_TrustAccepted l)"
  by (simp add: finish_load_def Let_def Merge_env host_managed_def)

lemma Load_env:
  assumes "Load S l = Inr cfg"
  obtains L where "load_layers S l = Inr L" "cfg = finish_load l L"
    "c_Env cfg = buildRuntimeSettingsEnv (ly_envs L) (host_managed l) (fl_TrustAccepted l)"
  using assms finish_load_env by (auto simp: Load_def bind_res_Inr_iff)

text \<open>Two loads whose layers agree outside the project.\<close>

definition agree :: "layers \<Rightarrow> layers \<Rightarrow> bool" where
  "agree L L' \<longleftrightarrow> (\<forall>s. s \<notin> {ProjectSettings, LocalSettings} \<longrightarrow> ly_envs L s = ly_envs L' s)"

lemma agree_add: "agree L L' \<Longrightarrow> agree (add_layer s c b L) (add_layer s c b L')"
  by (simp add: agree_def add_layer_def)

lemma agree_project: "agree L L' \<Longrightarrow> s \<in> {ProjectSettings, LocalSettings} \<Longrightarrow> agree (add_layer s c b L) (add_layer s c' b' L')"
  by (auto simp: agree_def add_layer_def)

lemma candidate_source: "cand \<in> set (settingsPathCandidates l) \<Longrightarrow> fst cand \<in> {UserSettings, ProjectSettings, LocalSettings}"
proof -
  have "cand \<in> set (candidate l x) \<Longrightarrow> fst cand \<in> {UserSettings, ProjectSettings, LocalSettings}" for x
    by (cases x) (auto simp: candidate_def split: if_splits)
  then show "cand \<in> set (settingsPathCandidates l) \<Longrightarrow> fst cand \<in> {UserSettings, ProjectSettings, LocalSettings}"
    by (auto simp: settingsPathCandidates_def)
qed

definition user_file :: "loader \<Rightarrow> setting_source \<times> string" where
  "user_file l = (UserSettings, path_Join (fl_HomeDir l) ''.claude/settings.json'')"

lemma candidate_user: "cand \<in> set (settingsPathCandidates l) \<Longrightarrow> fst cand = UserSettings \<Longrightarrow> cand = user_file l"
proof -
  have "cand \<in> set (candidate l x) \<Longrightarrow> fst cand = UserSettings \<Longrightarrow> cand = user_file l" for x
    by (cases x) (auto simp: candidate_def user_file_def split: if_splits)
  then show "cand \<in> set (settingsPathCandidates l) \<Longrightarrow> fst cand = UserSettings \<Longrightarrow> cand = user_file l"
    by (auto simp: settingsPathCandidates_def)
qed

lemma files_agree:
  assumes "loadSettingsFile S u = loadSettingsFile S' u"
    and "fold_res (add_file S) L cands = Inr M" "fold_res (add_file S') L' cands = Inr M'"
    and "\<forall>cand\<in>set cands. fst cand \<in> {UserSettings, ProjectSettings, LocalSettings} \<and> (fst cand = UserSettings \<longrightarrow> cand = u)"
    and "agree L L'"
  shows "agree M M'"
  using assms(2-)
proof (induction cands arbitrary: L L')
  case (Cons cand cands)
  obtain L1 where L1: "add_file S L cand = Inr L1" "fold_res (add_file S) L1 cands = Inr M"
    using Cons.prems(1) by (auto simp: bind_res_Inr_iff)
  obtain L2 where L2: "add_file S' L' cand = Inr L2" "fold_res (add_file S') L2 cands = Inr M'"
    using Cons.prems(2) by (auto simp: bind_res_Inr_iff)
  have "agree L1 L2"
  proof (cases "fst cand = UserSettings")
    case True
    then have "loadSettingsFile S cand = loadSettingsFile S' cand" using assms(1) Cons.prems(3) by simp
    then show ?thesis using L1(1) L2(1) Cons.prems(4) by (auto simp: add_file_def bind_res_Inr_iff agree_add)
  next
    case False
    then have "fst cand \<in> {ProjectSettings, LocalSettings}" using Cons.prems(3) by auto
    then show ?thesis using L1(1) L2(1) Cons.prems(4) agree_project by (auto simp: add_file_def bind_res_Inr_iff)
  qed
  then show ?case using Cons.IH [OF L1(2) L2(2)] Cons.prems(3) by simp
qed simp

lemma layers_agree:
  assumes "loadSettingsFile S (user_file l) = loadSettingsFile S' (user_file l)"
    and "loadPolicySettings S l = loadPolicySettings S' l" "loadFlagSettings S l v = loadFlagSettings S' l v"
    and "v = fl_FlagSettingsValue l" "load_layers S l = Inr M" "load_layers S' l = Inr M'"
  shows "agree M M'"
proof -
  obtain L1 p b where L1: "fold_res (add_file S) (start_layers S l) (settingsPathCandidates l) = Inr L1"
    "loadPolicySettings S l = Inr (p, b)"
    using assms(5) by (auto simp: load_layers_def bind_res_Inr_iff)
  obtain L2 where L2: "fold_res (add_file S') (start_layers S' l) (settingsPathCandidates l) = Inr L2"
    using assms(6) by (auto simp: load_layers_def bind_res_Inr_iff)
  have "agree (start_layers S l) (start_layers S' l)" by (simp add: agree_def start_layers_def)
  then have "agree L1 L2" using files_agree [OF assms(1) L1(1) L2] candidate_source candidate_user by blast
  then have a: "agree (if b then add_layer PolicySettings p True L1 else L1) (if b then add_layer PolicySettings p True L2 else L2)"
    by (simp add: agree_add)
  have "loadPolicySettings S' l = Inr (p, b)" "loadFlagSettings S' l (fl_FlagSettingsValue l) = loadFlagSettings S l (fl_FlagSettingsValue l)"
    using L1(2) assms(2-4) by simp_all
  note same = this
  show ?thesis
  proof (cases "trim_space (fl_FlagSettingsValue l) = ''''")
    case True
    then have "M = (if b then add_layer PolicySettings p True L1 else L1)" "M' = (if b then add_layer PolicySettings p True L2 else L2)"
      using assms(5,6) L1 L2 same by (simp_all add: load_layers_def Let_def)
    then show ?thesis using a by simp
  next
    case False
    then obtain f where "M = add_layer FlagSettings f True (if b then add_layer PolicySettings p True L1 else L1)"
      "M' = add_layer FlagSettings f True (if b then add_layer PolicySettings p True L2 else L2)"
      using assms(5,6) L1 L2 same by (auto simp: load_layers_def Let_def bind_res_Inr_iff)
    then show ?thesis using a agree_add by simp
  qed
qed

text \<open>
  C20: What an untrusted workspace can put into the environment. While a workspace is not trusted, the
  files of its project, whatever they hold, do not change the value of any variable outside the list of
  safe ones that the settings give to the runtime.
\<close>

theorem untrusted_env_is_safe:
  assumes "Load S l = Inr cfg" "Load S' l = Inr cfg'" "\<not> fl_TrustAccepted l" "\<not> isSafeRuntimeEnvVar key"
    and "loadSettingsFile S (user_file l) = loadSettingsFile S' (user_file l)"
    and "loadPolicySettings S l = loadPolicySettings S' l"
    and "loadFlagSettings S l (fl_FlagSettingsValue l) = loadFlagSettings S' l (fl_FlagSettingsValue l)"
  shows "map_of (c_Env cfg) key = map_of (c_Env cfg') key"
proof -
  obtain L where L: "load_layers S l = Inr L" "c_Env cfg = buildRuntimeSettingsEnv (ly_envs L) (host_managed l) False"
    using Load_env [OF assms(1)] assms(3) by auto
  obtain L' where L': "load_layers S' l = Inr L'" "c_Env cfg' = buildRuntimeSettingsEnv (ly_envs L') (host_managed l) False"
    using Load_env [OF assms(2)] assms(3) by auto
  have "agree L L'" using layers_agree [OF assms(5-7) refl L(1) L'(1)] .
  then show ?thesis unfolding L(2) L'(2) agree_def by (intro unsafe_env [OF assms(4)]) blast
qed

section \<open>Precedence\<close>

lemma Merge_permissions: "c_Permissions (Merge a b) = mergePermissionConfig (c_Permissions a) (c_Permissions b)"
  by (simp only: Merge_def config.select_convs)

lemma env_config_permissions [simp]: "c_Permissions (env_config l cfg) = no_permissions"
  by (simp add: env_config_def no_config_def Let_def)

lemma merge_no_permissions [simp]: "pc_Deny (mergePermissionConfig p no_permissions) = pc_Deny p"
  by (simp add: mergePermissionConfig_def no_permissions_def pick_def)

lemma finish_load_deny: "pc_Deny (c_Permissions (finish_load l L)) = pc_Deny (c_Permissions (ly_cfg L))"
  by (simp add: finish_load_def Let_def Merge_permissions)

text \<open>
  Rules do not add up over the layers, and the policy of an organisation is not the last of them: the
  deny rules of \<open>--settings\<close> replace those of every file, the managed ones included.
\<close>

lemma flag_rules_replace_policy_rules:
  assumes "Load S l = Inr cfg" "trim_space (fl_FlagSettingsValue l) \<noteq> ''''"
    and "loadFlagSettings S l (fl_FlagSettingsValue l) = Inr flag" "pc_Deny (c_Permissions flag) \<noteq> []"
  shows "pc_Deny (c_Permissions cfg) = pc_Deny (c_Permissions flag)"
proof -
  obtain L where L: "load_layers S l = Inr L" "cfg = finish_load l L" using assms(1) by (rule Load_env)
  obtain M where "L = add_layer FlagSettings flag True M"
    using L(1) assms(2,3) by (auto simp: load_layers_def bind_res_Inr_iff Let_def split: prod.splits)
  then show ?thesis using assms(4)
    by (simp add: L(2) finish_load_deny add_layer_def Merge_permissions mergePermissionConfig_def pick_def)
qed

text \<open>
  C35: A policy of hooks is not seen. When the managed settings say no more than that all hooks are to be
  disabled, or only configure hooks, they count as empty and the loader behaves as if there were no
  policy.
\<close>

theorem managed_hooks_policy_is_ignored:
  assumes "so_ReadFile S (path_Join (fl_HomeDir l) ''.claude/remote-settings.json'') = Inl (True, e1)"
    and "trim_space (fl_ManagedAdminSettingsPath l) = ''''" "trim_space (fl_ManagedUserSettingsPath l) = ''''"
    and "so_ReadFile S (path_Join (managedSettingsDir l) ''managed-settings.json'') = Inr data"
    and "so_ReadDir S (path_Join (managedSettingsDir l) ''managed-settings.d'') = Inl (True, e2)"
    and "parseSettingsConfig S data (path_Join (managedSettingsDir l) ''managed-settings.json'') PolicySettings
      = Inr (no_config\<lparr>c_Hooks := hooks, c_DisableAllHooks := disabled\<rparr>)"
  shows "loadPolicySettings S l = Inr (no_config, False)"
proof -
  have "\<not> hasLoadedSettingsValues (no_config\<lparr>c_Hooks := hooks, c_DisableAllHooks := disabled\<rparr>)"
    by (simp add: hasLoadedSettingsValues_def no_config_def no_permissions_def has_status_line_def)
  then have "loadManagedSettings S l = Inr (no_config, False)"
    using assms(4-6) by (simp add: loadManagedSettings_def Let_def loadManagedSettingsFile_def discoverManagedDropIns_def)
  then show ?thesis using assms(1-3)
    by (simp add: loadPolicySettings_def loadManagedSettingsFile_def [of S "path_Join (fl_HomeDir l) ''.claude/remote-settings.json''"]
        override_file_def)
qed

section \<open>The memory of trust\<close>

lemma layers_ignore_trust [simp]: "load_layers S (l\<lparr>fl_TrustAccepted := b\<rparr>) = load_layers S l"
proof -
  have "settingsPathCandidates (l\<lparr>fl_TrustAccepted := b\<rparr>) = settingsPathCandidates l"
  proof -
    have "candidate (l\<lparr>fl_TrustAccepted := b\<rparr>) x = candidate l x" for x by (cases x) (simp_all add: candidate_def)
    then have "candidate (l\<lparr>fl_TrustAccepted := b\<rparr>) = candidate l" by blast
    then show ?thesis by (simp add: settingsPathCandidates_def allowedSettingSources_def)
  qed
  moreover have "loadPolicySettings S (l\<lparr>fl_TrustAccepted := b\<rparr>) = loadPolicySettings S l"
    by (simp add: loadPolicySettings_def loadManagedSettings_def managedSettingsDir_def cong: if_cong)
  moreover have "start_layers S (l\<lparr>fl_TrustAccepted := b\<rparr>) = start_layers S l" by (simp add: start_layers_def)
  moreover have "loadFlagSettings S (l\<lparr>fl_TrustAccepted := b\<rparr>) v = loadFlagSettings S l v" for v
    by (simp add: loadFlagSettings_def cong: if_cong)
  ultimately show ?thesis by (simp add: load_layers_def Let_def cong: if_cong)
qed

lemma accepted_is_trusted:
  assumes "is_abs cwd" "path_segs cwd \<noteq> []" "cwd \<noteq> homeDir"
  shows "IsTrustAccepted (Some (AcceptTrust st cwd)) cwd homeDir"
proof -
  have p: "list_all plain_seg (path_segs cwd)" using assms(1) by (rule abs_segs_plain)
  have "normalizeTrustPath cwd = normalizeTrustPath (root_path (path_segs cwd))"
    using assms(1) root_path_segs [OF p] by (simp add: normalizeTrustPath_def path_Clean_def)
  then have "normalizeTrustPath cwd = root_path (path_segs cwd)" using normal_root [OF p] assms(2) by simp
  then have "map_of (AcceptTrust st cwd) (root_path (take (length (path_segs cwd)) (path_segs cwd))) = Some True"
    by (simp add: AcceptTrust_def map_of_overlay render_path_def)
  moreover have "length (path_segs cwd) \<in> {1..length (path_segs cwd)}" using assms(2) by (cases "path_segs cwd") simp_all
  ultimately show ?thesis unfolding IsTrustAccepted_exact [OF assms(1,3)] by blast
qed

text \<open>
  C34: Trust is forgotten at the next start. The start at which a workspace is accepted loads its settings
  with the full environment of the project; the next one finds the trust recorded, does not ask, and
  keeps the configuration it has loaded before, in which the project is restricted to the safe variables.
\<close>

theorem trust_is_forgotten:
  assumes "\<not> fl_TrustAccepted l" "is_abs (fl_CWD l)" "path_segs (fl_CWD l) \<noteq> []"
    and "\<not> IsTrustAccepted (Some st) (fl_CWD l) (fl_HomeDir l)"
    and "start_config S l (Inr st) (Inr (True, True)) = Inr (cfg, st1)"
  shows "\<exists>L cfg1. load_layers S l = Inr L \<and> c_Env cfg = buildRuntimeSettingsEnv (ly_envs L) (host_managed l) True \<and>
    start_config S l (Inr st1) dialog = Inr (cfg1, st1) \<and>
    c_Env cfg1 = buildRuntimeSettingsEnv (ly_envs L) (host_managed l) False"
proof -
  have home: "fl_CWD l \<noteq> fl_HomeDir l" using assms(4) by (auto simp: IsTrustAccepted_def)
  have st1: "st1 = AcceptTrust st (fl_CWD l)" and "Load S (l\<lparr>fl_TrustAccepted := True\<rparr>) = Inr cfg"
    using assms(4,5) by (auto simp: start_config_def bind_res_Inr_iff)
  then obtain L where L: "load_layers S l = Inr L"
    "c_Env cfg = buildRuntimeSettingsEnv (ly_envs L) (host_managed l) True"
    using Load_env [of S "l\<lparr>fl_TrustAccepted := True\<rparr>" cfg] by (auto simp: host_managed_def)
  have "Load S l = Inr (finish_load l L)" using L(1) by (simp add: Load_def)
  moreover have "IsTrustAccepted (Some st1) (fl_CWD l) (fl_HomeDir l)"
    unfolding st1 using assms(2,3) home by (rule accepted_is_trusted)
  ultimately have "start_config S l (Inr st1) dialog = Inr (finish_load l L, st1)" by (simp add: start_config_def)
  moreover have "c_Env (finish_load l L) = buildRuntimeSettingsEnv (ly_envs L) (host_managed l) False"
    using assms(1) by (simp add: finish_load_env)
  ultimately show ?thesis using L by blast
qed

section \<open>A concrete workspace\<close>

definition demo_loader :: loader where
  "demo_loader = \<lparr>fl_CWD = ''/w'', fl_HomeDir = ''/h'', fl_ManagedSettingsDir = '''', fl_ManagedAdminSettingsPath = '''',
     fl_ManagedUserSettingsPath = '''', fl_LookupEnv = (\<lambda>_. ''''), fl_FlagSettingsValue = '''', fl_AllowedSettingSources = None,
     fl_TrustAccepted = False\<rparr>"

text \<open>Files by path; what a file holds stands for itself.\<close>

definition demo_os :: "string entries \<Rightarrow> (string \<Rightarrow> json) \<Rightarrow> settings_os" where
  "demo_os files read = \<lparr>so_ReadFile = (\<lambda>p. case map_of files p of None \<Rightarrow> Inl (True, '''') | Some s \<Rightarrow> Inr s),
     so_ReadDir = (\<lambda>_. Inl (True, '''')), so_json = (\<lambda>s. Inr (read s)), so_type_error = (\<lambda>_. ''''), so_Getenv = (\<lambda>_. '''')\<rparr>"

definition project_env :: json where
  "project_env = JObj [(''env'', JObj [(''X'', JStr ''1'')])]"

lemma decode_one:
  "map_of (map (\<lambda>f. (to_lower (fst f), snd f)) fs) (to_lower k) = Some f \<Longrightarrow> decode_into fs (JObj [(k, v)]) s = f v s"
  by (simp add: decode_into_def dec_struct_def) (cases "f v s"; simp)

lemma env_setter: "map_of (map (\<lambda>f. (to_lower (fst f), snd f)) settings_fields) (to_lower ''env'') = Some (map_field Inr sf_Env sf_Env_update)"
  by (simp add: settings_fields_def to_lower_def lower_char_def)

lemma disable_setter: "map_of (map (\<lambda>f. (to_lower (fst f), snd f)) settings_fields) (to_lower ''disableAllHooks'')
    = Some (bool_field sf_DisableAllHooks_update)"
  by (simp add: settings_fields_def to_lower_def lower_char_def)

lemma flag_setter: "map_of (map (\<lambda>f. (to_lower (fst f), snd f)) settings_fields) (to_lower ''permissions'')
    = Some (struct_field permission_fields sf_Permissions sf_Permissions_update)"
  by (simp add: settings_fields_def to_lower_def lower_char_def)

lemma deny_setter: "map_of (map (\<lambda>f. (to_lower (fst f), snd f)) permission_fields) (to_lower ''deny'')
    = Some (slice_field dec_str_elem pc_Deny_update)"
  by (simp add: permission_fields_def to_lower_def lower_char_def)

theorem managed_hooks_policy_is_ignored_witness:
  "loadPolicySettings (demo_os [(''/etc/claude-code/managed-settings.json'', '''')] (\<lambda>_. JObj [(''disableAllHooks'', JBool True)])) demo_loader
    = Inr (no_config, False)"
proof -
  let ?S = "demo_os [(''/etc/claude-code/managed-settings.json'', '''')] (\<lambda>_. JObj [(''disableAllHooks'', JBool True)])"
  have p: "path_Join (managedSettingsDir demo_loader) ''managed-settings.json'' = ''/etc/claude-code/managed-settings.json''"
    "path_Join (fl_HomeDir demo_loader) ''.claude/remote-settings.json'' = ''/h/.claude/remote-settings.json''"
    by (simp_all add: managedSettingsDir_def demo_loader_def trim_space_def path_Join_def path_Clean_def path_segs_def clean_segs_def
        clean_step_def is_abs_def has_prefix_def render_path_def)
  have "decode_into settings_fields (JObj [(''disableAllHooks'', JBool True)]) no_settings = Inr (no_settings\<lparr>sf_DisableAllHooks := True\<rparr>)"
    unfolding decode_one [OF disable_setter] by (simp add: bool_field_def)
  then have "parseSettingsConfig ?S '''' (path_Join (managedSettingsDir demo_loader) ''managed-settings.json'') PolicySettings
      = Inr (settings_config (no_settings\<lparr>sf_DisableAllHooks := True\<rparr>) [] PolicySettings)"
    by (simp add: parseSettingsConfig_def demo_os_def ParseHooksConfig_def no_settings_def Let_def)
  also have "settings_config (no_settings\<lparr>sf_DisableAllHooks := True\<rparr>) [] PolicySettings = no_config\<lparr>c_Hooks := [], c_DisableAllHooks := True\<rparr>"
    by (simp add: settings_config_def no_settings_def no_config_def no_permissions_def trim_space_def coerceSettingsEnvMap_def
        readEffortLevel_def readThemeSetting_def readEditorMode_def readProvider_def trim_account_def some_list_def
        NewAdditionalDirectoryConfigs_def nonblank_def)
  finally show ?thesis
    by (rule managed_hooks_policy_is_ignored [rotated -1])
       (simp_all only: p, simp_all add: demo_os_def demo_loader_def trim_space_def)
qed

lemmas path_run = path_Join_def path_Clean_def path_segs_def clean_segs_def clean_step_def is_abs_def has_prefix_def render_path_def

lemma demo_candidates: "settingsPathCandidates (demo_loader\<lparr>fl_FlagSettingsValue := v\<rparr>) =
    [(UserSettings, ''/h/.claude/settings.json''), (ProjectSettings, ''/w/.claude/settings.json''),
     (LocalSettings, ''/w/.claude/settings.local.json'')]"
  by (simp add: settingsPathCandidates_def allowedSettingSources_def DefaultSettingSources_def candidate_def demo_loader_def path_run)

lemma demo_no_policy:
  assumes "\<And>p. p \<noteq> ''/w/.claude/settings.json'' \<Longrightarrow> map_of files p = None"
  shows "loadPolicySettings (demo_os files read) (demo_loader\<lparr>fl_FlagSettingsValue := v\<rparr>) = Inr (no_config, False)"
proof -
  have none: "loadManagedSettingsFile (demo_os files read) p = Inr (no_config, False)" if "p \<noteq> ''/w/.claude/settings.json''" for p
    using assms [OF that] by (simp add: loadManagedSettingsFile_def demo_os_def)
  have "managedSettingsDir (demo_loader\<lparr>fl_FlagSettingsValue := v\<rparr>) = ''/etc/claude-code''"
    by (simp add: managedSettingsDir_def demo_loader_def trim_space_def)
  then have m: "loadManagedSettings (demo_os files read) (demo_loader\<lparr>fl_FlagSettingsValue := v\<rparr>) = Inr (no_config, False)"
    by (simp add: loadManagedSettings_def Let_def none path_run discoverManagedDropIns_def) (simp add: demo_os_def)
  have f: "fl_HomeDir (demo_loader\<lparr>fl_FlagSettingsValue := v\<rparr>) = ''/h''" "fl_ManagedAdminSettingsPath (demo_loader\<lparr>fl_FlagSettingsValue := v\<rparr>) = ''''"
    "fl_ManagedUserSettingsPath (demo_loader\<lparr>fl_FlagSettingsValue := v\<rparr>) = ''''"
    by (simp_all add: demo_loader_def)
  have h: "path_Join ''/h'' ''.claude/remote-settings.json'' = ''/h/.claude/remote-settings.json''" by (simp add: path_run)
  show ?thesis by (simp add: loadPolicySettings_def f h none m override_file_def trim_space_def)
qed

lemma demo_parse:
  assumes "read data = project_env"
  shows "parseSettingsConfig (demo_os files read) data src s = Inr (settings_config (no_settings\<lparr>sf_Env := [(''X'', JStr ''1'')]\<rparr>) [] s)"
proof -
  have "decode_into settings_fields project_env no_settings = Inr (no_settings\<lparr>sf_Env := [(''X'', JStr ''1'')]\<rparr>)"
    unfolding project_env_def decode_one [OF env_setter] by (simp add: map_field_def dec_entries_def no_settings_def overlay_def)
  then show ?thesis using assms
    by (simp add: parseSettingsConfig_def demo_os_def ParseHooksConfig_def no_settings_def Let_def)
qed

definition project_file :: "string entries" where
  "project_file = [(''/w/.claude/settings.json'', ''p'')]"

lemma demo_read: "so_ReadFile (demo_os files read) p = (case map_of files p of None \<Rightarrow> Inl (True, '''') | Some s \<Rightarrow> Inr s)"
  by (simp add: demo_os_def)

lemma demo_files:
  assumes "files = [] \<or> files = project_file \<and> read ''p'' = project_env"
  shows "\<exists>L. fold_res (add_file (demo_os files read)) M cands = Inr L"
proof -
  have "\<exists>c b. loadSettingsFile (demo_os files read) (s, p) = Inr (c, b)" for s p
  proof (cases "map_of files p")
    case None
    then have "loadSettingsFile (demo_os files read) (s, p) = Inr (no_config, False)" by (simp add: loadSettingsFile_def demo_read)
    then show ?thesis by blast
  next
    case (Some d)
    then have "d = ''p''" "read ''p'' = project_env" using assms by (auto simp: project_file_def split: if_splits)
    then have "\<exists>c. loadSettingsFile (demo_os files read) (s, p) = Inr (c, True)"
      using Some by (simp add: loadSettingsFile_def demo_read demo_parse)
    then show ?thesis by blast
  qed
  then have "\<exists>L. add_file (demo_os files read) K cand = Inr L" for K cand
    by (cases cand) (metis (mono_tags, lifting) add_file_def bind_res.simps(2) case_prod_conv)
  then have "\<exists>L. fold_res (add_file (demo_os files read)) M cs = Inr L" for cs
    by (induction cs arbitrary: M) (simp, metis bind_res.simps(2) fold_res.simps(2))
  then show ?thesis .
qed

lemma demo_none: "files = [] \<or> files = project_file \<and> Q \<Longrightarrow> p \<noteq> ''/w/.claude/settings.json'' \<Longrightarrow> map_of files p = None"
  by (auto simp: project_file_def)

lemma demo_no_flag: "demo_loader\<lparr>fl_FlagSettingsValue := ''''\<rparr> = demo_loader"
  by (simp add: demo_loader_def)

lemma demo_load:
  assumes "files = [] \<or> files = project_file \<and> read ''p'' = project_env"
  shows "\<exists>cfg. Load (demo_os files read) demo_loader = Inr cfg"
proof -
  obtain L where "fold_res (add_file (demo_os files read)) (start_layers (demo_os files read) demo_loader) (settingsPathCandidates demo_loader) = Inr L"
    using demo_files [of files read] assms by blast
  moreover have "loadPolicySettings (demo_os files read) (demo_loader\<lparr>fl_FlagSettingsValue := ''''\<rparr>) = Inr (no_config, False)"
    by (rule demo_no_policy) (rule demo_none [OF assms])
  then have "loadPolicySettings (demo_os files read) demo_loader = Inr (no_config, False)" unfolding demo_no_flag .
  moreover note this
  ultimately have "load_layers (demo_os files read) demo_loader = Inr L"
    by (simp add: load_layers_def) (simp add: demo_loader_def trim_space_def)
  then show ?thesis by (simp add: Load_def)
qed

theorem untrusted_env_is_safe_witness:
  "\<exists>cfg cfg'. Load (demo_os project_file (\<lambda>_. project_env)) demo_loader = Inr cfg \<and> Load (demo_os [] (\<lambda>_. project_env)) demo_loader = Inr cfg' \<and>
     map_of (c_Env cfg) ''X'' = map_of (c_Env cfg') ''X''"
proof -
  let ?S = "demo_os project_file (\<lambda>_. project_env)" and ?S' = "demo_os [] (\<lambda>_. project_env)"
  have "\<exists>cfg. Load ?S demo_loader = Inr cfg" "\<exists>cfg. Load ?S' demo_loader = Inr cfg" by (rule demo_load, simp)+
  then obtain cfg cfg' where c: "Load ?S demo_loader = Inr cfg" "Load ?S' demo_loader = Inr cfg'" by blast
  show ?thesis
  proof (intro exI conjI, rule c(1), rule c(2), rule untrusted_env_is_safe [OF c])
    show "\<not> fl_TrustAccepted demo_loader" by (simp add: demo_loader_def)
    show "\<not> isSafeRuntimeEnvVar ''X''" by code_simp
    have "user_file demo_loader = (UserSettings, ''/h/.claude/settings.json'')"
      by (simp add: user_file_def demo_loader_def path_run)
    then show "loadSettingsFile ?S (user_file demo_loader) = loadSettingsFile ?S' (user_file demo_loader)"
      by (simp add: loadSettingsFile_def demo_read project_file_def)
    show "loadPolicySettings ?S demo_loader = loadPolicySettings ?S' demo_loader"
      using demo_no_policy [of project_file "\<lambda>_. project_env" "''''"] demo_no_policy [of "[]" "\<lambda>_. project_env" "''''"]
      unfolding demo_no_flag by (simp add: project_file_def)
    show "loadFlagSettings ?S demo_loader (fl_FlagSettingsValue demo_loader) = loadFlagSettings ?S' demo_loader (fl_FlagSettingsValue demo_loader)"
      by (simp add: loadFlagSettings_def demo_loader_def trim_space_def)
  qed
qed

theorem trust_is_forgotten_witness:
  "\<exists>cfg st1 L cfg1. start_config (demo_os project_file (\<lambda>_. project_env)) demo_loader (Inr []) (Inr (True, True)) = Inr (cfg, st1) \<and>
     load_layers (demo_os project_file (\<lambda>_. project_env)) demo_loader = Inr L \<and>
     c_Env cfg = buildRuntimeSettingsEnv (ly_envs L) (host_managed demo_loader) True \<and>
     start_config (demo_os project_file (\<lambda>_. project_env)) demo_loader (Inr st1) (Inl '''') = Inr (cfg1, st1) \<and>
     c_Env cfg1 = buildRuntimeSettingsEnv (ly_envs L) (host_managed demo_loader) False"
proof -
  let ?S = "demo_os project_file (\<lambda>_. project_env)"
  have "\<exists>cfg. Load ?S demo_loader = Inr cfg" by (rule demo_load) simp
  then obtain cfg0 where c0: "Load ?S demo_loader = Inr cfg0" ..
  then obtain L where "load_layers ?S demo_loader = Inr L" by (rule Load_env)
  then obtain cfg where c: "Load ?S (demo_loader\<lparr>fl_TrustAccepted := True\<rparr>) = Inr cfg" by (simp add: Load_def)
  have a: "is_abs (fl_CWD demo_loader)" "path_segs (fl_CWD demo_loader) \<noteq> []" by (simp_all add: demo_loader_def path_run)
  have n: "\<not> IsTrustAccepted (Some []) (fl_CWD demo_loader) (fl_HomeDir demo_loader)"
    using IsTrustAccepted_exact [of "fl_CWD demo_loader" "fl_HomeDir demo_loader" "[]"] a(1) by (simp add: demo_loader_def)
  have s: "start_config ?S demo_loader (Inr []) (Inr (True, True)) = Inr (cfg, AcceptTrust [] (fl_CWD demo_loader))"
    using c0 c n by (simp add: start_config_def)
  have "\<not> fl_TrustAccepted demo_loader" by (simp add: demo_loader_def)
  from trust_is_forgotten [OF this a n s, of "Inl ''''"] s show ?thesis by blast
qed

lemma flag_rules_at_work:
  "\<exists>cfg. Load (demo_os [] (\<lambda>_. JObj [(''permissions'', JObj [(''deny'', JArr [JStr ''D''])])])) (demo_loader\<lparr>fl_FlagSettingsValue := ''{}''\<rparr>)
     = Inr cfg \<and> pc_Deny (c_Permissions cfg) = [''D'']"
proof -
  let ?j = "JObj [(''permissions'', JObj [(''deny'', JArr [JStr ''D''])])]" and ?l = "demo_loader\<lparr>fl_FlagSettingsValue := ''{}''\<rparr>"
  let ?S = "demo_os [] (\<lambda>_. ?j)"
  have "decode_into settings_fields ?j no_settings = Inr (no_settings\<lparr>sf_Permissions := no_permissions\<lparr>pc_Deny := [''D'']\<rparr>\<rparr>)"
    unfolding decode_one [OF flag_setter] struct_field_def decode_one [OF deny_setter]
    by (simp add: slice_field_def dec_slice_def dec_str_elem_def some_list_def no_settings_def)
  then have "parseSettingsConfig ?S ''{}'' s FlagSettings = Inr (settings_config (no_settings\<lparr>sf_Permissions := no_permissions\<lparr>pc_Deny := [''D'']\<rparr>\<rparr>) [] FlagSettings)" for s
    by (simp add: parseSettingsConfig_def demo_os_def ParseHooksConfig_def no_settings_def Let_def)
  then obtain flag where f: "loadFlagSettings ?S ?l (fl_FlagSettingsValue ?l) = Inr flag" "pc_Deny (c_Permissions flag) = [''D'']"
    by (simp add: loadFlagSettings_def trim_space_def is_space_def has_prefix_def has_suffix_def settings_config_def)
  obtain L where "fold_res (add_file ?S) (start_layers ?S ?l) (settingsPathCandidates ?l) = Inr L"
    using demo_files [of "[]" "\<lambda>_. ?j"] by blast
  moreover have "loadPolicySettings ?S ?l = Inr (no_config, False)" by (rule demo_no_policy) simp
  moreover have t: "trim_space (fl_FlagSettingsValue ?l) \<noteq> ''''" by (simp add: trim_space_def is_space_def)
  ultimately obtain cfg where c: "Load ?S ?l = Inr cfg" using f(1) by (simp add: Load_def load_layers_def Let_def)
  from flag_rules_replace_policy_rules [OF c t f(1)] f(2) c show ?thesis by simp
qed

end
