(* ===== verification/Mailbox.thy ===== *)
theory Mailbox
  imports Paths Go_Text
begin

text \<open>
  The inboxes of a team of agents (\<open>platform/mailbox/mailbox.go\<close>, \<open>inbox_poller.go\<close>): files that several
  processes, each with several goroutines, read and rewrite. An operation is a sequence of stages, one
  for each call of the operating system; a schedule picks the goroutine that moves next and says
  whether its call succeeds. Of the bytes of an inbox only what the code can tell apart is kept: no
  bytes yet, a JSON list of messages, or something that is neither. A stage of \<open>os.WriteFile\<close> is the
  opening, which empties the file, or the one call that writes all its bytes. Writing a text is not
  torn, and no process dies between two stages.
\<close>

section \<open>Messages and paths\<close>

record mail =
  ml_From :: string
  ml_Text :: string
  ml_Timestamp :: string
  ml_Read :: bool
  ml_Color :: string
  ml_Summary :: string

definition name_rune :: "nat \<Rightarrow> bool" where
  "name_rune n \<longleftrightarrow> (97 \<le> n \<and> n \<le> 122) \<or> (65 \<le> n \<and> n \<le> 90) \<or> (48 \<le> n \<and> n \<le> 57) \<or> n = 95 \<or> n = 45"

definition sanitizeName :: "string \<Rightarrow> string" where
  "sanitizeName input = map (\<lambda>n. if name_rune n then char_of n else CHR ''-'') (runes input)"

text \<open>\<open>filepath.Join\<close> of any number of elements: the empty ones are skipped.\<close>

definition join_path :: "string list \<Rightarrow> string" where
  "join_path elems = (let es = dropWhile (\<lambda>e. e = '''') elems in if es = [] then '''' else path_Clean (join_str ''/'' es))"

definition getInboxPath :: "string \<Rightarrow> string \<Rightarrow> string \<Rightarrow> string" where
  "getInboxPath agentName teamName homeDir =
    (let team = (if teamName = '''' then ''default'' else teamName)
     in join_path [homeDir, ''.claude'', ''teams'', sanitizeName team, ''inboxes'', sanitizeName agentName @ ''.json''])"

text \<open>What a message becomes when it is encoded as JSON and decoded again: each byte that is not part of
  a character is replaced by the character U+FFFD.\<close>

definition json_text :: "string \<Rightarrow> string" where
  "json_text s = encode_runes (runes s)"

definition wire :: "mail \<Rightarrow> mail" where
  "wire m = m\<lparr>ml_From := json_text (ml_From m), ml_Text := json_text (ml_Text m),
    ml_Timestamp := json_text (ml_Timestamp m), ml_Color := json_text (ml_Color m),
    ml_Summary := json_text (ml_Summary m)\<rparr>"

section \<open>Files\<close>

datatype inbox_file = NoBytes | Inbox "mail list" | Mangled

datatype mail_error = DirError | CreateError | LockError | ReadError | ParseError | WriteError

text \<open>\<open>None\<close> is a file that does not exist; the flag says whether the call of the system succeeds.\<close>

definition ReadMailbox :: "bool \<Rightarrow> inbox_file option \<Rightarrow> mail_error + mail list" where
  "ReadMailbox ok f =
    (if \<not> ok then Inl ReadError
     else case f of None \<Rightarrow> Inr [] | Some (Inbox ms) \<Rightarrow> Inr ms | Some _ \<Rightarrow> Inl ParseError)"

definition ReadUnreadMessages :: "bool \<Rightarrow> inbox_file option \<Rightarrow> mail_error + mail list" where
  "ReadUnreadMessages ok f = bind_res (ReadMailbox ok f) (\<lambda>ms. Inr (filter (\<lambda>m. \<not> ml_Read m) ms))"

text \<open>Two bytes \<open>[]\<close> written over the front of the file: of a list that has messages the rest stays.\<close>

definition write_brackets :: "inbox_file option \<Rightarrow> inbox_file option" where
  "write_brackets f = (case f of
      Some (Inbox (m # ms)) \<Rightarrow> Some Mangled | Some Mangled \<Rightarrow> Some Mangled | _ \<Rightarrow> Some (Inbox []))"

text \<open>The bytes of a list of messages written over a file that has just been emptied; another one
  may have written \<open>[]\<close> since.\<close>

definition write_list :: "mail list \<Rightarrow> inbox_file option \<Rightarrow> inbox_file option" where
  "write_list ms f =
    (if f \<in> {None, Some NoBytes, Some (Inbox [])} then Some (Inbox (map wire ms)) else Some Mangled)"

section \<open>Operations\<close>

datatype mail_op =
    Send mail
  | MarkAll
  | MarkIndex int
  | MarkMatching "mail \<Rightarrow> bool"
  | Clear
  | Poll

text \<open>What each does to the messages while it holds the lock: \<open>None\<close> when it writes nothing.\<close>

definition append_message :: "mail \<Rightarrow> mail list \<Rightarrow> mail list option" where
  "append_message msg ms = Some (ms @ [msg\<lparr>ml_Read := False\<rparr>])"

definition mark_all :: "mail list \<Rightarrow> mail list option" where
  "mark_all ms = (if ms = [] then None else Some (map (ml_Read_update (\<lambda>_. True)) ms))"

definition mark_index :: "int \<Rightarrow> mail list \<Rightarrow> mail list option" where
  "mark_index i ms =
    (if i < 0 \<or> i \<ge> int (length ms) then None
     else if ml_Read (ms ! nat i) then None
     else Some (ms[nat i := (ms ! nat i)\<lparr>ml_Read := True\<rparr>]))"

definition mark_matching :: "(mail \<Rightarrow> bool) \<Rightarrow> mail list \<Rightarrow> mail list option" where
  "mark_matching p ms =
    (if ms = [] then None
     else if list_all (\<lambda>m. ml_Read m \<or> \<not> p m) ms then None
     else Some (map (\<lambda>m. if \<not> ml_Read m \<and> p m then m\<lparr>ml_Read := True\<rparr> else m) ms))"

fun edit :: "mail_op \<Rightarrow> mail list \<Rightarrow> mail list option" where
  "edit (Send msg) ms = append_message msg ms"
| "edit MarkAll ms = mark_all ms"
| "edit (MarkIndex i) ms = mark_index i ms"
| "edit (MarkMatching p) ms = mark_matching p ms"
| "edit Clear ms = None"
| "edit Poll ms = None"

text \<open>Whether the look at the inbox before locking lets a marking go on.\<close>

fun worth_marking :: "mail_op \<Rightarrow> mail list \<Rightarrow> bool" where
  "worth_marking (MarkIndex i) ms \<longleftrightarrow>
    \<not> (ms = [] \<or> i < 0 \<or> i \<ge> int (length ms)) \<and> \<not> ml_Read (ms ! nat i)"
| "worth_marking op ms \<longleftrightarrow> ms \<noteq> []"

definition mail_key :: "mail \<Rightarrow> string" where
  "mail_key m = ml_From m @ [CHR 0x00] @ ml_Timestamp m"

definition same_key :: "mail list \<Rightarrow> mail \<Rightarrow> bool" where
  "same_key us m \<longleftrightarrow> mail_key m \<in> mail_key ` set us"

section \<open>Stages\<close>

text \<open>\<open>Await\<close> waits for the mutex of the process, \<open>AwaitFile\<close> for the lock of the file; the stages
  from \<open>Inside\<close> to \<open>Store\<close> hold both, \<open>AwaitFile\<close> and \<open>Leave\<close> the mutex.\<close>

datatype stage =
    Begin mail_op
  | MakeDir mail_op
  | OpenNew mail_op
  | FillNew mail_op
  | Await mail_op
  | AwaitFile mail_op
  | Inside mail_op
  | is_Replace: Replace mail_op "mail list"
  | Store mail_op "mail list"
  | Refill
  | Leave "mail_error option"
  | Done "mail_error option"

text \<open>What the outside can see of a stage: a rewritten inbox, messages handed to the callback of a
  poller, an inbox left without its bytes by a write that failed, an inbox emptied on purpose.\<close>

datatype action = Quiet | Commit mail_op | Deliver "mail list" | Break mail_op | Wipe

datatype lock_use = Keep | Take | Release

type_synonym move = "action \<times> inbox_file option \<times> lock_use \<times> lock_use \<times> stage"

abbreviation stay :: "inbox_file option \<Rightarrow> stage \<Rightarrow> move option" where
  "stay f st \<equiv> Some (Quiet, f, Keep, Keep, st)"

definition WriteToMailbox_step :: "bool \<Rightarrow> inbox_file option \<Rightarrow> stage \<Rightarrow> move option" where
  "WriteToMailbox_step ok f st = (case st of
      Begin op \<Rightarrow> stay f (if ok then OpenNew op else Done (Some DirError))
    | OpenNew op \<Rightarrow>
        (if \<not> ok then stay f (Done (Some CreateError))
         else if f = None then stay (Some NoBytes) (FillNew op)
         else stay f (Await op))
    | FillNew op \<Rightarrow>
        (if ok then stay (write_brackets f) (Await op) else Some (Break op, f, Keep, Keep, Await op))
    | _ \<Rightarrow> None)"

definition Mark_step :: "bool \<Rightarrow> inbox_file option \<Rightarrow> stage \<Rightarrow> move option" where
  "Mark_step ok f st = (case st of
      Begin op \<Rightarrow> (case ReadMailbox ok f of
          Inl e \<Rightarrow> stay f (Done (Some e))
        | Inr ms \<Rightarrow> stay f (if worth_marking op ms then MakeDir op else Done None))
    | MakeDir op \<Rightarrow> stay f (if ok then Await op else Done (Some DirError))
    | _ \<Rightarrow> None)"

definition ClearMailbox_step :: "bool \<Rightarrow> inbox_file option \<Rightarrow> stage \<Rightarrow> move option" where
  "ClearMailbox_step ok f st = (case st of
      Begin op \<Rightarrow>
        (if \<not> ok then stay f (Done (Some CreateError))
         else if f = None then stay f (Done None)
         else Some (Wipe, Some NoBytes, Keep, Keep, Refill))
    | Refill \<Rightarrow> (if ok then stay (write_brackets f) (Done None) else stay f (Done (Some WriteError)))
    | _ \<Rightarrow> None)"

definition poll_step :: "bool \<Rightarrow> inbox_file option \<Rightarrow> stage \<Rightarrow> move option" where
  "poll_step ok f st = (case st of
      Begin op \<Rightarrow> (case ReadUnreadMessages ok f of
          Inl e \<Rightarrow> stay f (Done None)
        | Inr us \<Rightarrow> if us = [] then stay f (Done None)
                   else Some (Deliver us, f, Keep, Keep, Begin (MarkMatching (same_key us))))
    | _ \<Rightarrow> None)"

text \<open>The locked part of an operation; \<open>mu_free\<close> and \<open>fl_free\<close> say whether the two locks can be had.\<close>

definition withLock_step :: "bool \<Rightarrow> bool \<Rightarrow> bool \<Rightarrow> inbox_file option \<Rightarrow> stage \<Rightarrow> move option" where
  "withLock_step ok mu_free fl_free f st = (case st of
      Await op \<Rightarrow> if mu_free then Some (Quiet, f, Take, Keep, AwaitFile op) else None
    | AwaitFile op \<Rightarrow>
        (if \<not> ok then stay f (Leave (Some LockError))
         else if fl_free then Some (Quiet, f, Keep, Take, Inside op) else None)
    | Inside op \<Rightarrow> (case ReadMailbox ok f of
          Inl e \<Rightarrow> Some (Quiet, f, Keep, Release, Leave (Some e))
        | Inr ms \<Rightarrow> (case edit op ms of
              None \<Rightarrow> Some (Quiet, f, Keep, Release, Leave None)
            | Some ms' \<Rightarrow> stay f (Replace op ms')))
    | Replace op ms \<Rightarrow>
        (if ok then stay (Some NoBytes) (Store op ms)
         else Some (Quiet, f, Keep, Release, Leave (Some WriteError)))
    | Store op ms \<Rightarrow>
        (if ok then Some (Commit op, write_list ms f, Keep, Release, Leave None)
         else Some (Break op, f, Keep, Release, Leave (Some WriteError)))
    | Leave e \<Rightarrow> Some (Quiet, f, Release, Keep, Done e)
    | _ \<Rightarrow> None)"

definition mail_move :: "bool \<Rightarrow> bool \<Rightarrow> bool \<Rightarrow> inbox_file option \<Rightarrow> stage \<Rightarrow> move option" where
  "mail_move ok mu_free fl_free f st = (case st of
      Begin (Send m) \<Rightarrow> WriteToMailbox_step ok f st
    | OpenNew op \<Rightarrow> WriteToMailbox_step ok f st
    | FillNew op \<Rightarrow> WriteToMailbox_step ok f st
    | Begin Clear \<Rightarrow> ClearMailbox_step ok f st
    | Refill \<Rightarrow> ClearMailbox_step ok f st
    | Begin Poll \<Rightarrow> poll_step ok f st
    | Begin op \<Rightarrow> Mark_step ok f st
    | MakeDir op \<Rightarrow> Mark_step ok f st
    | _ \<Rightarrow> withLock_step ok mu_free fl_free f st)"

section \<open>Goroutines of several processes\<close>

type_synonym tid = "nat \<times> nat"

type_synonym event = "tid \<times> string \<times> action"

record mail_world =
  w_files :: "string \<Rightarrow> inbox_file option"
  w_locks :: "string \<Rightarrow> tid option"
  w_mutexes :: "nat \<Rightarrow> tid option"
  w_threads :: "tid \<Rightarrow> (string \<times> stage) option"

fun use_lock :: "tid \<Rightarrow> lock_use \<Rightarrow> tid option \<Rightarrow> tid option" where
  "use_lock t Keep h = h"
| "use_lock t Take h = Some t"
| "use_lock t Release h = None"

definition mail_step :: "bool \<Rightarrow> tid \<Rightarrow> mail_world \<Rightarrow> (event \<times> mail_world) option" where
  "mail_step ok t w = (case w_threads w t of
      None \<Rightarrow> None
    | Some (q, st) \<Rightarrow>
       (case mail_move ok (w_mutexes w (fst t) = None) (w_locks w q = None) (w_files w q) st of
          None \<Rightarrow> None
        | Some (a, f, mu, fl, st') \<Rightarrow>
            Some ((t, q, a),
              w\<lparr>w_files := (w_files w)(q := f),
                w_locks := (w_locks w)(q := use_lock t fl (w_locks w q)),
                w_mutexes := (w_mutexes w)(fst t := use_lock t mu (w_mutexes w (fst t))),
                w_threads := (w_threads w)(t \<mapsto> (q, st'))\<rparr>)))"

fun mail_run :: "(bool \<times> tid) list \<Rightarrow> mail_world \<Rightarrow> (event list \<times> mail_world) option" where
  "mail_run [] w = Some ([], w)"
| "mail_run ((ok, t) # s) w = (case mail_step ok t w of
      None \<Rightarrow> None
    | Some (e, w1) \<Rightarrow> map_option (\<lambda>(es, w2). (e # es, w2)) (mail_run s w1))"

text \<open>\<open>ops t\<close> is the inbox and the operation of goroutine \<open>t\<close>, \<open>fs\<close> the inboxes that exist.\<close>

definition start_world :: "(tid \<Rightarrow> (string \<times> mail_op) option) \<Rightarrow> (string \<Rightarrow> mail list option) \<Rightarrow> mail_world" where
  "start_world ops fs =
    \<lparr>w_files = (\<lambda>q. map_option (\<lambda>ms. Inbox (map wire ms)) (fs q)),
     w_locks = (\<lambda>q. None), w_mutexes = (\<lambda>p. None),
     w_threads = (\<lambda>t. map_option (\<lambda>(q, op). (q, Begin op)) (ops t))\<rparr>"

section \<open>The abstract inbox\<close>

text \<open>A list of messages that each committed operation changes at once.\<close>

definition log_event :: "string \<Rightarrow> mail list \<Rightarrow> event \<Rightarrow> mail list" where
  "log_event q ms e = (case e of (t, q', a) \<Rightarrow>
     if q' = q then (case a of
         Commit op \<Rightarrow> (case edit op ms of None \<Rightarrow> ms | Some ms' \<Rightarrow> map wire ms')
       | _ \<Rightarrow> ms)
     else ms)"

definition inbox_log :: "string \<Rightarrow> event list \<Rightarrow> mail list \<Rightarrow> mail list" where
  "inbox_log q es ms = foldl (log_event q) ms es"

text \<open>A goroutine that has emptied or created the file and has not filled it yet.\<close>

fun writing :: "stage \<Rightarrow> bool" where
  "writing (FillNew op) \<longleftrightarrow> True"
| "writing (Store op ms) \<longleftrightarrow> True"
| "writing st \<longleftrightarrow> False"

section \<open>Locks\<close>

fun in_mutex :: "stage \<Rightarrow> bool" where
  "in_mutex (AwaitFile op) \<longleftrightarrow> True"
| "in_mutex (Inside op) \<longleftrightarrow> True"
| "in_mutex (Replace op ms) \<longleftrightarrow> True"
| "in_mutex (Store op ms) \<longleftrightarrow> True"
| "in_mutex (Leave e) \<longleftrightarrow> True"
| "in_mutex st \<longleftrightarrow> False"

fun in_lock :: "stage \<Rightarrow> bool" where
  "in_lock (Inside op) \<longleftrightarrow> True"
| "in_lock (Replace op ms) \<longleftrightarrow> True"
| "in_lock (Store op ms) \<longleftrightarrow> True"
| "in_lock st \<longleftrightarrow> False"

definition lock_inv :: "mail_world \<Rightarrow> bool" where
  "lock_inv w \<longleftrightarrow>
    (\<forall>p t. w_mutexes w p = Some t \<longleftrightarrow> fst t = p \<and> (\<exists>q st. w_threads w t = Some (q, st) \<and> in_mutex st))
    \<and> (\<forall>q t. w_locks w q = Some t \<longleftrightarrow> (\<exists>st. w_threads w t = Some (q, st) \<and> in_lock st))"

lemmas mail_moves = mail_move_def WriteToMailbox_step_def Mark_step_def ClearMailbox_step_def
  poll_step_def withLock_step_def

text \<open>How a use of a lock shows in the stages before and after it.\<close>

definition lock_shows :: "lock_use \<Rightarrow> bool \<Rightarrow> bool \<Rightarrow> bool \<Rightarrow> bool" where
  "lock_shows u free before after \<longleftrightarrow>
    (case u of Keep \<Rightarrow> before = after | Take \<Rightarrow> free \<and> \<not> before \<and> after | Release \<Rightarrow> before \<and> \<not> after)"

lemma mail_move_locks:
  assumes "mail_move ok mf lf f st = Some (a, f', mu, fl, st')"
  shows "lock_shows mu mf (in_mutex st) (in_mutex st') \<and> lock_shows fl lf (in_lock st) (in_lock st')"
proof (cases st)
  case (Begin op)
  with assms show ?thesis
    by (cases op) (auto simp: mail_moves lock_shows_def split: if_splits sum.splits)
qed (use assms in \<open>auto simp: mail_moves lock_shows_def split: if_splits sum.splits option.splits\<close>)

lemma mail_stepE:
  assumes "mail_step ok t w = Some (e, w')"
  obtains q st a f mu fl st' where "w_threads w t = Some (q, st)" "e = (t, q, a)"
    "mail_move ok (w_mutexes w (fst t) = None) (w_locks w q = None) (w_files w q) st = Some (a, f, mu, fl, st')"
    "w_files w' = (w_files w)(q := f)" "w_locks w' = (w_locks w)(q := use_lock t fl (w_locks w q))"
    "w_mutexes w' = (w_mutexes w)(fst t := use_lock t mu (w_mutexes w (fst t)))"
    "w_threads w' = (w_threads w)(t \<mapsto> (q, st'))"
  using assms by (auto simp: mail_step_def split: option.splits prod.splits)

lemma holder_step:
  assumes "lock_shows u (h = None) b b'" and "\<And>s. h = Some s \<longleftrightarrow> (if s = t then b else R s)"
  shows "use_lock t u h = Some s \<longleftrightarrow> (if s = t then b' else R s)"
  using assms(1) assms(2) [of s] assms(2) [of t]
  by (cases u; cases h) (simp_all add: lock_shows_def split: if_splits)
lemma lock_inv_step:
  assumes I: "lock_inv w" and s: "mail_step ok t w = Some (e, w')"
  shows "lock_inv w'"
proof -
  from s obtain q st a f mu fl st' where *: "w_threads w t = Some (q, st)"
    "mail_move ok (w_mutexes w (fst t) = None) (w_locks w q = None) (w_files w q) st = Some (a, f, mu, fl, st')"
    "w_locks w' = (w_locks w)(q := use_lock t fl (w_locks w q))"
    "w_mutexes w' = (w_mutexes w)(fst t := use_lock t mu (w_mutexes w (fst t)))"
    "w_threads w' = (w_threads w)(t \<mapsto> (q, st'))"
    by (rule mail_stepE)
  note u = mail_move_locks [OF *(2)]
  have mu: "use_lock t mu (w_mutexes w (fst t)) = Some s
      \<longleftrightarrow> (if s = t then in_mutex st' else fst s = fst t \<and> (\<exists>q st. w_threads w s = Some (q, st) \<and> in_mutex st))" for s
    by (rule holder_step [OF conjunct1 [OF u]]) (use I * in \<open>auto simp: lock_inv_def\<close>)
  have fl: "use_lock t fl (w_locks w q) = Some s
      \<longleftrightarrow> (if s = t then in_lock st' else (\<exists>st. w_threads w s = Some (q, st) \<and> in_lock st))" for s
    by (rule holder_step [OF conjunct2 [OF u]]) (use I * in \<open>auto simp: lock_inv_def\<close>)
  show ?thesis using I * mu fl by (auto simp: lock_inv_def)
qed

lemma lock_inv_start: "lock_inv (start_world ops fs)"
  by (auto simp: lock_inv_def start_world_def)

text \<open>An invariant of worlds and of what happened so far, along a schedule.\<close>

lemma mail_run_induct [consumes 1, case_names Start Step]:
  assumes "mail_run s w = Some (es, w')" and "P w []"
    and "\<And>ok t w1 es1 e w2. P w1 es1 \<Longrightarrow> mail_step ok t w1 = Some (e, w2) \<Longrightarrow> e \<in> set es
           \<Longrightarrow> P w2 (es1 @ [e])"
  shows "P w' es"
proof -
  have "mail_run s w1 = Some (es2, w') \<Longrightarrow> P w1 es1 \<Longrightarrow> set es2 \<subseteq> set es \<Longrightarrow> P w' (es1 @ es2)" for s w1 es1 es2
  proof (induction s w1 arbitrary: es1 es2 rule: mail_run.induct)
    case (2 ok t s w1)
    then obtain e w2 es3 where "mail_step ok t w1 = Some (e, w2)" "mail_run s w2 = Some (es3, w')" "es2 = e # es3"
      by (auto split: option.splits prod.splits)
    with 2 assms(3) [of w1 es1 ok t e w2] show ?case
      using "2.IH" [of "(e, w2)" e w2 es3 "es1 @ [e]"] by simp
  qed simp
  from this [OF assms(1,2)] show ?thesis by simp
qed

lemma lock_inv_run:
  assumes "mail_run s (start_world ops fs) = Some (es, w)"
  shows "lock_inv w"
  using assms by (induction rule: mail_run_induct) (auto simp: lock_inv_start intro: lock_inv_step)

section \<open>The files follow the log\<close>

text \<open>A goroutine that is past the creation of the inbox.\<close>

fun past_create :: "stage \<Rightarrow> bool" where
  "past_create (FillNew op) \<longleftrightarrow> True"
| "past_create (Await (Send m)) \<longleftrightarrow> True"
| "past_create (AwaitFile (Send m)) \<longleftrightarrow> True"
| "past_create (Inside (Send m)) \<longleftrightarrow> True"
| "past_create (Replace op ms) \<longleftrightarrow> True"
| "past_create (Store op ms) \<longleftrightarrow> True"
| "past_create st \<longleftrightarrow> False"

text \<open>What the stage of one goroutine promises about its inbox, whose messages are \<open>L\<close>.\<close>

fun stage_ok :: "mail list \<Rightarrow> inbox_file option \<Rightarrow> stage \<Rightarrow> bool" where
  "stage_ok L f (Replace op ms) \<longleftrightarrow> edit op L = Some ms \<and> f \<noteq> Some NoBytes"
| "stage_ok L f (FillNew op) \<longleftrightarrow> f = Some NoBytes \<and> L = []"
| "stage_ok L f (Store op ms) \<longleftrightarrow> f = Some NoBytes \<and> edit op L = Some ms"
| "stage_ok L f (Begin op) \<longleftrightarrow> op \<noteq> Clear"
| "stage_ok L f (MakeDir op) \<longleftrightarrow> (case op of Send m \<Rightarrow> False | _ \<Rightarrow> True)"
| "stage_ok L f Refill \<longleftrightarrow> False"
| "stage_ok L f st \<longleftrightarrow> True"

definition file_inv :: "mail_world \<Rightarrow> string \<Rightarrow> mail list \<Rightarrow> bool" where
  "file_inv w q L \<longleftrightarrow>
    (\<forall>t st. w_threads w t = Some (q, st) \<longrightarrow>
       stage_ok L (w_files w q) st \<and> (past_create st \<longrightarrow> w_files w q \<noteq> None))
    \<and> (\<forall>t st t' st'. w_threads w t = Some (q, st) \<longrightarrow> w_threads w t' = Some (q, st')
         \<longrightarrow> writing st \<longrightarrow> writing st' \<longrightarrow> t = t')
    \<and> ((\<forall>t st. w_threads w t = Some (q, st) \<longrightarrow> \<not> writing st) \<longrightarrow> ReadMailbox True (w_files w q) = Inr L)"

text \<open>The five ways in which a stage of an operation that empties no inbox and breaks none can treat the file.\<close>

lemma mail_move_cases:
  assumes "mail_move ok mf lf f st = Some (a, f', mu, fl, st')"
    and "stage_ok L f st" and "\<And>op. a \<noteq> Break op"
  obtains
    (Same) "f' = f" "\<not> writing st" "\<not> writing st'" "\<And>op. a \<noteq> Commit op"
      "past_create st' \<Longrightarrow> past_create st \<or> f \<noteq> None"
      "\<And>op ms. st' = Replace op ms \<Longrightarrow> st = Inside op \<and> (\<exists>ms0. ReadMailbox True f = Inr ms0 \<and> edit op ms0 = Some ms)"
      "\<not> is_Replace st' \<Longrightarrow> stage_ok L f st'"
  | (OpenNew) op where "st = OpenNew op" "f = None" "f' = Some NoBytes" "st' = FillNew op" "a = Quiet"
  | (Fill) op where "st = FillNew op" "f' = write_brackets f" "st' = Await op" "a = Quiet"
  | (Truncate) op ms where "st = Replace op ms" "f' = Some NoBytes" "st' = Store op ms" "a = Quiet"
  | (Commit) op ms where "st = Store op ms" "f' = write_list ms f" "st' = Leave None" "a = Commit op"
proof (cases st)
  case (Begin op)
  with assms that(1) show ?thesis
    by (cases op) (auto simp: mail_moves split: if_splits sum.splits)
next
  case (Inside op)
  with assms that(1) show ?thesis
    by (cases op) (auto simp: mail_moves ReadMailbox_def mark_all_def mark_index_def mark_matching_def
        split: if_splits sum.splits option.splits)
next
  case (OpenNew op)
  with assms that(1,2) show ?thesis
    by (cases op) (auto simp: mail_moves split: if_splits)
next
  case (MakeDir op)
  with assms that(1) show ?thesis
    by (cases op) (auto simp: mail_moves split: if_splits)
next
  case (Await op)
  with assms that(1) show ?thesis
    by (cases op) (auto simp: mail_moves split: if_splits)
next
  case (AwaitFile op)
  with assms that(1) show ?thesis
    by (cases op) (auto simp: mail_moves split: if_splits)
qed (use assms that in \<open>auto simp: mail_moves split: if_splits\<close>)

lemma file_invD:
  assumes "file_inv w q L"
  shows "w_threads w t = Some (q, st) \<Longrightarrow> stage_ok L (w_files w q) st"
    and "w_threads w t = Some (q, st) \<Longrightarrow> past_create st \<Longrightarrow> w_files w q \<noteq> None"
    and "w_threads w t = Some (q, st) \<Longrightarrow> w_threads w t' = Some (q, st') \<Longrightarrow> writing st \<Longrightarrow> writing st' \<Longrightarrow> t = t'"
    and "(\<And>t st. w_threads w t = Some (q, st) \<Longrightarrow> \<not> writing st) \<Longrightarrow> ReadMailbox True (w_files w q) = Inr L"
  using assms unfolding file_inv_def by blast+

lemma writing_stage: "writing st \<Longrightarrow> stage_ok L f st \<Longrightarrow> f = Some NoBytes \<and> past_create st"
  by (cases st) auto

lemma one_lock_holder:
  assumes "lock_inv w" and "w_threads w t = Some (q, st)" "w_threads w t' = Some (q, st')"
    and "in_lock st" "in_lock st'"
  shows "t = t'"
  using assms unfolding lock_inv_def by (metis option.inject)

lemma replace_stage: "is_Replace st \<Longrightarrow> stage_ok L f st \<Longrightarrow> f \<noteq> Some NoBytes \<and> in_lock st \<and> past_create st"
  by (cases st) auto

lemma stage_ok_other:
  "stage_ok L f st \<Longrightarrow> \<not> writing st \<Longrightarrow> \<not> is_Replace st \<Longrightarrow> stage_ok L' f' st"
  by (cases st) auto

lemma file_inv_elsewhere:
  assumes "file_inv w q L" and "w_files w' q = w_files w q"
    and "\<And>r sr. w_threads w' r = Some (q, sr) \<longleftrightarrow> w_threads w r = Some (q, sr)"
  shows "file_inv w' q L"
  using assms(1) unfolding file_inv_def by (simp only: assms(2,3))

lemma file_inv_moved:
  assumes I: "file_inv w q L"
    and w': "w_threads w' = (w_threads w)(t \<mapsto> (q, st'))"
    and st': "stage_ok L' (w_files w' q) st'" "past_create st' \<Longrightarrow> w_files w' q \<noteq> None"
    and o: "\<And>r sr. w_threads w r = Some (q, sr) \<Longrightarrow> r \<noteq> t \<Longrightarrow>
        stage_ok L' (w_files w' q) sr \<and> (past_create sr \<longrightarrow> w_files w' q \<noteq> None) \<and> \<not> (writing sr \<and> writing st')"
    and n: "\<not> writing st' \<Longrightarrow> (\<And>r sr. w_threads w r = Some (q, sr) \<Longrightarrow> r \<noteq> t \<Longrightarrow> \<not> writing sr)
        \<Longrightarrow> ReadMailbox True (w_files w' q) = Inr L'"
  shows "file_inv w' q L'"
  unfolding file_inv_def
proof (intro conjI allI impI)
  fix r sr assume "w_threads w' r = Some (q, sr)"
  then show "stage_ok L' (w_files w' q) sr" "past_create sr \<Longrightarrow> w_files w' q \<noteq> None"
    using st' o [of r sr] by (auto simp: w' split: if_splits)
next
  fix r sr r' sr'
  assume "w_threads w' r = Some (q, sr)" "w_threads w' r' = Some (q, sr')" "writing sr" "writing sr'"
  then show "r = r'"
    using o [of r sr] o [of r' sr'] file_invD(3) [OF I, of r sr r' sr'] by (auto simp: w' split: if_splits)
next
  assume a: "\<forall>r sr. w_threads w' r = Some (q, sr) \<longrightarrow> \<not> writing sr"
  have "\<not> writing st'" using a [rule_format, of t st'] by (simp add: w')
  moreover have "\<not> writing sr" if "w_threads w r = Some (q, sr)" "r \<noteq> t" for r sr
    using a [rule_format, of r sr] that by (simp add: w')
  ultimately show "ReadMailbox True (w_files w' q) = Inr L'" by (rule n)
qed

lemma file_inv_step:
  assumes K: "lock_inv w" and I: "file_inv w q L" and s: "mail_step ok t w = Some (e, w')"
    and b: "\<And>t q op. e \<noteq> (t, q, Break op)"
  shows "file_inv w' q (log_event q L e)"
proof -
  from s obtain q1 st a f mu fl st' where w: "w_threads w t = Some (q1, st)" "e = (t, q1, a)"
    and m: "mail_move ok (w_mutexes w (fst t) = None) (w_locks w q1 = None) (w_files w q1) st = Some (a, f, mu, fl, st')"
    and w': "w_files w' = (w_files w)(q1 := f)" "w_threads w' = (w_threads w)(t \<mapsto> (q1, st'))"
    by (rule mail_stepE)
  show ?thesis
  proof (cases "q1 = q")
    case False
    then have "log_event q L e = L" by (simp add: w log_event_def)
    moreover have "file_inv w' q L"
      by (rule file_inv_elsewhere [OF I]) (use False w w' in \<open>simp_all only: fun_upd_apply split: if_splits, auto\<close>)
    ultimately show ?thesis by simp
  next
    case True
    note [simp] = True
    note D = file_invD [OF I]
    have ok: "stage_ok L (w_files w q) st" using D(1) w by simp
    have none: "w_threads w r = Some (q, sr) \<Longrightarrow> \<not> writing sr" if "w_files w q \<noteq> Some NoBytes" for r sr
      using D(1) writing_stage that by blast
    from m b w ok have m': "mail_move ok (w_mutexes w (fst t) = None) (w_locks w q = None) (w_files w q) st = Some (a, f, mu, fl, st')"
      "\<And>op. a \<noteq> Break op" by auto
    from m'(1) ok m'(2) show ?thesis
    proof (cases rule: mail_move_cases)
      case Same
      have L: "log_event q L e = L" using Same(4) w by (auto simp: log_event_def split: action.splits)
      have "stage_ok L (w_files w q) st'"
      proof (cases "is_Replace st'")
        case True
        then obtain op ms where r: "st' = Replace op ms" by (cases st') auto
        with Same(6) obtain ms0 where "ReadMailbox True (w_files w q) = Inr ms0" "edit op ms0 = Some ms" by blast
        moreover from this have "w_files w q \<noteq> Some NoBytes" by (auto simp: ReadMailbox_def)
        ultimately show ?thesis using r D(4) none by auto
      qed (use Same(7) in simp)
      moreover have "past_create st' \<Longrightarrow> w_files w q \<noteq> None" using Same(5) D(2) [of t st] w by auto
      moreover have fq: "w_files w' q = w_files w q" using w'(1) Same(1) by simp
      moreover have "ReadMailbox True (w_files w q) = Inr L"
        if "\<And>r sr. w_threads w r = Some (q, sr) \<Longrightarrow> r \<noteq> t \<Longrightarrow> \<not> writing sr"
        by (rule D(4)) (use that w(1) Same(2) in fastforce)
      ultimately show ?thesis
        unfolding L using D(1,2) Same(3) w'(2)
        by (intro file_inv_moved [OF I, of w' t st']) (simp_all only: fq True, blast+)
    next
      case (OpenNew op)
      have no: "w_threads w r = Some (q, sr) \<Longrightarrow> \<not> writing sr \<and> \<not> is_Replace sr" for r sr
        using D(1,2) [of r sr] OpenNew(2) none replace_stage by auto
      then have "L = []" using D(4) OpenNew(2) by (auto simp: ReadMailbox_def)
      moreover have "w_threads w r = Some (q, sr) \<Longrightarrow> stage_ok L (Some NoBytes) sr" for r sr
        using D(1) no stage_ok_other by blast
      ultimately show ?thesis
        using w w' OpenNew no by (intro file_inv_moved [OF I, of w' t st']) (auto simp: log_event_def)
    next
      case (Fill op)
      with ok have f: "w_files w q = Some NoBytes" "L = []" by auto
      have no: "w_threads w r = Some (q, sr) \<Longrightarrow> r \<noteq> t \<Longrightarrow> \<not> writing sr \<and> \<not> is_Replace sr" for r sr
        using D(1,3) [of r sr] w(1) Fill(1) f(1) replace_stage by fastforce
      moreover have "w_threads w r = Some (q, sr) \<Longrightarrow> r \<noteq> t \<Longrightarrow> stage_ok [] f sr" for r sr
        using D(1) no stage_ok_other by blast
      ultimately show ?thesis
        using w w' Fill f
        by (intro file_inv_moved [OF I, of w' t st']) (auto simp: log_event_def write_brackets_def ReadMailbox_def)
    next
      case (Truncate op ms)
      with ok have f: "w_files w q \<noteq> Some NoBytes" "edit op L = Some ms" by auto
      have no: "w_threads w r = Some (q, sr) \<Longrightarrow> r \<noteq> t \<Longrightarrow> \<not> writing sr \<and> \<not> is_Replace sr" for r sr
        using D(1) [of r sr] w(1) Truncate(1) none [OF f(1)] replace_stage one_lock_holder [OF K, of r q sr t st] by auto
      moreover have "w_threads w r = Some (q, sr) \<Longrightarrow> r \<noteq> t \<Longrightarrow> stage_ok L f sr" for r sr
        using D(1) no stage_ok_other by blast
      ultimately show ?thesis
        using w w' Truncate f by (intro file_inv_moved [OF I, of w' t st']) (auto simp: log_event_def)
    next
      case (Commit op ms)
      with ok have f: "w_files w q = Some NoBytes" "edit op L = Some ms" by auto
      have no: "w_threads w r = Some (q, sr) \<Longrightarrow> r \<noteq> t \<Longrightarrow> \<not> writing sr \<and> \<not> is_Replace sr" for r sr
        using D(1,3) [of r sr] w(1) Commit(1) f(1) replace_stage by fastforce
      moreover have "w_threads w r = Some (q, sr) \<Longrightarrow> r \<noteq> t \<Longrightarrow> stage_ok (map wire ms) f sr" for r sr
        using D(1) no stage_ok_other by blast
      ultimately show ?thesis
        using w w' Commit f
        by (intro file_inv_moved [OF I, of w' t st']) (auto simp: log_event_def write_list_def ReadMailbox_def)
    qed
  qed
qed

definition first_log :: "(string \<Rightarrow> mail list option) \<Rightarrow> string \<Rightarrow> mail list" where
  "first_log fs q = (case fs q of None \<Rightarrow> [] | Some ms \<Rightarrow> map wire ms)"

lemma inbox_log_simps [simp]: "inbox_log q [] ms = ms" "inbox_log q (es @ [e]) ms = log_event q (inbox_log q es ms) e"
  by (simp_all add: inbox_log_def)

lemma file_inv_start:
  assumes "\<And>t q. ops t \<noteq> Some (q, Clear)"
  shows "file_inv (start_world ops fs) q (first_log fs q)"
  using assms
  by (auto simp: file_inv_def start_world_def first_log_def ReadMailbox_def split: option.splits)

lemma file_inv_run:
  assumes "mail_run s (start_world ops fs) = Some (es, w)" and c: "\<And>t q. ops t \<noteq> Some (q, Clear)"
    and b: "\<And>t q op. (t, q, Break op) \<notin> set es"
  shows "lock_inv w \<and> file_inv w q (inbox_log q es (first_log fs q))"
  using assms(1)
proof (induction rule: mail_run_induct)
  case Start
  show ?case by (simp add: lock_inv_start file_inv_start [OF c])
next
  case (Step ok t w1 es1 e w2)
  have "e \<noteq> (t, q, Break op)" for t q op using b Step(3) by blast
  with Step(1,2) file_inv_step [of w1 q _ ok t e w2] lock_inv_step [of w1 ok t e w2] show ?case by simp
qed


section \<open>No message is lost\<close>

lemma decode_runes_are_runes: "Some n \<in> set (decode_runes s) \<Longrightarrow> is_rune n"
proof (induction s rule: decode_runes.induct)
  case (2 a s)
  then show ?case by (auto split: option.splits prod.splits dest: decode_encode_front)
qed simp

lemma runes_are_runes: "list_all is_rune (runes s)"
  by (auto simp: list_all_iff runes_def is_rune_def [of 65533] split: option.splits dest: decode_runes_are_runes)

lemma json_text_idem [simp]: "json_text (json_text s) = json_text s"
  using runes_encode [OF runes_are_runes [of s]] by (simp add: json_text_def)

lemma wire_idem [simp]: "wire (wire m) = wire m"
  by (simp add: wire_def)

text \<open>A message as it arrives, whether it has been read or not.\<close>

definition arrived :: "mail \<Rightarrow> mail" where
  "arrived m = (wire m)\<lparr>ml_Read := True\<rparr>"

lemma arrived_simps [simp]: "arrived (wire m) = arrived m" "arrived (m\<lparr>ml_Read := b\<rparr>) = arrived m"
  by (simp_all add: arrived_def wire_def)

lemma arrived_list_update: "i < length ms \<Longrightarrow> arrived m = arrived (ms ! i) \<Longrightarrow> map arrived (ms[i := m]) = map arrived ms"
  by (simp add: list_eq_iff_nth_eq nth_list_update)

lemma edit_arrived:
  assumes "edit op ms = Some ms'"
  shows "map arrived ms' = map arrived ms @ (case op of Send m \<Rightarrow> [arrived m] | _ \<Rightarrow> [])"
  using assms
  by (cases op) (auto simp: append_message_def mark_all_def mark_index_def mark_matching_def arrived_list_update
      split: if_splits)

text \<open>The messages whose sending was committed to an inbox, in order.\<close>

definition sent_to :: "string \<Rightarrow> event list \<Rightarrow> mail list" where
  "sent_to q es = concat (map (\<lambda>(t, q', a). if q' = q then (case a of Commit (Send m) \<Rightarrow> [m] | _ \<Rightarrow> []) else []) es)"

lemma log_event_arrived:
  assumes "\<And>t op. e = (t, q, Commit op) \<Longrightarrow> edit op ms \<noteq> None"
  shows "map arrived (log_event q ms e) = map arrived ms @ map arrived (sent_to q [e])"
proof -
  obtain t q' a where e: "e = (t, q', a)" by (cases e) auto
  show ?thesis
  proof (cases "\<exists>op. q' = q \<and> a = Commit op")
    case True
    then obtain op where op: "q' = q" "a = Commit op" by blast
    with assms e obtain ms' where "edit op ms = Some ms'" by blast
    moreover from this have "map (arrived \<circ> wire) ms' = map arrived ms @ (case op of Send m \<Rightarrow> [arrived m] | _ \<Rightarrow> [])"
      using edit_arrived [of op ms ms'] by (simp add: comp_def)
    ultimately show ?thesis by (simp add: e op log_event_def sent_to_def split: mail_op.splits)
  next
    case False
    then show ?thesis by (auto simp: e log_event_def sent_to_def split: action.splits)
  qed
qed

lemma sent_to_simps [simp]: "sent_to q [] = []" "sent_to q (es @ fs) = sent_to q es @ sent_to q fs"
  by (simp_all add: sent_to_def)

lemma commit_stage:
  assumes "mail_move ok mf lf f st = Some (Commit op, f', mu, fl, st')"
  shows "\<exists>ms. st = Store op ms"
proof (cases st)
  case (Begin op)
  with assms show ?thesis by (cases op) (auto simp: mail_moves split: if_splits sum.splits)
qed (use assms in \<open>auto simp: mail_moves split: if_splits sum.splits option.splits\<close>)

lemma commit_edits:
  assumes "file_inv w q L" and "mail_step ok t w = Some ((t', q, Commit op), w')"
  shows "edit op L \<noteq> None"
proof -
  from assms(2) obtain st f mu fl st' where "w_threads w t = Some (q, st)"
    "mail_move ok (w_mutexes w (fst t) = None) (w_locks w q = None) (w_files w q) st = Some (Commit op, f, mu, fl, st')"
    by (auto elim: mail_stepE)
  with commit_stage [OF this(2)] file_invD(1) [OF assms(1)] show ?thesis by fastforce
qed

lemma log_arrived_run:
  assumes "mail_run s (start_world ops fs) = Some (es, w)" and c: "\<And>t q. ops t \<noteq> Some (q, Clear)"
    and b: "\<And>t q op. (t, q, Break op) \<notin> set es"
  shows "lock_inv w \<and> file_inv w q (inbox_log q es (first_log fs q)) \<and>
    map arrived (inbox_log q es (first_log fs q)) = map arrived (first_log fs q) @ map arrived (sent_to q es)"
  using assms(1)
proof (induction rule: mail_run_induct)
  case Start
  show ?case by (simp add: lock_inv_start file_inv_start [OF c])
next
  case (Step ok t w1 es1 e w2)
  have "e \<noteq> (t, q, Break op)" for t q op using b Step(3) by blast
  then have "file_inv w2 q (inbox_log q (es1 @ [e]) (first_log fs q))" "lock_inv w2"
    using Step(1,2) file_inv_step [of w1 q _ ok t e w2] lock_inv_step [of w1 ok t e w2] by simp_all
  moreover have "map arrived (log_event q (inbox_log q es1 (first_log fs q)) e)
      = map arrived (inbox_log q es1 (first_log fs q)) @ map arrived (sent_to q [e])"
    by (rule log_event_arrived) (use Step(1,2) commit_edits in blast)
  ultimately show ?case using Step(1) by simp
qed

text \<open>The stages of a sending goroutine.\<close>

fun send_stage :: "mail \<Rightarrow> stage \<Rightarrow> bool" where
  "send_stage m (Begin op) \<longleftrightarrow> op = Send m"
| "send_stage m (MakeDir op) \<longleftrightarrow> False"
| "send_stage m (OpenNew op) \<longleftrightarrow> op = Send m"
| "send_stage m (FillNew op) \<longleftrightarrow> op = Send m"
| "send_stage m (Await op) \<longleftrightarrow> op = Send m"
| "send_stage m (AwaitFile op) \<longleftrightarrow> op = Send m"
| "send_stage m (Inside op) \<longleftrightarrow> op = Send m"
| "send_stage m (Replace op ms) \<longleftrightarrow> op = Send m"
| "send_stage m (Store op ms) \<longleftrightarrow> op = Send m"
| "send_stage m Refill \<longleftrightarrow> False"
| "send_stage m (Leave e) \<longleftrightarrow> True"
| "send_stage m (Done e) \<longleftrightarrow> True"

definition sent :: "stage \<Rightarrow> bool" where
  "sent st \<longleftrightarrow> st = Leave None \<or> st = Done None"

lemma send_stage_move:
  assumes "mail_move ok mf lf f st = Some (a, f', mu, fl, st')" and "send_stage m st"
  shows "send_stage m st' \<and> (sent st' \<longleftrightarrow> sent st \<or> a = Commit (Send m)) \<and> (a = Commit (Send m) \<longrightarrow> \<not> sent st)"
  using assms
  by (cases st) (auto simp: mail_moves sent_def append_message_def split: if_splits sum.splits)

definition send_inv :: "(tid \<Rightarrow> (string \<times> mail_op) option) \<Rightarrow> mail_world \<Rightarrow> event list \<Rightarrow> bool" where
  "send_inv ops w es \<longleftrightarrow> (\<forall>t q m. ops t = Some (q, Send m) \<longrightarrow>
     (\<exists>st. w_threads w t = Some (q, st) \<and> send_stage m st
       \<and> count_list es (t, q, Commit (Send m)) = (if sent st then 1 else 0)))"

lemma send_inv_run:
  assumes "mail_run s (start_world ops fs) = Some (es, w)"
  shows "send_inv ops w es"
  using assms
proof (induction rule: mail_run_induct)
  case Start
  show ?case by (auto simp: send_inv_def start_world_def sent_def)
next
  case (Step ok t w1 es1 e w2)
  from Step(2) obtain q1 st a f mu fl st' where *: "w_threads w1 t = Some (q1, st)" "e = (t, q1, a)"
    "mail_move ok (w_mutexes w1 (fst t) = None) (w_locks w1 q1 = None) (w_files w1 q1) st = Some (a, f, mu, fl, st')"
    "w_threads w2 = (w_threads w1)(t \<mapsto> (q1, st'))"
    by (rule mail_stepE)
  show ?case unfolding send_inv_def
  proof (intro allI impI)
    fix r q m assume r: "ops r = Some (q, Send m)"
    with Step(1) obtain sr where sr: "w_threads w1 r = Some (q, sr)" "send_stage m sr"
      "count_list es1 (r, q, Commit (Send m)) = (if sent sr then 1 else 0)"
      unfolding send_inv_def by blast
    show "\<exists>st. w_threads w2 r = Some (q, st) \<and> send_stage m st
       \<and> count_list (es1 @ [e]) (r, q, Commit (Send m)) = (if sent st then 1 else 0)"
    proof (cases "r = t")
      case True
      with sr *(1) send_stage_move [OF *(3), of m] show ?thesis by (auto simp: *(2,4))
    qed (use sr in \<open>simp add: *(2,4)\<close>)
  qed
qed

text \<open>
  C27: No message is lost and none arrives twice. Take goroutines that send, mark and poll (none
  clears an inbox), any schedule of their system calls and any of these failing, except a write that
  fails after its file has been created or emptied. While nobody is between emptying an inbox and
  filling it, the inbox holds the messages it began with and after them those sent to it, in the
  order of the commits; a sender that has returned has put its message there exactly once if it
  reported success, and not at all if it reported an error.
\<close>

theorem no_message_is_lost:
  assumes "mail_run s (start_world ops fs) = Some (es, w)"
    and "\<forall>t q. ops t \<noteq> Some (q, Clear)"
    and "\<forall>t q op. (t, q, Break op) \<notin> set es"
    and "\<forall>t st. w_threads w t = Some (q, st) \<longrightarrow> \<not> writing st"
  shows "\<exists>ms. ReadMailbox True (w_files w q) = Inr ms
      \<and> map arrived ms = map arrived (first_log fs q) @ map arrived (sent_to q es)
      \<and> (\<forall>t m r. ops t = Some (q, Send m) \<longrightarrow> w_threads w t = Some (q, Done r)
           \<longrightarrow> count_list es (t, q, Commit (Send m)) = (if r = None then 1 else 0))"
proof -
  have "file_inv w q (inbox_log q es (first_log fs q))"
    and a: "map arrived (inbox_log q es (first_log fs q)) = map arrived (first_log fs q) @ map arrived (sent_to q es)"
    using log_arrived_run [OF assms(1)] assms(2,3) by simp_all
  then have "ReadMailbox True (w_files w q) = Inr (inbox_log q es (first_log fs q))"
    by (intro file_invD(4)) (use assms(4) in blast)+
  moreover have "count_list es (t, q, Commit (Send m)) = (if r = None then 1 else 0)"
    if o: "ops t = Some (q, Send m)" and d: "w_threads w t = Some (q, Done r)" for t m r
  proof -
    obtain st where "w_threads w t = Some (q, st)"
      "count_list es (t, q, Commit (Send m)) = (if sent st then 1 else 0)"
      using send_inv_run [OF assms(1)] o unfolding send_inv_def by blast
    with d show ?thesis by (simp add: sent_def)
  qed
  ultimately show ?thesis using a by blast
qed

section \<open>Every operation ends\<close>

fun rank :: "stage \<Rightarrow> nat" where
  "rank (Begin op) = (case op of Poll \<Rightarrow> 10 | _ \<Rightarrow> 9)"
| "rank (OpenNew op) = 8"
| "rank (MakeDir op) = 7"
| "rank (FillNew op) = 7"
| "rank (Await op) = 6"
| "rank (AwaitFile op) = 5"
| "rank (Inside op) = 4"
| "rank (Replace op ms) = 3"
| "rank (Store op ms) = 2"
| "rank (Leave e) = 1"
| "rank Refill = 1"
| "rank (Done e) = 0"

fun is_done :: "stage \<Rightarrow> bool" where
  "is_done (Done e) \<longleftrightarrow> True"
| "is_done st \<longleftrightarrow> False"

lemma mail_move_rank:
  assumes "mail_move ok mf lf f st = Some (a, f', mu, fl, st')"
  shows "rank st' < rank st"
proof (cases st)
  case (Begin op)
  with assms show ?thesis by (cases op) (auto simp: mail_moves split: if_splits sum.splits)
qed (use assms in \<open>auto simp: mail_moves split: if_splits sum.splits option.splits\<close>)

lemma mail_move_exists:
  assumes "\<not> is_done st" "\<And>op. st \<noteq> Await op" "\<And>op. st \<noteq> AwaitFile op"
  shows "mail_move True mf lf f st \<noteq> None"
proof (cases st)
  case (Begin op)
  then show ?thesis by (cases op) (auto simp: mail_moves split: sum.splits)
qed (use assms in \<open>auto simp: mail_moves split: sum.splits option.splits\<close>)

lemma mail_step_exists:
  assumes "w_threads w t = Some (q, st)"
    and "mail_move ok (w_mutexes w (fst t) = None) (w_locks w q = None) (w_files w q) st \<noteq> None"
  shows "\<exists>r. mail_step ok t w = Some r"
  using assms by (auto simp: mail_step_def split: option.splits prod.splits)

lemma in_lock_moves: "in_lock st \<Longrightarrow> mail_move True mf lf f st \<noteq> None"
  by (intro mail_move_exists; cases st) auto

lemma in_mutex_moves: "in_mutex st \<Longrightarrow> (\<And>op. st \<noteq> AwaitFile op) \<Longrightarrow> mail_move True mf lf f st \<noteq> None"
  by (intro mail_move_exists; cases st) auto

lemma await_file_moves:
  assumes K: "lock_inv w" and t: "w_threads w t = Some (q, AwaitFile op)"
  shows "\<exists>t r. mail_step True t w = Some r"
proof (cases "w_locks w q")
  case None
  have "\<exists>r. mail_step True t w = Some r" by (rule mail_step_exists [OF t]) (simp add: mail_moves None)
  then show ?thesis by blast
next
  case (Some t')
  with K obtain st where "w_threads w t' = Some (q, st)" "in_lock st" unfolding lock_inv_def by blast
  then show ?thesis using mail_step_exists [of w t' q st True] in_lock_moves by blast
qed

lemma no_deadlock:
  assumes K: "lock_inv w" and t: "w_threads w t = Some (q, st)" and "\<not> is_done st"
  shows "\<exists>t r. mail_step True t w = Some r"
proof -
  consider op where "st = AwaitFile op" | op where "st = Await op" | "\<And>op. st \<noteq> Await op" "\<And>op. st \<noteq> AwaitFile op" by blast
  then show ?thesis
  proof cases
    case 1
    with K t await_file_moves show ?thesis by blast
  next
    case (2 op)
    show ?thesis
    proof (cases "w_mutexes w (fst t)")
      case None
      have "\<exists>r. mail_step True t w = Some r" by (rule mail_step_exists [OF t]) (simp add: mail_moves None 2)
      then show ?thesis by blast
    next
      case (Some t')
      with K obtain q' st' where s: "w_threads w t' = Some (q', st')" "in_mutex st'" unfolding lock_inv_def by blast
      show ?thesis
      proof (cases "\<exists>op. st' = AwaitFile op")
        case True
        with K s await_file_moves show ?thesis by blast
      next
        case False
        with s show ?thesis using mail_step_exists [of w t' q' st' True] in_mutex_moves by blast
      qed
    qed
  next
    case 3
    with assms show ?thesis using mail_step_exists [OF t, of True] mail_move_exists by blast
  qed
qed

definition work_left :: "mail_world \<Rightarrow> nat" where
  "work_left w = (\<Sum>t\<in>dom (w_threads w). case w_threads w t of None \<Rightarrow> 0 | Some (q, st) \<Rightarrow> rank st)"

lemma work_left_step:
  assumes "finite (dom (w_threads w))" and "mail_step ok t w = Some (e, w')"
  shows "work_left w' < work_left w \<and> dom (w_threads w') = dom (w_threads w)"
proof -
  from assms(2) obtain q st a f mu fl st' where *: "w_threads w t = Some (q, st)"
    "mail_move ok (w_mutexes w (fst t) = None) (w_locks w q = None) (w_files w q) st = Some (a, f, mu, fl, st')"
    "w_threads w' = (w_threads w)(t \<mapsto> (q, st'))"
    by (rule mail_stepE)
  have d: "dom (w_threads w') = dom (w_threads w)" using *(1,3) by auto
  have "work_left w' < work_left w" unfolding work_left_def d
    by (rule sum_strict_mono_ex1)
       (use * assms(1) mail_move_rank [OF *(2)] in \<open>auto simp: less_imp_le split: option.splits\<close>)
  with d show ?thesis by simp
qed

lemma mail_run_length:
  assumes "mail_run s w = Some (es, w')" and "finite (dom (w_threads w))"
  shows "length s + work_left w' \<le> work_left w"
  using assms
proof (induction s w arbitrary: es rule: mail_run.induct)
  case (2 ok t s w)
  then obtain e w2 es2 where s: "mail_step ok t w = Some (e, w2)" "mail_run s w2 = Some (es2, w')"
    by (auto split: option.splits prod.splits)
  with work_left_step [OF 2(3) s(1)] 2(3) "2.IH" [OF s(1) refl s(2)] show ?case by simp
qed simp

text \<open>Every operation on the inboxes ends. A schedule of finitely many goroutines has at most ten steps for
  each of them, whatever calls fail, and as long as one of them has not returned some goroutine can
  move: the mutexes of the processes and the locks of the files never block each other.\<close>

theorem mailbox_drains:
  assumes "finite (dom ops)" and "mail_run s (start_world ops fs) = Some (es, w)"
  shows "length s \<le> 10 * card (dom ops)
      \<and> ((\<exists>t q st. w_threads w t = Some (q, st) \<and> \<not> is_done st) \<longrightarrow> (\<exists>t r. mail_step True t w = Some r))"
proof -
  let ?w = "start_world ops fs"
  have d: "dom (w_threads ?w) = dom ops" by (auto simp: start_world_def dom_def)
  have "work_left ?w \<le> (\<Sum>t\<in>dom ops. 10)" unfolding work_left_def d
    by (rule sum_mono) (auto simp: start_world_def split: mail_op.splits)
  moreover have "length s \<le> work_left ?w" using mail_run_length [OF assms(2)] assms(1) d by simp
  ultimately have "length s \<le> 10 * card (dom ops)" by simp
  moreover have "lock_inv w" using assms(2) by (rule lock_inv_run)
  ultimately show ?thesis using no_deadlock by blast
qed

section \<open>Read means delivered\<close>

fun stage_op :: "stage \<Rightarrow> mail_op option" where
  "stage_op (Begin op) = Some op"
| "stage_op (MakeDir op) = Some op"
| "stage_op (OpenNew op) = Some op"
| "stage_op (FillNew op) = Some op"
| "stage_op (Await op) = Some op"
| "stage_op (AwaitFile op) = Some op"
| "stage_op (Inside op) = Some op"
| "stage_op (Replace op ms) = Some op"
| "stage_op (Store op ms) = Some op"
| "stage_op st = None"

lemma mail_move_op:
  assumes "mail_move ok mf lf f st = Some (a, f', mu, fl, st')" and "stage_op st' = Some op"
  shows "stage_op st = Some op
    \<or> (stage_op st = Some Poll \<and> (\<exists>us. op = MarkMatching (same_key us) \<and> a = Deliver us))"
proof (cases st)
  case (Begin op)
  with assms show ?thesis by (cases op) (auto simp: mail_moves split: if_splits sum.splits)
qed (use assms in \<open>auto simp: mail_moves split: if_splits sum.splits option.splits\<close>)

lemma deliver_move:
  assumes "mail_move ok mf lf f st = Some (Deliver us, f', mu, fl, st')"
  shows "\<exists>ms. ReadMailbox True f = Inr ms \<and> us = filter (\<lambda>m. \<not> ml_Read m) ms"
proof (cases st)
  case (Begin op)
  with assms show ?thesis
    by (cases op) (auto simp: mail_moves ReadUnreadMessages_def ReadMailbox_def bind_res_Inr_iff split: if_splits sum.splits)
qed (use assms in \<open>auto simp: mail_moves split: if_splits sum.splits option.splits\<close>)

text \<open>A goroutine that sends or polls; what a poll marks it has delivered before.\<close>

definition polite :: "event list \<Rightarrow> tid \<Rightarrow> string \<Rightarrow> mail_op \<Rightarrow> bool" where
  "polite es t q op \<longleftrightarrow> (case op of
      Send m \<Rightarrow> True | Poll \<Rightarrow> True
    | MarkMatching p \<Rightarrow> \<exists>us. p = same_key us \<and> (t, q, Deliver us) \<in> set es
    | _ \<Rightarrow> False)"

definition delivered :: "string \<Rightarrow> event list \<Rightarrow> mail set" where
  "delivered q es = {u. \<exists>t us. (t, q, Deliver us) \<in> set es \<and> u \<in> set us}"

definition poll_inv :: "mail list \<Rightarrow> mail_world \<Rightarrow> event list \<Rightarrow> string \<Rightarrow> mail list \<Rightarrow> bool" where
  "poll_inv L0 w es q L \<longleftrightarrow>
    (\<forall>t st op. w_threads w t = Some (q, st) \<longrightarrow> stage_op st = Some op \<longrightarrow> polite es t q op)
    \<and> (\<forall>m\<in>set L. wire m = m)
    \<and> (\<forall>u\<in>delivered q es. wire u = u \<and> arrived u \<in> arrived ` set L)
    \<and> (\<forall>m\<in>set L. ml_Read m \<longrightarrow>
         (\<exists>m0\<in>set L0. ml_Read m0 \<and> arrived m0 = arrived m) \<or> (\<exists>u\<in>delivered q es. mail_key u = mail_key m))"

lemma wire_read [simp]: "wire (m\<lparr>ml_Read := b\<rparr>) = (wire m)\<lparr>ml_Read := b\<rparr>" "ml_Read (wire m) = ml_Read m"
  by (simp_all add: wire_def)

lemma mail_key_read [simp]: "mail_key (m\<lparr>ml_Read := b\<rparr>) = mail_key m"
  by (simp add: mail_key_def)

lemma delivered_snoc:
  "delivered q (es @ [(t, q', a)]) = delivered q es \<union> (if q' = q then (case a of Deliver us \<Rightarrow> set us | _ \<Rightarrow> {}) else {})"
  by (cases t; cases a) (auto simp: delivered_def)
lemma mark_matching_elem:
  assumes "mark_matching p ms = Some ms'" and "m \<in> set ms'"
  shows "\<exists>m0\<in>set ms. m = m0 \<or> (m = m0\<lparr>ml_Read := True\<rparr> \<and> p m0)"
  using assms by (auto simp: mark_matching_def split: if_splits)

text \<open>The elements of the log after a commit of a goroutine that only sends or polls.\<close>

lemma polite_commit:
  assumes p: "polite es t q op" and e: "edit op L = Some L'" and k: "\<forall>m\<in>set L. wire m = m" and m: "m \<in> set (map wire L')"
  shows "wire m = m \<and> (ml_Read m \<longrightarrow>
     (\<exists>m0\<in>set L. ml_Read m0 \<and> m0 = m) \<or> (\<exists>u\<in>delivered q es. mail_key u = mail_key m))"
proof -
  from m obtain n where n: "n \<in> set L'" "m = wire n" by auto
  have "ml_Read m \<Longrightarrow> (\<exists>m0\<in>set L. ml_Read m0 \<and> m0 = m) \<or> (\<exists>u\<in>delivered q es. mail_key u = mail_key m)"
  proof (cases op)
    case (Send x)
    assume "ml_Read m"
    with Send e n k show ?thesis by (auto simp: append_message_def)
  next
    case (MarkMatching f)
    assume r: "ml_Read m"
    from p MarkMatching obtain us where us: "f = same_key us" "(t, q, Deliver us) \<in> set es" by (auto simp: polite_def)
    from e MarkMatching n mark_matching_elem obtain m0 where m0: "m0 \<in> set L" "n = m0 \<or> (n = m0\<lparr>ml_Read := True\<rparr> \<and> f m0)"
      by fastforce
    with k have w: "wire m0 = m0" by blast
    from m0(2) show ?thesis
    proof
      assume "n = m0"
      with n w m0(1) r show ?thesis by auto
    next
      assume a: "n = m0\<lparr>ml_Read := True\<rparr> \<and> f m0"
      with us(1) obtain u where "u \<in> set us" "mail_key u = mail_key m0" by (auto simp: same_key_def)
      with us(2) have "u \<in> delivered q es" unfolding delivered_def by blast
      moreover have "mail_key u = mail_key m" using \<open>mail_key u = mail_key m0\<close> a n w by simp
      ultimately show ?thesis by blast
    qed
  qed (use p e in \<open>auto simp: polite_def\<close>)
  with n show ?thesis by simp
qed

lemma arrived_of_log:
  assumes "\<And>t op. e = (t, q, Commit op) \<Longrightarrow> edit op L \<noteq> None"
  shows "arrived ` set L \<subseteq> arrived ` set (log_event q L e)"
proof -
  have "set (map arrived L) \<subseteq> set (map arrived (log_event q L e))"
    using log_event_arrived [OF assms] by simp
  then show ?thesis by simp
qed

lemma poll_inv_step:
  assumes F: "file_inv w q L" and I: "poll_inv L0 w es q L" and s: "mail_step ok t w = Some (e, w')"
  shows "poll_inv L0 w' (es @ [e]) q (log_event q L e)"
proof -
  from s obtain q1 st a f mu fl st' where w: "w_threads w t = Some (q1, st)" and e: "e = (t, q1, a)"
    and m: "mail_move ok (w_mutexes w (fst t) = None) (w_locks w q1 = None) (w_files w q1) st = Some (a, f, mu, fl, st')"
    and w': "w_threads w' = (w_threads w)(t \<mapsto> (q1, st'))"
    by (rule mail_stepE)
  have P: "polite (es @ [e]) r q op" if "polite es r q op" for r op
    using that by (auto simp: polite_def split: mail_op.splits)
  have Q: "polite (es @ [e]) r q op" if "w_threads w r = Some (q, sr)" "stage_op sr = Some op" for r sr op
    by (rule P) (use I that in \<open>unfold poll_inv_def, blast\<close>)
  have D: "delivered q es \<subseteq> delivered q (es @ [e])" by (auto simp: delivered_def)
  have arr: "arrived ` set L \<subseteq> arrived ` set (log_event q L e)"
    by (rule arrived_of_log) (use F s commit_edits in blast)
  have k: "\<forall>m\<in>set L. wire m = m" using I unfolding poll_inv_def by blast
  have new: "wire m = m \<and> (ml_Read m \<longrightarrow> (\<exists>m0\<in>set L. ml_Read m0 \<and> m0 = m) \<or> (\<exists>u\<in>delivered q es. mail_key u = mail_key m))"
    if m': "m \<in> set (log_event q L e)" for m
  proof (cases "\<exists>op. q1 = q \<and> a = Commit op")
    case True
    then obtain op where op: "q1 = q" "a = Commit op" by blast
    with m commit_stage obtain ms where st: "st = Store op ms" by blast
    then have "polite es t q op" using I w op(1) unfolding poll_inv_def by (metis stage_op.simps(9))
    moreover obtain L' where "edit op L = Some L'" using file_invD(1) [OF F, of t st] w op st by auto
    ultimately show ?thesis using polite_commit [of es t q op L L' m] k m' e op by (simp add: log_event_def)
  next
    case False
    then have "log_event q L e = L" by (auto simp: log_event_def e split: action.splits)
    with m' k show ?thesis by auto
  qed
  have ops: "polite (es @ [e]) r q op" if r: "w_threads w' r = Some (q, sr)" "stage_op sr = Some op" for r sr op
  proof (cases "r = t")
    case True
    with r w' have q: "q1 = q" "sr = st'" by auto
    from mail_move_op [OF m] r(2) q(2) consider "stage_op st = Some op"
      | us where "op = MarkMatching (same_key us)" "a = Deliver us" by blast
    then show ?thesis
    proof cases
      case 1
      with w q True Q show ?thesis by blast
    next
      case (2 us)
      with e q True show ?thesis by (auto simp: polite_def)
    qed
  next
    case False
    with r w' Q show ?thesis by simp
  qed
  have del: "wire u = u \<and> arrived u \<in> arrived ` set (log_event q L e)" if u: "u \<in> delivered q (es @ [e])" for u
  proof (cases "u \<in> delivered q es")
    case True
    with I arr show ?thesis unfolding poll_inv_def by blast
  next
    case False
    with u e obtain us where us: "q1 = q" "a = Deliver us" "u \<in> set us"
      by (auto simp: delivered_snoc split: if_splits action.splits)
    with m deliver_move obtain ms where ms: "ReadMailbox True (w_files w q) = Inr ms" "set us \<subseteq> set ms" by fastforce
    then have "w_files w q \<noteq> Some NoBytes" by (auto simp: ReadMailbox_def)
    then have "ms = L" using file_invD(1,4) [OF F] writing_stage ms(1) by fastforce
    with ms(2) us(3) k arr show ?thesis by blast
  qed
  have old: "(\<exists>m0\<in>set L0. ml_Read m0 \<and> arrived m0 = arrived m) \<or> (\<exists>u\<in>delivered q (es @ [e]). mail_key u = mail_key m)"
    if "m \<in> set (log_event q L e)" "ml_Read m" for m
    using new [OF that(1)] that(2) I D unfolding poll_inv_def by blast
  show ?thesis unfolding poll_inv_def
    by (intro conjI allI impI ballI) (use ops new del old in simp_all)
qed

lemma poll_inv_run:
  assumes "mail_run s (start_world ops fs) = Some (es, w)"
    and o: "\<And>t q op. ops t = Some (q, op) \<Longrightarrow> op = Poll \<or> (\<exists>m. op = Send m)"
    and b: "\<And>t q op. (t, q, Break op) \<notin> set es"
  shows "lock_inv w \<and> file_inv w q (inbox_log q es (first_log fs q))
    \<and> poll_inv (first_log fs q) w es q (inbox_log q es (first_log fs q))"
  using assms(1)
proof (induction rule: mail_run_induct)
  case Start
  have "file_inv (start_world ops fs) q (first_log fs q)" by (rule file_inv_start) (use o in fastforce)
  moreover have "polite [] t q op" if "w_threads (start_world ops fs) t = Some (q, st)" "stage_op st = Some op" for t st op
    using that o [of t q op] by (auto simp: start_world_def polite_def split: mail_op.splits)
  moreover have "\<forall>m\<in>set (first_log fs q). wire m = m" by (auto simp: first_log_def split: option.splits)
  ultimately show ?case by (auto simp: lock_inv_start poll_inv_def delivered_def)
next
  case (Step ok t w1 es1 e w2)
  have "e \<noteq> (t, q, Break op)" for t q op using b Step(3) by blast
  with Step(1,2) file_inv_step [of w1 q _ ok t e w2] lock_inv_step [of w1 ok t e w2] poll_inv_step [of w1 q _ _ es1 ok t e w2]
  show ?case by simp
qed

text \<open>No message is marked as read without being delivered, if the messages of the inbox differ in their
  sender or their time stamp. This holds for any senders and pollers and any schedule: a message that
  arrives between the reading of a poll and its marking stays unread.\<close>

theorem read_means_delivered:
  assumes "mail_run s (start_world ops fs) = Some (es, w)"
    and "\<forall>t q op. ops t = Some (q, op) \<longrightarrow> op = Poll \<or> (\<exists>m. op = Send m)"
    and "\<forall>t q op. (t, q, Break op) \<notin> set es"
    and "ReadMailbox True (w_files w q) = Inr ms"
    and "distinct (map mail_key ms)"
    and "m \<in> set ms" and "ml_Read m"
  shows "(\<exists>m0\<in>set (first_log fs q). ml_Read m0 \<and> arrived m0 = arrived m)
    \<or> (\<exists>t us u. (t, q, Deliver us) \<in> set es \<and> u \<in> set us \<and> arrived u = arrived m)"
proof -
  let ?L = "inbox_log q es (first_log fs q)"
  have F: "file_inv w q ?L" and P: "poll_inv (first_log fs q) w es q ?L"
    using poll_inv_run [OF assms(1)] assms(2,3) by blast+
  have "w_files w q \<noteq> Some NoBytes" using assms(4) by (auto simp: ReadMailbox_def)
  then have ms: "ms = ?L" using file_invD(1,4) [OF F] writing_stage assms(4) by fastforce
  show ?thesis
  proof (cases "\<exists>m0\<in>set (first_log fs q). ml_Read m0 \<and> arrived m0 = arrived m")
    case False
    with P assms(6,7) ms obtain u where u: "u \<in> delivered q es" "mail_key u = mail_key m" unfolding poll_inv_def by blast
    with P ms obtain n where n: "n \<in> set ms" "arrived u = arrived n" "wire u = u" "wire n = n" unfolding poll_inv_def by blast
    then have "mail_key u = mail_key n" by (metis arrived_def mail_key_read)
    with u(2) n(1) assms(5,6) have "n = m" by (metis distinct_map inj_onD)
    with u(1) n(2) show ?thesis by (auto simp: delivered_def)
  qed blast
qed

section \<open>Where the promises stop\<close>

definition steps_of :: "tid \<Rightarrow> nat \<Rightarrow> (bool \<times> tid) list" where
  "steps_of t n = replicate n (True, t)"

lemmas mail_runs = steps_of_def mail_step_def mail_moves start_world_def ReadMailbox_def ReadUnreadMessages_def
  write_brackets_def write_list_def append_message_def mark_matching_def delivered_def numeral_eq_Suc

text \<open>Of two messages with one sender and one time stamp a poller marks the second as read that it has not
  delivered, when it arrives between the reading and the marking. Time stamps count whole seconds.\<close>

theorem message_read_unseen:
  assumes "mail_key (wire a) = mail_key (wire b)"
  shows "\<exists>s es w. mail_run s (start_world [(1, 0) \<mapsto> (q, Send a), (2, 0) \<mapsto> (q, Send b), (3, 0) \<mapsto> (q, Poll)] (\<lambda>_. None)) = Some (es, w)
    \<and> w_files w q = Some (Inbox [arrived a, arrived b]) \<and> delivered q es = {wire (a\<lparr>ml_Read := False\<rparr>)}"
proof -
  let ?s = "steps_of (1, 0) 9 @ steps_of (3, 0) 1 @ steps_of (2, 0) 8 @ steps_of (3, 0) 8"
  show ?thesis
    by (rule exI [of _ ?s]) (use assms in \<open>simp add: mail_runs same_key_def arrived_def\<close>)
qed

text \<open>Clearing an inbox takes no lock. A clear that overlaps a send leaves a file that is no JSON, both report
  success, and every later operation that reads the inbox fails.\<close>

theorem clear_ruins_an_inbox:
  shows "\<exists>s es w. mail_run s (start_world [(1, 0) \<mapsto> (q, Send a), (2, 0) \<mapsto> (q, Clear)] (\<lambda>_. Some old)) = Some (es, w)
    \<and> w_threads w (1, 0) = Some (q, Done None) \<and> w_threads w (2, 0) = Some (q, Done None)
    \<and> w_files w q = Some Mangled \<and> ReadMailbox True (w_files w q) = Inl ParseError"
proof -
  let ?s = "steps_of (1, 0) 6 @ steps_of (2, 0) 1 @ steps_of (1, 0) 2 @ steps_of (2, 0) 1"
  show ?thesis
    by (rule exI [of _ ?s]) (cases old; simp add: mail_runs)
qed

text \<open>The inbox is created before the lock is taken and filled afterwards: a second sender that comes in
  between finds it empty and fails.\<close>

lemma second_sender_fails:
  "\<exists>s es w. mail_run s (start_world [(1, 0) \<mapsto> (q, Send a), (2, 0) \<mapsto> (q, Send b)] (\<lambda>_. None)) = Some (es, w)
    \<and> w_threads w (1, 0) = Some (q, Done None) \<and> w_threads w (2, 0) = Some (q, Done (Some ParseError))"
proof -
  let ?s = "steps_of (1, 0) 2 @ steps_of (2, 0) 6 @ steps_of (1, 0) 7"
  show ?thesis by (rule exI [of _ ?s]) (simp add: mail_runs)
qed

text \<open>A write that fails after it has emptied the file loses every message.\<close>

lemma failed_write_loses_all:
  "\<exists>s es w. mail_run s (start_world [(1, 0) \<mapsto> (q, Send a)] (\<lambda>_. Some old)) = Some (es, w)
    \<and> w_threads w (1, 0) = Some (q, Done (Some WriteError)) \<and> w_files w q = Some NoBytes"
proof -
  let ?s = "steps_of (1, 0) 6 @ [(False, (1, 0))] @ steps_of (1, 0) 1"
  show ?thesis by (rule exI [of _ ?s]) (simp add: mail_runs)
qed

section \<open>Witnesses\<close>

definition demo_mail :: "string \<Rightarrow> mail" where
  "demo_mail c = \<lparr>ml_From = ''ann'', ml_Text = c, ml_Timestamp = ''10:00:00Z'', ml_Read = False, ml_Color = '''', ml_Summary = ''''\<rparr>"

definition demo_ops :: "tid \<Rightarrow> (string \<times> mail_op) option" where
  "demo_ops = [(1, 0) \<mapsto> (''q'', Send (demo_mail ''a'')), (3, 0) \<mapsto> (''q'', Poll)]"

definition demo_schedule :: "(bool \<times> tid) list" where
  "demo_schedule = steps_of (1, 0) 9 @ steps_of (3, 0) 9"

lemma json_text_ascii: "list_all (\<lambda>c. byte c < 128) s \<Longrightarrow> json_text s = s"
proof (induction s)
  case (Cons c s)
  then have "decode_runes (c # s) = Some (byte c) # decode_runes s" by (simp add: decode_rune_def)
  with Cons show ?case by (simp add: json_text_def runes_def encode_rune_def)
qed (simp add: json_text_def runes_def)

lemma wire_demo: "wire (demo_mail ''a'') = demo_mail ''a''" "wire (demo_mail ''b'') = demo_mail ''b''"
  by (simp_all add: wire_def demo_mail_def json_text_ascii byte_def)

lemma demo_run:
  "\<exists>es w. mail_run demo_schedule (start_world demo_ops (\<lambda>_. None)) = Some (es, w)
    \<and> w_files w ''q'' = Some (Inbox [(demo_mail ''a'')\<lparr>ml_Read := True\<rparr>])
    \<and> w_threads w = [(1, 0) \<mapsto> (''q'', Done None), (3, 0) \<mapsto> (''q'', Done None)]
    \<and> (\<forall>t q op. (t, q, Break op) \<notin> set es)"
  by (simp add: demo_schedule_def demo_ops_def mail_runs wire_demo same_key_def fun_eq_iff)

lemma demo_ops_kind: "demo_ops t = Some (q, op) \<Longrightarrow> op = Poll \<or> (\<exists>m. op = Send m)"
  by (auto simp: demo_ops_def split: if_splits)

lemma demo_no_clear: "demo_ops t \<noteq> Some (q, Clear)"
  using demo_ops_kind by fastforce

lemma all_done_quiet:
  "w_threads w = [(1, 0) \<mapsto> (''q'', Done None), (3, 0) \<mapsto> (''q'', Done None)]
   \<Longrightarrow> w_threads w t = Some (q, st) \<Longrightarrow> \<not> writing st"
  by (auto split: if_splits)


theorem no_message_is_lost_witness:
  "\<exists>es w ms. mail_run demo_schedule (start_world demo_ops (\<lambda>_. None)) = Some (es, w)
    \<and> ReadMailbox True (w_files w ''q'') = Inr ms
    \<and> map arrived ms = map arrived (first_log (\<lambda>_. None) ''q'') @ map arrived (sent_to ''q'' es)
    \<and> count_list es ((1, 0), ''q'', Commit (Send (demo_mail ''a''))) = 1"
proof -
  obtain es w where r: "mail_run demo_schedule (start_world demo_ops (\<lambda>_. None)) = Some (es, w)"
    "\<forall>t q op. (t, q, Break op) \<notin> set es"
    "w_threads w = [(1, 0) \<mapsto> (''q'', Done None), (3, 0) \<mapsto> (''q'', Done None)]"
    using demo_run by blast
  have "\<forall>t st. w_threads w t = Some (''q'', st) \<longrightarrow> \<not> writing st" using all_done_quiet [OF r(3)] by blast
  with no_message_is_lost [OF r(1) _ r(2)] demo_no_clear obtain ms where ms: "ReadMailbox True (w_files w ''q'') = Inr ms"
    "map arrived ms = map arrived (first_log (\<lambda>_. None) ''q'') @ map arrived (sent_to ''q'' es)"
    "\<forall>t m r. demo_ops t = Some (''q'', Send m) \<longrightarrow> w_threads w t = Some (''q'', Done r)
           \<longrightarrow> count_list es (t, ''q'', Commit (Send m)) = (if r = None then 1 else 0)" by blast
  have "count_list es ((1, 0), ''q'', Commit (Send (demo_mail ''a''))) = 1"
    using ms(3) [rule_format, of "(1, 0)" "demo_mail ''a''" None] r(3) by (simp add: demo_ops_def)
  with r(1) ms(1,2) show ?thesis by blast
qed

theorem mailbox_drains_witness:
  "\<exists>es w. mail_run demo_schedule (start_world demo_ops (\<lambda>_. None)) = Some (es, w)
    \<and> length demo_schedule \<le> 10 * card (dom demo_ops)"
proof -
  obtain es w where r: "mail_run demo_schedule (start_world demo_ops (\<lambda>_. None)) = Some (es, w)"
    using demo_run by blast
  have "finite (dom demo_ops)" by (simp add: demo_ops_def)
  with r mailbox_drains [OF _ r] show ?thesis by blast
qed

theorem read_means_delivered_witness:
  "\<exists>es w t us u. mail_run demo_schedule (start_world demo_ops (\<lambda>_. None)) = Some (es, w)
    \<and> (t, ''q'', Deliver us) \<in> set es \<and> u \<in> set us \<and> arrived u = arrived (demo_mail ''a'')"
proof -
  obtain es w where r: "mail_run demo_schedule (start_world demo_ops (\<lambda>_. None)) = Some (es, w)"
    "\<forall>t q op. (t, q, Break op) \<notin> set es" "w_files w ''q'' = Some (Inbox [(demo_mail ''a'')\<lparr>ml_Read := True\<rparr>])"
    using demo_run by blast
  have "ReadMailbox True (w_files w ''q'') = Inr [(demo_mail ''a'')\<lparr>ml_Read := True\<rparr>]" by (simp add: r(3) ReadMailbox_def)
  from read_means_delivered [OF r(1) _ r(2) this, of "(demo_mail ''a'')\<lparr>ml_Read := True\<rparr>"] demo_ops_kind
  have "\<exists>t us u. (t, ''q'', Deliver us) \<in> set es \<and> u \<in> set us \<and> arrived u = arrived (demo_mail ''a'')"
    by (auto simp: first_log_def)
  with r(1) show ?thesis by blast
qed

theorem message_read_unseen_witness:
  "\<exists>s es w. mail_run s (start_world [(1, 0) \<mapsto> (''q'', Send (demo_mail ''a'')), (2, 0) \<mapsto> (''q'', Send (demo_mail ''b'')),
      (3, 0) \<mapsto> (''q'', Poll)] (\<lambda>_. None)) = Some (es, w)
    \<and> w_files w ''q'' = Some (Inbox [arrived (demo_mail ''a''), arrived (demo_mail ''b'')])
    \<and> delivered ''q'' es = {wire ((demo_mail ''a'')\<lparr>ml_Read := False\<rparr>)}"
  by (rule message_read_unseen) (simp only: wire_demo, simp add: mail_key_def demo_mail_def)

section \<open>Paths of inboxes\<close>

lemma split_char_append_sep: "split_char d (s @ d # t) = split_char d s @ split_char d t"
  by (induction s) (auto split: list.splits)

lemma path_segs_append:
  assumes "ws \<noteq> []" and "list_all plain_seg ws" and "h \<noteq> ''''"
  shows "path_segs (h @ ''/'' @ join_str ''/'' ws) = path_segs h @ ws"
proof -
  have "split_char CHR ''/'' (join_str ''/'' ws) = ws"
    by (rule split_join) (use assms in \<open>auto simp: list_all_iff plain_seg_def\<close>)
  then have "split_char CHR ''/'' (h @ ''/'' @ join_str ''/'' ws) = split_char CHR ''/'' h @ ws"
    by (simp add: split_char_append_sep)
  moreover have "is_abs (h @ ''/'' @ join_str ''/'' ws) = is_abs h"
    using assms(3) by (cases h) (auto simp: is_abs_def has_prefix_def)
  ultimately show ?thesis by (simp add: path_segs_def clean_segs_def fold_clean_plain assms(2))
qed

lemma name_rune_char: "name_rune n \<Longrightarrow> char_of n \<notin> {CHR ''/'', CHR ''.''}"
proof -
  assume a: "name_rune n"
  then have "byte (char_of n) = n" by (auto simp: name_rune_def)
  moreover have "byte CHR ''/'' = 47" "byte CHR ''.'' = 46" by (simp_all add: byte_def)
  ultimately have "char_of n = CHR ''/'' \<Longrightarrow> n = 47" "char_of n = CHR ''.'' \<Longrightarrow> n = 46" by metis+
  with a show ?thesis by (auto simp: name_rune_def)
qed

lemma sanitizeName_chars: "c \<in> set (sanitizeName s) \<Longrightarrow> c \<noteq> CHR ''/'' \<and> c \<noteq> CHR ''.''"
  by (auto simp: sanitizeName_def dest: name_rune_char split: if_splits)

lemma sanitizeName_Nil: "sanitizeName s = [] \<longleftrightarrow> s = []"
  by (cases s) (auto simp: sanitizeName_def runes_def split: option.splits prod.splits)

lemma sanitizeName_plain: "s \<noteq> [] \<Longrightarrow> plain_seg (sanitizeName s)"
  using sanitizeName_chars [of "CHR ''/''" s] sanitizeName_chars [of "CHR ''.''" s] sanitizeName_Nil [of s]
  by (auto simp: plain_seg_def)

lemma json_name_plain: "plain_seg (sanitizeName s @ ''.json'')"
  using sanitizeName_chars [of "CHR ''/''" s] by (auto simp: plain_seg_def append_eq_Cons_conv)

lemma path_segs_inbox:
  assumes "homeDir \<noteq> ''''"
  shows "path_segs (getInboxPath agentName teamName homeDir) = path_segs homeDir
      @ [''.claude'', ''teams'', sanitizeName (if teamName = '''' then ''default'' else teamName), ''inboxes'', sanitizeName agentName @ ''.json'']"
    (is "_ = _ @ ?ws") and "is_abs (getInboxPath agentName teamName homeDir) = is_abs homeDir"
proof -
  have p: "list_all plain_seg ?ws"
    using sanitizeName_plain [of "if teamName = '''' then ''default'' else teamName"] json_name_plain
    by (auto simp: plain_seg_def)
  have g: "getInboxPath agentName teamName homeDir = path_Clean (homeDir @ ''/'' @ join_str ''/'' ?ws)"
    using assms by (simp add: getInboxPath_def join_path_def Let_def)
  show "path_segs (getInboxPath agentName teamName homeDir) = path_segs homeDir @ ?ws"
    unfolding g path_segs_Clean by (rule path_segs_append) (use assms p in auto)
  show "is_abs (getInboxPath agentName teamName homeDir) = is_abs homeDir"
    unfolding g is_abs_Clean using assms by (cases homeDir) (auto simp: is_abs_def has_prefix_def)
qed

text \<open>Whatever an agent and a team are called, the inbox is a file of the directory of that team's inboxes, and
  two agents of two teams share one exactly when their sanitized names are equal.\<close>

theorem inbox_path_exact:
  assumes "homeDir \<noteq> ''''"
  shows "path_segs (getInboxPath agentName teamName homeDir) = path_segs homeDir
      @ [''.claude'', ''teams'', sanitizeName (if teamName = '''' then ''default'' else teamName), ''inboxes'', sanitizeName agentName @ ''.json'']
    \<and> (getInboxPath agentName teamName homeDir = getInboxPath other otherTeam homeDir \<longleftrightarrow>
        sanitizeName agentName = sanitizeName other
        \<and> sanitizeName (if teamName = '''' then ''default'' else teamName) = sanitizeName (if otherTeam = '''' then ''default'' else otherTeam))"
proof -
  have "getInboxPath agentName teamName homeDir = getInboxPath other otherTeam homeDir \<longleftrightarrow>
      path_segs (getInboxPath agentName teamName homeDir) = path_segs (getInboxPath other otherTeam homeDir)"
  proof
    assume s: "path_segs (getInboxPath agentName teamName homeDir) = path_segs (getInboxPath other otherTeam homeDir)"
    have c: "path_Clean (getInboxPath a t homeDir) = getInboxPath a t homeDir" for a t
      using assms by (simp add: getInboxPath_def join_path_def Let_def path_Clean_idem)
    have "path_Clean (getInboxPath agentName teamName homeDir) = path_Clean (getInboxPath other otherTeam homeDir)"
      using s path_segs_inbox(2) [OF assms] by (simp add: path_Clean_eq_iff)
    then show "getInboxPath agentName teamName homeDir = getInboxPath other otherTeam homeDir" by (simp only: c)
  qed simp
  then show ?thesis by (auto simp: path_segs_inbox(1) [OF assms])
qed

theorem inbox_path_exact_witness:
  "path_segs (getInboxPath ''../x'' ''t'' ''/h'') = path_segs ''/h''
      @ [''.claude'', ''teams'', sanitizeName ''t'', ''inboxes'', sanitizeName ''../x'' @ ''.json'']"
  using inbox_path_exact [of "''/h''" "''../x''" "''t''"] by simp

end
