(* ===== verification/Teams.thy ===== *)
theory Teams
  imports Mailbox Tool_Schema Task_Store
begin

text \<open>
  Teams of agents: the files of a team (\<open>platform/team\<close>), the tools that create and delete a team and
  send messages in it (\<open>services/tools/team_create\<close>, \<open>team_delete\<close>, \<open>send_message\<close>), and the summary of who is
  busy (\<open>platform/team/status.go\<close>). Here an operation runs alone: the stages of a send (\<open>Mailbox\<close>) follow
  each other. The results of the tools are kept as data; their JSON text is left out.
\<close>

section \<open>A send that runs alone\<close>

definition next_ok :: "bool list \<Rightarrow> bool" where
  "next_ok oks \<longleftrightarrow> oks = [] \<or> hd oks"

function solo :: "bool list \<Rightarrow> inbox_file option \<Rightarrow> stage \<Rightarrow> mail_error option \<times> inbox_file option" where
  "solo oks f st = (case mail_move (next_ok oks) True True f st of
      None \<Rightarrow> (case st of Done e \<Rightarrow> e | _ \<Rightarrow> None, f)
    | Some (a, f', mu, fl, st') \<Rightarrow> solo (tl oks) f' st')"
  by pat_completeness auto
termination
  by (relation "measure (\<lambda>(oks, f, st). rank st)") (auto dest: mail_move_rank)

declare solo.simps [simp del]

definition WriteToMailbox :: "bool list \<Rightarrow> inbox_file option \<Rightarrow> mail \<Rightarrow> mail_error option \<times> inbox_file option" where
  "WriteToMailbox oks f msg = solo oks f (Begin (Send msg))"

section \<open>Files of a team\<close>

record team_member =
  tm_AgentID :: string
  tm_Name :: string
  tm_AgentType :: string

record team_file =
  tf_Name :: string
  tf_Description :: string
  tf_CreatedAt :: int
  tf_LeadAgentID :: string
  tf_Members :: "team_member list"

text \<open>The home directory: files by path. A configuration that is no JSON is \<open>BadConfig\<close>.\<close>

datatype home_file = Config team_file | BadConfig | MailFile inbox_file | OtherFile

type_synonym home = "string \<Rightarrow> home_file option"

text \<open>Which calls of the system succeed, and the clock.\<close>

record team_os =
  to_read :: "string \<Rightarrow> bool"
  to_mkdir :: "string \<Rightarrow> bool"
  to_open :: "string \<Rightarrow> bool"
  to_write :: "string \<Rightarrow> bool"
  to_remove :: "string \<Rightarrow> bool"
  to_mail :: "nat \<Rightarrow> bool list"
  to_now_ms :: int
  to_now :: string
  to_agent :: string
  to_home :: string

definition name_char :: "nat \<Rightarrow> bool" where
  "name_char n \<longleftrightarrow> (97 \<le> n \<and> n \<le> 122) \<or> (65 \<le> n \<and> n \<le> 90) \<or> (48 \<le> n \<and> n \<le> 57)"

definition SanitizeName :: "string \<Rightarrow> string" where
  "SanitizeName name = to_lower (map (\<lambda>r. if name_char r then char_of r else CHR ''-'') (runes name))"

definition TeamDir :: "string \<Rightarrow> string \<Rightarrow> string" where
  "TeamDir homeDir teamName = join_path [homeDir, ''.claude'', ''teams'', SanitizeName teamName]"

definition TeamFilePath :: "string \<Rightarrow> string \<Rightarrow> string" where
  "TeamFilePath homeDir teamName = join_path [TeamDir homeDir teamName, ''config.json'']"

definition TaskDir :: "string \<Rightarrow> string \<Rightarrow> string" where
  "TaskDir homeDir teamName = join_path [homeDir, ''.claude'', ''tasks'', SanitizeName teamName]"

text \<open>\<open>Inl\<close> an error, \<open>Inr None\<close> no file.\<close>

definition ReadTeamFile :: "team_os \<Rightarrow> string \<Rightarrow> home \<Rightarrow> string + team_file option" where
  "ReadTeamFile S teamName h =
    (let path = TeamFilePath (to_home S) teamName in
     if \<not> to_read S path then Inl (''team: read config '' @ path)
     else case h path of
         None \<Rightarrow> Inr None
       | Some (Config tf) \<Rightarrow> Inr (Some tf)
       | Some _ \<Rightarrow> Inl (''team: parse config '' @ path))"

text \<open>A team file after it has been written and read again.\<close>

definition member_wire :: "team_member \<Rightarrow> team_member" where
  "member_wire m = \<lparr>tm_AgentID = json_text (tm_AgentID m), tm_Name = json_text (tm_Name m), tm_AgentType = json_text (tm_AgentType m)\<rparr>"

definition team_wire :: "team_file \<Rightarrow> team_file" where
  "team_wire tf = \<lparr>tf_Name = json_text (tf_Name tf), tf_Description = json_text (tf_Description tf), tf_CreatedAt = tf_CreatedAt tf,
     tf_LeadAgentID = json_text (tf_LeadAgentID tf), tf_Members = map member_wire (tf_Members tf)\<rparr>"

text \<open>The error, if any, and the files: a write that fails has emptied the file.\<close>

definition WriteTeamFile :: "team_os \<Rightarrow> string \<Rightarrow> team_file \<Rightarrow> home \<Rightarrow> string option \<times> home" where
  "WriteTeamFile S teamName tf h =
    (let dir = TeamDir (to_home S) teamName; path = TeamFilePath (to_home S) teamName in
     if \<not> to_mkdir S dir then (Some (''team: create directory '' @ dir), h)
     else if \<not> to_open S path then (Some (''team: write config '' @ path), h)
     else if \<not> to_write S path then (Some (''team: write config '' @ path), h(path \<mapsto> BadConfig))
     else (None, h(path \<mapsto> Config (team_wire tf))))"

definition below :: "string \<Rightarrow> string \<Rightarrow> bool" where
  "below dir p \<longleftrightarrow> is_abs p = is_abs dir \<and> take (length (path_segs dir)) (path_segs p) = path_segs dir"

text \<open>\<open>os.RemoveAll\<close>: everything below a directory, or nothing when it fails.\<close>

definition RemoveAll :: "team_os \<Rightarrow> string \<Rightarrow> home \<Rightarrow> home" where
  "RemoveAll S dir h = (if to_remove S dir then (\<lambda>p. if below dir p then None else h p) else h)"

definition DeleteTeamDirectories :: "team_os \<Rightarrow> string \<Rightarrow> home \<Rightarrow> home" where
  "DeleteTeamDirectories S teamName h =
    RemoveAll S (TaskDir (to_home S) teamName) (RemoveAll S (TeamDir (to_home S) teamName) h)"

section \<open>Creating and deleting a team\<close>

record send_output =
  so_Message :: string
  so_Recipients :: "string list"
  so_Target :: string

datatype team_result =
    TeamError string
  | TeamCreated string string string
  | TeamDeleted string
  | MailSent send_output

record create_input =
  ci_TeamName :: string
  ci_Description :: string
  ci_AgentType :: string

definition create_schema :: input_schema where
  "create_schema =
    [(''team_name'', FieldSchema KindString ''Name for the new team to create.'' True None),
     (''description'', FieldSchema KindString ''Team description/purpose.'' False None),
     (''agent_type'', FieldSchema KindString ''Type/role of the team lead (e.g., \"researcher\", \"test-runner\"). Used for team file and inter-agent coordination.'' False None)]"

definition decode_create :: "create_input getter" where
  "decode_create kvs =
    bind_res (get_string ''team_name'' kvs) (\<lambda>n. bind_res (get_string ''description'' kvs) (\<lambda>d.
    bind_res (get_string ''agent_type'' kvs) (\<lambda>a. Inr \<lparr>ci_TeamName = n, ci_Description = d, ci_AgentType = a\<rparr>)))"

definition new_team :: "team_os \<Rightarrow> string \<Rightarrow> create_input \<Rightarrow> team_file" where
  "new_team S teamName i =
    (let leadAgentType = (if trim_space (ci_AgentType i) = '''' then ''team-lead'' else trim_space (ci_AgentType i));
         leadAgentID = ''team-lead@'' @ teamName
     in \<lparr>tf_Name = teamName, tf_Description = trim_space (ci_Description i), tf_CreatedAt = to_now_ms S,
         tf_LeadAgentID = leadAgentID,
         tf_Members = [\<lparr>tm_AgentID = leadAgentID, tm_Name = ''team-lead'', tm_AgentType = leadAgentType\<rparr>]\<rparr>)"

definition TeamCreate_Invoke :: "team_os \<Rightarrow> tool_input \<Rightarrow> home \<Rightarrow> team_result \<times> home" where
  "TeamCreate_Invoke S input h =
    (case DecodeInput create_schema decode_create input of
       Inl e \<Rightarrow> (TeamError (''invalid input: '' @ e), h)
     | Inr i \<Rightarrow>
        let teamName = trim_space (ci_TeamName i); path = TeamFilePath (to_home S) teamName in
        if teamName = '''' then (TeamError ''team_name is required for TeamCreate'', h)
        else case ReadTeamFile S teamName h of
            Inr (Some tf) \<Rightarrow> (TeamError (''team '' @ go_quote teamName @ '' already exists at '' @ path), h)
          | _ \<Rightarrow>
            (case WriteTeamFile S teamName (new_team S teamName i) h of
               (Some e, h1) \<Rightarrow> (TeamError (''failed to create team: '' @ e), h1)
             | (None, h1) \<Rightarrow> (TeamCreated teamName path (''team-lead@'' @ teamName), h1)))"

definition delete_schema :: input_schema where
  "delete_schema = [(''team_name'', FieldSchema KindString ''Name of the team to delete.'' True None)]"

definition TeamDelete_Invoke :: "team_os \<Rightarrow> tool_input \<Rightarrow> home \<Rightarrow> team_result \<times> home" where
  "TeamDelete_Invoke S input h =
    (case DecodeInput delete_schema (get_string ''team_name'') input of
       Inl e \<Rightarrow> (TeamError (''invalid input: '' @ e), h)
     | Inr n \<Rightarrow>
        let teamName = trim_space n in
        if teamName = '''' then (TeamError ''team_name is required for TeamDelete'', h)
        else case ReadTeamFile S teamName h of
            Inr (Some tf) \<Rightarrow>
              (TeamDeleted (''Cleaned up directories and worktrees for team '' @ go_quote teamName), DeleteTeamDirectories S teamName h)
          | _ \<Rightarrow> (TeamDeleted (''team '' @ go_quote teamName @ '' does not exist, nothing to clean up''), h))"

section \<open>Sending messages\<close>

record send_input =
  si_TeamName :: string
  si_To :: string
  si_Message :: string
  si_Summary :: string

definition send_schema :: input_schema where
  "send_schema =
    [(''team_name'', FieldSchema KindString ''The team name this message belongs to.'' True None),
     (''to'', FieldSchema KindString ''Recipient: teammate name, or \"*\" for broadcast to all teammates.'' True None),
     (''message'', FieldSchema KindString ''Plain text message content.'' True None),
     (''summary'', FieldSchema KindString ''A 5-10 word summary shown as a preview in the UI (required when message is a string).'' False None)]"

definition decode_send :: "send_input getter" where
  "decode_send kvs =
    bind_res (get_string ''team_name'' kvs) (\<lambda>n. bind_res (get_string ''to'' kvs) (\<lambda>t.
    bind_res (get_string ''message'' kvs) (\<lambda>m. bind_res (get_string ''summary'' kvs) (\<lambda>s.
      Inr \<lparr>si_TeamName = n, si_To = t, si_Message = m, si_Summary = s\<rparr>))))"

definition senderName :: "team_os \<Rightarrow> string" where
  "senderName S = (if to_agent S \<noteq> '''' then to_agent S else ''team-lead'')"

text \<open>What a home directory holds at the path of an inbox; a file of another kind is no inbox.\<close>

definition inbox_at :: "home \<Rightarrow> string \<Rightarrow> inbox_file option" where
  "inbox_at h p = (case h p of None \<Rightarrow> None | Some (MailFile f) \<Rightarrow> Some f | Some x \<Rightarrow> Some Mangled)"

definition put_inbox :: "string \<Rightarrow> inbox_file option \<Rightarrow> home \<Rightarrow> home" where
  "put_inbox p f h = (if f = inbox_at h p then h else h(p := map_option MailFile f))"

definition mail_to_send :: "team_os \<Rightarrow> string \<Rightarrow> string \<Rightarrow> mail" where
  "mail_to_send S content summary =
    \<lparr>ml_From = senderName S, ml_Text = content, ml_Timestamp = to_now S, ml_Read = False, ml_Color = '''', ml_Summary = summary\<rparr>"

definition send_one :: "team_os \<Rightarrow> nat \<Rightarrow> string \<Rightarrow> string \<Rightarrow> mail \<Rightarrow> home \<Rightarrow> mail_error option \<times> home" where
  "send_one S k recipientName teamName msg h =
    (let p = getInboxPath recipientName teamName (to_home S) in
     case WriteToMailbox (to_mail S k) (inbox_at h p) msg of (e, f) \<Rightarrow> (e, put_inbox p f h))"

definition handleMessage :: "team_os \<Rightarrow> (mail_error \<Rightarrow> string) \<Rightarrow> string \<Rightarrow> string \<Rightarrow> string \<Rightarrow> string \<Rightarrow> home \<Rightarrow> team_result \<times> home" where
  "handleMessage S err recipientName teamName content summary h =
    (case send_one S 0 recipientName teamName (mail_to_send S content summary) h of
       (Some e, h1) \<Rightarrow> (TeamError (''failed to send message: '' @ err e), h1)
     | (None, h1) \<Rightarrow>
         (MailSent \<lparr>so_Message = ''Message sent to '' @ recipientName @ [CHR 0x27] @ ''s inbox'', so_Recipients = [],
            so_Target = ''@'' @ recipientName\<rparr>, h1))"

text \<open>The names of the recipients that were not reached, and the files.\<close>

fun send_each :: "(nat \<Rightarrow> string \<Rightarrow> home \<Rightarrow> mail_error option \<times> home) \<Rightarrow> nat \<Rightarrow> string list \<Rightarrow> home \<Rightarrow> string list \<times> home" where
  "send_each send k [] h = ([], h)"
| "send_each send k (r # rs) h =
    (case send k r h of (e, h1) \<Rightarrow>
      (case send_each send (Suc k) rs h1 of (errors, h2) \<Rightarrow>
        ((if e = None then errors else r # errors), h2)))"

definition recipients_of :: "string \<Rightarrow> team_file \<Rightarrow> string list" where
  "recipients_of sender tf = filter (\<lambda>n. to_lower n \<noteq> to_lower sender) (map tm_Name (tf_Members tf))"

definition handleBroadcast :: "team_os \<Rightarrow> string \<Rightarrow> string \<Rightarrow> string \<Rightarrow> home \<Rightarrow> team_result \<times> home" where
  "handleBroadcast S teamName content summary h =
    (case ReadTeamFile S teamName h of
       Inl e \<Rightarrow> (TeamError (''failed to read team '' @ go_quote teamName @ '': '' @ e), h)
     | Inr None \<Rightarrow> (TeamError (''team '' @ go_quote teamName @ '' does not exist''), h)
     | Inr (Some tf) \<Rightarrow>
        let recipients = recipients_of (senderName S) tf in
        if recipients = [] then
          (MailSent \<lparr>so_Message = ''No teammates to broadcast to (you are the only team member)'', so_Recipients = [], so_Target = ''''\<rparr>, h)
        else case send_each (\<lambda>k r. send_one S k r teamName (mail_to_send S content summary)) 0 recipients h of (errors, h1) \<Rightarrow>
          if errors \<noteq> [] then (TeamError (''broadcast partially failed: could not deliver to '' @ join_str '', '' errors), h1)
          else (MailSent \<lparr>so_Message = ''Message broadcast to '' @ nat_str (length recipients) @ '' teammate(s): '' @ join_str '', '' recipients,
                  so_Recipients = recipients, so_Target = ''@team''\<rparr>, h1))"

definition SendMessage_Invoke :: "team_os \<Rightarrow> (mail_error \<Rightarrow> string) \<Rightarrow> tool_input \<Rightarrow> home \<Rightarrow> team_result \<times> home" where
  "SendMessage_Invoke S err input h =
    (case DecodeInput send_schema decode_send input of
       Inl e \<Rightarrow> (TeamError (''invalid input: '' @ e), h)
     | Inr i \<Rightarrow>
        let teamName = trim_space (si_TeamName i); to = trim_space (si_To i);
            msg = trim_space (si_Message i); summary = trim_space (si_Summary i) in
        if teamName = '''' then (TeamError ''team_name is required for SendMessage'', h)
        else if to = '''' then (TeamError ''to must not be empty'', h)
        else if CHR ''@'' \<in> set to then (TeamError (''to must be a bare teammate name or \"*\" '' @ [CHR 0xE2, CHR 0x80, CHR 0x94] @ '' there is only one team per session''), h)
        else if msg = '''' then (TeamError ''message must not be empty'', h)
        else if summary = '''' then (TeamError ''summary is required when message is a string'', h)
        else if to = ''*'' then handleBroadcast S teamName msg summary h
        else handleMessage S err to teamName msg summary h)"

section \<open>What a send does\<close>

text \<open>The stages of a send that meets nobody.\<close>

lemma solo_send:
  "solo oks f (Begin (Send m)) = (if next_ok oks then solo (tl oks) f (OpenNew (Send m)) else solo (tl oks) f (Done (Some DirError)))"
  "solo oks f (OpenNew (Send m)) =
     (if \<not> next_ok oks then solo (tl oks) f (Done (Some CreateError))
      else if f = None then solo (tl oks) (Some NoBytes) (FillNew (Send m)) else solo (tl oks) f (Await (Send m)))"
  "solo oks f (FillNew (Send m)) = solo (tl oks) (if next_ok oks then write_brackets f else f) (Await (Send m))"
  "solo oks f (Await (Send m)) = solo (tl oks) f (AwaitFile (Send m))"
  "solo oks f (AwaitFile (Send m)) = solo (tl oks) f (if next_ok oks then Inside (Send m) else Leave (Some LockError))"
  "solo oks f (Inside (Send m)) = solo (tl oks) f (case ReadMailbox (next_ok oks) f of
      Inl e \<Rightarrow> Leave (Some e) | Inr ms \<Rightarrow> Replace (Send m) (ms @ [m\<lparr>ml_Read := False\<rparr>]))"
  "solo oks f (Replace (Send m) ms) =
     (if next_ok oks then solo (tl oks) (Some NoBytes) (Store (Send m) ms) else solo (tl oks) f (Leave (Some WriteError)))"
  "solo oks f (Store (Send m) ms) =
     (if next_ok oks then solo (tl oks) (write_list ms f) (Leave None) else solo (tl oks) f (Leave (Some WriteError)))"
  "solo oks f (Leave e) = solo (tl oks) f (Done e)"
  "solo oks f (Done e) = (e, f)"
  by (subst solo.simps; simp add: mail_moves append_message_def split: sum.splits)+

lemma WriteToMailbox_cases:
  assumes "WriteToMailbox oks f m = (r, f')"
  obtains (Sent) ms where "r = None" "ReadMailbox True f = Inr ms" "f' = Some (Inbox (map wire (ms @ [m\<lparr>ml_Read := False\<rparr>])))"
  | (Failed) e where "r = Some e" "f' = f \<or> f' = Some NoBytes \<or> (f = None \<and> f' = Some (Inbox []))"
  using assms
  by (auto simp: WriteToMailbox_def solo_send ReadMailbox_def write_brackets_def write_list_def
      split: if_splits option.splits inbox_file.splits)

lemma WriteToMailbox_ok:
  "ReadMailbox True f = Inr ms \<Longrightarrow> WriteToMailbox [] f m = (None, Some (Inbox (map wire (ms @ [m\<lparr>ml_Read := False\<rparr>]))))"
  by (auto simp: WriteToMailbox_def solo_send ReadMailbox_def next_ok_def write_brackets_def write_list_def
      split: option.splits inbox_file.splits)

text \<open>What a broadcast needs of the sending of one message.\<close>

locale inbox_service =
  fixes send :: "nat \<Rightarrow> string \<Rightarrow> home \<Rightarrow> mail_error option \<times> home"
    and inbox_path :: "string \<Rightarrow> string"
    and msg :: mail
  assumes elsewhere: "send k r h = (e, h') \<Longrightarrow> p \<noteq> inbox_path r \<Longrightarrow> h' p = h p"
    and delivers: "send k r h = (None, h') \<Longrightarrow>
      \<exists>ms. ReadMailbox True (inbox_at h (inbox_path r)) = Inr ms
        \<and> ReadMailbox True (inbox_at h' (inbox_path r)) = Inr (map wire (ms @ [msg\<lparr>ml_Read := False\<rparr>]))"
begin

lemma inbox_elsewhere: "send k r h = (e, h') \<Longrightarrow> p \<noteq> inbox_path r \<Longrightarrow> inbox_at h' p = inbox_at h p"
  using elsewhere [of k r h e h' p] by (simp add: inbox_at_def)

lemma each_elsewhere:
  "send_each send k rs h = (errors, h') \<Longrightarrow> p \<notin> inbox_path ` set rs \<Longrightarrow> h' p = h p"
proof (induction rs arbitrary: k h errors)
  case (Cons r rs)
  then obtain e h1 es where "send k r h = (e, h1)" "send_each send (Suc k) rs h1 = (es, h')"
    by (auto split: prod.splits)
  with Cons elsewhere [of k r h e h1 p] show ?case by simp
qed simp

lemma each_delivers:
  assumes "send_each send k rs h = ([], h')" and "ReadMailbox True (inbox_at h p) = Inr ms"
  shows "\<exists>ms'. ReadMailbox True (inbox_at h' p) = Inr ms'
    \<and> map arrived ms' = map arrived ms @ replicate (length (filter (\<lambda>r. inbox_path r = p) rs)) (arrived msg)"
  using assms
proof (induction rs arbitrary: k h ms)
  case (Cons r rs)
  then obtain h1 where s: "send k r h = (None, h1)" "send_each send (Suc k) rs h1 = ([], h')"
    by (auto split: prod.splits if_splits)
  show ?case
  proof (cases "inbox_path r = p")
    case True
    with delivers [OF s(1)] Cons(3) have "ReadMailbox True (inbox_at h1 p) = Inr (map wire (ms @ [msg\<lparr>ml_Read := False\<rparr>]))"
      by auto
    from Cons.IH [OF s(2) this] obtain ms' where "ReadMailbox True (inbox_at h' p) = Inr ms'"
      "map arrived ms' = map arrived (map wire (ms @ [msg\<lparr>ml_Read := False\<rparr>])) @ replicate (length (filter (\<lambda>r. inbox_path r = p) rs)) (arrived msg)"
      by blast
    with True show ?thesis by (simp add: comp_def replicate_app_Cons_same)
  next
    case False
    with inbox_elsewhere [OF s(1)] Cons(3) have "ReadMailbox True (inbox_at h1 p) = Inr ms" by simp
    with Cons.IH [OF s(2) this] False show ?thesis by simp
  qed
qed simp

lemma each_readable:
  "send_each send k rs h = ([], h') \<Longrightarrow> r \<in> set rs \<Longrightarrow> \<exists>ms. ReadMailbox True (inbox_at h (inbox_path r)) = Inr ms"
proof (induction rs arbitrary: k h)
  case (Cons r0 rs)
  then obtain h1 where s: "send k r0 h = (None, h1)" "send_each send (Suc k) rs h1 = ([], h')"
    by (auto split: prod.splits if_splits)
  show ?case
  proof (cases "inbox_path r = inbox_path r0")
    case True
    with delivers [OF s(1)] show ?thesis by auto
  next
    case False
    with Cons.IH [OF s(2)] Cons.prems(2) inbox_elsewhere [OF s(1)] show ?thesis by auto
  qed
qed simp

end

lemma inbox_at_put: "inbox_at (put_inbox p f h) q = (if q = p then f else inbox_at h q)"
  by (auto simp: put_inbox_def inbox_at_def split: option.splits)

lemma put_inbox_elsewhere: "q \<noteq> p \<Longrightarrow> put_inbox p f h q = h q"
  by (simp add: put_inbox_def)

interpretation inboxes: inbox_service "\<lambda>k r. send_one S k r teamName msg" "\<lambda>r. getInboxPath r teamName (to_home S)" msg
proof
  show "h' p = h p" if "send_one S k r teamName msg h = (e, h')" "p \<noteq> getInboxPath r teamName (to_home S)" for k r h e h' p
    using that by (auto simp: send_one_def Let_def put_inbox_elsewhere split: prod.splits)
  show "\<exists>ms. ReadMailbox True (inbox_at h (getInboxPath r teamName (to_home S))) = Inr ms
      \<and> ReadMailbox True (inbox_at h' (getInboxPath r teamName (to_home S))) = Inr (map wire (ms @ [msg\<lparr>ml_Read := False\<rparr>]))"
    if "send_one S k r teamName msg h = (None, h')" for k r h h'
  proof -
    let ?p = "getInboxPath r teamName (to_home S)"
    from that obtain f where f: "WriteToMailbox (to_mail S k) (inbox_at h ?p) msg = (None, f)" "h' = put_inbox ?p f h"
      by (auto simp: send_one_def Let_def split: prod.splits)
    from f(1) show ?thesis by (rule WriteToMailbox_cases) (auto simp: f(2) inbox_at_put ReadMailbox_def)
  qed
qed

text \<open>A broadcast that reports success has put one copy of the message at the end of the inbox of each recipient,
  or as many copies as recipients share that inbox, and has changed no other file.\<close>

theorem broadcast_reaches_everyone:
  assumes "handleBroadcast S teamName content summary h = (MailSent out, h')"
  shows "(\<forall>p. p \<notin> (\<lambda>r. getInboxPath r teamName (to_home S)) ` set (so_Recipients out) \<longrightarrow> h' p = h p)
    \<and> (\<forall>r\<in>set (so_Recipients out). let p = getInboxPath r teamName (to_home S) in
        \<exists>ms ms'. ReadMailbox True (inbox_at h p) = Inr ms \<and> ReadMailbox True (inbox_at h' p) = Inr ms'
          \<and> map arrived ms' = map arrived ms
              @ replicate (length (filter (\<lambda>r'. getInboxPath r' teamName (to_home S) = p) (so_Recipients out)))
                  (arrived (mail_to_send S content summary)))"
proof -
  let ?send = "\<lambda>k r. send_one S k r teamName (mail_to_send S content summary)"
  from assms consider "so_Recipients out = []" "h' = h" | "send_each ?send 0 (so_Recipients out) h = ([], h')"
    by (auto simp: handleBroadcast_def Let_def split: sum.splits option.splits if_splits prod.splits)
  then show ?thesis
  proof cases
    case 2
    note sent = inboxes.each_delivers [OF 2] inboxes.each_readable [OF 2] inboxes.each_elsewhere [OF 2]
    have "\<exists>ms ms'. ReadMailbox True (inbox_at h (getInboxPath r teamName (to_home S))) = Inr ms
        \<and> ReadMailbox True (inbox_at h' (getInboxPath r teamName (to_home S))) = Inr ms'
        \<and> map arrived ms' = map arrived ms
            @ replicate (length (filter (\<lambda>r'. getInboxPath r' teamName (to_home S) = getInboxPath r teamName (to_home S)) (so_Recipients out)))
                (arrived (mail_to_send S content summary))"
      if "r \<in> set (so_Recipients out)" for r
      using sent(1,2) that by blast
    with sent(3) show ?thesis unfolding Let_def by blast
  qed simp
qed

section \<open>Who is busy\<close>

datatype agent_state = StatusIdle | StatusBusy

record agent_status =
  as_AgentID :: string
  as_Name :: string
  as_AgentType :: string
  as_Status :: agent_state
  as_CurrentTasks :: "string list"

record team_status =
  tst_TeamName :: string
  tst_LeadAgentID :: string
  tst_Members :: "agent_status list"

definition uniqueTaskIDs :: "string list list \<Rightarrow> string list" where
  "uniqueTaskIDs groups = foldl (\<lambda>out i. if i = '''' \<or> i \<in> set out then out else out @ [i]) [] (concat groups)"

definition unresolvedByOwner :: "task list \<Rightarrow> string \<Rightarrow> string list" where
  "unresolvedByOwner tasks owner =
    map t_ID (filter (\<lambda>t. t_Status t \<noteq> Completed \<and> trim_space (t_Owner t) \<noteq> '''' \<and> trim_space (t_Owner t) = owner) tasks)"

definition member_status :: "task list \<Rightarrow> team_member \<Rightarrow> agent_status" where
  "member_status tasks m =
    (let currentTasks = sort (uniqueTaskIDs [unresolvedByOwner tasks (tm_Name m), unresolvedByOwner tasks (tm_AgentID m)])
     in \<lparr>as_AgentID = tm_AgentID m, as_Name = tm_Name m, as_AgentType = tm_AgentType m,
         as_Status = (if currentTasks \<noteq> [] then StatusBusy else StatusIdle), as_CurrentTasks = currentTasks\<rparr>)"

definition buildStatus :: "string \<Rightarrow> team_file \<Rightarrow> task list \<Rightarrow> team_status" where
  "buildStatus teamID tf tasks =
    \<lparr>tst_TeamName = (if trim_space (tf_Name tf) = '''' then teamID else trim_space (tf_Name tf)),
     tst_LeadAgentID = tf_LeadAgentID tf, tst_Members = map (member_status tasks) (tf_Members tf)\<rparr>"

text \<open>\<open>user\<close> is \<open>os.UserHomeDir\<close>.\<close>

definition reader_home :: "string \<Rightarrow> string option \<Rightarrow> string" where
  "reader_home HomeDir user =
    (if trim_space HomeDir \<noteq> '''' then HomeDir
     else case user of None \<Rightarrow> ''.'' | Some d \<Rightarrow> if trim_space d = '''' then ''.'' else d)"

text \<open>\<open>teamID\<close> is the identifier of the task list, \<open>listed\<close> what its \<open>List\<close> returns.\<close>

definition CurrentTeamStatus :: "team_os \<Rightarrow> string \<Rightarrow> string option \<Rightarrow> string \<Rightarrow> string + task list \<Rightarrow> home \<Rightarrow> string + team_status option" where
  "CurrentTeamStatus S HomeDir user teamID listed h =
    (let path = join_path [reader_home HomeDir user, ''.claude'', ''teams'', SanitizeName teamID, ''config.json''] in
     if \<not> to_read S path then Inl ''team status: read''
     else case h path of
         None \<Rightarrow> Inr None
       | Some (Config tf) \<Rightarrow> bind_res listed (\<lambda>tasks. Inr (Some (buildStatus teamID tf tasks)))
       | Some _ \<Rightarrow> Inl (''team status: parse '' @ path))"

lemma unique_fold:
  "distinct out \<Longrightarrow> '''' \<notin> set out \<Longrightarrow>
    (let r = foldl (\<lambda>out i. if i = '''' \<or> i \<in> set out then out else out @ [i]) out xs
     in distinct r \<and> set r = set out \<union> (set xs - {''''}))"
proof (induction xs arbitrary: out)
  case (Cons x xs)
  show ?case
  proof (cases "x = '''' \<or> x \<in> set out")
    case True
    with Cons show ?thesis by (auto simp: Let_def)
  next
    case False
    with Cons.IH [of "out @ [x]"] Cons.prems show ?thesis by (auto simp: Let_def)
  qed
qed simp

lemma uniqueTaskIDs_set: "distinct (uniqueTaskIDs gs) \<and> set (uniqueTaskIDs gs) = \<Union> (set ` set gs) - {''''}"
  using unique_fold [of "[]" "concat gs"] by (simp add: uniqueTaskIDs_def Let_def)

text \<open>A member is busy exactly with the unfinished tasks that name it or its identifier as their owner, each
  listed once and in order.\<close>

theorem member_status_exact:
  "set (as_CurrentTasks (member_status tasks m)) = {t_ID t | t. t \<in> set tasks \<and> t_Status t \<noteq> Completed \<and> t_ID t \<noteq> ''''
      \<and> trim_space (t_Owner t) \<noteq> '''' \<and> trim_space (t_Owner t) \<in> {tm_Name m, tm_AgentID m}}
   \<and> distinct (as_CurrentTasks (member_status tasks m)) \<and> sorted (as_CurrentTasks (member_status tasks m))
   \<and> (as_Status (member_status tasks m) = StatusIdle \<longleftrightarrow> as_CurrentTasks (member_status tasks m) = [])"
proof -
  have "set (as_CurrentTasks (member_status tasks m)) =
      set (unresolvedByOwner tasks (tm_Name m)) \<union> set (unresolvedByOwner tasks (tm_AgentID m)) - {''''}"
    by (simp add: member_status_def Let_def uniqueTaskIDs_set)
  then show ?thesis by (auto simp: member_status_def Let_def uniqueTaskIDs_set unresolvedByOwner_def)
qed

section \<open>What a deletion leaves\<close>

lemma SanitizeName_chars: "c \<in> set (SanitizeName s) \<Longrightarrow> c \<noteq> CHR ''/'' \<and> c \<noteq> CHR ''.''"
proof -
  assume c: "c \<in> set (SanitizeName s)"
  then obtain n where n: "c = lower_char (if name_char n then char_of n else CHR ''-'')"
    unfolding SanitizeName_def to_lower_def set_map by blast
  have "byte CHR ''/'' = 47" "byte CHR ''.'' = 46" by (simp_all add: byte_def)
  moreover have "byte c \<noteq> 47 \<and> byte c \<noteq> 46"
    unfolding n by (auto simp: lower_char_def name_char_def byte_def of_char_of Let_def)
  ultimately show ?thesis by metis
qed

lemma SanitizeName_plain: "s \<noteq> '''' \<Longrightarrow> plain_seg (SanitizeName s)"
proof -
  assume "s \<noteq> ''''"
  then have "SanitizeName s \<noteq> ''''"
    by (cases s) (auto simp: SanitizeName_def to_lower_def runes_def split: option.splits prod.splits)
  then show ?thesis using SanitizeName_chars [of "CHR ''/''" s] SanitizeName_chars [of "CHR ''.''" s]
    by (auto simp: plain_seg_def)
qed

lemma path_segs_team:
  assumes "homeDir \<noteq> ''''" "teamName \<noteq> ''''"
  shows "path_segs (TeamDir homeDir teamName) = path_segs homeDir @ [''.claude'', ''teams'', SanitizeName teamName]"
    "path_segs (TaskDir homeDir teamName) = path_segs homeDir @ [''.claude'', ''tasks'', SanitizeName teamName]"
    "is_abs (TeamDir homeDir teamName) = is_abs homeDir"
proof -
  have j: "join_path [homeDir, ''.claude'', d, SanitizeName teamName]
      = path_Clean (homeDir @ ''/'' @ join_str ''/'' [''.claude'', d, SanitizeName teamName])" for d
    using assms(1) by (simp add: join_path_def Let_def)
  have segs: "path_segs (join_path [homeDir, ''.claude'', d, SanitizeName teamName])
      = path_segs homeDir @ [''.claude'', d, SanitizeName teamName]" if "plain_seg d" for d
    unfolding j path_segs_Clean
    by (rule path_segs_append) (use assms that SanitizeName_plain in \<open>auto simp: plain_seg_def\<close>)
  show "path_segs (TeamDir homeDir teamName) = path_segs homeDir @ [''.claude'', ''teams'', SanitizeName teamName]"
    "path_segs (TaskDir homeDir teamName) = path_segs homeDir @ [''.claude'', ''tasks'', SanitizeName teamName]"
    by (simp_all add: TeamDir_def TaskDir_def segs plain_seg_def)
  show "is_abs (TeamDir homeDir teamName) = is_abs homeDir"
    unfolding TeamDir_def j is_abs_Clean using assms(1) by (cases homeDir) (auto simp: is_abs_def has_prefix_def)
qed

text \<open>
  A team's inboxes lie in its directory only when the two packages write its name alike. \<open>team\<close>
  lowers it and keeps no underscore, \<open>mailbox\<close> keeps both, so deleting the team \<open>Alpha_1\<close> leaves its inboxes
  where they are, for the next team of that name.
\<close>

theorem deletion_of_inboxes_exact:
  assumes "to_home S \<noteq> ''''" "teamName \<noteq> ''''" "to_remove S (TeamDir (to_home S) teamName)"
  shows "DeleteTeamDirectories S teamName h (getInboxPath agent teamName (to_home S)) =
    (if SanitizeName teamName = sanitizeName teamName then None else h (getInboxPath agent teamName (to_home S)))"
proof -
  let ?p = "getInboxPath agent teamName (to_home S)"
  note segs = path_segs_inbox [OF assms(1), of agent teamName] path_segs_team [OF assms(1,2)]
  have t: "below (TeamDir (to_home S) teamName) ?p \<longleftrightarrow> SanitizeName teamName = sanitizeName teamName"
    using assms(2) by (auto simp: below_def segs)
  have k: "\<not> below (TaskDir (to_home S) teamName) ?p"
    by (simp add: below_def segs)
  show ?thesis using assms(3) t k by (simp add: DeleteTeamDirectories_def RemoveAll_def)
qed

lemma Alpha_names: "SanitizeName ''Alpha_1'' = ''alpha-1''" "sanitizeName ''Alpha_1'' = ''Alpha_1''"
  by (simp_all add: SanitizeName_def sanitizeName_def runes_ascii byte_def name_char_def name_rune_def to_lower_def lower_char_def)
     code_simp+

section \<open>Nobody joins a team\<close>

datatype team_op =
    OpCreate team_os tool_input
  | OpDelete team_os tool_input
  | OpSend team_os "mail_error \<Rightarrow> string" tool_input

fun team_step :: "team_op \<Rightarrow> home \<Rightarrow> home" where
  "team_step (OpCreate S i) h = snd (TeamCreate_Invoke S i h)"
| "team_step (OpDelete S i) h = snd (TeamDelete_Invoke S i h)"
| "team_step (OpSend S err i) h = snd (SendMessage_Invoke S err i h)"

definition only_leads :: "home \<Rightarrow> bool" where
  "only_leads h \<longleftrightarrow> (\<forall>p tf. h p = Some (Config tf) \<longrightarrow> map tm_Name (tf_Members tf) = [''team-lead''])"

lemma only_leads_shrink: "only_leads h \<Longrightarrow> (\<And>p tf. h' p = Some (Config tf) \<Longrightarrow> h p = Some (Config tf)) \<Longrightarrow> only_leads h'"
  unfolding only_leads_def by blast

lemma put_inbox_configs: "put_inbox p f h q = Some (Config tf) \<Longrightarrow> h q = Some (Config tf)"
  by (auto simp: put_inbox_def split: if_splits)

lemma send_one_configs: "send_one S k r teamName m h = (e, h') \<Longrightarrow> h' q = Some (Config tf) \<Longrightarrow> h q = Some (Config tf)"
  by (auto simp: send_one_def Let_def split: prod.splits dest: put_inbox_configs)

lemma send_each_configs:
  "send_each (\<lambda>k r. send_one S k r teamName m) k rs h = (es, h') \<Longrightarrow> h' q = Some (Config tf) \<Longrightarrow> h q = Some (Config tf)"
proof (induction rs arbitrary: k h es)
  case (Cons r rs)
  then obtain e h1 es' where "send_one S k r teamName m h = (e, h1)" "send_each (\<lambda>k r. send_one S k r teamName m) (Suc k) rs h1 = (es', h')"
    by (auto split: prod.splits)
  with Cons send_one_configs show ?case by blast
qed simp

lemma handleMessage_home:
  "\<exists>e. send_one S 0 r teamName (mail_to_send S content summary) h = (e, snd (handleMessage S err r teamName content summary h))"
  by (simp add: handleMessage_def split: prod.split option.split)

lemma handleBroadcast_home:
  "snd (handleBroadcast S teamName content summary h) = h \<or>
   (\<exists>rs es. send_each (\<lambda>k r. send_one S k r teamName (mail_to_send S content summary)) 0 rs h =
      (es, snd (handleBroadcast S teamName content summary h)))"
  by (auto simp: handleBroadcast_def Let_def split: prod.split sum.split option.split)

lemma if_cases_in: "(b \<Longrightarrow> x \<in> A) \<Longrightarrow> (\<not> b \<Longrightarrow> y \<in> A) \<Longrightarrow> (if b then x else y) \<in> A"
  by simp

lemma SendMessage_home:
  "snd (SendMessage_Invoke S err i h) \<in>
     {h} \<union> {snd (handleMessage S err r t m s h) | r t m s. True} \<union> {snd (handleBroadcast S t m s h) | t m s. True}"
proof (cases "DecodeInput send_schema decode_send i")
  case (Inr j)
  show ?thesis unfolding SendMessage_Invoke_def Inr sum.case Let_def if_distrib [of snd] snd_conv
    by (intro if_cases_in) blast+
qed (simp add: SendMessage_Invoke_def)

lemma send_configs:
  assumes "snd (SendMessage_Invoke S err i h) q = Some (Config tf)"
  shows "h q = Some (Config tf)"
proof -
  have m: "h q = Some (Config tf)" if "snd (handleMessage S err r t m s h) q = Some (Config tf)" for r t m s
    using handleMessage_home [of S r t m s h err] send_one_configs that by blast
  have b: "h q = Some (Config tf)" if "snd (handleBroadcast S t m s h) q = Some (Config tf)" for t m s
    using handleBroadcast_home [of S t m s h] send_each_configs that by metis
  from SendMessage_home [of S err i h] assms m b show ?thesis by (elim UnE CollectE exE conjE singletonE) auto
qed

lemma lead_name: "json_text ''team-lead'' = ''team-lead''"
  by (rule json_text_ascii) (simp add: byte_def)

lemma only_leads_create: "only_leads h \<Longrightarrow> only_leads (snd (TeamCreate_Invoke S i h))"
  by (auto simp: TeamCreate_Invoke_def WriteTeamFile_def new_team_def team_wire_def member_wire_def only_leads_def lead_name Let_def
      split: sum.splits option.splits if_splits)

lemma only_leads_delete: "only_leads h \<Longrightarrow> only_leads (snd (TeamDelete_Invoke S i h))"
  by (auto simp: TeamDelete_Invoke_def DeleteTeamDirectories_def RemoveAll_def Let_def
      split: sum.splits option.splits if_splits elim!: only_leads_shrink)

interpretation team_tools: op_machine team_step only_leads
proof
  fix h op assume "only_leads h"
  then show "only_leads (team_step op h)"
    by (cases op) (auto intro: only_leads_create only_leads_delete elim: only_leads_shrink dest: send_configs)
qed

text \<open>A broadcast reaches nobody but the lead: no operation of the repository adds a member to a team after its
  creation, so after any creations, deletions and sends in a home without teams the recipients of a
  broadcast are the lead, or nobody when the lead sends it.\<close>

theorem broadcast_reaches_only_the_lead:
  assumes "\<forall>p tf. h0 p \<noteq> Some (Config tf)"
    and "handleBroadcast S teamName content summary (fold team_step ops h0) = (MailSent out, h')"
  shows "so_Recipients out = (if to_lower (senderName S) = ''team-lead'' then [] else [''team-lead''])"
proof -
  let ?h = "fold team_step ops h0"
  have "only_leads h0" using assms(1) by (simp add: only_leads_def)
  then have I: "only_leads ?h" by (rule team_tools.run_inv)
  from assms(2) obtain tf where tf: "?h (TeamFilePath (to_home S) teamName) = Some (Config tf)" "so_Recipients out = recipients_of (senderName S) tf"
    by (auto simp: handleBroadcast_def ReadTeamFile_def Let_def split: sum.splits option.splits home_file.splits if_splits prod.splits)
  have "map tm_Name (tf_Members tf) = [''team-lead'']" using I tf(1) unfolding only_leads_def by blast
  moreover have "to_lower ''team-lead'' = ''team-lead''" by (simp add: to_lower_def lower_char_def)
  ultimately show ?thesis by (auto simp: tf(2) recipients_of_def)
qed

end
