(* ===== verification/Spec2Isabelle.thy ===== *)
theory Spec2Isabelle
  imports Registries Provider_Clients Compaction Task_Store Streaming_Tools Permission Cron_Scheduler Tool_Execution Engine_History
    Bash_Tool File_Changes Settings_Facts Teams
begin

text \<open>
  The core of \<open>claude-code-go\<close>, a coding agent for the terminal. Paths below are under \<open>src/internal\<close>.

  \<^bold>\<open>The program.\<close> A user's turn enters the engine (\<open>runtime/engine\<close>). The engine keeps the history of the
  conversation, compacts it when it grows (\<open>core/compact\<close>), sends it to a model through clients with
  circuit breakers, retries and fallbacks (\<open>core/model\<close>, \<open>runtime/engine/retry.go\<close>), and reads the stream
  of the answer. Tools the answer calls start while it still streams
  (\<open>runtime/engine/streaming_tool.go\<close>); each call passes the hooks of the user (\<open>runtime/hooks\<close>), the
  executor (\<open>runtime/executor\<close>), the permission rules (\<open>core/permission\<close>, \<open>platform/shell\<close>) and perhaps
  a question to the user (\<open>runtime/approval\<close>). The results form the next message and the loop goes on
  until the model calls no tool. Beside this loop stand the task list (\<open>core/task\<close>), the background
  tasks (\<open>runtime/session\<close>), the scheduler of timed prompts (\<open>runtime/cron\<close>) and the registries of
  agents, tools and commands. Agents of a team write to each other's inboxes (\<open>platform/mailbox\<close>,
  \<open>platform/team\<close>). What of all this is in force is decided at the start, when the settings of
  several files are loaded and merged (\<open>platform/config\<close>, \<open>core/config\<close>).

  \<^bold>\<open>Foundations.\<close> \<open>Prelude\<close>: results as sums, 64-bit arithmetic (\<open>wrap64\<close>), Go's string functions, the two
  contracts of state machines (\<open>op_machine\<close> for operations, \<open>step_invariant\<close> for step relations).
  \<open>Floats\<close>: float64 conversions with their rounding. \<open>Paths\<close>: \<open>path.Clean\<close>, \<open>Join\<close>, \<open>Rel\<close>, \<open>Match\<close>.
  \<open>Regexp\<close>: regular expressions as data with a matcher and its meaning. \<open>Go_Text\<close>: UTF-8 decoding and
  encoding, \<open>strings.Count\<close> and \<open>Replace\<close>.

  \<^bold>\<open>Registries.\<close> \<open>Registries\<close> models \<open>core/agent\<close>, \<open>core/tool\<close> and \<open>core/command\<close> registries;
  \<open>name_registry\<close> is their contract, interpreted on the agent and tool registries.

  \<^bold>\<open>Model clients.\<close> \<open>Provider_Errors\<close> (\<open>provider_error.go\<close>, \<open>retry.go\<close>), \<open>Circuit_Breaker\<close>
  (\<open>circuit_breaker.go\<close>) and \<open>Provider_Clients\<close> (guarded client, pool, fallback). The invariant of a breaker
  carries over to nets of clients by \<open>model_client\<close>.

  \<^bold>\<open>Conversation.\<close> \<open>Conversation\<close> (\<open>core/message\<close>, \<open>core/model\<close>), \<open>Summary_Format\<close> and \<open>Compaction\<close>
  (\<open>core/compact\<close>): what a compaction keeps, how often it calls the model.

  \<^bold>\<open>Tools of an answer.\<close> \<open>Tool_Cycle\<close> (\<open>tool_cycle.go\<close>, \<open>sibling_cascade.go\<close>); \<open>Streaming_Tools\<close>, a step
  relation that interleaves the stream with the goroutines of the tools, with its invariant, mutual
  exclusion, exactly-once delivery and termination; \<open>Hooks\<close>; \<open>Tool_Execution\<close> (\<open>executeToolUse\<close> and the
  approval service); \<open>Tool_Runner\<close>, which connects them and shows what every schedule returns.

  \<^bold>\<open>Engine.\<close> \<open>Engine_Stream\<close> (\<open>streamAndConsume\<close>), \<open>Engine_Loop\<close> (\<open>Run\<close>, \<open>runLoop\<close>), \<open>Engine_History\<close>: the
  history as a protocol of requests and answers, refined by the passes of the loop; without automatic
  compaction a finished turn adds a dialogue of rounds, texts and a last answer (\<open>dialogue\<close>). Contracts:
  \<open>call_contract\<close> of a model call, \<open>clean_call\<close> and \<open>tidy_tools\<close> of what keeps the history paired.

  \<^bold>\<open>Permission.\<close> \<open>Permission\<close> (rules, grants, the file system policy), \<open>Bash_Permission\<close> (\<open>Bash(...)\<close>
  rules), \<open>Bash_Scan\<close> (\<open>security_scanner.go\<close>), \<open>Sed_Guard\<close> (\<open>sed_validation.go\<close>), \<open>Team_Memory\<close>
  (\<open>team_memory.go\<close>).

  \<^bold>\<open>Tools.\<close> \<open>Tool_Schema\<close> (\<open>core/tool/schema.go\<close>) decodes every input. \<open>Background_Tasks\<close> and \<open>Bash_Tool\<close>
  model \<open>services/tools/bash\<close> with \<open>runtime/session/background_tasks.go\<close>; \<open>File_Text\<close>, \<open>File_Tools\<close> and
  \<open>File_Changes\<close> model \<open>file_read\<close>, \<open>file_edit\<close>, \<open>file_write\<close> with \<open>runtime/executor\<close>: which calls may
  change a file, what an edit writes, how a read opens a file for edits.

  \<^bold>\<open>Settings.\<close> \<open>Settings\<close> (\<open>core/config\<close>: the configuration and the merge of layers, associative),
  \<open>Settings_Load\<close> (\<open>platform/config\<close>: decoding, the layers of user, project, organisation and command
  line, the environment, the record of trusted directories, the start of the application) and
  \<open>Settings_Facts\<close>: what a workspace that is not trusted can change, which policies are lost.

  \<^bold>\<open>Task list and scheduler.\<close> \<open>Task_Store\<close> (files of tasks, identifiers, dependencies, claims; the
  directory meets \<open>keyed_store\<close>), \<open>Cron_Compute\<close> (parser and next run) and \<open>Cron_Scheduler\<close> (jitter, ticks,
  the task file, the lock).

  \<^bold>\<open>Teams.\<close> \<open>Mailbox\<close> (\<open>mailbox.go\<close>, \<open>inbox_poller.go\<close>): every system call of a send, a marking, a clearing
  and a poll is a stage, and the stages of the goroutines of several processes interleave; an inbox
  refines the list its committed operations make. \<open>Teams\<close> (\<open>platform/team\<close>, \<open>services/tools/team_create\<close>,
  \<open>team_delete\<close>, \<open>send_message\<close>): the tools and the status of a team, with \<open>inbox_service\<close> as what a broadcast
  needs of a send; it is interpreted on the stages of \<open>Mailbox\<close>, run alone.

  \<^bold>\<open>Reading the models.\<close> A struct is a record, a pointer that may be nil an option, an error the left of a
  sum or an option; a method that changes its receiver returns the new state. \<open>int\<close> values are
  \<open>int\<close> wrapped with \<open>wrap64\<close> where the code can overflow; strings are bytes. A method under a mutex is
  one step. Code outside the repository (providers, processes, the clock, files where not modelled)
  is an argument, usually a field of a record named after its user. Log lines and analytics are
  left out.

  \<^bold>\<open>Loops and fuel.\<close> The search for the next run goes at most \<open>366 * 24 * 60\<close> rounds, as the code's does.
  The upward search of a range in the parser is \<open>while_option\<close>: \<open>None\<close> is a loop that does not end, and
  is reached. Waiting for tools takes as fuel the load of the executor, which every step decreases
  (\<open>streaming_drains\<close>). The engine's loop takes a number of passes; \<open>run_loop_returns\<close> gives one that is
  enough when each answer reports fewer than 2^32 tokens (sums of larger counts can wrap, and then
  the budget does not end the turn), and \<open>blocking_stop_hook_never_ends\<close> shows a stop hook for which none is. A starred regular
  expression is unrolled as often as the text is long.

  \<^bold>\<open>Not modelled.\<close> Input and output and its formats: the provider clients (HTTP and the wire formats),
  the console and the interactive session, transcripts, MCP and LSP servers, web tools, processes.
  Wiring: \<open>app/bootstrap\<close>, \<open>app/wiring\<close>. Logic that is left for a later extension: the PowerShell tool with
  its parser and allow lists, the settings schema and the writers of settings, searching tools (glob,
  grep), notebook, image and PDF files, sub-agents and their protocol messages, micro-compaction, plugins,
  memory extraction. In the modelled files: statistics, the tool-use summary, the concurrency limit of the
  tool cycle, failing file operations of the task store and of the scheduler's file.
\<close>

end
